(* ===== verification/Taskvisor_Prelude.thy ===== *)
theory Taskvisor_Prelude
  imports Main "HOL-Library.Word" "HOL-Library.Finite_Map" "HOL-Library.Char_ord"
    "HOL-Library.List_Lexorder" "HOL-Library.Multiset"
begin

text \<open>
  Shared vocabulary of the development: the type synonyms of the model (identities, names,
  instants, durations), Rust's \<open>Result\<close> and its standard-library helpers the sources use,
  the generic facts on finite maps and lists that the component theories rely on, and the
  locales for invariants and refinement of step relations.

  A Rust \<open>HashMap\<close> is a finite map (\<open>fmap\<close>); its length is the cardinality of its domain and
  an iteration visits its entries in key order (the order of a \<open>HashMap\<close> is unspecified, so no
  property depends on it). A Rust \<open>VecDeque\<close> is a list whose head is the front.
\<close>

named_theorems map_len_simps \<open>length of a hash map after an update\<close>

section \<open>Type synonyms\<close>

type_synonym task_id = "64 word"
type_synonym name = string
type_synonym instant = nat

text \<open>A \<open>Duration\<close> as its total number of nanoseconds.\<close>

type_synonym duration = nat

text \<open>Rust's \<open>Result<T, E>\<close>: \<open>Inl\<close> carries the error, \<open>Inr\<close> the value.\<close>

type_synonym ('e, 'a) result = "'e + 'a"

section \<open>Hash maps\<close>

definition hm_len :: "('k, 'v) fmap \<Rightarrow> nat" where
  "hm_len m = fcard (fmdom m)"

lemma hm_len_empty [simp]: "hm_len fmempty = 0"
  by (simp add: hm_len_def)

lemma hm_len_insert_fresh [map_len_simps]:
  "fmlookup m k = None \<Longrightarrow> hm_len (fmupd k v m) = Suc (hm_len m)"
  by (simp add: hm_len_def fcard_finsert_disjoint fmdom_notI)

lemma hm_len_insert_present [map_len_simps]:
  "fmlookup m k \<noteq> None \<Longrightarrow> hm_len (fmupd k v m) = hm_len m"
  by (auto simp: hm_len_def finsert_absorb fmdomI)

lemma hm_len_remove_present:
  "fmlookup m k = Some v \<Longrightarrow> hm_len m = Suc (hm_len (fmdrop k m))"
  by (simp only: hm_len_def fmdom_drop fcard_Suc_fminus1 fmdomI)

lemma hm_len_remove_absent [map_len_simps]:
  "fmlookup m k = None \<Longrightarrow> hm_len (fmdrop k m) = hm_len m"
  by (metis fmdrop_fmupd_same fmdrop_idle fmdom_notI)

lemma hm_len_remove_le: "hm_len (fmdrop k m) \<le> hm_len m"
  by (cases "fmlookup m k") (auto simp: map_len_simps dest: hm_len_remove_present)

lemma hm_len_insert_le: "hm_len (fmupd k v m) \<le> Suc (hm_len m)"
  by (cases "fmlookup m k") (simp_all add: map_len_simps)

lemma hm_len_zero_iff: "hm_len m = 0 \<longleftrightarrow> m = fmempty"
proof
  assume "hm_len m = 0"
  then have "fmdom m = {||}" by (simp add: hm_len_def)
  then have "fmlookup m k = fmlookup fmempty k" for k
    by (simp add: fmdom_notD)
  then show "m = fmempty" by (auto intro: fmap_ext)
qed simp

definition hm_keys :: "('k :: linorder, 'v) fmap \<Rightarrow> 'k list" where
  "hm_keys m = sorted_list_of_fset (fmdom m)"

definition hm_entries :: "('k :: linorder, 'v) fmap \<Rightarrow> ('k \<times> 'v) list" where
  "hm_entries m = map (\<lambda>k. (k, the (fmlookup m k))) (hm_keys m)"

lemma hm_keys_set [simp]: "set (hm_keys m) = fset (fmdom m)"
  by (simp add: hm_keys_def)

lemma hm_keys_distinct [simp]: "distinct (hm_keys m)"
  by (simp add: hm_keys_def sorted_list_of_fset.rep_eq)

lemma hm_keys_sorted: "sorted (hm_keys m)"
  by (simp add: hm_keys_def sorted_list_of_fset.rep_eq)

lemma hm_entries_iff: "(k, v) \<in> set (hm_entries m) \<longleftrightarrow> fmlookup m k = Some v"
  by (auto simp: hm_entries_def fmlookup_dom_iff intro!: rev_image_eqI)

lemma hm_entries_keys: "map fst (hm_entries m) = hm_keys m"
  by (simp add: hm_entries_def comp_def)

text \<open>The sum of a measure over the values of a map.\<close>

definition fm_sum :: "('v \<Rightarrow> 'a :: comm_monoid_add) \<Rightarrow> ('k, 'v) fmap \<Rightarrow> 'a" where
  "fm_sum f m = (\<Sum>k \<in> fset (fmdom m). f (the (fmlookup m k)))"

lemma fm_sum_empty [simp]: "fm_sum f fmempty = 0"
  by (simp add: fm_sum_def)

lemma fm_sum_drop_absent: "fmlookup m k = None \<Longrightarrow> fm_sum f (fmdrop k m) = fm_sum f m"
  by (metis fmdom_notI fmdrop_idle)

lemma fm_sum_upd: "fm_sum f (fmupd k v m) = f v + fm_sum f (fmdrop k m)"
proof -
  have "fm_sum f (fmupd k v m) =
      (\<Sum>j \<in> insert k (fset (fmdom m) - {k}). f (the (fmlookup (fmupd k v m) j)))"
    by (simp add: fm_sum_def)
  also have "\<dots> = f v + (\<Sum>j \<in> fset (fmdom m) - {k}. f (the (fmlookup (fmupd k v m) j)))"
    by (subst sum.insert) auto
  also have "(\<Sum>j \<in> fset (fmdom m) - {k}. f (the (fmlookup (fmupd k v m) j)))
      = fm_sum f (fmdrop k m)"
    unfolding fm_sum_def by (rule sum.cong) auto
  finally show ?thesis .
qed

lemma fmupd_lookup_same: "fmlookup m k = Some v \<Longrightarrow> fmupd k v m = m"
  by (rule fmap_ext) auto

lemma fm_sum_lookup: "fmlookup m k = Some v \<Longrightarrow> fm_sum f m = f v + fm_sum f (fmdrop k m)"
  by (metis fm_sum_upd fmupd_lookup_same)

section \<open>Lists as double-ended queues\<close>

text \<open>\<open>VecDeque::remove(position)\<close>: \<open>None\<close> when the position is out of range.\<close>

definition list_remove_at :: "nat \<Rightarrow> 'a list \<Rightarrow> 'a list" where
  "list_remove_at i xs = take i xs @ drop (Suc i) xs"

text \<open>\<open>iter().position(p)\<close>: the first index whose element satisfies the predicate.\<close>

fun list_position :: "('a \<Rightarrow> bool) \<Rightarrow> 'a list \<Rightarrow> nat option" where
  "list_position p [] = None"
| "list_position p (x # xs) = (if p x then Some 0 else map_option Suc (list_position p xs))"

lemma list_position_None: "list_position p xs = None \<longleftrightarrow> (\<forall>x \<in> set xs. \<not> p x)"
  by (induction xs) auto

lemma list_position_Some:
  "list_position p xs = Some i \<Longrightarrow>
     i < length xs \<and> p (xs ! i) \<and> (\<forall>j < i. \<not> p (xs ! j))"
proof (induction xs arbitrary: i)
  case (Cons x xs)
  show ?case
  proof (cases "p x")
    case False
    with Cons.prems obtain k where "list_position p xs = Some k" and "i = Suc k" by auto
    with Cons.IH[of k] False show ?thesis by (auto simp: less_Suc_eq_0_disj)
  qed (use Cons.prems in auto)
qed simp

lemma list_remove_at_split:
  "i < length xs \<Longrightarrow> xs = take i xs @ xs ! i # drop (Suc i) xs"
  by (rule id_take_nth_drop)

lemma mset_list_remove_at:
  "i < length xs \<Longrightarrow> mset xs = add_mset (xs ! i) (mset (list_remove_at i xs))"
  by (subst list_remove_at_split[of i xs]) (simp_all add: list_remove_at_def)

lemma length_list_remove_at: "i < length xs \<Longrightarrow> length (list_remove_at i xs) = length xs - 1"
  by (simp add: list_remove_at_def)

lemma map_list_remove_at: "map f (list_remove_at i xs) = list_remove_at i (map f xs)"
  by (simp add: list_remove_at_def take_map drop_map)

lemma distinct_list_remove_at:
  "distinct xs \<Longrightarrow> distinct (list_remove_at i xs)"
  by (simp add: list_remove_at_def)
    (meson in_set_dropD in_set_takeD set_take_disj_set_drop_if_distinct lessI less_imp_le)

lemma set_list_remove_at:
  assumes "distinct xs" and "i < length xs"
  shows "set (list_remove_at i xs) = set xs - {xs ! i}"
proof -
  have "mset xs = add_mset (xs ! i) (mset (list_remove_at i xs))"
    using assms(2) by (rule mset_list_remove_at)
  moreover from this assms(1) have "xs ! i \<notin> set (list_remove_at i xs)"
    by (metis add_mset_remove_trivial count_mset_0_iff distinct_count_atmost_1 count_add_mset
        nat.inject nth_mem assms(2) set_mset_mset union_single_eq_member zero_neq_one One_nat_def)
  ultimately show ?thesis
    by (metis Diff_insert_absorb set_mset_add_mset_insert set_mset_mset)
qed

section \<open>Accounts\<close>

text \<open>The multiset of the value of an option, for conservation laws.\<close>

definition opt_mset :: "'a option \<Rightarrow> 'a multiset" where
  "opt_mset x = (case x of None \<Rightarrow> {#} | Some a \<Rightarrow> {#a#})"

section \<open>Step relations\<close>

locale inductive_invariant =
  fixes init :: "'s \<Rightarrow> bool" and step :: "'s \<Rightarrow> 's \<Rightarrow> bool" and good :: "'s \<Rightarrow> bool"
  assumes good_init: "init s \<Longrightarrow> good s"
    and good_step: "good s \<Longrightarrow> step s t \<Longrightarrow> good t"
begin

lemma good_run: "step\<^sup>*\<^sup>* s t \<Longrightarrow> good s \<Longrightarrow> good t"
  by (induction rule: rtranclp_induct) (auto intro: good_step)

lemma good_reachable: "init s \<Longrightarrow> step\<^sup>*\<^sup>* s t \<Longrightarrow> good t"
  using good_run good_init by blast

end

text \<open>
  A step relation refines an abstract one when every step is matched by abstract steps (possibly
  none) between the abstractions, in states that satisfy the invariant.
\<close>

locale refinement = inductive_invariant init step good
  for init :: "'s \<Rightarrow> bool" and step :: "'s \<Rightarrow> 's \<Rightarrow> bool" and good :: "'s \<Rightarrow> bool" +
  fixes astep :: "'a \<Rightarrow> 'a \<Rightarrow> bool" and abs :: "'s \<Rightarrow> 'a"
  assumes matched: "good s \<Longrightarrow> step s t \<Longrightarrow> astep\<^sup>*\<^sup>* (abs s) (abs t)"
begin

lemma run_matched: "step\<^sup>*\<^sup>* s t \<Longrightarrow> good s \<Longrightarrow> astep\<^sup>*\<^sup>* (abs s) (abs t)"
proof (induction rule: rtranclp_induct)
  case (step y z)
  then have "good y" using good_run by blast
  with step show ?case using matched by (meson rtranclp_trans)
qed simp

end

section \<open>Fixed-width helpers of the standard library\<close>

text \<open>\<open>usize\<close> and \<open>u64\<close> are 64 bits wide on the targets the crate supports.\<close>

definition u64_max :: nat where
  "u64_max = 2 ^ 64 - 1"

definition u32_max :: nat where
  "u32_max = 2 ^ 32 - 1"

definition checked_add_usize :: "nat \<Rightarrow> nat \<Rightarrow> nat option" where
  "checked_add_usize a b = (if a + b \<le> u64_max then Some (a + b) else None)"

end
