(* ===== verification/Errors.thy ===== *)
theory Errors
  imports Taskvisor_Prelude
begin

text \<open>
  The error values and categories that cross component boundaries
  (\<^verbatim>\<open>src/src/error.rs\<close>, \<^verbatim>\<open>src/src/reasons.rs\<close>, \<^verbatim>\<open>src/src/core/outcome.rs\<close> and the rejection
  categories of \<^verbatim>\<open>src/src/events/event.rs\<close>), with their stable labels.

  A diagnostic text built by \<open>format!\<close> is the list of its parts: literal text and the displayed
  arguments. Rendering an argument to characters is the only step left out.
\<close>

section \<open>Runtime errors\<close>

text \<open>\<open>std::io::Error\<close> is represented by its message.\<close>

type_synonym io_error = string

datatype runtime_error =
    TokioRuntimeUnavailable
  | ThreadStartFailed string io_error
  | GraceExceeded duration "name list"
  | TaskAlreadyExists name
  | ResourceLimitReached string nat
  | CommandQueueFull
  | OwnershipAdmissionTimeout duration
  | TaskTerminationTimeout task_id duration
  | OutcomeUnavailable task_id
  | SignalSetupFailed io_error
  | ShuttingDown
  | AlreadyRunning

fun runtime_error_label :: "runtime_error \<Rightarrow> string" where
  "runtime_error_label TokioRuntimeUnavailable = ''runtime_tokio_runtime_unavailable''"
| "runtime_error_label (ThreadStartFailed _ _) = ''runtime_thread_start_failed''"
| "runtime_error_label (GraceExceeded _ _) = ''runtime_grace_exceeded''"
| "runtime_error_label (TaskAlreadyExists _) = ''runtime_task_already_exists''"
| "runtime_error_label (ResourceLimitReached _ _) = ''runtime_resource_limit_reached''"
| "runtime_error_label CommandQueueFull = ''runtime_command_queue_full''"
| "runtime_error_label (OwnershipAdmissionTimeout _) = ''runtime_ownership_admission_timeout''"
| "runtime_error_label (TaskTerminationTimeout _ _) = ''runtime_task_termination_timeout''"
| "runtime_error_label (OutcomeUnavailable _) = ''runtime_outcome_unavailable''"
| "runtime_error_label (SignalSetupFailed _) = ''runtime_signal_setup_failed''"
| "runtime_error_label ShuttingDown = ''runtime_shutting_down''"
| "runtime_error_label AlreadyRunning = ''runtime_already_running''"

section \<open>Task errors\<close>

text \<open>The boxed \<open>source\<close> of an error is represented by its message.\<close>

datatype task_error =
    Timeout duration
  | Fatal string "int option" "string option"
  | Fail string "int option" "string option"
  | Canceled

definition task_error_fail :: "string \<Rightarrow> task_error" where
  "task_error_fail reason = Fail reason None None"

definition task_error_fatal :: "string \<Rightarrow> task_error" where
  "task_error_fatal reason = Fatal reason None None"

definition task_error_fail_from :: "string \<Rightarrow> task_error" where
  "task_error_fail_from source = Fail source None (Some source)"

definition task_error_fatal_from :: "string \<Rightarrow> task_error" where
  "task_error_fatal_from source = Fatal source None (Some source)"

fun with_exit_code :: "task_error \<Rightarrow> int option \<Rightarrow> task_error" where
  "with_exit_code (Fail r _ s) code = Fail r code s"
| "with_exit_code (Fatal r _ s) code = Fatal r code s"
| "with_exit_code e code = e"

fun with_source :: "task_error \<Rightarrow> string \<Rightarrow> task_error" where
  "with_source (Fail r c _) src = Fail r c (Some src)"
| "with_source (Fatal r c _) src = Fatal r c (Some src)"
| "with_source e src = e"

fun into_source :: "task_error \<Rightarrow> string option" where
  "into_source (Fail _ _ s) = s"
| "into_source (Fatal _ _ s) = s"
| "into_source _ = None"

fun task_error_label :: "task_error \<Rightarrow> string" where
  "task_error_label (Timeout _) = ''task_timeout''"
| "task_error_label (Fatal _ _ _) = ''task_fatal''"
| "task_error_label (Fail _ _ _) = ''task_failed''"
| "task_error_label Canceled = ''task_canceled''"

fun is_retryable :: "task_error \<Rightarrow> bool" where
  "is_retryable (Timeout _) = True"
| "is_retryable (Fail _ _ _) = True"
| "is_retryable _ = False"

fun is_fatal :: "task_error \<Rightarrow> bool" where
  "is_fatal (Fatal _ _ _) = True"
| "is_fatal _ = False"

fun task_error_exit_code :: "task_error \<Rightarrow> int option" where
  "task_error_exit_code (Fatal _ c _) = c"
| "task_error_exit_code (Fail _ c _) = c"
| "task_error_exit_code (Timeout _) = None"
| "task_error_exit_code Canceled = None"

section \<open>Rejection categories\<close>

datatype rejection_kind =
    AlreadyExists
  | BatchRejected
  | SlotBusy
  | QueueFull
  | SupersededByReplace
  | RemovedFromQueue
  | ControllerShuttingDown
  | AdmissionFailed
  | ResourceLimit

fun rejection_kind_label :: "rejection_kind \<Rightarrow> string" where
  "rejection_kind_label AlreadyExists = ''already_exists''"
| "rejection_kind_label BatchRejected = ''batch_rejected''"
| "rejection_kind_label SlotBusy = ''slot_busy''"
| "rejection_kind_label QueueFull = ''queue_full''"
| "rejection_kind_label SupersededByReplace = ''superseded_by_replace''"
| "rejection_kind_label RemovedFromQueue = ''removed_from_queue''"
| "rejection_kind_label ControllerShuttingDown = ''controller_shutting_down''"
| "rejection_kind_label AdmissionFailed = ''admission_failed''"
| "rejection_kind_label ResourceLimit = ''resource_limit''"

section \<open>Diagnostic text\<close>

datatype fmt_part = Lit string | NatArg nat | StrArg string | DurArg duration | ErrArg runtime_error

type_synonym reason = "fmt_part list"

text \<open>\<open>Display\<close> of a task error; a duration is printed with its \<open>Debug\<close> format.\<close>

fun task_error_display :: "task_error \<Rightarrow> reason" where
  "task_error_display (Timeout d) = [Lit ''timed out after '', DurArg d]"
| "task_error_display (Fatal r _ _) = [Lit ''fatal error (no retry): '', StrArg r]"
| "task_error_display (Fail r _ _) = [Lit ''execution failed: '', StrArg r]"
| "task_error_display Canceled = [Lit ''context canceled'']"

definition already_exists_text :: reason where
  "already_exists_text = [Lit ''a registered task already uses this name'']"

definition batch_rejected_text :: reason where
  "batch_rejected_text = [Lit ''another item rejected the all-or-nothing batch'']"

definition removed_from_queue_text :: reason where
  "removed_from_queue_text = [Lit ''removed from controller queue before start'']"

definition superseded_by_replace_text :: reason where
  "superseded_by_replace_text = [Lit ''superseded by a newer replacement'']"

definition controller_shutting_down_text :: reason where
  "controller_shutting_down_text = [Lit ''controller is shutting down'']"

definition controller_admission_interrupted_text :: reason where
  "controller_admission_interrupted_text =
     [Lit ''controller admission was interrupted before ownership transfer'']"

definition drop_if_running_text :: string where
  "drop_if_running_text = ''slot is busy; DropIfRunning rejected the submission''"

definition queue_full_text :: string where
  "queue_full_text = ''slot queue is full''"

definition registered_task_limit_text :: string where
  "registered_task_limit_text = ''registered task limit reached''"

definition controller_slot_limit_text :: string where
  "controller_slot_limit_text = ''controller slot limit reached''"

definition controller_pending_limit_text :: string where
  "controller_pending_limit_text = ''controller pending limit reached''"

section \<open>Final outcomes\<close>

datatype task_outcome_kind =
    OkCompleted | OkFailed | OkFatal | OkCanceled | OkForceAborted | OkPanicked | OkRejected

fun outcome_kind_label :: "task_outcome_kind \<Rightarrow> string" where
  "outcome_kind_label OkCompleted = ''outcome_completed''"
| "outcome_kind_label OkFailed = ''outcome_failed''"
| "outcome_kind_label OkFatal = ''outcome_fatal''"
| "outcome_kind_label OkCanceled = ''outcome_canceled''"
| "outcome_kind_label OkForceAborted = ''outcome_force_aborted''"
| "outcome_kind_label OkPanicked = ''outcome_panicked''"
| "outcome_kind_label OkRejected = ''outcome_rejected''"

datatype task_outcome =
    OutCompleted
  | OutFailed reason "int option" "string option"
  | OutFatal reason "int option" "string option"
  | OutCanceled
  | OutForceAborted
  | OutPanicked
  | OutRejected rejection_kind reason

fun outcome_kind :: "task_outcome \<Rightarrow> task_outcome_kind" where
  "outcome_kind OutCompleted = OkCompleted"
| "outcome_kind (OutFailed _ _ _) = OkFailed"
| "outcome_kind (OutFatal _ _ _) = OkFatal"
| "outcome_kind OutCanceled = OkCanceled"
| "outcome_kind OutForceAborted = OkForceAborted"
| "outcome_kind OutPanicked = OkPanicked"
| "outcome_kind (OutRejected _ _) = OkRejected"

definition outcome_is_success :: "task_outcome \<Rightarrow> bool" where
  "outcome_is_success o' = (case o' of OutCompleted \<Rightarrow> True | _ \<Rightarrow> False)"

fun outcome_source :: "task_outcome \<Rightarrow> string option" where
  "outcome_source (OutFailed _ _ s) = s"
| "outcome_source (OutFatal _ _ s) = s"
| "outcome_source _ = None"

definition outcome_label :: "task_outcome \<Rightarrow> string" where
  "outcome_label o' = outcome_kind_label (outcome_kind o')"

section \<open>Properties\<close>

lemma rejection_kind_label_inj: "rejection_kind_label a = rejection_kind_label b \<Longrightarrow> a = b"
  by (cases a; cases b) simp_all

lemma outcome_kind_label_inj: "outcome_kind_label a = outcome_kind_label b \<Longrightarrow> a = b"
  by (cases a; cases b) simp_all

lemma outcome_is_success_iff: "outcome_is_success o' \<longleftrightarrow> outcome_kind o' = OkCompleted"
  by (cases o') (simp_all add: outcome_is_success_def)

lemma task_error_partition:
  "is_retryable e \<or> is_fatal e \<or> e = Canceled"
  "\<not> (is_retryable e \<and> is_fatal e)"
  by (cases e; simp)+

end
