(* ===== verification/Policies.thy ===== *)
theory Policies
  imports Complex_Main Taskvisor_Prelude
begin

text \<open>
  Retry timing (\<^verbatim>\<open>src/src/policies/\<close>): the restart policy, the jitter policy and the backoff
  policy with its builder operations and \<open>delay_for_retry\<close>.

  Two pieces of behaviour are not part of the repository and are arguments of the operations:
  \<^item> \<open>rng lo hi\<close> is one draw \<open>fastrand::u128(lo..=hi)\<close>; its documented contract, a value of the
    inclusive range, is the hypothesis \<open>rng_in_range\<close>;
  \<^item> \<open>powf_secs first factor i\<close> is \<open>Duration::try_from_secs_f64 (first.as_secs_f64() *
    factor.powf(i))\<close>; the precision of \<open>powf\<close> is unspecified, so nothing is assumed about it
    (\<open>None\<close> is the conversion error).
\<close>

section \<open>Durations\<close>

definition nanos_per_second :: nat where
  "nanos_per_second = 1000000000"

definition duration_max :: duration where
  "duration_max = 2 ^ 64 * nanos_per_second - 1"

definition duration_saturating_mul :: "duration \<Rightarrow> nat \<Rightarrow> duration" where
  "duration_saturating_mul d k = min (d * k) duration_max"

text \<open>\<open>duration_from_nanos\<close>: the seconds are truncated to 64 bits by the \<open>as u64\<close> cast.\<close>

definition duration_from_nanos :: "nat \<Rightarrow> duration" where
  "duration_from_nanos nanos =
     (nanos div nanos_per_second) mod 2 ^ 64 * nanos_per_second + nanos mod nanos_per_second"

definition duration_millis :: "nat \<Rightarrow> duration" where
  "duration_millis n = n * 1000000"

section \<open>Restart policy\<close>

datatype restart_policy = Never | OnFailure | Always "duration option"

definition restart_policy_default :: restart_policy where
  "restart_policy_default = OnFailure"

section \<open>Jitter policy\<close>

datatype jitter_policy = NoJitter | Full | Equal | RandomizedBand

definition jitter_policy_default :: jitter_policy where
  "jitter_policy_default = NoJitter"

definition full_jitter :: "(nat \<Rightarrow> nat \<Rightarrow> nat) \<Rightarrow> duration \<Rightarrow> duration" where
  "full_jitter rng delay =
     (if delay = 0 then 0 else duration_from_nanos (rng 0 delay))"

definition equal_jitter :: "(nat \<Rightarrow> nat \<Rightarrow> nat) \<Rightarrow> duration \<Rightarrow> duration" where
  "equal_jitter rng delay =
     (if delay = 0 then 0
      else let half = delay div 2
           in duration_from_nanos (half + rng 0 (delay - half)))"

definition jitter_apply :: "(nat \<Rightarrow> nat \<Rightarrow> nat) \<Rightarrow> jitter_policy \<Rightarrow> duration \<Rightarrow> duration" where
  "jitter_apply rng j delay =
     (case j of
        NoJitter \<Rightarrow> delay
      | RandomizedBand \<Rightarrow> full_jitter rng delay
      | Full \<Rightarrow> full_jitter rng delay
      | Equal \<Rightarrow> equal_jitter rng delay)"

definition apply_randomized_band ::
  "(nat \<Rightarrow> nat \<Rightarrow> nat) \<Rightarrow> jitter_policy \<Rightarrow> duration \<Rightarrow> duration \<Rightarrow> duration \<Rightarrow> duration" where
  "apply_randomized_band rng j lower upper_seed mx =
     (let lower = min lower mx
      in if j \<noteq> RandomizedBand then jitter_apply rng j lower
         else let upper = max (min (duration_saturating_mul upper_seed 3) mx) lower
              in if lower \<ge> upper then lower else duration_from_nanos (rng lower upper))"

section \<open>Backoff policy\<close>

text \<open>An \<open>f64\<close> as far as the policy inspects it.\<close>

datatype f64 = NaN | Infinite bool | Finite real

fun f64_is_finite :: "f64 \<Rightarrow> bool" where
  "f64_is_finite (Finite _) = True"
| "f64_is_finite _ = False"

text \<open>\<open>x < 1.0\<close>: false for NaN.\<close>

fun f64_lt_one :: "f64 \<Rightarrow> bool" where
  "f64_lt_one NaN = False"
| "f64_lt_one (Infinite negative) = negative"
| "f64_lt_one (Finite x) = (x < 1)"

datatype backoff_error = InvalidFactor f64 | FirstExceedsMax duration duration

record backoff_policy =
  bp_jitter :: jitter_policy
  bp_first :: duration
  bp_floor :: duration
  bp_max :: duration
  bp_factor :: f64

definition default_max :: duration where
  "default_max = duration_millis 30000"

definition backoff_policy_default :: backoff_policy where
  "backoff_policy_default =
     \<lparr>bp_jitter = Equal, bp_first = duration_millis 200, bp_floor = 0, bp_max = default_max,
      bp_factor = Finite 2\<rparr>"

definition backoff_new ::
  "duration \<Rightarrow> duration \<Rightarrow> f64 \<Rightarrow> jitter_policy \<Rightarrow> (backoff_error, backoff_policy) result" where
  "backoff_new first mx factor jitter =
     (if \<not> f64_is_finite factor \<or> f64_lt_one factor then Inl (InvalidFactor factor)
      else if first > mx then Inl (FirstExceedsMax first mx)
      else Inr \<lparr>bp_jitter = jitter, bp_first = first, bp_floor = 0, bp_max = mx,
                bp_factor = factor\<rparr>)"

definition backoff_constant :: "duration \<Rightarrow> backoff_policy" where
  "backoff_constant delay =
     \<lparr>bp_jitter = NoJitter, bp_first = delay, bp_floor = 0, bp_max = max delay default_max,
      bp_factor = Finite 1\<rparr>"

definition backoff_exponential :: "duration \<Rightarrow> backoff_policy" where
  "backoff_exponential first =
     \<lparr>bp_jitter = NoJitter, bp_first = first, bp_floor = 0, bp_max = max first default_max,
      bp_factor = Finite 2\<rparr>"

definition backoff_with_max :: "backoff_policy \<Rightarrow> duration \<Rightarrow> backoff_policy" where
  "backoff_with_max p mx =
     p\<lparr>bp_max := mx, bp_first := min (bp_first p) mx, bp_floor := min (bp_floor p) mx\<rparr>"

definition backoff_with_jitter :: "backoff_policy \<Rightarrow> jitter_policy \<Rightarrow> backoff_policy" where
  "backoff_with_jitter p j = p\<lparr>bp_jitter := j\<rparr>"

definition backoff_with_floor :: "backoff_policy \<Rightarrow> duration \<Rightarrow> backoff_policy" where
  "backoff_with_floor p fl = p\<lparr>bp_floor := min fl (bp_max p)\<rparr>"

text \<open>A chain of builder calls on a policy, in the order of the calls.\<close>

datatype backoff_builder = WithMax duration | WithJitter jitter_policy | WithFloor duration

fun backoff_build :: "backoff_policy \<Rightarrow> backoff_builder \<Rightarrow> backoff_policy" where
  "backoff_build p (WithMax mx) = backoff_with_max p mx"
| "backoff_build p (WithJitter j) = backoff_with_jitter p j"
| "backoff_build p (WithFloor fl) = backoff_with_floor p fl"

definition backoff_chain :: "backoff_policy \<Rightarrow> backoff_builder list \<Rightarrow> backoff_policy" where
  "backoff_chain p calls = foldl backoff_build p calls"

definition min_nonzero_delay :: duration where
  "min_nonzero_delay = duration_millis 1"

text \<open>The undithered delay of a retry: \<open>base\<close> of \<open>delay_for_retry\<close>.\<close>

definition backoff_base ::
  "(duration \<Rightarrow> f64 \<Rightarrow> nat \<Rightarrow> duration option) \<Rightarrow> backoff_policy \<Rightarrow> nat \<Rightarrow> duration" where
  "backoff_base powf_secs p i =
     (if bp_first p = 0 then 0
      else min (case powf_secs (bp_first p) (bp_factor p) i of
                  Some d \<Rightarrow> d
                | None \<Rightarrow> bp_max p) (bp_max p))"

definition delay_for_retry ::
  "(nat \<Rightarrow> nat \<Rightarrow> nat) \<Rightarrow> (duration \<Rightarrow> f64 \<Rightarrow> nat \<Rightarrow> duration option) \<Rightarrow>
     backoff_policy \<Rightarrow> nat \<Rightarrow> duration" where
  "delay_for_retry rng powf_secs p i =
     (let base = backoff_base powf_secs p i;
          delay = (case bp_jitter p of
                     RandomizedBand \<Rightarrow>
                       apply_randomized_band rng RandomizedBand (min (bp_first p) (bp_max p)) base
                         (bp_max p)
                   | j \<Rightarrow> jitter_apply rng j base);
          floored = max delay (bp_floor p)
      in if base = 0 then floored else max floored (min min_nonzero_delay (bp_max p)))"

section \<open>Facts\<close>

definition rng_in_range :: "(nat \<Rightarrow> nat \<Rightarrow> nat) \<Rightarrow> bool" where
  "rng_in_range rng \<longleftrightarrow> (\<forall>lo hi. lo \<le> hi \<longrightarrow> lo \<le> rng lo hi \<and> rng lo hi \<le> hi)"

text \<open>What every constructed policy satisfies.\<close>

definition backoff_wf :: "backoff_policy \<Rightarrow> bool" where
  "backoff_wf p \<longleftrightarrow>
     bp_first p \<le> bp_max p \<and> bp_floor p \<le> bp_max p \<and> bp_max p \<le> duration_max
     \<and> f64_is_finite (bp_factor p) \<and> \<not> f64_lt_one (bp_factor p)"

lemma duration_from_nanos_id: "ns \<le> duration_max \<Longrightarrow> duration_from_nanos ns = ns"
proof -
  assume "ns \<le> duration_max"
  then have "ns div nanos_per_second < 2 ^ 64"
    by (simp add: duration_max_def nanos_per_second_def)
  then show ?thesis
    by (simp add: duration_from_nanos_def mult.commute)
qed

lemma rng_bounds:
  assumes "rng_in_range rng" and "lo \<le> hi"
  shows "lo \<le> rng lo hi" and "rng lo hi \<le> hi"
  using assms by (auto simp: rng_in_range_def)

lemma full_jitter_le:
  assumes "rng_in_range rng" and "d \<le> duration_max"
  shows "full_jitter rng d \<le> d"
  using rng_bounds(2)[OF assms(1), of 0 d] assms(2)
  by (simp add: full_jitter_def duration_from_nanos_id)

lemma equal_jitter_bounds:
  assumes "rng_in_range rng" and "d \<le> duration_max"
  shows "d div 2 \<le> equal_jitter rng d" and "equal_jitter rng d \<le> d"
proof -
  have r: "rng 0 (d - d div 2) \<le> d - d div 2"
    using rng_bounds(2)[OF assms(1), of 0 "d - d div 2"] by simp
  then have sum: "d div 2 + rng 0 (d - d div 2) \<le> d" by linarith
  then have "duration_from_nanos (d div 2 + rng 0 (d - d div 2)) = d div 2 + rng 0 (d - d div 2)"
    using assms(2) by (simp add: duration_from_nanos_id)
  with sum show "d div 2 \<le> equal_jitter rng d" and "equal_jitter rng d \<le> d"
    by (simp_all add: equal_jitter_def Let_def)
qed

lemma jitter_apply_le:
  assumes "rng_in_range rng" and "d \<le> duration_max"
  shows "jitter_apply rng j d \<le> d"
  using assms full_jitter_le equal_jitter_bounds(2)
  by (simp add: jitter_apply_def split: jitter_policy.splits)

lemma randomized_band_bounds:
  assumes "rng_in_range rng" and "mx \<le> duration_max"
  shows "min lower mx \<le> apply_randomized_band rng RandomizedBand lower seed mx"
    and "apply_randomized_band rng RandomizedBand lower seed mx \<le> mx"
proof -
  define lo where "lo = min lower mx"
  define hi where "hi = max (min (duration_saturating_mul seed 3) mx) lo"
  have hi_mx: "hi \<le> mx" by (simp add: hi_def lo_def)
  have draw: "lo \<le> rng lo hi" "rng lo hi \<le> hi"
    using rng_bounds[OF assms(1), of lo hi] by (simp_all add: hi_def)
  then have "duration_from_nanos (rng lo hi) = rng lo hi"
    using hi_mx assms(2) by (simp add: duration_from_nanos_id)
  moreover have "apply_randomized_band rng RandomizedBand lower seed mx =
      (if lo \<ge> hi then lo else duration_from_nanos (rng lo hi))"
    by (simp add: apply_randomized_band_def Let_def lo_def hi_def)
  ultimately show "min lower mx \<le> apply_randomized_band rng RandomizedBand lower seed mx"
    and "apply_randomized_band rng RandomizedBand lower seed mx \<le> mx"
    using draw hi_mx by (auto simp: lo_def)
qed

lemma backoff_base_le: "backoff_base powf_secs p i \<le> bp_max p"
  by (simp add: backoff_base_def)

lemma delay_for_retry_unfold:
  "delay_for_retry rng powf_secs p i =
     (let base = backoff_base powf_secs p i;
          floored = max (if bp_jitter p = RandomizedBand
                         then apply_randomized_band rng RandomizedBand
                                (min (bp_first p) (bp_max p)) base (bp_max p)
                         else jitter_apply rng (bp_jitter p) base) (bp_floor p)
      in if base = 0 then floored else max floored (min min_nonzero_delay (bp_max p)))"
  by (cases "bp_jitter p") (simp_all add: delay_for_retry_def Let_def)

lemma backoff_wf_default: "backoff_wf backoff_policy_default"
  by (simp add: backoff_wf_def backoff_policy_default_def default_max_def duration_millis_def
      duration_max_def nanos_per_second_def)

lemma backoff_wf_new:
  "backoff_new first mx factor j = Inr p \<Longrightarrow> mx \<le> duration_max \<Longrightarrow> backoff_wf p"
  by (auto simp: backoff_new_def backoff_wf_def split: if_splits)

lemma backoff_wf_constant: "d \<le> duration_max \<Longrightarrow> backoff_wf (backoff_constant d)"
  by (simp add: backoff_wf_def backoff_constant_def default_max_def duration_millis_def
      duration_max_def nanos_per_second_def)

lemma backoff_wf_exponential: "d \<le> duration_max \<Longrightarrow> backoff_wf (backoff_exponential d)"
  by (simp add: backoff_wf_def backoff_exponential_def default_max_def duration_millis_def
      duration_max_def nanos_per_second_def)

lemma backoff_wf_builders:
  assumes "backoff_wf p"
  shows "mx \<le> duration_max \<Longrightarrow> backoff_wf (backoff_with_max p mx)"
    and "backoff_wf (backoff_with_jitter p j)"
    and "backoff_wf (backoff_with_floor p fl)"
  using assms
  by (simp_all add: backoff_wf_def backoff_with_max_def backoff_with_jitter_def
      backoff_with_floor_def)

lemma retry_delay_bounds:
  assumes "backoff_wf p" and "rng_in_range rng"
  shows "bp_floor p \<le> delay_for_retry rng powf_secs p i \<and> delay_for_retry rng powf_secs p i \<le> bp_max p"
proof -
  let ?base = "backoff_base powf_secs p i"
  have mx: "bp_max p \<le> duration_max" "bp_floor p \<le> bp_max p" using assms(1) by (simp_all add: backoff_wf_def)
  have base: "?base \<le> bp_max p" "?base \<le> duration_max"
    using backoff_base_le[of powf_secs p i] mx by linarith+
  have "jitter_apply rng (bp_jitter p) ?base \<le> bp_max p"
    using jitter_apply_le[OF assms(2) base(2)] base(1) order_trans by blast
  then show ?thesis
    using mx randomized_band_bounds(2)[OF assms(2) mx(1)]
    by (auto simp: delay_for_retry_unfold Let_def le_max_iff_disj)
qed

section \<open>Properties\<close>

text \<open>
  Retries never spin. When the policy's first delay is positive, a retry waits at least one
  millisecond (or the maximum when that is shorter) unless the computed base rounds to zero; equal
  jitter keeps at least half of the base delay, no jitter keeps all of it, and the randomized band
  keeps at least the first delay.
\<close>

lemma retry_delay_lower_bounds:
  fixes powf_secs :: "duration \<Rightarrow> f64 \<Rightarrow> nat \<Rightarrow> duration option" and i :: nat
  assumes "backoff_wf p" and "rng_in_range rng"
  defines "base \<equiv> backoff_base powf_secs p i" and "delay \<equiv> delay_for_retry rng powf_secs p i"
  shows "(base \<noteq> 0 \<longrightarrow> min min_nonzero_delay (bp_max p) \<le> delay)
    \<and> (bp_jitter p = NoJitter \<longrightarrow> base \<le> delay)
    \<and> (bp_jitter p = Equal \<longrightarrow> base div 2 \<le> delay)
    \<and> (bp_jitter p = RandomizedBand \<longrightarrow> bp_first p \<le> delay)"
proof -
  have mx: "bp_max p \<le> duration_max" "bp_first p \<le> bp_max p"
    using assms(1) by (simp_all add: backoff_wf_def)
  have "base \<le> duration_max"
    using backoff_base_le[of powf_secs p i] mx(1) by (simp add: base_def)
  then have "base div 2 \<le> equal_jitter rng base" by (rule equal_jitter_bounds(1)[OF assms(2)])
  moreover have "bp_first p \<le> apply_randomized_band rng RandomizedBand (bp_first p) base (bp_max p)"
    using randomized_band_bounds(1)[OF assms(2) mx(1), of "bp_first p" base] mx(2) by simp
  ultimately show ?thesis
    using mx(2) by (auto simp: delay_def base_def delay_for_retry_unfold Let_def jitter_apply_def)
qed

lemma retry_delay_lower_bounds_example:
  "bp_jitter backoff_policy_default = Equal
   \<and> backoff_base (\<lambda>d f i. Some d) backoff_policy_default 3 div 2
       \<le> delay_for_retry (\<lambda>lo hi. lo) (\<lambda>d f i. Some d) backoff_policy_default 3"
proof -
  have rng: "rng_in_range (\<lambda>lo hi. lo)" by (simp add: rng_in_range_def)
  have "bp_jitter backoff_policy_default = Equal" by (simp add: backoff_policy_default_def)
  with retry_delay_lower_bounds[OF backoff_wf_default rng, of "\<lambda>d f i. Some d" 3] show ?thesis by blast
qed

section \<open>Builder chains\<close>

text \<open>The maxima and the jitters a chain sets, and whether it sets a floor.\<close>

fun chain_maxes :: "backoff_builder list \<Rightarrow> duration list" where
  "chain_maxes [] = []"
| "chain_maxes (WithMax mx # calls) = mx # chain_maxes calls"
| "chain_maxes (_ # calls) = chain_maxes calls"

fun chain_jitters :: "backoff_builder list \<Rightarrow> jitter_policy list" where
  "chain_jitters [] = []"
| "chain_jitters (WithJitter j # calls) = j # chain_jitters calls"
| "chain_jitters (_ # calls) = chain_jitters calls"

fun chain_floors :: "backoff_builder list \<Rightarrow> duration list" where
  "chain_floors [] = []"
| "chain_floors (WithFloor fl # calls) = fl # chain_floors calls"
| "chain_floors (_ # calls) = chain_floors calls"

lemma backoff_chain_simps [simp]:
  "backoff_chain p [] = p" "backoff_chain p (b # calls) = backoff_chain (backoff_build p b) calls"
  "backoff_chain p (pre @ post) = backoff_chain (backoff_chain p pre) post"
  by (simp_all add: backoff_chain_def)

lemma chain_wf:
  "backoff_wf p \<Longrightarrow> \<forall>mx \<in> set (chain_maxes calls). mx \<le> duration_max \<Longrightarrow> backoff_wf (backoff_chain p calls)"
proof (induction calls arbitrary: p)
  case (Cons b calls)
  then show ?case using backoff_wf_builders[OF Cons.prems(1)] by (cases b) simp_all
qed simp

lemma chain_max: "bp_max (backoff_chain p calls) = last (bp_max p # chain_maxes calls)"
proof (induction calls arbitrary: p)
  case (Cons b calls)
  then show ?case
    by (cases b) (simp_all add: backoff_with_max_def backoff_with_jitter_def backoff_with_floor_def)
qed simp

lemma chain_jitter: "bp_jitter (backoff_chain p calls) = last (bp_jitter p # chain_jitters calls)"
proof (induction calls arbitrary: p)
  case (Cons b calls)
  then show ?case
    by (cases b) (simp_all add: backoff_with_max_def backoff_with_jitter_def backoff_with_floor_def)
qed simp

lemma Min_insert_min: "finite S \<Longrightarrow> Min (insert (min a b) S) = Min (insert a (insert b S))" for a :: "'a :: linorder"
  by (cases "S = {}") (simp_all add: min.assoc)

lemma chain_first: "bp_first (backoff_chain p calls) = Min (set (bp_first p # chain_maxes calls))"
proof (induction calls arbitrary: p)
  case (Cons b calls)
  then show ?case
    by (cases b) (simp_all add: backoff_with_max_def backoff_with_jitter_def backoff_with_floor_def Min_insert_min)
qed simp

lemma chain_floor_kept:
  "chain_floors calls = [] \<Longrightarrow> bp_floor (backoff_chain p calls) = Min (set (bp_floor p # chain_maxes calls))"
proof (induction calls arbitrary: p)
  case (Cons b calls)
  then show ?case
    by (cases b) (simp_all add: backoff_with_max_def backoff_with_jitter_def backoff_with_floor_def Min_insert_min)
qed simp

text \<open>The last floor set is lowered by the maximum in force and by every later maximum.\<close>

lemma chain_floor_set:
  assumes "calls = pre @ WithFloor fl # post" and "chain_floors post = []"
  shows "bp_floor (backoff_chain p calls) = Min (set (fl # bp_max (backoff_chain p pre) # chain_maxes post))"
  using assms chain_floor_kept[of post "backoff_with_floor (backoff_chain p pre) fl"]
  by (simp add: backoff_with_floor_def Min_insert_min)

text \<open>The policies a chain can start from.\<close>

definition backoff_initial ::
  "duration \<Rightarrow> duration \<Rightarrow> f64 \<Rightarrow> jitter_policy \<Rightarrow> backoff_policy \<Rightarrow> bool" where
  "backoff_initial first mx factor j p \<longleftrightarrow>
     p = backoff_policy_default \<or> p = backoff_constant first \<or> p = backoff_exponential first
     \<or> backoff_new first mx factor j = Inr p"

lemma backoff_initial_wf:
  assumes "backoff_initial first mx factor j p" and "first \<le> duration_max" and "mx \<le> duration_max"
  shows "backoff_wf p" and "bp_floor p = 0"
proof -
  show "backoff_wf p"
    using assms backoff_wf_default backoff_wf_constant backoff_wf_exponential backoff_wf_new
    by (auto simp: backoff_initial_def)
  show "bp_floor p = 0"
    using assms(1) by (auto simp: backoff_initial_def backoff_policy_default_def backoff_constant_def
        backoff_exponential_def backoff_new_def split: if_splits)
qed

text \<open>
  C24. Backoff policies are valid by construction. The checked constructor succeeds exactly for a
  finite factor of at least one and a first delay within the maximum. From the default policy and from
  every constructed one, every chain of \<open>with_max\<close>, \<open>with_jitter\<close> and \<open>with_floor\<close>, in any order and
  number, gives a policy whose first delay and floor are within its maximum and whose factor is
  finite and at least one. The maximum and the jitter are the last ones set; the first delay is lowered by every
  maximum set; the floor is zero if none was set, and otherwise the last one set, lowered by the
  maximum in force and by every later maximum. The delay of every retry lies between that floor and
  that maximum.
\<close>

theorem backoff_valid_by_construction:
  assumes "backoff_initial first mx factor j p" and "first \<le> duration_max" and "mx \<le> duration_max"
    and "\<forall>m \<in> set (chain_maxes calls). m \<le> duration_max" and "rng_in_range rng"
    and "q = backoff_chain p calls"
  shows "((\<exists>p. backoff_new first mx factor j = Inr p) \<longleftrightarrow>
      f64_is_finite factor \<and> \<not> f64_lt_one factor \<and> first \<le> mx)
    \<and> bp_first q \<le> bp_max q \<and> bp_floor q \<le> bp_max q \<and> bp_max q \<le> duration_max
    \<and> f64_is_finite (bp_factor q) \<and> \<not> f64_lt_one (bp_factor q)
    \<and> bp_max q = last (bp_max p # chain_maxes calls) \<and> bp_jitter q = last (bp_jitter p # chain_jitters calls)
    \<and> bp_first q = Min (set (bp_first p # chain_maxes calls))
    \<and> (chain_floors calls = [] \<longrightarrow> bp_floor q = 0)
    \<and> (\<forall>pre fl post. calls = pre @ WithFloor fl # post \<and> chain_floors post = [] \<longrightarrow>
        bp_floor q = Min (set (fl # bp_max (backoff_chain p pre) # chain_maxes post)))
    \<and> bp_floor q \<le> delay_for_retry rng powf_secs q i \<and> delay_for_retry rng powf_secs q i \<le> bp_max q"
proof -
  have new: "(\<exists>p. backoff_new first mx factor j = Inr p) \<longleftrightarrow>
      f64_is_finite factor \<and> \<not> f64_lt_one factor \<and> first \<le> mx"
    by (auto simp: backoff_new_def)
  note p = backoff_initial_wf[OF assms(1-3)]
  have q: "backoff_wf q" using chain_wf[OF p(1) assms(4)] assms(6) by simp
  have none: "chain_floors calls = [] \<longrightarrow> bp_floor q = 0"
    using chain_floor_kept[of calls p] p(2) assms(6) by (auto intro!: Min_eqI)
  have some: "\<forall>pre fl post. calls = pre @ WithFloor fl # post \<and> chain_floors post = [] \<longrightarrow>
      bp_floor q = Min (set (fl # bp_max (backoff_chain p pre) # chain_maxes post))"
    using chain_floor_set[of calls] assms(6) by blast
  show ?thesis
    using new none some q retry_delay_bounds[OF q assms(5), of powf_secs i]
      chain_max[of p calls] chain_jitter[of p calls] chain_first[of p calls] assms(6)
    unfolding backoff_wf_def by (intro conjI) (simp_all only: simp_thms)
qed

theorem backoff_valid_by_construction_witness:
  "let q = backoff_chain (backoff_exponential 5000000) [WithFloor 9000000, WithJitter Full, WithMax 2000000]
   in bp_first q \<le> bp_max q \<and> bp_max q = 2000000 \<and> bp_floor q = 2000000 \<and> bp_jitter q = Full"
proof -
  let ?calls = "[WithFloor 9000000, WithJitter Full, WithMax 2000000]"
  have h: "backoff_initial 5000000 5000000 (Finite 2) NoJitter (backoff_exponential 5000000)"
    "(5000000 :: nat) \<le> duration_max" "\<forall>m \<in> set (chain_maxes ?calls). m \<le> duration_max"
    "rng_in_range (\<lambda>lo hi. lo)"
    by (simp_all add: backoff_initial_def duration_max_def nanos_per_second_def rng_in_range_def)
  let ?q = "backoff_chain (backoff_exponential 5000000) ?calls"
  note facts = backoff_valid_by_construction[OF h(1,2,2,3,4) refl, of "\<lambda>d f i. None" 0]
  have "\<forall>pre fl post. ?calls = pre @ WithFloor fl # post \<and> chain_floors post = [] \<longrightarrow>
      bp_floor ?q = Min (set (fl # bp_max (backoff_chain (backoff_exponential 5000000) pre) # chain_maxes post))"
    using facts by (elim conjE) assumption
  from this[rule_format, of "[]" 9000000 "[WithJitter Full, WithMax 2000000]"]
  have "bp_floor ?q = 2000000"
    by (simp add: backoff_exponential_def default_max_def duration_millis_def del: backoff_chain_simps(2))
  moreover have "bp_first ?q \<le> bp_max ?q" using facts by (elim conjE) assumption
  moreover have "bp_max ?q = 2000000" "bp_jitter ?q = Full" using facts by (simp_all del: backoff_chain_simps)
  ultimately show ?thesis by (simp only: Let_def simp_thms)
qed

end
