(* ===== verification/Config.thy ===== *)
theory Config
  imports Policies
begin

text \<open>
  Static limits: \<open>SupervisorConfig\<close> (\<^verbatim>\<open>src/src/core/config.rs\<close>) and \<open>ControllerConfig\<close>
  (\<^verbatim>\<open>src/src/controller/config.rs\<close>) with their builders and validation. A \<open>NonZeroUsize\<close> is a
  \<open>nat\<close>; that it is not zero is part of \<open>supervisor_config_wf\<close> and \<open>controller_config_wf\<close>.
  The largest semaphore size \<open>tokio::sync::Semaphore::MAX_PERMITS\<close> is the argument \<open>max_permits\<close>.
\<close>

datatype config_error = Zero string | TooLarge string nat nat

definition non_zero :: "nat \<Rightarrow> nat option" where
  "non_zero n = (if n = 0 then None else Some n)"

definition validate_async_capacity :: "nat \<Rightarrow> string \<Rightarrow> nat \<Rightarrow> (config_error, unit) result" where
  "validate_async_capacity max_permits field v =
     (if v > max_permits then Inl (TooLarge field v max_permits) else Inr ())"

definition checked_async_capacity :: "nat \<Rightarrow> string \<Rightarrow> nat \<Rightarrow> (config_error, nat) result" where
  "checked_async_capacity max_permits field v =
     (case non_zero v of
        None \<Rightarrow> Inl (Zero field)
      | Some v' \<Rightarrow> (case validate_async_capacity max_permits field v' of
                      Inl e \<Rightarrow> Inl e
                    | Inr _ \<Rightarrow> Inr v'))"

section \<open>Supervisor configuration\<close>

definition default_capacity :: nat where
  "default_capacity = 1024"

definition max_grace :: duration where
  "max_grace = 60 * 60 * 24 * 365 * 30 * nanos_per_second"

text \<open>The comparison is on whole seconds first, then on the sub-second nanoseconds.\<close>

definition normalize_grace :: "duration \<Rightarrow> duration" where
  "normalize_grace grace =
     (if grace div nanos_per_second > max_grace div nanos_per_second
         \<or> (grace div nanos_per_second = max_grace div nanos_per_second
            \<and> grace mod nanos_per_second > max_grace mod nanos_per_second)
      then max_grace else grace)"

record supervisor_config =
  sc_grace :: duration
  sc_subscriber_shutdown_timeout :: duration
  sc_max_concurrent :: "nat option"
  sc_max_registered_tasks :: "nat option"
  sc_ownership_capacity :: "nat option"
  sc_bus_capacity :: nat
  sc_registry_queue_capacity :: nat

definition supervisor_config_new :: supervisor_config where
  "supervisor_config_new =
     \<lparr>sc_grace = 60 * nanos_per_second,
      sc_subscriber_shutdown_timeout = 5 * nanos_per_second,
      sc_max_concurrent = None,
      sc_max_registered_tasks = Some default_capacity,
      sc_ownership_capacity = Some default_capacity,
      sc_bus_capacity = default_capacity,
      sc_registry_queue_capacity = default_capacity\<rparr>"

definition with_grace :: "supervisor_config \<Rightarrow> duration \<Rightarrow> supervisor_config" where
  "with_grace c grace = c\<lparr>sc_grace := normalize_grace grace\<rparr>"

definition with_subscriber_shutdown_timeout ::
  "supervisor_config \<Rightarrow> duration \<Rightarrow> supervisor_config" where
  "with_subscriber_shutdown_timeout c t = c\<lparr>sc_subscriber_shutdown_timeout := t\<rparr>"

definition try_with_max_concurrent ::
  "nat \<Rightarrow> supervisor_config \<Rightarrow> nat \<Rightarrow> (config_error, supervisor_config) result" where
  "try_with_max_concurrent max_permits c n =
     (case checked_async_capacity max_permits ''max_concurrent'' n of
        Inl e \<Rightarrow> Inl e
      | Inr v \<Rightarrow> Inr (c\<lparr>sc_max_concurrent := Some v\<rparr>))"

definition try_with_max_registered_tasks ::
  "supervisor_config \<Rightarrow> nat \<Rightarrow> (config_error, supervisor_config) result" where
  "try_with_max_registered_tasks c n =
     (case non_zero n of
        None \<Rightarrow> Inl (Zero ''max_registered_tasks'')
      | Some v \<Rightarrow> Inr (c\<lparr>sc_max_registered_tasks := Some v\<rparr>))"

definition try_with_ownership_capacity ::
  "supervisor_config \<Rightarrow> nat \<Rightarrow> (config_error, supervisor_config) result" where
  "try_with_ownership_capacity c n =
     (case non_zero n of
        None \<Rightarrow> Inl (Zero ''ownership_capacity'')
      | Some v \<Rightarrow> Inr (c\<lparr>sc_ownership_capacity := Some v\<rparr>))"

definition try_with_bus_capacity ::
  "nat \<Rightarrow> supervisor_config \<Rightarrow> nat \<Rightarrow> (config_error, supervisor_config) result" where
  "try_with_bus_capacity max_permits c n =
     (case checked_async_capacity max_permits ''bus_capacity'' n of
        Inl e \<Rightarrow> Inl e
      | Inr v \<Rightarrow> Inr (c\<lparr>sc_bus_capacity := v\<rparr>))"

definition try_with_registry_queue_capacity ::
  "nat \<Rightarrow> supervisor_config \<Rightarrow> nat \<Rightarrow> (config_error, supervisor_config) result" where
  "try_with_registry_queue_capacity max_permits c n =
     (case checked_async_capacity max_permits ''registry_queue_capacity'' n of
        Inl e \<Rightarrow> Inl e
      | Inr v \<Rightarrow> Inr (c\<lparr>sc_registry_queue_capacity := v\<rparr>))"

definition supervisor_config_validate ::
  "nat \<Rightarrow> supervisor_config \<Rightarrow> (config_error, unit) result" where
  "supervisor_config_validate max_permits c =
     (case (case sc_max_concurrent c of
              None \<Rightarrow> Inr ()
            | Some m \<Rightarrow> validate_async_capacity max_permits ''max_concurrent'' m) of
        Inl e \<Rightarrow> Inl e
      | Inr _ \<Rightarrow>
          (case validate_async_capacity max_permits ''bus_capacity'' (sc_bus_capacity c) of
             Inl e \<Rightarrow> Inl e
           | Inr _ \<Rightarrow> validate_async_capacity max_permits ''registry_queue_capacity''
                       (sc_registry_queue_capacity c)))"

section \<open>Controller configuration\<close>

record controller_config =
  cc_queue_capacity :: nat
  cc_admission_capacity :: nat
  cc_identity_operation_capacity :: nat
  cc_max_slot_queue :: nat
  cc_max_controller_slots :: "nat option"
  cc_max_total_pending :: "nat option"

definition controller_config_new :: "nat \<Rightarrow> nat \<Rightarrow> controller_config" where
  "controller_config_new queue_capacity max_slot_queue =
     \<lparr>cc_queue_capacity = queue_capacity,
      cc_admission_capacity = queue_capacity,
      cc_identity_operation_capacity = queue_capacity,
      cc_max_slot_queue = max_slot_queue,
      cc_max_controller_slots = Some queue_capacity,
      cc_max_total_pending = Some queue_capacity\<rparr>"

definition controller_config_try_new ::
  "nat \<Rightarrow> nat \<Rightarrow> nat \<Rightarrow> (config_error, controller_config) result" where
  "controller_config_try_new max_permits queue_capacity max_slot_queue =
     (case checked_async_capacity max_permits ''controller_queue_capacity'' queue_capacity of
        Inl e \<Rightarrow> Inl e
      | Inr v \<Rightarrow> Inr (controller_config_new v max_slot_queue))"

definition cc_try_with_queue_capacity ::
  "nat \<Rightarrow> controller_config \<Rightarrow> nat \<Rightarrow> (config_error, controller_config) result" where
  "cc_try_with_queue_capacity max_permits c n =
     (case checked_async_capacity max_permits ''controller_queue_capacity'' n of
        Inl e \<Rightarrow> Inl e
      | Inr v \<Rightarrow> Inr (c\<lparr>cc_queue_capacity := v\<rparr>))"

definition cc_try_with_admission_capacity ::
  "controller_config \<Rightarrow> nat \<Rightarrow> (config_error, controller_config) result" where
  "cc_try_with_admission_capacity c n =
     (case non_zero n of
        None \<Rightarrow> Inl (Zero ''controller_admission_capacity'')
      | Some v \<Rightarrow> Inr (c\<lparr>cc_admission_capacity := v\<rparr>))"

definition cc_try_with_identity_operation_capacity ::
  "controller_config \<Rightarrow> nat \<Rightarrow> (config_error, controller_config) result" where
  "cc_try_with_identity_operation_capacity c n =
     (case non_zero n of
        None \<Rightarrow> Inl (Zero ''controller_identity_operation_capacity'')
      | Some v \<Rightarrow> Inr (c\<lparr>cc_identity_operation_capacity := v\<rparr>))"

definition cc_with_max_slot_queue :: "controller_config \<Rightarrow> nat \<Rightarrow> controller_config" where
  "cc_with_max_slot_queue c n = c\<lparr>cc_max_slot_queue := n\<rparr>"

definition cc_try_with_max_controller_slots ::
  "controller_config \<Rightarrow> nat \<Rightarrow> (config_error, controller_config) result" where
  "cc_try_with_max_controller_slots c n =
     (case non_zero n of
        None \<Rightarrow> Inl (Zero ''max_controller_slots'')
      | Some v \<Rightarrow> Inr (c\<lparr>cc_max_controller_slots := Some v\<rparr>))"

definition cc_try_with_max_total_pending ::
  "controller_config \<Rightarrow> nat \<Rightarrow> (config_error, controller_config) result" where
  "cc_try_with_max_total_pending c n =
     (case non_zero n of
        None \<Rightarrow> Inl (Zero ''max_total_pending'')
      | Some v \<Rightarrow> Inr (c\<lparr>cc_max_total_pending := Some v\<rparr>))"

definition controller_config_validate ::
  "nat \<Rightarrow> controller_config \<Rightarrow> (config_error, unit) result" where
  "controller_config_validate max_permits c =
     validate_async_capacity max_permits ''controller_queue_capacity'' (cc_queue_capacity c)"

definition controller_config_default :: controller_config where
  "controller_config_default = controller_config_new 1024 100"

section \<open>Facts\<close>

definition controller_config_wf :: "controller_config \<Rightarrow> bool" where
  "controller_config_wf c \<longleftrightarrow>
     0 < cc_queue_capacity c \<and> 0 < cc_admission_capacity c
     \<and> 0 < cc_identity_operation_capacity c
     \<and> cc_max_controller_slots c \<noteq> Some 0 \<and> cc_max_total_pending c \<noteq> Some 0"

definition supervisor_config_wf :: "supervisor_config \<Rightarrow> bool" where
  "supervisor_config_wf c \<longleftrightarrow>
     sc_grace c \<le> max_grace \<and> sc_max_concurrent c \<noteq> Some 0
     \<and> sc_max_registered_tasks c \<noteq> Some 0 \<and> sc_ownership_capacity c \<noteq> Some 0
     \<and> 0 < sc_bus_capacity c \<and> 0 < sc_registry_queue_capacity c"

lemmas cc_builder_defs =
  cc_try_with_queue_capacity_def cc_try_with_admission_capacity_def
  cc_try_with_identity_operation_capacity_def cc_with_max_slot_queue_def
  cc_try_with_max_controller_slots_def cc_try_with_max_total_pending_def

lemmas sc_builder_defs =
  with_grace_def try_with_max_concurrent_def try_with_max_registered_tasks_def
  try_with_ownership_capacity_def try_with_bus_capacity_def try_with_registry_queue_capacity_def

lemma less_iff_div_mod:
  fixes a b n :: nat
  shows "a < b \<longleftrightarrow> a div n < b div n \<or> (a div n = b div n \<and> a mod n < b mod n)"
proof (cases "a div n = b div n")
  case True
  then show ?thesis
    using div_mult_mod_eq[of a n] div_mult_mod_eq[of b n] by (metis nat_add_left_cancel_less less_irrefl)
next
  case False
  then show ?thesis
    by (metis div_le_mono leD le_less_linear nat_less_le order_le_less)
qed

lemma normalize_grace_eq: "normalize_grace g = min g max_grace"
  using less_iff_div_mod[of max_grace g nanos_per_second]
  by (auto simp: normalize_grace_def min_def)

lemma checked_async_capacity_Inr_iff:
  "checked_async_capacity mp f n = Inr v \<longleftrightarrow> v = n \<and> 0 < n \<and> n \<le> mp"
  by (auto simp: checked_async_capacity_def validate_async_capacity_def non_zero_def)

lemma controller_config_wf_try_new:
  "controller_config_try_new mp q m = Inr c \<Longrightarrow> controller_config_wf c"
  by (auto simp: controller_config_try_new_def controller_config_wf_def controller_config_new_def
      checked_async_capacity_Inr_iff split: sum.splits)

section \<open>Properties\<close>

text \<open>
  A checked configuration is usable. \<open>ControllerConfig::try_new\<close> succeeds exactly for a
  capacity between one and the largest the async runtime supports, its result passes \<open>validate\<close>
  and has no zero limit; every checked builder of both configurations keeps that, and the
  shutdown grace is capped at its maximum.
\<close>

lemma checked_configs_are_usable:
  "((\<exists>c. controller_config_try_new mp q m = Inr c) \<longleftrightarrow> 0 < q \<and> q \<le> mp)
   \<and> (\<forall>c. controller_config_try_new mp q m = Inr c \<longrightarrow>
        controller_config_wf c \<and> controller_config_validate mp c = Inr ())
   \<and> (\<forall>c c'. controller_config_wf c \<and>
        Inr c' \<in> {cc_try_with_queue_capacity mp c n, cc_try_with_admission_capacity c n,
          cc_try_with_identity_operation_capacity c n, cc_try_with_max_controller_slots c n,
          cc_try_with_max_total_pending c n, Inr (cc_with_max_slot_queue c n)} \<longrightarrow>
        controller_config_wf c')
   \<and> (\<forall>c c'. supervisor_config_wf c \<and>
        Inr c' \<in> {try_with_max_concurrent mp c n, try_with_max_registered_tasks c n,
          try_with_ownership_capacity c n, try_with_bus_capacity mp c n,
          try_with_registry_queue_capacity mp c n, Inr (with_grace c g)} \<longrightarrow>
        supervisor_config_wf c')"
proof (intro conjI allI impI)
  show "(\<exists>c. controller_config_try_new mp q m = Inr c) \<longleftrightarrow> 0 < q \<and> q \<le> mp"
    by (auto simp: controller_config_try_new_def checked_async_capacity_def non_zero_def
        validate_async_capacity_def split: sum.splits)
next
  fix c assume new: "controller_config_try_new mp q m = Inr c"
  show "controller_config_wf c" by (rule controller_config_wf_try_new[OF new])
  show "controller_config_validate mp c = Inr ()"
    using new by (auto simp: controller_config_try_new_def controller_config_validate_def
        controller_config_new_def checked_async_capacity_def validate_async_capacity_def non_zero_def
        split: sum.splits if_splits)
next
  fix c c' assume "controller_config_wf c \<and>
        Inr c' \<in> {cc_try_with_queue_capacity mp c n, cc_try_with_admission_capacity c n,
          cc_try_with_identity_operation_capacity c n, cc_try_with_max_controller_slots c n,
          cc_try_with_max_total_pending c n, Inr (cc_with_max_slot_queue c n)}"
  then show "controller_config_wf c'"
    by (auto simp: controller_config_wf_def cc_builder_defs checked_async_capacity_Inr_iff
        non_zero_def split: sum.splits option.splits if_splits)
next
  fix c c' assume "supervisor_config_wf c \<and>
        Inr c' \<in> {try_with_max_concurrent mp c n, try_with_max_registered_tasks c n,
          try_with_ownership_capacity c n, try_with_bus_capacity mp c n,
          try_with_registry_queue_capacity mp c n, Inr (with_grace c g)}"
  then show "supervisor_config_wf c'"
    by (auto simp: supervisor_config_wf_def sc_builder_defs checked_async_capacity_Inr_iff
        non_zero_def normalize_grace_eq split: sum.splits option.splits if_splits)
qed

lemma checked_configs_are_usable_example:
  "\<exists>c. controller_config_try_new 1000000 64 8 = Inr c \<and> controller_config_validate 1000000 c = Inr ()"
proof -
  note usable = checked_configs_are_usable[of 1000000 64 8 1 0]
  from conjunct1[OF usable] obtain c where "controller_config_try_new 1000000 64 8 = Inr c" by auto
  with conjunct1[OF conjunct2[OF usable]] show ?thesis by blast
qed

end
