(* ===== verification/Task_Spec.thy ===== *)
theory Task_Spec
  imports Config
begin

text \<open>
  Task specifications (\<^verbatim>\<open>src/src/tasks/spec.rs\<close>) and supervisor-wide task defaults
  (\<^verbatim>\<open>src/src/core/task_defaults.rs\<close>): each setting is inherited or explicit, and \<open>task_spec_resolve\<close>
  fills the inherited ones at registration. A \<open>TaskRef\<close> is represented by the address of the
  shared task object.
\<close>

type_synonym task_ref = nat

definition normalize_timeout :: "duration option \<Rightarrow> duration option" where
  "normalize_timeout t =
     (case t of None \<Rightarrow> None | Some d \<Rightarrow> if d = 0 then None else Some d)"

datatype 'a task_setting = Inherit | Explicit 'a

fun setting_value :: "'a task_setting \<Rightarrow> 'a option" where
  "setting_value Inherit = None"
| "setting_value (Explicit v) = Some v"

fun setting_resolve :: "'a task_setting \<Rightarrow> 'a \<Rightarrow> 'a" where
  "setting_resolve Inherit dflt = dflt"
| "setting_resolve (Explicit v) dflt = v"

record task_spec =
  ts_name :: name
  ts_restart :: "restart_policy task_setting"
  ts_backoff :: "backoff_policy task_setting"
  ts_timeout :: "duration option task_setting"
  ts_max_retries :: "nat option task_setting"
  ts_task :: task_ref

record resolved_task_spec =
  rts_restart :: restart_policy
  rts_backoff :: backoff_policy
  rts_timeout :: "duration option"
  rts_max_retries :: "nat option"
  rts_task :: task_ref

record task_defaults =
  td_restart :: restart_policy
  td_backoff :: backoff_policy
  td_timeout :: "duration option"
  td_max_retries :: "nat option"

section \<open>Defaults\<close>

definition task_defaults_default :: task_defaults where
  "task_defaults_default =
     \<lparr>td_restart = restart_policy_default, td_backoff = backoff_policy_default,
      td_timeout = None, td_max_retries = None\<rparr>"

definition td_with_restart :: "task_defaults \<Rightarrow> restart_policy \<Rightarrow> task_defaults" where
  "td_with_restart d r = d\<lparr>td_restart := r\<rparr>"

definition td_with_backoff :: "task_defaults \<Rightarrow> backoff_policy \<Rightarrow> task_defaults" where
  "td_with_backoff d b = d\<lparr>td_backoff := b\<rparr>"

definition td_with_timeout :: "task_defaults \<Rightarrow> duration option \<Rightarrow> task_defaults" where
  "td_with_timeout d t = d\<lparr>td_timeout := normalize_timeout t\<rparr>"

definition td_with_max_retries :: "task_defaults \<Rightarrow> nat option \<Rightarrow> task_defaults" where
  "td_with_max_retries d m = d\<lparr>td_max_retries := m\<rparr>"

definition td_try_with_max_retries ::
  "task_defaults \<Rightarrow> nat \<Rightarrow> (config_error, task_defaults) result" where
  "td_try_with_max_retries d m =
     (case non_zero m of
        None \<Rightarrow> Inl (Zero ''max_retries'')
      | Some v \<Rightarrow> Inr (td_with_max_retries d (Some v)))"

section \<open>Specifications\<close>

definition task_spec_from_defaults :: "name \<Rightarrow> task_ref \<Rightarrow> task_spec" where
  "task_spec_from_defaults n task =
     \<lparr>ts_name = n, ts_restart = Inherit, ts_backoff = Inherit, ts_timeout = Inherit,
      ts_max_retries = Inherit, ts_task = task\<rparr>"

definition task_spec_new ::
  "name \<Rightarrow> task_ref \<Rightarrow> restart_policy \<Rightarrow> backoff_policy \<Rightarrow> duration option \<Rightarrow> task_spec" where
  "task_spec_new n task r b t =
     \<lparr>ts_name = n, ts_restart = Explicit r, ts_backoff = Explicit b,
      ts_timeout = Explicit (normalize_timeout t), ts_max_retries = Explicit None,
      ts_task = task\<rparr>"

definition task_spec_once :: "name \<Rightarrow> task_ref \<Rightarrow> task_spec" where
  "task_spec_once n task = (task_spec_from_defaults n task)\<lparr>ts_restart := Explicit Never\<rparr>"

definition task_spec_restartable :: "name \<Rightarrow> task_ref \<Rightarrow> task_spec" where
  "task_spec_restartable n task =
     (task_spec_from_defaults n task)\<lparr>ts_restart := Explicit OnFailure\<rparr>"

definition task_spec_periodic :: "name \<Rightarrow> task_ref \<Rightarrow> duration \<Rightarrow> task_spec" where
  "task_spec_periodic n task every =
     (task_spec_from_defaults n task)
       \<lparr>ts_restart := Explicit (Always (if every = 0 then None else Some every))\<rparr>"

definition ts_with_timeout :: "task_spec \<Rightarrow> duration option \<Rightarrow> task_spec" where
  "ts_with_timeout s t = s\<lparr>ts_timeout := Explicit (normalize_timeout t)\<rparr>"

definition ts_with_backoff :: "task_spec \<Rightarrow> backoff_policy \<Rightarrow> task_spec" where
  "ts_with_backoff s b = s\<lparr>ts_backoff := Explicit b\<rparr>"

definition ts_with_restart :: "task_spec \<Rightarrow> restart_policy \<Rightarrow> task_spec" where
  "ts_with_restart s r = s\<lparr>ts_restart := Explicit r\<rparr>"

definition ts_with_max_retries :: "task_spec \<Rightarrow> nat option \<Rightarrow> task_spec" where
  "ts_with_max_retries s m = s\<lparr>ts_max_retries := Explicit m\<rparr>"

definition ts_try_with_max_retries :: "task_spec \<Rightarrow> nat \<Rightarrow> (config_error, task_spec) result" where
  "ts_try_with_max_retries s m =
     (case non_zero m of
        None \<Rightarrow> Inl (Zero ''max_retries'')
      | Some v \<Rightarrow> Inr (ts_with_max_retries s (Some v)))"

definition task_spec_resolve :: "task_spec \<Rightarrow> task_defaults \<Rightarrow> resolved_task_spec" where
  "task_spec_resolve s d =
     \<lparr>rts_restart = setting_resolve (ts_restart s) (td_restart d),
      rts_backoff = setting_resolve (ts_backoff s) (td_backoff d),
      rts_timeout = setting_resolve (ts_timeout s) (td_timeout d),
      rts_max_retries = setting_resolve (ts_max_retries s) (td_max_retries d),
      rts_task = ts_task s\<rparr>"

section \<open>Facts\<close>

text \<open>
  A zero timeout means no timeout and a zero retry limit cannot be expressed; both hold for every
  specification and every defaults value that the constructors and builders produce.
\<close>

definition task_spec_wf :: "task_spec \<Rightarrow> bool" where
  "task_spec_wf s \<longleftrightarrow> ts_timeout s \<noteq> Explicit (Some 0) \<and> ts_max_retries s \<noteq> Explicit (Some 0)
     \<and> (case ts_backoff s of Inherit \<Rightarrow> True | Explicit b \<Rightarrow> backoff_wf b)"

definition task_defaults_wf :: "task_defaults \<Rightarrow> bool" where
  "task_defaults_wf d \<longleftrightarrow> td_timeout d \<noteq> Some 0 \<and> td_max_retries d \<noteq> Some 0
     \<and> backoff_wf (td_backoff d)"

lemma normalize_timeout_nonzero [simp]: "normalize_timeout t \<noteq> Some 0"
  by (auto simp: normalize_timeout_def split: option.splits)

lemma task_defaults_wf_default: "task_defaults_wf task_defaults_default"
  by (simp add: task_defaults_wf_def task_defaults_default_def backoff_wf_default)

lemma task_spec_wf_constructors:
  "task_spec_wf (task_spec_from_defaults n t)"
  "task_spec_wf (task_spec_once n t)"
  "task_spec_wf (task_spec_restartable n t)"
  "task_spec_wf (task_spec_periodic n t every)"
  "backoff_wf b \<Longrightarrow> task_spec_wf (task_spec_new n t r b tm)"
  by (simp_all add: task_spec_wf_def task_spec_from_defaults_def task_spec_once_def
      task_spec_restartable_def task_spec_periodic_def task_spec_new_def)

lemma resolve_wf:
  assumes "task_spec_wf s" and "task_defaults_wf d"
  shows "rts_timeout (task_spec_resolve s d) \<noteq> Some 0"
    and "rts_max_retries (task_spec_resolve s d) \<noteq> Some 0"
    and "backoff_wf (rts_backoff (task_spec_resolve s d))"
  using assms
  by (cases "ts_timeout s"; cases "ts_max_retries s"; cases "ts_backoff s";
      simp add: task_spec_resolve_def task_spec_wf_def task_defaults_wf_def)+

section \<open>Properties\<close>

text \<open>
  Resolution of a task specification: an explicit setting wins over the runtime default and an
  inherited one takes it, field by field; whatever constructors and builders were used, the resolved
  specification never carries a zero timeout or a zero retry limit and its backoff policy is valid.
\<close>

lemma resolved_spec_is_valid:
  assumes "task_defaults_wf d" and "backoff_wf b"
    and "s \<in> {task_spec_from_defaults n t, task_spec_once n t, task_spec_restartable n t,
              task_spec_periodic n t every, task_spec_new n t r b tm}"
  shows "(let s' = ts_with_backoff (ts_with_timeout s tm') b;
              r = task_spec_resolve s' d
          in rts_timeout r = normalize_timeout tm' \<and> rts_backoff r = b
             \<and> rts_max_retries r \<noteq> Some 0 \<and> rts_task r = t)
    \<and> (let r = task_spec_resolve s d
        in rts_timeout r \<noteq> Some 0 \<and> rts_max_retries r \<noteq> Some 0 \<and> backoff_wf (rts_backoff r)
           \<and> (ts_restart s = Inherit \<longrightarrow> rts_restart r = td_restart d)
           \<and> (\<forall>x. ts_restart s = Explicit x \<longrightarrow> rts_restart r = x))"
proof -
  have wf: "task_spec_wf s" using assms(2,3) task_spec_wf_constructors by auto
  have "task_spec_wf (ts_with_backoff (ts_with_timeout s tm') b)"
    using wf assms(2) by (simp add: task_spec_wf_def ts_with_backoff_def ts_with_timeout_def)
  from resolve_wf[OF this assms(1)] resolve_wf[OF wf assms(1)] assms(3) show ?thesis
    by (auto simp: Let_def task_spec_resolve_def ts_with_backoff_def ts_with_timeout_def
        task_spec_from_defaults_def task_spec_once_def task_spec_restartable_def
        task_spec_periodic_def task_spec_new_def ts_with_restart_def)
qed

lemma resolved_spec_is_valid_example:
  "rts_timeout (task_spec_resolve (ts_with_backoff (ts_with_timeout (task_spec_once ''job'' 7) (Some 0))
      backoff_policy_default) task_defaults_default) = None"
  using resolved_spec_is_valid[OF task_defaults_wf_default backoff_wf_default,
      of "task_spec_once ''job'' 7" "''job''" 7 0 Never None "Some 0"]
  by (simp add: Let_def normalize_timeout_def)

end
