(* ===== verification/Drop_Bundle.thy ===== *)
theory Drop_Bundle
  imports Errors Task_Spec
begin

text \<open>
  The unit of deferred destruction (\<^verbatim>\<open>src/src/core/deferred_drop/bundle.rs\<close>): a task value travels
  with one cleanup bundle, which owns one capacity reservation, the retained task reference, at
  most one undelivered outcome, at most one auxiliary value and at most one panic reporter.
  A second value of a kind poisons the bundle and is leaked (\<open>mem::forget\<close>). Submitting takes the
  contents out, so a bundle is submitted at most once; dropping it submits it too.
\<close>

record bundle_inner =
  bi_reservation :: nat
  bi_retained :: task_ref
  bi_outcome :: "task_outcome option"
  bi_auxiliary :: "nat option"
  bi_reporter :: bool
  bi_poisoned :: bool

text \<open>\<open>None\<close> once the contents were taken by \<open>submit\<close>.\<close>

type_synonym drop_bundle = "bundle_inner option"

definition drop_bundle_new :: "nat \<Rightarrow> task_ref \<Rightarrow> drop_bundle" where
  "drop_bundle_new reservation retained =
     Some \<lparr>bi_reservation = reservation, bi_retained = retained, bi_outcome = None,
           bi_auxiliary = None, bi_reporter = False, bi_poisoned = False\<rparr>"

definition attach_outcome :: "drop_bundle \<Rightarrow> task_outcome \<Rightarrow> drop_bundle" where
  "attach_outcome b outcome =
     (case b of
        None \<Rightarrow> None
      | Some inner \<Rightarrow>
          (case bi_outcome inner of
             Some _ \<Rightarrow> Some (inner\<lparr>bi_poisoned := True\<rparr>)
           | None \<Rightarrow> Some (inner\<lparr>bi_outcome := Some outcome\<rparr>)))"

definition set_panic_reporter :: "drop_bundle \<Rightarrow> drop_bundle" where
  "set_panic_reporter b =
     (case b of
        None \<Rightarrow> None
      | Some inner \<Rightarrow>
          (if bi_reporter inner then Some (inner\<lparr>bi_poisoned := True\<rparr>)
           else Some (inner\<lparr>bi_reporter := True\<rparr>)))"

text \<open>Shared by \<open>attach_panic_payload\<close> and \<open>attach_physical\<close>.\<close>

definition attach_auxiliary :: "drop_bundle \<Rightarrow> nat \<Rightarrow> drop_bundle" where
  "attach_auxiliary b v =
     (case b of
        None \<Rightarrow> None
      | Some inner \<Rightarrow>
          (case bi_auxiliary inner of
             Some _ \<Rightarrow> Some (inner\<lparr>bi_poisoned := True\<rparr>)
           | None \<Rightarrow> Some (inner\<lparr>bi_auxiliary := Some v\<rparr>)))"

definition poison :: "drop_bundle \<Rightarrow> drop_bundle" where
  "poison b = map_option (\<lambda>inner. inner\<lparr>bi_poisoned := True\<rparr>) b"

text \<open>\<open>submit_inner\<close>: the batch handed to the executor, and the emptied bundle.\<close>

definition bundle_submit :: "drop_bundle \<Rightarrow> bundle_inner option \<times> drop_bundle" where
  "bundle_submit b = (b, None)"

record 'a owned_task =
  ot_value :: 'a
  ot_cleanup :: drop_bundle

definition owned_task_new :: "'a \<Rightarrow> task_ref \<Rightarrow> nat \<Rightarrow> 'a owned_task" where
  "owned_task_new v retained reservation =
     \<lparr>ot_value = v, ot_cleanup = drop_bundle_new reservation retained\<rparr>"

definition owned_task_map :: "'a owned_task \<Rightarrow> ('a \<Rightarrow> 'b) \<Rightarrow> 'b owned_task" where
  "owned_task_map t f = \<lparr>ot_value = f (ot_value t), ot_cleanup = ot_cleanup t\<rparr>"

text \<open>A bundle that was never overfilled and still holds its contents, with room for an outcome.\<close>

definition bundle_fresh :: "drop_bundle \<Rightarrow> bool" where
  "bundle_fresh b \<longleftrightarrow>
     (case b of None \<Rightarrow> False | Some i \<Rightarrow> bi_outcome i = None \<and> \<not> bi_poisoned i)"

definition bundle_healthy :: "drop_bundle \<Rightarrow> bool" where
  "bundle_healthy b \<longleftrightarrow> (case b of None \<Rightarrow> False | Some i \<Rightarrow> \<not> bi_poisoned i)"

lemma bundle_fresh_healthy: "bundle_fresh b \<Longrightarrow> bundle_healthy b"
  by (auto simp: bundle_fresh_def bundle_healthy_def split: option.splits)

lemma bundle_fresh_new: "bundle_fresh (drop_bundle_new r t)"
  by (simp add: bundle_fresh_def drop_bundle_new_def)

lemma bundle_healthy_attach: "bundle_fresh b \<Longrightarrow> bundle_healthy (attach_outcome b o')"
  by (auto simp: bundle_fresh_def bundle_healthy_def attach_outcome_def split: option.splits)

lemma bundle_submit_once:
  "bundle_submit b = (batch, b') \<Longrightarrow> fst (bundle_submit b') = None"
  by (simp add: bundle_submit_def)

section \<open>Properties\<close>

text \<open>
  A cleanup bundle carries one outcome and is submitted once. Attaching an outcome to a fresh
  bundle stores it and nothing else, a second attachment poisons the bundle and keeps the first
  outcome, submitting takes the whole contents, and a submitted bundle yields nothing again,
  whatever is attached to it afterwards.
\<close>

lemma bundle_single_outcome_single_submit:
  assumes "b = drop_bundle_new reservation retained"
  shows "attach_outcome b o1 =
      Some \<lparr>bi_reservation = reservation, bi_retained = retained, bi_outcome = Some o1,
            bi_auxiliary = None, bi_reporter = False, bi_poisoned = False\<rparr>
    \<and> attach_outcome (attach_outcome b o1) o2 = poison (attach_outcome b o1)
    \<and> fst (bundle_submit (attach_outcome b o1)) = attach_outcome b o1
    \<and> fst (bundle_submit (attach_outcome (attach_auxiliary
         (set_panic_reporter (snd (bundle_submit b'))) v) o2)) = None"
  using assms
  by (simp add: drop_bundle_new_def attach_outcome_def poison_def bundle_submit_def
      set_panic_reporter_def attach_auxiliary_def)

end
