(* ===== verification/Slot.thy ===== *)
theory Slot
  imports Drop_Bundle
begin

text \<open>
  One admission lane of the controller (\<^verbatim>\<open>src/src/controller/engine/state/slot.rs\<close>): the owner
  phase and the pending queue of a slot, with the transitions that start, confirm, reject, replace
  and complete an owner. The locale \<open>owner_lane\<close> states what the controller relies on, and the
  slot operations are its interpretation.
\<close>

section \<open>State\<close>

record pending_submission =
  ps_id :: task_id
  ps_task_name :: name
  ps_owned :: "task_spec owned_task"

datatype slot_phase =
    Idle
  | Admitting task_id instant
  | CancelPendingAdmission task_id instant
  | Running task_id instant
  | Terminating task_id instant

record slot_state =
  sl_phase :: slot_phase
  sl_queue :: "pending_submission list"

datatype replace_action = RemoveNow task_id | WaitForAdmission | AlreadyRequested | ReplaceIdle

datatype admission_transition = NowRunning | NowRemove task_id | Stale

fun phase_owner :: "slot_phase \<Rightarrow> task_id option" where
  "phase_owner Idle = None"
| "phase_owner (Admitting owner _) = Some owner"
| "phase_owner (CancelPendingAdmission owner _) = Some owner"
| "phase_owner (Running owner _) = Some owner"
| "phase_owner (Terminating owner _) = Some owner"

fun phase_label :: "slot_phase \<Rightarrow> string" where
  "phase_label Idle = ''idle''"
| "phase_label (Admitting _ _) = ''admitting''"
| "phase_label (Running _ _) = ''running''"
| "phase_label (CancelPendingAdmission _ _) = ''terminating''"
| "phase_label (Terminating _ _) = ''terminating''"

section \<open>Operations\<close>

definition slot_new :: slot_state where
  "slot_new = \<lparr>sl_phase = Idle, sl_queue = []\<rparr>"

definition slot_owner :: "slot_state \<Rightarrow> task_id option" where
  "slot_owner s = phase_owner (sl_phase s)"

definition is_idle :: "slot_state \<Rightarrow> bool" where
  "is_idle s = (case sl_phase s of Idle \<Rightarrow> True | _ \<Rightarrow> False)"

definition status_label :: "slot_state \<Rightarrow> string" where
  "status_label s = phase_label (sl_phase s)"

definition begin_admission :: "slot_state \<Rightarrow> task_id \<Rightarrow> instant \<Rightarrow> bool \<times> slot_state" where
  "begin_admission s owner since =
     (if \<not> is_idle s then (False, s)
      else (True, s\<lparr>sl_phase := Admitting owner since\<rparr>))"

definition request_replacement :: "slot_state \<Rightarrow> instant \<Rightarrow> replace_action \<times> slot_state" where
  "request_replacement s requested_at =
     (case sl_phase s of
        Idle \<Rightarrow> (ReplaceIdle, s)
      | Admitting owner _ \<Rightarrow>
          (WaitForAdmission, s\<lparr>sl_phase := CancelPendingAdmission owner requested_at\<rparr>)
      | Running owner _ \<Rightarrow>
          (RemoveNow owner, s\<lparr>sl_phase := Terminating owner requested_at\<rparr>)
      | CancelPendingAdmission _ _ \<Rightarrow> (AlreadyRequested, s)
      | Terminating _ _ \<Rightarrow> (AlreadyRequested, s))"

definition confirm_admission ::
  "slot_state \<Rightarrow> task_id \<Rightarrow> instant \<Rightarrow> admission_transition \<times> slot_state" where
  "confirm_admission s owner started_at =
     (case sl_phase s of
        Admitting current _ \<Rightarrow>
          (if current = owner then (NowRunning, s\<lparr>sl_phase := Running owner started_at\<rparr>)
           else (Stale, s))
      | CancelPendingAdmission current requested_at \<Rightarrow>
          (if current = owner
           then (NowRemove owner, s\<lparr>sl_phase := Terminating owner requested_at\<rparr>)
           else (Stale, s))
      | _ \<Rightarrow> (Stale, s))"

definition reject_admission :: "slot_state \<Rightarrow> task_id \<Rightarrow> bool \<times> slot_state" where
  "reject_admission s owner =
     (let matches_current = (case sl_phase s of
            Admitting current _ \<Rightarrow> current = owner
          | CancelPendingAdmission current _ \<Rightarrow> current = owner
          | _ \<Rightarrow> False)
      in if matches_current then (True, s\<lparr>sl_phase := Idle\<rparr>) else (False, s))"

definition complete_owner :: "slot_state \<Rightarrow> task_id \<Rightarrow> bool \<times> slot_state" where
  "complete_owner s owner =
     (let matches_current = (case sl_phase s of
            Running current _ \<Rightarrow> current = owner
          | Terminating current _ \<Rightarrow> current = owner
          | _ \<Rightarrow> False)
      in if matches_current then (True, s\<lparr>sl_phase := Idle\<rparr>) else (False, s))"

section \<open>The owner protocol\<close>

text \<open>
  A lane has at most one owner. An operation may install an owner only into an idle lane, and an
  owner leaves only through an operation that releases exactly that owner.
\<close>

locale owner_lane =
  fixes owner :: "'s \<Rightarrow> 'i option"
    and step :: "'s \<Rightarrow> 'o \<Rightarrow> 's"
    and acquires :: "'o \<Rightarrow> 'i option"
    and releases :: "'o \<Rightarrow> 'i option"
  assumes acquire_from_idle:
      "owner (step s op) = Some i \<Longrightarrow> owner s \<noteq> Some i \<Longrightarrow> owner s = None \<and> acquires op = Some i"
    and release_by_owner:
      "owner s = Some i \<Longrightarrow> owner (step s op) \<noteq> Some i \<Longrightarrow>
         owner (step s op) = None \<and> releases op = Some i"
begin

lemma run_keeps_owner:
  "owner s = Some i \<Longrightarrow> \<forall>op \<in> set ops. releases op \<noteq> Some i \<Longrightarrow>
     owner (foldl step s ops) = Some i"
proof (induction ops arbitrary: s)
  case (Cons op ops)
  then have "owner (step s op) = Some i"
    using release_by_owner by fastforce
  with Cons show ?case by simp
qed simp

lemma run_acquires:
  "owner s \<noteq> Some j \<Longrightarrow> owner (foldl step s ops) = Some j \<Longrightarrow>
     \<exists>pre op post. ops = pre @ op # post \<and> acquires op = Some j
       \<and> owner (foldl step s pre) = None"
proof (induction ops arbitrary: s)
  case (Cons op ops)
  show ?case
  proof (cases "owner (step s op) = Some j")
    case True
    with Cons.prems(1) have "owner s = None \<and> acquires op = Some j"
      by (intro acquire_from_idle)
    then have "op # ops = [] @ op # ops \<and> acquires op = Some j \<and> owner (foldl step s []) = None"
      by simp
    then show ?thesis by blast
  next
    case False
    from Cons.IH[OF False] Cons.prems(2) obtain pre a post where
      "ops = pre @ a # post" "acquires a = Some j" "owner (foldl step (step s op) pre) = None"
      by auto
    then have "op # ops = (op # pre) @ a # post \<and> acquires a = Some j
        \<and> owner (foldl step s (op # pre)) = None"
      by simp
    then show ?thesis by blast
  qed
qed simp

lemma run_releases:
  "owner s = Some i \<Longrightarrow> owner (foldl step s ops) \<noteq> Some i \<Longrightarrow>
     \<exists>op \<in> set ops. releases op = Some i"
  using run_keeps_owner by blast

text \<open>Two different owners never overlap: the first is released before the second is installed.\<close>

lemma handover:
  assumes "owner s = Some i" and "owner (foldl step s ops) = Some j" and "i \<noteq> j"
  shows "\<exists>pre op post. ops = pre @ op # post \<and> acquires op = Some j
      \<and> (\<exists>r \<in> set pre. releases r = Some i)"
proof -
  from assms obtain pre op post where
    split: "ops = pre @ op # post" "acquires op = Some j" "owner (foldl step s pre) = None"
    using run_acquires[of s j ops] by auto
  with run_releases[OF assms(1), of pre] show ?thesis by auto
qed

end

datatype slot_op =
    OpBegin task_id instant
  | OpReplace instant
  | OpConfirm task_id instant
  | OpReject task_id
  | OpComplete task_id

fun slot_step :: "slot_state \<Rightarrow> slot_op \<Rightarrow> slot_state" where
  "slot_step s (OpBegin i t) = snd (begin_admission s i t)"
| "slot_step s (OpReplace t) = snd (request_replacement s t)"
| "slot_step s (OpConfirm i t) = snd (confirm_admission s i t)"
| "slot_step s (OpReject i) = snd (reject_admission s i)"
| "slot_step s (OpComplete i) = snd (complete_owner s i)"

fun slot_op_acquires :: "slot_op \<Rightarrow> task_id option" where
  "slot_op_acquires (OpBegin i _) = Some i"
| "slot_op_acquires _ = None"

fun slot_op_releases :: "slot_op \<Rightarrow> task_id option" where
  "slot_op_releases (OpReject i) = Some i"
| "slot_op_releases (OpComplete i) = Some i"
| "slot_op_releases _ = None"

lemmas slot_op_defs =
  begin_admission_def request_replacement_def confirm_admission_def reject_admission_def
  complete_owner_def is_idle_def slot_owner_def

interpretation slot_lane: owner_lane slot_owner slot_step slot_op_acquires slot_op_releases
proof
  fix s op i
  assume "slot_owner (slot_step s op) = Some i" "slot_owner s \<noteq> Some i"
  then show "slot_owner s = None \<and> slot_op_acquires op = Some i"
    by (cases op; cases "sl_phase s") (auto simp: slot_op_defs Let_def split: if_splits)
next
  fix s op i
  assume "slot_owner s = Some i" "slot_owner (slot_step s op) \<noteq> Some i"
  then show "slot_owner (slot_step s op) = None \<and> slot_op_releases op = Some i"
    by (cases op; cases "sl_phase s") (auto simp: slot_op_defs Let_def split: if_splits)
qed

section \<open>The documented phase diagram\<close>

text \<open>The edges of the state diagram in the module documentation of \<^verbatim>\<open>slot.rs\<close>.\<close>

inductive phase_edge :: "slot_phase \<Rightarrow> slot_phase \<Rightarrow> bool" where
  idle_admitting: "phase_edge Idle (Admitting i t)"
| admitting_idle: "phase_edge (Admitting i t) Idle"
| admitting_running: "phase_edge (Admitting i t) (Running i t')"
| admitting_cancel: "phase_edge (Admitting i t) (CancelPendingAdmission i t')"
| cancel_idle: "phase_edge (CancelPendingAdmission i t) Idle"
| cancel_terminating: "phase_edge (CancelPendingAdmission i t) (Terminating i t)"
| running_idle: "phase_edge (Running i t) Idle"
| running_terminating: "phase_edge (Running i t) (Terminating i t')"
| terminating_idle: "phase_edge (Terminating i t) Idle"

lemmas phase_edge_intros [intro] = phase_edge.intros

inductive_cases phase_edge_from_terminating [elim!]: "phase_edge (Terminating i t) p"

section \<open>Facts used by the controller\<close>

text \<open>Phases that wait for the registry's answer, and phases of an accepted task.\<close>

fun phase_admitting :: "slot_phase \<Rightarrow> bool" where
  "phase_admitting (Admitting _ _) = True"
| "phase_admitting (CancelPendingAdmission _ _) = True"
| "phase_admitting _ = False"

fun phase_accepted :: "slot_phase \<Rightarrow> bool" where
  "phase_accepted (Running _ _) = True"
| "phase_accepted (Terminating _ _) = True"
| "phase_accepted _ = False"

lemma phase_cases:
  "p = Idle \<or> phase_admitting p \<or> phase_accepted p"
  "\<not> (phase_admitting p \<and> phase_accepted p)"
  "phase_owner p = None \<longleftrightarrow> p = Idle"
  by (cases p; simp)+

lemma is_idle_iff: "is_idle s \<longleftrightarrow> sl_phase s = Idle"
  by (simp add: is_idle_def split: slot_phase.splits)

lemma is_idle_owner: "is_idle s \<longleftrightarrow> slot_owner s = None"
  by (simp add: is_idle_iff slot_owner_def phase_cases)

lemma begin_admission_idle:
  "is_idle s \<Longrightarrow> begin_admission s i t = (True, s\<lparr>sl_phase := Admitting i t\<rparr>)"
  by (simp add: begin_admission_def)

lemma reject_admission_eq:
  "reject_admission s i =
     (if phase_admitting (sl_phase s) \<and> slot_owner s = Some i
      then (True, s\<lparr>sl_phase := Idle\<rparr>) else (False, s))"
  by (cases "sl_phase s") (simp_all add: reject_admission_def slot_owner_def)

lemma complete_owner_eq:
  "complete_owner s i =
     (if phase_accepted (sl_phase s) \<and> slot_owner s = Some i
      then (True, s\<lparr>sl_phase := Idle\<rparr>) else (False, s))"
  by (cases "sl_phase s") (simp_all add: complete_owner_def slot_owner_def)

section \<open>Properties\<close>

text \<open>
  C16. Owners of a slot never overlap. In every sequence of slot operations that starts with owner
  \<open>i\<close> and ends with a different owner \<open>j\<close>, an admission rejection or a completion of \<open>i\<close>
  precedes the operation that installs \<open>j\<close>, which is a \<open>begin_admission\<close> of \<open>j\<close>: a replacement or
  queued submission never starts before its predecessor has released the slot.
\<close>

theorem slot_owners_never_overlap:
  assumes "slot_owner s = Some i" and "slot_owner (foldl slot_step s ops) = Some j" and "i \<noteq> j"
  shows "\<exists>pre t post. ops = pre @ OpBegin j t # post \<and> (OpReject i \<in> set pre \<or> OpComplete i \<in> set pre)"
proof -
  from slot_lane.handover[OF assms] obtain pre op post r where
    "ops = pre @ op # post" "slot_op_acquires op = Some j" "r \<in> set pre" "slot_op_releases r = Some i"
    by blast
  then show ?thesis by (cases op; cases r) auto
qed

theorem slot_owners_never_overlap_witness:
  "\<exists>pre t post. [OpConfirm 1 5, OpReplace 6, OpComplete 1, OpBegin 2 9] = pre @ OpBegin 2 t # post
     \<and> (OpReject 1 \<in> set pre \<or> OpComplete 1 \<in> set pre)"
  by (rule slot_owners_never_overlap[where s = "\<lparr>sl_phase = Admitting 1 0, sl_queue = []\<rparr>"])
    (simp_all add: slot_op_defs)

text \<open>
  The slot follows the documented phase diagram: every operation, applied in any phase and for
  any identity, either leaves the phase unchanged or takes one edge of the diagram, and it never
  touches the queue.
\<close>

lemma slot_follows_phase_diagram:
  "(sl_phase (slot_step s op) = sl_phase s \<or> phase_edge (sl_phase s) (sl_phase (slot_step s op)))
   \<and> sl_queue (slot_step s op) = sl_queue s"
  by (cases op; cases "sl_phase s") (auto simp: slot_op_defs Let_def)

end
