(* ===== verification/Capacity_Pump.thy ===== *)
theory Capacity_Pump
  imports Taskvisor_Prelude
begin

text \<open>
  The FIFO of registry-capacity reservations (\<open>CapacityAdmissionPump\<close> in
  \<^verbatim>\<open>src/src/controller/engine/operations.rs\<close>). At most one reservation future is active. The future
  captures the upgraded supervisor when it starts: the flag beside the active identity says
  whether that upgrade succeeded, so a future started without a supervisor can only resolve to the
  shutdown error.

  The interface the controller relies on is the locale \<open>bounded_fifo\<close>.
\<close>

record capacity_pump =
  cp_limit :: nat
  cp_queued :: "task_id list"
  cp_active :: "(task_id \<times> bool) option"

definition pump_new :: "nat \<Rightarrow> capacity_pump" where
  "pump_new limit = \<lparr>cp_limit = limit, cp_queued = [], cp_active = None\<rparr>"

definition pump_len :: "capacity_pump \<Rightarrow> nat" where
  "pump_len p = (case cp_active p of None \<Rightarrow> 0 | Some _ \<Rightarrow> 1) + length (cp_queued p)"

definition pump_is_empty :: "capacity_pump \<Rightarrow> bool" where
  "pump_is_empty p \<longleftrightarrow> cp_active p = None \<and> cp_queued p = []"

text \<open>\<open>up\<close> says whether \<open>supervisor.upgrade()\<close> succeeds at this moment.\<close>

definition pump_start_next :: "bool \<Rightarrow> capacity_pump \<Rightarrow> capacity_pump" where
  "pump_start_next up p =
     (case cp_active p of
        Some _ \<Rightarrow> p
      | None \<Rightarrow>
          (case cp_queued p of
             [] \<Rightarrow> p
           | i # rest \<Rightarrow> p\<lparr>cp_queued := rest, cp_active := Some (i, up)\<rparr>))"

definition pump_enqueue :: "bool \<Rightarrow> capacity_pump \<Rightarrow> task_id \<Rightarrow> (nat, capacity_pump) result" where
  "pump_enqueue up p i =
     (if pump_len p \<ge> cp_limit p then Inl (cp_limit p)
      else Inr (pump_start_next up (p\<lparr>cp_queued := cp_queued p @ [i]\<rparr>)))"

text \<open>The condition of the \<open>debug_assert!\<close> in \<open>enqueue\<close>.\<close>

definition pump_enqueue_assert :: "capacity_pump \<Rightarrow> task_id \<Rightarrow> bool" where
  "pump_enqueue_assert p i \<longleftrightarrow>
     (case cp_active p of None \<Rightarrow> True | Some (a, _) \<Rightarrow> a \<noteq> i) \<and> i \<notin> set (cp_queued p)"

definition pump_cancel :: "bool \<Rightarrow> capacity_pump \<Rightarrow> task_id \<Rightarrow> bool \<times> capacity_pump" where
  "pump_cancel up p i =
     (if (case cp_active p of None \<Rightarrow> False | Some (a, _) \<Rightarrow> a = i)
      then (True, pump_start_next up (p\<lparr>cp_active := None\<rparr>))
      else (case list_position (\<lambda>q. q = i) (cp_queued p) of
              None \<Rightarrow> (False, p)
            | Some position \<Rightarrow>
                (True, p\<lparr>cp_queued := list_remove_at position (cp_queued p)\<rparr>)))"

text \<open>
  \<open>next\<close> once its reservation future has resolved: the identity whose wait ended with the
  captured supervisor flag, and the advanced pump.
\<close>

definition pump_next :: "bool \<Rightarrow> capacity_pump \<Rightarrow> ((task_id \<times> bool) \<times> capacity_pump) option" where
  "pump_next up p =
     (let p1 = pump_start_next up p
      in case cp_active p1 of
           None \<Rightarrow> None
         | Some a \<Rightarrow> Some (a, pump_start_next up (p1\<lparr>cp_active := None\<rparr>)))"

section \<open>A bounded FIFO with cancellation\<close>

locale bounded_fifo =
  fixes items :: "'q \<Rightarrow> 'a list"
    and limit :: "'q \<Rightarrow> nat"
    and enq :: "'q \<Rightarrow> 'a \<Rightarrow> (nat, 'q) result"
    and cancel :: "'q \<Rightarrow> 'a \<Rightarrow> bool \<times> 'q"
    and pop :: "'q \<Rightarrow> ('a \<times> 'q) option"
  assumes enq_room: "length (items q) < limit q \<Longrightarrow>
        \<exists>q'. enq q x = Inr q' \<and> items q' = items q @ [x] \<and> limit q' = limit q"
    and enq_full: "length (items q) \<ge> limit q \<Longrightarrow> enq q x = Inl (limit q)"
    and cancel_items: "items (snd (cancel q x)) = remove1 x (items q)"
    and cancel_limit: "limit (snd (cancel q x)) = limit q"
    and cancel_found: "fst (cancel q x) \<longleftrightarrow> x \<in> set (items q)"
    and pop_none: "pop q = None \<longleftrightarrow> items q = []"
    and pop_some: "pop q = Some (x, q') \<Longrightarrow> items q = x # items q' \<and> limit q' = limit q"
begin

definition ok :: "'q \<Rightarrow> bool" where
  "ok q \<longleftrightarrow> distinct (items q) \<and> length (items q) \<le> limit q"

lemma enq_cases:
  "(enq q x = Inl (limit q) \<and> length (items q) \<ge> limit q)
   \<or> (\<exists>q'. enq q x = Inr q' \<and> items q' = items q @ [x] \<and> limit q' = limit q
        \<and> length (items q) < limit q)"
  using enq_room[of q x] enq_full[of q x] by (cases "length (items q) < limit q") auto

lemma enq_Inr:
  "enq q x = Inr q' \<Longrightarrow>
     items q' = items q @ [x] \<and> limit q' = limit q \<and> length (items q) < limit q"
  using enq_cases[of q x] by auto

lemma enq_Inl: "enq q x = Inl n \<Longrightarrow> n = limit q"
  using enq_cases[of q x] by auto

lemma ok_enq: "ok q \<Longrightarrow> enq q x = Inr q' \<Longrightarrow> x \<notin> set (items q) \<Longrightarrow> ok q'"
  by (auto simp: ok_def dest: enq_Inr)

lemma ok_cancel: "ok q \<Longrightarrow> ok (snd (cancel q x))"
  by (auto simp: ok_def cancel_items cancel_limit length_remove1)

lemma ok_pop: "ok q \<Longrightarrow> pop q = Some (x, q') \<Longrightarrow> ok q' \<and> x \<notin> set (items q')"
  using pop_some by (fastforce simp: ok_def)

lemma cancel_set: "ok q \<Longrightarrow> set (items (snd (cancel q x))) = set (items q) - {x}"
  by (simp add: ok_def cancel_items)

end

section \<open>The pump is a bounded FIFO\<close>

definition pump_ids :: "capacity_pump \<Rightarrow> task_id list" where
  "pump_ids p = (case cp_active p of None \<Rightarrow> [] | Some (a, _) \<Rightarrow> [a]) @ cp_queued p"

text \<open>\<open>pump_next\<close> without the captured supervisor flag.\<close>

definition pump_pop :: "bool \<Rightarrow> capacity_pump \<Rightarrow> (task_id \<times> capacity_pump) option" where
  "pump_pop up p = map_option (\<lambda>((i, _), p'). (i, p')) (pump_next up p)"

lemma pump_len_ids: "pump_len p = length (pump_ids p)"
  by (auto simp: pump_len_def pump_ids_def split: option.splits)

lemma pump_ids_start_next [simp]:
  "pump_ids (pump_start_next up p) = pump_ids p"
  "cp_limit (pump_start_next up p) = cp_limit p"
  by (auto simp: pump_start_next_def pump_ids_def split: option.splits list.splits)

lemma pump_ids_append [simp]: "pump_ids (p\<lparr>cp_queued := cp_queued p @ xs\<rparr>) = pump_ids p @ xs"
  by (simp add: pump_ids_def)

lemma pump_ids_inactive [simp]: "pump_ids (p\<lparr>cp_active := None\<rparr>) = cp_queued p"
  by (simp add: pump_ids_def)

lemma list_remove_at_position:
  "list_position (\<lambda>q. q = x) xs = Some i \<Longrightarrow> list_remove_at i xs = remove1 x xs"
proof (induction xs arbitrary: i)
  case (Cons y ys)
  then show ?case
    by (auto simp: list_remove_at_def split: if_splits)
qed simp

lemma pump_start_next_active:
  "cp_active (pump_start_next up p) = None \<longleftrightarrow> pump_ids p = []"
  by (auto simp: pump_start_next_def pump_ids_def split: option.splits list.splits)

interpretation pump: bounded_fifo pump_ids cp_limit "pump_enqueue up" "pump_cancel up"
  "pump_pop up" for up
proof
  fix q x
  assume "length (pump_ids q) < cp_limit q"
  then show "\<exists>q'. pump_enqueue up q x = Inr q' \<and> pump_ids q' = pump_ids q @ [x]
      \<and> cp_limit q' = cp_limit q"
    by (simp add: pump_enqueue_def pump_len_ids)
next
  fix q x
  assume "length (pump_ids q) \<ge> cp_limit q"
  then show "pump_enqueue up q x = Inl (cp_limit q)"
    by (simp add: pump_enqueue_def pump_len_ids)
next
  fix q x
  show "pump_ids (snd (pump_cancel up q x)) = remove1 x (pump_ids q)"
  proof (cases "cp_active q")
    case None
    then show ?thesis
      by (auto simp: pump_cancel_def pump_ids_def list_position_None list_remove_at_position
          remove1_idem split: option.splits)
  next
    case (Some a)
    then obtain i c where act: "cp_active q = Some (i, c)" by (cases a) auto
    show ?thesis
    proof (cases "i = x")
      case True
      with act show ?thesis by (simp add: pump_cancel_def) (simp add: pump_ids_def)
    next
      case False
      with act show ?thesis
        by (auto simp: pump_cancel_def pump_ids_def list_position_None list_remove_at_position
            remove1_idem split: option.splits)
    qed
  qed
next
  fix q x
  show "cp_limit (snd (pump_cancel up q x)) = cp_limit q"
    by (auto simp: pump_cancel_def split: option.splits)
next
  fix q x
  show "fst (pump_cancel up q x) \<longleftrightarrow> x \<in> set (pump_ids q)"
    by (auto simp: pump_cancel_def pump_ids_def list_position_None
        dest: list_position_Some split: option.splits)
next
  fix q
  show "pump_pop up q = None \<longleftrightarrow> pump_ids q = []"
    unfolding pump_start_next_active[of up q, symmetric]
    by (auto simp: pump_pop_def pump_next_def Let_def split: option.splits)
next
  fix q x q'
  assume "pump_pop up q = Some (x, q')"
  then obtain c where act: "cp_active (pump_start_next up q) = Some (x, c)"
    and q': "q' = pump_start_next up ((pump_start_next up q)\<lparr>cp_active := None\<rparr>)"
    by (auto simp: pump_pop_def pump_next_def Let_def split: option.splits)
  have "pump_ids q = pump_ids (pump_start_next up q)" by simp
  also have "\<dots> = x # pump_ids ((pump_start_next up q)\<lparr>cp_active := None\<rparr>)"
    using act by (simp add: pump_ids_def)
  finally show "pump_ids q = x # pump_ids q' \<and> cp_limit q' = cp_limit q"
    using q' by simp
qed

lemma pump_enqueue_assert_iff: "pump_enqueue_assert p i \<longleftrightarrow> i \<notin> set (pump_ids p)"
  by (auto simp: pump_enqueue_assert_def pump_ids_def split: option.splits)

section \<open>Properties\<close>

text \<open>
  The reservation pump is a bounded FIFO. An enqueue is refused, with the limit, exactly when
  the pump is full and otherwise appends; cancelling removes exactly the given identity and reports
  whether it was there; a resolved reservation always belongs to the oldest waiter and leaves the
  others in order.
\<close>

lemma pump_bounded_fifo:
  "(length (pump_ids p) \<ge> cp_limit p \<longleftrightarrow> pump_enqueue up p i = Inl (cp_limit p))
   \<and> (\<forall>q. pump_enqueue up p i = Inr q \<longrightarrow> pump_ids q = pump_ids p @ [i] \<and> cp_limit q = cp_limit p)
   \<and> (\<forall>found q. pump_cancel up p i = (found, q) \<longrightarrow>
        pump_ids q = remove1 i (pump_ids p) \<and> (found \<longleftrightarrow> i \<in> set (pump_ids p)))
   \<and> (pump_next up p = None \<longleftrightarrow> pump_ids p = [])
   \<and> (\<forall>j alive q. pump_next up p = Some ((j, alive), q) \<longrightarrow> pump_ids p = j # pump_ids q)"
proof (intro conjI allI impI)
  show "length (pump_ids p) \<ge> cp_limit p \<longleftrightarrow> pump_enqueue up p i = Inl (cp_limit p)"
    using pump.enq_cases[where q = p and up = up and x = i] by auto
  show "pump_next up p = None \<longleftrightarrow> pump_ids p = []"
    using pump.pop_none[where up = up and q = p] by (simp add: pump_pop_def)
next
  fix q assume "pump_enqueue up p i = Inr q"
  from pump.enq_Inr[OF this] show "pump_ids q = pump_ids p @ [i]" "cp_limit q = cp_limit p" by simp_all
next
  fix found q assume "pump_cancel up p i = (found, q)"
  then show "pump_ids q = remove1 i (pump_ids p)" "found \<longleftrightarrow> i \<in> set (pump_ids p)"
    using pump.cancel_items[where up = up and q = p and x = i] pump.cancel_found[where up = up and q = p and x = i]
    by simp_all
next
  fix j alive q assume "pump_next up p = Some ((j, alive), q)"
  then show "pump_ids p = j # pump_ids q"
    using pump.pop_some[where up = up and q = p and x = j and q' = q] by (simp add: pump_pop_def)
qed

end
