(* ===== verification/Events.thy ===== *)
theory Events
  imports Errors
begin

text \<open>
  Best-effort observation values (\<^verbatim>\<open>src/src/events/event.rs\<close>). The process-wide sequence number and
  the wall-clock time that \<open>Event::new\<close> stamps are left out: no runtime decision reads them. The
  millisecond fields saturate at 32 bits.
\<close>

datatype event_kind =
    SubscriberPanicked | RuntimeFailure | OwnershipCapacityRetired | SubscriberOverflow
  | ShutdownRequested | AllStoppedWithinGrace | GraceExceededEvent | AttemptStarting
  | AttemptSucceeded | AttemptCanceled | AttemptFailed | AttemptTimedOut | BackoffScheduled
  | TaskAddRequested | TaskAdded | TaskAddFailed | TaskRemoveRequested | TaskRemoved
  | TaskFinished | ControllerRejected | ControllerSubmitted | ControllerSlotTransition

fun event_kind_label :: "event_kind \<Rightarrow> string" where
  "event_kind_label SubscriberPanicked = ''subscriber_panicked''"
| "event_kind_label RuntimeFailure = ''runtime_failure''"
| "event_kind_label OwnershipCapacityRetired = ''ownership_capacity_retired''"
| "event_kind_label SubscriberOverflow = ''subscriber_overflow''"
| "event_kind_label ShutdownRequested = ''shutdown_requested''"
| "event_kind_label AllStoppedWithinGrace = ''all_stopped_within_grace''"
| "event_kind_label GraceExceededEvent = ''grace_exceeded''"
| "event_kind_label AttemptStarting = ''attempt_starting''"
| "event_kind_label AttemptSucceeded = ''attempt_succeeded''"
| "event_kind_label AttemptCanceled = ''attempt_canceled''"
| "event_kind_label AttemptFailed = ''attempt_failed''"
| "event_kind_label AttemptTimedOut = ''attempt_timed_out''"
| "event_kind_label BackoffScheduled = ''backoff_scheduled''"
| "event_kind_label TaskAddRequested = ''task_add_requested''"
| "event_kind_label TaskAdded = ''task_added''"
| "event_kind_label TaskAddFailed = ''task_add_failed''"
| "event_kind_label TaskRemoveRequested = ''task_remove_requested''"
| "event_kind_label TaskRemoved = ''task_removed''"
| "event_kind_label TaskFinished = ''task_finished''"
| "event_kind_label ControllerRejected = ''controller_rejected''"
| "event_kind_label ControllerSubmitted = ''controller_submitted''"
| "event_kind_label ControllerSlotTransition = ''controller_slot_transition''"

datatype backoff_source = BackoffSuccess | BackoffFailure

record event =
  ev_kind :: event_kind
  ev_backoff_source :: "backoff_source option"
  ev_timeout_ms :: "nat option"
  ev_delay_ms :: "nat option"
  ev_duration_ms :: "nat option"
  ev_dropped :: "nat option"
  ev_configured_capacity :: "nat option"
  ev_effective_capacity :: "nat option"
  ev_retired_units :: "nat option"
  ev_attempt :: "nat option"
  ev_reason :: "reason option"
  ev_outcome_kind :: "task_outcome_kind option"
  ev_rejection_kind :: "rejection_kind option"
  ev_task :: "name option"
  ev_id :: "task_id option"
  ev_exit_code :: "int option"

definition event_new :: "event_kind \<Rightarrow> event" where
  "event_new k =
     \<lparr>ev_kind = k, ev_backoff_source = None, ev_timeout_ms = None, ev_delay_ms = None,
      ev_duration_ms = None, ev_dropped = None, ev_configured_capacity = None,
      ev_effective_capacity = None, ev_retired_units = None, ev_attempt = None, ev_reason = None,
      ev_outcome_kind = None, ev_rejection_kind = None, ev_task = None, ev_id = None,
      ev_exit_code = None\<rparr>"

definition with_reason :: "reason \<Rightarrow> event \<Rightarrow> event" where
  "with_reason r e = e\<lparr>ev_reason := Some r\<rparr>"

definition with_outcome_kind :: "task_outcome_kind \<Rightarrow> event \<Rightarrow> event" where
  "with_outcome_kind k e = e\<lparr>ev_outcome_kind := Some k\<rparr>"

definition with_rejection_kind :: "rejection_kind \<Rightarrow> event \<Rightarrow> event" where
  "with_rejection_kind k e = e\<lparr>ev_rejection_kind := Some k, ev_outcome_kind := Some OkRejected\<rparr>"

definition with_task :: "name \<Rightarrow> event \<Rightarrow> event" where
  "with_task n e = e\<lparr>ev_task := Some n\<rparr>"

definition with_id :: "task_id \<Rightarrow> event \<Rightarrow> event" where
  "with_id i e = e\<lparr>ev_id := Some i\<rparr>"

definition millis_u32 :: "duration \<Rightarrow> nat" where
  "millis_u32 d = min (d div 1000000) u32_max"

definition with_timeout_ms :: "duration \<Rightarrow> event \<Rightarrow> event" where
  "with_timeout_ms d e = e\<lparr>ev_timeout_ms := Some (millis_u32 d)\<rparr>"

definition with_delay_ms :: "duration \<Rightarrow> event \<Rightarrow> event" where
  "with_delay_ms d e = e\<lparr>ev_delay_ms := Some (millis_u32 d)\<rparr>"

definition with_duration_ms :: "duration \<Rightarrow> event \<Rightarrow> event" where
  "with_duration_ms d e = e\<lparr>ev_duration_ms := Some (millis_u32 d)\<rparr>"

definition with_dropped :: "nat \<Rightarrow> event \<Rightarrow> event" where
  "with_dropped n e = e\<lparr>ev_dropped := Some n\<rparr>"

definition with_attempt :: "nat \<Rightarrow> event \<Rightarrow> event" where
  "with_attempt n e = e\<lparr>ev_attempt := Some n\<rparr>"

definition with_event_exit_code :: "int \<Rightarrow> event \<Rightarrow> event" where
  "with_event_exit_code c e = e\<lparr>ev_exit_code := Some c\<rparr>"

definition with_backoff_source :: "backoff_source \<Rightarrow> event \<Rightarrow> event" where
  "with_backoff_source s e = e\<lparr>ev_backoff_source := Some s\<rparr>"

definition subscriber_overflow :: "name \<Rightarrow> reason \<Rightarrow> event" where
  "subscriber_overflow subscriber r = with_reason r (with_task subscriber (event_new SubscriberOverflow))"

definition subscriber_panicked :: "name \<Rightarrow> reason \<Rightarrow> event" where
  "subscriber_panicked subscriber info = with_reason info (with_task subscriber (event_new SubscriberPanicked))"

definition runtime_failure :: "name \<Rightarrow> reason \<Rightarrow> event" where
  "runtime_failure cmp r = with_reason r (with_task cmp (event_new RuntimeFailure))"

definition ownership_capacity_retired :: "nat \<Rightarrow> nat \<Rightarrow> nat \<Rightarrow> event" where
  "ownership_capacity_retired configured effective retired =
     (event_new OwnershipCapacityRetired)
       \<lparr>ev_configured_capacity := Some configured, ev_effective_capacity := Some effective,
        ev_retired_units := Some retired\<rparr>"

definition is_internal_diagnostic :: "event \<Rightarrow> bool" where
  "is_internal_diagnostic e =
     (case ev_kind e of
        SubscriberOverflow \<Rightarrow> True
      | SubscriberPanicked \<Rightarrow> True
      | RuntimeFailure \<Rightarrow> True
      | OwnershipCapacityRetired \<Rightarrow> True
      | _ \<Rightarrow> False)"

lemma event_kind_label_inj: "event_kind_label a = event_kind_label b \<Longrightarrow> a = b"
  by (cases a; cases b; simp)

text \<open>
  The stable labels identify their category: two event kinds, rejection kinds or outcome kinds
  with the same label are equal, and two runtime errors with the same label are the same variant;
  a task error is exactly one of retryable, fatal and cancelled, and only those with a reason carry
  an exit code.
\<close>

lemma labels_identify_categories:
  "inj event_kind_label \<and> inj rejection_kind_label \<and> inj outcome_kind_label
   \<and> (runtime_error_label (ResourceLimitReached x l) = runtime_error_label r \<longrightarrow>
        (\<exists>y k. r = ResourceLimitReached y k))
   \<and> (\<forall>e. (is_retryable e \<or> is_fatal e \<or> e = Canceled) \<and> \<not> (is_retryable e \<and> is_fatal e)
        \<and> (task_error_exit_code e \<noteq> None \<longrightarrow>
             task_error_label e \<in> {''task_fatal'', ''task_failed''}))"
proof (intro conjI)
  show "inj event_kind_label" "inj rejection_kind_label" "inj outcome_kind_label"
    by (simp_all add: inj_def event_kind_label_inj rejection_kind_label_inj outcome_kind_label_inj)
  show "runtime_error_label (ResourceLimitReached x l) = runtime_error_label r \<longrightarrow>
        (\<exists>y k. r = ResourceLimitReached y k)"
    by (cases r) simp_all
  show "\<forall>e. (is_retryable e \<or> is_fatal e \<or> e = Canceled) \<and> \<not> (is_retryable e \<and> is_fatal e)
        \<and> (task_error_exit_code e \<noteq> None \<longrightarrow> task_error_label e \<in> {''task_fatal'', ''task_failed''})"
    by (rule allI, rename_tac e, case_tac e) simp_all
qed

end
