(* ===== verification/Command_Gate.thy ===== *)
theory Command_Gate
  imports Events Drop_Bundle
begin

text \<open>
  The runtime's management channel as its clients see it: the bounded registry command queue, the
  reserved permits and the shutdown gate (\<^verbatim>\<open>src/src/core/runtime/management/command_gate.rs\<close>,
  \<^verbatim>\<open>add.rs\<close>, \<^verbatim>\<open>remove.rs\<close>, and the commands of \<^verbatim>\<open>src/src/core/registry/protocol.rs\<close>).

  A Tokio \<open>mpsc\<close> channel of capacity \<open>n\<close> is its buffer and the number of reserved permits; a
  permit is available while both together are below \<open>n\<close>. The accesses are single operations here; the
  reservation that strings them together is in the theories of its callers, because other threads move
  between them. A one-shot outcome channel is named by
  the identity of the waiter that holds its receiver.
\<close>

type_synonym outcome_tx = task_id

record add_batch_item =
  abi_id :: task_id
  abi_name :: name
  abi_owned :: "task_spec owned_task"

datatype registry_command =
    CmdAdd task_id name "task_spec owned_task" "outcome_tx option" bool
  | CmdAddBatch "add_batch_item list"
  | CmdRemove task_id
  | CmdRemoveByName name
  | CmdCancel task_id
  | CmdCancelByName name

record core_port =
  port_queue :: "registry_command list"
  port_permits :: nat
  port_capacity :: nat
  port_closed :: bool
  port_shutting_down :: bool

record uncommitted_add =
  uc_error :: runtime_error
  uc_name :: name
  uc_owned :: "task_spec owned_task"
  uc_done :: "outcome_tx option"

text \<open>\<open>mpsc::Sender::try_reserve\<close>: the two send errors, or the port with one more permit.\<close>

datatype try_send_error = SendFull | SendClosed

definition port_try_reserve :: "core_port \<Rightarrow> (try_send_error, core_port) result" where
  "port_try_reserve p =
     (if port_closed p then Inl SendClosed
      else if length (port_queue p) + port_permits p \<ge> port_capacity p then Inl SendFull
      else Inr (p\<lparr>port_permits := Suc (port_permits p)\<rparr>))"

definition port_drop_permit :: "core_port \<Rightarrow> core_port" where
  "port_drop_permit p = p\<lparr>port_permits := port_permits p - 1\<rparr>"

text \<open>Sending through a permit never fails; the permit becomes the buffered command.\<close>

definition port_send :: "core_port \<Rightarrow> registry_command \<Rightarrow> core_port" where
  "port_send p cmd = p\<lparr>port_permits := port_permits p - 1, port_queue := port_queue p @ [cmd]\<rparr>"

definition mark_shutting_down :: "core_port \<Rightarrow> core_port" where
  "mark_shutting_down p = p\<lparr>port_shutting_down := True\<rparr>"

text \<open>\<open>command_admission\<close>: whether the gate is still open under its lock.\<close>

definition command_admission :: "core_port \<Rightarrow> bool" where
  "command_admission p \<longleftrightarrow> \<not> port_shutting_down p"

text \<open>The commit of another caller, at the moment it passes the gate with a permit of its own.\<close>

definition port_other_send :: "core_port \<Rightarrow> registry_command \<Rightarrow> core_port" where
  "port_other_send p cmd =
     (if command_admission p \<and> \<not> port_closed p \<and> length (port_queue p) + port_permits p < port_capacity p
      then p\<lparr>port_queue := port_queue p @ [cmd]\<rparr> else p)"

section \<open>Facts\<close>

definition port_wf :: "core_port \<Rightarrow> bool" where
  "port_wf p \<longleftrightarrow> length (port_queue p) + port_permits p \<le> port_capacity p"

lemma port_try_reserve_Inr:
  "port_try_reserve p = Inr q \<longleftrightarrow>
     \<not> port_closed p \<and> length (port_queue p) + port_permits p < port_capacity p
     \<and> q = p\<lparr>port_permits := Suc (port_permits p)\<rparr>"
  by (auto simp: port_try_reserve_def)

lemma port_wf_reserve: "port_try_reserve p = Inr q \<Longrightarrow> port_wf q"
  by (auto simp: port_try_reserve_Inr port_wf_def)

lemma port_wf_send: "port_wf p \<Longrightarrow> 0 < port_permits p \<Longrightarrow> port_wf (port_send p cmd)"
  by (simp add: port_wf_def port_send_def)

lemma port_wf_drop: "port_wf p \<Longrightarrow> port_wf (port_drop_permit p)"
  by (simp add: port_wf_def port_drop_permit_def)

end
