(* ===== verification/Controller_State.thy ===== *)
theory Controller_State
  imports Slot Capacity_Pump Command_Gate
begin

text \<open>
  State of the keyed-admission controller (\<^verbatim>\<open>src/src/controller/engine/\<close>): the controller engine with
  its cross-slot indexes (\<^verbatim>\<open>mod.rs\<close>, \<^verbatim>\<open>state/mod.rs\<close>), the in-loop tracked operations
  (\<^verbatim>\<open>operations.rs\<close>), the messages of \<^verbatim>\<open>command.rs\<close>, and the part of the world that the loop can see.

  The loop is serialized, but other threads run beside it: the registry listener drains the command
  queue, other callers send commands through it, the runtime closes its gate or cancels the shutdown token, the last supervisor owner goes
  away, a waiter is dropped, time passes. These moves are scripted in the field \<open>env\<close>: before each
  access to shared data the loop executes \<open>sync\<close>, which plays the next batch of moves. Every
  property is stated for an arbitrary script, that is for every interleaving at these points.

  What leaves the controller is recorded in \<open>log\<close>: published events, outcomes delivered or handed
  back because the waiter is gone, committed registry commands, submitted cleanup bundles and
  identity replies. A failing \<open>assert!\<close>, \<open>debug_assert!\<close>, \<open>expect\<close> or \<open>unreachable!\<close> of the engine counts in \<open>faults\<close>.
\<close>

section \<open>Specifications and messages\<close>

datatype admission_policy = DropIfRunning | Replace | Queue

record controller_spec =
  cs_admission :: admission_policy
  cs_task_spec :: task_spec
  cs_slot :: "name option"

definition controller_spec_new :: "admission_policy \<Rightarrow> task_spec \<Rightarrow> controller_spec" where
  "controller_spec_new a t = \<lparr>cs_admission = a, cs_task_spec = t, cs_slot = None\<rparr>"

definition with_slot_override :: "controller_spec \<Rightarrow> name \<Rightarrow> controller_spec" where
  "with_slot_override s n = s\<lparr>cs_slot := Some n\<rparr>"

definition without_slot_override :: "controller_spec \<Rightarrow> controller_spec" where
  "without_slot_override s = s\<lparr>cs_slot := None\<rparr>"

definition cs_slot_name :: "controller_spec \<Rightarrow> name" where
  "cs_slot_name s = (case cs_slot s of Some n \<Rightarrow> n | None \<Rightarrow> ts_name (cs_task_spec s))"

text \<open>A reply channel of an identity command is named by a number.\<close>

type_synonym reply_tx = nat

datatype identity_operation =
    IdRemove
  | IdTryRemove
  | IdCancel
  | IdTryCancel
  | IdCancelWithTimeout duration
  | IdTryCancelWithTimeout duration

fun request_reason :: "identity_operation \<Rightarrow> reason option" where
  "request_reason IdRemove = None"
| "request_reason IdTryRemove = None"
| "request_reason _ = Some [Lit ''manual_cancel'']"

record submission =
  sub_id :: task_id
  sub_owned :: "controller_spec owned_task"
  sub_done :: "outcome_tx option"

datatype controller_command =
    Submit submission
  | ManageIdentity task_id identity_operation reply_tx

record capacity_pending_entry =
  ce_slot_name :: name
  ce_pending :: pending_submission

section \<open>The world of the controller loop\<close>

datatype env_move =
    Drain nat
  | OtherSend registry_command
  | CloseGate
  | CloseReceiver
  | CancelToken
  | DropSupervisor
  | DropWaiter outcome_tx
  | Tick nat

datatype effect =
    Published event
  | Delivered outcome_tx task_outcome
  | Undelivered outcome_tx task_outcome
  | Committed registry_command
  | Disposed drop_bundle
  | Replied reply_tx "(runtime_error, bool) result"

record controller =
  config :: controller_config
  slots :: "(name, slot_state) fmap"
  queued_slots :: "(task_id, name) fmap"
  capacity_pending :: "(task_id, capacity_pending_entry) fmap"
  watchers :: "(task_id, outcome_tx) fmap"
  pump :: capacity_pump
  admissions :: "(task_id \<times> name) list"
  completions :: "(task_id \<times> name) list"
  removals :: "(task_id \<times> name) list"
  identity_ops :: "(task_id \<times> identity_operation \<times> reply_tx) list"
  shutting_down :: bool
  port :: core_port
  sup_alive :: bool
  shutdown_token :: bool
  live_rx :: "outcome_tx fset"
  clock :: instant
  env :: "env_move list list"
  log :: "effect list"
  faults :: nat

definition controller_new ::
  "controller_config \<Rightarrow> core_port \<Rightarrow> outcome_tx fset \<Rightarrow> env_move list list \<Rightarrow> controller" where
  "controller_new cfg p rx script =
     \<lparr>config = cfg, slots = fmempty, queued_slots = fmempty, capacity_pending = fmempty,
      watchers = fmempty, pump = pump_new (cc_admission_capacity cfg), admissions = [],
      completions = [], removals = [], identity_ops = [], shutting_down = False, port = p,
      sup_alive = True, shutdown_token = False, live_rx = rx, clock = 0, env = script, log = [],
      faults = 0\<rparr>"

definition pending_len :: "controller \<Rightarrow> nat" where
  "pending_len c = hm_len (queued_slots c) + hm_len (capacity_pending c)"

section \<open>Interleaving with the other threads\<close>

fun env_step :: "env_move \<Rightarrow> controller \<Rightarrow> controller" where
  "env_step (Drain n) c =
     c\<lparr>port := (port c)\<lparr>port_queue := drop n (port_queue (port c))\<rparr>\<rparr>"
| "env_step (OtherSend cmd) c =
     c\<lparr>port := port_other_send (port c) cmd\<rparr>"
| "env_step CloseGate c = c\<lparr>port := mark_shutting_down (port c)\<rparr>"
| "env_step CloseReceiver c = c\<lparr>port := (port c)\<lparr>port_closed := True\<rparr>\<rparr>"
| "env_step CancelToken c = c\<lparr>shutdown_token := True\<rparr>"
| "env_step DropSupervisor c = c\<lparr>sup_alive := False\<rparr>"
| "env_step (DropWaiter tx) c = c\<lparr>live_rx := live_rx c |-| {|tx|}\<rparr>"
| "env_step (Tick n) c = c\<lparr>clock := clock c + n\<rparr>"

definition sync :: "controller \<Rightarrow> controller" where
  "sync c =
     (case env c of
        [] \<Rightarrow> c
      | ms # rest \<Rightarrow> fold env_step ms (c\<lparr>env := rest\<rparr>))"

section \<open>Primitive effects\<close>

definition publish :: "event \<Rightarrow> controller \<Rightarrow> controller" where
  "publish e c = c\<lparr>log := log c @ [Published e]\<rparr>"

definition debug_check :: "bool \<Rightarrow> controller \<Rightarrow> controller" where
  "debug_check b c = (if b then c else c\<lparr>faults := Suc (faults c)\<rparr>)"

text \<open>\<open>tx.send(outcome).err()\<close>: the outcome comes back when the receiver is gone.\<close>

definition send_outcome ::
  "controller \<Rightarrow> outcome_tx \<Rightarrow> task_outcome \<Rightarrow> task_outcome option \<times> controller" where
  "send_outcome c tx o' =
     (let c = sync c
      in if tx |\<in>| live_rx c then (None, c\<lparr>log := log c @ [Delivered tx o']\<rparr>)
         else (Some o', c\<lparr>log := log c @ [Undelivered tx o']\<rparr>))"

definition send_rejected ::
  "controller \<Rightarrow> outcome_tx option \<Rightarrow> rejection_kind \<Rightarrow> reason
     \<Rightarrow> task_outcome option \<times> controller" where
  "send_rejected c done' kind r =
     (case done' of
        None \<Rightarrow> (None, c)
      | Some tx \<Rightarrow> send_outcome c tx (OutRejected kind r))"

definition finalize_rejected ::
  "controller \<Rightarrow> task_id \<Rightarrow> rejection_kind \<Rightarrow> reason \<Rightarrow> task_outcome option \<times> controller" where
  "finalize_rejected c i kind r =
     (case fmlookup (watchers c) i of
        None \<Rightarrow> (None, c)
      | Some tx \<Rightarrow> send_rejected (c\<lparr>watchers := fmdrop i (watchers c)\<rparr>) (Some tx) kind r)"

definition ctl_mark_shutting_down :: "controller \<Rightarrow> controller" where
  "ctl_mark_shutting_down c = c\<lparr>shutting_down := True\<rparr>"

definition is_shutting_down :: "controller \<Rightarrow> bool \<times> controller" where
  "is_shutting_down c = (let c = sync c in (shutdown_token c \<or> shutting_down c, c))"

definition upgrade :: "controller \<Rightarrow> bool \<times> controller" where
  "upgrade c = (let c = sync c in (sup_alive c, c))"

definition send_reply :: "reply_tx \<Rightarrow> (runtime_error, bool) result \<Rightarrow> controller \<Rightarrow> controller" where
  "send_reply tx r c = c\<lparr>log := log c @ [Replied tx r]\<rparr>"

section \<open>Reserved cleanup\<close>

text \<open>\<open>dispose_owned_task\<close>: attach an undelivered outcome and submit the bundle.\<close>

definition dispose_bundle :: "controller \<Rightarrow> drop_bundle \<Rightarrow> task_outcome option \<Rightarrow> controller" where
  "dispose_bundle c b terminal =
     (let b = (case terminal of None \<Rightarrow> b | Some o' \<Rightarrow> attach_outcome b o')
      in c\<lparr>log := log c @ [Disposed (fst (bundle_submit b))]\<rparr>)"

definition drop_pending_submission ::
  "controller \<Rightarrow> pending_submission \<Rightarrow> task_outcome option \<Rightarrow> controller" where
  "drop_pending_submission c p terminal = dispose_bundle c (ot_cleanup (ps_owned p)) terminal"

definition drop_start_failure ::
  "controller \<Rightarrow> uncommitted_add \<Rightarrow> task_outcome option \<Rightarrow> controller" where
  "drop_start_failure c u terminal =
     (let c = debug_check (uc_done u = None) c
      in dispose_bundle c (ot_cleanup (uc_owned u)) terminal)"

fun drop_pending_submissions ::
  "controller \<Rightarrow> (uncommitted_add \<times> task_outcome option) list \<Rightarrow> controller" where
  "drop_pending_submissions c [] = c"
| "drop_pending_submissions c ((u, t) # rest) =
     drop_pending_submissions (drop_start_failure c u t) rest"

definition rejection_kind_for_runtime_error :: "runtime_error \<Rightarrow> rejection_kind" where
  "rejection_kind_for_runtime_error e =
     (case e of ResourceLimitReached _ _ \<Rightarrow> ResourceLimit | _ \<Rightarrow> AdmissionFailed)"

section \<open>Tracked operations\<close>

definition track_admission :: "controller \<Rightarrow> task_id \<Rightarrow> name \<Rightarrow> controller" where
  "track_admission c i n = c\<lparr>admissions := admissions c @ [(i, n)]\<rparr>"

definition track_completion :: "controller \<Rightarrow> task_id \<Rightarrow> name \<Rightarrow> controller" where
  "track_completion c i n = c\<lparr>completions := completions c @ [(i, n)]\<rparr>"

definition track_removal :: "controller \<Rightarrow> task_id \<Rightarrow> name \<Rightarrow> controller" where
  "track_removal c i n = c\<lparr>removals := removals c @ [(i, n)]\<rparr>"

section \<open>Registry hand-off\<close>

text \<open>
  \<open>try_reserve_command_admission\<close> reads the shutdown flag, reserves a permit of the channel and reads
  the flag again under the gate. These are three accesses to shared data: other threads move before
  each of them. \<open>None\<close> means that the permit is held and the gate is locked; the caller commits before
  anybody else can move.
\<close>

definition try_reserve_command_admission :: "controller \<Rightarrow> runtime_error option \<times> controller" where
  "try_reserve_command_admission c =
     (let c = sync c
      in if port_shutting_down (port c) then (Some ShuttingDown, c)
         else let c = sync c
              in case port_try_reserve (port c) of
                   Inl SendFull \<Rightarrow> (Some CommandQueueFull, c)
                 | Inl SendClosed \<Rightarrow> (Some ShuttingDown, c)
                 | Inr reserved \<Rightarrow>
                     (let c = sync (c\<lparr>port := reserved\<rparr>)
                      in if command_admission (port c) then (None, c)
                         else (Some ShuttingDown, c\<lparr>port := port_drop_permit (port c)\<rparr>)))"

text \<open>\<open>commit_add\<close>: the request event, then the command through the reserved permit.\<close>

definition commit_add ::
  "controller \<Rightarrow> core_port \<Rightarrow> task_id \<Rightarrow> name \<Rightarrow> task_spec owned_task \<Rightarrow> outcome_tx option
     \<Rightarrow> controller" where
  "commit_add c reserved i n owned done' =
     (let c = publish (with_id i (with_task n (event_new TaskAddRequested))) c;
          cmd = CmdAdd i n owned done' True
      in c\<lparr>port := port_send reserved cmd, log := log c @ [Committed cmd]\<rparr>)"

text \<open>
  \<open>add_task_with_id_watched\<close> (with \<open>enqueue_named_add_task_with_completion_recovering\<close>):
  \<open>None\<close> after a commit, otherwise the payload handed back.
\<close>

definition add_task_with_id_watched ::
  "controller \<Rightarrow> task_id \<Rightarrow> name \<Rightarrow> task_spec owned_task \<Rightarrow> outcome_tx option
     \<Rightarrow> uncommitted_add option \<times> controller" where
  "add_task_with_id_watched c i n owned done' =
     (case try_reserve_command_admission c of
        (Some e, c) \<Rightarrow> (Some \<lparr>uc_error = e, uc_name = n, uc_owned = owned, uc_done = done'\<rparr>, c)
      | (None, c) \<Rightarrow> (None, commit_add c (port c) i n owned done'))"

text \<open>\<open>commit_reserved_controller_add\<close>: the permit is already held; only the gate is checked.\<close>

definition commit_reserved_controller_add ::
  "controller \<Rightarrow> task_id \<Rightarrow> name \<Rightarrow> task_spec owned_task \<Rightarrow> outcome_tx option
     \<Rightarrow> uncommitted_add option \<times> controller" where
  "commit_reserved_controller_add c i n owned done' =
     (let c = sync c
      in if \<not> command_admission (port c)
         then (Some \<lparr>uc_error = ShuttingDown, uc_name = n, uc_owned = owned, uc_done = done'\<rparr>,
               c\<lparr>port := port_drop_permit (port c)\<rparr>)
         else (None, commit_add c (port c) i n owned done'))"

section \<open>Properties of the hand-off\<close>

text \<open>What the moves of other threads leave alone, and what they can only raise.\<close>

definition port_moved :: "controller \<Rightarrow> controller \<Rightarrow> bool" where
  "port_moved c c' \<longleftrightarrow>
     log c' = log c \<and> port_permits (port c') = port_permits (port c)
     \<and> (port_wf (port c) \<longrightarrow> port_wf (port c'))
     \<and> (port_shutting_down (port c) \<longrightarrow> port_shutting_down (port c'))
     \<and> (port_closed (port c) \<longrightarrow> port_closed (port c'))"

lemma port_moved_env_step: "port_moved c (env_step m c)"
  by (cases m) (auto simp: port_moved_def port_wf_def port_other_send_def mark_shutting_down_def)

lemma port_moved_trans: "port_moved a b \<Longrightarrow> port_moved b c \<Longrightarrow> port_moved a c"
  by (auto simp: port_moved_def)

lemma port_moved_env_steps: "port_moved c (fold env_step ms c)"
proof (induction ms arbitrary: c)
  case Nil
  show ?case by (simp add: port_moved_def)
next
  case (Cons m ms)
  show ?case using port_moved_trans[OF port_moved_env_step Cons.IH, of c m] by simp
qed

lemma port_moved_sync: "port_moved c (sync c)"
proof (cases "env c")
  case Nil
  then show ?thesis by (simp add: sync_def port_moved_def)
next
  case (Cons ms rest)
  then show ?thesis using port_moved_env_steps[of "c\<lparr>env := rest\<rparr>" ms] by (simp add: sync_def port_moved_def)
qed

text \<open>The outcomes of the reservation, at the state in which it ends.\<close>

lemma try_reserve_granted:
  assumes "try_reserve_command_admission c = (None, c')"
  shows "log c' = log c \<and> port_permits (port c') = Suc (port_permits (port c)) \<and> port_wf (port c')
    \<and> \<not> port_shutting_down (port c')"
proof -
  let ?c2 = "sync (sync c)"
  obtain q where q: "port_try_reserve (port ?c2) = Inr q" "c' = sync (?c2\<lparr>port := q\<rparr>)" "command_admission (port c')"
    using assms by (auto simp: try_reserve_command_admission_def Let_def split: if_splits sum.splits try_send_error.splits)
  note moved = port_moved_trans[OF port_moved_sync[of c] port_moved_sync[of "sync c"]] port_moved_sync[of "?c2\<lparr>port := q\<rparr>"]
  from moved q port_wf_reserve[OF q(1)] show ?thesis
    by (simp add: port_moved_def port_try_reserve_Inr command_admission_def)
qed

lemma try_reserve_refused:
  assumes "try_reserve_command_admission c = (Some e, c')"
  shows "log c' = log c \<and> port_permits (port c') = port_permits (port c) \<and> (port_wf (port c) \<longrightarrow> port_wf (port c'))
    \<and> (e = ShuttingDown \<and> (port_shutting_down (port c') \<or> port_closed (port c'))
       \<or> e = CommandQueueFull \<and> length (port_queue (port c')) + port_permits (port c') \<ge> port_capacity (port c'))"
proof -
  let ?c2 = "sync (sync c)"
  note one = port_moved_sync[of c]
  note two = port_moved_trans[OF one port_moved_sync[of "sync c"]]
  show ?thesis
  proof (cases "port_shutting_down (port (sync c))")
    case True
    with assms have "e = ShuttingDown" "c' = sync c" by (simp_all add: try_reserve_command_admission_def Let_def)
    with one True show ?thesis by (simp add: port_moved_def)
  next
    case open': False
    show ?thesis
    proof (cases "port_try_reserve (port ?c2)")
      case (Inl x)
      with assms open' have "c' = ?c2" "e = (case x of SendFull \<Rightarrow> CommandQueueFull | SendClosed \<Rightarrow> ShuttingDown)"
        by (cases x; simp add: try_reserve_command_admission_def Let_def)+
      with two Inl show ?thesis by (auto simp: port_moved_def port_try_reserve_def split: if_splits)
    next
      case (Inr q)
      define c3 where "c3 = sync (?c2\<lparr>port := q\<rparr>)"
      have "\<not> command_admission (port c3)" "e = ShuttingDown" "c' = c3\<lparr>port := port_drop_permit (port c3)\<rparr>"
        using assms open' Inr by (auto simp: try_reserve_command_admission_def Let_def c3_def split: if_splits)
      moreover have "port_moved (?c2\<lparr>port := q\<rparr>) c3" unfolding c3_def by (rule port_moved_sync)
      ultimately show ?thesis
        using two Inr port_wf_reserve[OF Inr]
        by (simp add: port_moved_def port_try_reserve_Inr command_admission_def port_wf_drop) (simp add: port_drop_permit_def)
    qed
  qed
qed

text \<open>
  C19. Handing a submission to the registry commits or gives everything back, whatever other threads
  do before the flag is read, between that and the reservation, and between the reservation and the
  gate. If it commits, the gate is open at the commit, one request event is published and one add
  command with the whole payload and the watcher is the last of the channel. Otherwise nothing is
  logged, payload and watcher come back with the error, and the error is true of the channel at that
  moment: shutting down if the gate or the receiver is closed, full if there is no room. In both cases
  no permit is kept: the one reserved became the command, or was given back when shutdown came in
  between; and the channel stays within its capacity.
\<close>

theorem hand_off_commits_or_returns_payload:
  assumes "add_task_with_id_watched c i n owned done' = (r, c')"
  shows "port_permits (port c') = port_permits (port c) \<and> (port_wf (port c) \<longrightarrow> port_wf (port c'))
    \<and> ((r = None \<and> \<not> port_shutting_down (port c')
        \<and> (\<exists>q. port_queue (port c') = q @ [CmdAdd i n owned done' True])
        \<and> log c' = log c @ [Published (with_id i (with_task n (event_new TaskAddRequested))),
                            Committed (CmdAdd i n owned done' True)])
      \<or> (\<exists>e. r = Some \<lparr>uc_error = e, uc_name = n, uc_owned = owned, uc_done = done'\<rparr>
          \<and> log c' = log c
          \<and> (e = ShuttingDown \<and> (port_shutting_down (port c') \<or> port_closed (port c'))
             \<or> e = CommandQueueFull
               \<and> length (port_queue (port c')) + port_permits (port c') \<ge> port_capacity (port c'))))"
proof (cases "try_reserve_command_admission c")
  case (Pair x c1)
  show ?thesis
  proof (cases x)
    case None
    from try_reserve_granted[OF Pair[unfolded None]] port_wf_send[of "port c1"] assms Pair None show ?thesis
      by (auto simp: add_task_with_id_watched_def commit_add_def publish_def port_send_def Let_def)
  next
    case (Some e)
    from try_reserve_refused[OF Pair[unfolded Some]] assms Pair Some show ?thesis
      by (auto simp: add_task_with_id_watched_def)
  qed
qed

text \<open>The gate closes between the reservation and the last check.\<close>

theorem hand_off_commits_or_returns_payload_witness:
  "\<exists>c'. add_task_with_id_watched
       (controller_new controller_config_default
          \<lparr>port_queue = [], port_permits = 0, port_capacity = 4, port_closed = False,
           port_shutting_down = False\<rparr> {||} [[], [], [CloseGate]])
       1 ''job'' (owned_task_new (task_spec_once ''job'' 7) 7 0) None
       = (Some \<lparr>uc_error = ShuttingDown, uc_name = ''job'',
           uc_owned = owned_task_new (task_spec_once ''job'' 7) 7 0, uc_done = None\<rparr>, c')
     \<and> port_permits (port c') = 0 \<and> log c' = []"
proof -
  let ?c = "controller_new controller_config_default
          \<lparr>port_queue = [], port_permits = 0, port_capacity = 4, port_closed = False,
           port_shutting_down = False\<rparr> {||} [[], [], [CloseGate]]"
  let ?t = "owned_task_new (task_spec_once ''job'' 7) 7 0"
  obtain r c' where run: "add_task_with_id_watched ?c 1 ''job'' ?t None = (r, c')"
    by (cases "add_task_with_id_watched ?c 1 ''job'' ?t None")
  have "port_shutting_down (port c')" "port_permits (port ?c) = 0" "log ?c = []"
    "length (port_queue (port c')) + port_permits (port c') < port_capacity (port c')"
    using run by (auto simp: add_task_with_id_watched_def try_reserve_command_admission_def sync_def controller_new_def Let_def
        port_try_reserve_def command_admission_def mark_shutting_down_def port_drop_permit_def)
  with hand_off_commits_or_returns_payload[OF run] run show ?thesis by auto
qed

end
