(* ===== verification/Controller_Queue.thy ===== *)
theory Controller_Queue
  imports Controller_State
begin

text \<open>
  Slot queues and the controller indexes that must follow them
  (\<^verbatim>\<open>src/src/controller/engine/queue.rs\<close>). A handler works on the slot it has locked: the slot is
  taken out of the map as a value, passed along, and written back (\<open>put_slot\<close>) or collected
  (\<open>gc_if_idle\<close>) when the lock is released. Nothing else changes the slot map in between.
\<close>

definition pending_limit_hit :: "controller \<Rightarrow> nat option" where
  "pending_limit_hit c =
     (case cc_max_total_pending (config c) of
        None \<Rightarrow> None
      | Some limit \<Rightarrow> if pending_len c \<ge> limit then Some limit else None)"

definition index_queued :: "controller \<Rightarrow> task_id \<Rightarrow> name \<Rightarrow> controller" where
  "index_queued c i n =
     (let previous = fmlookup (queued_slots c) i
      in debug_check (previous = None) (c\<lparr>queued_slots := fmupd i n (queued_slots c)\<rparr>))"

definition unindex_queued :: "controller \<Rightarrow> task_id \<Rightarrow> controller" where
  "unindex_queued c i = c\<lparr>queued_slots := fmdrop i (queued_slots c)\<rparr>"

text \<open>\<open>Inl\<close> hands the rejected submission back.\<close>

definition try_push_queued ::
  "controller \<Rightarrow> slot_state \<Rightarrow> name \<Rightarrow> pending_submission
     \<Rightarrow> (pending_submission, unit) result \<times> controller \<times> slot_state" where
  "try_push_queued c slot n p =
     (case pending_limit_hit c of
        Some _ \<Rightarrow> (Inl p, c, slot)
      | None \<Rightarrow> (Inr (), index_queued c (ps_id p) n, slot\<lparr>sl_queue := sl_queue slot @ [p]\<rparr>))"

definition pop_queued_front ::
  "controller \<Rightarrow> slot_state \<Rightarrow> pending_submission option \<times> controller \<times> slot_state" where
  "pop_queued_front c slot =
     (case sl_queue slot of
        [] \<Rightarrow> (None, c, slot)
      | p # rest \<Rightarrow> (Some p, unindex_queued c (ps_id p), slot\<lparr>sl_queue := rest\<rparr>))"

definition remove_queued_at ::
  "controller \<Rightarrow> slot_state \<Rightarrow> nat \<Rightarrow> pending_submission option \<times> controller \<times> slot_state" where
  "remove_queued_at c slot position =
     (if position < length (sl_queue slot)
      then let p = sl_queue slot ! position
           in (Some p, unindex_queued c (ps_id p),
               slot\<lparr>sl_queue := list_remove_at position (sl_queue slot)\<rparr>)
      else (None, c, slot))"

text \<open>\<open>Inl limit\<close> when a new slot would exceed \<open>max_controller_slots\<close>.\<close>

definition try_get_or_create_slot ::
  "controller \<Rightarrow> name \<Rightarrow> (nat, slot_state) result \<times> controller" where
  "try_get_or_create_slot c n =
     (case fmlookup (slots c) n of
        Some s \<Rightarrow> (Inr s, c)
      | None \<Rightarrow>
          (case cc_max_controller_slots (config c) of
             Some limit \<Rightarrow>
               (if hm_len (slots c) \<ge> limit then (Inl limit, c)
                else (Inr slot_new, c\<lparr>slots := fmupd n slot_new (slots c)\<rparr>))
           | None \<Rightarrow> (Inr slot_new, c\<lparr>slots := fmupd n slot_new (slots c)\<rparr>)))"

text \<open>Releasing the slot lock: the map holds the updated slot.\<close>

definition put_slot :: "controller \<Rightarrow> name \<Rightarrow> slot_state \<Rightarrow> controller" where
  "put_slot c n s = c\<lparr>slots := fmupd n s (slots c)\<rparr>"

definition gc_if_idle :: "controller \<Rightarrow> name \<Rightarrow> slot_state \<Rightarrow> controller" where
  "gc_if_idle c n s =
     (let collect = is_idle s \<and> sl_queue s = [];
          c = put_slot c n s
      in if collect then c\<lparr>slots := fmdrop n (slots c)\<rparr> else c)"

definition queue_full_reason :: "controller \<Rightarrow> nat \<Rightarrow> reason option" where
  "queue_full_reason c slot_len =
     (if slot_len \<ge> cc_max_slot_queue (config c)
      then Some [Lit queue_full_text, Lit '': '', NatArg slot_len, Lit ''/'',
                 NatArg (cc_max_slot_queue (config c))]
      else None)"

text \<open>\<open>Some limit\<close> when the aggregate limit refuses the waiter.\<close>

definition try_index_capacity_pending ::
  "controller \<Rightarrow> task_id \<Rightarrow> capacity_pending_entry \<Rightarrow> nat option \<times> controller" where
  "try_index_capacity_pending c i w =
     (case pending_limit_hit c of
        Some limit \<Rightarrow> (Some limit, c)
      | None \<Rightarrow>
          (let previous = fmlookup (capacity_pending c) i
           in (None, debug_check (previous = None)
                 (c\<lparr>capacity_pending := fmupd i w (capacity_pending c)\<rparr>))))"

definition unindex_capacity_pending :: "controller \<Rightarrow> task_id \<Rightarrow> controller" where
  "unindex_capacity_pending c i =
     debug_check (fmlookup (capacity_pending c) i \<noteq> None)
       (c\<lparr>capacity_pending := fmdrop i (capacity_pending c)\<rparr>)"

definition pending_limit_reason :: "controller \<Rightarrow> reason" where
  "pending_limit_reason c =
     (case cc_max_total_pending (config c) of
        Some limit \<Rightarrow> [Lit controller_pending_limit_text, Lit '': '', NatArg (pending_len c),
                       Lit ''/'', NatArg limit]
      | None \<Rightarrow> [Lit controller_pending_limit_text])"

definition rejected_event :: "name option \<Rightarrow> task_id \<Rightarrow> rejection_kind \<Rightarrow> reason \<Rightarrow> event" where
  "rejected_event task i kind r =
     (let e = with_reason r (with_rejection_kind kind (with_id i (event_new ControllerRejected)))
      in case task of None \<Rightarrow> e | Some n \<Rightarrow> with_task n e)"

text \<open>The displaced head keeps its rejected outcome in its own bundle when nobody waits for it.\<close>

definition replace_head_or_push ::
  "controller \<Rightarrow> slot_state \<Rightarrow> name \<Rightarrow> pending_submission
     \<Rightarrow> pending_submission option \<times> controller \<times> slot_state" where
  "replace_head_or_push c slot n p =
     (case sl_queue slot of
        [] \<Rightarrow> (None, index_queued c (ps_id p) n, slot\<lparr>sl_queue := [p]\<rparr>)
      | head # rest \<Rightarrow>
          (let c = unindex_queued c (ps_id head);
               c = index_queued c (ps_id p) n;
               c = publish (rejected_event (Some n) (ps_id head) SupersededByReplace
                              superseded_by_replace_text) c;
               (terminal, c) = finalize_rejected c (ps_id head) SupersededByReplace
                                 superseded_by_replace_text;
               displaced = (case terminal of
                              None \<Rightarrow> head
                            | Some o' \<Rightarrow>
                                head\<lparr>ps_owned := (ps_owned head)\<lparr>ot_cleanup :=
                                  attach_outcome (ot_cleanup (ps_owned head)) o'\<rparr>\<rparr>)
           in (Some displaced, c, slot\<lparr>sl_queue := p # rest\<rparr>)))"

definition try_replace_head_or_push ::
  "controller \<Rightarrow> slot_state \<Rightarrow> name \<Rightarrow> pending_submission
     \<Rightarrow> (pending_submission, pending_submission option) result \<times> controller \<times> slot_state" where
  "try_replace_head_or_push c slot n p =
     (if sl_queue slot = []
      then (case pending_limit_hit c of
              Some _ \<Rightarrow> (Inl p, c, slot)
            | None \<Rightarrow> (Inr None, index_queued c (ps_id p) n, slot\<lparr>sl_queue := [p]\<rparr>))
      else let (displaced, c, slot) = replace_head_or_push c slot n p
           in (Inr displaced, c, slot))"

end
