(* ===== verification/Controller_Admission.thy ===== *)
theory Controller_Admission
  imports Controller_Queue
begin

text \<open>
  Admission of keyed submissions (\<^verbatim>\<open>src/src/controller/engine/admission/\<close>) and identity operations
  (\<^verbatim>\<open>identity.rs\<close>): hand-off to the registry, policy placement, advancing a queue, the handlers of
  the loop for submissions, registry decisions, physical completions, capacity grants and removal
  results, and the guard that resolves a submission exactly once (\<^verbatim>\<open>watcher.rs\<close>).
\<close>

section \<open>Hand-off\<close>

definition restore_watcher :: "controller \<Rightarrow> task_id \<Rightarrow> outcome_tx option \<Rightarrow> controller" where
  "restore_watcher c i done' =
     (case done' of
        None \<Rightarrow> c
      | Some tx \<Rightarrow> c\<lparr>watchers := fmupd i tx (watchers c)\<rparr>)"

text \<open>\<open>start_in_slot\<close>: \<open>None\<close> when the slot became \<open>Admitting\<close>, otherwise the payload handed back.\<close>

definition start_in_slot ::
  "controller \<Rightarrow> slot_state \<Rightarrow> name \<Rightarrow> pending_submission
     \<Rightarrow> uncommitted_add option \<times> controller \<times> slot_state" where
  "start_in_slot c slot n p =
     (let c = debug_check (is_idle slot) c;
          i = ps_id p;
          done' = fmlookup (watchers c) i;
          c = c\<lparr>watchers := fmdrop i (watchers c)\<rparr>
      in case add_task_with_id_watched c i (ps_task_name p) (ps_owned p) done' of
           (None, c) \<Rightarrow>
             (let (started, slot) = begin_admission slot i (clock c);
                  c = debug_check started c
              in (None, track_admission c i n, slot))
         | (Some u, c) \<Rightarrow>
             (let c = restore_watcher c i (uc_done u);
                  u = u\<lparr>uc_done := None\<rparr>
              in if uc_error u = CommandQueueFull
                 then let w = \<lparr>ce_slot_name = n,
                               ce_pending = \<lparr>ps_id = i, ps_task_name = uc_name u,
                                             ps_owned = uc_owned u\<rparr>\<rparr>
                      in case try_index_capacity_pending c i w of
                           (Some limit, c) \<Rightarrow>
                             (Some (u\<lparr>uc_error := ResourceLimitReached ''controller_pending'' limit\<rparr>),
                              c, slot)
                         | (None, c) \<Rightarrow>
                             (case pump_enqueue (sup_alive c) (pump c) i of
                                Inl limit \<Rightarrow>
                                  (Some (u\<lparr>uc_error :=
                                      ResourceLimitReached ''controller_admission'' limit\<rparr>),
                                   unindex_capacity_pending c i, slot)
                              | Inr pump' \<Rightarrow>
                                  (let c = debug_check (pump_enqueue_assert (pump c) i) c;
                                       c = c\<lparr>pump := pump'\<rparr>;
                                       (started, slot) = begin_admission slot i (clock c);
                                       c = debug_check started c
                                   in (None, c, slot)))
                 else (Some u, c, slot)))"

lemma start_in_slot_queue:
  "start_in_slot c slot n p = (r, c', slot') \<Longrightarrow> sl_queue slot' = sl_queue slot"
  by (auto simp: start_in_slot_def Let_def begin_admission_def
      split: option.splits prod.splits sum.splits if_splits)

section \<open>Advancing an idle slot\<close>

function start_next_loop ::
  "controller \<Rightarrow> slot_state \<Rightarrow> name \<Rightarrow> (uncommitted_add \<times> task_outcome option) list
     \<Rightarrow> (uncommitted_add \<times> task_outcome option) list \<times> controller \<times> slot_state" where
  "start_next_loop c slot n drops =
     (case pop_queued_front c slot of
        (None, c, slot) \<Rightarrow> (drops, c, slot)
      | (Some nxt, c, slot) \<Rightarrow>
          (case start_in_slot c slot n nxt of
             (None, c, slot) \<Rightarrow>
               (drops,
                publish (with_reason [Lit ''started_from_queue depth='', NatArg (length (sl_queue slot))]
                  (with_id (ps_id nxt) (with_task n (event_new ControllerSubmitted)))) c,
                slot)
           | (Some u, c, slot) \<Rightarrow>
               (let kind = rejection_kind_for_runtime_error (uc_error u);
                    r = [Lit ''queue_start_failed: '', ErrArg (uc_error u)];
                    c = publish (rejected_event (Some n) (ps_id nxt) kind r) c;
                    (terminal, c) = finalize_rejected c (ps_id nxt) kind r
                in start_next_loop c slot n (drops @ [(u, terminal)]))))"
  by pat_completeness auto
termination
proof (relation "measure (\<lambda>(c, slot, n, drops). length (sl_queue slot))", goal_cases)
  case 1
  show ?case by simp
next
  case (2 c slot n drops x y nxt ca sa xa ya u cb sb xb xc xd xe xf)
  then have "sl_queue slot = nxt # sl_queue sa"
    by (auto simp: pop_queued_front_def split: list.splits)
  moreover have "sl_queue sb = sl_queue sa"
    using 2 start_in_slot_queue by (metis)
  ultimately show ?case by simp
qed

declare start_next_loop.simps [simp del]

definition start_next_from_queue ::
  "controller \<Rightarrow> slot_state \<Rightarrow> name
     \<Rightarrow> (uncommitted_add \<times> task_outcome option) list \<times> controller \<times> slot_state" where
  "start_next_from_queue c slot n =
     (let c = debug_check (is_idle slot) c
      in if \<not> is_idle slot then ([], c, slot) else start_next_loop c slot n [])"

section \<open>The submission guard\<close>

datatype admission_watcher_state = Local "outcome_tx option" | Parked | GuardCommitted

record admission_watcher =
  aw_id :: task_id
  aw_event_task :: "name option"
  aw_state :: admission_watcher_state
  aw_owned :: "controller_spec owned_task option"

definition watcher_new ::
  "task_id \<Rightarrow> controller_spec owned_task \<Rightarrow> outcome_tx option \<Rightarrow> name option \<Rightarrow> admission_watcher" where
  "watcher_new i owned done' event_task =
     \<lparr>aw_id = i, aw_event_task = event_task, aw_state = Local done', aw_owned = Some owned\<rparr>"

text \<open>\<open>None\<close> is the panic of \<open>expect\<close> when the ownership was transferred before.\<close>

definition take_pending ::
  "admission_watcher \<Rightarrow> task_id \<Rightarrow> name \<Rightarrow> (pending_submission \<times> admission_watcher) option" where
  "take_pending w i task_name =
     (case aw_owned w of
        None \<Rightarrow> None
      | Some owned \<Rightarrow>
          Some (\<lparr>ps_id = i, ps_task_name = task_name,
                 ps_owned = owned_task_map owned cs_task_spec\<rparr>, w\<lparr>aw_owned := None\<rparr>))"

definition dispose_owned ::
  "controller \<Rightarrow> admission_watcher \<Rightarrow> task_outcome option \<Rightarrow> controller \<times> admission_watcher" where
  "dispose_owned c w terminal =
     (case aw_owned w of
        None \<Rightarrow> (c, w)
      | Some owned \<Rightarrow> (dispose_bundle c (ot_cleanup owned) terminal, w\<lparr>aw_owned := None\<rparr>))"

definition park :: "controller \<Rightarrow> admission_watcher \<Rightarrow> controller \<times> admission_watcher" where
  "park c w =
     (case aw_state w of
        Local (Some tx) \<Rightarrow>
          (c\<lparr>watchers := fmupd (aw_id w) tx (watchers c)\<rparr>, w\<lparr>aw_state := Parked\<rparr>)
      | Local None \<Rightarrow> (c, w\<lparr>aw_state := Parked\<rparr>)
      | GuardCommitted \<Rightarrow> (c, w)
      | Parked \<Rightarrow> (c, w))"

definition guard_commit :: "controller \<Rightarrow> admission_watcher \<Rightarrow> controller \<times> admission_watcher" where
  "guard_commit c w =
     (debug_check (case aw_state w of Local (Some _) \<Rightarrow> False | _ \<Rightarrow> True) c,
      w\<lparr>aw_state := GuardCommitted\<rparr>)"

definition guard_reject ::
  "controller \<Rightarrow> admission_watcher \<Rightarrow> rejection_kind \<Rightarrow> reason
     \<Rightarrow> task_outcome option \<times> controller \<times> admission_watcher" where
  "guard_reject c w kind r =
     (let (undelivered, c) =
            (case aw_state w of
               Local (Some tx) \<Rightarrow> send_outcome c tx (OutRejected kind r)
             | Parked \<Rightarrow> finalize_rejected c (aw_id w) kind r
             | _ \<Rightarrow> (None, c));
          w = w\<lparr>aw_state := GuardCommitted\<rparr>
      in if aw_owned w \<noteq> None
         then let (c, w) = dispose_owned c w undelivered in (None, c, w)
         else (undelivered, c, w))"

definition reject_with_event ::
  "controller \<Rightarrow> admission_watcher \<Rightarrow> rejection_kind \<Rightarrow> reason
     \<Rightarrow> task_outcome option \<times> controller \<times> admission_watcher" where
  "reject_with_event c w kind r =
     (if aw_state w = GuardCommitted then (None, c, w)
      else guard_reject (publish (rejected_event (aw_event_task w) (aw_id w) kind r) c) w kind r)"

text \<open>\<open>Drop for AdmissionWatcher\<close>.\<close>

definition guard_drop :: "controller \<Rightarrow> admission_watcher \<Rightarrow> controller" where
  "guard_drop c w =
     (if aw_state w = GuardCommitted then c
      else fst (snd (reject_with_event c w AdmissionFailed controller_admission_interrupted_text)))"

section \<open>Policy placement\<close>

datatype placement_outcome =
    Accepted "pending_submission option"
  | RejectedPlacement pending_submission rejection_kind reason
  | HandoffFailed uncommitted_add rejection_kind reason

text \<open>The arrow of the transition reasons, in UTF-8.\<close>

definition arrow_text :: string where
  "arrow_text = [CHR 0xE2, CHR 0x86, CHR 0x92]"

definition publish_transition :: "name \<Rightarrow> reason \<Rightarrow> controller \<Rightarrow> controller" where
  "publish_transition n r c =
     publish (with_reason r (with_task n (event_new ControllerSlotTransition))) c"

definition publish_submitted :: "name \<Rightarrow> task_id \<Rightarrow> reason \<Rightarrow> controller \<Rightarrow> controller" where
  "publish_submitted n i r c =
     publish (with_reason r (with_id i (with_task n (event_new ControllerSubmitted)))) c"

fun admission_reason :: "admission_policy \<Rightarrow> reason" where
  "admission_reason Queue = [Lit ''admission=Queue status=admitting'']"
| "admission_reason Replace = [Lit ''admission=Replace status=admitting'']"
| "admission_reason DropIfRunning = [Lit ''admission=DropIfRunning status=admitting'']"

definition admit_idle ::
  "controller \<Rightarrow> slot_state \<Rightarrow> name \<Rightarrow> pending_submission \<Rightarrow> admission_policy \<Rightarrow> admission_watcher
     \<Rightarrow> placement_outcome \<times> controller \<times> slot_state \<times> admission_watcher" where
  "admit_idle c slot n p admission w =
     (case start_in_slot c slot n p of
        (None, c, slot) \<Rightarrow>
          (let (c, w) = guard_commit c w
           in (Accepted None, publish_submitted n (ps_id p) (admission_reason admission) c, slot, w))
      | (Some u, c, slot) \<Rightarrow>
          (HandoffFailed u (rejection_kind_for_runtime_error (uc_error u))
             [Lit ''add_failed: '', ErrArg (uc_error u)], c, slot, w))"

text \<open>
  The owner half of \<open>replace\<close>: the phase seen before the queue changed decides whether a removal
  starts now, later, or was requested before. The last branch is the \<open>unreachable!\<close>.
\<close>

definition retire_owner ::
  "controller \<Rightarrow> slot_state \<Rightarrow> name \<Rightarrow> slot_phase \<Rightarrow> reason \<times> controller \<times> slot_state" where
  "retire_owner c slot n phase =
     (case phase of
        Running _ _ \<Rightarrow>
          (case request_replacement slot (clock c) of
             (RemoveNow owner, slot) \<Rightarrow>
               ([Lit ''admission=Replace depth='', NatArg (length (sl_queue slot))],
                publish_transition n [Lit ''running'', Lit arrow_text, Lit ''terminating (replace)'']
                  (track_removal c owner n), slot)
           | (_, slot) \<Rightarrow> ([], debug_check False c, slot))
      | Admitting _ _ \<Rightarrow>
          (let (action, slot) = request_replacement slot (clock c);
               c = debug_check (action = WaitForAdmission) c
           in ([Lit ''admission=Replace status=admitting depth='', NatArg (length (sl_queue slot))],
               publish_transition n [Lit ''admitting'', Lit arrow_text, Lit ''terminating (replace)'']
                 c, slot))
      | Idle \<Rightarrow> ([], debug_check False c, slot)
      | _ \<Rightarrow>
          ([Lit ''admission=Replace status=terminating depth='', NatArg (length (sl_queue slot))],
           c, slot))"

definition place_replace ::
  "controller \<Rightarrow> slot_state \<Rightarrow> name \<Rightarrow> pending_submission \<Rightarrow> slot_phase \<Rightarrow> admission_watcher
     \<Rightarrow> placement_outcome \<times> controller \<times> slot_state \<times> admission_watcher" where
  "place_replace c slot n p phase w =
     (case try_replace_head_or_push c slot n p of
        (Inl p, c, slot) \<Rightarrow>
          (RejectedPlacement p ResourceLimit (pending_limit_reason c), c, slot, w)
      | (Inr displaced, c, slot) \<Rightarrow>
          (let (c, w) = guard_commit c w;
               (r, c, slot) = retire_owner c slot n phase
           in (Accepted displaced, publish_submitted n (ps_id p) r c, slot, w)))"

definition place_queue ::
  "controller \<Rightarrow> slot_state \<Rightarrow> name \<Rightarrow> pending_submission \<Rightarrow> admission_watcher
     \<Rightarrow> placement_outcome \<times> controller \<times> slot_state \<times> admission_watcher" where
  "place_queue c slot n p w =
     (case queue_full_reason c (length (sl_queue slot)) of
        Some r \<Rightarrow> (RejectedPlacement p QueueFull r, c, slot, w)
      | None \<Rightarrow>
          (case try_push_queued c slot n p of
             (Inl p, c, slot) \<Rightarrow>
               (RejectedPlacement p ResourceLimit (pending_limit_reason c), c, slot, w)
           | (Inr _, c, slot) \<Rightarrow>
               (let (c, w) = guard_commit c w
                in (Accepted None,
                    publish_submitted n (ps_id p)
                      [Lit ''admission=Queue depth='', NatArg (length (sl_queue slot))] c,
                    slot, w))))"

definition busy_reason :: "slot_state \<Rightarrow> reason" where
  "busy_reason slot = [Lit drop_if_running_text, Lit '' ('', StrArg (status_label slot), Lit '')'']"

definition placement_apply ::
  "controller \<Rightarrow> slot_state \<Rightarrow> name \<Rightarrow> pending_submission \<Rightarrow> admission_policy \<Rightarrow> admission_watcher
     \<Rightarrow> placement_outcome \<times> controller \<times> slot_state \<times> admission_watcher" where
  "placement_apply c slot n p admission w =
     (if sl_phase slot = Idle then admit_idle c slot n p admission w
      else case admission of
             Replace \<Rightarrow> place_replace c slot n p (sl_phase slot) w
           | Queue \<Rightarrow> place_queue c slot n p w
           | DropIfRunning \<Rightarrow> (RejectedPlacement p SlotBusy (busy_reason slot), c, slot, w))"

end
