(* ===== verification/Controller_Handlers.thy ===== *)
theory Controller_Handlers
  imports Controller_Admission
begin

text \<open>
  The handlers of the serialized controller loop: submissions (\<^verbatim>\<open>admission/submission.rs\<close>),
  registry decisions and physical completions (\<^verbatim>\<open>admission/results.rs\<close>), capacity grants
  (\<^verbatim>\<open>admission/capacity.rs\<close>), removal results (\<^verbatim>\<open>operations.rs\<close>), identity operations
  (\<^verbatim>\<open>identity.rs\<close>), and the shutdown path (\<^verbatim>\<open>lifecycle/shutdown.rs\<close>, \<^verbatim>\<open>mod.rs\<close>).
\<close>

section \<open>Submissions\<close>

definition busy_rejection ::
  "controller \<Rightarrow> slot_state \<Rightarrow> admission_policy \<Rightarrow> (rejection_kind \<times> reason) option" where
  "busy_rejection c slot admission =
     (if is_idle slot then None
      else case admission of
             Queue \<Rightarrow> map_option (\<lambda>r. (QueueFull, r)) (queue_full_reason c (length (sl_queue slot)))
           | DropIfRunning \<Rightarrow> Some (SlotBusy, busy_reason slot)
           | Replace \<Rightarrow> None)"

definition explicit_slot_rejection ::
  "controller \<Rightarrow> name option \<Rightarrow> admission_policy \<Rightarrow> (rejection_kind \<times> reason) option \<times> controller"
  where
  "explicit_slot_rejection c explicit_slot admission =
     (case explicit_slot of
        None \<Rightarrow> (None, c)
      | Some n \<Rightarrow>
          (case fmlookup (slots c) n of
             None \<Rightarrow> (None, c)
           | Some slot \<Rightarrow>
               (let (down, c) = is_shutting_down c
                in if down then (Some (ControllerShuttingDown, controller_shutting_down_text), c)
                   else (busy_rejection c slot admission, c))))"

text \<open>The part of \<open>handle_submission\<close> that works on the locked slot, after the second check.\<close>

definition finish_placement ::
  "controller \<Rightarrow> slot_state \<Rightarrow> name \<Rightarrow> pending_submission \<Rightarrow> admission_policy \<Rightarrow> admission_watcher
     \<Rightarrow> controller" where
  "finish_placement c slot n p admission w =
     (case placement_apply c slot n p admission w of
        (Accepted displaced, c, slot, w) \<Rightarrow>
          (let c = put_slot c n slot;
               c = (case displaced of None \<Rightarrow> c | Some d \<Rightarrow> drop_pending_submission c d None)
           in guard_drop c w)
      | (RejectedPlacement p kind r, c, slot, w) \<Rightarrow>
          (let (terminal, c, w) = reject_with_event c w kind r;
               c = put_slot c n slot;
               c = drop_pending_submission c p terminal
           in guard_drop c w)
      | (HandoffFailed u kind r, c, slot, w) \<Rightarrow>
          (let (terminal, c, w) = reject_with_event c w kind r;
               c = gc_if_idle c n slot;
               c = drop_start_failure c u terminal
           in guard_drop c w))"

definition reject_and_drop ::
  "controller \<Rightarrow> admission_watcher \<Rightarrow> rejection_kind \<Rightarrow> reason \<Rightarrow> controller" where
  "reject_and_drop c w kind r =
     (let (_, c, w) = reject_with_event c w kind r in guard_drop c w)"

text \<open>The part of \<open>handle_submission\<close> from \<open>try_get_or_create_slot\<close> on.\<close>

definition place_pending ::
  "controller \<Rightarrow> name \<Rightarrow> pending_submission \<Rightarrow> admission_policy \<Rightarrow> admission_watcher \<Rightarrow> controller"
  where
  "place_pending c n p admission w =
     (case try_get_or_create_slot c n of
        (Inl limit, c) \<Rightarrow>
          (let (terminal, c, w) = reject_with_event c w ResourceLimit
                 [Lit controller_slot_limit_text, Lit '': '', NatArg limit];
               c = drop_pending_submission c p terminal
           in guard_drop c w)
      | (Inr slot, c) \<Rightarrow>
          (let (down, c) = is_shutting_down c
           in if down
              then let (terminal, c, w) = reject_with_event c w ControllerShuttingDown
                         controller_shutting_down_text;
                       c = gc_if_idle c n slot;
                       c = drop_pending_submission c p terminal
                   in guard_drop c w
              else finish_placement c slot n p admission w))"

definition handle_submission :: "controller \<Rightarrow> submission \<Rightarrow> controller" where
  "handle_submission c sub =
     (let i = sub_id sub;
          spec = ot_value (sub_owned sub);
          task_name = ts_name (cs_task_spec spec);
          admission = cs_admission spec;
          explicit_slot = cs_slot spec;
          n = (case explicit_slot of None \<Rightarrow> task_name | Some s \<Rightarrow> s);
          w = watcher_new i (sub_owned sub) (sub_done sub) (Some n);
          (up, c) = upgrade c
      in if \<not> up then reject_and_drop c w AdmissionFailed controller_admission_interrupted_text
         else let (down, c) = is_shutting_down c
              in if down
                 then reject_and_drop c w ControllerShuttingDown controller_shutting_down_text
                 else case explicit_slot_rejection c explicit_slot admission of
                        (Some (kind, r), c) \<Rightarrow> reject_and_drop c w kind r
                      | (None, c) \<Rightarrow>
                          (case take_pending w i task_name of
                             None \<Rightarrow> guard_drop (debug_check False c) w
                           | Some (p, w) \<Rightarrow>
                               (let (c, w) = park c w in place_pending c n p admission w)))"

section \<open>Registry decisions and completions\<close>

text \<open>
  Advancing a slot whose owner was just released. \<open>need_sup\<close> is false where the handler already
  holds an upgraded supervisor; \<open>skip\<close> where the queue must not advance.
\<close>

definition advance_released ::
  "bool \<Rightarrow> bool \<Rightarrow> controller \<Rightarrow> slot_state \<Rightarrow> name
     \<Rightarrow> (uncommitted_add \<times> task_outcome option) list \<times> controller \<times> slot_state" where
  "advance_released skip need_sup c slot n =
     (if skip then ([], c, slot)
      else let (down, c) = is_shutting_down c
           in if down then ([], c, slot)
              else if need_sup
                   then let (up, c) = upgrade c
                        in if up then start_next_from_queue c slot n else ([], c, slot)
                   else start_next_from_queue c slot n)"

text \<open>\<open>decision\<close> is the registry's answer; the completion handle of an accepted add is implicit.\<close>

definition handle_registry_decision ::
  "controller \<Rightarrow> task_id \<Rightarrow> name \<Rightarrow> (runtime_error, unit) result \<Rightarrow> controller" where
  "handle_registry_decision c i n decision =
     (case fmlookup (slots c) n of
        None \<Rightarrow> c
      | Some slot \<Rightarrow>
          (case decision of
             Inr _ \<Rightarrow>
               (case confirm_admission slot i (clock c) of
                  (NowRunning, slot) \<Rightarrow>
                    publish_transition n [Lit ''admitting'', Lit arrow_text, Lit ''running'']
                      (put_slot (track_completion c i n) n slot)
                | (NowRemove owner, slot) \<Rightarrow>
                    (let c = put_slot (track_completion c i n) n slot;
                         (up, c) = upgrade c
                     in if up then track_removal c owner n else c)
                | (Stale, slot) \<Rightarrow> put_slot c n slot)
           | Inl _ \<Rightarrow>
               (case reject_admission slot i of
                  (False, slot) \<Rightarrow> put_slot c n slot
                | (True, slot) \<Rightarrow>
                    (let (drops, c, slot) = advance_released False True c slot n;
                         c = gc_if_idle c n slot
                     in drop_pending_submissions c drops))))"

definition handle_completion_result :: "controller \<Rightarrow> task_id \<Rightarrow> name \<Rightarrow> controller" where
  "handle_completion_result c i n =
     (let (up, c) = upgrade c
      in if \<not> up then c
         else case fmlookup (slots c) n of
                None \<Rightarrow> c
              | Some slot \<Rightarrow>
                  (case complete_owner slot i of
                     (False, slot) \<Rightarrow> put_slot c n slot
                   | (True, slot) \<Rightarrow>
                       (let (drops, c, slot) = advance_released False False c slot n;
                            c = gc_if_idle c n slot
                        in drop_pending_submissions c drops)))"

section \<open>Capacity grants\<close>

definition claim_capacity_pending ::
  "controller \<Rightarrow> task_id \<Rightarrow> (capacity_pending_entry \<times> outcome_tx option) option \<times> controller" where
  "claim_capacity_pending c i =
     (case fmlookup (capacity_pending c) i of
        None \<Rightarrow> (None, c)
      | Some w \<Rightarrow>
          (Some (w, fmlookup (watchers c) i),
           c\<lparr>capacity_pending := fmdrop i (capacity_pending c),
             watchers := fmdrop i (watchers c)\<rparr>))"

definition reject_claimed_capacity ::
  "controller \<Rightarrow> task_id \<Rightarrow> capacity_pending_entry \<Rightarrow> outcome_tx option \<Rightarrow> rejection_kind \<Rightarrow> reason
     \<Rightarrow> controller" where
  "reject_claimed_capacity c i w done' kind r =
     (let c = publish (rejected_event (Some (ce_slot_name w)) i kind r) c;
          (terminal, c) = send_rejected c done' kind r
      in drop_pending_submission c (ce_pending w) terminal)"

text \<open>A granted permit that is not committed goes back to the channel when it is dropped.\<close>

definition drop_decision :: "(runtime_error, unit) result \<Rightarrow> controller \<Rightarrow> controller" where
  "drop_decision decision c =
     (case decision of
        Inl _ \<Rightarrow> c
      | Inr _ \<Rightarrow> c\<lparr>port := port_drop_permit (port c)\<rparr>)"

definition reject_stale_capacity ::
  "controller \<Rightarrow> task_id \<Rightarrow> (runtime_error, unit) result \<Rightarrow> controller" where
  "reject_stale_capacity c i decision =
     (case claim_capacity_pending c i of
        (None, c) \<Rightarrow> drop_decision decision c
      | (Some (w, done'), c) \<Rightarrow>
          drop_decision decision
            (reject_claimed_capacity c i w done' AdmissionFailed
               controller_admission_interrupted_text))"

text \<open>The commit attempt of a matching waiter: \<open>None\<close> once the registry owns the task.\<close>

definition commit_capacity ::
  "controller \<Rightarrow> task_id \<Rightarrow> pending_submission \<Rightarrow> outcome_tx option \<Rightarrow> (runtime_error, unit) result
     \<Rightarrow> uncommitted_add option \<times> controller" where
  "commit_capacity c i p done' decision =
     (case decision of
        Inl e \<Rightarrow> (Some \<lparr>uc_error = e, uc_name = ps_task_name p, uc_owned = ps_owned p,
                       uc_done = done'\<rparr>, c)
      | Inr _ \<Rightarrow>
          (let (up, c) = upgrade c
           in if up
              then commit_reserved_controller_add c i (ps_task_name p) (ps_owned p) done'
              else (Some \<lparr>uc_error = ShuttingDown, uc_name = ps_task_name p,
                          uc_owned = ps_owned p, uc_done = done'\<rparr>, drop_decision decision c)))"

definition handle_registry_capacity_result ::
  "controller \<Rightarrow> task_id \<Rightarrow> (runtime_error, unit) result \<Rightarrow> controller" where
  "handle_registry_capacity_result c i decision =
     (case fmlookup (capacity_pending c) i of
        None \<Rightarrow> drop_decision decision c
      | Some entry \<Rightarrow>
          (let n = ce_slot_name entry
           in case fmlookup (slots c) n of
                None \<Rightarrow> reject_stale_capacity c i decision
              | Some slot \<Rightarrow>
                  if slot_owner slot \<noteq> Some i then reject_stale_capacity c i decision
                  else case claim_capacity_pending c i of
                         (None, c) \<Rightarrow> drop_decision decision c
                       | (Some (w, done'), c) \<Rightarrow>
                           (let c = debug_check (ce_slot_name w = n) c;
                                c = debug_check (ps_id (ce_pending w) = i) c
                            in case commit_capacity c i (ce_pending w) done' decision of
                                 (None, c) \<Rightarrow> track_admission c i n
                               | (Some u, c) \<Rightarrow>
                                   (let c = restore_watcher c i (uc_done u);
                                        u = u\<lparr>uc_done := None\<rparr>;
                                        down = (uc_error u = ShuttingDown);
                                        (kind, r) =
                                          (if down
                                           then (ControllerShuttingDown, controller_shutting_down_text)
                                           else (rejection_kind_for_runtime_error (uc_error u),
                                                 [Lit ''add_failed: '', ErrArg (uc_error u)]));
                                        c = publish (rejected_event (Some n) i kind r) c;
                                        (terminal, c) = finalize_rejected c i kind r;
                                        (cleared, slot) = reject_admission slot i;
                                        c = debug_check cleared c;
                                        (drops, c, slot) = advance_released down True c slot n;
                                        c = gc_if_idle c n slot;
                                        c = drop_start_failure c u terminal
                                    in drop_pending_submissions c drops))))"

section \<open>Removal results\<close>

definition handle_removal_result ::
  "controller \<Rightarrow> task_id \<Rightarrow> name \<Rightarrow> (runtime_error, bool) result \<Rightarrow> controller" where
  "handle_removal_result c i n decision =
     (case fmlookup (slots c) n of
        None \<Rightarrow> c
      | Some slot \<Rightarrow>
          if slot_owner slot \<noteq> Some i then c
          else case decision of
                 Inr _ \<Rightarrow> c
               | Inl e \<Rightarrow>
                   publish (with_id i (runtime_failure ''controller''
                     [Lit ''remove_failed slot='', StrArg n, Lit '': '', ErrArg e])) c)"

section \<open>Identity operations\<close>

definition remove_requested_event :: "name \<Rightarrow> task_id \<Rightarrow> reason option \<Rightarrow> event" where
  "remove_requested_event task i request_reason' =
     (let e = with_id i (with_task task (event_new TaskRemoveRequested))
      in case request_reason' of None \<Rightarrow> e | Some r \<Rightarrow> with_reason r e)"

text \<open>The claim of a capacity waiter: cancel its pump entry, report, resolve its outcome.\<close>

definition cancel_claimed ::
  "controller \<Rightarrow> task_id \<Rightarrow> name \<Rightarrow> capacity_pending_entry \<Rightarrow> outcome_tx option \<Rightarrow> reason option
     \<Rightarrow> task_outcome option \<times> controller" where
  "cancel_claimed c i n w done' request_reason' =
     (let (cancelled, pump') = pump_cancel (sup_alive c) (pump c) i;
          c = debug_check cancelled (c\<lparr>pump := pump'\<rparr>);
          c = publish (remove_requested_event (ps_task_name (ce_pending w)) i request_reason') c;
          c = publish (rejected_event (Some n) i RemovedFromQueue removed_from_queue_text) c
      in send_rejected c done' RemovedFromQueue removed_from_queue_text)"

definition claim_route :: "controller \<Rightarrow> task_id \<Rightarrow> (name \<times> bool) option" where
  "claim_route c i =
     (case fmlookup (capacity_pending c) i of
        Some entry \<Rightarrow> Some (ce_slot_name entry, True)
      | None \<Rightarrow> map_option (\<lambda>n. (n, False)) (fmlookup (queued_slots c) i))"

text \<open>The branch of \<open>remove_queued_submission\<close> for an indexed identity whose slot is gone.\<close>

definition remove_without_slot ::
  "controller \<Rightarrow> task_id \<Rightarrow> bool \<Rightarrow> reason option \<Rightarrow> bool \<times> controller" where
  "remove_without_slot c i is_capacity request_reason' =
     (case (if is_capacity then claim_capacity_pending c i else (None, c)) of
        (Some (w, done'), c) \<Rightarrow>
          (let (terminal, c) = cancel_claimed c i (ce_slot_name w) w done' request_reason'
           in (True, drop_pending_submission c (ce_pending w) terminal))
      | (None, c) \<Rightarrow> (False, c\<lparr>queued_slots := fmdrop i (queued_slots c)\<rparr>))"

text \<open>The branch for a locked slot.\<close>

definition remove_in_slot ::
  "controller \<Rightarrow> slot_state \<Rightarrow> name \<Rightarrow> task_id \<Rightarrow> reason option \<Rightarrow> bool \<times> controller" where
  "remove_in_slot c slot n i request_reason' =
     (case claim_capacity_pending c i of
        (Some (w, done'), c) \<Rightarrow>
          (let (terminal, c) = cancel_claimed c i n w done' request_reason';
               (cleared, slot) = reject_admission slot i;
               c = debug_check cleared c;
               (up, c) = upgrade c;
               (drops, c, slot) = (if up then start_next_from_queue c slot n else ([], c, slot));
               c = gc_if_idle c n slot;
               c = drop_pending_submission c (ce_pending w) terminal
           in (True, drop_pending_submissions c drops))
      | (None, c) \<Rightarrow>
          (case list_position (\<lambda>p. ps_id p = i) (sl_queue slot) of
             None \<Rightarrow> (False, c\<lparr>queued_slots := fmdrop i (queued_slots c)\<rparr>)
           | Some position \<Rightarrow>
               (let c = publish (remove_requested_event
                          (ps_task_name (sl_queue slot ! position)) i request_reason') c
                in case remove_queued_at c slot position of
                     (None, c, slot) \<Rightarrow> (False, debug_check False c)
                   | (Some removed, c, slot) \<Rightarrow>
                       (let c = publish (rejected_event (Some n) i RemovedFromQueue
                                  removed_from_queue_text) c;
                            (terminal, c) = finalize_rejected c i RemovedFromQueue
                                              removed_from_queue_text;
                            c = gc_if_idle c n slot
                        in (True, drop_pending_submission c removed terminal)))))"

definition remove_queued_submission ::
  "controller \<Rightarrow> task_id \<Rightarrow> reason option \<Rightarrow> bool \<times> controller" where
  "remove_queued_submission c i request_reason' =
     (case claim_route c i of
        None \<Rightarrow> (False, c)
      | Some (n, is_capacity) \<Rightarrow>
          (case fmlookup (slots c) n of
             None \<Rightarrow> remove_without_slot c i is_capacity request_reason'
           | Some slot \<Rightarrow>
               (let (down, c) = is_shutting_down c
                in if down then (False, c) else remove_in_slot c slot n i request_reason')))"

definition handle_identity_operation ::
  "controller \<Rightarrow> task_id \<Rightarrow> identity_operation \<Rightarrow> reply_tx \<Rightarrow> controller" where
  "handle_identity_operation c i operation reply =
     (let (down, c) = is_shutting_down c
      in if down then send_reply reply (Inl ShuttingDown) c
         else let (removed, c) = remove_queued_submission c i (request_reason operation)
              in if removed then send_reply reply (Inr True) c
                 else let (down, c) = is_shutting_down c
                      in if down then send_reply reply (Inl ShuttingDown) c
                         else let limit = cc_identity_operation_capacity (config c)
                              in if length (identity_ops c) \<ge> limit
                                 then send_reply reply (Inl (ResourceLimitReached
                                        ''controller_identity_operations'' limit)) c
                                 else let (up, c) = upgrade c
                                      in if \<not> up then send_reply reply (Inl ShuttingDown) c
                                         else c\<lparr>identity_ops :=
                                                  identity_ops c @ [(i, operation, reply)]\<rparr>)"

definition handle_controller_command :: "controller \<Rightarrow> controller_command \<Rightarrow> controller" where
  "handle_controller_command c cmd =
     (case cmd of
        Submit sub \<Rightarrow> handle_submission c sub
      | ManageIdentity i operation reply \<Rightarrow> handle_identity_operation c i operation reply)"

section \<open>Shutdown\<close>

text \<open>
  Dropping the tracked operations cancels their futures; the reply guard of an unfinished identity
  operation answers \<open>ShuttingDown\<close> when it is dropped.
\<close>

definition drop_operations :: "controller \<Rightarrow> controller" where
  "drop_operations c =
     fold (\<lambda>(i, operation, reply). send_reply reply (Inl ShuttingDown)) (identity_ops c)
       (c\<lparr>pump := (pump c)\<lparr>cp_queued := [], cp_active := None\<rparr>, admissions := [],
          completions := [], removals := [], identity_ops := []\<rparr>)"

fun drain_commands ::
  "controller \<Rightarrow> controller_command list
     \<Rightarrow> (controller_spec owned_task \<times> task_outcome option) list \<times> controller" where
  "drain_commands c [] = ([], c)"
| "drain_commands c (Submit sub # rest) =
     (let n = (case cs_slot (ot_value (sub_owned sub)) of
                 Some s \<Rightarrow> s
               | None \<Rightarrow> ts_name (cs_task_spec (ot_value (sub_owned sub))));
          c = publish (rejected_event (Some n) (sub_id sub) ControllerShuttingDown
                         controller_shutting_down_text) c;
          (terminal, c) = send_rejected c (sub_done sub) ControllerShuttingDown
                            controller_shutting_down_text;
          (drops, c) = drain_commands c rest
      in ((sub_owned sub, terminal) # drops, c))"
| "drain_commands c (ManageIdentity i operation reply # rest) =
     drain_commands (send_reply reply (Inl ShuttingDown) c) rest"

definition drain_pending_on_shutdown :: "controller \<Rightarrow> controller_command list \<Rightarrow> controller" where
  "drain_pending_on_shutdown c cmds =
     (let (drops, c) = drain_commands c cmds
      in fold (\<lambda>(owned, terminal) c. dispose_bundle c (ot_cleanup owned) terminal) drops c)"

text \<open>One rejected submission of the final cleanup, from a capacity wait or from a queue.\<close>

definition reject_on_shutdown ::
  "controller \<Rightarrow> name \<Rightarrow> task_id \<Rightarrow> task_outcome option \<times> controller" where
  "reject_on_shutdown c n i =
     finalize_rejected
       (publish (rejected_event (Some n) i ControllerShuttingDown controller_shutting_down_text) c)
       i ControllerShuttingDown controller_shutting_down_text"

fun finalize_capacity ::
  "controller \<Rightarrow> (task_id \<times> capacity_pending_entry) list
     \<Rightarrow> (pending_submission \<times> task_outcome option) list \<times> controller" where
  "finalize_capacity c [] = ([], c)"
| "finalize_capacity c ((i, w) # rest) =
     (let (terminal, c) = reject_on_shutdown c (ce_slot_name w) i;
          (drops, c) = finalize_capacity c rest
      in ((ce_pending w, terminal) # drops, c))"

text \<open>The \<open>while let Some(pending) = pop_queued_front\<close> loop over one slot.\<close>

fun finalize_queue ::
  "controller \<Rightarrow> name \<Rightarrow> pending_submission list
     \<Rightarrow> (pending_submission \<times> task_outcome option) list \<times> controller" where
  "finalize_queue c n [] = ([], c)"
| "finalize_queue c n (p # rest) =
     (let c = unindex_queued c (ps_id p);
          (terminal, c) = reject_on_shutdown c n (ps_id p);
          (drops, c) = finalize_queue c n rest
      in ((p, terminal) # drops, c))"

fun finalize_slots ::
  "controller \<Rightarrow> (name \<times> slot_state) list
     \<Rightarrow> (pending_submission \<times> task_outcome option) list \<times> controller" where
  "finalize_slots c [] = ([], c)"
| "finalize_slots c ((n, slot) # rest) =
     (let (drops, c) = finalize_queue c n (sl_queue slot);
          c = put_slot c n (slot\<lparr>sl_queue := []\<rparr>);
          (drops', c) = finalize_slots c rest
      in (drops @ drops', c))"

definition finalize_remaining_watchers :: "controller \<Rightarrow> controller" where
  "finalize_remaining_watchers c =
     fold (\<lambda>i c. snd (finalize_rejected
             (publish (rejected_event None i ControllerShuttingDown controller_shutting_down_text) c)
             i ControllerShuttingDown controller_shutting_down_text))
       (hm_keys (watchers c)) c"

definition finalize_slot_state_on_shutdown :: "controller \<Rightarrow> controller" where
  "finalize_slot_state_on_shutdown c =
     (let waiting = hm_entries (capacity_pending c);
          c = c\<lparr>capacity_pending := fmempty\<rparr>;
          (drops, c) = finalize_capacity c waiting;
          (drops', c) = finalize_slots c (hm_entries (slots c));
          c = finalize_remaining_watchers c;
          c = c\<lparr>slots := fmempty, queued_slots := fmempty, capacity_pending := fmempty\<rparr>
      in fold (\<lambda>(p, terminal) c. drop_pending_submission c p terminal) (drops @ drops') c)"

text \<open>
  The exit of \<open>run_inner\<close> and \<open>run_task\<close>: \<open>cmds\<close> is what the closed command channel still
  delivers, in order.
\<close>

definition loop_exit :: "controller \<Rightarrow> controller_command list \<Rightarrow> controller" where
  "loop_exit c cmds =
     (let c = ctl_mark_shutting_down c;
          c = drop_operations c;
          c = drain_pending_on_shutdown c cmds;
          c = finalize_slot_state_on_shutdown c;
          c = ctl_mark_shutting_down c
      in finalize_slot_state_on_shutdown c)"

end
