(* ===== verification/Controller_Invariant.thy ===== *)
theory Controller_Invariant
  imports Controller_Handlers
begin

text \<open>
  The global invariant of the controller and the effect of every internal operation on it.

  \<open>quiet M X c c'\<close> says that an operation left the admission state alone, submitted or committed
  exactly the cleanup bundles \<open>M\<close> and resolved exactly the outcome senders \<open>X\<close>.
  \<open>cinv K H E B W c\<close> is the invariant: \<open>K\<close> bounds the identities in use, \<open>H\<close> are identities whose
  submission is in the hands of the running handler, \<open>E\<close> names slots that may be idle because
  the handler holds their lock, and \<open>B\<close>, \<open>W\<close> are the bundles and outcome senders received so far
  that the state and the log must account for.
\<close>

section \<open>Accounting\<close>

text \<open>A bundle up to the outcome that is attached when nobody waits for it.\<close>

definition bundle_key :: "drop_bundle \<Rightarrow> drop_bundle" where
  "bundle_key b = map_option (\<lambda>inner. inner\<lparr>bi_outcome := None\<rparr>) b"

definition pending_key :: "pending_submission \<Rightarrow> drop_bundle" where
  "pending_key p = bundle_key (ot_cleanup (ps_owned p))"

fun effect_bundles :: "effect \<Rightarrow> drop_bundle multiset" where
  "effect_bundles (Committed (CmdAdd _ _ owned _ _)) = {#bundle_key (ot_cleanup owned)#}"
| "effect_bundles (Disposed b) = {#bundle_key b#}"
| "effect_bundles _ = {#}"

fun effect_senders :: "effect \<Rightarrow> outcome_tx multiset" where
  "effect_senders (Committed (CmdAdd _ _ _ done' _)) = opt_mset done'"
| "effect_senders (Delivered tx _) = {#tx#}"
| "effect_senders (Undelivered tx _) = {#tx#}"
| "effect_senders _ = {#}"

definition spent :: "effect list \<Rightarrow> drop_bundle multiset" where
  "spent l = sum_list (map effect_bundles l)"

definition resolved :: "effect list \<Rightarrow> outcome_tx multiset" where
  "resolved l = sum_list (map effect_senders l)"

definition queue_keys :: "slot_state \<Rightarrow> drop_bundle multiset" where
  "queue_keys s = mset (map pending_key (sl_queue s))"

definition held ::
  "(name, slot_state) fmap \<Rightarrow> (task_id, capacity_pending_entry) fmap \<Rightarrow> drop_bundle multiset" where
  "held S C = fm_sum queue_keys S + fm_sum (\<lambda>w. {#pending_key (ce_pending w)#}) C"

definition waiting :: "(task_id, outcome_tx) fmap \<Rightarrow> outcome_tx multiset" where
  "waiting Wt = fm_sum (\<lambda>tx. {#tx#}) Wt"

definition stopped :: "controller \<Rightarrow> bool" where
  "stopped c \<longleftrightarrow>
     shutdown_token c \<or> shutting_down c \<or> \<not> sup_alive c
     \<or> port_shutting_down (port c) \<or> port_closed (port c)"

lemma bundle_key_attach:
  "bundle_fresh b \<Longrightarrow> bundle_key (attach_outcome b o') = bundle_key b"
  by (auto simp: bundle_key_def attach_outcome_def bundle_fresh_def split: option.splits)

section \<open>Operations that leave the admission state alone\<close>

definition quiet ::
  "drop_bundle multiset \<Rightarrow> outcome_tx multiset \<Rightarrow> controller \<Rightarrow> controller \<Rightarrow> bool" where
  "quiet M X c c' \<longleftrightarrow>
     config c' = config c \<and> slots c' = slots c \<and> queued_slots c' = queued_slots c
     \<and> capacity_pending c' = capacity_pending c \<and> watchers c' = watchers c \<and> pump c' = pump c
     \<and> admissions c' = admissions c \<and> completions c' = completions c \<and> removals c' = removals c
     \<and> identity_ops c' = identity_ops c \<and> shutting_down c' = shutting_down c
     \<and> faults c' = faults c \<and> (shutdown_token c \<longrightarrow> shutdown_token c')
     \<and> (sup_alive c' \<longrightarrow> sup_alive c)
     \<and> (port_shutting_down (port c) \<longrightarrow> port_shutting_down (port c'))
     \<and> (port_closed (port c) \<longrightarrow> port_closed (port c'))
     \<and> spent (log c') = spent (log c) + M \<and> resolved (log c') = resolved (log c) + X"

lemma quiet_refl [intro!, simp]: "quiet {#} {#} c c"
  by (simp add: quiet_def)

lemma quiet_trans: "quiet M X a b \<Longrightarrow> quiet N Y b c \<Longrightarrow> quiet (M + N) (X + Y) a c"
  unfolding quiet_def by (simp add: add.assoc)

lemma quiet_trans0: "quiet {#} {#} a b \<Longrightarrow> quiet N Y b c \<Longrightarrow> quiet N Y a c"
  using quiet_trans[of "{#}" "{#}" a b N Y c] by simp

lemma quiet_trans1: "quiet M X a b \<Longrightarrow> quiet {#} {#} b c \<Longrightarrow> quiet M X a c"
  using quiet_trans[of M X a b "{#}" "{#}" c] by simp

lemma quietD:
  assumes "quiet M X c c'"
  shows "config c' = config c" "slots c' = slots c" "queued_slots c' = queued_slots c"
    "capacity_pending c' = capacity_pending c" "watchers c' = watchers c" "pump c' = pump c"
    "admissions c' = admissions c" "completions c' = completions c" "removals c' = removals c"
    "identity_ops c' = identity_ops c" "shutting_down c' = shutting_down c" "faults c' = faults c"
    "spent (log c') = spent (log c) + M" "resolved (log c') = resolved (log c) + X"
    "stopped c \<Longrightarrow> stopped c'" "sup_alive c' \<Longrightarrow> sup_alive c"
  using assms by (auto simp: quiet_def stopped_def)

lemma quiet_put_slot: "quiet M X c c' \<Longrightarrow> quiet M X (put_slot c n s) (put_slot c' n s)"
  by (simp add: quiet_def put_slot_def spent_def resolved_def)

lemma quiet_env_step: "quiet {#} {#} c (env_step m c)"
  by (cases m)
    (auto simp: quiet_def mark_shutting_down_def spent_def resolved_def port_other_send_def)

lemma quiet_env_steps: "quiet {#} {#} c (fold env_step ms c)"
proof (induction ms arbitrary: c)
  case (Cons m ms)
  then show ?case using quiet_env_step quiet_trans0 by fastforce
qed simp

lemma quiet_env: "quiet {#} {#} c (c\<lparr>env := e\<rparr>)"
  by (simp add: quiet_def spent_def resolved_def)

lemma quiet_sync [intro!]: "quiet {#} {#} c (sync c)"
  by (auto simp: sync_def intro: quiet_trans0[OF quiet_env quiet_env_steps] split: list.splits)

lemma quiet_log:
  "quiet (effect_bundles e) (effect_senders e) c (c\<lparr>log := log c @ [e]\<rparr>)"
  by (simp add: quiet_def spent_def resolved_def)

text \<open>The shutdown gate and the closed receiver never reopen.\<close>

definition port_later :: "core_port \<Rightarrow> core_port \<Rightarrow> bool" where
  "port_later p q \<longleftrightarrow>
     port_shutting_down q = port_shutting_down p \<and> port_closed q = port_closed p"

lemma quiet_port: "port_later (port c) p \<Longrightarrow> quiet {#} {#} c (c\<lparr>port := p\<rparr>)"
  by (simp add: quiet_def port_later_def spent_def resolved_def)

lemma port_later_ops:
  "port_later p (port_drop_permit p)"
  "port_later p q \<Longrightarrow> port_later p (port_send q cmd)"
  "port_try_reserve p = Inr q \<Longrightarrow> port_later p q"
  by (auto simp: port_later_def port_drop_permit_def port_send_def port_try_reserve_Inr)

lemma quiet_publish [intro!]: "quiet {#} {#} c (publish e c)"
  using quiet_log[of "Published e" c] by (simp add: publish_def)

lemma quiet_send_reply [intro!]: "quiet {#} {#} c (send_reply tx r c)"
  using quiet_log[of "Replied tx r" c] by (simp add: send_reply_def)

lemma debug_check_True [simp]: "debug_check True c = c"
  by (simp add: debug_check_def)

lemma quiet_is_shutting_down:
  "is_shutting_down c = (b, c') \<Longrightarrow> quiet {#} {#} c c' \<and> (b \<longrightarrow> stopped c')"
  by (auto simp: is_shutting_down_def stopped_def Let_def)

lemma quiet_upgrade:
  "upgrade c = (b, c') \<Longrightarrow> quiet {#} {#} c c' \<and> b = sup_alive c' \<and> (\<not> b \<longrightarrow> stopped c')"
  by (auto simp: upgrade_def stopped_def Let_def)

lemma quiet_send_outcome:
  assumes "send_outcome c tx o' = (r, c')"
  shows "quiet {#} {#tx#} c c' \<and> (r = None \<or> r = Some o')"
proof -
  have "quiet {#} {#tx#} c ((sync c)\<lparr>log := log (sync c) @ [e]\<rparr>)"
    if "e = Delivered tx o' \<or> e = Undelivered tx o'" for e
    using quiet_trans0[OF quiet_sync quiet_log[of e "sync c"]] that by auto
  with assms show ?thesis by (auto simp: send_outcome_def Let_def split: if_splits)
qed

lemma quiet_send_rejected:
  "send_rejected c done' kind r = (t, c') \<Longrightarrow>
     quiet {#} (opt_mset done') c c' \<and> (t = None \<or> t = Some (OutRejected kind r))"
  using quiet_send_outcome[of c _ "OutRejected kind r"]
  by (auto simp: send_rejected_def opt_mset_def split: option.splits)

lemma quiet_dispose_bundle:
  assumes "terminal = None \<or> bundle_fresh b"
  shows "quiet {#bundle_key b#} {#} c (dispose_bundle c b terminal)"
proof -
  define b' where "b' = (case terminal of None \<Rightarrow> b | Some o' \<Rightarrow> attach_outcome b o')"
  have "bundle_key b' = bundle_key b"
    using assms by (auto simp: b'_def bundle_key_attach split: option.splits)
  moreover have "dispose_bundle c b terminal = c\<lparr>log := log c @ [Disposed b']\<rparr>"
    by (simp add: dispose_bundle_def b'_def bundle_submit_def)
  ultimately show ?thesis using quiet_log[of "Disposed b'" c] by simp
qed

lemma quiet_drop_pending_submission:
  "terminal = None \<or> bundle_fresh (ot_cleanup (ps_owned p)) \<Longrightarrow>
     quiet {#pending_key p#} {#} c (drop_pending_submission c p terminal)"
  unfolding drop_pending_submission_def pending_key_def by (rule quiet_dispose_bundle)

definition failure_key :: "uncommitted_add \<Rightarrow> drop_bundle" where
  "failure_key u = bundle_key (ot_cleanup (uc_owned u))"

definition failure_ok :: "uncommitted_add \<Rightarrow> bool" where
  "failure_ok u \<longleftrightarrow> uc_done u = None \<and> bundle_fresh (ot_cleanup (uc_owned u))"

lemma quiet_drop_start_failure:
  "failure_ok u \<Longrightarrow> quiet {#failure_key u#} {#} c (drop_start_failure c u terminal)"
  by (simp add: drop_start_failure_def failure_ok_def failure_key_def quiet_dispose_bundle)

lemma quiet_drop_pending_submissions:
  "list_all (failure_ok \<circ> fst) drops \<Longrightarrow>
     quiet (mset (map (failure_key \<circ> fst) drops)) {#} c (drop_pending_submissions c drops)"
proof (induction c drops rule: drop_pending_submissions.induct)
  case (2 c u t rest)
  then have "quiet {#failure_key u#} {#} c (drop_start_failure c u t)"
    by (intro quiet_drop_start_failure) simp
  from quiet_trans[OF this 2(1)] 2(2) show ?case by simp
qed simp

lemma quiet_commit_add:
  assumes "port_later (port c) r"
  shows "quiet {#bundle_key (ot_cleanup owned)#} (opt_mset done') c (commit_add c r i n owned done')"
proof -
  let ?cmd = "CmdAdd i n owned done' True"
  let ?c1 = "publish (with_id i (with_task n (event_new TaskAddRequested))) c"
  have "quiet {#} {#} c (?c1\<lparr>port := port_send r ?cmd\<rparr>)"
    by (rule quiet_trans0[OF quiet_publish quiet_port]) (simp add: publish_def port_later_ops assms)
  from quiet_trans0[OF this quiet_log[of "Committed ?cmd"]]
  show ?thesis by (simp add: commit_add_def Let_def)
qed

lemma quiet_try_reserve:
  assumes "try_reserve_command_admission c = (x, c')"
  shows "quiet {#} {#} c c'"
proof -
  have two: "quiet {#} {#} c (sync (sync c))" by (rule quiet_trans0[OF quiet_sync quiet_sync])
  have three: "quiet {#} {#} c (sync ((sync (sync c))\<lparr>port := q\<rparr>))"
    if "port_try_reserve (port (sync (sync c))) = Inr q" for q
    by (rule quiet_trans0[OF quiet_trans0[OF two quiet_port[OF port_later_ops(3)[OF that]]] quiet_sync])
  show ?thesis
    using assms two three quiet_trans0[OF three quiet_port[OF port_later_ops(1)]]
    by (auto simp: try_reserve_command_admission_def Let_def split: if_splits sum.splits try_send_error.splits)
qed

lemma quiet_add_task_None:
  "add_task_with_id_watched c i n owned done' = (None, c') \<Longrightarrow>
     quiet {#bundle_key (ot_cleanup owned)#} (opt_mset done') c c'"
  by (auto simp: add_task_with_id_watched_def port_later_def dest!: quiet_try_reserve
      intro: quiet_trans0[OF _ quiet_commit_add] split: prod.splits option.splits)

lemma quiet_add_task_Some:
  "add_task_with_id_watched c i n owned done' = (Some u, c') \<Longrightarrow>
     quiet {#} {#} c c' \<and> uc_name u = n \<and> uc_owned u = owned \<and> uc_done u = done'"
  by (auto simp: add_task_with_id_watched_def dest: quiet_try_reserve split: prod.splits option.splits)

lemma quiet_commit_reserved_None:
  "commit_reserved_controller_add c i n owned done' = (None, c') \<Longrightarrow>
     quiet {#bundle_key (ot_cleanup owned)#} (opt_mset done') c c'"
  using quiet_trans0[OF quiet_sync quiet_commit_add, of c]
  by (auto simp: port_later_def commit_reserved_controller_add_def Let_def split: if_splits)

lemma quiet_commit_reserved_Some:
  "commit_reserved_controller_add c i n owned done' = (Some u, c') \<Longrightarrow>
     quiet {#} {#} c c' \<and> uc_name u = n \<and> uc_owned u = owned \<and> uc_done u = done'
     \<and> (uc_error u = ShuttingDown \<longrightarrow> stopped c')"
  using quiet_trans0[OF quiet_sync quiet_port[OF port_later_ops(1)]]
  by (auto simp: commit_reserved_controller_add_def Let_def stopped_def command_admission_def
      port_drop_permit_def split: if_splits)

section \<open>The invariant\<close>

text \<open>The reverse index and the slot queues describe the same queued submissions.\<close>

definition index_ok :: "(name, slot_state) fmap \<Rightarrow> (task_id, name) fmap \<Rightarrow> bool" where
  "index_ok S Q \<longleftrightarrow>
     (\<forall>i n. fmlookup Q i = Some n \<longleftrightarrow>
        (\<exists>s. fmlookup S n = Some s \<and> i \<in> ps_id ` set (sl_queue s)))
     \<and> (\<forall>n s. fmlookup S n = Some s \<longrightarrow>
          distinct (map ps_id (sl_queue s))
          \<and> (\<forall>p \<in> set (sl_queue s). bundle_fresh (ot_cleanup (ps_owned p))))"

text \<open>An identity owns at most one slot, and an owner is not queued.\<close>

definition owners_ok ::
  "task_id set \<Rightarrow> (name, slot_state) fmap \<Rightarrow> (task_id, name) fmap \<Rightarrow> bool" where
  "owners_ok K S Q \<longleftrightarrow>
     (\<forall>n s i. fmlookup S n = Some s \<and> slot_owner s = Some i \<longrightarrow>
        i \<in> K \<and> fmlookup Q i = None
        \<and> (\<forall>m t. fmlookup S m = Some t \<and> slot_owner t = Some i \<longrightarrow> m = n))
     \<and> (\<forall>i n. fmlookup Q i = Some n \<longrightarrow> i \<in> K)"

text \<open>A capacity waiter owns its admitting slot and exactly one entry of the bounded pump.\<close>

definition capacity_ok ::
  "controller_config \<Rightarrow> (name, slot_state) fmap \<Rightarrow> (task_id, capacity_pending_entry) fmap
     \<Rightarrow> capacity_pump \<Rightarrow> bool" where
  "capacity_ok cfg S C P \<longleftrightarrow>
     (\<forall>i w. fmlookup C i = Some w \<longrightarrow>
        ps_id (ce_pending w) = i \<and> bundle_fresh (ot_cleanup (ps_owned (ce_pending w)))
        \<and> (\<exists>s. fmlookup S (ce_slot_name w) = Some s \<and> slot_owner s = Some i
              \<and> phase_admitting (sl_phase s)))
     \<and> set (pump_ids P) = fset (fmdom C) \<and> pump.ok P \<and> cp_limit P = cc_admission_capacity cfg"

text \<open>Every tracked operation belongs to a current owner, at most one of each kind per owner.\<close>

definition tracked_ok ::
  "(name, slot_state) fmap \<Rightarrow> (task_id, capacity_pending_entry) fmap \<Rightarrow> (task_id \<times> name) list
     \<Rightarrow> (task_id \<times> name) list \<Rightarrow> bool" where
  "tracked_ok S C A D \<longleftrightarrow>
     distinct (map fst A) \<and> distinct (map fst D)
     \<and> (\<forall>i n. (i, n) \<in> set A \<longrightarrow>
          fmlookup C i = None
          \<and> (\<exists>s. fmlookup S n = Some s \<and> slot_owner s = Some i \<and> phase_admitting (sl_phase s)))
     \<and> (\<forall>i n. (i, n) \<in> set D \<longrightarrow>
          (\<exists>s. fmlookup S n = Some s \<and> slot_owner s = Some i \<and> phase_accepted (sl_phase s)))"

text \<open>An occupied slot always has a pending operation that will release it.\<close>

definition progress_ok ::
  "bool \<Rightarrow> (name, slot_state) fmap \<Rightarrow> (task_id, capacity_pending_entry) fmap
     \<Rightarrow> (task_id \<times> name) list \<Rightarrow> (task_id \<times> name) list \<Rightarrow> bool" where
  "progress_ok up S C A D \<longleftrightarrow>
     (\<forall>n s i. fmlookup S n = Some s \<and> slot_owner s = Some i \<longrightarrow>
        (phase_admitting (sl_phase s) \<longrightarrow>
           (i, n) \<in> set A \<or> (\<exists>w. fmlookup C i = Some w \<and> ce_slot_name w = n))
        \<and> (phase_accepted (sl_phase s) \<longrightarrow> (i, n) \<in> set D \<or> \<not> up))"

definition watch_ok ::
  "task_id set \<Rightarrow> (task_id, name) fmap \<Rightarrow> (task_id, capacity_pending_entry) fmap
     \<Rightarrow> (task_id, outcome_tx) fmap \<Rightarrow> bool" where
  "watch_ok H Q C Wt \<longleftrightarrow>
     (\<forall>i. fmlookup Wt i \<noteq> None \<longrightarrow> fmlookup Q i \<noteq> None \<or> fmlookup C i \<noteq> None \<or> i \<in> H)"

definition limits_ok ::
  "controller_config \<Rightarrow> (name, slot_state) fmap \<Rightarrow> nat \<Rightarrow> bool" where
  "limits_ok cfg S pending \<longleftrightarrow>
     (\<forall>limit. cc_max_total_pending cfg = Some limit \<longrightarrow> pending \<le> limit)
     \<and> (\<forall>limit. cc_max_controller_slots cfg = Some limit \<longrightarrow> hm_len S \<le> limit)
     \<and> (\<forall>n s. fmlookup S n = Some s \<longrightarrow> length (sl_queue s) \<le> max 1 (cc_max_slot_queue cfg))"

text \<open>An idle slot stays in the map only with queued work that a stopped runtime cannot start.\<close>

definition idle_ok :: "name set \<Rightarrow> bool \<Rightarrow> (name, slot_state) fmap \<Rightarrow> bool" where
  "idle_ok E st S \<longleftrightarrow>
     (\<forall>n s. fmlookup S n = Some s \<and> is_idle s \<and> n \<notin> E \<longrightarrow> sl_queue s \<noteq> [] \<and> st)"

text \<open>A reservation future that started without a supervisor proves that it is gone.\<close>

definition live_ok :: "bool \<Rightarrow> capacity_pump \<Rightarrow> bool" where
  "live_ok up P \<longleftrightarrow> (\<forall>i. cp_active P = Some (i, False) \<longrightarrow> \<not> up)"

definition cinv ::
  "task_id set \<Rightarrow> task_id set \<Rightarrow> name set \<Rightarrow> drop_bundle multiset \<Rightarrow> outcome_tx multiset
     \<Rightarrow> controller \<Rightarrow> bool" where
  "cinv K H E B W c \<longleftrightarrow>
     index_ok (slots c) (queued_slots c)
     \<and> owners_ok K (slots c) (queued_slots c)
     \<and> capacity_ok (config c) (slots c) (capacity_pending c) (pump c)
     \<and> tracked_ok (slots c) (capacity_pending c) (admissions c) (completions c)
     \<and> progress_ok (sup_alive c) (slots c) (capacity_pending c) (admissions c) (completions c)
     \<and> watch_ok H (queued_slots c) (capacity_pending c) (watchers c)
     \<and> limits_ok (config c) (slots c) (pending_len c)
     \<and> idle_ok E (stopped c) (slots c)
     \<and> held (slots c) (capacity_pending c) + spent (log c) = B
     \<and> waiting (watchers c) + resolved (log c) = W
     \<and> faults c = 0 \<and> live_ok (sup_alive c) (pump c)"

lemmas part_defs = index_ok_def owners_ok_def capacity_ok_def tracked_ok_def progress_ok_def
  watch_ok_def limits_ok_def idle_ok_def

lemma cinvI:
  assumes "index_ok (slots c) (queued_slots c)" "owners_ok K (slots c) (queued_slots c)"
    "capacity_ok (config c) (slots c) (capacity_pending c) (pump c)"
    "tracked_ok (slots c) (capacity_pending c) (admissions c) (completions c)"
    "progress_ok (sup_alive c) (slots c) (capacity_pending c) (admissions c) (completions c)"
    "watch_ok H (queued_slots c) (capacity_pending c) (watchers c)"
    "limits_ok (config c) (slots c) (pending_len c)" "idle_ok E (stopped c) (slots c)"
    "held (slots c) (capacity_pending c) + spent (log c) = B"
    "waiting (watchers c) + resolved (log c) = W" "faults c = 0"
    "live_ok (sup_alive c) (pump c)"
  shows "cinv K H E B W c"
  using assms unfolding cinv_def by (intro conjI)

lemma cinvD:
  assumes "cinv K H E B W c"
  shows "index_ok (slots c) (queued_slots c)" "owners_ok K (slots c) (queued_slots c)"
    "capacity_ok (config c) (slots c) (capacity_pending c) (pump c)"
    "tracked_ok (slots c) (capacity_pending c) (admissions c) (completions c)"
    "progress_ok (sup_alive c) (slots c) (capacity_pending c) (admissions c) (completions c)"
    "watch_ok H (queued_slots c) (capacity_pending c) (watchers c)"
    "limits_ok (config c) (slots c) (pending_len c)" "idle_ok E (stopped c) (slots c)"
    "held (slots c) (capacity_pending c) + spent (log c) = B"
    "waiting (watchers c) + resolved (log c) = W" "faults c = 0"
    "live_ok (sup_alive c) (pump c)"
  using assms unfolding cinv_def by auto

lemma progress_ok_mono: "progress_ok up S C A D \<Longrightarrow> (up' \<Longrightarrow> up) \<Longrightarrow> progress_ok up' S C A D"
  unfolding progress_ok_def by blast

lemma idle_ok_mono: "idle_ok E st S \<Longrightarrow> (st \<Longrightarrow> st') \<Longrightarrow> E \<subseteq> E' \<Longrightarrow> idle_ok E' st' S"
  unfolding idle_ok_def by blast

lemma pending_len_quiet: "quiet M X c c' \<Longrightarrow> pending_len c' = pending_len c"
  by (simp add: pending_len_def quietD)

lemma cinv_quiet:
  assumes inv: "cinv K H E B W c" and q: "quiet M X c c'"
  shows "cinv K H E (B + M) (W + X) c'"
proof (rule cinvI, goal_cases)
  case 5
  show ?case using cinvD(5)[OF inv] quietD(16)[OF q]
    by (simp only: quietD(1-12)[OF q]) (rule progress_ok_mono)
next
  case 8
  show ?case using cinvD(8)[OF inv] quietD(15)[OF q]
    unfolding idle_ok_def quietD(2)[OF q] by blast
next
  case 12
  show ?case using cinvD(12)[OF inv] quietD(6,16)[OF q] by (auto simp: live_ok_def)
qed (use cinvD[OF inv] in
     \<open>simp_all add: quietD(1-14)[OF q] pending_len_quiet[OF q] add.assoc [symmetric]\<close>)

lemma cinv_quiet0: "cinv K H E B W c \<Longrightarrow> quiet {#} {#} c c' \<Longrightarrow> cinv K H E B W c'"
  using cinv_quiet[of K H E B W c "{#}" "{#}" c'] by simp

lemma cinv_mono:
  "cinv K H E B W c \<Longrightarrow> K \<subseteq> K' \<Longrightarrow> H \<subseteq> H' \<Longrightarrow> E \<subseteq> E' \<Longrightarrow> cinv K' H' E' B W c"
  unfolding cinv_def owners_ok_def watch_ok_def idle_ok_def by blast

lemma stopped_update [simp]:
  "stopped (c\<lparr>slots := x0\<rparr>) = stopped c"
  "stopped (c\<lparr>queued_slots := x1\<rparr>) = stopped c"
  "stopped (c\<lparr>capacity_pending := x2\<rparr>) = stopped c"
  "stopped (c\<lparr>watchers := x3\<rparr>) = stopped c"
  "stopped (c\<lparr>pump := x4\<rparr>) = stopped c"
  "stopped (c\<lparr>admissions := x5\<rparr>) = stopped c"
  "stopped (c\<lparr>completions := x6\<rparr>) = stopped c"
  "stopped (c\<lparr>removals := x7\<rparr>) = stopped c"
  "stopped (c\<lparr>identity_ops := x8\<rparr>) = stopped c"
  "stopped (c\<lparr>log := x9\<rparr>) = stopped c"
  by (simp_all add: stopped_def)

lemma pending_len_update [simp]:
  "pending_len (c\<lparr>slots := x0\<rparr>) = pending_len c"
  "pending_len (c\<lparr>watchers := x3\<rparr>) = pending_len c"
  "pending_len (c\<lparr>pump := x4\<rparr>) = pending_len c"
  "pending_len (c\<lparr>admissions := x5\<rparr>) = pending_len c"
  "pending_len (c\<lparr>completions := x6\<rparr>) = pending_len c"
  "pending_len (c\<lparr>removals := x7\<rparr>) = pending_len c"
  "pending_len (c\<lparr>identity_ops := x8\<rparr>) = pending_len c"
  "pending_len (c\<lparr>log := x9\<rparr>) = pending_len c"
  "pending_len (c\<lparr>port := x10\<rparr>) = pending_len c"
  by (simp_all add: pending_len_def)

lemma put_slot_simps [simp]:
  "slots (put_slot c n s) = fmupd n s (slots c)"
  "config (put_slot c n s) = config c"
  "queued_slots (put_slot c n s) = queued_slots c"
  "capacity_pending (put_slot c n s) = capacity_pending c"
  "watchers (put_slot c n s) = watchers c"
  "pump (put_slot c n s) = pump c"
  "admissions (put_slot c n s) = admissions c"
  "completions (put_slot c n s) = completions c"
  "faults (put_slot c n s) = faults c"
  "sup_alive (put_slot c n s) = sup_alive c"
  "stopped (put_slot c n s) = stopped c"
  "shutting_down (put_slot c n s) = shutting_down c"
  "pending_len (put_slot c n s) = pending_len c"
  "log (put_slot c n s) = log c"
  by (simp_all add: put_slot_def stopped_def pending_len_def)

lemma put_slot_put_slot [simp]: "put_slot (put_slot c n s) n s' = put_slot c n s'"
  by (simp add: put_slot_def fmap_ext)

lemma put_slot_same: "fmlookup (slots c) n = Some s \<Longrightarrow> put_slot c n s = c"
  by (simp add: put_slot_def fmupd_lookup_same)

text \<open>A slot that is not idle needs no exemption.\<close>

lemma cinv_busy:
  "cinv K H {n} B W (put_slot c n s) \<Longrightarrow> \<not> is_idle s \<Longrightarrow> cinv K H {} B W (put_slot c n s)"
  by (auto simp: cinv_def idle_ok_def split: if_splits)

section \<open>Identities in hand\<close>

definition fresh_id :: "controller \<Rightarrow> task_id \<Rightarrow> bool" where
  "fresh_id c i \<longleftrightarrow>
     fmlookup (queued_slots c) i = None \<and> fmlookup (capacity_pending c) i = None
     \<and> (\<forall>n s. fmlookup (slots c) n = Some s \<longrightarrow> slot_owner s \<noteq> Some i)"

lemma fresh_id_quiet: "quiet M X c c' \<Longrightarrow> fresh_id c' i = fresh_id c i"
  by (simp add: fresh_id_def quietD)

lemma capacity_okE:
  assumes "capacity_ok cfg S C P" and "fmlookup C i = Some w"
  obtains s where "fmlookup S (ce_slot_name w) = Some s" "slot_owner s = Some i"
    "phase_admitting (sl_phase s)" "ps_id (ce_pending w) = i"
    "bundle_fresh (ot_cleanup (ps_owned (ce_pending w)))"
  using assms unfolding capacity_ok_def by blast

lemma tracked_admissionE:
  assumes "tracked_ok S C A D" and "(i, n) \<in> set A"
  obtains s where "fmlookup S n = Some s" "slot_owner s = Some i"
    "phase_admitting (sl_phase s)" "fmlookup C i = None"
  using assms unfolding tracked_ok_def by blast

lemma tracked_completionE:
  assumes "tracked_ok S C A D" and "(i, n) \<in> set D"
  obtains s where "fmlookup S n = Some s" "slot_owner s = Some i" "phase_accepted (sl_phase s)"
  using assms unfolding tracked_ok_def by blast

lemma owners_okD:
  assumes "owners_ok K S Q" and "fmlookup S n = Some s" and "slot_owner s = Some i"
  shows "i \<in> K" "fmlookup Q i = None"
    "fmlookup S m = Some t \<Longrightarrow> slot_owner t = Some i \<Longrightarrow> m = n"
  using assms unfolding owners_ok_def by blast+

lemma fresh_id_new:
  assumes "cinv K H E B W c" and "i \<notin> K"
  shows "fresh_id c i"
proof -
  have "fmlookup (queued_slots c) i = None"
    using cinvD(2)[OF assms(1)] assms(2) by (cases "fmlookup (queued_slots c) i")
      (auto simp: owners_ok_def)
  moreover have own: "fmlookup (slots c) n = Some s \<Longrightarrow> slot_owner s \<noteq> Some i" for n s
    using owners_okD(1)[OF cinvD(2)[OF assms(1)]] assms(2) by blast
  moreover have "fmlookup (capacity_pending c) i = None"
  proof (rule ccontr)
    assume "fmlookup (capacity_pending c) i \<noteq> None"
    then obtain w where "fmlookup (capacity_pending c) i = Some w" by auto
    from capacity_okE[OF cinvD(3)[OF assms(1)] this] own show False by metis
  qed
  ultimately show ?thesis by (simp add: fresh_id_def)
qed

lemma fresh_id_untracked:
  assumes "cinv K H E B W c" and "fresh_id c i"
  shows "(i, n) \<notin> set (admissions c)" "(i, n) \<notin> set (completions c)"
    "i \<notin> fst ` set (admissions c)" "i \<notin> fst ` set (completions c)"
    "i \<notin> set (pump_ids (pump c))"
proof -
  show a: "(i, m) \<notin> set (admissions c)" and d: "(i, m) \<notin> set (completions c)" for m
    using tracked_admissionE[OF cinvD(4)[OF assms(1)], of i m]
      tracked_completionE[OF cinvD(4)[OF assms(1)], of i m] assms(2)
    unfolding fresh_id_def by metis+
  show "i \<notin> fst ` set (admissions c)" "i \<notin> fst ` set (completions c)" using a d by auto
  show "i \<notin> set (pump_ids (pump c))"
    using cinvD(3)[OF assms(1)] assms(2) by (simp add: capacity_ok_def fresh_id_def fmlookup_dom_iff)
qed

end
