(* ===== verification/Controller_Preservation.thy ===== *)
theory Controller_Preservation
  imports Controller_Invariant
begin

text \<open>
  Every operation of the controller preserves the invariant: hand-off, advancing a queue, policy
  placement, the submission guard and the handlers of the loop. Each lemma says what happens to the
  identities in hand, to the locked slot and to the bundles and outcome senders.
\<close>

section \<open>Outcome senders\<close>

lemma fm_sum_opt:
  "fm_sum (\<lambda>tx. {#tx#}) m = opt_mset (fmlookup m i) + fm_sum (\<lambda>tx. {#tx#}) (fmdrop i m)"
  by (cases "fmlookup m i") (simp_all add: opt_mset_def fm_sum_drop_absent fm_sum_lookup)

lemma cinv_take_watcher:
  assumes "cinv K H E B (W + opt_mset (fmlookup (watchers c) i)) c"
  shows "cinv K (H - {i}) E B W (c\<lparr>watchers := fmdrop i (watchers c)\<rparr>)"
proof (rule cinvI, goal_cases)
  case 6
  show ?case using cinvD(6)[OF assms] by (auto simp: watch_ok_def)
next
  case 10
  show ?case using cinvD(10)[OF assms] fm_sum_opt[of "watchers c" i]
    by (simp add: waiting_def ac_simps)
qed (use cinvD[OF assms] in simp_all)

lemma finalize_rejected_quiet:
  "finalize_rejected c i kind r = (t, c') \<Longrightarrow>
     quiet {#} (opt_mset (fmlookup (watchers c) i)) (c\<lparr>watchers := fmdrop i (watchers c)\<rparr>) c'
     \<and> (t = None \<or> t = Some (OutRejected kind r))"
proof (cases "fmlookup (watchers c) i")
  case None
  assume "finalize_rejected c i kind r = (t, c')"
  moreover from None have "fmdrop i (watchers c) = watchers c"
    by (simp add: fmdrop_idle fmdom_notI)
  ultimately show ?thesis using None by (simp add: finalize_rejected_def opt_mset_def)
next
  case (Some tx)
  assume "finalize_rejected c i kind r = (t, c')"
  with Some quiet_send_rejected[of "c\<lparr>watchers := fmdrop i (watchers c)\<rparr>" "Some tx" kind r t c']
  show ?thesis by (simp add: finalize_rejected_def opt_mset_def)
qed

lemma put_slot_watchers:
  "put_slot (c\<lparr>watchers := x\<rparr>) n s = (put_slot c n s)\<lparr>watchers := x\<rparr>"
  by (simp add: put_slot_def)

lemma cinv_resolve_watcher:
  assumes "cinv K H E B W c"
    and "quiet M (opt_mset (fmlookup (watchers c) i)) (c\<lparr>watchers := fmdrop i (watchers c)\<rparr>) c'"
  shows "cinv K (H - {i}) E (B + M) W c'"
proof -
  let ?x = "opt_mset (fmlookup (watchers c) i)"
  from cinvD(10)[OF assms(1)] fm_sum_opt[of "watchers c" i]
  have W: "W = (W - ?x) + ?x" by (auto simp: waiting_def)
  with assms(1) have "cinv K (H - {i}) E B (W - ?x) (c\<lparr>watchers := fmdrop i (watchers c)\<rparr>)"
    by (intro cinv_take_watcher) simp
  from cinv_quiet[OF this assms(2)] W show ?thesis by simp
qed

lemma cinv_finalize_rejected:
  assumes "cinv K H E B W (put_slot c n s)" and "finalize_rejected c i kind r = (t, c')"
  shows "cinv K (H - {i}) E B W (put_slot c' n s)"
proof -
  from finalize_rejected_quiet[OF assms(2)]
  have "quiet {#} (opt_mset (fmlookup (watchers c) i))
      (put_slot (c\<lparr>watchers := fmdrop i (watchers c)\<rparr>) n s) (put_slot c' n s)"
    by (blast intro: quiet_put_slot)
  with assms(1) show ?thesis
    using cinv_resolve_watcher[OF assms(1), of "{#}" i] by (simp add: put_slot_watchers)
qed

section \<open>The invariant around one locked slot\<close>

lemma upd_Some:
  "fmlookup (fmupd n s S) m = Some t \<longleftrightarrow> m = n \<and> t = s \<or> m \<noteq> n \<and> fmlookup S m = Some t"
  by auto

lemma drop_Some: "fmlookup (fmdrop n S) m = Some t \<longleftrightarrow> m \<noteq> n \<and> fmlookup S m = Some t"
  by auto

lemma index_upd:
  "index_ok (fmupd n s S) Q \<longleftrightarrow>
     (\<forall>i. fmlookup Q i = Some n \<longleftrightarrow> i \<in> ps_id ` set (sl_queue s))
     \<and> distinct (map ps_id (sl_queue s))
     \<and> (\<forall>p \<in> set (sl_queue s). bundle_fresh (ot_cleanup (ps_owned p)))
     \<and> (\<forall>i m. m \<noteq> n \<longrightarrow> (fmlookup Q i = Some m \<longleftrightarrow>
          (\<exists>t. fmlookup S m = Some t \<and> i \<in> ps_id ` set (sl_queue t))))
     \<and> (\<forall>m t. m \<noteq> n \<longrightarrow> fmlookup S m = Some t \<longrightarrow>
          distinct (map ps_id (sl_queue t))
          \<and> (\<forall>p \<in> set (sl_queue t). bundle_fresh (ot_cleanup (ps_owned p))))"
proof -
  have ex: "(\<exists>t. (m = n \<and> t = s \<or> m \<noteq> n \<and> fmlookup S m = Some t) \<and> i \<in> ps_id ` set (sl_queue t))
      \<longleftrightarrow> (if m = n then i \<in> ps_id ` set (sl_queue s)
          else \<exists>t. fmlookup S m = Some t \<and> i \<in> ps_id ` set (sl_queue t))" for i m
    by auto
  have all: "(\<forall>i m. Q' i m \<longleftrightarrow> (if m = n then A i else D i m)) \<longleftrightarrow>
      (\<forall>i. Q' i n \<longleftrightarrow> A i) \<and> (\<forall>i m. m \<noteq> n \<longrightarrow> (Q' i m \<longleftrightarrow> D i m))" for Q' A D
    by (auto split: if_splits)
  show ?thesis unfolding index_ok_def upd_Some ex all by blast
qed

lemma owners_upd:
  "owners_ok K (fmupd n s S) Q \<longleftrightarrow>
     (\<forall>i. slot_owner s = Some i \<longrightarrow> i \<in> K \<and> fmlookup Q i = None
        \<and> (\<forall>m t. m \<noteq> n \<longrightarrow> fmlookup S m = Some t \<longrightarrow> slot_owner t \<noteq> Some i))
     \<and> owners_ok K (fmdrop n S) Q"
  unfolding owners_ok_def upd_Some drop_Some by (rule iffI; blast)

lemma capacity_upd:
  "capacity_ok cfg (fmupd n s S) C P \<longleftrightarrow>
     (\<forall>i w. fmlookup C i = Some w \<longrightarrow>
        ps_id (ce_pending w) = i \<and> bundle_fresh (ot_cleanup (ps_owned (ce_pending w)))
        \<and> (if ce_slot_name w = n then slot_owner s = Some i \<and> phase_admitting (sl_phase s)
           else \<exists>t. fmlookup S (ce_slot_name w) = Some t \<and> slot_owner t = Some i
                  \<and> phase_admitting (sl_phase t)))
     \<and> set (pump_ids P) = fset (fmdom C) \<and> pump.ok P \<and> cp_limit P = cc_admission_capacity cfg"
  unfolding capacity_ok_def upd_Some by (auto split: if_splits)

lemma tracked_upd:
  "tracked_ok (fmupd n s S) C A D \<longleftrightarrow>
     distinct (map fst A) \<and> distinct (map fst D)
     \<and> (\<forall>i. (i, n) \<in> set A \<longrightarrow>
          fmlookup C i = None \<and> slot_owner s = Some i \<and> phase_admitting (sl_phase s))
     \<and> (\<forall>i. (i, n) \<in> set D \<longrightarrow> slot_owner s = Some i \<and> phase_accepted (sl_phase s))
     \<and> (\<forall>i m. (i, m) \<in> set A \<longrightarrow> m \<noteq> n \<longrightarrow> fmlookup C i = None
          \<and> (\<exists>t. fmlookup S m = Some t \<and> slot_owner t = Some i \<and> phase_admitting (sl_phase t)))
     \<and> (\<forall>i m. (i, m) \<in> set D \<longrightarrow> m \<noteq> n \<longrightarrow>
          (\<exists>t. fmlookup S m = Some t \<and> slot_owner t = Some i \<and> phase_accepted (sl_phase t)))"
  unfolding tracked_ok_def upd_Some by (rule iffI; blast)

lemma progress_upd:
  "progress_ok up (fmupd n s S) C A D \<longleftrightarrow>
     (\<forall>i. slot_owner s = Some i \<longrightarrow>
        (phase_admitting (sl_phase s) \<longrightarrow>
           (i, n) \<in> set A \<or> (\<exists>w. fmlookup C i = Some w \<and> ce_slot_name w = n))
        \<and> (phase_accepted (sl_phase s) \<longrightarrow> (i, n) \<in> set D \<or> \<not> up))
     \<and> progress_ok up (fmdrop n S) C A D"
  unfolding progress_ok_def upd_Some drop_Some by (rule iffI; blast)

lemma progress_ok_trans:
  assumes "progress_ok up S C A D"
    and "\<And>m s i. fmlookup S m = Some s \<Longrightarrow> slot_owner s = Some i \<Longrightarrow> (i, m) \<in> set A \<Longrightarrow> (i, m) \<in> set A'"
    and "\<And>m s i. fmlookup S m = Some s \<Longrightarrow> slot_owner s = Some i \<Longrightarrow> (i, m) \<in> set D \<Longrightarrow> (i, m) \<in> set D'"
    and "\<And>m s i w. fmlookup S m = Some s \<Longrightarrow> slot_owner s = Some i \<Longrightarrow> fmlookup C i = Some w \<Longrightarrow>
           fmlookup C' i = Some w"
  shows "progress_ok up S C' A' D'"
  using assms unfolding progress_ok_def by metis

lemma idle_upd:
  "idle_ok E st (fmupd n s S) \<longleftrightarrow>
     (is_idle s \<and> n \<notin> E \<longrightarrow> sl_queue s \<noteq> [] \<and> st) \<and> idle_ok E st (fmdrop n S)"
  unfolding idle_ok_def upd_Some drop_Some by blast

lemma idle_rest [simp]: "idle_ok {n} st (fmdrop n S) = idle_ok {} st (fmdrop n S)"
  unfolding idle_ok_def drop_Some by blast

lemma limits_upd:
  "limits_ok cfg (fmupd n s S) k \<longleftrightarrow>
     (\<forall>limit. cc_max_total_pending cfg = Some limit \<longrightarrow> k \<le> limit)
     \<and> (\<forall>limit. cc_max_controller_slots cfg = Some limit \<longrightarrow> fcard (finsert n (fmdom S)) \<le> limit)
     \<and> length (sl_queue s) \<le> max 1 (cc_max_slot_queue cfg)
     \<and> (\<forall>m t. m \<noteq> n \<longrightarrow> fmlookup S m = Some t \<longrightarrow>
          length (sl_queue t) \<le> max 1 (cc_max_slot_queue cfg))"
  unfolding limits_ok_def upd_Some hm_len_def fmdom_fmupd by blast

lemma fresh_upd:
  "fresh_id (put_slot c n s) i \<longleftrightarrow>
     fmlookup (queued_slots c) i = None \<and> fmlookup (capacity_pending c) i = None
     \<and> slot_owner s \<noteq> Some i
     \<and> (\<forall>m t. m \<noteq> n \<longrightarrow> fmlookup (slots c) m = Some t \<longrightarrow> slot_owner t \<noteq> Some i)"
  unfolding fresh_id_def put_slot_simps upd_Some by blast

lemmas upd_simps = index_upd owners_upd capacity_upd tracked_upd progress_upd idle_upd limits_upd

section \<open>Starting an idle slot\<close>

lemma slot_owner_phase [simp]:
  "slot_owner (s\<lparr>sl_phase := p\<rparr>) = phase_owner p"
  by (simp add: slot_owner_def)

lemma queue_keys_phase [simp]: "queue_keys (s\<lparr>sl_phase := p\<rparr>) = queue_keys s"
  by (simp add: queue_keys_def)

lemma held_upd:
  "held (fmupd n s S) C = queue_keys s + fm_sum queue_keys (fmdrop n S)
     + fm_sum (\<lambda>w. {#pending_key (ce_pending w)#}) C"
  by (simp add: held_def fm_sum_upd)

lemma idle_untracked:
  assumes "cinv K H E B W (put_slot c n s)" and "is_idle s"
  shows "(i, n) \<notin> set (admissions c)" "(i, n) \<notin> set (completions c)"
    "fmlookup (capacity_pending c) i = Some w \<Longrightarrow> ce_slot_name w \<noteq> n"
proof -
  note inv = cinvD(3,4)[OF assms(1), simplified]
  have none: "slot_owner s = None" using assms(2) by (simp add: is_idle_owner)
  show "(i, n) \<notin> set (admissions c)" "(i, n) \<notin> set (completions c)"
    using inv(2) none by (auto simp: tracked_upd)
  assume "fmlookup (capacity_pending c) i = Some w"
  then show "ce_slot_name w \<noteq> n"
    using inv(1) none by (auto simp: capacity_upd)
qed

lemma track_admission_simps [simp]:
  "slots (track_admission c i n) = slots c" "config (track_admission c i n) = config c"
  "queued_slots (track_admission c i n) = queued_slots c"
  "capacity_pending (track_admission c i n) = capacity_pending c"
  "watchers (track_admission c i n) = watchers c" "pump (track_admission c i n) = pump c"
  "admissions (track_admission c i n) = admissions c @ [(i, n)]"
  "completions (track_admission c i n) = completions c" "faults (track_admission c i n) = faults c"
  "sup_alive (track_admission c i n) = sup_alive c" "stopped (track_admission c i n) = stopped c"
  "pending_len (track_admission c i n) = pending_len c" "log (track_admission c i n) = log c"
  by (simp_all add: track_admission_def stopped_def pending_len_def)

lemma index_ok_phase:
  "index_ok (fmupd n s S) Q \<Longrightarrow> index_ok (fmupd n (s\<lparr>sl_phase := p\<rparr>) S) Q"
  unfolding index_ok_def by (auto split: if_splits)

lemma limits_ok_phase:
  "limits_ok cfg (fmupd n s S) k \<Longrightarrow> limits_ok cfg (fmupd n (s\<lparr>sl_phase := p\<rparr>) S) k"
  by (simp add: limits_upd)

lemma idle_ok_upd: "idle_ok {n} st (fmupd n s S) \<Longrightarrow> idle_ok {n} st (fmupd n s' S)"
  unfolding idle_ok_def by (auto split: if_splits)

lemma cinv_begin_tracked:
  assumes inv: "cinv K H {n} B W (put_slot c n s)" and fresh: "fresh_id (put_slot c n s) i"
    and idle: "is_idle s" and "i \<in> K"
  shows "cinv K H {n} B W (put_slot (track_admission c i n) n (s\<lparr>sl_phase := Admitting i t\<rparr>))"
proof -
  note I = cinvD[OF inv, simplified]
  note free = fresh_id_untracked[OF inv fresh, simplified] idle_untracked[OF inv idle]
  have none: "slot_owner s = None" using idle by (simp add: is_idle_owner)
  show ?thesis
  proof (rule cinvI, goal_cases)
    case 1
    show ?case using I(1) by (simp add: index_ok_phase)
  next
    case 2
    show ?case using I(2) fresh \<open>i \<in> K\<close> by (simp add: owners_upd fresh_upd)
  next
    case 3
    show ?case using I(3) free(8) by (simp add: capacity_upd)
  next
    case 4
    show ?case using I(4) free fresh by (auto simp: tracked_upd fresh_upd)
  next
    case 5
    show ?case using I(5) by (auto simp: progress_upd elim!: progress_ok_trans)
  qed (use I in \<open>simp_all add: limits_ok_phase idle_ok_upd[of n _ s] held_upd\<close>)
qed

lemma cinv_begin_waiting:
  assumes inv: "cinv K (insert i H) {n} B W (put_slot c n s)"
    and fresh: "fresh_id (put_slot c n s) i" and idle: "is_idle s" and "i \<in> K"
    and enq: "pump_enqueue (sup_alive c) (pump c) i = Inr q" and room: "pending_limit_hit c = None"
    and w: "w = \<lparr>ce_slot_name = n, ce_pending = p\<rparr>" "ps_id p = i"
      "bundle_fresh (ot_cleanup (ps_owned p))"
  shows "cinv K H {n} (B + {#pending_key p#}) W
    (put_slot (c\<lparr>capacity_pending := fmupd i w (capacity_pending c), pump := q\<rparr>) n
       (s\<lparr>sl_phase := Admitting i t\<rparr>))"
proof -
  note I = cinvD[OF inv, simplified]
  note free = fresh_id_untracked[OF inv fresh, simplified] idle_untracked[OF inv idle]
  have cap: "fmlookup (capacity_pending c) i = None" using fresh by (simp add: fresh_upd)
  note q = pump.enq_Inr[OF enq]
  have qok: "pump.ok q"
    using pump.ok_enq[OF _ enq] I(3) free(5) by (simp add: capacity_upd)
  show ?thesis
  proof (rule cinvI, goal_cases)
    case 1
    show ?case using I(1) by (simp add: index_ok_phase)
  next
    case 2
    show ?case using I(2) fresh \<open>i \<in> K\<close> by (simp add: owners_upd fresh_upd)
  next
    case 3
    show ?case using I(3) free(8) qok q w by (auto simp: capacity_upd upd_Some)
  next
    case 4
    show ?case using I(4) free fresh by (auto simp: tracked_upd fresh_upd)
  next
    case 5
    show ?case using I(5) cap w by (auto simp: progress_upd upd_Some elim!: progress_ok_trans)
  next
    case 6
    show ?case using I(6) by (auto simp: watch_ok_def)
  next
    case 7
    show ?case using I(7) room cap
      by (auto simp: limits_upd pending_limit_hit_def pending_len_def map_len_simps
          split: option.splits if_splits)
  next
    case 9
    show ?case using I(9) cap w by (simp add: held_upd fm_sum_upd fm_sum_drop_absent)
  next
    case 12
    show ?case using I(12) enq by (auto simp: live_ok_def pump_enqueue_def pump_start_next_def
        split: if_splits option.splits list.splits)
  qed (use I in \<open>simp_all add: idle_ok_upd[of n _ s]\<close>)
qed

lemma restore_watcher_quiet:
  assumes "quiet M X (c\<lparr>watchers := fmdrop i (watchers c)\<rparr>) c2"
  shows "quiet M X c (restore_watcher c2 i (fmlookup (watchers c) i))"
proof -
  have "fmlookup (watchers c) i = None \<Longrightarrow> fmdrop i (watchers c) = watchers c"
    by (simp add: fmdrop_idle fmdom_notI)
  moreover have "fmlookup (watchers c) i = Some tx \<Longrightarrow>
      fmupd i tx (fmdrop i (watchers c)) = watchers c" for tx
    by (rule fmap_ext) auto
  ultimately show ?thesis
    using assms by (auto simp: quiet_def restore_watcher_def split: option.splits)
qed

lemma try_index_fresh:
  "fmlookup (capacity_pending c) i = None \<Longrightarrow>
     try_index_capacity_pending c i w =
       (case pending_limit_hit c of
          Some limit \<Rightarrow> (Some limit, c)
        | None \<Rightarrow> (None, c\<lparr>capacity_pending := fmupd i w (capacity_pending c)\<rparr>))"
  by (simp add: try_index_capacity_pending_def Let_def split: option.splits)

lemma unindex_index:
  assumes "fmlookup (capacity_pending c) i = None"
  shows "unindex_capacity_pending (c\<lparr>capacity_pending := fmupd i w (capacity_pending c)\<rparr>) i = c"
proof -
  have "fmdrop i (fmupd i w (capacity_pending c)) = capacity_pending c"
    using assms by (intro fmap_ext) auto
  then show ?thesis by (simp add: unindex_capacity_pending_def)
qed

text \<open>The three ways a hand-off can end.\<close>

lemma start_in_slot_cases:
  assumes start: "start_in_slot c s n p = (r, c', s')" and i: "i = ps_id p"
    and idle: "is_idle s" and cap: "fmlookup (capacity_pending c) i = None"
    and free: "i \<notin> set (pump_ids (pump c))"
  obtains
    (committed) c2 where "r = None"
      "quiet {#pending_key p#} (opt_mset (fmlookup (watchers c) i))
         (c\<lparr>watchers := fmdrop i (watchers c)\<rparr>) c2"
      "c' = track_admission c2 i n" "s' = s\<lparr>sl_phase := Admitting i (clock c2)\<rparr>"
  | (waiting) c2 q t where "r = None" "quiet {#} {#} c c2"
      "pending_limit_hit c2 = None" "pump_enqueue (sup_alive c2) (pump c2) i = Inr q"
      "c' = c2\<lparr>capacity_pending := fmupd i \<lparr>ce_slot_name = n, ce_pending = p\<rparr> (capacity_pending c2),
               pump := q\<rparr>"
      "s' = s\<lparr>sl_phase := Admitting i t\<rparr>"
  | (failed) u where "r = Some u" "quiet {#} {#} c c'" "s' = s" "uc_done u = None"
      "uc_owned u = ps_owned p"
proof -
  let ?d = "fmlookup (watchers c) i" and ?c1 = "c\<lparr>watchers := fmdrop i (watchers c)\<rparr>"
  let ?w = "\<lparr>ce_slot_name = n, ce_pending = p\<rparr>"
  have p_eta: "\<lparr>ps_id = i, ps_task_name = ps_task_name p, ps_owned = ps_owned p\<rparr> = p"
    using i by simp
  show thesis
  proof (cases "add_task_with_id_watched ?c1 i (ps_task_name p) (ps_owned p) ?d")
    case (Pair o1 c2)
    show thesis
    proof (cases o1)
      case None
      with Pair quiet_add_task_None[of ?c1 i _ "ps_owned p" ?d c2] start i idle
      show thesis
        by (intro committed[of c2])
          (auto simp: start_in_slot_def Let_def begin_admission_idle pending_key_def)
    next
      case (Some u0)
      define c3 where "c3 = restore_watcher c2 i ?d"
      from Pair Some have u0: "quiet {#} {#} ?c1 c2" "uc_name u0 = ps_task_name p"
        "uc_owned u0 = ps_owned p" "uc_done u0 = ?d"
        using quiet_add_task_Some[of ?c1 i _ "ps_owned p" ?d u0 c2] by auto
      have q3: "quiet {#} {#} c c3"
        using restore_watcher_quiet[OF u0(1)] by (simp add: c3_def)
      have cap3: "fmlookup (capacity_pending c3) i = None" and free3: "i \<notin> set (pump_ids (pump c3))"
        using cap free quietD[OF q3] by simp_all
      let ?c4 = "c3\<lparr>capacity_pending := fmupd i ?w (capacity_pending c3)\<rparr>"
      note unfolded = start_in_slot_def Let_def idle Pair Some i [symmetric] u0(2-4)
        c3_def [symmetric] p_eta try_index_fresh[OF cap3] unindex_index[OF cap3]
        begin_admission_idle[OF idle] pump_enqueue_assert_iff free3
      show thesis
      proof (cases "uc_error u0 = CommandQueueFull")
        case False
        with start have "r = Some (u0\<lparr>uc_done := None\<rparr>)" "c' = c3" "s' = s"
          by (simp_all add: unfolded)
        then show thesis using q3 u0 by (intro failed[of "u0\<lparr>uc_done := None\<rparr>"]) simp_all
      next
        case full: True
        show thesis
        proof (cases "pending_limit_hit c3")
          case (Some limit)
          with start full have "\<exists>e. r = Some (u0\<lparr>uc_done := None, uc_error := e\<rparr>)" "c' = c3" "s' = s"
            by (auto simp: unfolded)
          then show thesis using q3 u0 by (auto intro: failed)
        next
          case None
          show thesis
          proof (cases "pump_enqueue (sup_alive ?c4) (pump ?c4) i")
            case (Inl limit)
            with None start full have "\<exists>e. r = Some (u0\<lparr>uc_done := None, uc_error := e\<rparr>)"
              "c' = c3" "s' = s"
              by (auto simp: unfolded)
            then show thesis using q3 u0 by (auto intro: failed)
          next
            case (Inr q)
            with None start full have "r = None" "c' = ?c4\<lparr>pump := q\<rparr>"
              "s' = s\<lparr>sl_phase := Admitting i (clock c3)\<rparr>"
              by (auto simp: unfolded)
            then show thesis using q3 None Inr by (intro waiting[of c3]) simp_all
          qed
        qed
      qed
    qed
  qed
qed

lemma start_in_slot_None:
  assumes inv: "cinv K (insert i H) {n} B W (put_slot c n s)"
    and fresh: "fresh_id (put_slot c n s) i" and idle: "is_idle s"
    and i: "i = ps_id p" "i \<in> K" and b: "bundle_fresh (ot_cleanup (ps_owned p))"
    and start: "start_in_slot c s n p = (None, c', s')"
  shows "cinv K H {n} (B + {#pending_key p#}) W (put_slot c' n s')" "\<not> is_idle s'"
proof -
  have cap: "fmlookup (capacity_pending c) i = None" "i \<notin> set (pump_ids (pump c))"
    using fresh fresh_id_untracked(5)[OF inv fresh] by (simp_all add: fresh_upd)
  have "cinv K H {n} (B + {#pending_key p#}) W (put_slot c' n s') \<and> \<not> is_idle s'"
  proof (cases rule: start_in_slot_cases[OF start i(1) idle cap, case_names committed waiting failed])
    case (committed c2)
    have q: "quiet {#pending_key p#} (opt_mset (fmlookup (watchers (put_slot c n s)) i))
        ((put_slot c n s)\<lparr>watchers := fmdrop i (watchers (put_slot c n s))\<rparr>) (put_slot c2 n s)"
      using quiet_put_slot[OF committed(2), of n s] by (simp add: put_slot_watchers)
    have "cinv K H {n} (B + {#pending_key p#}) W (put_slot c2 n s)"
      using cinv_mono[OF cinv_resolve_watcher[OF inv q] subset_refl _ subset_refl, of H] by auto
    moreover have "fresh_id (put_slot c2 n s) i"
      using fresh quietD(2-4)[OF committed(2)] by (simp add: fresh_upd)
    ultimately show ?thesis
      using cinv_begin_tracked[OF _ _ idle i(2)] committed(3,4) by (simp add: is_idle_iff)
  next
    case (waiting c2 q t)
    have "cinv K (insert i H) {n} B W (put_slot c2 n s)"
      using cinv_quiet0[OF inv quiet_put_slot[OF waiting(2)]] .
    moreover have "fresh_id (put_slot c2 n s) i"
      using fresh fresh_id_quiet[OF quiet_put_slot[OF waiting(2)]] by simp
    ultimately show ?thesis
      using cinv_begin_waiting[OF _ _ idle i(2) waiting(4,3) refl i(1)[symmetric] b] waiting(5,6)
      by (simp add: is_idle_iff)
  next
    case (failed u)
    then show ?thesis by simp
  qed
  then show "cinv K H {n} (B + {#pending_key p#}) W (put_slot c' n s')" "\<not> is_idle s'" by auto
qed

lemma start_in_slot_Some:
  assumes inv: "cinv K (insert i H) {n} B W (put_slot c n s)"
    and fresh: "fresh_id (put_slot c n s) i" and idle: "is_idle s"
    and i: "i = ps_id p" and b: "bundle_fresh (ot_cleanup (ps_owned p))"
    and start: "start_in_slot c s n p = (Some u, c', s')"
  shows "quiet {#} {#} c c'" "s' = s" "failure_ok u" "failure_key u = pending_key p"
proof -
  have cap: "fmlookup (capacity_pending c) i = None" "i \<notin> set (pump_ids (pump c))"
    using fresh fresh_id_untracked(5)[OF inv fresh] by (simp_all add: fresh_upd)
  have "quiet {#} {#} c c' \<and> s' = s \<and> failure_ok u \<and> failure_key u = pending_key p"
    by (cases rule: start_in_slot_cases[OF start i idle cap])
      (use b in \<open>auto simp: failure_ok_def failure_key_def pending_key_def\<close>)
  then show "quiet {#} {#} c c'" "s' = s" "failure_ok u" "failure_key u = pending_key p" by auto
qed

section \<open>Advancing a queue\<close>

text \<open>Taking a submission out of the middle of a queue; the front is the case \<open>xs = []\<close>.\<close>

lemma cinv_unqueue:
  assumes inv: "cinv K H {n} B W (put_slot c n s)" and s: "sl_queue s = xs @ p # ys"
  defines "s' \<equiv> s\<lparr>sl_queue := xs @ ys\<rparr>" and "c' \<equiv> unindex_queued c (ps_id p)"
  shows "cinv K (insert (ps_id p) H) {n} (B - {#pending_key p#}) W (put_slot c' n s')"
    and "pending_key p \<in># B" and "fresh_id (put_slot c' n s') (ps_id p)" and "ps_id p \<in> K"
    and "bundle_fresh (ot_cleanup (ps_owned p))"
proof -
  note I = cinvD[OF inv, simplified]
  let ?i = "ps_id p"
  have own: "slot_owner s' = slot_owner s" "is_idle s' = is_idle s" "sl_phase s' = sl_phase s"
    by (simp_all add: s'_def slot_owner_def is_idle_def)
  have at_n: "fmlookup (queued_slots c) ?i = Some n"
    using I(1) s by (simp add: index_upd)
  have dist: "distinct (map ps_id (xs @ p # ys))"
    using I(1) s by (simp add: index_upd)
  have keys: "queue_keys s = add_mset (pending_key p) (queue_keys s')"
    using s by (simp add: queue_keys_def s'_def)
  have rest: "owners_ok K (fmdrop n (slots c)) (queued_slots c)"
    using I(2) by (simp add: owners_upd)
  have noown: "slot_owner s \<noteq> Some ?i" using I(2) at_n by (auto simp: owners_upd)
  have noown': "slot_owner t \<noteq> Some ?i" if "m \<noteq> n" "fmlookup (slots c) m = Some t" for m t
    using owners_okD(2)[OF rest, of m t ?i] that at_n by (auto simp: drop_Some)
  show "ps_id p \<in> K" using rest at_n unfolding owners_ok_def by blast
  show "bundle_fresh (ot_cleanup (ps_owned p))" using I(1) s by (simp add: index_upd)
  show "pending_key p \<in># B" using I(9) keys by (auto simp: held_upd)
  have cap: "fmlookup (capacity_pending c) ?i = None"
  proof (rule ccontr)
    assume "fmlookup (capacity_pending c) ?i \<noteq> None"
    then obtain w where "fmlookup (capacity_pending c) ?i = Some w" by auto
    from capacity_okE[OF I(3) this] obtain t where
      "fmlookup (fmupd n s (slots c)) (ce_slot_name w) = Some t" "slot_owner t = Some ?i" by metis
    then show False using noown noown' unfolding upd_Some by metis
  qed
  show "fresh_id (put_slot c' n s') ?i"
    using cap noown noown' own by (auto simp: fresh_upd c'_def unindex_queued_def)
  show "cinv K (insert ?i H) {n} (B - {#pending_key p#}) W (put_slot c' n s')"
  proof (rule cinvI, goal_cases)
    case 1
    have "?i \<notin> ps_id ` set (sl_queue t)" if "m \<noteq> n" "fmlookup (slots c) m = Some t" for m t
      using I(1) at_n that unfolding index_upd by (metis option.inject)
    then show ?case
      using I(1) s dist by (auto simp: index_upd s'_def c'_def unindex_queued_def drop_Some)
  next
    case 2
    have "owners_ok K (fmdrop n (slots c)) (fmdrop ?i (queued_slots c))"
      using rest unfolding owners_ok_def drop_Some by auto
    with I(2) show ?case by (auto simp: owners_upd own c'_def unindex_queued_def)
  next
    case 3
    show ?case using I(3) by (simp add: capacity_upd own c'_def unindex_queued_def)
  next
    case 4
    show ?case using I(4) by (simp add: tracked_upd own c'_def unindex_queued_def)
  next
    case 5
    show ?case using I(5) by (simp add: progress_upd own c'_def unindex_queued_def)
  next
    case 6
    show ?case using I(6) by (auto simp: watch_ok_def c'_def unindex_queued_def)
  next
    case 7
    show ?case using I(7) hm_len_remove_le[of ?i "queued_slots c"] s
      by (auto simp: limits_upd pending_len_def c'_def unindex_queued_def s'_def)
  next
    case 9
    show ?case using I(9) keys by (auto simp: held_upd c'_def unindex_queued_def)
  qed (use I in \<open>simp_all add: idle_ok_upd[of n _ s] c'_def unindex_queued_def\<close>)
qed

lemma drops_keys_snoc:
  "mset (map (failure_key \<circ> fst) (ds @ [(u, t)]))
     = add_mset (failure_key u) (mset (map (failure_key \<circ> fst) ds))"
  by simp

lemma start_next_loop_inv:
  assumes "start_next_loop c s n drops = (drops', c', s')"
    and "cinv K H {n} B W (put_slot c n s)" and "is_idle s" and "list_all (failure_ok \<circ> fst) drops"
    and "B0 = B + mset (map (failure_key \<circ> fst) drops)"
  shows "\<exists>B'. cinv K H {n} B' W (put_slot c' n s') \<and> B0 = B' + mset (map (failure_key \<circ> fst) drops')
    \<and> list_all (failure_ok \<circ> fst) drops' \<and> (is_idle s' \<longrightarrow> sl_queue s' = [])"
  using assms
proof (induction c s n drops arbitrary: B drops' c' s' rule: start_next_loop.induct)
  case (1 c s n drops)
  note IH = "1.IH" and prems = "1.prems"
  show ?case
  proof (cases "sl_queue s")
    case Nil
    then have "start_next_loop c s n drops = (drops, c, s)"
      by (subst start_next_loop.simps) (simp add: pop_queued_front_def)
    with prems Nil show ?thesis by auto
  next
    case (Cons p rest)
    let ?s1 = "s\<lparr>sl_queue := rest\<rparr>" and ?c1 = "unindex_queued c (ps_id p)"
    have pop: "pop_queued_front c s = (Some p, ?c1, ?s1)"
      using Cons by (simp add: pop_queued_front_def)
    note un = cinv_unqueue[OF prems(2), of "[]" p rest, simplified, OF Cons]
    have idle1: "is_idle ?s1" using prems(3) by (simp add: is_idle_def)
    obtain r c2 s2 where start: "start_in_slot ?c1 ?s1 n p = (r, c2, s2)"
      by (cases "start_in_slot ?c1 ?s1 n p") auto
    show ?thesis
    proof (cases r)
      case None
      note st = start_in_slot_None[OF un(1,3) idle1 refl un(4,5) start[unfolded None]]
      from prems(1) have eq: "drops' = drops" "s' = s2" "quiet {#} {#} c2 c'"
        by (auto simp: start_next_loop.simps[of c] pop start None)
      have "cinv K H {n} B W (put_slot c' n s2)"
        using cinv_quiet0[OF st(1) quiet_put_slot[OF eq(3)]] un(2) by simp
      with eq prems st(2) show ?thesis by auto
    next
      case (Some u)
      note st = start_in_slot_Some[OF un(1,3) idle1 refl un(5) start[unfolded Some]]
      let ?kind = "rejection_kind_for_runtime_error (uc_error u)"
      let ?r = "[Lit ''queue_start_failed: '', ErrArg (uc_error u)]"
      let ?c3 = "publish (rejected_event (Some n) (ps_id p) ?kind ?r) c2"
      obtain t c4 where fin: "finalize_rejected ?c3 (ps_id p) ?kind ?r = (t, c4)"
        by (cases "finalize_rejected ?c3 (ps_id p) ?kind ?r") auto
      have q3: "quiet {#} {#} ?c1 ?c3" using quiet_trans0[OF st(1) quiet_publish] .
      have inv3: "cinv K (insert (ps_id p) H) {n} (B - {#pending_key p#}) W (put_slot ?c3 n s2)"
        using cinv_quiet0[OF un(1) quiet_put_slot[OF q3]] st(2) by simp
      have inv4: "cinv K H {n} (B - {#pending_key p#}) W (put_slot c4 n s2)"
        by (rule cinv_mono[OF cinv_finalize_rejected[OF inv3 fin]]) auto
      have loop: "start_next_loop c4 s2 n (drops @ [(u, t)]) = (drops', c', s')"
        using prems(1) by (simp add: start_next_loop.simps[of c] pop start Some fin)
      show ?thesis
        using IH[OF pop[symmetric] refl refl start[symmetric] Some refl refl refl refl refl
            fin[symmetric] loop inv4] prems(3-5) st idle1 un(2)
        by (simp add: ac_simps)
    qed
  qed
qed

lemma start_next_from_queue_inv:
  assumes "start_next_from_queue c s n = (drops, c', s')"
    and "cinv K H {n} B W (put_slot c n s)" and "is_idle s"
  obtains B' where "cinv K H {n} B' W (put_slot c' n s')"
    "B = B' + mset (map (failure_key \<circ> fst) drops)" "list_all (failure_ok \<circ> fst) drops"
    "is_idle s' \<longrightarrow> sl_queue s' = []"
  using start_next_loop_inv[OF _ assms(2,3), of "[]" drops c' s' B] assms(1,3)
  by (auto simp: start_next_from_queue_def)

lemma cinv_gc_if_idle:
  assumes inv: "cinv K H {n} B W (put_slot c n s)"
    and ok: "is_idle s \<longrightarrow> sl_queue s = [] \<or> stopped c"
  shows "cinv K H {} B W (gc_if_idle c n s)"
proof (cases "is_idle s \<and> sl_queue s = []")
  case False
  then have "gc_if_idle c n s = put_slot c n s" by (auto simp: gc_if_idle_def)
  moreover have "idle_ok {} (stopped c) (fmupd n s (slots c))"
    using cinvD(8)[OF inv] ok False by (auto simp: idle_upd)
  ultimately show ?thesis using inv by (simp add: cinv_def)
next
  case True
  then have eq: "gc_if_idle c n s = c\<lparr>slots := fmdrop n (slots c)\<rparr>"
    by (simp add: gc_if_idle_def put_slot_def fmdrop_fmupd_same)
  note I = cinvD[OF inv, simplified]
  note free = idle_untracked[OF inv conjunct1[OF True]]
  have keys: "queue_keys s = {#}" using True by (simp add: queue_keys_def)
  show ?thesis unfolding eq
  proof (rule cinvI, goal_cases)
    case 1
    have "fmlookup (queued_slots c) i \<noteq> Some n" for i
      using I(1) True by (simp add: index_upd)
    then show ?case using I(1) unfolding index_upd index_ok_def
      by (auto simp: drop_Some simp del: distinct_map) metis+
  next
    case 3
    show ?case using I(3) free(3) unfolding capacity_upd capacity_ok_def controller.simps drop_Some
      by (simp, metis)
  next
    case 4
    show ?case using I(4)[unfolded tracked_upd] free(1,2)
      by (auto simp: tracked_ok_def drop_Some simp del: distinct_map)
  next
    case 7
    have "hm_len (fmdrop n (slots c)) \<le> fcard (finsert n (fmdom (slots c)))"
      unfolding hm_len_def by (rule fcard_mono) auto
    with I(7)[unfolded limits_upd] show ?case
      by (auto simp: limits_ok_def drop_Some intro: order_trans)
  next
    case 8
    show ?case using I(8) by (simp add: idle_upd)
  next
    case 9
    show ?case using I(9) keys by (simp add: held_def fm_sum_upd)
  qed (use I in \<open>simp_all add: owners_upd progress_upd\<close>)
qed

lemma advance_released_inv:
  assumes adv: "advance_released skip need_sup c s n = (drops, c', s')"
    and inv: "cinv K H {n} B W (put_slot c n s)" and idle: "is_idle s" and skip: "skip \<longrightarrow> stopped c"
  obtains B' where "cinv K H {n} B' W (put_slot c' n s')"
    "B = B' + mset (map (failure_key \<circ> fst) drops)" "list_all (failure_ok \<circ> fst) drops"
    "is_idle s' \<longrightarrow> sl_queue s' = [] \<or> stopped c'"
proof -
  obtain down c1 where d: "is_shutting_down c = (down, c1)" by (cases "is_shutting_down c") auto
  obtain up c2 where u: "upgrade c1 = (up, c2)" by (cases "upgrade c1") auto
  note q1 = quiet_is_shutting_down[OF d] and q2 = quiet_upgrade[OF u]
  have inv1: "cinv K H {n} B W (put_slot c1 n s)"
    using cinv_quiet0[OF inv quiet_put_slot] q1 by blast
  have inv2: "cinv K H {n} B W (put_slot c2 n s)"
    using cinv_quiet0[OF inv1 quiet_put_slot] q2 by blast
  consider "drops = []" "c' \<in> {c, c1, c2}" "s' = s" "stopped c'"
    | c0 where "start_next_from_queue c0 s n = (drops, c', s')" "c0 \<in> {c1, c2}"
    using adv d u q1 q2 skip by (auto simp: advance_released_def split: if_splits)
  then show thesis
  proof cases
    case 1
    then show thesis using inv inv1 inv2 that[of B] by auto
  next
    case 2
    then have "cinv K H {n} B W (put_slot c0 n s)" using inv1 inv2 by auto
    from start_next_from_queue_inv[OF 2(1) this idle] that show thesis by metis
  qed
qed

text \<open>Releasing a slot whose owner left: advance, collect, clean up.\<close>

lemma cinv_release_slot:
  assumes adv: "advance_released skip need_sup c s n = (drops, c', s')"
    and inv: "cinv K H {n} B W (put_slot c n s)" and idle: "is_idle s" and skip: "skip \<longrightarrow> stopped c"
    and q: "quiet M {#} (gc_if_idle c' n s') c2"
  shows "cinv K H {} (B + M) W (drop_pending_submissions c2 drops)"
proof -
  obtain B' where B': "cinv K H {n} B' W (put_slot c' n s')"
    "B = B' + mset (map (failure_key \<circ> fst) drops)" "list_all (failure_ok \<circ> fst) drops"
    "is_idle s' \<longrightarrow> sl_queue s' = [] \<or> stopped c'"
    using advance_released_inv[OF adv inv idle skip] by metis
  from cinv_quiet[OF cinv_quiet[OF cinv_gc_if_idle[OF B'(1,4)] q] quiet_drop_pending_submissions[OF B'(3)]]
  show ?thesis using B'(2) by (simp add: ac_simps)
qed

end
