(* ===== verification/Controller_Results.thy ===== *)
theory Controller_Results
  imports Controller_Preservation
begin

text \<open>
  The handlers of internal results preserve the invariant: registry decisions, physical completions,
  capacity grants and removal results. The loop removes a finished operation from its set before it
  calls the handler, so each lemma starts from a state whose operation list lacks that entry.
\<close>

section \<open>An owner confirmed or released\<close>

lemma distinct_fst_remove1:
  assumes "distinct (map fst A)" and "(i, n) \<in> set A"
  shows "distinct (map fst (remove1 (i, n) A))" and "set (remove1 (i, n) A) = set A - {(i, n)}"
    and "i \<notin> fst ` set (remove1 (i, n) A)"
proof -
  have d: "distinct A" using assms(1) by (simp add: distinct_map)
  then show s: "set (remove1 (i, n) A) = set A - {(i, n)}" by simp
  show "distinct (map fst (remove1 (i, n) A))"
    using assms(1) d by (auto simp: distinct_map inj_on_def)
  show "i \<notin> fst ` set (remove1 (i, n) A)"
    using assms unfolding s by (fastforce simp: distinct_map inj_on_def)
qed

lemma accepted_phase: "phase_accepted p \<Longrightarrow> \<not> phase_admitting p"
  by (cases p) simp_all

lemma accepted_not_idle: "phase_accepted (sl_phase s) \<or> phase_admitting (sl_phase s) \<Longrightarrow> \<not> is_idle s"
  by (auto simp: is_idle_iff)

text \<open>The tracked operation of an owner names that owner's slot.\<close>

lemma tracked_slot:
  assumes "cinv K H E B W c" and "fmlookup (slots c) n = Some s" and "slot_owner s = Some i"
  shows "(i, m) \<in> set (admissions c) \<Longrightarrow> m = n" "(i, m) \<in> set (completions c) \<Longrightarrow> m = n"
    "fmlookup (capacity_pending c) i = Some w \<Longrightarrow> ce_slot_name w = n"
  using owners_okD(3)[OF cinvD(2)[OF assms(1)] assms(2,3)] tracked_admissionE[OF cinvD(4)[OF assms(1)]]
    tracked_completionE[OF cinvD(4)[OF assms(1)]] capacity_okE[OF cinvD(3)[OF assms(1)]]
  by metis+

lemma owner_elsewhere:
  assumes "cinv K H E B W (put_slot c n s)" and "slot_owner s = Some i"
    and "m \<noteq> n" and "fmlookup (slots c) m = Some t"
  shows "slot_owner t \<noteq> Some i"
  using cinvD(2)[OF assms(1)] assms(2-4) by (auto simp: owners_upd)

lemma cinv_confirm:
  assumes inv: "cinv K H E B W c" and adm: "(i, n) \<in> set (admissions c)"
    and s: "fmlookup (slots c) n = Some s" and p': "phase_owner p' = Some i" "phase_accepted p'"
  defines "c0 \<equiv> c\<lparr>admissions := remove1 (i, n) (admissions c)\<rparr>"
  shows "cinv K H E B W (put_slot (track_completion c0 i n) n (s\<lparr>sl_phase := p'\<rparr>))"
proof -
  have inv': "cinv K H E B W (put_slot c n s)" using inv by (simp add: put_slot_same[OF s])
  note I = cinvD[OF inv', simplified]
  have own: "slot_owner s = Some i" "phase_admitting (sl_phase s)" "fmlookup (capacity_pending c) i = None"
    using tracked_admissionE[OF cinvD(4)[OF inv] adm] s by auto
  note rm = distinct_fst_remove1[OF _ adm]
  have dist: "distinct (map fst (admissions c))" "distinct (map fst (completions c))"
    using I(4) by (simp_all add: tracked_upd)
  have fresh_done: "i \<notin> fst ` set (completions c)"
  proof
    assume "i \<in> fst ` set (completions c)"
    then obtain m where m: "(i, m) \<in> set (completions c)" by auto
    then have "m = n" by (rule tracked_slot(2)[OF inv s own(1)])
    with tracked_completionE[OF cinvD(4)[OF inv] m] s own(2) accepted_phase show False
      by (metis option.inject)
  qed
  have nidle: "\<not> is_idle (s\<lparr>sl_phase := p'\<rparr>)" using p'(2) by (auto simp: is_idle_iff)
  show ?thesis
  proof (rule cinvI, goal_cases)
    case 1
    show ?case using I(1) by (simp add: c0_def track_completion_def index_ok_phase)
  next
    case 2
    show ?case using I(2) own p' by (simp add: owners_upd c0_def track_completion_def)
  next
    case 3
    have "fmlookup (capacity_pending c) j = Some w \<Longrightarrow> ce_slot_name w \<noteq> n" for j w
      using I(3) own by (auto simp: capacity_upd)
    then show ?case using I(3) by (simp add: capacity_upd c0_def track_completion_def)
  next
    case 4
    show ?case
      using I(4)[unfolded tracked_upd] own p' rm(1,2)[OF dist(1)] dist fresh_done
      by (auto simp: tracked_upd c0_def track_completion_def)
  next
    case 5
    have "slot_owner t \<noteq> Some i" if "m \<noteq> n" "fmlookup (slots c) m = Some t" for m t
      using owner_elsewhere[OF inv' own(1) that] .
    then show ?case using I(5) p' rm(2)[OF dist(1)] accepted_phase[OF p'(2)]
      by (auto simp: progress_upd c0_def track_completion_def drop_Some elim!: progress_ok_trans)
  next
    case 8
    show ?case using I(8) nidle by (simp add: idle_upd c0_def track_completion_def)
  next
    case 9
    show ?case using I(9) by (simp add: held_upd c0_def track_completion_def)
  qed (use I in \<open>simp_all add: c0_def track_completion_def limits_ok_phase\<close>)
qed

text \<open>Clearing an owner that has no pending operation any more.\<close>

lemma cinv_clear_owner:
  assumes inv: "cinv K H E B W c" and s: "fmlookup (slots c) n = Some s"
    and own: "slot_owner s = Some i"
    and A: "A' = filter (\<lambda>x. x \<noteq> (i, n)) (admissions c)"
    and D: "D' = filter (\<lambda>x. x \<noteq> (i, n)) (completions c)"
    and cap: "fmlookup (capacity_pending c) i = None"
  shows "cinv K H (insert n E) B W
    (put_slot (c\<lparr>admissions := A', completions := D'\<rparr>) n (s\<lparr>sl_phase := Idle\<rparr>))"
proof -
  have inv': "cinv K H E B W (put_slot c n s)" using inv by (simp add: put_slot_same[OF s])
  note I = cinvD[OF inv', simplified]
  show ?thesis
  proof (rule cinvI, goal_cases)
    case 1
    show ?case using I(1) by (simp add: index_ok_phase)
  next
    case 2
    show ?case using I(2) by (simp add: owners_upd)
  next
    case 3
    have "fmlookup (capacity_pending c) j = Some w \<Longrightarrow> ce_slot_name w \<noteq> n" for j w
      using I(3) own cap by (auto simp: capacity_upd)
    then show ?case using I(3) by (simp add: capacity_upd)
  next
    case 4
    have "distinct (map fst (filter P xs))" if "distinct (map fst xs)" for P and xs :: "(task_id \<times> name) list"
      using that by (simp add: distinct_map_filter)
    with I(4)[unfolded tracked_upd] show ?case
      using own by (auto simp: tracked_upd A D)
  next
    case 5
    show ?case using I(5) owner_elsewhere[OF inv' own]
      by (auto simp: progress_upd A D drop_Some elim!: progress_ok_trans)
  next
    case 8
    show ?case using I(8) by (auto simp: idle_upd intro: idle_ok_mono)
  next
    case 9
    show ?case using I(9) by (simp add: held_upd)
  qed (use I in \<open>simp_all add: limits_ok_phase\<close>)
qed

lemma remove1_filter: "distinct xs \<Longrightarrow> remove1 x xs = filter (\<lambda>y. y \<noteq> x) xs"
  by (simp add: distinct_remove1_removeAll removeAll_filter_not_eq eq_commute[of x])

lemma filter_neq_id: "x \<notin> set xs \<Longrightarrow> filter (\<lambda>y. y \<noteq> x) xs = xs"
  by (auto intro: filter_True)

lemma cinv_clear_admission:
  assumes inv: "cinv K H {} B W c" and adm: "(i, n) \<in> set (admissions c)"
    and s: "fmlookup (slots c) n = Some s"
  shows "cinv K H {n} B W
    (put_slot (c\<lparr>admissions := remove1 (i, n) (admissions c)\<rparr>) n (s\<lparr>sl_phase := Idle\<rparr>))"
proof -
  have own: "slot_owner s = Some i" "phase_admitting (sl_phase s)" "fmlookup (capacity_pending c) i = None"
    using tracked_admissionE[OF cinvD(4)[OF inv] adm] s by auto
  have "(i, n) \<notin> set (completions c)"
    using tracked_completionE[OF cinvD(4)[OF inv]] s own(2) accepted_phase by (metis option.inject)
  moreover have "distinct (admissions c)"
    using cinvD(4)[OF inv] by (simp add: tracked_ok_def distinct_map)
  ultimately show ?thesis
    using cinv_clear_owner[OF inv s own(1) refl refl own(3)]
    by (simp add: remove1_filter filter_neq_id)
qed

lemma cinv_clear_completion:
  assumes inv: "cinv K H {} B W c" and don: "(i, n) \<in> set (completions c)"
    and s: "fmlookup (slots c) n = Some s"
  shows "cinv K H {n} B W
    (put_slot (c\<lparr>completions := remove1 (i, n) (completions c)\<rparr>) n (s\<lparr>sl_phase := Idle\<rparr>))"
proof -
  have own: "slot_owner s = Some i" "phase_accepted (sl_phase s)"
    using tracked_completionE[OF cinvD(4)[OF inv] don] s by auto
  have "fmlookup (capacity_pending c) i = None"
  proof (rule ccontr)
    assume "fmlookup (capacity_pending c) i \<noteq> None"
    then obtain w where w: "fmlookup (capacity_pending c) i = Some w" by auto
    with tracked_slot(3)[OF inv s own(1)] have "ce_slot_name w = n" by blast
    with capacity_okE[OF cinvD(3)[OF inv] w] s own(2) accepted_phase show False
      by (metis option.inject)
  qed
  moreover have "(i, n) \<notin> set (admissions c)"
    using tracked_admissionE[OF cinvD(4)[OF inv]] s own(2) accepted_phase by (metis option.inject)
  moreover have "distinct (completions c)"
    using cinvD(4)[OF inv] by (simp add: tracked_ok_def distinct_map)
  ultimately show ?thesis
    using cinv_clear_owner[OF inv s own(1) refl refl]
    by (simp add: remove1_filter filter_neq_id)
qed

section \<open>Handlers\<close>

lemma cinv_removals [simp]: "cinv K H E B W (track_removal c i n) = cinv K H E B W c"
  by (simp add: cinv_def track_removal_def)

lemma cinv_advance:
  assumes "cinv K H {n} B W (put_slot c n s)" and "is_idle s"
  shows "cinv K H {} B W
    (let (drops, c', s') = advance_released False need_sup c s n
     in drop_pending_submissions (gc_if_idle c' n s') drops)"
proof -
  obtain drops c' s' where adv: "advance_released False need_sup c s n = (drops, c', s')"
    by (cases "advance_released False need_sup c s n") auto
  from cinv_release_slot[OF adv assms, of "{#}" "gc_if_idle c' n s'"] adv show ?thesis by simp
qed

lemma idle_phase [simp]: "is_idle (s\<lparr>sl_phase := Idle\<rparr>)"
  by (simp add: is_idle_iff)

lemma handle_registry_decision_inv:
  assumes inv: "cinv K H {} B W c" and adm: "(i, n) \<in> set (admissions c)"
  shows "cinv K H {} B W (handle_registry_decision
    (c\<lparr>admissions := remove1 (i, n) (admissions c)\<rparr>) i n decision)"
proof -
  let ?c0 = "c\<lparr>admissions := remove1 (i, n) (admissions c)\<rparr>"
  obtain s where s: "fmlookup (slots c) n = Some s" "slot_owner s = Some i"
    "phase_admitting (sl_phase s)"
    using tracked_admissionE[OF cinvD(4)[OF inv] adm] by blast
  show ?thesis
  proof (cases decision)
    case (Inl e)
    have "reject_admission s i = (True, s\<lparr>sl_phase := Idle\<rparr>)"
      using s by (simp add: reject_admission_eq)
    with Inl s cinv_advance[OF cinv_clear_admission[OF inv adm s(1)], of True] show ?thesis
      by (simp add: handle_registry_decision_def Let_def case_prod_beta)
  next
    case (Inr u)
    note ok = cinv_confirm[OF inv adm s(1)]
    show ?thesis
    proof (cases "sl_phase s")
      case (Admitting o1 t)
      then have "confirm_admission s i (clock c) = (NowRunning, s\<lparr>sl_phase := Running i (clock c)\<rparr>)"
        using s by (simp add: confirm_admission_def slot_owner_def)
      with Inr s cinv_quiet0[OF ok[of "Running i (clock c)"] quiet_publish] show ?thesis
        by (simp add: handle_registry_decision_def publish_transition_def)
    next
      case (CancelPendingAdmission o1 t)
      let ?c1 = "put_slot (track_completion ?c0 i n) n (s\<lparr>sl_phase := Terminating i t\<rparr>)"
      obtain up c2 where up: "upgrade ?c1 = (up, c2)" by (cases "upgrade ?c1") auto
      have "confirm_admission s i (clock c) = (NowRemove i, s\<lparr>sl_phase := Terminating i t\<rparr>)"
        using s CancelPendingAdmission by (simp add: confirm_admission_def slot_owner_def)
      moreover have "cinv K H {} B W c2"
        using cinv_quiet0[OF ok[of "Terminating i t"]] quiet_upgrade[OF up] by auto
      ultimately show ?thesis
        using Inr s up by (simp add: handle_registry_decision_def)
    qed (use s in simp_all)
  qed
qed

lemma quiet_completions:
  "quiet M X (c\<lparr>completions := D\<rparr>) c1 \<Longrightarrow> quiet M X c (c1\<lparr>completions := completions c\<rparr>)"
  by (simp add: quiet_def)

lemma cinv_drop_completion:
  assumes "cinv K H E B W c" and "\<not> sup_alive c"
  shows "cinv K H E B W (c\<lparr>completions := remove1 x (completions c)\<rparr>)"
proof (rule cinvI, goal_cases)
  case 4
  have "distinct (map fst (remove1 x (completions c)))"
    using cinvD(4)[OF assms(1)] unfolding tracked_ok_def
    by (simp add: distinct_map inj_on_def)
  then show ?case
    using cinvD(4)[OF assms(1)] unfolding tracked_ok_def
    by (auto dest: subsetD[OF set_remove1_subset])
next
  case 5
  show ?case using cinvD(5)[OF assms(1)] assms(2) by (simp add: progress_ok_def)
qed (use cinvD[OF assms(1)] in simp_all)

lemma handle_completion_result_inv:
  assumes inv: "cinv K H {} B W c" and don: "(i, n) \<in> set (completions c)"
  shows "cinv K H {} B W (handle_completion_result
    (c\<lparr>completions := remove1 (i, n) (completions c)\<rparr>) i n)"
proof -
  let ?g = "c\<lparr>completions := remove1 (i, n) (completions c)\<rparr>"
  obtain up c1 where up: "upgrade ?g = (up, c1)" by (cases "upgrade ?g") auto
  let ?b = "c1\<lparr>completions := completions c\<rparr>"
  have q: "quiet {#} {#} ?g c1" "up = sup_alive c1" using quiet_upgrade[OF up] by blast+
  have inv': "cinv K H {} B W ?b" using cinv_quiet0[OF inv quiet_completions[OF q(1)]] .
  have restored: "?b\<lparr>completions := remove1 (i, n) (completions ?b)\<rparr> = c1"
    using quietD(8)[OF q(1)] by simp
  show ?thesis
  proof (cases up)
    case False
    with q(2) have "\<not> sup_alive ?b" by simp
    from cinv_drop_completion[OF inv' this, of "(i, n)"] have "cinv K H {} B W c1" by (simp only: restored)
    with False up show ?thesis by (simp add: handle_completion_result_def)
  next
    case True
    have don': "(i, n) \<in> set (completions ?b)" using don by simp
    obtain s where s: "fmlookup (slots c1) n = Some s" "slot_owner s = Some i"
      "phase_accepted (sl_phase s)"
      using tracked_completionE[OF cinvD(4)[OF inv'] don'] by auto
    then have "fmlookup (slots ?b) n = Some s" by simp
    from cinv_advance[OF cinv_clear_completion[OF inv' don' this], of False]
    have "cinv K H {} B W (let (drops, c', s') = advance_released False False c1 (s\<lparr>sl_phase := Idle\<rparr>) n
        in drop_pending_submissions (gc_if_idle c' n s') drops)"
      unfolding restored by simp
    with True up s show ?thesis
      by (simp add: handle_completion_result_def complete_owner_eq Let_def case_prod_beta)
  qed
qed

lemma handle_removal_result_inv:
  "cinv K H {} B W c \<Longrightarrow> cinv K H {} B W (handle_removal_result c i n decision)"
  by (auto simp: handle_removal_result_def intro: cinv_quiet0 split: option.splits sum.splits)

section \<open>Capacity waiters\<close>

text \<open>\<open>pump_without P i P'\<close>: the pump lost its one entry for \<open>i\<close>.\<close>

definition pump_without :: "bool \<Rightarrow> capacity_pump \<Rightarrow> task_id \<Rightarrow> capacity_pump \<Rightarrow> bool" where
  "pump_without up P i P' \<longleftrightarrow>
     set (pump_ids P') = set (pump_ids P) - {i} \<and> (pump.ok P \<longrightarrow> pump.ok P')
     \<and> cp_limit P' = cp_limit P \<and> (live_ok up P \<longrightarrow> live_ok up P')"

lemma live_ok_restart: "live_ok up (pump_start_next up (P\<lparr>cp_active := None\<rparr>))"
  by (auto simp: live_ok_def pump_start_next_def split: list.splits)

lemma pump_without_next:
  assumes "pump_next up P = Some ((i, alive), P')" and "pump.ok P"
  shows "pump_without up P i P'" "i \<in> set (pump_ids P)"
proof -
  have pop: "pump_pop up P = Some (i, P')" using assms(1) by (simp add: pump_pop_def)
  note ids = pump.pop_some[OF pop] and okP = pump.ok_pop[OF assms(2) pop]
  have "live_ok up P'"
    using assms(1) by (auto simp: pump_next_def Let_def live_ok_restart split: option.splits)
  then show "pump_without up P i P'" "i \<in> set (pump_ids P)"
    using ids okP by (auto simp: pump_without_def)
qed

lemma pump_without_cancel:
  assumes "pump.ok P"
  shows "pump_without up P i (snd (pump_cancel up P i))"
proof -
  have "live_ok up (snd (pump_cancel up P i))" if "live_ok up P"
    using that live_ok_restart[of up P]
    by (auto simp: pump_cancel_def live_ok_def split: option.splits)
  then show ?thesis
    using pump.cancel_set[OF assms] pump.ok_cancel[OF assms] pump.cancel_limit
    by (auto simp: pump_without_def)
qed

definition claim_state :: "controller \<Rightarrow> task_id \<Rightarrow> capacity_pump \<Rightarrow> controller" where
  "claim_state c i P' =
     c\<lparr>capacity_pending := fmdrop i (capacity_pending c), watchers := fmdrop i (watchers c),
       pump := P'\<rparr>"

lemma claim_state_simps [simp]:
  "config (claim_state c i P) = config c" "slots (claim_state c i P) = slots c"
  "queued_slots (claim_state c i P) = queued_slots c"
  "capacity_pending (claim_state c i P) = fmdrop i (capacity_pending c)"
  "watchers (claim_state c i P) = fmdrop i (watchers c)" "pump (claim_state c i P) = P"
  "admissions (claim_state c i P) = admissions c" "completions (claim_state c i P) = completions c"
  "sup_alive (claim_state c i P) = sup_alive c" "log (claim_state c i P) = log c"
  "faults (claim_state c i P) = faults c" "stopped (claim_state c i P) = stopped c"
  by (simp_all add: claim_state_def)

text \<open>
  The claimed waiter is in hand. Its slot is either released (\<open>s'\<close> idle) or keeps the owner whose
  add command was committed and is tracked from now on.
\<close>

lemma cinv_claim:
  assumes inv: "cinv K H {} B W c" and w: "fmlookup (capacity_pending c) i = Some w"
    and s: "fmlookup (slots c) (ce_slot_name w) = Some s"
    and P': "pump_without (sup_alive c) (pump c) i P'"
    and kept: "s' = s \<and> A' = admissions c @ [(i, ce_slot_name w)]
      \<or> s' = s\<lparr>sl_phase := Idle\<rparr> \<and> A' = admissions c"
  shows "cinv K H {ce_slot_name w} (B - {#pending_key (ce_pending w)#})
      (W - opt_mset (fmlookup (watchers c) i))
      (put_slot ((claim_state c i P')\<lparr>admissions := A'\<rparr>) (ce_slot_name w) s')"
    and "pending_key (ce_pending w) \<in># B" and "opt_mset (fmlookup (watchers c) i) \<subseteq># W"
proof -
  let ?n = "ce_slot_name w" and ?k = "pending_key (ce_pending w)"
  have inv': "cinv K H {} B W (put_slot c ?n s)" using inv by (simp add: put_slot_same[OF s])
  note I = cinvD[OF inv', simplified]
  have own: "slot_owner s = Some i" "phase_admitting (sl_phase s)"
    using capacity_okE[OF cinvD(3)[OF inv] w] s by auto
  note other = owner_elsewhere[OF inv' own(1)]
  have notadm: "(i, m) \<notin> set (admissions c)" for m
    using tracked_admissionE[OF cinvD(4)[OF inv], of i m] w by (metis option.distinct(1))
  have sum: "fm_sum (\<lambda>w. {#pending_key (ce_pending w)#}) (capacity_pending c)
      = add_mset ?k (fm_sum (\<lambda>w. {#pending_key (ce_pending w)#}) (fmdrop i (capacity_pending c)))"
    using fm_sum_lookup[OF w, of "\<lambda>w. {#pending_key (ce_pending w)#}"] by simp
  have own': "slot_owner s' = Some j \<Longrightarrow> j = i" for j using kept own by auto
  have queue: "sl_queue s' = sl_queue s" "queue_keys s' = queue_keys s" using kept by auto
  show "?k \<in># B" using I(9) sum by (auto simp: held_upd)
  show "opt_mset (fmlookup (watchers c) i) \<subseteq># W"
    using I(10) fm_sum_opt[of "watchers c" i] by (auto simp: waiting_def)
  show "cinv K H {?n} (B - {#?k#}) (W - opt_mset (fmlookup (watchers c) i))
      (put_slot ((claim_state c i P')\<lparr>admissions := A'\<rparr>) ?n s')"
  proof (rule cinvI, goal_cases)
    case 1
    show ?case using I(1) queue by (simp add: index_upd)
  next
    case 2
    show ?case using I(2) own own' by (auto simp: owners_upd)
  next
    case 3
    have "fmlookup (capacity_pending c) j = Some v \<Longrightarrow> j \<noteq> i \<Longrightarrow> ce_slot_name v \<noteq> ?n" for j v
      using I(3) own by (auto simp: capacity_upd)
    then show ?case using I(3) P' by (auto simp: capacity_upd pump_without_def drop_Some)
  next
    case 4
    have "i \<notin> fst ` set (admissions c)" using notadm by auto
    moreover have "\<not> phase_accepted (sl_phase s)" using own(2) accepted_phase by blast
    ultimately show ?case using I(4)[unfolded tracked_upd] kept own notadm
      by (auto simp: tracked_upd simp del: distinct_map)
  next
    case 5
    have "\<not> phase_accepted (sl_phase s)" using own(2) accepted_phase by blast
    then show ?case using I(5) kept own other
      by (auto simp: progress_upd elim!: progress_ok_trans split: if_splits)
  next
    case 6
    show ?case using I(6) by (auto simp: watch_ok_def)
  next
    case 7
    have "hm_len (fmdrop i (capacity_pending c)) \<le> hm_len (capacity_pending c)"
      by (rule hm_len_remove_le)
    then show ?case using I(7) queue by (auto simp: limits_upd pending_len_def)
  next
    case 8
    show ?case using I(8) by (simp add: idle_upd)
  next
    case 9
    show ?case using I(9) sum queue by (auto simp: held_upd)
  next
    case 10
    show ?case using I(10) fm_sum_opt[of "watchers c" i] by (auto simp: waiting_def ac_simps)
  next
    case 12
    show ?case using I(12) P' by (simp add: pump_without_def)
  qed (use I in simp_all)
qed

lemma cinv_restore_watcher:
  assumes "cinv K H E B W (put_slot c n s)" and "fmlookup (watchers c) i = None"
  shows "cinv K (insert i H) E B (W + opt_mset d) (put_slot (restore_watcher c i d) n s)"
proof (cases d)
  case None
  with assms cinv_mono[of K H E B W "put_slot c n s" K "insert i H" E] show ?thesis
    by (auto simp: restore_watcher_def opt_mset_def)
next
  case (Some tx)
  note I = cinvD[OF assms(1), simplified]
  have eq: "put_slot (restore_watcher c i d) n s = (put_slot c n s)\<lparr>watchers := fmupd i tx (watchers c)\<rparr>"
    by (simp add: Some restore_watcher_def put_slot_watchers)
  show ?thesis unfolding eq
  proof (rule cinvI, goal_cases)
    case 6
    show ?case using I(6) by (auto simp: watch_ok_def)
  next
    case 10
    show ?case using I(10) assms(2) Some
      by (auto simp: waiting_def fm_sum_upd fm_sum_drop_absent opt_mset_def)
  qed (use I in simp_all)
qed

lemma quiet_track_admission:
  "quiet M X c c' \<Longrightarrow> quiet M X (track_admission c i n) (track_admission c' i n)"
  by (simp add: quiet_def track_admission_def)

lemma quiet_drop_decision: "quiet {#} {#} c (drop_decision decision c)"
  by (auto simp: drop_decision_def intro: quiet_port port_later_ops split: sum.splits)

lemma commit_capacity_None:
  "commit_capacity c i p done' decision = (None, c') \<Longrightarrow>
     quiet {#pending_key p#} (opt_mset done') c c'"
  using quiet_upgrade[of c] quiet_commit_reserved_None[of _ i "ps_task_name p" "ps_owned p" done' c']
  by (auto simp: commit_capacity_def pending_key_def intro: quiet_trans0
      split: sum.splits prod.splits if_splits)

lemma commit_capacity_Some:
  assumes "commit_capacity c i p done' decision = (Some u, c')"
    and "decision = Inl ShuttingDown \<longrightarrow> stopped c"
  shows "quiet {#} {#} c c'" "uc_owned u = ps_owned p" "uc_done u = done'"
    "uc_error u = ShuttingDown \<longrightarrow> stopped c'"
proof -
  obtain up c1 where up: "upgrade c = (up, c1)" by (cases "upgrade c") auto
  note q = quiet_upgrade[OF up]
  have "quiet {#} {#} c c' \<and> uc_owned u = ps_owned p \<and> uc_done u = done'
      \<and> (uc_error u = ShuttingDown \<longrightarrow> stopped c')"
  proof (cases decision)
    case (Inl e)
    with assms show ?thesis by (auto simp: commit_capacity_def)
  next
    case (Inr x)
    show ?thesis
    proof (cases up)
      case True
      with assms(1) Inr up have "commit_reserved_controller_add c1 i (ps_task_name p) (ps_owned p) done'
          = (Some u, c')"
        by (simp add: commit_capacity_def)
      from quiet_commit_reserved_Some[OF this] q show ?thesis by (blast intro: quiet_trans0)
    next
      case False
      with assms(1) Inr up have "c' = drop_decision decision c1" "uc_owned u = ps_owned p"
        "uc_done u = done'"
        by (auto simp: commit_capacity_def)
      with q False quiet_drop_decision[of c1 decision] show ?thesis
        by (metis quiet_trans0 quietD(15))
    qed
  qed
  then show "quiet {#} {#} c c'" "uc_owned u = ps_owned p" "uc_done u = done'"
    "uc_error u = ShuttingDown \<longrightarrow> stopped c'"
    by auto
qed

lemma handle_registry_capacity_result_inv:
  assumes inv: "cinv K H {} B W c"
    and nxt: "pump_next (sup_alive c) (pump c) = Some ((i, alive), P')"
    and refused: "decision = Inl ShuttingDown \<longrightarrow> stopped c"
  shows "cinv K H {} B W (handle_registry_capacity_result (c\<lparr>pump := P'\<rparr>) i decision)"
proof -
  have okP: "pump.ok (pump c)" using cinvD(3)[OF inv] by (simp add: capacity_ok_def)
  note P' = pump_without_next[OF nxt okP]
  then obtain w where w: "fmlookup (capacity_pending c) i = Some w"
    using cinvD(3)[OF inv] by (auto simp: capacity_ok_def fmlookup_dom_iff)
  let ?n = "ce_slot_name w" and ?k = "pending_key (ce_pending w)"
  let ?tx = "fmlookup (watchers c) i"
  obtain s where s: "fmlookup (slots c) ?n = Some s" "slot_owner s = Some i"
    "phase_admitting (sl_phase s)" "ps_id (ce_pending w) = i"
    "bundle_fresh (ot_cleanup (ps_owned (ce_pending w)))"
    using capacity_okE[OF cinvD(3)[OF inv] w] by blast
  let ?cl = "claim_state c i P'" and ?idle = "s\<lparr>sl_phase := Idle\<rparr>"
  have claim: "claim_capacity_pending (c\<lparr>pump := P'\<rparr>) i = (Some (w, ?tx), ?cl)"
    by (simp add: claim_capacity_pending_def w claim_state_def)
  have refused': "decision = Inl ShuttingDown \<longrightarrow> stopped ?cl" using refused by simp
  note claimed = cinv_claim[OF inv w s(1) P'(1)]
  note unf = handle_registry_capacity_result_def w s(1,2,4) claim
  obtain r c2 where commit: "commit_capacity ?cl i (ce_pending w) ?tx decision = (r, c2)"
    by (cases "commit_capacity ?cl i (ce_pending w) ?tx decision") auto
  show ?thesis
  proof (cases r)
    case None
    have "cinv K H {?n} (B - {#?k#}) (W - opt_mset ?tx) (put_slot (track_admission ?cl i ?n) ?n s)"
      using claimed(1)[of s "admissions c @ [(i, ?n)]"] by (simp add: track_admission_def)
    from cinv_quiet[OF cinv_busy[OF this accepted_not_idle] 
        quiet_put_slot[OF quiet_track_admission[OF commit_capacity_None[OF commit[unfolded None]]]]]
    have "cinv K H {} B W (put_slot (track_admission c2 i ?n) ?n s)"
      using s(3) claimed(2,3)[of ?idle "admissions c"] by simp
    moreover have "put_slot (track_admission c2 i ?n) ?n s = track_admission c2 i ?n"
      using s(1) quietD(2)[OF commit_capacity_None[OF commit[unfolded None]]]
      by (intro put_slot_same) simp
    ultimately show ?thesis using commit None by (simp add: unf)
  next
    case (Some u)
    note un = commit_capacity_Some[OF commit[unfolded Some] refused']
    define kr where "kr = (if uc_error u = ShuttingDown
        then (ControllerShuttingDown, controller_shutting_down_text)
        else (rejection_kind_for_runtime_error (uc_error u),
              [Lit ''add_failed: '', ErrArg (uc_error u)]))"
    let ?c3 = "publish (rejected_event (Some ?n) i (fst kr) (snd kr)) (restore_watcher c2 i ?tx)"
    obtain t c4 where fin: "finalize_rejected ?c3 i (fst kr) (snd kr) = (t, c4)"
      by (cases "finalize_rejected ?c3 i (fst kr) (snd kr)") auto
    let ?down = "uc_error u = ShuttingDown"
    obtain drops c5 s5 where adv: "advance_released ?down True c4 ?idle ?n = (drops, c5, s5)"
      by (cases "advance_released ?down True c4 ?idle ?n") auto
    have "cinv K H {?n} (B - {#?k#}) (W - opt_mset ?tx) (put_slot ?cl ?n ?idle)"
      using claimed(1)[of ?idle "admissions c"] by (simp add: claim_state_def)
    then have "cinv K H {?n} (B - {#?k#}) (W - opt_mset ?tx) (put_slot c2 ?n ?idle)"
      using cinv_quiet0 quiet_put_slot un(1) by blast
    moreover have "fmlookup (watchers c2) i = None" using quietD(5)[OF un(1)] by simp
    ultimately have "cinv K (insert i H) {?n} (B - {#?k#}) W
        (put_slot (restore_watcher c2 i ?tx) ?n ?idle)"
      using cinv_restore_watcher[of K H "{?n}" _ "W - opt_mset ?tx" c2 ?n ?idle i ?tx]
        claimed(3)[of ?idle "admissions c"] by simp
    from cinv_finalize_rejected[OF cinv_quiet0[OF this quiet_put_slot[OF quiet_publish]] fin]
    have inv4: "cinv K H {?n} (B - {#?k#}) W (put_slot c4 ?n ?idle)"
      by (rule cinv_mono) auto
    have stop: "?down \<longrightarrow> stopped c4"
      using un(4) finalize_rejected_quiet[OF fin] quietD(15)
      by (auto simp: stopped_def quiet_def publish_def restore_watcher_def split: option.splits)
    let ?u = "u\<lparr>uc_done := None\<rparr>"
    have "failure_ok ?u" "failure_key ?u = ?k"
      using un(2) s(5) by (simp_all add: failure_ok_def failure_key_def pending_key_def)
    then have "quiet {#?k#} {#} (gc_if_idle c5 ?n s5) (drop_start_failure (gc_if_idle c5 ?n s5) ?u t)"
      using quiet_drop_start_failure by metis
    from cinv_release_slot[OF adv inv4 idle_phase stop this] claimed(2)[of ?idle "admissions c"]
    have "cinv K H {} B W
        (drop_pending_submissions (drop_start_failure (gc_if_idle c5 ?n s5) ?u t) drops)"
      by simp
    moreover have "reject_admission s i = (True, ?idle)"
      using s(2,3) by (simp add: reject_admission_eq)
    ultimately show ?thesis
      using commit Some un(3) fin adv by (simp add: unf Let_def kr_def split: if_splits)
  qed
qed

end
