(* ===== verification/Controller_Submission.thy ===== *)
theory Controller_Submission
  imports Controller_Results
begin

text \<open>
  The handlers of client commands preserve the invariant: a new submission through preflight,
  guard and policy placement, and an identity operation that claims queued or waiting work.
\<close>

section \<open>Queue updates on a locked slot\<close>

lemma index_queued_fresh:
  "fmlookup (queued_slots c) i = None \<Longrightarrow>
     index_queued c i n = c\<lparr>queued_slots := fmupd i n (queued_slots c)\<rparr>"
  by (simp add: index_queued_def Let_def)

lemma owners_enqueue:
  assumes "owners_ok K S Q" and "i \<in> K"
    and "\<And>m t. fmlookup S m = Some t \<Longrightarrow> slot_owner t \<noteq> Some i"
  shows "owners_ok K S (fmupd i n Q)"
  using assms unfolding owners_ok_def fmupd_lookup by metis

text \<open>A submission in hand enters the queue of a slot; the position does not matter here.\<close>

lemma cinv_enqueue:
  assumes inv: "cinv K (insert i H) {n} B W (put_slot c n s)"
    and fresh: "fresh_id (put_slot c n s) i" and p: "ps_id p = i" "i \<in> K"
      "bundle_fresh (ot_cleanup (ps_owned p))"
    and s: "sl_queue s = xs @ ys"
    and len: "Suc (length (sl_queue s)) \<le> max 1 (cc_max_slot_queue (config c))"
    and room: "\<And>limit. cc_max_total_pending (config c) = Some limit \<Longrightarrow> pending_len c < limit"
  shows "cinv K H {n} (B + {#pending_key p#}) W
    (put_slot (index_queued c i n) n (s\<lparr>sl_queue := xs @ p # ys\<rparr>))"
proof -
  note I = cinvD[OF inv, simplified]
  let ?s = "s\<lparr>sl_queue := xs @ p # ys\<rparr>"
  have own: "slot_owner ?s = slot_owner s" "is_idle ?s = is_idle s"
    by (simp_all add: slot_owner_def is_idle_def)
  have Qi: "fmlookup (queued_slots c) i = None" using fresh by (simp add: fresh_upd)
  have notin: "i \<notin> ps_id ` set (sl_queue s)"
    "\<And>m t. m \<noteq> n \<Longrightarrow> fmlookup (slots c) m = Some t \<Longrightarrow> i \<notin> ps_id ` set (sl_queue t)"
    using I(1) Qi unfolding index_upd by (metis option.distinct(1))+
  show ?thesis unfolding index_queued_fresh[OF Qi]
  proof (rule cinvI, goal_cases)
    case 1
    show ?case using I(1) notin p s by (auto simp: index_upd)
  next
    case 2
    have "owners_ok K (fmdrop n (slots c)) (fmupd i n (queued_slots c))"
      using I(2) fresh p(2) by (intro owners_enqueue) (auto simp: owners_upd fresh_upd split: if_splits)
    then show ?case using I(2) fresh by (simp add: owners_upd own fresh_upd)
  next
    case 3
    show ?case using I(3) by (simp add: capacity_upd own)
  next
    case 4
    show ?case using I(4) by (simp add: tracked_upd own)
  next
    case 5
    show ?case using I(5) by (simp add: progress_upd own)
  next
    case 6
    show ?case using I(6) by (auto simp: watch_ok_def)
  next
    case 7
    show ?case using I(7) len s room Qi
      by (auto simp: limits_upd pending_len_def map_len_simps Suc_le_eq)
  next
    case 8
    show ?case using I(8) by (simp add: idle_upd)
  next
    case 9
    show ?case using I(9) s by (auto simp: held_upd queue_keys_def)
  qed (use I in simp_all)
qed

text \<open>A phase change that keeps the owner and its stage.\<close>

lemma cinv_rephase:
  assumes inv: "cinv K H E B W (put_slot c n s)" and p': "phase_owner p' = slot_owner s"
    "phase_admitting p' = phase_admitting (sl_phase s)" "phase_accepted p' = phase_accepted (sl_phase s)"
  shows "cinv K H E B W (put_slot c n (s\<lparr>sl_phase := p'\<rparr>))"
proof -
  note I = cinvD[OF inv, simplified]
  have idle: "is_idle (s\<lparr>sl_phase := p'\<rparr>) = is_idle s" using p' by (simp add: is_idle_owner)
  show ?thesis
  proof (rule cinvI, goal_cases)
    case 2
    show ?case using I(2) p' by (simp add: owners_upd)
  next
    case 3
    show ?case using I(3) p' by (simp add: capacity_upd)
  next
    case 4
    show ?case using I(4) p' by (simp add: tracked_upd)
  next
    case 5
    show ?case using I(5) p' by (simp add: progress_upd)
  next
    case 8
    show ?case using I(8) idle by (simp add: idle_upd)
  next
    case 9
    show ?case using I(9) by (simp add: held_upd)
  qed (use I(1,6,7,10-12) in \<open>simp_all add: index_ok_phase limits_ok_phase\<close>)
qed

section \<open>The submission guard\<close>

lemma guard_drop_done: "aw_state w = GuardCommitted \<Longrightarrow> guard_drop c w = c"
  by (simp add: guard_drop_def)

lemma quiet_reject_and_drop:
  assumes "bundle_fresh (ot_cleanup owned)"
  shows "quiet {#bundle_key (ot_cleanup owned)#} (opt_mset done') c
    (reject_and_drop c (watcher_new i owned done' t) kind r)"
proof -
  let ?c1 = "publish (rejected_event t i kind r) c"
  obtain u c2 where u: "send_rejected ?c1 done' kind r = (u, c2)"
    by (cases "send_rejected ?c1 done' kind r") auto
  have q2: "quiet {#} (opt_mset done') c c2"
    using quiet_trans0[OF quiet_publish] quiet_send_rejected[OF u] by blast
  have "reject_and_drop c (watcher_new i owned done' t) kind r = dispose_bundle c2 (ot_cleanup owned) u"
    using u by (auto simp: reject_and_drop_def reject_with_event_def watcher_new_def guard_reject_def
        dispose_owned_def guard_drop_def send_rejected_def split: option.splits prod.splits)
  with quiet_trans[OF q2 quiet_dispose_bundle[of u "ot_cleanup owned" c2]] assms show ?thesis
    by simp
qed

text \<open>A parked guard without local ownership: rejection resolves the parked sender.\<close>

definition parked :: "admission_watcher \<Rightarrow> task_id \<Rightarrow> bool" where
  "parked w i \<longleftrightarrow> aw_state w = Parked \<and> aw_owned w = None \<and> aw_id w = i"

lemma reject_parked:
  assumes w: "parked w i" and rej: "reject_with_event c w kind r = (t, c', w')"
    and inv: "cinv K (insert i H) E B W (put_slot c n s)"
  shows "cinv K H E B W (put_slot c' n s)" "aw_state w' = GuardCommitted"
    "stopped c \<Longrightarrow> stopped c'" "slots c' = slots c"
proof -
  let ?c1 = "publish (rejected_event (aw_event_task w) i kind r) c"
  have fin: "finalize_rejected ?c1 i kind r = (t, c')" and w': "w' = w\<lparr>aw_state := GuardCommitted\<rparr>"
    using w rej by (auto simp: parked_def reject_with_event_def guard_reject_def
        split: prod.splits)
  from cinv_finalize_rejected[OF cinv_quiet0[OF inv quiet_put_slot[OF quiet_publish]] fin]
  show "cinv K H E B W (put_slot c' n s)" by (rule cinv_mono) auto
  show "aw_state w' = GuardCommitted" by (simp add: w')
  show "slots c' = slots c"
    using quietD(2) finalize_rejected_quiet[OF fin] by (fastforce simp: publish_def)
  assume "stopped c"
  then show "stopped c'"
    using quietD(15)[OF conjunct1[OF finalize_rejected_quiet[OF fin]]]
    by (simp add: publish_def)
qed

lemma guard_commit_parked:
  "parked w i \<Longrightarrow> guard_commit c w = (c, w\<lparr>aw_state := GuardCommitted\<rparr>)"
  by (simp add: guard_commit_def parked_def)

section \<open>Placement\<close>

text \<open>What a placement promises about the locked slot, the guard and the accounts.\<close>

definition placed ::
  "task_id set \<Rightarrow> task_id set \<Rightarrow> name \<Rightarrow> drop_bundle multiset \<Rightarrow> outcome_tx multiset \<Rightarrow> task_id
     \<Rightarrow> pending_submission \<Rightarrow> placement_outcome \<times> controller \<times> slot_state \<times> admission_watcher \<Rightarrow> bool"
  where
  "placed K H n B W i p r \<longleftrightarrow>
     (case r of
        (Accepted d, c, s, w) \<Rightarrow>
          \<not> is_idle s \<and> aw_state w = GuardCommitted
          \<and> (\<exists>M. M = opt_mset (map_option pending_key d)
               \<and> cinv K H {n} (B + {#pending_key p#} - M) W (put_slot c n s) \<and> M \<subseteq># B + {#pending_key p#})
      | (RejectedPlacement p' kind reason, c, s, w) \<Rightarrow>
          p' = p \<and> \<not> is_idle s \<and> parked w i \<and> cinv K (insert i H) {n} B W (put_slot c n s)
      | (HandoffFailed u kind reason, c, s, w) \<Rightarrow>
          failure_ok u \<and> failure_key u = pending_key p \<and> parked w i
          \<and> cinv K (insert i H) {n} B W (put_slot c n s)
          \<and> (is_idle s \<longrightarrow> sl_queue s = [] \<or> stopped c))"

lemma placed_admit_idle:
  assumes inv: "cinv K (insert i H) {n} B W (put_slot c n s)"
    and fresh: "fresh_id (put_slot c n s) i" and p: "i = ps_id p" "i \<in> K"
      "bundle_fresh (ot_cleanup (ps_owned p))"
    and idle: "is_idle s" "sl_queue s = [] \<or> stopped c" and w: "parked w i"
  shows "placed K H n B W i p (admit_idle c s n p a w)"
proof -
  obtain r c' s' where st: "start_in_slot c s n p = (r, c', s')"
    by (cases "start_in_slot c s n p") auto
  show ?thesis
  proof (cases r)
    case None
    note done' = start_in_slot_None[OF inv fresh idle(1) p st[unfolded None]]
    have "cinv K H {n} (B + {#pending_key p#}) W
        (put_slot (publish_submitted n (ps_id p) (admission_reason a) c') n s')"
      unfolding publish_submitted_def
      by (rule cinv_quiet0[OF done'(1) quiet_put_slot[OF quiet_publish]])
    then show ?thesis
      using done'(2) by (simp add: admit_idle_def st None guard_commit_parked[OF w] placed_def opt_mset_def)
  next
    case (Some u)
    note fl = start_in_slot_Some[OF inv fresh idle(1) p(1,3) st[unfolded Some]]
    then show ?thesis
      using cinv_quiet0[OF inv quiet_put_slot[OF fl(1)]] idle(2) quietD(15)[OF fl(1)] w
      by (auto simp: admit_idle_def st Some placed_def)
  qed
qed

text \<open>The owner half of a replacement keeps the owner.\<close>

lemma retire_owner_inv:
  assumes inv: "cinv K H E B W (put_slot c n s)" and "\<not> is_idle s"
    and ret: "retire_owner c s n (sl_phase s) = (r, c', s')"
  shows "cinv K H E B W (put_slot c' n s')" "\<not> is_idle s'"
proof -
  have "cinv K H E B W (put_slot c' n s') \<and> \<not> is_idle s'"
  proof (cases "sl_phase s")
    case (Admitting o1 t)
    have "cinv K H E B W (put_slot c n (s\<lparr>sl_phase := CancelPendingAdmission o1 (clock c)\<rparr>))"
      using Admitting by (intro cinv_rephase[OF inv]) (simp_all add: slot_owner_def)
    from cinv_quiet0[OF this quiet_put_slot[OF quiet_publish]] ret show ?thesis
      by (auto simp: retire_owner_def Admitting request_replacement_def publish_transition_def is_idle_iff)
  next
    case (Running o1 t)
    have "cinv K H E B W (track_removal (put_slot c n (s\<lparr>sl_phase := Terminating o1 (clock c)\<rparr>)) o1 n)"
      using Running by (simp, intro cinv_rephase[OF inv]) (simp_all add: slot_owner_def)
    moreover have "track_removal (put_slot c n x) o1 n = put_slot (track_removal c o1 n) n x" for x
      by (simp add: track_removal_def put_slot_def)
    ultimately show ?thesis
      using ret cinv_quiet0[OF _ quiet_put_slot[OF quiet_publish]]
      by (auto simp: retire_owner_def Running request_replacement_def publish_transition_def is_idle_iff)
  qed (use assms in \<open>auto simp: retire_owner_def is_idle_iff\<close>)
  then show "cinv K H E B W (put_slot c' n s')" "\<not> is_idle s'" by auto
qed

lemma pending_limit_hit_None:
  "pending_limit_hit c = None \<Longrightarrow> cc_max_total_pending (config c) = Some limit \<Longrightarrow> pending_len c < limit"
  by (auto simp: pending_limit_hit_def split: if_splits)

lemma placed_queue:
  assumes inv: "cinv K (insert i H) {n} B W (put_slot c n s)"
    and fresh: "fresh_id (put_slot c n s) i" and p: "i = ps_id p" "i \<in> K"
      "bundle_fresh (ot_cleanup (ps_owned p))"
    and busy: "\<not> is_idle s" and w: "parked w i"
  shows "placed K H n B W i p (place_queue c s n p w)"
proof (cases "queue_full_reason c (length (sl_queue s)) = None \<and> pending_limit_hit c = None")
  case False
  then show ?thesis
    using inv busy w
    by (auto simp: place_queue_def placed_def try_push_queued_def split: option.splits)
next
  case True
  then have len: "Suc (length (sl_queue s)) \<le> max 1 (cc_max_slot_queue (config c))"
    by (auto simp: queue_full_reason_def split: if_splits)
  have "cinv K H {n} (B + {#pending_key p#}) W
      (put_slot (index_queued c i n) n (s\<lparr>sl_queue := sl_queue s @ [p]\<rparr>))"
    using True pending_limit_hit_None
    by (intro cinv_enqueue[OF inv fresh p(1)[symmetric] p(2,3) _ len]) auto
  from cinv_quiet0[OF this quiet_put_slot[OF quiet_publish]] True busy p(1) show ?thesis
    by (simp add: place_queue_def try_push_queued_def placed_def guard_commit_parked[OF w]
        publish_submitted_def opt_mset_def is_idle_iff)
qed

lemma opt_mset_map: "opt_mset (map_option f x) = image_mset f (opt_mset x)"
  by (cases x) (simp_all add: opt_mset_def)

text \<open>\<open>try_replace_head_or_push\<close>: only the head can be displaced.\<close>

lemma replace_head_inv:
  assumes inv: "cinv K (insert i H) {n} B W (put_slot c n s)"
    and fresh: "fresh_id (put_slot c n s) i" and p: "i = ps_id p" "i \<in> K"
      "bundle_fresh (ot_cleanup (ps_owned p))"
    and s: "sl_queue s = h # rest" and rep: "replace_head_or_push c s n p = (d, c', s')"
  shows "s' = s\<lparr>sl_queue := p # rest\<rparr>"
    "\<exists>d'. d = Some d' \<and> pending_key d' = pending_key h" "pending_key h \<in># B"
    "cinv K H {n} (B + {#pending_key p#} - {#pending_key h#}) W (put_slot c' n s')"
proof -
  note un = cinv_unqueue[OF inv, of "[]" h rest, simplified, OF s]
  let ?c1 = "unindex_queued c (ps_id h)" and ?s1 = "s\<lparr>sl_queue := rest\<rparr>"
  let ?c2 = "index_queued ?c1 i n" and ?s2 = "s\<lparr>sl_queue := p # rest\<rparr>"
  let ?c3 = "publish (rejected_event (Some n) (ps_id h) SupersededByReplace superseded_by_replace_text) ?c2"
  obtain t c4 where fin: "finalize_rejected ?c3 (ps_id h) SupersededByReplace superseded_by_replace_text
      = (t, c4)"
    by (cases "finalize_rejected ?c3 (ps_id h) SupersededByReplace superseded_by_replace_text") auto
  have Qh: "fmlookup (queued_slots c) (ps_id h) = Some n"
    using cinvD(1)[OF inv] s by (simp add: index_upd)
  have fresh1: "fresh_id (put_slot ?c1 n ?s1) i"
    using fresh by (simp add: fresh_upd unindex_queued_def slot_owner_def)
  have "cinv K (insert i (insert (ps_id h) H)) {n} (B - {#pending_key h#}) W (put_slot ?c1 n ?s1)"
    using un(1) by (simp add: insert_commute)
  moreover have "pending_len ?c1 < limit" if "cc_max_total_pending (config ?c1) = Some limit" for limit
    using cinvD(7)[OF inv] that hm_len_remove_present[OF Qh]
    by (auto simp: limits_ok_def pending_len_def unindex_queued_def)
  moreover have "Suc (length (sl_queue ?s1)) \<le> max 1 (cc_max_slot_queue (config ?c1))"
    using cinvD(7)[OF inv] s by (simp add: limits_upd unindex_queued_def)
  ultimately have "cinv K (insert (ps_id h) H) {n} (B - {#pending_key h#} + {#pending_key p#}) W
      (put_slot ?c2 n ?s2)"
    using cinv_enqueue[OF _ fresh1 p(1)[symmetric] p(2,3), of _ _ _ "[]" rest] by simp
  from cinv_finalize_rejected[OF cinv_quiet0[OF this quiet_put_slot[OF quiet_publish]] fin]
  have inv4: "cinv K H {n} (B - {#pending_key h#} + {#pending_key p#}) W (put_slot c4 n ?s2)"
    by (rule cinv_mono) auto
  have eq: "d = Some (case t of None \<Rightarrow> h | Some o' \<Rightarrow>
        h\<lparr>ps_owned := (ps_owned h)\<lparr>ot_cleanup := attach_outcome (ot_cleanup (ps_owned h)) o'\<rparr>\<rparr>)"
    "c' = c4" "s' = ?s2"
    using rep fin s p(1) by (auto simp: replace_head_or_push_def Let_def)
  show "s' = s\<lparr>sl_queue := p # rest\<rparr>" by (fact eq(3))
  show "\<exists>d'. d = Some d' \<and> pending_key d' = pending_key h"
    using eq(1) bundle_key_attach[OF un(5)] by (auto simp: pending_key_def split: option.splits)
  show "pending_key h \<in># B" by (fact un(2))
  then have "B + {#pending_key p#} - {#pending_key h#} = B - {#pending_key h#} + {#pending_key p#}"
    by simp
  then show "cinv K H {n} (B + {#pending_key p#} - {#pending_key h#}) W (put_slot c' n s')"
    using inv4 eq(2,3) by simp
qed

lemma placed_replace:
  assumes inv: "cinv K (insert i H) {n} B W (put_slot c n s)"
    and fresh: "fresh_id (put_slot c n s) i" and p: "i = ps_id p" "i \<in> K"
      "bundle_fresh (ot_cleanup (ps_owned p))"
    and busy: "\<not> is_idle s" and w: "parked w i"
  shows "placed K H n B W i p (place_replace c s n p (sl_phase s) w)"
proof -
  have accepted: "placed K H n B W i p
      (Accepted d, publish_submitted n (ps_id p) r c2, s2, w\<lparr>aw_state := GuardCommitted\<rparr>)"
    if "cinv K H {n} (B + {#pending_key p#} - M) W (put_slot c1 n s1)" "sl_phase s1 = sl_phase s"
      "M = opt_mset (map_option pending_key d)" "M \<subseteq># B + {#pending_key p#}"
      "retire_owner c1 s1 n (sl_phase s) = (r, c2, s2)" for d r c1 s1 c2 s2 M
  proof -
    have busy1: "\<not> is_idle s1" using busy that(2) by (simp add: is_idle_iff)
    note ret = retire_owner_inv[OF that(1) busy1 that(5)[folded that(2)]]
    from cinv_quiet0[OF ret(1) quiet_put_slot[OF quiet_publish]] ret(2) that(3,4) show ?thesis
      by (simp add: placed_def publish_submitted_def)
  qed
  show ?thesis
  proof (cases "sl_queue s")
    case Nil
    show ?thesis
    proof (cases "pending_limit_hit c")
      case (Some limit)
      then show ?thesis
        using inv busy w Nil by (simp add: place_replace_def try_replace_head_or_push_def placed_def)
    next
      case None
      let ?c1 = "index_queued c (ps_id p) n" and ?s1 = "s\<lparr>sl_queue := [p]\<rparr>"
      have inv1: "cinv K H {n} (B + {#pending_key p#} - {#}) W (put_slot ?c1 n ?s1)"
        using None Nil pending_limit_hit_None p(1)
          cinv_enqueue[OF inv fresh p(1)[symmetric] p(2,3), of "[]" "[]"] by simp
      obtain r c2 s2 where ret: "retire_owner ?c1 ?s1 n (sl_phase s) = (r, c2, s2)"
        by (cases "retire_owner ?c1 ?s1 n (sl_phase s)") auto
      from accepted[OF inv1 _ _ _ ret, of None] None Nil ret show ?thesis
        by (simp add: place_replace_def try_replace_head_or_push_def guard_commit_parked[OF w]
            opt_mset_def)
    qed
  next
    case (Cons h rest)
    obtain d c1 s1 where rep: "replace_head_or_push c s n p = (d, c1, s1)"
      by (cases "replace_head_or_push c s n p") auto
    note head = replace_head_inv[OF inv fresh p Cons rep]
    obtain r c2 s2 where ret: "retire_owner c1 s1 n (sl_phase s) = (r, c2, s2)"
      by (cases "retire_owner c1 s1 n (sl_phase s)") auto
    have "opt_mset (map_option pending_key d) = {#pending_key h#}"
      using head(2) by (auto simp: opt_mset_def)
    with accepted[OF head(4) _ _ _ ret, of d] head(1,3) Cons rep ret show ?thesis
      by (simp add: place_replace_def try_replace_head_or_push_def guard_commit_parked[OF w])
  qed
qed

lemma placed_apply:
  assumes inv: "cinv K (insert i H) {n} B W (put_slot c n s)"
    and fresh: "fresh_id (put_slot c n s) i" and p: "i = ps_id p" "i \<in> K"
      "bundle_fresh (ot_cleanup (ps_owned p))"
    and idle: "is_idle s \<longrightarrow> sl_queue s = [] \<or> stopped c" and w: "parked w i"
  shows "placed K H n B W i p (placement_apply c s n p a w)"
proof (cases "is_idle s")
  case True
  with placed_admit_idle[OF inv fresh p True _ w] idle show ?thesis
    by (simp add: placement_apply_def is_idle_iff)
next
  case False
  with placed_replace[OF inv fresh p False w] placed_queue[OF inv fresh p False w] inv w show ?thesis
    by (cases a) (simp_all add: placement_apply_def is_idle_iff placed_def)
qed

lemma cinv_finish_placement:
  assumes inv: "cinv K {i} {n} B W (put_slot c n s)"
    and fresh: "fresh_id (put_slot c n s) i" and p: "i = ps_id p" "i \<in> K"
      "bundle_fresh (ot_cleanup (ps_owned p))"
    and idle: "is_idle s \<longrightarrow> sl_queue s = [] \<or> stopped c" and w: "parked w i"
  shows "cinv K {} {} (B + {#pending_key p#}) W (finish_placement c s n p a w)"
proof -
  obtain o1 c1 s1 w1 where app: "placement_apply c s n p a w = (o1, c1, s1, w1)"
    by (cases "placement_apply c s n p a w") auto
  have pl: "placed K {} n B W i p (o1, c1, s1, w1)"
    using placed_apply[where H = "{}" and a = a, OF inv fresh p idle w] app by simp
  show ?thesis
  proof (cases o1)
    case (Accepted d)
    let ?M = "opt_mset (map_option pending_key d)"
    from pl Accepted have busy: "\<not> is_idle s1" and gc: "aw_state w1 = GuardCommitted"
      and inv1: "cinv K {} {n} (B + {#pending_key p#} - ?M) W (put_slot c1 n s1)"
      and M: "?M \<subseteq># B + {#pending_key p#}"
      by (auto simp: placed_def)
    have "quiet ?M {#} (put_slot c1 n s1) (case d of None \<Rightarrow> put_slot c1 n s1
        | Some d \<Rightarrow> drop_pending_submission (put_slot c1 n s1) d None)"
      by (auto simp: opt_mset_def quiet_drop_pending_submission split: option.splits)
    from cinv_quiet[OF cinv_busy[OF inv1 busy] this] M show ?thesis
      by (simp add: finish_placement_def app Accepted guard_drop_done[OF gc] Let_def)
  next
    case (RejectedPlacement p' kind r)
    then have pl': "p' = p" "\<not> is_idle s1" "parked w1 i" "cinv K (insert i {}) {n} B W (put_slot c1 n s1)"
      using pl by (simp_all add: placed_def)
    obtain t c2 w2 where rej: "reject_with_event c1 w1 kind r = (t, c2, w2)"
      by (cases "reject_with_event c1 w1 kind r") auto
    note rp = reject_parked[OF pl'(3) rej pl'(4)]
    from cinv_quiet[OF cinv_busy[OF rp(1) pl'(2)] quiet_drop_pending_submission] p(3) show ?thesis
      by (simp add: finish_placement_def app RejectedPlacement rej pl'(1) guard_drop_done[OF rp(2)])
  next
    case (HandoffFailed u kind r)
    then have pl': "failure_ok u" "failure_key u = pending_key p" "parked w1 i"
      "cinv K (insert i {}) {n} B W (put_slot c1 n s1)" "is_idle s1 \<longrightarrow> sl_queue s1 = [] \<or> stopped c1"
      using pl by (simp_all add: placed_def)
    obtain t c2 w2 where rej: "reject_with_event c1 w1 kind r = (t, c2, w2)"
      by (cases "reject_with_event c1 w1 kind r") auto
    note rp = reject_parked[OF pl'(3) rej pl'(4)]
    have "is_idle s1 \<longrightarrow> sl_queue s1 = [] \<or> stopped c2" using pl'(5) rp(3) by blast
    from cinv_quiet[OF cinv_gc_if_idle[OF rp(1) this] quiet_drop_start_failure[OF pl'(1)]]
    show ?thesis
      by (simp add: finish_placement_def app HandoffFailed rej pl'(2) guard_drop_done[OF rp(2)])
  qed
qed

section \<open>A new submission\<close>

lemma cinv_get_or_create:
  assumes inv: "cinv K H {} B W c" and get: "try_get_or_create_slot c n = (Inr s, c')"
  shows "cinv K H {n} B W c'" "put_slot c' n s = c'" "fresh_id c' i = fresh_id c i"
    "is_idle s \<longrightarrow> sl_queue s = [] \<or> stopped c'"
proof -
  have "cinv K H {n} B W c' \<and> put_slot c' n s = c' \<and> (fresh_id c' i = fresh_id c i)
      \<and> (is_idle s \<longrightarrow> sl_queue s = [] \<or> stopped c')"
  proof (cases "fmlookup (slots c) n")
    case (Some t)
    with get have "c' = c" "s = t" by (simp_all add: try_get_or_create_slot_def)
    then show ?thesis
      using Some put_slot_same cinv_mono[OF inv subset_refl subset_refl, of "{n}"] cinvD(8)[OF inv]
      by (auto simp: idle_ok_def)
  next
    case None
    with get have c': "c' = put_slot c n slot_new" and s: "s = slot_new"
      and lim: "\<And>limit. cc_max_controller_slots (config c) = Some limit \<Longrightarrow> hm_len (slots c) < limit"
      by (auto simp: try_get_or_create_slot_def put_slot_def split: option.splits if_splits)
    have new: "slot_owner slot_new = None" "is_idle slot_new" "sl_queue slot_new = []"
      "sl_phase slot_new = Idle"
      by (simp_all add: slot_new_def slot_owner_def is_idle_def)
    have drop: "fmdrop n (slots c) = slots c" using None by (simp add: fmdrop_idle fmdom_notI)
    note I = cinvD[OF inv]
    have "cinv K H {n} B W c'" unfolding c'
    proof (rule cinvI, goal_cases)
      case 1
      have "fmlookup (queued_slots c) j \<noteq> Some n" for j
        using I(1) None unfolding index_ok_def by auto
      then show ?case using I(1) new unfolding index_ok_def by (auto simp: None split: if_splits)
    next
      case 3
      show ?case using I(3) None new by (fastforce simp: capacity_ok_def)
    next
      case 4
      show ?case using I(4) None unfolding tracked_ok_def put_slot_simps upd_Some
        by (metis option.distinct(1))
    next
      case 7
      show ?case using I(7) lim new None
        by (auto simp: limits_ok_def hm_len_insert_fresh Suc_le_eq split: if_splits)
    next
      case 8
      show ?case using I(8) by (auto simp: idle_upd drop intro: idle_ok_mono)
    next
      case 9
      show ?case using I(9) new by (simp add: held_def fm_sum_upd drop queue_keys_def)
    qed (use I new in \<open>simp_all add: owners_upd progress_upd drop\<close>)
    moreover have "fresh_id c' i = fresh_id c i"
      unfolding c' fresh_id_def put_slot_simps upd_Some using new(1) None
      by (metis option.distinct(1))
    ultimately show ?thesis using new by (simp add: c' s)
  qed
  then show "cinv K H {n} B W c'" "put_slot c' n s = c'" "fresh_id c' i = fresh_id c i"
    "is_idle s \<longrightarrow> sl_queue s = [] \<or> stopped c'" by auto
qed

lemma cinv_place_pending:
  assumes inv: "cinv K {i} {} B W c" and fresh: "fresh_id c i"
    and p: "i = ps_id p" "i \<in> K" "bundle_fresh (ot_cleanup (ps_owned p))" and w: "parked w i"
  shows "cinv K {} {} (B + {#pending_key p#}) W (place_pending c n p a w)"
proof -
  obtain g c1 where get: "try_get_or_create_slot c n = (g, c1)"
    by (cases "try_get_or_create_slot c n") auto
  show ?thesis
  proof (cases g)
    case (Inl limit)
    let ?r = "[Lit controller_slot_limit_text, Lit '': '', NatArg limit]"
    from get Inl have c1: "c1 = c" and none: "fmlookup (slots c) n = None"
      by (auto simp: try_get_or_create_slot_def split: option.splits if_splits)
    let ?e = "rejected_event (aw_event_task w) i ResourceLimit ?r"
    obtain t c2 where fin: "finalize_rejected (publish ?e c) i ResourceLimit ?r = (t, c2)"
      by (cases "finalize_rejected (publish ?e c) i ResourceLimit ?r") auto
    have rej: "reject_with_event c w ResourceLimit ?r = (t, c2, w\<lparr>aw_state := GuardCommitted\<rparr>)"
      using w fin by (simp add: parked_def reject_with_event_def guard_reject_def)
    have "cinv K ({i} - {i}) {} (B + {#}) W c2"
      using cinv_resolve_watcher[OF cinv_quiet0[OF inv quiet_publish[of _ ?e]]]
        finalize_rejected_quiet[OF fin] by blast
    from cinv_quiet[OF this quiet_drop_pending_submission] p(3) show ?thesis
      by (simp add: place_pending_def get Inl c1 rej guard_drop_done)
  next
    case (Inr s)
    note slot = cinv_get_or_create[OF inv get[unfolded Inr]]
    obtain down c2 where d: "is_shutting_down c1 = (down, c2)" by (cases "is_shutting_down c1") auto
    note q = quiet_is_shutting_down[OF d]
    have inv2: "cinv K {i} {n} B W (put_slot c2 n s)"
      using cinv_quiet0[of K "{i}" "{n}" B W "put_slot c1 n s"] slot(1,2) quiet_put_slot q by metis
    have fresh2: "fresh_id (put_slot c2 n s) i"
      using fresh slot(2) slot(3)[of i] fresh_id_quiet[OF quiet_put_slot[OF conjunct1[OF q]]] by metis
    show ?thesis
    proof (cases down)
      case False
      have "is_idle s \<longrightarrow> sl_queue s = [] \<or> stopped c2"
        using slot(4) quietD(15)[OF conjunct1[OF q]] by blast
      from cinv_finish_placement[OF inv2 fresh2 p this w] False show ?thesis
        by (simp add: place_pending_def get Inr d)
    next
      case True
      obtain t c3 w3 where rej: "reject_with_event c2 w ControllerShuttingDown
          controller_shutting_down_text = (t, c3, w3)"
        by (cases "reject_with_event c2 w ControllerShuttingDown controller_shutting_down_text") auto
      have "cinv K (insert i {}) {n} B W (put_slot c2 n s)" using inv2 by simp
      note rp = reject_parked[OF w rej this]
      have "is_idle s \<longrightarrow> sl_queue s = [] \<or> stopped c3" using q True rp(3) by blast
      from cinv_quiet[OF cinv_gc_if_idle[OF rp(1) this] quiet_drop_pending_submission] p(3) True
      show ?thesis
        by (simp add: place_pending_def get Inr d rej guard_drop_done[OF rp(2)])
    qed
  qed
qed

lemma quiet_explicit_slot_rejection:
  "explicit_slot_rejection c e a = (r, c') \<Longrightarrow> quiet {#} {#} c c'"
  using quiet_is_shutting_down[of c]
  by (auto simp: explicit_slot_rejection_def split: option.splits prod.splits if_splits)

lemma cinv_park:
  assumes inv: "cinv K {} {} B W c" and fresh: "fresh_id c i"
  shows "cinv K {i} {} B (W + opt_mset d) (restore_watcher c i d)"
    "fresh_id (restore_watcher c i d) i"
proof -
  have none: "fmlookup (watchers c) i = None"
    using cinvD(6)[OF inv] fresh by (auto simp: watch_ok_def fresh_id_def)
  note I = cinvD[OF inv]
  show "cinv K {i} {} B (W + opt_mset d) (restore_watcher c i d)"
  proof (cases d)
    case None
    with cinv_mono[OF inv, of K "{i}" "{}"] show ?thesis
      by (auto simp: restore_watcher_def opt_mset_def)
  next
    case (Some tx)
    show ?thesis unfolding Some restore_watcher_def option.case
    proof (rule cinvI, goal_cases)
      case 6
      show ?case using I(6) by (auto simp: watch_ok_def)
    next
      case 10
      show ?case using I(10) none by (auto simp: waiting_def fm_sum_upd fm_sum_drop_absent opt_mset_def)
    qed (use I in simp_all)
  qed
  show "fresh_id (restore_watcher c i d) i"
    using fresh by (simp add: fresh_id_def restore_watcher_def split: option.splits)
qed

lemma handle_submission_inv:
  assumes inv: "cinv K {} {} B W c" and new: "sub_id sub \<notin> K"
    and b: "bundle_fresh (ot_cleanup (sub_owned sub))"
  shows "cinv (insert (sub_id sub) K) {} {} (B + {#bundle_key (ot_cleanup (sub_owned sub))#})
    (W + opt_mset (sub_done sub)) (handle_submission c sub)"
proof -
  let ?i = "sub_id sub" and ?own = "sub_owned sub" and ?spec = "ot_value (sub_owned sub)"
  let ?n = "case cs_slot ?spec of None \<Rightarrow> ts_name (cs_task_spec ?spec) | Some s \<Rightarrow> s"
  let ?w = "watcher_new ?i ?own (sub_done sub) (Some ?n)" and ?K = "insert ?i K"
  obtain up c1 where up: "upgrade c = (up, c1)" by (cases "upgrade c") auto
  obtain down c2 where down: "is_shutting_down c1 = (down, c2)" by (cases "is_shutting_down c1") auto
  obtain e c3 where e: "explicit_slot_rejection c2 (cs_slot ?spec) (cs_admission ?spec) = (e, c3)"
    by (cases "explicit_slot_rejection c2 (cs_slot ?spec) (cs_admission ?spec)") auto
  have q: "quiet {#} {#} c c1" "quiet {#} {#} c c2" "quiet {#} {#} c c3"
    using quiet_upgrade[OF up] quiet_is_shutting_down[OF down] quiet_explicit_slot_rejection[OF e]
    by (blast intro: quiet_trans0)+
  have inv': "quiet {#} {#} c d \<Longrightarrow> cinv ?K {} {} B W d" for d
    using cinv_mono[OF cinv_quiet0[OF inv], of d ?K "{}" "{}"] by blast
  have rejected: "cinv ?K {} {} (B + {#bundle_key (ot_cleanup ?own)#}) (W + opt_mset (sub_done sub))
      (reject_and_drop d ?w kind r)" if "quiet {#} {#} c d" for d kind r
    using cinv_quiet[OF inv'[OF that] quiet_reject_and_drop[OF b]] .
  have fresh: "fresh_id c3 ?i" using fresh_id_new[OF cinv_quiet0[OF inv q(3)] new] .
  let ?p = "\<lparr>ps_id = ?i, ps_task_name = ts_name (cs_task_spec ?spec),
             ps_owned = owned_task_map ?own cs_task_spec\<rparr>"
  let ?w' = "?w\<lparr>aw_owned := None, aw_state := Parked\<rparr>"
  note pk = cinv_park[OF inv'[OF q(3)] fresh, of "sub_done sub"]
  have "cinv ?K {} {} (B + {#pending_key ?p#}) (W + opt_mset (sub_done sub))
      (place_pending (restore_watcher c3 ?i (sub_done sub)) ?n ?p (cs_admission ?spec) ?w')"
    by (rule cinv_place_pending[OF pk])
      (use b in \<open>simp_all add: owned_task_map_def parked_def watcher_new_def\<close>)
  moreover have "pending_key ?p = bundle_key (ot_cleanup ?own)"
    by (simp add: pending_key_def owned_task_map_def)
  moreover have "take_pending ?w ?i (ts_name (cs_task_spec ?spec)) = Some (?p, ?w\<lparr>aw_owned := None\<rparr>)"
    by (simp add: take_pending_def watcher_new_def)
  moreover have "park c3 (?w\<lparr>aw_owned := None\<rparr>) = (restore_watcher c3 ?i (sub_done sub), ?w')"
    by (simp add: park_def watcher_new_def restore_watcher_def split: option.splits)
  ultimately show ?thesis
    using rejected[OF q(1)] rejected[OF q(2)] rejected[OF q(3)] up down e
    by (cases e) (simp_all add: handle_submission_def Let_def split: prod.splits)
qed

section \<open>Identity operations\<close>

lemma cinv_advance_upgraded:
  assumes inv: "cinv K H {n} B W (put_slot c n s)" and idle: "is_idle s"
    and up: "upgrade c = (up, c1)"
    and adv: "(if up then start_next_from_queue c1 s n else ([], c1, s)) = (drops, c2, s2)"
    and q: "quiet M {#} (gc_if_idle c2 n s2) c3"
  shows "cinv K H {} (B + M) W (drop_pending_submissions c3 drops)"
proof -
  have inv1: "cinv K H {n} B W (put_slot c1 n s)"
    using cinv_quiet0[OF inv quiet_put_slot] quiet_upgrade[OF up] by blast
  obtain B' where B': "cinv K H {n} B' W (put_slot c2 n s2)"
    "B = B' + mset (map (failure_key \<circ> fst) drops)" "list_all (failure_ok \<circ> fst) drops"
    "is_idle s2 \<longrightarrow> sl_queue s2 = [] \<or> stopped c2"
  proof (cases up)
    case True
    with adv have "start_next_from_queue c1 s n = (drops, c2, s2)" by simp
    from start_next_from_queue_inv[OF this inv1 idle] that show ?thesis by metis
  next
    case False
    with adv quiet_upgrade[OF up] inv1 that[of B] show ?thesis by auto
  qed
  from cinv_quiet[OF cinv_quiet[OF cinv_gc_if_idle[OF B'(1,4)] q] quiet_drop_pending_submissions[OF B'(3)]]
  show ?thesis using B'(2) by (simp add: ac_simps)
qed

lemma cancel_claimed_quiet:
  assumes "cancel_claimed c i n w d rr = (t, c')" and "i \<in> set (pump_ids (pump c))"
  shows "quiet {#} (opt_mset d) (c\<lparr>pump := snd (pump_cancel (sup_alive c) (pump c) i)\<rparr>) c'"
proof -
  obtain P' where P': "pump_cancel (sup_alive c) (pump c) i = (True, P')"
    using assms(2) pump.cancel_found[of "sup_alive c" "pump c" i]
    by (cases "pump_cancel (sup_alive c) (pump c) i") auto
  with assms(1) have "send_rejected
      (publish (rejected_event (Some n) i RemovedFromQueue removed_from_queue_text)
        (publish (remove_requested_event (ps_task_name (ce_pending w)) i rr) (c\<lparr>pump := P'\<rparr>)))
      d RemovedFromQueue removed_from_queue_text = (t, c')"
    by (simp add: cancel_claimed_def Let_def)
  from quiet_trans0[OF quiet_publish quiet_trans0[OF quiet_publish conjunct1[OF quiet_send_rejected[OF this]]]]
  show ?thesis by (simp add: P')
qed

lemma remove_capacity_waiter_inv:
  assumes inv: "cinv K {} {} B W c" and w: "fmlookup (capacity_pending c) i = Some w"
    and s: "fmlookup (slots c) (ce_slot_name w) = Some s"
    and rem: "remove_in_slot c s (ce_slot_name w) i rr = (b, c')"
  shows "cinv K {} {} B W c'"
proof -
  let ?n = "ce_slot_name w" and ?k = "pending_key (ce_pending w)" and ?tx = "fmlookup (watchers c) i"
  let ?idle = "s\<lparr>sl_phase := Idle\<rparr>"
  have own: "slot_owner s = Some i" "phase_admitting (sl_phase s)"
    "bundle_fresh (ot_cleanup (ps_owned (ce_pending w)))"
    using capacity_okE[OF cinvD(3)[OF inv] w] s by auto
  have okP: "pump.ok (pump c)" and inP: "i \<in> set (pump_ids (pump c))"
    using cinvD(3)[OF inv] w by (auto simp: capacity_ok_def fmlookup_dom_iff)
  define P' where "P' = snd (pump_cancel (sup_alive c) (pump c) i)"
  let ?cl = "c\<lparr>capacity_pending := fmdrop i (capacity_pending c), watchers := fmdrop i (watchers c)\<rparr>"
  obtain t c1 where can: "cancel_claimed ?cl i ?n w ?tx rr = (t, c1)"
    by (cases "cancel_claimed ?cl i ?n w ?tx rr") auto
  obtain up c2 where up: "upgrade c1 = (up, c2)" by (cases "upgrade c1") auto
  obtain drops c3 s3 where adv: "(if up then start_next_from_queue c2 ?idle ?n else ([], c2, ?idle))
      = (drops, c3, s3)"
    by (cases "if up then start_next_from_queue c2 ?idle ?n else ([], c2, ?idle)") auto
  note claimed = cinv_claim[OF inv w s pump_without_cancel[OF okP, of _ i, folded P'_def],
      of ?idle "admissions c"]
  have q: "quiet {#} (opt_mset ?tx) (claim_state c i P') c1"
    using cancel_claimed_quiet[OF can] inP by (simp add: claim_state_def P'_def)
  have "cinv K {} {?n} (B - {#?k#}) (W - opt_mset ?tx) (put_slot (claim_state c i P') ?n ?idle)"
    using claimed(1) by (simp add: claim_state_def P'_def)
  from cinv_quiet[OF this quiet_put_slot[OF q]] claimed(3)
  have inv1: "cinv K {} {?n} (B - {#?k#}) W (put_slot c1 ?n ?idle)" by simp
  have "quiet {#?k#} {#} (gc_if_idle c3 ?n s3)
      (drop_pending_submission (gc_if_idle c3 ?n s3) (ce_pending w) t)"
    using own(3) by (intro quiet_drop_pending_submission) simp
  from cinv_advance_upgraded[OF inv1 idle_phase up adv this] claimed(2)
  have "cinv K {} {} B W
      (drop_pending_submissions (drop_pending_submission (gc_if_idle c3 ?n s3) (ce_pending w) t) drops)"
    by simp
  moreover have "reject_admission s i = (True, ?idle)" using own by (simp add: reject_admission_eq)
  ultimately show ?thesis
    using rem can up adv by (auto simp: remove_in_slot_def claim_capacity_pending_def w Let_def
        split: prod.splits)
qed

lemma remove_queued_inv:
  assumes inv: "cinv K {} {} B W c" and none: "fmlookup (capacity_pending c) i = None"
    and Q: "fmlookup (queued_slots c) i = Some n" and s: "fmlookup (slots c) n = Some s"
    and rem: "remove_in_slot c s n i rr = (b, c')"
  shows "cinv K {} {} B W c'"
proof -
  have mem: "i \<in> ps_id ` set (sl_queue s)"
    using cinvD(1)[OF inv] Q s unfolding index_ok_def by (metis option.inject)
  then obtain k where k: "list_position (\<lambda>p. ps_id p = i) (sl_queue s) = Some k"
    by (cases "list_position (\<lambda>p. ps_id p = i) (sl_queue s)") (auto simp: list_position_None)
  note pos = list_position_Some[OF k]
  let ?p = "sl_queue s ! k"
  let ?c1 = "publish (remove_requested_event (ps_task_name ?p) i rr) c"
  let ?s2 = "s\<lparr>sl_queue := take k (sl_queue s) @ drop (Suc k) (sl_queue s)\<rparr>"
  let ?c2 = "publish (rejected_event (Some n) i RemovedFromQueue removed_from_queue_text)
    (unindex_queued ?c1 i)"
  obtain t c3 where fin: "finalize_rejected ?c2 i RemovedFromQueue removed_from_queue_text = (t, c3)"
    by (cases "finalize_rejected ?c2 i RemovedFromQueue removed_from_queue_text") auto
  have "cinv K {} {n} B W c" using cinv_mono[OF inv, of K "{}" "{n}"] by simp
  then have "cinv K {} {n} B W (put_slot ?c1 n s)"
    using cinv_quiet0[OF _ quiet_put_slot[OF quiet_publish]] put_slot_same[OF s] by metis
  note un = cinv_unqueue[OF this id_take_nth_drop[OF conjunct1[OF pos]]]
  from un(1) have "cinv K (insert i {}) {n} (B - {#pending_key ?p#}) W
      (put_slot (unindex_queued ?c1 i) n ?s2)"
    using pos by simp
  from cinv_finalize_rejected[OF cinv_quiet0[OF this quiet_put_slot[OF quiet_publish]] fin]
  have inv3: "cinv K {} {n} (B - {#pending_key ?p#}) W (put_slot c3 n ?s2)"
    by (rule cinv_mono) auto
  have "is_idle ?s2 \<longrightarrow> stopped c"
    using cinvD(8)[OF inv] s by (auto simp: idle_ok_def is_idle_iff)
  then have "is_idle ?s2 \<longrightarrow> sl_queue ?s2 = [] \<or> stopped c3"
    using quietD(15)[OF conjunct1[OF finalize_rejected_quiet[OF fin]]]
    by (simp add: publish_def unindex_queued_def)
  from cinv_quiet[OF cinv_gc_if_idle[OF inv3 this] quiet_drop_pending_submission[of t ?p]] un(2,5)
  have "cinv K {} {} B W (drop_pending_submission (gc_if_idle c3 n ?s2) ?p t)" by simp
  with rem k pos fin show ?thesis
    by (auto simp: remove_in_slot_def claim_capacity_pending_def none remove_queued_at_def
        list_remove_at_def Let_def split: prod.splits)
qed

lemma remove_queued_submission_inv:
  assumes inv: "cinv K {} {} B W c" and rem: "remove_queued_submission c i rr = (b, c')"
  shows "cinv K {} {} B W c'"
proof (cases "claim_route c i")
  case None
  with rem inv show ?thesis by (simp add: remove_queued_submission_def)
next
  case (Some nb)
  obtain n cap where nb: "nb = (n, cap)" by (cases nb)
  obtain s where s: "fmlookup (slots c) n = Some s"
    using Some nb capacity_okE[OF cinvD(3)[OF inv], of i] cinvD(1)[OF inv]
    unfolding claim_route_def index_ok_def by (auto split: option.splits)
  obtain down c1 where d: "is_shutting_down c = (down, c1)" by (cases "is_shutting_down c") auto
  note q = conjunct1[OF quiet_is_shutting_down[OF d]]
  have inv1: "cinv K {} {} B W c1" using cinv_quiet0[OF inv q] .
  have s1: "fmlookup (slots c1) n = Some s" using s quietD(2)[OF q] by simp
  show ?thesis
  proof (cases down)
    case True
    with rem inv1 Some nb s d show ?thesis by (simp add: remove_queued_submission_def)
  next
    case False
    then have rem1: "remove_in_slot c1 s n i rr = (b, c')"
      using rem Some nb s d by (simp add: remove_queued_submission_def)
    show ?thesis
    proof (cases "fmlookup (capacity_pending c) i")
      case None
      then show ?thesis
        using remove_queued_inv[OF inv1 _ _ s1 rem1] quietD(3,4)[OF q] Some nb
        by (simp add: claim_route_def)
    next
      case w: (Some w)
      then have "ce_slot_name w = n" using Some nb by (simp add: claim_route_def)
      with w show ?thesis
        using remove_capacity_waiter_inv[OF inv1, of i w s rr b c'] s1 rem1 quietD(4)[OF q] by simp
    qed
  qed
qed

lemma cinv_identity_ops [simp]: "cinv K H E B W (c\<lparr>identity_ops := x\<rparr>) = cinv K H E B W c"
  by (simp add: cinv_def)

lemma handle_identity_operation_inv:
  assumes inv: "cinv K {} {} B W c"
  shows "cinv K {} {} B W (handle_identity_operation c i operation reply)"
proof -
  obtain d1 c1 where d1: "is_shutting_down c = (d1, c1)" by (cases "is_shutting_down c") auto
  obtain b c2 where rem: "remove_queued_submission c1 i (request_reason operation) = (b, c2)"
    by (cases "remove_queued_submission c1 i (request_reason operation)") auto
  obtain d2 c3 where d2: "is_shutting_down c2 = (d2, c3)" by (cases "is_shutting_down c2") auto
  obtain up c4 where up: "upgrade c3 = (up, c4)" by (cases "upgrade c3") auto
  have inv1: "cinv K {} {} B W c1" using cinv_quiet0[OF inv] quiet_is_shutting_down[OF d1] by blast
  have inv2: "cinv K {} {} B W c2" by (rule remove_queued_submission_inv[OF inv1 rem])
  have inv3: "cinv K {} {} B W c3" using cinv_quiet0[OF inv2] quiet_is_shutting_down[OF d2] by blast
  have inv4: "cinv K {} {} B W c4" using cinv_quiet0[OF inv3] quiet_upgrade[OF up] by blast
  show ?thesis
    using inv1 inv2 inv3 inv4
    by (auto simp: handle_identity_operation_def d1 rem d2 up Let_def
        intro: cinv_quiet0[OF _ quiet_send_reply])
qed

end
