(* ===== verification/Controller_System.thy ===== *)
theory Controller_System
  imports Controller_Submission
begin

text \<open>
  The controller as a transition system. A state is the list of submissions received so far and the
  controller; a step is one iteration of the serialized loop of \<^verbatim>\<open>lifecycle/driver.rs\<close> or a move of
  the surrounding threads. The loop takes a ready result in any order, so the relation allows every
  order. Identities are unique (theory \<open>Identity\<close>) and a submission arrives with a fresh cleanup
  bundle (\<open>attach_ownership\<close> in \<^verbatim>\<open>handle/ownership.rs\<close>); the registry, which answers admissions and
  completes tasks, is unconstrained here.
\<close>

section \<open>Steps\<close>

type_synonym system = "submission list \<times> controller"

text \<open>\<open>reserve_controller_add\<close> can grant a permit while the channel is open and has room.\<close>

definition permit_available :: "core_port \<Rightarrow> bool" where
  "permit_available p \<longleftrightarrow>
     \<not> port_closed p \<and> length (port_queue p) + port_permits p < port_capacity p"

definition take_permit :: "core_port \<Rightarrow> core_port" where
  "take_permit p = p\<lparr>port_permits := Suc (port_permits p)\<rparr>"

inductive ctl_step :: "system \<Rightarrow> system \<Rightarrow> bool" where
  env_move: "ctl_step (subs, c) (subs, env_step m c)"
| schedule: "ctl_step (subs, c) (subs, c\<lparr>env := script\<rparr>)"
| submit:
    "sub_id sub \<notin> sub_id ` set subs \<Longrightarrow> bundle_fresh (ot_cleanup (sub_owned sub)) \<Longrightarrow>
       ctl_step (subs, c) (subs @ [sub], handle_controller_command c (Submit sub))"
| manage: "ctl_step (subs, c) (subs, handle_controller_command c (ManageIdentity i operation reply))"
| granted:
    "pump_next (sup_alive c) (pump c) = Some ((i, True), q) \<Longrightarrow> permit_available (port c) \<Longrightarrow>
       ctl_step (subs, c)
         (subs, handle_registry_capacity_result
                  ((c\<lparr>port := take_permit (port c)\<rparr>)\<lparr>pump := q\<rparr>) i (Inr ()))"
| refused:
    "pump_next (sup_alive c) (pump c) = Some ((i, alive), q) \<Longrightarrow>
       \<not> alive \<or> port_shutting_down (port c) \<or> port_closed (port c) \<Longrightarrow>
       ctl_step (subs, c)
         (subs, handle_registry_capacity_result (c\<lparr>pump := q\<rparr>) i (Inl ShuttingDown))"
| decided:
    "(i, n) \<in> set (admissions c) \<Longrightarrow>
       ctl_step (subs, c)
         (subs, handle_registry_decision (c\<lparr>admissions := remove1 (i, n) (admissions c)\<rparr>) i n decision)"
| completed:
    "(i, n) \<in> set (completions c) \<Longrightarrow>
       ctl_step (subs, c)
         (subs, handle_completion_result (c\<lparr>completions := remove1 (i, n) (completions c)\<rparr>) i n)"
| removal_done:
    "(i, n) \<in> set (removals c) \<Longrightarrow>
       ctl_step (subs, c)
         (subs, handle_removal_result (c\<lparr>removals := remove1 (i, n) (removals c)\<rparr>) i n result)"
| identity_done:
    "(i, operation, reply) \<in> set (identity_ops c) \<Longrightarrow>
       ctl_step (subs, c)
         (subs, send_reply reply result
                  (c\<lparr>identity_ops := remove1 (i, operation, reply) (identity_ops c)\<rparr>))"

definition ctl_init :: "system \<Rightarrow> bool" where
  "ctl_init s \<longleftrightarrow>
     (\<exists>cfg p rx script. s = ([], controller_new cfg p rx script) \<and> port_wf p \<and> port_permits p = 0)"

definition ctl_reachable :: "system \<Rightarrow> bool" where
  "ctl_reachable s \<longleftrightarrow> (\<exists>s0. ctl_init s0 \<and> ctl_step\<^sup>*\<^sup>* s0 s)"

lemma ctl_reachable_init: "ctl_init s \<Longrightarrow> ctl_reachable s"
  unfolding ctl_reachable_def by blast

lemma ctl_reachable_step: "ctl_reachable s \<Longrightarrow> ctl_step s t \<Longrightarrow> ctl_reachable t"
  unfolding ctl_reachable_def by (meson rtranclp.rtrancl_into_rtrancl)

section \<open>The invariant of the system\<close>

definition received_bundles :: "submission list \<Rightarrow> drop_bundle multiset" where
  "received_bundles subs = mset (map (\<lambda>sub. bundle_key (ot_cleanup (sub_owned sub))) subs)"

definition received_senders :: "submission list \<Rightarrow> outcome_tx multiset" where
  "received_senders subs = sum_list (map (\<lambda>sub. opt_mset (sub_done sub)) subs)"

definition sys_inv :: "system \<Rightarrow> bool" where
  "sys_inv s \<longleftrightarrow>
     (case s of (subs, c) \<Rightarrow>
        cinv (sub_id ` set subs) {} {} (received_bundles subs) (received_senders subs) c)"

lemma pump_new_ok: "pump.ok (pump_new n)" "pump_ids (pump_new n) = []" "cp_limit (pump_new n) = n"
  by (simp_all add: pump.ok_def pump_ids_def pump_new_def)

lemma cinv_new: "cinv K {} {} {#} {#} (controller_new cfg p rx script)"
  by (rule cinvI)
    (simp_all add: controller_new_def part_defs pending_len_def held_def spent_def waiting_def
      resolved_def pump_new_ok live_ok_def, simp add: pump_new_def)

lemma cinv_port:
  "port_later (port c) p \<Longrightarrow> cinv K H E B W c \<Longrightarrow> cinv K H E B W (c\<lparr>port := p\<rparr>)"
  by (rule cinv_quiet0[OF _ quiet_port])

lemma cinv_drop_removal [simp]: "cinv K H E B W (c\<lparr>removals := x\<rparr>) = cinv K H E B W c"
  by (simp add: cinv_def)

interpretation ctl: inductive_invariant ctl_init ctl_step sys_inv
proof
  fix s assume "ctl_init s"
  then show "sys_inv s"
    by (auto simp: ctl_init_def sys_inv_def received_bundles_def received_senders_def cinv_new)
next
  fix s t assume "sys_inv s" and step: "ctl_step s t"
  from step this show "sys_inv t"
  proof cases
    case (env_move subs c m)
    then show ?thesis using \<open>sys_inv s\<close> by (auto simp: sys_inv_def intro: cinv_quiet0[OF _ quiet_env_step])
  next
    case (schedule subs c script)
    then show ?thesis using \<open>sys_inv s\<close> by (auto simp: sys_inv_def intro: cinv_quiet0[OF _ quiet_env])
  next
    case (submit sub subs c)
    then show ?thesis
      using handle_submission_inv[of "sub_id ` set subs" "received_bundles subs" "received_senders subs" c sub]
        \<open>sys_inv s\<close>
      by (simp add: sys_inv_def handle_controller_command_def received_bundles_def received_senders_def)
  next
    case (manage subs c i operation reply)
    then show ?thesis using \<open>sys_inv s\<close>
      by (simp add: sys_inv_def handle_controller_command_def handle_identity_operation_inv)
  next
    case (granted c i q subs)
    have "cinv (sub_id ` set subs) {} {} (received_bundles subs) (received_senders subs)
        (c\<lparr>port := take_permit (port c)\<rparr>)"
      using \<open>sys_inv s\<close> granted(1)
      by (intro cinv_port) (simp_all add: sys_inv_def port_later_def take_permit_def)
    from handle_registry_capacity_result_inv[OF this, of i True q "Inr ()"] granted show ?thesis
      by (simp add: sys_inv_def)
  next
    case (refused c i alive q subs)
    have inv: "cinv (sub_id ` set subs) {} {} (received_bundles subs) (received_senders subs) c"
      using \<open>sys_inv s\<close> refused(1) by (simp add: sys_inv_def)
    have "stopped c"
    proof (cases alive)
      case False
      then have "\<not> sup_alive c"
        using refused(3) cinvD(12)[OF inv]
        by (auto simp: live_ok_def pump_next_def Let_def pump_start_next_def
            split: option.splits list.splits)
      then show ?thesis by (simp add: stopped_def)
    qed (use refused(4) in \<open>auto simp: stopped_def\<close>)
    with handle_registry_capacity_result_inv[OF inv refused(3), of "Inl ShuttingDown"] refused(2)
    show ?thesis by (simp add: sys_inv_def)
  next
    case (decided i n c subs decision)
    then show ?thesis using \<open>sys_inv s\<close> by (simp add: sys_inv_def handle_registry_decision_inv)
  next
    case (completed i n c subs)
    then show ?thesis using \<open>sys_inv s\<close> by (simp add: sys_inv_def handle_completion_result_inv)
  next
    case (removal_done i n c subs result)
    then show ?thesis using \<open>sys_inv s\<close> by (simp add: sys_inv_def handle_removal_result_inv)
  next
    case (identity_done i operation reply c subs result)
    then show ?thesis using \<open>sys_inv s\<close>
      by (auto simp: sys_inv_def intro!: cinv_quiet0[OF _ quiet_send_reply])
  qed
qed

lemma reachable_cinv:
  "ctl_reachable (subs, c) \<Longrightarrow>
     cinv (sub_id ` set subs) {} {} (received_bundles subs) (received_senders subs) c"
  using ctl.good_reachable by (fastforce simp: ctl_reachable_def sys_inv_def)

lemmas reachable_parts = cinvD[OF reachable_cinv]

end
