(* ===== verification/Controller_Shutdown.thy ===== *)
theory Controller_Shutdown
  imports Controller_System
begin

text \<open>
  Loop exit (\<^verbatim>\<open>lifecycle/shutdown.rs\<close>): the final cleanup empties every index, submits or has
  committed every cleanup bundle exactly once and resolves every outcome sender exactly once.
  Only the accounting part of the invariant is needed here, because the tracked operations are
  dropped first.
\<close>

section \<open>Iterating over a hash map\<close>

lemma fm_sum_entries: "fm_sum f m = sum_list (map (f \<circ> snd) (hm_entries m))"
proof -
  have "sum_list (map (f \<circ> snd) (hm_entries m)) = sum_list (map (\<lambda>k. f (the (fmlookup m k))) (hm_keys m))"
    by (simp add: hm_entries_def comp_def)
  also have "\<dots> = fm_sum f m"
    by (simp add: fm_sum_def sum_list_distinct_conv_sum_set)
  finally show ?thesis by simp
qed

section \<open>Moving the accounts\<close>

text \<open>\<open>settles c c'\<close>: senders only moved from waiting to resolved; no bundle was spent.\<close>

definition settles :: "controller \<Rightarrow> controller \<Rightarrow> bool" where
  "settles c c' \<longleftrightarrow>
     spent (log c') = spent (log c)
     \<and> waiting (watchers c') + resolved (log c') = waiting (watchers c) + resolved (log c)
     \<and> fmdom (watchers c') |\<subseteq>| fmdom (watchers c) \<and> faults c' = faults c
     \<and> capacity_pending c' = capacity_pending c \<and> shutting_down c' = shutting_down c"

lemma settles_refl: "settles c c"
  by (simp add: settles_def)

lemma settles_trans: "settles a b \<Longrightarrow> settles b c \<Longrightarrow> settles a c"
  by (auto simp: settles_def)

lemma quiet_settles: "quiet {#} {#} c c' \<Longrightarrow> settles c c'"
  by (simp add: settles_def quietD)

lemma finalize_rejected_settles:
  assumes "finalize_rejected c i kind r = (t, c')"
  shows "settles c c'" "watchers c' = fmdrop i (watchers c)" "slots c' = slots c"
proof -
  note q = conjunct1[OF finalize_rejected_quiet[OF assms]]
  show w: "watchers c' = fmdrop i (watchers c)" and "slots c' = slots c"
    using quietD(2,5)[OF q] by simp_all
  show "settles c c'"
    using quietD(4,11-14)[OF q] w fm_sum_opt[of "watchers c" i]
    by (auto simp: settles_def waiting_def ac_simps)
qed

lemma reject_on_shutdown_settles:
  assumes "reject_on_shutdown c n i = (t, c')"
  shows "settles c c'" "slots c' = slots c"
  using settles_trans[OF quiet_settles[OF quiet_publish]
      finalize_rejected_settles(1)[OF assms[unfolded reject_on_shutdown_def]]]
    finalize_rejected_settles(3)[OF assms[unfolded reject_on_shutdown_def]]
  by (simp_all add: publish_def)

lemma finalize_capacity_settles:
  "finalize_capacity c es = (drops, c') \<Longrightarrow>
     settles c c' \<and> slots c' = slots c \<and> map fst drops = map (ce_pending \<circ> snd) es"
proof (induction c es arbitrary: drops c' rule: finalize_capacity.induct)
  case (2 c i w rest)
  obtain t c1 where r: "reject_on_shutdown c (ce_slot_name w) i = (t, c1)"
    by (cases "reject_on_shutdown c (ce_slot_name w) i") auto
  obtain ds c2 where f: "finalize_capacity c1 rest = (ds, c2)"
    by (cases "finalize_capacity c1 rest") auto
  from 2(1)[OF r[symmetric] refl f] reject_on_shutdown_settles[OF r] 2(2) r f show ?case
    by (auto intro: settles_trans)
qed (simp add: settles_refl)

lemma unindex_settles: "settles c (unindex_queued c i)"
  by (simp add: settles_def unindex_queued_def)

lemma finalize_queue_settles:
  "finalize_queue c n ps = (drops, c') \<Longrightarrow> settles c c' \<and> map fst drops = ps"
proof (induction c n ps arbitrary: drops c' rule: finalize_queue.induct)
  case (2 c n p rest)
  obtain t c1 where r: "reject_on_shutdown (unindex_queued c (ps_id p)) n (ps_id p) = (t, c1)"
    by (cases "reject_on_shutdown (unindex_queued c (ps_id p)) n (ps_id p)") auto
  obtain ds c2 where f: "finalize_queue c1 n rest = (ds, c2)" by (cases "finalize_queue c1 n rest") auto
  have "settles c c1"
    using settles_trans[OF unindex_settles reject_on_shutdown_settles(1)[OF r]] .
  with 2(1)[OF refl r[symmetric] refl f] 2(2) r f show ?case
    by (auto simp: Let_def intro: settles_trans)
qed (simp add: settles_refl)

lemma finalize_slots_settles:
  "finalize_slots c es = (drops, c') \<Longrightarrow>
     settles c c' \<and> map fst drops = concat (map (sl_queue \<circ> snd) es)"
proof (induction c es arbitrary: drops c' rule: finalize_slots.induct)
  case (2 c n slot rest)
  obtain ds c1 where f: "finalize_queue c n (sl_queue slot) = (ds, c1)"
    by (cases "finalize_queue c n (sl_queue slot)") auto
  let ?c2 = "put_slot c1 n (slot\<lparr>sl_queue := []\<rparr>)"
  obtain ds' c3 where g: "finalize_slots ?c2 rest = (ds', c3)" by (cases "finalize_slots ?c2 rest") auto
  have "settles c1 ?c2" by (simp add: settles_def)
  with 2(1)[OF f[symmetric] refl refl g] 2(2) f g finalize_queue_settles[OF f] show ?case
    by (auto simp: Let_def intro: settles_trans)
qed (simp add: settles_refl)

lemma finalize_watchers_settles:
  fixes c :: controller
  defines "final \<equiv> \<lambda>i c. snd (finalize_rejected
      (publish (rejected_event None i ControllerShuttingDown controller_shutting_down_text) c)
      i ControllerShuttingDown controller_shutting_down_text)"
  shows "settles c (fold final is c) \<and> fmdom (watchers (fold final is c)) = fmdom (watchers c) |-| fset_of_list is
     \<and> slots (fold final is c) = slots c"
proof (induction "is" arbitrary: c)
  case (Cons i "is")
  let ?e = "rejected_event None i ControllerShuttingDown controller_shutting_down_text"
  obtain t c1 where f: "finalize_rejected (publish ?e c) i ControllerShuttingDown
      controller_shutting_down_text = (t, c1)"
    by (cases "finalize_rejected (publish ?e c) i ControllerShuttingDown controller_shutting_down_text") auto
  have c1: "final i c = c1" by (simp add: final_def f)
  have "settles c c1" using finalize_rejected_settles(1)[OF f] quiet_settles[OF quiet_publish]
    settles_trans by blast
  moreover have "fmdom (watchers c1) = fmdom (watchers c) |-| {|i|}" "slots c1 = slots c"
    using finalize_rejected_settles(2,3)[OF f] by (simp_all add: publish_def)
  ultimately show ?case using Cons[of c1] c1 by (auto intro: settles_trans)
qed (simp add: settles_refl)

lemma finalize_remaining_watchers_settles:
  "settles c (finalize_remaining_watchers c) \<and> watchers (finalize_remaining_watchers c) = fmempty
     \<and> slots (finalize_remaining_watchers c) = slots c"
proof -
  note f = finalize_watchers_settles[of c "hm_keys (watchers c)", folded finalize_remaining_watchers_def]
  have "fset_of_list (hm_keys (watchers c)) = fmdom (watchers c)"
    by (rule fset_eqI) (simp add: fset_of_list_elem)
  with f have "fmdom (watchers (finalize_remaining_watchers c)) = {||}" by simp
  then have "watchers (finalize_remaining_watchers c) = fmempty"
    by (metis hm_len_def hm_len_zero_iff fcard_fempty)
  with f show ?thesis by simp
qed

lemma drop_fold_quiet:
  "list_all (\<lambda>(p, t). bundle_fresh (ot_cleanup (ps_owned p))) ds \<Longrightarrow>
     quiet (mset (map (pending_key \<circ> fst) ds)) {#} c
       (fold (\<lambda>(p, terminal) c. drop_pending_submission c p terminal) ds c)"
proof (induction ds arbitrary: c)
  case (Cons d ds)
  obtain p t where d: "d = (p, t)" by (cases d)
  have "quiet {#pending_key p#} {#} c (drop_pending_submission c p t)"
    using Cons(2) d by (intro quiet_drop_pending_submission) simp
  from quiet_trans[OF this Cons(1)] Cons(2) d show ?case by simp
qed simp

section \<open>The final cleanup\<close>

definition bundles_fresh :: "controller \<Rightarrow> bool" where
  "bundles_fresh c \<longleftrightarrow>
     (\<forall>n s. fmlookup (slots c) n = Some s \<longrightarrow>
        (\<forall>p \<in> set (sl_queue s). bundle_fresh (ot_cleanup (ps_owned p))))
     \<and> (\<forall>i w. fmlookup (capacity_pending c) i = Some w \<longrightarrow>
          bundle_fresh (ot_cleanup (ps_owned (ce_pending w))))"

lemma bundles_fresh_cinv: "cinv K H E B W c \<Longrightarrow> bundles_fresh c"
  unfolding bundles_fresh_def cinv_def index_ok_def capacity_ok_def by blast

lemma held_entries:
  "held S C = mset (map pending_key (map (ce_pending \<circ> snd) (hm_entries C)
     @ concat (map (sl_queue \<circ> snd) (hm_entries S))))"
proof -
  have q: "sum_list (map (queue_keys \<circ> snd) es)
      = mset (map pending_key (concat (map (sl_queue \<circ> snd) es)))" for es :: "(name \<times> slot_state) list"
    by (induction es) (simp_all add: queue_keys_def)
  have w: "sum_list (map ((\<lambda>w. {#pending_key (ce_pending w)#}) \<circ> snd) es)
      = mset (map pending_key (map (ce_pending \<circ> snd) es))"
    for es :: "(task_id \<times> capacity_pending_entry) list"
    by (induction es) simp_all
  show ?thesis unfolding held_def fm_sum_entries q w by (simp add: ac_simps)
qed

lemma finalize_slot_state_spec:
  assumes "bundles_fresh c"
  defines "c' \<equiv> finalize_slot_state_on_shutdown c"
  shows "slots c' = fmempty" "queued_slots c' = fmempty" "capacity_pending c' = fmempty"
    "watchers c' = fmempty" "spent (log c') = spent (log c) + held (slots c) (capacity_pending c)"
    "resolved (log c') = resolved (log c) + waiting (watchers c)" "faults c' = faults c"
    "shutting_down c' = shutting_down c"
proof -
  let ?c1 = "c\<lparr>capacity_pending := fmempty\<rparr>" and ?we = "hm_entries (capacity_pending c)"
  obtain d1 c2 where cap: "finalize_capacity ?c1 ?we = (d1, c2)"
    by (cases "finalize_capacity ?c1 ?we") auto
  obtain d2 c3 where sl: "finalize_slots c2 (hm_entries (slots c2)) = (d2, c3)"
    by (cases "finalize_slots c2 (hm_entries (slots c2))") auto
  let ?c4 = "finalize_remaining_watchers c3"
  let ?c5 = "?c4\<lparr>slots := fmempty, queued_slots := fmempty, capacity_pending := fmempty\<rparr>"
  have c': "c' = fold (\<lambda>(p, terminal) c. drop_pending_submission c p terminal) (d1 @ d2) ?c5"
    by (simp add: c'_def finalize_slot_state_on_shutdown_def Let_def cap sl)
  note s1 = finalize_capacity_settles[OF cap] and s2 = finalize_slots_settles[OF sl]
    and s3 = finalize_remaining_watchers_settles[of c3]
  have fsts: "map fst (d1 @ d2) = map (ce_pending \<circ> snd) ?we
      @ concat (map (sl_queue \<circ> snd) (hm_entries (slots c)))"
    using s1 s2 by simp
  have "bundle_fresh (ot_cleanup (ps_owned p))" if "p \<in> fst ` set (d1 @ d2)" for p
  proof -
    have "p \<in> set (map (ce_pending \<circ> snd) ?we @ concat (map (sl_queue \<circ> snd) (hm_entries (slots c))))"
      using that fsts by (metis image_set)
    then show ?thesis using assms(1) by (auto simp: bundles_fresh_def hm_entries_iff)
  qed
  then have "list_all (\<lambda>(p, t). bundle_fresh (ot_cleanup (ps_owned p))) (d1 @ d2)"
    by (force simp: list_all_iff)
  note q = drop_fold_quiet[OF this, of ?c5, folded c']
  have key: "mset (map (pending_key \<circ> fst) (d1 @ d2)) = held (slots c) (capacity_pending c)"
    unfolding held_entries fsts[symmetric] by simp
  have settled: "settles ?c1 ?c4" using s1 s2 s3 settles_trans by blast
  show "slots c' = fmempty" "queued_slots c' = fmempty" "capacity_pending c' = fmempty"
    "watchers c' = fmempty"
    using quietD(2-5)[OF q] s3 by simp_all
  show "spent (log c') = spent (log c) + held (slots c) (capacity_pending c)"
    using quietD(13)[OF q] key settled by (simp add: settles_def)
  show "resolved (log c') = resolved (log c) + waiting (watchers c)"
    using quietD(14)[OF q] settled s3 by (simp add: settles_def waiting_def ac_simps)
  show "faults c' = faults c" using quietD(12)[OF q] settled by (simp add: settles_def)
  show "shutting_down c' = shutting_down c" using quietD(11)[OF q] settled by (simp add: settles_def)
qed

section \<open>Buffered commands and dropped operations\<close>

fun command_bundles :: "controller_command \<Rightarrow> drop_bundle multiset" where
  "command_bundles (Submit sub) = {#bundle_key (ot_cleanup (sub_owned sub))#}"
| "command_bundles _ = {#}"

fun command_senders :: "controller_command \<Rightarrow> outcome_tx multiset" where
  "command_senders (Submit sub) = opt_mset (sub_done sub)"
| "command_senders _ = {#}"

fun command_fresh :: "controller_command \<Rightarrow> bool" where
  "command_fresh (Submit sub) = bundle_fresh (ot_cleanup (sub_owned sub))"
| "command_fresh _ = True"

lemma drain_commands_quiet:
  "drain_commands c cmds = (drops, c') \<Longrightarrow> list_all command_fresh cmds \<Longrightarrow>
     quiet {#} (sum_list (map command_senders cmds)) c c'
     \<and> mset (map (\<lambda>(owned, t). bundle_key (ot_cleanup owned)) drops) = sum_list (map command_bundles cmds)
     \<and> list_all (\<lambda>(owned, t). bundle_fresh (ot_cleanup owned)) drops"
proof (induction c cmds arbitrary: drops c' rule: drain_commands.induct)
  case (2 c sub rest)
  define n where "n = (case cs_slot (ot_value (sub_owned sub)) of
      Some s \<Rightarrow> s | None \<Rightarrow> ts_name (cs_task_spec (ot_value (sub_owned sub))))"
  let ?c1 = "publish (rejected_event (Some n) (sub_id sub) ControllerShuttingDown
    controller_shutting_down_text) c"
  obtain t c2 where s: "send_rejected ?c1 (sub_done sub) ControllerShuttingDown
      controller_shutting_down_text = (t, c2)"
    by (cases "send_rejected ?c1 (sub_done sub) ControllerShuttingDown controller_shutting_down_text") auto
  obtain ds c3 where d: "drain_commands c2 rest = (ds, c3)" by (cases "drain_commands c2 rest") auto
  have q: "quiet {#} (opt_mset (sub_done sub)) c c2"
    using quiet_trans0[OF quiet_publish conjunct1[OF quiet_send_rejected[OF s]]] .
  have IH: "quiet {#} (sum_list (map command_senders rest)) c2 c3
      \<and> mset (map (\<lambda>(owned, t). bundle_key (ot_cleanup owned)) ds) = sum_list (map command_bundles rest)
      \<and> list_all (\<lambda>(owned, t). bundle_fresh (ot_cleanup owned)) ds"
    using "2.IH"[OF n_def refl s[symmetric] refl d] "2.prems"(2) by simp
  have "drops = (sub_owned sub, t) # ds" "c' = c3"
    using "2.prems"(1) s d by (simp_all add: Let_def n_def)
  with IH quiet_trans[OF q conjunct1[OF IH]] "2.prems"(2) show ?case by simp
next
  case (3 c i operation reply rest)
  then show ?case using quiet_trans0[OF quiet_send_reply] by fastforce
qed simp

lemma dispose_fold_quiet:
  "list_all (\<lambda>(owned, t). bundle_fresh (ot_cleanup owned)) ds \<Longrightarrow>
     quiet (mset (map (\<lambda>(owned, t). bundle_key (ot_cleanup owned)) ds)) {#} c
       (fold (\<lambda>(owned, terminal) c. dispose_bundle c (ot_cleanup owned) terminal) ds c)"
proof (induction ds arbitrary: c)
  case (Cons d ds)
  obtain ow t where d: "d = (ow, t)" by (cases d)
  have "quiet {#bundle_key (ot_cleanup ow)#} {#} c (dispose_bundle c (ot_cleanup ow) t)"
    using Cons(2) d by (intro quiet_dispose_bundle) simp
  from quiet_trans[OF this Cons(1)] Cons(2) d show ?case by simp
qed simp

lemma drain_pending_quiet:
  assumes "list_all command_fresh cmds"
  shows "quiet (sum_list (map command_bundles cmds)) (sum_list (map command_senders cmds)) c
    (drain_pending_on_shutdown c cmds)"
proof -
  obtain ds c1 where d: "drain_commands c cmds = (ds, c1)" by (cases "drain_commands c cmds") auto
  note dq = drain_commands_quiet[OF d assms]
  from quiet_trans[OF conjunct1[OF dq] dispose_fold_quiet[of ds c1]] dq show ?thesis
    by (simp add: drain_pending_on_shutdown_def d)
qed

lemma drop_operations_core:
  "slots (drop_operations c) = slots c" "capacity_pending (drop_operations c) = capacity_pending c"
  "watchers (drop_operations c) = watchers c" "spent (log (drop_operations c)) = spent (log c)"
  "resolved (log (drop_operations c)) = resolved (log c)" "faults (drop_operations c) = faults c"
  "admissions (drop_operations c) = []" "completions (drop_operations c) = []"
  "removals (drop_operations c) = []" "identity_ops (drop_operations c) = []"
  "pump_is_empty (pump (drop_operations c))" "shutting_down (drop_operations c) = shutting_down c"
proof -
  have q: "quiet {#} {#} c (fold (\<lambda>(i, operation, reply). send_reply reply (Inl ShuttingDown)) xs c)"
    for xs :: "(task_id \<times> identity_operation \<times> reply_tx) list" and c
  proof (induction xs arbitrary: c)
    case (Cons x xs)
    obtain i operation reply where x: "x = (i, operation, reply)" by (cases x)
    show ?case using quiet_trans0[OF quiet_send_reply Cons] by (simp add: x)
  qed simp
  let ?c = "c\<lparr>pump := (pump c)\<lparr>cp_queued := [], cp_active := None\<rparr>, admissions := [],
    completions := [], removals := [], identity_ops := []\<rparr>"
  from quietD[OF q[of ?c "identity_ops c"]]
  show "slots (drop_operations c) = slots c" "capacity_pending (drop_operations c) = capacity_pending c"
    "watchers (drop_operations c) = watchers c" "spent (log (drop_operations c)) = spent (log c)"
    "resolved (log (drop_operations c)) = resolved (log c)" "faults (drop_operations c) = faults c"
    "admissions (drop_operations c) = []" "completions (drop_operations c) = []"
    "removals (drop_operations c) = []" "identity_ops (drop_operations c) = []"
    "pump_is_empty (pump (drop_operations c))" "shutting_down (drop_operations c) = shutting_down c"
    by (simp_all add: drop_operations_def pump_is_empty_def)
qed

lemma loop_exit_spec:
  assumes inv: "cinv K H E B W c" and "list_all command_fresh cmds"
  defines "c' \<equiv> loop_exit c cmds"
  shows "slots c' = fmempty" "queued_slots c' = fmempty" "capacity_pending c' = fmempty"
    "watchers c' = fmempty" "spent (log c') = B + sum_list (map command_bundles cmds)"
    "resolved (log c') = W + sum_list (map command_senders cmds)" "faults c' = 0" "shutting_down c'"
proof -
  let ?c1 = "drop_operations (ctl_mark_shutting_down c)"
  let ?c2 = "drain_pending_on_shutdown ?c1 cmds"
  let ?c3 = "finalize_slot_state_on_shutdown ?c2"
  let ?c4 = "ctl_mark_shutting_down ?c3"
  note q = drain_pending_quiet[OF assms(2), of ?c1]
  note core = quietD[OF q, unfolded drop_operations_core, unfolded ctl_mark_shutting_down_def,
      simplified]
  have fresh2: "bundles_fresh ?c2"
    using bundles_fresh_cinv[OF inv] core(2,4) by (simp add: bundles_fresh_def ctl_mark_shutting_down_def)
  note f3 = finalize_slot_state_spec[OF fresh2]
  have fresh4: "bundles_fresh ?c4" using f3 by (simp add: bundles_fresh_def ctl_mark_shutting_down_def)
  note f4 = finalize_slot_state_spec[OF fresh4]
  have c': "c' = finalize_slot_state_on_shutdown ?c4" by (simp add: c'_def loop_exit_def Let_def)
  have empty: "held fmempty fmempty = {#}" "waiting fmempty = {#}" by (simp_all add: held_def waiting_def)
  show "slots c' = fmempty" "queued_slots c' = fmempty" "capacity_pending c' = fmempty"
    "watchers c' = fmempty"
    using f4(1-4) by (simp_all add: c')
  show "spent (log c') = B + sum_list (map command_bundles cmds)"
    using f4(5) f3(1,3,5) core(2,4,13) cinvD(9)[OF inv] empty
    by (simp add: c' ctl_mark_shutting_down_def ac_simps)
  show "resolved (log c') = W + sum_list (map command_senders cmds)"
    using f4(6) f3(4,6) core(5,14) cinvD(10)[OF inv] empty
    by (simp add: c' ctl_mark_shutting_down_def ac_simps)
  show "faults c' = 0"
    using f4(7) f3(7) core(12) cinvD(11)[OF inv] by (simp add: c' ctl_mark_shutting_down_def)
  show "shutting_down c'" using f4(8) by (simp add: c' ctl_mark_shutting_down_def)
qed

end
