(* ===== verification/Controller_Behaviour.thy ===== *)
theory Controller_Behaviour
  imports Controller_Shutdown
begin

text \<open>
  What the admission policies and the handlers do on each branch, and a small concrete run of the
  controller that the witnesses of the development evaluate.
\<close>

section \<open>A concrete controller\<close>

definition demo_port :: core_port where
  "demo_port = \<lparr>port_queue = [], port_permits = 0, port_capacity = 8, port_closed = False,
     port_shutting_down = False\<rparr>"

definition demo_spec :: "admission_policy \<Rightarrow> controller_spec" where
  "demo_spec a = controller_spec_new a (task_spec_once ''job'' 7)"

text \<open>A watched submission: the waiter of identity \<open>i\<close> listens on the channel named \<open>i\<close>.\<close>

definition demo_sub :: "admission_policy \<Rightarrow> task_id \<Rightarrow> submission" where
  "demo_sub a i = \<lparr>sub_id = i, sub_owned = owned_task_new (demo_spec a) 7 (unat i), sub_done = Some i\<rparr>"

definition demo_start :: controller where
  "demo_start = controller_new controller_config_default demo_port {|1, 2, 3|} []"

text \<open>The first submission is handed to the registry, the second waits in the queue.\<close>

definition demo_one :: controller where
  "demo_one = handle_controller_command demo_start (Submit (demo_sub Queue 1))"

definition demo_two :: controller where
  "demo_two = handle_controller_command demo_one (Submit (demo_sub Queue 2))"

lemma demo_sub_simps [simp]:
  "sub_id (demo_sub a i) = i" "bundle_fresh (ot_cleanup (sub_owned (demo_sub a i)))"
  by (simp_all add: demo_sub_def owned_task_new_def bundle_fresh_new)

lemma demo_two_reachable: "ctl_reachable ([demo_sub Queue 1, demo_sub Queue 2], demo_two)"
proof -
  have "ctl_reachable ([], demo_start)"
    by (rule ctl_reachable_init)
      (auto simp: ctl_init_def demo_start_def demo_port_def port_wf_def intro!: exI)
  moreover have "ctl_step ([], demo_start) ([] @ [demo_sub Queue 1], demo_one)"
    unfolding demo_one_def by (rule ctl_step.submit) simp_all
  moreover have "ctl_step ([demo_sub Queue 1], demo_one) ([demo_sub Queue 1] @ [demo_sub Queue 2], demo_two)"
    unfolding demo_two_def by (rule ctl_step.submit) simp_all
  ultimately show ?thesis by (metis append_Cons append_Nil ctl_reachable_step)
qed

lemmas demo_eval = demo_start_def controller_new_def demo_sub_def demo_spec_def demo_port_def
  controller_spec_new_def task_spec_once_def task_spec_from_defaults_def ts_with_restart_def
  owned_task_new_def owned_task_map_def drop_bundle_new_def controller_config_default_def
  controller_config_new_def

lemmas handler_eval = handle_controller_command_def handle_submission_def Let_def upgrade_def
  sync_def is_shutting_down_def explicit_slot_rejection_def take_pending_def watcher_new_def
  park_def place_pending_def try_get_or_create_slot_def finish_placement_def placement_apply_def
  admit_idle_def start_in_slot_def is_idle_def add_task_with_id_watched_def
  try_reserve_command_admission_def port_try_reserve_def command_admission_def commit_add_def begin_admission_def
  track_admission_def
  guard_commit_def publish_submitted_def publish_def guard_drop_def put_slot_def slot_new_def
  port_send_def place_queue_def queue_full_reason_def try_push_queued_def pending_limit_hit_def
  index_queued_def pending_len_def hm_len_empty

lemma demo_one_slot:
  "fmlookup (slots demo_one) ''job'' = Some \<lparr>sl_phase = Admitting 1 0, sl_queue = []\<rparr>"
  "env demo_one = []" "sup_alive demo_one"
  by (simp_all add: demo_one_def demo_eval handler_eval)

section \<open>The loop without interference\<close>

text \<open>With an empty script no other thread moves while a handler runs.\<close>

lemma sync_calm: "env c = [] \<Longrightarrow> sync c = c"
  by (simp add: sync_def)

lemma upgrade_calm: "env c = [] \<Longrightarrow> upgrade c = (sup_alive c, c)"
  by (simp add: upgrade_def sync_calm)

lemma is_shutting_down_calm:
  "env c = [] \<Longrightarrow> is_shutting_down c = (shutdown_token c \<or> shutting_down c, c)"
  by (simp add: is_shutting_down_def sync_calm)

definition calm :: "controller \<Rightarrow> bool" where
  "calm c \<longleftrightarrow>
     env c = [] \<and> sup_alive c \<and> \<not> shutdown_token c \<and> \<not> shutting_down c
     \<and> \<not> port_shutting_down (port c)"

lemma start_in_slot_calm:
  assumes "calm c" and "permit_available (port c)" and "is_idle s"
  shows "start_in_slot c s n p =
    (None,
     (c\<lparr>watchers := fmdrop (ps_id p) (watchers c),
        port := (port c)\<lparr>port_queue := port_queue (port c) @
          [CmdAdd (ps_id p) (ps_task_name p) (ps_owned p) (fmlookup (watchers c) (ps_id p)) True]\<rparr>,
        admissions := admissions c @ [(ps_id p, n)],
        log := log c @
          [Published (with_id (ps_id p) (with_task (ps_task_name p) (event_new TaskAddRequested))),
           Committed (CmdAdd (ps_id p) (ps_task_name p) (ps_owned p)
             (fmlookup (watchers c) (ps_id p)) True)]\<rparr>),
     s\<lparr>sl_phase := Admitting (ps_id p) (clock c)\<rparr>)"
  using assms
  by (simp add: calm_def permit_available_def start_in_slot_def Let_def add_task_with_id_watched_def
      sync_def try_reserve_command_admission_def port_try_reserve_def command_admission_def commit_add_def publish_def
      port_send_def
      begin_admission_idle track_admission_def)

text \<open>
  C11. When the owner of a slot has physically completed and nothing interferes, the front of the
  queue, and no other submission, is handed to the registry: exactly one add command with its
  identity, payload and watcher is committed, the slot is admitting that identity, the rest of the
  queue keeps its order, and the hand-off is tracked.
\<close>

theorem completion_admits_queue_front:
  assumes "calm c" and "permit_available (port c)"
    and "fmlookup (slots c) n = Some s" and "phase_accepted (sl_phase s)" and "slot_owner s = Some i"
    and "sl_queue s = p # rest"
  shows "\<exists>c'. handle_completion_result c i n = c'
    \<and> fmlookup (slots c') n = Some \<lparr>sl_phase = Admitting (ps_id p) (clock c), sl_queue = rest\<rparr>
    \<and> (\<forall>m. m \<noteq> n \<longrightarrow> fmlookup (slots c') m = fmlookup (slots c) m)
    \<and> queued_slots c' = fmdrop (ps_id p) (queued_slots c)
    \<and> admissions c' = admissions c @ [(ps_id p, n)]
    \<and> log c' = log c @
        [Published (with_id (ps_id p) (with_task (ps_task_name p) (event_new TaskAddRequested))),
         Committed (CmdAdd (ps_id p) (ps_task_name p) (ps_owned p)
           (fmlookup (watchers c) (ps_id p)) True),
         Published (with_reason [Lit ''started_from_queue depth='', NatArg (length rest)]
           (with_id (ps_id p) (with_task n (event_new ControllerSubmitted))))]"
proof -
  let ?s = "s\<lparr>sl_phase := Idle\<rparr>" and ?c = "unindex_queued c (ps_id p)"
  have calm': "calm ?c" "permit_available (port ?c)"
    using assms(1,2) by (simp_all add: calm_def unindex_queued_def)
  have pop: "pop_queued_front c ?s = (Some p, ?c, ?s\<lparr>sl_queue := rest\<rparr>)"
    using assms(6) by (simp add: pop_queued_front_def)
  have idle: "is_idle (?s\<lparr>sl_queue := rest\<rparr>)" by (simp add: is_idle_def)
  note start = start_in_slot_calm[OF calm' idle, of n p]
  have eta: "?s\<lparr>sl_queue := rest, sl_phase := ph\<rparr> = \<lparr>sl_phase = ph, sl_queue = rest\<rparr>" for ph
    by (cases s) simp
  have "\<exists>c1. start_next_from_queue c ?s n =
      ([], c1, \<lparr>sl_phase = Admitting (ps_id p) (clock c), sl_queue = rest\<rparr>)
      \<and> slots c1 = slots c \<and> queued_slots c1 = fmdrop (ps_id p) (queued_slots c)
      \<and> admissions c1 = admissions c @ [(ps_id p, n)]
      \<and> log c1 = log c @
        [Published (with_id (ps_id p) (with_task (ps_task_name p) (event_new TaskAddRequested))),
         Committed (CmdAdd (ps_id p) (ps_task_name p) (ps_owned p)
           (fmlookup (watchers c) (ps_id p)) True),
         Published (with_reason [Lit ''started_from_queue depth='', NatArg (length rest)]
           (with_id (ps_id p) (with_task n (event_new ControllerSubmitted))))]"
    by (simp add: start_next_from_queue_def start_next_loop.simps[of c] pop start eta publish_def)
      (simp add: unindex_queued_def)
  then obtain c1 where adv: "start_next_from_queue c ?s n =
      ([], c1, \<lparr>sl_phase = Admitting (ps_id p) (clock c), sl_queue = rest\<rparr>)"
    and c1: "slots c1 = slots c" "queued_slots c1 = fmdrop (ps_id p) (queued_slots c)"
      "admissions c1 = admissions c @ [(ps_id p, n)]"
      "log c1 = log c @
        [Published (with_id (ps_id p) (with_task (ps_task_name p) (event_new TaskAddRequested))),
         Committed (CmdAdd (ps_id p) (ps_task_name p) (ps_owned p)
           (fmlookup (watchers c) (ps_id p)) True),
         Published (with_reason [Lit ''started_from_queue depth='', NatArg (length rest)]
           (with_id (ps_id p) (with_task n (event_new ControllerSubmitted))))]"
    by blast
  have "handle_completion_result c i n =
      put_slot c1 n \<lparr>sl_phase = Admitting (ps_id p) (clock c), sl_queue = rest\<rparr>"
    using assms
    by (simp add: handle_completion_result_def upgrade_calm calm_def complete_owner_eq
        advance_released_def is_shutting_down_calm adv gc_if_idle_def is_idle_def)
  then show ?thesis using c1 by simp
qed

text \<open>The witness: after the registry accepted the first submission, its completion admits the second.\<close>

definition demo_running :: controller where
  "demo_running = handle_registry_decision (demo_two\<lparr>admissions := []\<rparr>) 1 ''job'' (Inr ())"

lemma demo_running_facts:
  "calm demo_running" "permit_available (port demo_running)"
  "\<exists>p. fmlookup (slots demo_running) ''job'' = Some \<lparr>sl_phase = Running 1 0, sl_queue = [p]\<rparr> \<and> ps_id p = 2"
  by (simp_all add: demo_running_def demo_two_def demo_one_def demo_eval handler_eval
      handle_registry_decision_def confirm_admission_def track_completion_def publish_transition_def
      calm_def permit_available_def)

theorem completion_admits_queue_front_witness:
  "fmlookup (slots (handle_completion_result demo_running 1 ''job'')) ''job''
     = Some \<lparr>sl_phase = Admitting 2 (clock demo_running), sl_queue = []\<rparr>"
proof -
  obtain p where p: "fmlookup (slots demo_running) ''job'' = Some \<lparr>sl_phase = Running 1 0, sl_queue = [p]\<rparr>"
    "ps_id p = 2"
    using demo_running_facts(3) by blast
  show ?thesis
    using completion_admits_queue_front[OF demo_running_facts(1,2) p(1), of 1 p "[]"] p(2)
    by (auto simp: slot_owner_def)
qed

section \<open>Placement policies on an occupied slot\<close>

text \<open>
  A replacement submitted to an occupied slot with queued work takes the head of the queue:
  exactly the old head is displaced and leaves the index, every submission behind it keeps its
  place, the owner keeps the slot until it is released, and a running owner is asked to terminate by
  exactly one tracked removal. This holds for every interleaving.
\<close>

lemma replace_takes_queue_head:
  assumes "\<not> is_idle s" and "sl_queue s = h # rest" and "ps_id p \<noteq> ps_id h" and "parked w i"
    and "placement_apply c s n p Replace w = (r, c', s', w')"
  shows "sl_queue s' = p # rest \<and> slot_owner s' = slot_owner s
    \<and> (\<exists>d. r = Accepted (Some d) \<and> ps_id d = ps_id h)
    \<and> fmlookup (queued_slots c') (ps_id p) = Some n \<and> fmlookup (queued_slots c') (ps_id h) = None
    \<and> removals c' = removals c @
        (case sl_phase s of Running owner t \<Rightarrow> [(owner, n)] | _ \<Rightarrow> [])
    \<and> (\<forall>owner t. sl_phase s = Running owner t \<longrightarrow> (\<exists>t'. sl_phase s' = Terminating owner t'))"
proof -
  obtain d c1 s1 where rep: "replace_head_or_push c s n p = (d, c1, s1)"
    by (cases "replace_head_or_push c s n p") auto
  let ?c2 = "publish (rejected_event (Some n) (ps_id h) SupersededByReplace superseded_by_replace_text)
    (index_queued (unindex_queued c (ps_id h)) (ps_id p) n)"
  obtain t c3 where fin: "finalize_rejected ?c2 (ps_id h) SupersededByReplace superseded_by_replace_text
      = (t, c3)"
    by (cases "finalize_rejected ?c2 (ps_id h) SupersededByReplace superseded_by_replace_text") auto
  have core: "queued_slots c3 = queued_slots ?c2" "removals c3 = removals ?c2"
    using quietD(3,9)[OF conjunct1[OF finalize_rejected_quiet[OF fin]]] by simp_all
  have rep': "c1 = c3" "s1 = s\<lparr>sl_queue := p # rest\<rparr>" "\<exists>d'. d = Some d' \<and> ps_id d' = ps_id h"
    using rep fin assms(2) by (auto simp: replace_head_or_push_def Let_def split: option.splits)
  have c1: "fmlookup (queued_slots c1) (ps_id p) = Some n" "fmlookup (queued_slots c1) (ps_id h) = None"
    "removals c1 = removals c"
    using assms(3) core rep'(1)
    by (simp_all add: publish_def index_queued_def unindex_queued_def debug_check_def Let_def)
  obtain rs c2 s2 where ret: "retire_owner c1 s1 n (sl_phase s) = (rs, c2, s2)"
    by (cases "retire_owner c1 s1 n (sl_phase s)") auto
  have eq: "r = Accepted d" "c' = publish_submitted n (ps_id p) rs c2" "s' = s2"
    using assms(1,2,5) rep ret
    by (auto simp: placement_apply_def is_idle_iff place_replace_def try_replace_head_or_push_def
        guard_commit_parked[OF assms(4)])
  show ?thesis
    using ret c1 rep'(2,3) assms(1)
    by (cases "sl_phase s") (auto simp: eq retire_owner_def request_replacement_def is_idle_iff
        publish_transition_def publish_submitted_def publish_def track_removal_def slot_owner_def)
qed

text \<open>
  The \<open>Queue\<close> policy on an occupied slot, on every branch: a full slot queue is refused with
  \<open>QueueFull\<close> and the aggregate limit with \<open>ResourceLimit\<close>, both leaving slot and controller
  untouched and handing the submission back; otherwise the submission joins at the back of the
  queue and is indexed under its slot.
\<close>

lemma queue_policy_on_occupied_slot:
  assumes "\<not> is_idle s" and "parked w i" and "placement_apply c s n p Queue w = (r, c', s', w')"
  shows "if length (sl_queue s) \<ge> cc_max_slot_queue (config c)
    then (\<exists>reason. r = RejectedPlacement p QueueFull reason) \<and> c' = c \<and> s' = s
    else if pending_limit_hit c \<noteq> None
    then (\<exists>reason. r = RejectedPlacement p ResourceLimit reason) \<and> c' = c \<and> s' = s
    else r = Accepted None \<and> s' = s\<lparr>sl_queue := sl_queue s @ [p]\<rparr>
      \<and> queued_slots c' = fmupd (ps_id p) n (queued_slots c) \<and> slots c' = slots c"
  using assms
  by (auto simp: placement_apply_def is_idle_iff place_queue_def queue_full_reason_def
      try_push_queued_def guard_commit_parked publish_submitted_def publish_def index_queued_def
      debug_check_def Let_def split: option.splits)

text \<open>
  A watched \<open>DropIfRunning\<close> submission to an occupied slot changes no slot, no index and no
  tracked operation: when nothing interferes, the controller publishes one rejection, delivers one
  \<open>SlotBusy\<close> outcome to the waiting client and submits the cleanup bundle, in this order, whether
  or not the slot was named explicitly.
\<close>

lemma drop_if_running_rejects:
  assumes "calm c" and "sub_done sub = Some tx" and "tx |\<in>| live_rx c"
    and "cs_admission (ot_value (sub_owned sub)) = DropIfRunning"
    and "fmlookup (slots c) (cs_slot_name (ot_value (sub_owned sub))) = Some s" and "\<not> is_idle s"
    and "fmlookup (watchers c) (sub_id sub) = None"
  shows "\<exists>c'. handle_submission c sub = c' \<and> slots c' = slots c \<and> queued_slots c' = queued_slots c
    \<and> capacity_pending c' = capacity_pending c \<and> watchers c' = watchers c
    \<and> admissions c' = admissions c
    \<and> log c' = log c @
        [Published (rejected_event (Some (cs_slot_name (ot_value (sub_owned sub)))) (sub_id sub)
           SlotBusy (busy_reason s)),
         Delivered tx (OutRejected SlotBusy (busy_reason s)),
         Disposed (ot_cleanup (sub_owned sub))]"
proof -
  have drop: "fmdrop i (fmupd i tx (watchers c)) = watchers c" if "fmlookup (watchers c) i = None" for i
    using that by (intro fmap_ext) auto
  show ?thesis
  proof (cases "cs_slot (ot_value (sub_owned sub))")
    case (Some n)
    then show ?thesis using assms
      by (simp add: handle_submission_def Let_def upgrade_calm is_shutting_down_calm calm_def
          explicit_slot_rejection_def busy_rejection_def cs_slot_name_def reject_and_drop_def
          reject_with_event_def watcher_new_def guard_reject_def send_outcome_def sync_def
          dispose_owned_def dispose_bundle_def bundle_submit_def guard_drop_def publish_def)
  next
    case None
    then show ?thesis using assms drop
      by (simp add: handle_submission_def Let_def upgrade_calm is_shutting_down_calm calm_def
          explicit_slot_rejection_def cs_slot_name_def take_pending_def watcher_new_def park_def
          place_pending_def try_get_or_create_slot_def finish_placement_def placement_apply_def
          is_idle_iff reject_with_event_def guard_reject_def finalize_rejected_def send_rejected_def
          send_outcome_def sync_def put_slot_def fmupd_lookup_same drop_pending_submission_def
          dispose_bundle_def bundle_submit_def owned_task_map_def guard_drop_def publish_def)
  qed
qed

lemma drop_if_running_rejects_example:
  "slots (handle_submission demo_one (demo_sub DropIfRunning 2)) = slots demo_one
   \<and> demo_one = handle_controller_command demo_start (Submit (demo_sub Queue 1))"
proof -
  have "calm demo_one" "(2 :: task_id) |\<in>| live_rx demo_one" "fmlookup (watchers demo_one) 2 = None"
    by (simp_all add: demo_one_def demo_eval handler_eval calm_def)
  then show ?thesis
    using drop_if_running_rejects[of demo_one "demo_sub DropIfRunning 2" 2
        "\<lparr>sl_phase = Admitting 1 0, sl_queue = []\<rparr>"] demo_one_slot(1) demo_one_def
    by (simp add: demo_sub_def demo_spec_def controller_spec_new_def owned_task_new_def
        cs_slot_name_def task_spec_once_def task_spec_from_defaults_def ts_with_restart_def
        is_idle_def)
qed

section \<open>Claiming queued work\<close>

lemma list_remove_at_filter:
  "distinct (map f xs) \<Longrightarrow> list_position (\<lambda>x. f x = i) xs = Some k \<Longrightarrow>
     list_remove_at k xs = filter (\<lambda>x. f x \<noteq> i) xs"
proof (induction xs arbitrary: k)
  case (Cons x xs)
  show ?case
  proof (cases "f x = i")
    case True
    then have "i \<notin> f ` set xs" using Cons.prems(1) by simp
    then have "filter (\<lambda>x. f x \<noteq> i) xs = xs" by (intro filter_True) blast
    with True Cons.prems(2) show ?thesis by (auto simp: list_remove_at_def)
  next
    case False
    with Cons.prems obtain j where "list_position (\<lambda>x. f x = i) xs = Some j" "k = Suc j" by auto
    with Cons.IH[of j] Cons.prems(1) False show ?thesis by (simp add: list_remove_at_def)
  qed
qed simp

text \<open>
  Removing or cancelling a queued identity in a reachable controller while nothing interferes
  always succeeds: exactly that identity leaves its slot queue and the index, its parked outcome
  sender is resolved, every other slot, queue position, capacity waiter and sender is untouched.
\<close>

lemma remove_claims_queued_submission:
  assumes "ctl_reachable (subs, c)" and "calm c" and "\<not> port_closed (port c)"
    and "fmlookup (queued_slots c) i = Some n"
  shows "\<exists>c' s. remove_queued_submission c i rr = (True, c')
    \<and> fmlookup (slots c) n = Some s
    \<and> slots c' = fmupd n (s\<lparr>sl_queue := filter (\<lambda>p. ps_id p \<noteq> i) (sl_queue s)\<rparr>) (slots c)
    \<and> queued_slots c' = fmdrop i (queued_slots c)
    \<and> capacity_pending c' = capacity_pending c \<and> watchers c' = fmdrop i (watchers c)"
proof -
  note I = reachable_parts[OF assms(1)]
  obtain s where s: "fmlookup (slots c) n = Some s" "i \<in> ps_id ` set (sl_queue s)"
    using I(1) assms(4) unfolding index_ok_def by blast
  have busy: "\<not> is_idle s"
    using I(8) s(1) assms(2,3) by (auto simp: idle_ok_def stopped_def calm_def)
  have cap: "fmlookup (capacity_pending c) i = None"
  proof (rule ccontr)
    assume "fmlookup (capacity_pending c) i \<noteq> None"
    then obtain w where "fmlookup (capacity_pending c) i = Some w" by auto
    from capacity_okE[OF I(3) this] owners_okD(2)[OF I(2)] assms(4) show False
      by (metis option.distinct(1))
  qed
  obtain k where k: "list_position (\<lambda>p. ps_id p = i) (sl_queue s) = Some k"
    using s(2) by (cases "list_position (\<lambda>p. ps_id p = i) (sl_queue s)") (auto simp: list_position_None)
  note pos = list_position_Some[OF k]
  have dist: "distinct (map ps_id (sl_queue s))" using I(1) s(1) unfolding index_ok_def by blast
  have rm: "list_remove_at k (sl_queue s) = filter (\<lambda>p. ps_id p \<noteq> i) (sl_queue s)"
    by (rule list_remove_at_filter[OF dist k])
  let ?p = "sl_queue s ! k"
  let ?c2 = "publish (rejected_event (Some n) i RemovedFromQueue removed_from_queue_text)
    (unindex_queued (publish (remove_requested_event (ps_task_name ?p) i rr) c) i)"
  obtain t c3 where fin: "finalize_rejected ?c2 i RemovedFromQueue removed_from_queue_text = (t, c3)"
    by (cases "finalize_rejected ?c2 i RemovedFromQueue removed_from_queue_text") auto
  let ?s = "s\<lparr>sl_queue := filter (\<lambda>p. ps_id p \<noteq> i) (sl_queue s)\<rparr>"
  have res: "remove_queued_submission c i rr = (True, drop_pending_submission (gc_if_idle c3 n ?s) ?p t)"
    using assms(2,4) cap s(1) k pos fin rm
    by (simp add: remove_queued_submission_def claim_route_def is_shutting_down_calm calm_def
        remove_in_slot_def claim_capacity_pending_def remove_queued_at_def Let_def)
  have gc: "gc_if_idle c3 n ?s = put_slot c3 n ?s"
    using busy by (simp add: gc_if_idle_def is_idle_def)
  note q = quietD(2-5)[OF conjunct1[OF finalize_rejected_quiet[OF fin]]]
  show ?thesis
    using res s(1) q
    by (simp add: gc drop_pending_submission_def dispose_bundle_def Let_def publish_def
        unindex_queued_def)
qed

lemma remove_claims_queued_submission_example:
  "\<exists>c'. remove_queued_submission demo_two 2 None = (True, c')
     \<and> fmlookup (queued_slots c') 2 = None \<and> fmlookup (queued_slots demo_two) 2 = Some ''job''"
proof -
  have "calm demo_two" "\<not> port_closed (port demo_two)" "fmlookup (queued_slots demo_two) 2 = Some ''job''"
    by (simp_all add: demo_two_def demo_one_def demo_eval handler_eval calm_def)
  with remove_claims_queued_submission[OF demo_two_reachable, of 2 "''job''" None] show ?thesis by auto
qed

end
