(* ===== verification/Controller_Shell.thy ===== *)
theory Controller_Shell
  imports Controller_System
begin

text \<open>
  What the controller owes to the other side of its channels: permits of the registry command
  channel and replies of identity operations. \<open>shell g k ops R c\<close> fixes the number of outstanding
  permits, the tracked identity operations and the replies sent so far, and says that the command
  channel is within its capacity. Every operation of the loop keeps it, except the commit of a
  reserved permit and the handling of an identity operation, whose exact effect is shown below.
\<close>

section \<open>The frame\<close>

fun effect_replies :: "effect \<Rightarrow> reply_tx multiset" where
  "effect_replies (Replied tx _) = {#tx#}"
| "effect_replies _ = {#}"

definition replied :: "effect list \<Rightarrow> reply_tx multiset" where
  "replied l = sum_list (map effect_replies l)"

definition shell ::
  "controller_config \<Rightarrow> nat \<Rightarrow> (task_id \<times> identity_operation \<times> reply_tx) list
     \<Rightarrow> reply_tx multiset \<Rightarrow> controller \<Rightarrow> bool" where
  "shell g k ops R c \<longleftrightarrow>
     config c = g \<and> port_permits (port c) = k \<and> port_wf (port c) \<and> identity_ops c = ops
     \<and> replied (log c) = R"

lemma shell_fields [simp]:
  "shell g k ops R (c\<lparr>slots := x1\<rparr>) = shell g k ops R c"
  "shell g k ops R (c\<lparr>queued_slots := x2\<rparr>) = shell g k ops R c"
  "shell g k ops R (c\<lparr>capacity_pending := x3\<rparr>) = shell g k ops R c"
  "shell g k ops R (c\<lparr>watchers := x4\<rparr>) = shell g k ops R c"
  "shell g k ops R (c\<lparr>pump := x5\<rparr>) = shell g k ops R c"
  "shell g k ops R (c\<lparr>admissions := x6\<rparr>) = shell g k ops R c"
  "shell g k ops R (c\<lparr>completions := x7\<rparr>) = shell g k ops R c"
  "shell g k ops R (c\<lparr>removals := x8\<rparr>) = shell g k ops R c"
  "shell g k ops R (c\<lparr>env := x9\<rparr>) = shell g k ops R c"
  "shell g k ops R (c\<lparr>faults := x10\<rparr>) = shell g k ops R c"
  by (simp_all add: shell_def)

lemma shell_log: "shell g k ops R c \<Longrightarrow> shell g k ops (R + effect_replies e) (c\<lparr>log := log c @ [e]\<rparr>)"
  by (simp add: shell_def replied_def)

lemma shell_log0 [simp]:
  "effect_replies e = {#} \<Longrightarrow> shell g k ops R (c\<lparr>log := log c @ [e]\<rparr>) = shell g k ops R c"
  by (simp add: shell_def replied_def)

lemma shell_primitives [simp]:
  "shell g k ops R (publish e c) = shell g k ops R c"
  "shell g k ops R (debug_check b c) = shell g k ops R c"
  "shell g k ops R (put_slot c n s) = shell g k ops R c"
  "shell g k ops R (gc_if_idle c n s) = shell g k ops R c"
  "shell g k ops R (track_admission c i n) = shell g k ops R c"
  "shell g k ops R (track_completion c i n) = shell g k ops R c"
  "shell g k ops R (track_removal c i n) = shell g k ops R c"
  "shell g k ops R (index_queued c i n) = shell g k ops R c"
  "shell g k ops R (unindex_queued c i) = shell g k ops R c"
  "shell g k ops R (unindex_capacity_pending c i) = shell g k ops R c"
  "shell g k ops R (restore_watcher c i d) = shell g k ops R c"
  "shell g k ops R (dispose_bundle c bundle t) = shell g k ops R c"
  "shell g k ops R (drop_pending_submission c p t) = shell g k ops R c"
  "shell g k ops R (drop_start_failure c u t) = shell g k ops R c"
  "shell g k ops R (publish_transition n rs c) = shell g k ops R c"
  "shell g k ops R (publish_submitted n i rs c) = shell g k ops R c"
  by (auto simp: publish_def debug_check_def put_slot_def gc_if_idle_def track_admission_def
      track_completion_def track_removal_def index_queued_def unindex_queued_def Let_def
      unindex_capacity_pending_def restore_watcher_def dispose_bundle_def
      drop_pending_submission_def drop_start_failure_def publish_transition_def
      publish_submitted_def split: option.splits)

lemma shell_drops [simp]: "shell g k ops R (drop_pending_submissions c ds) = shell g k ops R c"
  by (induction c ds rule: drop_pending_submissions.induct) simp_all

lemma shell_env_step: "shell g k ops R c \<Longrightarrow> shell g k ops R (env_step m c)"
proof (cases m)
  case (OtherSend cmd)
  assume "shell g k ops R c"
  then show ?thesis
    using OtherSend
    by (auto simp: shell_def port_wf_def port_other_send_def)
qed (auto simp: shell_def port_wf_def mark_shutting_down_def)

lemma shell_sync: "shell g k ops R c \<Longrightarrow> shell g k ops R (sync c)"
proof -
  have "shell g k ops R c \<Longrightarrow> shell g k ops R (fold env_step ms c)" for ms c
    by (induction ms arbitrary: c) (simp_all add: shell_env_step)
  then show "shell g k ops R c \<Longrightarrow> shell g k ops R (sync c)"
    by (simp add: sync_def split: list.splits)
qed

section \<open>Operations that keep the frame\<close>

named_theorems shell_rules \<open>operations of the loop that keep the frame\<close>

lemma shell_reads [shell_rules]:
  "is_shutting_down c = (b, c') \<Longrightarrow> shell g k ops R c \<Longrightarrow> shell g k ops R c'"
  "upgrade c = (b, c') \<Longrightarrow> shell g k ops R c \<Longrightarrow> shell g k ops R c'"
  by (auto simp: is_shutting_down_def upgrade_def Let_def shell_sync)

lemma shell_outcomes [shell_rules]:
  "send_outcome c tx o' = (r, c') \<Longrightarrow> shell g k ops R c \<Longrightarrow> shell g k ops R c'"
  "send_rejected c d kind rs = (r, c') \<Longrightarrow> shell g k ops R c \<Longrightarrow> shell g k ops R c'"
  "finalize_rejected c i kind rs = (r, c') \<Longrightarrow> shell g k ops R c \<Longrightarrow> shell g k ops R c'"
  by (auto simp: send_outcome_def send_rejected_def finalize_rejected_def Let_def shell_sync
      split: if_splits option.splits)

lemma shell_queue_ops [shell_rules]:
  "pop_queued_front c s = (p, c', s') \<Longrightarrow> shell g k ops R c \<Longrightarrow> shell g k ops R c'"
  "try_push_queued c s n q = (r, c', s') \<Longrightarrow> shell g k ops R c \<Longrightarrow> shell g k ops R c'"
  "remove_queued_at c s j = (p, c', s') \<Longrightarrow> shell g k ops R c \<Longrightarrow> shell g k ops R c'"
  "try_get_or_create_slot c n = (x, c') \<Longrightarrow> shell g k ops R c \<Longrightarrow> shell g k ops R c'"
  "try_index_capacity_pending c i w = (y, c') \<Longrightarrow> shell g k ops R c \<Longrightarrow> shell g k ops R c'"
  "claim_capacity_pending c i = (z, c') \<Longrightarrow> shell g k ops R c \<Longrightarrow> shell g k ops R c'"
  by (auto simp: pop_queued_front_def try_push_queued_def remove_queued_at_def Let_def
      try_get_or_create_slot_def try_index_capacity_pending_def claim_capacity_pending_def
      split: list.splits option.splits if_splits)

lemma shell_replace_head [shell_rules]:
  "replace_head_or_push c s n p = (r, c', s') \<Longrightarrow> shell g k ops R c \<Longrightarrow> shell g k ops R c'"
  "try_replace_head_or_push c s n p = (x, c', s') \<Longrightarrow> shell g k ops R c \<Longrightarrow> shell g k ops R c'"
proof -
  show r: "replace_head_or_push c s n p = (r, c', s') \<Longrightarrow> shell g k ops R c \<Longrightarrow> shell g k ops R c'"
    for r s'
    using shell_outcomes(3) by (fastforce simp: replace_head_or_push_def Let_def split: list.splits prod.splits)
  show "try_replace_head_or_push c s n p = (x, c', s') \<Longrightarrow> shell g k ops R c \<Longrightarrow> shell g k ops R c'"
    using r by (auto simp: try_replace_head_or_push_def split: if_splits option.splits prod.splits)
qed

lemma shell_try_reserve:
  assumes "try_reserve_command_admission c = (x, c')" and "shell g k ops R c"
  shows "shell g (if x = None then Suc k else k) ops R c'"
proof -
  have two: "shell g k ops R (sync (sync c))" by (intro shell_sync assms(2))
  have three: "shell g (Suc k) ops R (sync ((sync (sync c))\<lparr>port := q\<rparr>))"
    if "port_try_reserve (port (sync (sync c))) = Inr q" for q
    using two that port_wf_reserve[OF that] by (intro shell_sync) (auto simp: shell_def port_try_reserve_Inr)
  have drop: "shell g (Suc k) ops R u \<Longrightarrow> shell g k ops R (u\<lparr>port := port_drop_permit (port u)\<rparr>)" for u
    by (auto simp: shell_def port_wf_drop) (simp add: port_drop_permit_def)
  show ?thesis
    using assms(1) two three drop[OF three] shell_sync[OF assms(2)]
    by (auto simp: try_reserve_command_admission_def Let_def split: if_splits sum.splits try_send_error.splits)
qed

lemma shell_add_task [shell_rules]:
  "add_task_with_id_watched c i n owned d = (r, c') \<Longrightarrow> shell g k ops R c \<Longrightarrow> shell g k ops R c'"
proof -
  assume run: "add_task_with_id_watched c i n owned d = (r, c')" and sh: "shell g k ops R c"
  obtain x c1 where x: "try_reserve_command_admission c = (x, c1)" by fastforce
  from shell_try_reserve[OF x sh] run x show ?thesis
    by (cases x)
      (auto simp: add_task_with_id_watched_def Let_def commit_add_def publish_def shell_def port_send_def port_wf_def replied_def)
qed

lemma shell_start_in_slot [shell_rules]:
  assumes "start_in_slot c s n p = (r, c', s')" and "shell g k ops R c"
  shows "shell g k ops R c'"
proof -
  let ?c0 = "(debug_check (is_idle s) c)\<lparr>watchers := fmdrop (ps_id p) (watchers (debug_check (is_idle s) c))\<rparr>"
  obtain x ca where add: "add_task_with_id_watched ?c0 (ps_id p) (ps_task_name p) (ps_owned p)
      (fmlookup (watchers (debug_check (is_idle s) c)) (ps_id p)) = (x, ca)"
    by (cases "add_task_with_id_watched ?c0 (ps_id p) (ps_task_name p) (ps_owned p)
      (fmlookup (watchers (debug_check (is_idle s) c)) (ps_id p))")
  have "shell g k ops R ca" using shell_add_task[OF add] assms(2) by simp
  with assms(1) add show ?thesis
    by (auto simp: start_in_slot_def Let_def dest!: shell_queue_ops(5)[where g = g and k = k and ops = ops and R = R]
        split: option.splits prod.splits sum.splits if_splits)
qed

lemma shell_start_next_loop [shell_rules]:
  "start_next_loop c s n ds = (r, c', s') \<Longrightarrow> shell g k ops R c \<Longrightarrow> shell g k ops R c'"
proof (induction c s n ds rule: start_next_loop.induct)
  case (1 c s n ds)
  obtain x ca sa where pop: "pop_queued_front c s = (x, ca, sa)" by (cases "pop_queued_front c s")
  have ca: "shell g k ops R ca" by (rule shell_queue_ops(1)[OF pop 1(3)])
  show ?case
  proof (cases x)
    case None
    with 1(2) pop ca show ?thesis by (simp add: start_next_loop.simps[of c])
  next
    case (Some nxt)
    obtain y cb sb where start: "start_in_slot ca sa n nxt = (y, cb, sb)"
      by (cases "start_in_slot ca sa n nxt")
    have cb: "shell g k ops R cb" by (rule shell_start_in_slot[OF start ca])
    show ?thesis
    proof (cases y)
      case None
      with 1(2) pop start Some cb show ?thesis by (auto simp: start_next_loop.simps[of c])
    next
      case (Some u)
      let ?kind = "rejection_kind_for_runtime_error (uc_error u)"
      let ?r = "[Lit ''queue_start_failed: '', ErrArg (uc_error u)]"
      let ?cc = "publish (rejected_event (Some n) (ps_id nxt) ?kind ?r) cb"
      obtain t cd where fin: "finalize_rejected ?cc (ps_id nxt) ?kind ?r = (t, cd)"
        by (cases "finalize_rejected ?cc (ps_id nxt) ?kind ?r")
      have cd: "shell g k ops R cd" using shell_outcomes(3)[OF fin] cb by simp
      have "start_next_loop cd sb n (ds @ [(u, t)]) = (r, c', s')"
        using 1(2) pop start \<open>x = Some nxt\<close> Some fin by (simp add: start_next_loop.simps[of c])
      from 1(1)[OF pop[symmetric] \<open>x = Some nxt\<close> refl start[symmetric] Some refl refl refl refl
          fin[symmetric] refl this cd]
      show ?thesis .
    qed
  qed
qed

lemma shell_start_next [shell_rules]:
  "start_next_from_queue c s n = (r, c', s') \<Longrightarrow> shell g k ops R c \<Longrightarrow> shell g k ops R c'"
  by (auto simp: start_next_from_queue_def Let_def dest: shell_start_next_loop split: if_splits)

lemma shell_advance [shell_rules]:
  assumes "advance_released skip need c s n = (r, c', s')" and "shell g k ops R c"
  shows "shell g k ops R c'"
  using assms shell_reads shell_start_next
  by (fastforce simp: advance_released_def Let_def split: if_splits prod.splits)

section \<open>Submissions\<close>

lemma shell_guard [shell_rules]:
  "dispose_owned c w t = (c', w') \<Longrightarrow> shell g k ops R c \<Longrightarrow> shell g k ops R c'"
  "park c w = (c', w') \<Longrightarrow> shell g k ops R c \<Longrightarrow> shell g k ops R c'"
  "guard_commit c w = (c', w') \<Longrightarrow> shell g k ops R c \<Longrightarrow> shell g k ops R c'"
  by (auto simp: dispose_owned_def park_def guard_commit_def
      split: option.splits admission_watcher_state.splits)

lemma shell_guard_reject [shell_rules]:
  assumes "guard_reject c w kind r = (t, c', w')" and "shell g k ops R c"
  shows "shell g k ops R c'"
proof -
  obtain x ca where x: "(case aw_state w of
               Local (Some tx) \<Rightarrow> send_outcome c tx (OutRejected kind r)
             | Parked \<Rightarrow> finalize_rejected c (aw_id w) kind r
             | _ \<Rightarrow> (None, c)) = (x, ca)" by fastforce
  then have "shell g k ops R ca"
    using assms(2) shell_outcomes by (auto split: admission_watcher_state.splits option.splits)
  with assms(1) x show ?thesis
    by (auto simp: guard_reject_def Let_def dest: shell_guard(1) split: if_splits prod.splits)
qed

lemma shell_reject_with_event [shell_rules]:
  "reject_with_event c w kind r = (t, c', w') \<Longrightarrow> shell g k ops R c \<Longrightarrow> shell g k ops R c'"
  using shell_guard_reject by (fastforce simp: reject_with_event_def split: if_splits)

lemma shell_guard_drop: "shell g k ops R c \<Longrightarrow> shell g k ops R (guard_drop c w)"
  using shell_reject_with_event
  by (cases "reject_with_event c w AdmissionFailed controller_admission_interrupted_text")
    (fastforce simp: guard_drop_def)

lemma shell_reject_and_drop: "shell g k ops R c \<Longrightarrow> shell g k ops R (reject_and_drop c w kind r)"
  by (cases "reject_with_event c w kind r")
    (auto simp: reject_and_drop_def intro!: shell_guard_drop dest: shell_reject_with_event)

lemma shell_retire_owner [shell_rules]:
  "retire_owner c s n phase = (r, c', s') \<Longrightarrow> shell g k ops R c \<Longrightarrow> shell g k ops R c'"
  by (auto simp: retire_owner_def Let_def split: slot_phase.splits replace_action.splits prod.splits)

lemma shell_placement [shell_rules]:
  assumes "placement_apply c s n p a w = (x, c', s', w')" and "shell g k ops R c"
  shows "shell g k ops R c'"
proof -
  have idle: "shell g k ops R c'" if "admit_idle c s n p a w = (x, c', s', w')"
    using that assms(2) shell_start_in_slot shell_guard(3)
    by (fastforce simp: admit_idle_def split: option.splits prod.splits)
  have replace: "shell g k ops R c'" if "place_replace c s n p (sl_phase s) w = (x, c', s', w')"
    using that assms(2) shell_replace_head(2) shell_guard(3) shell_retire_owner
    by (fastforce simp: place_replace_def Let_def split: sum.splits prod.splits)
  have queue: "shell g k ops R c'" if "place_queue c s n p w = (x, c', s', w')"
    using that assms(2) shell_queue_ops(2) shell_guard(3)
    by (fastforce simp: place_queue_def split: option.splits sum.splits prod.splits)
  show ?thesis
    using assms idle replace queue
    by (auto simp: placement_apply_def split: if_splits admission_policy.splits)
qed

lemma shell_finish_placement:
  assumes "shell g k ops R c"
  shows "shell g k ops R (finish_placement c s n p a w)"
proof -
  obtain x ca sa wa where pl: "placement_apply c s n p a w = (x, ca, sa, wa)"
    by (cases "placement_apply c s n p a w")
  have ca: "shell g k ops R ca" by (rule shell_placement[OF pl assms])
  have rej: "shell g k ops R c2" if "reject_with_event ca wa kind r = (t, c2, w2)" for kind r t c2 w2
    by (rule shell_reject_with_event[OF that ca])
  show ?thesis
    using pl ca rej
    by (auto simp: finish_placement_def Let_def intro!: shell_guard_drop
        split: placement_outcome.splits option.splits prod.splits)
qed

lemma shell_place_pending:
  assumes "shell g k ops R c"
  shows "shell g k ops R (place_pending c n p a w)"
proof -
  obtain x ca where get: "try_get_or_create_slot c n = (x, ca)" by (cases "try_get_or_create_slot c n")
  have ca: "shell g k ops R ca" by (rule shell_queue_ops(4)[OF get assms])
  obtain b cb where sd: "is_shutting_down ca = (b, cb)" by (cases "is_shutting_down ca")
  have cb: "shell g k ops R cb" by (rule shell_reads(1)[OF sd ca])
  have rej: "shell g k ops R c2" if "reject_with_event c1 w kind r = (t, c2, w2)" "shell g k ops R c1"
    for c1 kind r t c2 w2
    by (rule shell_reject_with_event[OF that])
  show ?thesis
    using get sd ca cb
    by (auto simp: place_pending_def Let_def intro!: shell_guard_drop shell_finish_placement
        intro: rej split: sum.splits prod.splits if_splits)
qed

lemma shell_handle_submission:
  assumes "shell g k ops R c"
  shows "shell g k ops R (handle_submission c sub)"
proof -
  obtain up ca where u: "upgrade c = (up, ca)" by (cases "upgrade c")
  obtain b cb where sd: "is_shutting_down ca = (b, cb)" by (cases "is_shutting_down ca")
  let ?spec = "ot_value (sub_owned sub)"
  obtain y cc where ex: "explicit_slot_rejection cb (cs_slot ?spec) (cs_admission ?spec) = (y, cc)"
    by (cases "explicit_slot_rejection cb (cs_slot ?spec) (cs_admission ?spec)")
  have ca: "shell g k ops R ca" and cb: "shell g k ops R cb"
    using shell_reads(2)[OF u assms] shell_reads(1)[OF sd] by blast+
  then have cc: "shell g k ops R cc"
    using ex shell_reads(1)
    by (fastforce simp: explicit_slot_rejection_def split: option.splits prod.splits if_splits)
  show ?thesis
    using u sd ex ca cb cc shell_guard(2)
    by (fastforce simp: handle_submission_def Let_def shell_reject_and_drop shell_guard_drop
        shell_place_pending split: option.splits prod.splits if_splits)
qed

section \<open>Results\<close>

lemma shell_handle_registry_decision:
  assumes "shell g k ops R c"
  shows "shell g k ops R (handle_registry_decision c i n d)"
proof -
  have adv: "shell g k ops R c'" if "advance_released False True c s n = (r, c', s')" for r c' s s'
    by (rule shell_advance[OF that assms])
  show ?thesis
    using assms adv shell_reads(2)
    by (fastforce simp: handle_registry_decision_def Let_def
        split: option.splits sum.splits prod.splits admission_transition.splits bool.splits if_splits)
qed

lemma shell_handle_completion_result:
  assumes "shell g k ops R c"
  shows "shell g k ops R (handle_completion_result c i n)"
proof -
  obtain up ca where u: "upgrade c = (up, ca)" by (cases "upgrade c")
  have ca: "shell g k ops R ca" by (rule shell_reads(2)[OF u assms])
  have adv: "shell g k ops R c'" if "advance_released False False ca s n = (r, c', s')" for r c' s s'
    by (rule shell_advance[OF that ca])
  show ?thesis
    using u ca adv
    by (fastforce simp: handle_completion_result_def Let_def
        split: option.splits prod.splits bool.splits if_splits)
qed

lemma shell_handle_removal_result:
  "shell g k ops R c \<Longrightarrow> shell g k ops R (handle_removal_result c i n d)"
  by (auto simp: handle_removal_result_def split: option.splits sum.splits)

text \<open>A granted reservation is one permit, which the handler uses or gives back.\<close>

definition granted_permits :: "(runtime_error, unit) result \<Rightarrow> nat" where
  "granted_permits d = (case d of Inl _ \<Rightarrow> 0 | Inr _ \<Rightarrow> 1)"

lemma shell_drop_decision:
  "shell g (k + granted_permits d) ops R c \<Longrightarrow> shell g k ops R (drop_decision d c)"
  by (auto simp: drop_decision_def granted_permits_def shell_def port_wf_def port_drop_permit_def
      split: sum.splits)

lemma shell_commit_reserved:
  assumes "commit_reserved_controller_add c i n owned d = (r, c')" and "shell g (Suc k) ops R c"
  shows "shell g k ops R c'"
proof -
  have "shell g (Suc k) ops R (sync c)" using assms(2) by (rule shell_sync)
  with assms(1) show ?thesis
    by (auto simp: commit_reserved_controller_add_def Let_def shell_def port_wf_def
        port_drop_permit_def commit_add_def publish_def port_send_def replied_def split: if_splits)
qed

lemma shell_commit_capacity:
  assumes "commit_capacity c i p d' d = (r, c')" and "shell g (k + granted_permits d) ops R c"
  shows "shell g k ops R c'"
proof (cases d)
  case (Inl e)
  with assms show ?thesis by (simp add: commit_capacity_def granted_permits_def)
next
  case (Inr x)
  obtain up ca where u: "upgrade c = (up, ca)" by (cases "upgrade c")
  have ca: "shell g (Suc k) ops R ca"
    using shell_reads(2)[OF u assms(2)] Inr by (simp add: granted_permits_def)
  show ?thesis
  proof (cases up)
    case True
    with assms(1) Inr u show ?thesis
      using shell_commit_reserved[OF _ ca] by (auto simp: commit_capacity_def)
  next
    case False
    with assms(1) Inr u ca show ?thesis
      using shell_drop_decision[of g k d] by (auto simp: commit_capacity_def granted_permits_def)
  qed
qed

lemma shell_reject_stale_capacity:
  assumes "shell g (k + granted_permits d) ops R c"
  shows "shell g k ops R (reject_stale_capacity c i d)"
proof -
  obtain x ca where claim: "claim_capacity_pending c i = (x, ca)" by (cases "claim_capacity_pending c i")
  have ca: "shell g (k + granted_permits d) ops R ca" by (rule shell_queue_ops(6)[OF claim assms])
  have "shell g (k + granted_permits d) ops R (reject_claimed_capacity ca i w dn kd r)" for w dn kd r
    using ca shell_outcomes(2)[where k = "k + granted_permits d"]
    by (fastforce simp: reject_claimed_capacity_def Let_def split: prod.splits)
  with claim ca show ?thesis
    by (auto simp: reject_stale_capacity_def intro: shell_drop_decision split: option.splits)
qed

lemma shell_handle_registry_capacity_result:
  assumes "shell g (k + granted_permits d) ops R c"
  shows "shell g k ops R (handle_registry_capacity_result c i d)"
proof (cases "fmlookup (capacity_pending c) i")
  case None
  with shell_drop_decision[OF assms] show ?thesis by (simp add: handle_registry_capacity_result_def)
next
  case (Some e)
  let ?n = "ce_slot_name e"
  obtain x ca where claim: "claim_capacity_pending c i = (x, ca)" by (cases "claim_capacity_pending c i")
  have ca: "shell g (k + granted_permits d) ops R ca" by (rule shell_queue_ops(6)[OF claim assms])
  show ?thesis
  proof (cases "\<exists>s. fmlookup (slots c) ?n = Some s \<and> slot_owner s = Some i")
    case False
    with Some shell_reject_stale_capacity[OF assms] show ?thesis
      by (cases "fmlookup (slots c) ?n") (simp_all add: handle_registry_capacity_result_def Let_def)
  next
    case True
    then obtain s where s: "fmlookup (slots c) ?n = Some s" "slot_owner s = Some i" by blast
    from Some have x: "x = Some (e, fmlookup (watchers c) i)"
      using claim by (simp add: claim_capacity_pending_def)
    let ?cb = "debug_check (ps_id (ce_pending e) = i) (debug_check (ce_slot_name e = ?n) ca)"
    obtain y cc where com: "commit_capacity ?cb i (ce_pending e) (fmlookup (watchers c) i) d = (y, cc)"
      by (cases "commit_capacity ?cb i (ce_pending e) (fmlookup (watchers c) i) d")
    have cc: "shell g k ops R cc" using shell_commit_capacity[OF com] ca by simp
    show ?thesis
    proof (cases y)
      case None
      with Some s claim x com cc show ?thesis
        by (simp add: handle_registry_capacity_result_def Let_def)
    next
      case (Some u)
      obtain kd r where kr: "(if uc_error u = ShuttingDown
          then (ControllerShuttingDown, controller_shutting_down_text)
          else (rejection_kind_for_runtime_error (uc_error u),
                [Lit ''add_failed: '', ErrArg (uc_error u)])) = (kd, r)"
        by (cases "uc_error u = ShuttingDown") simp_all
      let ?cd = "publish (rejected_event (Some ?n) i kd r) (restore_watcher cc i (uc_done u))"
      obtain t ce where fin: "finalize_rejected ?cd i kd r = (t, ce)"
        by (cases "finalize_rejected ?cd i kd r")
      obtain cl s1 where rj: "reject_admission s i = (cl, s1)" by (cases "reject_admission s i")
      obtain ds cf s2 where adv: "advance_released (uc_error u = ShuttingDown) True (debug_check cl ce) s1 ?n
          = (ds, cf, s2)"
        by (cases "advance_released (uc_error u = ShuttingDown) True (debug_check cl ce) s1 ?n")
      have "shell g k ops R ce" using shell_outcomes(3)[OF fin] cc by simp
      then have "shell g k ops R cf" using shell_advance[OF adv] by simp
      moreover have "handle_registry_capacity_result c i d =
          drop_pending_submissions (drop_start_failure (gc_if_idle cf ?n s2) (u\<lparr>uc_done := None\<rparr>) t) ds"
        using \<open>fmlookup (capacity_pending c) i = Some e\<close> s claim x com Some kr fin rj adv
        by (cases "uc_error u = ShuttingDown") (simp_all add: handle_registry_capacity_result_def Let_def)
      ultimately show ?thesis by simp
    qed
  qed
qed

section \<open>Identity operations\<close>

lemma shell_cancel_claimed [shell_rules]:
  "cancel_claimed c i n w d rr = (t, c') \<Longrightarrow> shell g k ops R c \<Longrightarrow> shell g k ops R c'"
  by (auto simp: cancel_claimed_def Let_def dest!: shell_outcomes(2)[where g = g and k = k and ops = ops and R = R]
      split: prod.splits)

lemma shell_remove_in_slot [shell_rules]:
  assumes "remove_in_slot c s n i rr = (b, c')" and "shell g k ops R c"
  shows "shell g k ops R c'"
proof -
  obtain x ca where claim: "claim_capacity_pending c i = (x, ca)" by (cases "claim_capacity_pending c i")
  have ca: "shell g k ops R ca" by (rule shell_queue_ops(6)[OF claim assms(2)])
  show ?thesis
  proof (cases x)
    case None
    have rm: "shell g k ops R c1" if "remove_queued_at (publish e ca) s j = (y, c1, s1)" for e j y c1 s1
      using shell_queue_ops(3)[OF that] ca by simp
    have fin: "shell g k ops R c2" if "finalize_rejected (publish e' c1) i kd r = (t, c2)"
        "remove_queued_at (publish e ca) s j = (y, c1, s1)" for e e' j y c1 s1 kd r t c2
      using shell_outcomes(3)[OF that(1)] rm[OF that(2)] by simp
    from None assms(1) claim ca rm show ?thesis
      by (auto simp: remove_in_slot_def Let_def intro: fin split: option.splits prod.splits)
  next
    case (Some wd)
    obtain w d where wd: "wd = (w, d)" by (cases wd)
    obtain t cb where can: "cancel_claimed ca i n w d rr = (t, cb)" by (cases "cancel_claimed ca i n w d rr")
    obtain cl s1 where rj: "reject_admission s i = (cl, s1)" by (cases "reject_admission s i")
    obtain up cd where u: "upgrade (debug_check cl cb) = (up, cd)" by (cases "upgrade (debug_check cl cb)")
    obtain ds ce s2 where nx: "(if up then start_next_from_queue cd s1 n else ([], cd, s1)) = (ds, ce, s2)"
      by (cases "if up then start_next_from_queue cd s1 n else ([], cd, s1)")
    have "shell g k ops R cd"
      using shell_reads(2)[OF u] shell_cancel_claimed[OF can ca] by simp
    then have "shell g k ops R ce"
      using nx shell_start_next by (cases up) auto
    moreover have "c' = drop_pending_submissions
        (drop_pending_submission (gc_if_idle ce n s2) (ce_pending w) t) ds"
      using assms(1) claim Some wd can rj u nx by (simp add: remove_in_slot_def Let_def)
    ultimately show ?thesis by simp
  qed
qed

lemma shell_remove_without_slot [shell_rules]:
  assumes "remove_without_slot c i cap rr = (b, c')" and "shell g k ops R c"
  shows "shell g k ops R c'"
  using assms shell_queue_ops(6) shell_cancel_claimed
  by (fastforce simp: remove_without_slot_def Let_def split: option.splits prod.splits if_splits)

lemma shell_remove_queued [shell_rules]:
  assumes "remove_queued_submission c i rr = (b, c')" and "shell g k ops R c"
  shows "shell g k ops R c'"
  using assms shell_reads(1) shell_remove_in_slot shell_remove_without_slot
  by (fastforce simp: remove_queued_submission_def Let_def split: option.splits prod.splits if_splits)

text \<open>A request is answered at once or tracked, and tracked only below the configured capacity.\<close>

lemma shell_handle_identity_operation:
  assumes "shell g k ops R c"
  shows "shell g k ops (R + {#reply#}) (handle_identity_operation c i operation reply)
    \<or> (shell g k (ops @ [(i, operation, reply)]) R (handle_identity_operation c i operation reply)
       \<and> length ops < cc_identity_operation_capacity g)"
proof -
  have reply: "shell g k ops (R + {#reply#}) (send_reply reply r c')" if "shell g k ops R c'" for r c'
    using shell_log[OF that, of "Replied reply r"] by (simp add: send_reply_def)
  obtain b ca where sd: "is_shutting_down c = (b, ca)" by (cases "is_shutting_down c")
  have ca: "shell g k ops R ca" by (rule shell_reads(1)[OF sd assms])
  obtain rm cb where rq: "remove_queued_submission ca i (request_reason operation) = (rm, cb)"
    by (cases "remove_queued_submission ca i (request_reason operation)")
  have cb: "shell g k ops R cb" by (rule shell_remove_queued[OF rq ca])
  obtain b2 cc where sd2: "is_shutting_down cb = (b2, cc)" by (cases "is_shutting_down cb")
  have cc: "shell g k ops R cc" by (rule shell_reads(1)[OF sd2 cb])
  obtain up cd where u: "upgrade cc = (up, cd)" by (cases "upgrade cc")
  have cd: "shell g k ops R cd" by (rule shell_reads(2)[OF u cc])
  have at: "config cc = g" "identity_ops cc = ops" using cc by (simp_all add: shell_def)
  have track: "shell g k (ops @ [(i, operation, reply)]) R
      (cd\<lparr>identity_ops := identity_ops cd @ [(i, operation, reply)]\<rparr>)"
    using cd by (simp add: shell_def)
  show ?thesis
    using reply[OF ca] reply[OF cb] reply[OF cc] reply[OF cd] track sd rq sd2 u at
    by (simp add: handle_identity_operation_def Let_def)
qed

section \<open>The system\<close>

definition shell_inv :: "system \<Rightarrow> bool" where
  "shell_inv s \<longleftrightarrow>
     (case s of (subs, c) \<Rightarrow>
        \<exists>R. shell (config c) 0 (identity_ops c) R c
            \<and> length (identity_ops c) \<le> cc_identity_operation_capacity (config c))"

lemma shell_invI:
  "shell g 0 ops R c \<Longrightarrow> length ops \<le> cc_identity_operation_capacity g \<Longrightarrow> shell_inv (subs, c)"
  by (auto simp: shell_inv_def shell_def)

text \<open>What the controller still owes or has given to the callers of identity operations.\<close>

definition owed :: "controller \<Rightarrow> reply_tx multiset" where
  "owed c = mset (map (\<lambda>(i, operation, reply). reply) (identity_ops c)) + replied (log c)"

lemma shell_owed:
  "shell g k ops R c \<Longrightarrow> owed c = mset (map (\<lambda>(i, operation, reply). reply) ops) + R"
  by (simp add: owed_def shell_def)

text \<open>Every step other than an identity request keeps the frame or moves one tracked reply.\<close>

lemma shell_step:
  assumes "ctl_step (subs, c) (subs', c')" and "shell g 0 ops R c"
  shows "shell g 0 ops R c'
    \<or> (\<exists>i operation reply. c' = handle_controller_command c (ManageIdentity i operation reply)
         \<and> (shell g 0 ops (R + {#reply#}) c'
            \<or> shell g 0 (ops @ [(i, operation, reply)]) R c' \<and> length ops < cc_identity_operation_capacity g))
    \<or> (\<exists>x. x \<in> set ops \<and> shell g 0 (remove1 x ops) (R + {#snd (snd x)#}) c')"
  using assms
proof cases
  case (env_move m)
  then show ?thesis using assms(2) by (simp add: shell_env_step)
next
  case (schedule script)
  then show ?thesis using assms(2) by simp
next
  case (submit sub)
  then show ?thesis
    using assms(2) by (simp add: handle_controller_command_def shell_handle_submission)
next
  case (manage i operation reply)
  then show ?thesis
    using shell_handle_identity_operation[OF assms(2), of reply i operation]
    by (auto simp: handle_controller_command_def)
next
  case (granted i q)
  have "shell g (0 + granted_permits (Inr ())) ops R (c\<lparr>port := take_permit (port c)\<rparr>\<lparr>pump := q\<rparr>)"
    using assms(2) granted(4)
    by (simp add: granted_permits_def shell_def take_permit_def permit_available_def port_wf_def)
  from shell_handle_registry_capacity_result[OF this] granted(2) show ?thesis by simp
next
  case (refused i alive q)
  have "shell g (0 + granted_permits (Inl ShuttingDown)) ops R (c\<lparr>pump := q\<rparr>)"
    using assms(2) by (simp add: granted_permits_def)
  from shell_handle_registry_capacity_result[OF this] refused(2) show ?thesis by simp
next
  case (decided i n decision)
  then show ?thesis using assms(2) by (simp add: shell_handle_registry_decision)
next
  case (completed i n)
  then show ?thesis using assms(2) by (simp add: shell_handle_completion_result)
next
  case (removal_done i n result)
  then show ?thesis using assms(2) by (simp add: shell_handle_removal_result)
next
  case (identity_done i operation reply result)
  have "shell g 0 (remove1 (i, operation, reply) ops) R
      (c\<lparr>identity_ops := remove1 (i, operation, reply) (identity_ops c)\<rparr>)"
    using assms(2) by (simp add: shell_def)
  from shell_log[OF this, of "Replied reply result"] identity_done assms(2) show ?thesis
    by (auto simp: send_reply_def shell_def)
qed

interpretation ctl_shell: inductive_invariant ctl_init ctl_step shell_inv
proof
  fix s assume "ctl_init s"
  then show "shell_inv s"
    by (auto simp: ctl_init_def shell_inv_def shell_def controller_new_def)
next
  fix s t assume inv: "shell_inv s" and step: "ctl_step s t"
  obtain subs c subs' c' where st: "s = (subs, c)" "t = (subs', c')" by (cases s; cases t)
  from inv obtain R where sh: "shell (config c) 0 (identity_ops c) R c"
    and len: "length (identity_ops c) \<le> cc_identity_operation_capacity (config c)"
    by (auto simp: st shell_inv_def)
  have "length (remove1 x (identity_ops c)) \<le> cc_identity_operation_capacity (config c)" for x
    using len length_remove1[of x "identity_ops c"] by (auto split: if_splits)
  with shell_step[OF step[unfolded st] sh] len show "shell_inv t"
    unfolding st by (auto intro: shell_invI)
qed

lemma reachable_shell:
  assumes "ctl_reachable (subs, c)"
  obtains R where "shell (config c) 0 (identity_ops c) R c"
    "length (identity_ops c) \<le> cc_identity_operation_capacity (config c)"
  using assms ctl_shell.good_reachable by (fastforce simp: ctl_reachable_def shell_inv_def)

section \<open>Loop exit\<close>

lemma shell_shutdown_flag [simp]:
  "shell g k ops R (c\<lparr>shutting_down := x\<rparr>) = shell g k ops R c"
  by (simp add: shell_def)

lemma shell_mark [simp]: "shell g k ops R (ctl_mark_shutting_down c) = shell g k ops R c"
  by (simp add: ctl_mark_shutting_down_def)

lemma shell_send_reply:
  "shell g k ops R c \<Longrightarrow> shell g k ops (R + {#tx#}) (send_reply tx r c)"
  using shell_log[of g k ops R c "Replied tx r"] by (simp add: send_reply_def)

lemma shell_reject_on_shutdown [shell_rules]:
  "reject_on_shutdown c n i = (t, c') \<Longrightarrow> shell g k ops R c \<Longrightarrow> shell g k ops R c'"
  by (auto simp: reject_on_shutdown_def dest: shell_outcomes(3)[where g = g and k = k and ops = ops and R = R])

lemma shell_finalize_capacity:
  "shell g k ops R c \<Longrightarrow> shell g k ops R (snd (finalize_capacity c es))"
proof (induction c es rule: finalize_capacity.induct)
  case (2 c i w rest)
  obtain t ca where r: "reject_on_shutdown c (ce_slot_name w) i = (t, ca)"
    by (cases "reject_on_shutdown c (ce_slot_name w) i")
  from 2(1)[OF r[symmetric] refl shell_reject_on_shutdown[OF r 2(2)]] r show ?case
    by (auto split: prod.splits)
qed simp

lemma shell_finalize_queue:
  "shell g k ops R c \<Longrightarrow> shell g k ops R (snd (finalize_queue c n ps))"
proof (induction c n ps rule: finalize_queue.induct)
  case (2 c n p rest)
  obtain t ca where r: "reject_on_shutdown (unindex_queued c (ps_id p)) n (ps_id p) = (t, ca)"
    by (cases "reject_on_shutdown (unindex_queued c (ps_id p)) n (ps_id p)")
  have "shell g k ops R ca" using shell_reject_on_shutdown[OF r] 2(2) by simp
  from 2(1)[OF refl r[symmetric] refl this] r show ?case by (auto simp: Let_def split: prod.splits)
qed simp

lemma shell_finalize_slots:
  "shell g k ops R c \<Longrightarrow> shell g k ops R (snd (finalize_slots c es))"
proof (induction c es rule: finalize_slots.induct)
  case (2 c n s rest)
  obtain ds ca where q: "finalize_queue c n (sl_queue s) = (ds, ca)"
    by (cases "finalize_queue c n (sl_queue s)")
  have "shell g k ops R ca" using shell_finalize_queue[OF 2(2), of n "sl_queue s"] q by simp
  then have "shell g k ops R (put_slot ca n (s\<lparr>sl_queue := []\<rparr>))" by simp
  from 2(1)[OF q[symmetric] refl refl this] q show ?case by (auto simp: Let_def split: prod.splits)
qed simp

lemma shell_fold:
  "(\<And>x c. shell g k ops R c \<Longrightarrow> shell g k ops R (f x c)) \<Longrightarrow> shell g k ops R c \<Longrightarrow>
     shell g k ops R (fold f xs c)"
  by (induction xs arbitrary: c) simp_all

lemma shell_finalize_watchers:
  "shell g k ops R c \<Longrightarrow> shell g k ops R (finalize_remaining_watchers c)"
  unfolding finalize_remaining_watchers_def
proof (rule shell_fold)
  fix i c assume "shell g k ops R c"
  then show "shell g k ops R (snd (finalize_rejected
      (publish (rejected_event None i ControllerShuttingDown controller_shutting_down_text) c)
      i ControllerShuttingDown controller_shutting_down_text))"
    by (metis shell_outcomes(3) shell_primitives(1) prod.collapse)
qed

lemma shell_finalize_slot_state:
  assumes "shell g k ops R c"
  shows "shell g k ops R (finalize_slot_state_on_shutdown c)"
proof -
  let ?c = "c\<lparr>capacity_pending := fmempty\<rparr>"
  obtain ds ca where a: "finalize_capacity ?c (hm_entries (capacity_pending c)) = (ds, ca)"
    by (cases "finalize_capacity ?c (hm_entries (capacity_pending c))")
  obtain ds' cb where b: "finalize_slots ca (hm_entries (slots ca)) = (ds', cb)"
    by (cases "finalize_slots ca (hm_entries (slots ca))")
  have "shell g k ops R ca" using shell_finalize_capacity[of g k ops R ?c] assms a by (metis shell_fields(3) snd_conv)
  then have "shell g k ops R cb" using shell_finalize_slots b by (metis snd_conv)
  then have "shell g k ops R (finalize_remaining_watchers cb)" by (rule shell_finalize_watchers)
  then show ?thesis
    by (auto simp: finalize_slot_state_on_shutdown_def Let_def a b intro!: shell_fold split: prod.splits)
qed

fun command_replies :: "controller_command \<Rightarrow> reply_tx multiset" where
  "command_replies (ManageIdentity i operation reply) = {#reply#}"
| "command_replies _ = {#}"

lemma shell_drain_commands:
  "shell g k ops R c \<Longrightarrow>
     shell g k ops (R + sum_list (map command_replies cmds)) (snd (drain_commands c cmds))"
proof (induction c cmds arbitrary: R rule: drain_commands.induct)
  case (2 c sub rest)
  define n where "n = (case cs_slot (ot_value (sub_owned sub)) of
      Some s \<Rightarrow> s | None \<Rightarrow> ts_name (cs_task_spec (ot_value (sub_owned sub))))"
  let ?ca = "publish (rejected_event (Some n) (sub_id sub) ControllerShuttingDown
    controller_shutting_down_text) c"
  obtain t cb where s: "send_rejected ?ca (sub_done sub) ControllerShuttingDown
      controller_shutting_down_text = (t, cb)"
    by (cases "send_rejected ?ca (sub_done sub) ControllerShuttingDown controller_shutting_down_text")
  have "shell g k ops R cb" using shell_outcomes(2)[OF s] 2(2) by simp
  from "2.IH"[OF n_def refl s[symmetric] refl this] s show ?case
    by (auto simp: Let_def n_def split: prod.splits)
next
  case (3 c i operation reply rest)
  from 3(1)[OF shell_send_reply[OF 3(2)]] show ?case by (simp add: ac_simps)
qed simp

lemma shell_drop_operations:
  assumes "shell g k ops R c"
  shows "shell g k [] (R + mset (map (\<lambda>(i, operation, reply). reply) ops)) (drop_operations c)"
proof -
  have fold: "shell g k os (S + mset (map (\<lambda>(i, operation, reply). reply) xs))
      (fold (\<lambda>(i, operation, reply). send_reply reply (Inl ShuttingDown)) xs c)"
    if "shell g k os S c" for os S xs c
    using that
  proof (induction xs arbitrary: S c)
    case (Cons x xs)
    obtain i operation reply where x: "x = (i, operation, reply)" by (cases x)
    from Cons(1)[OF shell_send_reply[OF Cons(2)]] show ?case by (simp add: x ac_simps)
  qed simp
  have "shell g k [] R (c\<lparr>pump := (pump c)\<lparr>cp_queued := [], cp_active := None\<rparr>, admissions := [],
      completions := [], removals := [], identity_ops := []\<rparr>)"
    using assms by (simp add: shell_def)
  from fold[OF this, of ops] assms show ?thesis by (simp add: drop_operations_def shell_def)
qed

lemma shell_loop_exit:
  assumes "shell g k ops R c"
  shows "shell g k [] (R + mset (map (\<lambda>(i, operation, reply). reply) ops)
    + sum_list (map command_replies cmds)) (loop_exit c cmds)"
proof -
  let ?ca = "drop_operations (ctl_mark_shutting_down c)"
  let ?S = "R + mset (map (\<lambda>(i, operation, reply). reply) ops)"
  have "shell g k [] ?S ?ca" using assms by (intro shell_drop_operations) simp
  then have "shell g k [] (?S + sum_list (map command_replies cmds)) (snd (drain_commands ?ca cmds))"
    by (rule shell_drain_commands)
  then have "shell g k [] (?S + sum_list (map command_replies cmds)) (drain_pending_on_shutdown ?ca cmds)"
    by (auto simp: drain_pending_on_shutdown_def intro!: shell_fold split: prod.splits)
  from shell_finalize_slot_state[OF this] show ?thesis
    by (simp add: loop_exit_def Let_def shell_finalize_slot_state)
qed

end
