(* ===== verification/Reaper.thy ===== *)
theory Reaper
  imports Drop_Bundle
begin

text \<open>
  Ownership of force-aborted actors until they have physically exited
  (\<^verbatim>\<open>src/src/core/registry/scheduler/reaper.rs\<close>, and the latches of
  \<^verbatim>\<open>src/src/core/registry/completion.rs\<close>). A record is a rendezvous of two halves: the output of the
  aborted actor and the terminal cleanup bundle of its registry entry. Until both have arrived the
  record reserves the name of the task.

  A \<open>RemovalCompletion\<close> is created once per registration, so a latch pair is named by the identity of
  its registration and two values share a latch when the names are equal. The output of an actor is
  an opaque number. Destructors run by the cleanup executor; \<open>mem::forget\<close> leaves no trace.
\<close>

type_synonym latch = task_id

section \<open>Records\<close>

record terminal_releases =
  tr_state :: "latch option"
  tr_report :: latch

record reaper_activity =
  ra_id :: task_id
  ra_release :: latch

record reaper_record =
  rr_name :: name
  rr_physical :: "nat option"
  rr_terminal :: "drop_bundle option"
  rr_release :: latch
  rr_terminal_releases :: "terminal_releases option"
  rr_duplicate_releases :: "terminal_releases option"
  rr_poisoned :: bool

record ready_record =
  rd_bundle :: drop_bundle
  rd_physical :: nat
  rd_release :: latch
  rd_terminal_releases :: terminal_releases
  rd_duplicate_releases :: "terminal_releases option"
  rd_poisoned :: bool

record attempt_reservation =
  rv_id :: task_id
  rv_name :: name
  rv_physical_release :: latch

text \<open>The maps behind the lock, and the counter of unfinished attempts.\<close>

record reaper_state =
  rp_by_name :: "(name, reaper_activity list) fmap"
  rp_records :: "(task_id, reaper_record list) fmap"
  rp_active :: nat

definition reaper_new :: reaper_state where
  "reaper_new = \<lparr>rp_by_name = fmempty, rp_records = fmempty, rp_active = 0\<rparr>"

text \<open>The physical latches completed by \<open>TerminalReleases::complete\<close>.\<close>

definition releases_complete :: "terminal_releases \<Rightarrow> latch list" where
  "releases_complete t = (case tr_state t of None \<Rightarrow> [] | Some l \<Rightarrow> [l]) @ [tr_report t]"

definition shares_latch :: "terminal_releases \<Rightarrow> latch \<Rightarrow> bool" where
  "shares_latch t l \<longleftrightarrow> (case tr_state t of None \<Rightarrow> True | Some s \<Rightarrow> s = l) \<and> tr_report t = l"

text \<open>\<open>entry(k).or_default()\<close> of a map of vectors.\<close>

definition hm_vec :: "('k, 'v list) fmap \<Rightarrow> 'k \<Rightarrow> 'v list" where
  "hm_vec m k = (case fmlookup m k of None \<Rightarrow> [] | Some xs \<Rightarrow> xs)"

text \<open>A vector put back, or its key removed when it became empty.\<close>

definition hm_put_vec :: "('k, 'v list) fmap \<Rightarrow> 'k \<Rightarrow> 'v list \<Rightarrow> ('k, 'v list) fmap" where
  "hm_put_vec m k xs = (if xs = [] then fmdrop k m else fmupd k xs m)"

section \<open>Operations\<close>

definition register :: "reaper_state \<Rightarrow> attempt_reservation \<Rightarrow> reaper_state" where
  "register r res =
     (let i = rv_id res; n = rv_name res; l = rv_physical_release res
      in r\<lparr>rp_by_name := fmupd n (hm_vec (rp_by_name r) n @ [\<lparr>ra_id = i, ra_release = l\<rparr>]) (rp_by_name r),
           rp_records := fmupd i (hm_vec (rp_records r) i @
             [\<lparr>rr_name = n, rr_physical = None, rr_terminal = None, rr_release = l,
               rr_terminal_releases = None, rr_duplicate_releases = None, rr_poisoned = False\<rparr>])
             (rp_records r),
           rp_active := Suc (rp_active r)\<rparr>)"

definition take_ready_record ::
  "reaper_state \<Rightarrow> task_id \<Rightarrow> nat \<Rightarrow> ready_record option \<times> reaper_state" where
  "take_ready_record r i k =
     (let recs = hm_vec (rp_records r) i
      in if k < length recs
         then case (rr_physical (recs ! k), rr_terminal (recs ! k), rr_terminal_releases (recs ! k)) of
                (Some v, Some b, Some rel) \<Rightarrow>
                  (let x = recs ! k;
                       r = r\<lparr>rp_records := hm_put_vec (rp_records r) i (list_remove_at k recs)\<rparr>;
                       r = (case fmlookup (rp_by_name r) (rr_name x) of
                              None \<Rightarrow> r
                            | Some acts \<Rightarrow>
                                r\<lparr>rp_by_name := hm_put_vec (rp_by_name r) (rr_name x)
                                    (filter (\<lambda>a. ra_id a \<noteq> i \<or> ra_release a \<noteq> rr_release x) acts)\<rparr>)
                   in (Some \<lparr>rd_bundle = b, rd_physical = v, rd_release = rr_release x,
                             rd_terminal_releases = rel,
                             rd_duplicate_releases = rr_duplicate_releases x,
                             rd_poisoned = rr_poisoned x\<rparr>, r))
              | _ \<Rightarrow> (None, r)
         else (None, r))"

definition put_record :: "reaper_state \<Rightarrow> task_id \<Rightarrow> nat \<Rightarrow> reaper_record \<Rightarrow> reaper_state" where
  "put_record r i k x = r\<lparr>rp_records := fmupd i ((hm_vec (rp_records r) i)[k := x]) (rp_records r)\<rparr>"

definition complete_physical ::
  "reaper_state \<Rightarrow> task_id \<Rightarrow> latch \<Rightarrow> nat \<Rightarrow> bool \<Rightarrow> ready_record option \<times> reaper_state" where
  "complete_physical r i release v poisoned =
     (let recs = hm_vec (rp_records r) i
      in case list_position (\<lambda>x. rr_release x = release) recs of
           None \<Rightarrow> (None, r)
         | Some k \<Rightarrow>
             (let x = recs ! k
              in if rr_physical x \<noteq> None
                 then take_ready_record (put_record r i k (x\<lparr>rr_poisoned := True\<rparr>)) i k
                 else take_ready_record (put_record r i k
                        (x\<lparr>rr_physical := Some v, rr_poisoned := (rr_poisoned x \<or> poisoned)\<rparr>)) i k))"

text \<open>
  The submitted bundles and the completed physical latches are results; submission comes first.
\<close>

definition submit_ready ::
  "ready_record option \<Rightarrow> reaper_state \<Rightarrow> drop_bundle list \<times> latch list \<times> reaper_state" where
  "submit_ready ready r =
     (case ready of
        None \<Rightarrow> ([], [], r)
      | Some x \<Rightarrow>
          (let b = attach_auxiliary (rd_bundle x) (rd_physical x);
               b = (if rd_poisoned x then poison b else b)
           in ([b],
               rd_release x # releases_complete (rd_terminal_releases x)
                 @ (case rd_duplicate_releases x of None \<Rightarrow> [] | Some d \<Rightarrow> releases_complete d),
               r\<lparr>rp_active := rp_active r - 1\<rparr>)))"

text \<open>The body of a reap future once the aborted actor has ended.\<close>

definition reap_finished ::
  "reaper_state \<Rightarrow> task_id \<Rightarrow> latch \<Rightarrow> nat \<Rightarrow> bool \<Rightarrow> drop_bundle list \<times> latch list \<times> reaper_state" where
  "reap_finished r i release v poisoned =
     (case complete_physical r i release v poisoned of (ready, r) \<Rightarrow> submit_ready ready r)"

definition terminal_index :: "reaper_record list \<Rightarrow> terminal_releases \<Rightarrow> nat option" where
  "terminal_index recs rel =
     (case list_position (\<lambda>x. shares_latch rel (rr_release x)) recs of
        Some k \<Rightarrow> Some k
      | None \<Rightarrow>
          (case list_position (\<lambda>x. rr_terminal x = None) recs of
             Some k \<Rightarrow> Some k
           | None \<Rightarrow> if recs \<noteq> [] then Some 0 else None))"

definition attach_terminal ::
  "reaper_state \<Rightarrow> task_id \<Rightarrow> drop_bundle \<Rightarrow> latch option \<Rightarrow> latch
     \<Rightarrow> drop_bundle list \<times> latch list \<times> reaper_state" where
  "attach_terminal r i bundle state_release report_release =
     (let rel = \<lparr>tr_state = state_release, tr_report = report_release\<rparr>;
          recs = hm_vec (rp_records r) i
      in case terminal_index recs rel of
           None \<Rightarrow> ([bundle], releases_complete rel, r)
         | Some k \<Rightarrow>
             (let x = recs ! k
              in if rr_terminal x = None
                 then case take_ready_record (put_record r i k
                            (x\<lparr>rr_terminal := Some bundle, rr_terminal_releases := Some rel\<rparr>)) i k of
                        (ready, r) \<Rightarrow> submit_ready ready r
                 else if shares_latch rel (rr_release x) then ([bundle], [], r)
                 else if rr_duplicate_releases x = None
                 then ([bundle], [], put_record r i k (x\<lparr>rr_duplicate_releases := Some rel\<rparr>))
                 else ([bundle], releases_complete rel,
                       put_record r i k (x\<lparr>rr_poisoned := True\<rparr>))))"

definition reserves_name :: "reaper_state \<Rightarrow> name \<Rightarrow> bool" where
  "reserves_name r n \<longleftrightarrow> fmlookup (rp_by_name r) n \<noteq> None"

definition reserves_names :: "reaper_state \<Rightarrow> name list \<Rightarrow> bool list" where
  "reserves_names r ns = map (reserves_name r) ns"

text \<open>The activity flags are shared with the actors; \<open>active\<close> reads the flag of an identity.\<close>

definition reaper_is_alive :: "(task_id \<Rightarrow> bool) \<Rightarrow> reaper_state \<Rightarrow> name \<Rightarrow> bool" where
  "reaper_is_alive active r n = (\<exists>a \<in> set (hm_vec (rp_by_name r) n). active (ra_id a))"

definition reaper_alive_names :: "(task_id \<Rightarrow> bool) \<Rightarrow> reaper_state \<Rightarrow> name list" where
  "reaper_alive_names active r =
     map fst (filter (\<lambda>(n, acts). \<exists>a \<in> set acts. active (ra_id a)) (hm_entries (rp_by_name r)))"

section \<open>The rendezvous of an exit and a terminal bundle\<close>

text \<open>
  What the registry relies on: an open record keeps the first half that arrives, the second half
  closes the record and yields both halves together. \<open>open_keys\<close> are the keys of open records.
\<close>

locale rendezvous =
  fixes ok :: "'s \<Rightarrow> bool"
    and open_keys :: "'s \<Rightarrow> 'k set"
    and left :: "'s \<Rightarrow> 'k \<Rightarrow> 'a option" and right :: "'s \<Rightarrow> 'k \<Rightarrow> 'b option"
    and put_left :: "'s \<Rightarrow> 'k \<Rightarrow> 'a \<Rightarrow> 'o list \<times> 's"
    and put_right :: "'s \<Rightarrow> 'k \<Rightarrow> 'b \<Rightarrow> 'o list \<times> 's"
    and pair :: "'k \<Rightarrow> 'a \<Rightarrow> 'b \<Rightarrow> 'o"
  assumes left_waits: "ok s \<Longrightarrow> k \<in> open_keys s \<Longrightarrow> left s k = None \<Longrightarrow> right s k = None \<Longrightarrow>
      \<exists>t. put_left s k a = ([], t) \<and> ok t \<and> open_keys t = open_keys s
        \<and> left t = (left s)(k \<mapsto> a) \<and> right t = right s"
    and right_waits: "ok s \<Longrightarrow> k \<in> open_keys s \<Longrightarrow> left s k = None \<Longrightarrow> right s k = None \<Longrightarrow>
      \<exists>t. put_right s k b = ([], t) \<and> ok t \<and> open_keys t = open_keys s
        \<and> left t = left s \<and> right t = (right s)(k \<mapsto> b)"
    and left_closes: "ok s \<Longrightarrow> k \<in> open_keys s \<Longrightarrow> left s k = None \<Longrightarrow> right s k = Some b \<Longrightarrow>
      \<exists>t. put_left s k a = ([pair k a b], t) \<and> ok t \<and> open_keys t = open_keys s - {k}
        \<and> left t = left s \<and> right t = (right s)(k := None)"
    and right_closes: "ok s \<Longrightarrow> k \<in> open_keys s \<Longrightarrow> left s k = Some a \<Longrightarrow> right s k = None \<Longrightarrow>
      \<exists>t. put_right s k b = ([pair k a b], t) \<and> ok t \<and> open_keys t = open_keys s - {k}
        \<and> left t = (left s)(k := None) \<and> right t = right s"
begin

text \<open>Both orders of arrival yield the same pair once and leave the same record table.\<close>

lemma order_irrelevant:
  assumes "ok s" "k \<in> open_keys s" "left s k = None" "right s k = None"
    and "put_left s k a = (o1, s1)" "put_right s1 k b = (o2, s2)"
    and "put_right s k b = (p1, t1)" "put_left t1 k a = (p2, t2)"
  shows "o1 @ o2 = [pair k a b] \<and> p1 @ p2 = [pair k a b]
    \<and> open_keys s2 = open_keys s - {k} \<and> open_keys t2 = open_keys s - {k}
    \<and> left s2 = left s \<and> right s2 = right s \<and> left t2 = left s \<and> right t2 = right s"
proof -
  have L: "o1 = [] \<and> ok s1 \<and> open_keys s1 = open_keys s \<and> left s1 = (left s)(k \<mapsto> a) \<and> right s1 = right s"
    using left_waits[of s k a] assms by fastforce
  have R: "p1 = [] \<and> ok t1 \<and> open_keys t1 = open_keys s \<and> left t1 = left s \<and> right t1 = (right s)(k \<mapsto> b)"
    using right_waits[of s k b] assms by fastforce
  have "o2 = [pair k a b] \<and> open_keys s2 = open_keys s - {k} \<and> left s2 = left s \<and> right s2 = right s"
    using right_closes[of s1 k a b] L assms by (auto simp: fun_upd_idem)
  moreover have "p2 = [pair k a b] \<and> open_keys t2 = open_keys s - {k} \<and> left t2 = left s \<and> right t2 = right s"
    using left_closes[of t1 k b a] R assms by (auto simp: fun_upd_idem)
  ultimately show ?thesis using L R by simp
qed

end

text \<open>
  The state the code keeps: at most one record per identity and one activity per name, which belong
  to each other, no record with both halves, and an exact counter. The list shapes and the duplicate
  branches of the code are defensive.
\<close>

definition record_ok :: "task_id \<Rightarrow> reaper_record \<Rightarrow> bool" where
  "record_ok i x \<longleftrightarrow>
     rr_release x = i \<and> rr_duplicate_releases x = None
     \<and> (rr_terminal x = None \<longleftrightarrow> rr_terminal_releases x = None)
     \<and> (rr_physical x = None \<longrightarrow> \<not> rr_poisoned x)
     \<and> \<not> (rr_physical x \<noteq> None \<and> rr_terminal x \<noteq> None)"

definition reaper_ok :: "reaper_state \<Rightarrow> bool" where
  "reaper_ok r \<longleftrightarrow>
     (\<forall>i recs. fmlookup (rp_records r) i = Some recs \<longrightarrow>
        (\<exists>x. recs = [x] \<and> record_ok i x
           \<and> fmlookup (rp_by_name r) (rr_name x) = Some [\<lparr>ra_id = i, ra_release = i\<rparr>]))
     \<and> (\<forall>n acts. fmlookup (rp_by_name r) n = Some acts \<longrightarrow>
        (\<exists>i x. acts = [\<lparr>ra_id = i, ra_release = i\<rparr>] \<and> fmlookup (rp_records r) i = Some [x]
           \<and> rr_name x = n))
     \<and> rp_active r = hm_len (rp_records r)"

definition reaper_rec :: "reaper_state \<Rightarrow> task_id \<Rightarrow> reaper_record option" where
  "reaper_rec r i = (case fmlookup (rp_records r) i of Some (x # _) \<Rightarrow> Some x | _ \<Rightarrow> None)"

definition reaping :: "reaper_state \<Rightarrow> task_id set" where
  "reaping r = {i. reaper_rec r i \<noteq> None}"

definition rec_left :: "reaper_state \<Rightarrow> task_id \<Rightarrow> (nat \<times> bool) option" where
  "rec_left r i =
     (case reaper_rec r i of
        None \<Rightarrow> None
      | Some x \<Rightarrow> map_option (\<lambda>v. (v, rr_poisoned x)) (rr_physical x))"

definition rec_right :: "reaper_state \<Rightarrow> task_id \<Rightarrow> (drop_bundle \<times> terminal_releases) option" where
  "rec_right r i =
     (case reaper_rec r i of
        None \<Rightarrow> None
      | Some x \<Rightarrow> map_option (\<lambda>b. (b, the (rr_terminal_releases x))) (rr_terminal x))"

text \<open>One submission: the bundle and the physical latches completed after it.\<close>

definition as_output :: "drop_bundle list \<times> latch list \<times> 's \<Rightarrow> (drop_bundle \<times> latch list) list \<times> 's" where
  "as_output x = (case x of (bs, ls, s) \<Rightarrow> (map (\<lambda>b. (b, ls)) bs, s))"

definition put_exit ::
  "reaper_state \<Rightarrow> task_id \<Rightarrow> nat \<times> bool \<Rightarrow> (drop_bundle \<times> latch list) list \<times> reaper_state" where
  "put_exit r i a = as_output (reap_finished r i i (fst a) (snd a))"

definition put_terminal ::
  "reaper_state \<Rightarrow> task_id \<Rightarrow> drop_bundle \<times> terminal_releases
     \<Rightarrow> (drop_bundle \<times> latch list) list \<times> reaper_state" where
  "put_terminal r i b = as_output (attach_terminal r i (fst b) (tr_state (snd b)) (tr_report (snd b)))"

definition finished_pair ::
  "task_id \<Rightarrow> nat \<times> bool \<Rightarrow> drop_bundle \<times> terminal_releases \<Rightarrow> drop_bundle \<times> latch list" where
  "finished_pair i a b =
     (let c = attach_auxiliary (fst b) (fst a)
      in (if snd a then poison c else c, i # releases_complete (snd b)))"

lemma reaper_okI:
  assumes "\<And>i recs. fmlookup (rp_records r) i = Some recs \<Longrightarrow>
      \<exists>x. recs = [x] \<and> record_ok i x
        \<and> fmlookup (rp_by_name r) (rr_name x) = Some [\<lparr>ra_id = i, ra_release = i\<rparr>]"
    and "\<And>n acts. fmlookup (rp_by_name r) n = Some acts \<Longrightarrow>
      \<exists>i x. acts = [\<lparr>ra_id = i, ra_release = i\<rparr>] \<and> fmlookup (rp_records r) i = Some [x] \<and> rr_name x = n"
    and "rp_active r = hm_len (rp_records r)"
  shows "reaper_ok r"
  using assms unfolding reaper_ok_def by blast

lemma reaper_ok_record:
  "reaper_ok r \<Longrightarrow> fmlookup (rp_records r) i = Some recs \<Longrightarrow>
     \<exists>x. recs = [x] \<and> record_ok i x
       \<and> fmlookup (rp_by_name r) (rr_name x) = Some [\<lparr>ra_id = i, ra_release = i\<rparr>]"
  unfolding reaper_ok_def by blast

lemma reaper_ok_name:
  "reaper_ok r \<Longrightarrow> fmlookup (rp_by_name r) n = Some acts \<Longrightarrow>
     \<exists>i x. acts = [\<lparr>ra_id = i, ra_release = i\<rparr>] \<and> fmlookup (rp_records r) i = Some [x] \<and> rr_name x = n"
  unfolding reaper_ok_def by blast

lemma reaper_ok_active: "reaper_ok r \<Longrightarrow> rp_active r = hm_len (rp_records r)"
  unfolding reaper_ok_def by blast

lemma reaper_recE:
  assumes "reaper_ok r" and "i \<in> reaping r"
  obtains x where "fmlookup (rp_records r) i = Some [x]" "record_ok i x" "reaper_rec r i = Some x"
    "fmlookup (rp_by_name r) (rr_name x) = Some [\<lparr>ra_id = i, ra_release = i\<rparr>]"
  using assms unfolding reaper_ok_def reaping_def reaper_rec_def
  by (fastforce split: option.splits list.splits)

lemma reaper_rec_None: "reaper_ok r \<Longrightarrow> i \<notin> reaping r \<longleftrightarrow> fmlookup (rp_records r) i = None"
  unfolding reaper_ok_def reaping_def reaper_rec_def by (fastforce split: option.splits list.splits)

lemma fresh_record_ok:
  "record_ok i \<lparr>rr_name = n, rr_physical = None, rr_terminal = None, rr_release = i,
     rr_terminal_releases = None, rr_duplicate_releases = None, rr_poisoned = False\<rparr>"
  by (simp add: record_ok_def)

text \<open>The three ways in which an operation changes a table: open, replace and close a record.\<close>

lemma register_ok:
  assumes r: "reaper_ok r" and new: "rv_id res \<notin> reaping r" "\<not> reserves_name r (rv_name res)"
    and l: "rv_physical_release res = rv_id res"
  shows "reaper_ok (register r res)"
    and "reaper_rec (register r res) = (reaper_rec r)(rv_id res \<mapsto>
      \<lparr>rr_name = rv_name res, rr_physical = None, rr_terminal = None, rr_release = rv_id res,
       rr_terminal_releases = None, rr_duplicate_releases = None, rr_poisoned = False\<rparr>)"
    and "reserves_name (register r res) n \<longleftrightarrow> reserves_name r n \<or> n = rv_name res"
proof -
  from new r have none: "fmlookup (rp_records r) (rv_id res) = None"
    by (simp add: reaper_rec_None)
  from new have free: "fmlookup (rp_by_name r) (rv_name res) = None" by (simp add: reserves_name_def)
  show "reaper_ok (register r res)"
  proof (rule reaper_okI)
    fix i recs assume "fmlookup (rp_records (register r res)) i = Some recs"
    then show "\<exists>x. recs = [x] \<and> record_ok i x
        \<and> fmlookup (rp_by_name (register r res)) (rr_name x) = Some [\<lparr>ra_id = i, ra_release = i\<rparr>]"
    proof (cases "i = rv_id res")
      case False
      with \<open>fmlookup _ i = Some recs\<close> obtain x where x: "recs = [x]" "record_ok i x"
          "fmlookup (rp_by_name r) (rr_name x) = Some [\<lparr>ra_id = i, ra_release = i\<rparr>]"
        using reaper_ok_record[OF r, of i recs] by (auto simp: register_def Let_def)
      moreover from this free have "rr_name x \<noteq> rv_name res" by auto
      ultimately show ?thesis by (simp add: register_def Let_def)
    qed (use none free l in \<open>auto simp: register_def Let_def hm_vec_def fresh_record_ok\<close>)
  next
    fix n acts assume "fmlookup (rp_by_name (register r res)) n = Some acts"
    then show "\<exists>i x. acts = [\<lparr>ra_id = i, ra_release = i\<rparr>]
        \<and> fmlookup (rp_records (register r res)) i = Some [x] \<and> rr_name x = n"
    proof (cases "n = rv_name res")
      case False
      with \<open>fmlookup _ n = Some acts\<close> obtain i x where x: "acts = [\<lparr>ra_id = i, ra_release = i\<rparr>]"
          "fmlookup (rp_records r) i = Some [x]" "rr_name x = n"
        using reaper_ok_name[OF r, of n acts] by (auto simp: register_def Let_def)
      moreover from this none have "i \<noteq> rv_id res" by auto
      ultimately show ?thesis by (simp add: register_def Let_def)
    qed (use none free l in \<open>auto simp: register_def Let_def hm_vec_def\<close>)
  qed (use none reaper_ok_active[OF r] in \<open>simp add: register_def Let_def map_len_simps\<close>)
  show "reaper_rec (register r res) = (reaper_rec r)(rv_id res \<mapsto>
      \<lparr>rr_name = rv_name res, rr_physical = None, rr_terminal = None, rr_release = rv_id res,
       rr_terminal_releases = None, rr_duplicate_releases = None, rr_poisoned = False\<rparr>)"
    using none l by (auto simp: register_def reaper_rec_def hm_vec_def Let_def fun_eq_iff)
  show "reserves_name (register r res) n \<longleftrightarrow> reserves_name r n \<or> n = rv_name res"
    by (auto simp: register_def reserves_name_def Let_def)
qed

lemma put_record_ok:
  assumes r: "reaper_ok r" and x: "fmlookup (rp_records r) i = Some [x]"
    and y: "record_ok i y" "rr_name y = rr_name x"
  shows "reaper_ok (put_record r i 0 y)" "reaper_rec (put_record r i 0 y) = (reaper_rec r)(i \<mapsto> y)"
    "rp_by_name (put_record r i 0 y) = rp_by_name r"
proof -
  show "reaper_ok (put_record r i 0 y)"
  proof (rule reaper_okI)
    fix j recs assume "fmlookup (rp_records (put_record r i 0 y)) j = Some recs"
    then show "\<exists>z. recs = [z] \<and> record_ok j z
        \<and> fmlookup (rp_by_name (put_record r i 0 y)) (rr_name z) = Some [\<lparr>ra_id = j, ra_release = j\<rparr>]"
    proof (cases "j = i")
      case True
      with \<open>fmlookup _ j = Some recs\<close> x have "recs = [y]" by (simp add: put_record_def hm_vec_def)
      with True y reaper_ok_record[OF r x] show ?thesis by (simp add: put_record_def)
    next
      case False
      with \<open>fmlookup _ j = Some recs\<close> reaper_ok_record[OF r, of j recs] show ?thesis
        by (simp add: put_record_def)
    qed
  next
    fix n acts assume "fmlookup (rp_by_name (put_record r i 0 y)) n = Some acts"
    then obtain j z where "acts = [\<lparr>ra_id = j, ra_release = j\<rparr>]"
        "fmlookup (rp_records r) j = Some [z]" "rr_name z = n"
      using reaper_ok_name[OF r, of n acts] by (auto simp: put_record_def)
    then show "\<exists>j z. acts = [\<lparr>ra_id = j, ra_release = j\<rparr>]
        \<and> fmlookup (rp_records (put_record r i 0 y)) j = Some [z] \<and> rr_name z = n"
      using x y by (cases "j = i") (auto simp: put_record_def hm_vec_def)
  qed (use x reaper_ok_active[OF r] in \<open>simp add: put_record_def map_len_simps\<close>)
  show "reaper_rec (put_record r i 0 y) = (reaper_rec r)(i \<mapsto> y)"
    using x by (auto simp: put_record_def reaper_rec_def hm_vec_def fun_eq_iff)
qed (simp add: put_record_def)

definition close_record :: "reaper_state \<Rightarrow> task_id \<Rightarrow> name \<Rightarrow> reaper_state" where
  "close_record r i n =
     r\<lparr>rp_by_name := fmdrop n (rp_by_name r), rp_records := fmdrop i (rp_records r),
       rp_active := rp_active r - 1\<rparr>"

lemma close_record_ok:
  assumes r: "reaper_ok r" and x: "fmlookup (rp_records r) i = Some [x]"
  shows "reaper_ok (close_record r i (rr_name x))"
    and "reaper_rec (close_record r i (rr_name x)) = (reaper_rec r)(i := None)"
    and "reserves_name (close_record r i (rr_name x)) n \<longleftrightarrow> reserves_name r n \<and> n \<noteq> rr_name x"
proof -
  have other: "rr_name y \<noteq> rr_name x" if "fmlookup (rp_records r) j = Some [y]" "j \<noteq> i" for j y
    using reaper_ok_record[OF r x] reaper_ok_record[OF r that(1)] that(2) by auto
  show "reaper_ok (close_record r i (rr_name x))"
  proof (rule reaper_okI)
    fix j recs assume "fmlookup (rp_records (close_record r i (rr_name x))) j = Some recs"
    then have j: "j \<noteq> i" "fmlookup (rp_records r) j = Some recs"
      by (auto simp: close_record_def split: if_splits)
    then obtain z where z: "recs = [z]" "record_ok j z"
        "fmlookup (rp_by_name r) (rr_name z) = Some [\<lparr>ra_id = j, ra_release = j\<rparr>]"
      using reaper_ok_record[OF r] by blast
    with other[of j z] j show "\<exists>z. recs = [z] \<and> record_ok j z
        \<and> fmlookup (rp_by_name (close_record r i (rr_name x))) (rr_name z) = Some [\<lparr>ra_id = j, ra_release = j\<rparr>]"
      by (simp add: close_record_def)
  next
    fix n acts assume "fmlookup (rp_by_name (close_record r i (rr_name x))) n = Some acts"
    then have "n \<noteq> rr_name x" "fmlookup (rp_by_name r) n = Some acts"
      by (auto simp: close_record_def split: if_splits)
    moreover from reaper_ok_name[OF r this(2)] obtain j z where z: "acts = [\<lparr>ra_id = j, ra_release = j\<rparr>]"
        "fmlookup (rp_records r) j = Some [z]" "rr_name z = n" by blast
    ultimately have "j \<noteq> i" using x by auto
    with z show "\<exists>j z. acts = [\<lparr>ra_id = j, ra_release = j\<rparr>]
        \<and> fmlookup (rp_records (close_record r i (rr_name x))) j = Some [z] \<and> rr_name z = n"
      by (simp add: close_record_def)
  qed (use hm_len_remove_present[OF x] reaper_ok_active[OF r] in \<open>simp add: close_record_def\<close>)
  show "reaper_rec (close_record r i (rr_name x)) = (reaper_rec r)(i := None)"
    by (auto simp: close_record_def reaper_rec_def fun_eq_iff)
  show "reserves_name (close_record r i (rr_name x)) n \<longleftrightarrow> reserves_name r n \<and> n \<noteq> rr_name x"
    by (auto simp: close_record_def reserves_name_def)
qed

lemma take_unready:
  "fmlookup (rp_records r) i = Some [x] \<Longrightarrow> rr_physical x = None \<or> rr_terminal x = None \<Longrightarrow>
     take_ready_record r i 0 = (None, r)"
  by (auto simp: take_ready_record_def hm_vec_def Let_def split: option.splits)

lemma take_ready:
  assumes "fmlookup (rp_records r) i = Some [x]" "rr_physical x = Some v" "rr_terminal x = Some b"
    "rr_terminal_releases x = Some rel" "rr_release x = i" "rr_duplicate_releases x = None"
    "fmlookup (rp_by_name r) (rr_name x) = Some [\<lparr>ra_id = i, ra_release = i\<rparr>]"
  shows "(case take_ready_record r i 0 of (ready, r) \<Rightarrow> submit_ready ready r)
    = ([fst (finished_pair i (v, rr_poisoned x) (b, rel))], i # releases_complete rel,
       close_record r i (rr_name x))"
  using assms
  by (simp add: take_ready_record_def hm_vec_def hm_put_vec_def list_remove_at_def submit_ready_def
      finished_pair_def close_record_def Let_def)

text \<open>The two arrivals on an open record, with the table afterwards.\<close>

lemma reap_finished_cases:
  assumes "reaper_ok r" and "fmlookup (rp_records r) i = Some [x]" and "record_ok i x"
    and "fmlookup (rp_by_name r) (rr_name x) = Some [\<lparr>ra_id = i, ra_release = i\<rparr>]"
    and "rr_physical x = None"
  shows "reap_finished r i i v p =
     (case rr_terminal x of
        None \<Rightarrow> ([], [], put_record r i 0 (x\<lparr>rr_physical := Some v, rr_poisoned := p\<rparr>))
      | Some b \<Rightarrow>
          ([fst (finished_pair i (v, p) (b, the (rr_terminal_releases x)))],
           i # releases_complete (the (rr_terminal_releases x)), close_record r i (rr_name x)))"
proof -
  let ?y = "x\<lparr>rr_physical := Some v, rr_poisoned := p\<rparr>"
  let ?r = "put_record r i 0 ?y"
  have look: "fmlookup (rp_records ?r) i = Some [?y]"
    using assms by (simp add: put_record_def hm_vec_def)
  have cp: "reap_finished r i i v p = (case take_ready_record ?r i 0 of (ready, r) \<Rightarrow> submit_ready ready r)"
    using assms by (simp add: reap_finished_def complete_physical_def hm_vec_def record_ok_def Let_def)
  show ?thesis
  proof (cases "rr_terminal x")
    case None
    with cp take_unready[OF look] show ?thesis by (simp add: submit_ready_def)
  next
    case (Some b)
    with assms obtain rel where rel: "rr_terminal_releases x = Some rel"
      by (auto simp: record_ok_def)
    have "close_record ?r i (rr_name x) = close_record r i (rr_name x)"
      by (simp add: close_record_def put_record_def fmdrop_fmupd_same)
    moreover have "fmlookup (rp_by_name ?r) (rr_name ?y) = Some [\<lparr>ra_id = i, ra_release = i\<rparr>]"
      using assms by (simp add: put_record_def)
    ultimately show ?thesis
      using cp take_ready[OF look, of v b rel] assms Some rel by (simp add: record_ok_def)
  qed
qed

lemma attach_terminal_cases:
  assumes "reaper_ok r" and "fmlookup (rp_records r) i = Some [x]" and "record_ok i x"
    and "fmlookup (rp_by_name r) (rr_name x) = Some [\<lparr>ra_id = i, ra_release = i\<rparr>]"
    and "rr_terminal x = None" and "rel = \<lparr>tr_state = st, tr_report = rep\<rparr>"
  shows "attach_terminal r i b st rep =
     (case rr_physical x of
        None \<Rightarrow> ([], [], put_record r i 0 (x\<lparr>rr_terminal := Some b, rr_terminal_releases := Some rel\<rparr>))
      | Some v \<Rightarrow>
          ([fst (finished_pair i (v, rr_poisoned x) (b, rel))], i # releases_complete rel,
           close_record r i (rr_name x)))"
proof -
  let ?y = "x\<lparr>rr_terminal := Some b, rr_terminal_releases := Some rel\<rparr>"
  let ?r = "put_record r i 0 ?y"
  have look: "fmlookup (rp_records ?r) i = Some [?y]"
    using assms by (simp add: put_record_def hm_vec_def)
  have "terminal_index [x] rel = Some 0" using assms by (simp add: terminal_index_def)
  then have at: "attach_terminal r i b st rep
      = (case take_ready_record ?r i 0 of (ready, r) \<Rightarrow> submit_ready ready r)"
    using assms by (simp add: attach_terminal_def hm_vec_def Let_def)
  show ?thesis
  proof (cases "rr_physical x")
    case None
    with at take_unready[OF look] show ?thesis by (simp add: submit_ready_def)
  next
    case (Some v)
    have "close_record ?r i (rr_name x) = close_record r i (rr_name x)"
      by (simp add: close_record_def put_record_def fmdrop_fmupd_same)
    moreover have "fmlookup (rp_by_name ?r) (rr_name ?y) = Some [\<lparr>ra_id = i, ra_release = i\<rparr>]"
      using assms by (simp add: put_record_def)
    ultimately show ?thesis
      using at take_ready[OF look, of v b rel] assms Some by (simp add: record_ok_def)
  qed
qed

lemma attach_terminal_absent:
  "fmlookup (rp_records r) i = None \<Longrightarrow>
     attach_terminal r i b st rep = ([b], releases_complete \<lparr>tr_state = st, tr_report = rep\<rparr>, r)"
  by (simp add: attach_terminal_def terminal_index_def hm_vec_def Let_def)

lemma reaping_upd:
  "reaper_rec t = (reaper_rec r)(i \<mapsto> y) \<Longrightarrow> i \<in> reaping r \<Longrightarrow> reaping t = reaping r"
  "reaper_rec t = (reaper_rec r)(i := None) \<Longrightarrow> reaping t = reaping r - {i}"
  by (auto simp: reaping_def)

lemma rec_halves:
  "reaper_rec r i = Some x \<Longrightarrow> rec_left r i = map_option (\<lambda>v. (v, rr_poisoned x)) (rr_physical x)"
  "reaper_rec r i = Some x \<Longrightarrow>
     rec_right r i = map_option (\<lambda>b. (b, the (rr_terminal_releases x))) (rr_terminal x)"
  by (simp_all add: rec_left_def rec_right_def)

lemma rec_halves_upd:
  assumes "reaper_rec t = (reaper_rec r)(i := y)"
  shows "rec_left t = (rec_left r)(i := Option.bind y (\<lambda>x. map_option (\<lambda>v. (v, rr_poisoned x)) (rr_physical x)))"
    and "rec_right t = (rec_right r)(i :=
      Option.bind y (\<lambda>x. map_option (\<lambda>b. (b, the (rr_terminal_releases x))) (rr_terminal x)))"
  using assms by (auto simp: rec_left_def rec_right_def fun_eq_iff split: option.splits)

interpretation reaper: rendezvous reaper_ok reaping rec_left rec_right put_exit put_terminal finished_pair
proof
  fix r :: reaper_state and k a
  assume r: "reaper_ok r" and k: "k \<in> reaping r" and L: "rec_left r k = None" and R: "rec_right r k = None"
  obtain x where x: "fmlookup (rp_records r) k = Some [x]" "record_ok k x" "reaper_rec r k = Some x"
    "fmlookup (rp_by_name r) (rr_name x) = Some [\<lparr>ra_id = k, ra_release = k\<rparr>]"
    by (rule reaper_recE[OF r k])
  from L R x have none: "rr_physical x = None" "rr_terminal x = None" by (auto simp: rec_halves)
  let ?y = "x\<lparr>rr_physical := Some (fst a), rr_poisoned := snd a\<rparr>"
  have y: "record_ok k ?y" using x none by (simp add: record_ok_def)
  note p = put_record_ok[OF r x(1) y, simplified]
  have out: "put_exit r k a = ([], put_record r k 0 ?y)"
    using reap_finished_cases[OF r x(1,2,4) none(1), of "fst a" "snd a"] none
    by (simp add: put_exit_def as_output_def)
  from p out rec_halves_upd[OF p(2)] none R show "\<exists>t. put_exit r k a = ([], t) \<and> reaper_ok t \<and> reaping t = reaping r
      \<and> rec_left t = (rec_left r)(k \<mapsto> a) \<and> rec_right t = rec_right r"
    by (intro exI[of _ "put_record r k 0 ?y"]) (auto simp: reaping_upd(1)[OF p(2) k] fun_upd_idem)
next
  fix r :: reaper_state and k b
  assume r: "reaper_ok r" and k: "k \<in> reaping r" and L: "rec_left r k = None" and R: "rec_right r k = None"
  obtain x where x: "fmlookup (rp_records r) k = Some [x]" "record_ok k x" "reaper_rec r k = Some x"
    "fmlookup (rp_by_name r) (rr_name x) = Some [\<lparr>ra_id = k, ra_release = k\<rparr>]"
    by (rule reaper_recE[OF r k])
  from L R x have none: "rr_physical x = None" "rr_terminal x = None" by (auto simp: rec_halves)
  let ?y = "x\<lparr>rr_terminal := Some (fst b), rr_terminal_releases := Some (snd b)\<rparr>"
  have y: "record_ok k ?y" using x none by (simp add: record_ok_def)
  note p = put_record_ok[OF r x(1) y, simplified]
  have out: "put_terminal r k b = ([], put_record r k 0 ?y)"
    using attach_terminal_cases[OF r x(1,2,4) none(2), of "snd b" "tr_state (snd b)" "tr_report (snd b)"] none
    by (simp add: put_terminal_def as_output_def)
  from p out rec_halves_upd[OF p(2)] none L show "\<exists>t. put_terminal r k b = ([], t) \<and> reaper_ok t \<and> reaping t = reaping r
      \<and> rec_left t = rec_left r \<and> rec_right t = (rec_right r)(k \<mapsto> b)"
    by (intro exI[of _ "put_record r k 0 ?y"]) (auto simp: reaping_upd(1)[OF p(2) k] fun_upd_idem)
next
  fix r :: reaper_state and k a b
  assume r: "reaper_ok r" and k: "k \<in> reaping r" and L: "rec_left r k = None" and R: "rec_right r k = Some b"
  obtain x where x: "fmlookup (rp_records r) k = Some [x]" "record_ok k x" "reaper_rec r k = Some x"
    "fmlookup (rp_by_name r) (rr_name x) = Some [\<lparr>ra_id = k, ra_release = k\<rparr>]"
    by (rule reaper_recE[OF r k])
  from L R x have h: "rr_physical x = None" "rr_terminal x = Some (fst b)"
      "the (rr_terminal_releases x) = snd b"
    by (auto simp: rec_halves)
  note p = close_record_ok[OF r x(1)]
  have out: "put_exit r k a = ([finished_pair k a b], close_record r k (rr_name x))"
    using reap_finished_cases[OF r x(1,2,4) h(1), of "fst a" "snd a"] h
    by (simp add: put_exit_def as_output_def finished_pair_def Let_def)
  from p(1) out rec_halves_upd[OF p(2)] L show "\<exists>t. put_exit r k a = ([finished_pair k a b], t) \<and> reaper_ok t
      \<and> reaping t = reaping r - {k} \<and> rec_left t = rec_left r \<and> rec_right t = (rec_right r)(k := None)"
    by (intro exI[of _ "close_record r k (rr_name x)"]) (auto simp: reaping_upd(2)[OF p(2)] fun_upd_idem)
next
  fix r :: reaper_state and k a b
  assume r: "reaper_ok r" and k: "k \<in> reaping r" and L: "rec_left r k = Some a" and R: "rec_right r k = None"
  obtain x where x: "fmlookup (rp_records r) k = Some [x]" "record_ok k x" "reaper_rec r k = Some x"
    "fmlookup (rp_by_name r) (rr_name x) = Some [\<lparr>ra_id = k, ra_release = k\<rparr>]"
    by (rule reaper_recE[OF r k])
  from L R x have h: "rr_physical x = Some (fst a)" "rr_poisoned x = snd a" "rr_terminal x = None"
    by (auto simp: rec_halves)
  note p = close_record_ok[OF r x(1)]
  have out: "put_terminal r k b = ([finished_pair k a b], close_record r k (rr_name x))"
    using attach_terminal_cases[OF r x(1,2,4) h(3), of "snd b" "tr_state (snd b)" "tr_report (snd b)"] h
    by (simp add: put_terminal_def as_output_def finished_pair_def Let_def)
  from p(1) out rec_halves_upd[OF p(2)] R show "\<exists>t. put_terminal r k b = ([finished_pair k a b], t) \<and> reaper_ok t
      \<and> reaping t = reaping r - {k} \<and> rec_left t = (rec_left r)(k := None) \<and> rec_right t = rec_right r"
    by (intro exI[of _ "close_record r k (rr_name x)"]) (auto simp: reaping_upd(2)[OF p(2)] fun_upd_idem)
qed

end
