(* ===== verification/Runner.thy ===== *)
theory Runner
  imports Events
begin

text \<open>
  One physical task attempt (\<^verbatim>\<open>src/src/core/runner.rs\<close>).

  The user task is an input: \<open>attempt_script\<close> says whether \<open>spawn\<close> panics, how the returned future
  ends, whether it ends before the attempt timer, and which destructors of user values panic.
  A future that never becomes ready is \<open>uf_result = None\<close>; an attempt that never returns is the
  result \<open>None\<close> of \<open>run_once\<close>. The world of an attempt is the effect log and the shared
  cleanup-poisoned flag.
\<close>

section \<open>Panics and user values\<close>

datatype panic_message = StaticStr string | OwnedStr string | OtherPayload

record panic_payload =
  pp_message :: panic_message
  pp_drop_panics :: bool

datatype poll_outcome = PollOk | PollErr task_error | PollPanic panic_payload

record user_future =
  uf_result :: "poll_outcome option"
  uf_drop :: "panic_payload option"
  uf_value_drop :: "panic_payload option"

record attempt_script =
  as_spawn :: "(panic_payload, user_future) result"
  as_timer_wins :: bool
  as_elapsed :: duration

text \<open>Effects of the actor and of its attempts, in order.\<close>

datatype attempt_effect =
    Emit event
  | PermitTaken
  | PermitReturned
  | ActivityOn
  | ActivityOff
  | Slept duration

record attempt_world =
  at_log :: "attempt_effect list"
  at_poisoned :: bool

definition emit :: "event \<Rightarrow> attempt_world \<Rightarrow> attempt_world" where
  "emit e w = w\<lparr>at_log := at_log w @ [Emit e]\<rparr>"

record caught_failure =
  cf_error :: task_error
  cf_cleanup_panicked :: bool

record attempt_failure =
  af_error :: task_error
  af_reason :: reason
  af_exit_code :: "int option"
  af_cleanup_panicked :: bool

definition panic_to_error :: "panic_payload \<Rightarrow> task_error" where
  "panic_to_error p =
     task_error_fail (''task panicked: '' @
       (case pp_message p of
          StaticStr s \<Rightarrow> s
        | OwnedStr s \<Rightarrow> s
        | OtherPayload \<Rightarrow> ''non-string panic payload''))"

text \<open>\<open>True\<close> when the payload's own destructor panicked and had to be retained.\<close>

definition dispose_panic_payload :: "panic_payload \<Rightarrow> attempt_world \<Rightarrow> bool \<times> attempt_world" where
  "dispose_panic_payload p w =
     (if pp_drop_panics p then (True, w\<lparr>at_poisoned := True\<rparr>) else (False, w))"

definition attempt_failure_new :: "task_error \<Rightarrow> attempt_failure" where
  "attempt_failure_new e =
     \<lparr>af_error = e, af_reason = task_error_display e, af_exit_code = task_error_exit_code e,
      af_cleanup_panicked = False\<rparr>"

definition attempt_failure_caught :: "caught_failure \<Rightarrow> attempt_failure" where
  "attempt_failure_caught f =
     (attempt_failure_new (cf_error f))\<lparr>af_cleanup_panicked := cf_cleanup_panicked f\<rparr>"

section \<open>The panic boundary of a task future\<close>

definition drop_future :: "user_future \<Rightarrow> attempt_world \<Rightarrow> caught_failure option \<times> attempt_world" where
  "drop_future f w =
     (case uf_drop f of
        None \<Rightarrow> (None, w)
      | Some payload \<Rightarrow>
          (Some \<lparr>cf_error = panic_to_error payload, cf_cleanup_panicked = True\<rparr>,
           snd (dispose_panic_payload payload w)))"

definition dispose_value :: "panic_payload option \<Rightarrow> attempt_world \<Rightarrow> attempt_world" where
  "dispose_value v w =
     (case v of None \<Rightarrow> w | Some payload \<Rightarrow> snd (dispose_panic_payload payload w))"

text \<open>
  \<open>CatchPanic::poll\<close> at its last poll: \<open>None\<close> while the future is pending. The wrapped future is
  consumed. Dropping the value of a successful result does nothing.
\<close>

definition catch_panic_poll ::
  "user_future \<Rightarrow> attempt_world \<Rightarrow> (caught_failure, unit) result option \<times> attempt_world" where
  "catch_panic_poll f w =
     (case uf_result f of
        None \<Rightarrow> (None, w)
      | Some PollOk \<Rightarrow>
          (case drop_future f w of
             (Some failure, w) \<Rightarrow> (Some (Inl failure), w)
           | (None, w) \<Rightarrow> (Some (Inr ()), w))
      | Some (PollErr e) \<Rightarrow>
          (case drop_future f w of
             (Some failure, w) \<Rightarrow> (Some (Inl failure), dispose_value (uf_value_drop f) w)
           | (None, w) \<Rightarrow> (Some (Inl \<lparr>cf_error = e, cf_cleanup_panicked = False\<rparr>), w))
      | Some (PollPanic payload) \<Rightarrow>
          (let (payload_poisoned, w) = dispose_panic_payload payload w;
               (dropped, w) = drop_future f w
           in (Some (Inl \<lparr>cf_error = panic_to_error payload,
                          cf_cleanup_panicked = payload_poisoned \<or> dropped \<noteq> None\<rparr>), w)))"

text \<open>\<open>DropDiagnostic::publish\<close> and \<open>Drop for CatchPanic\<close>: abort destroys an unfinished future.\<close>

definition drop_diagnostic_publish ::
  "task_id \<Rightarrow> name \<Rightarrow> nat \<Rightarrow> caught_failure \<Rightarrow> attempt_world \<Rightarrow> attempt_world" where
  "drop_diagnostic_publish i n attempt failure w =
     emit (with_attempt attempt (with_id i (runtime_failure ''task_runner''
       ([Lit ''future_drop_panicked task='', StrArg n, Lit '': '']
        @ task_error_display (cf_error failure))))) w"

definition catch_panic_drop ::
  "task_id \<Rightarrow> name \<Rightarrow> nat \<Rightarrow> user_future option \<Rightarrow> attempt_world \<Rightarrow> attempt_world" where
  "catch_panic_drop i n attempt f w =
     (case f of
        None \<Rightarrow> w
      | Some f \<Rightarrow>
          (case drop_future f w of
             (None, w) \<Rightarrow> w
           | (Some failure, w) \<Rightarrow> drop_diagnostic_publish i n attempt failure w))"

section \<open>Attempt events\<close>

definition attempt_event :: "event_kind \<Rightarrow> task_id \<Rightarrow> name \<Rightarrow> nat \<Rightarrow> event" where
  "attempt_event k i n attempt = with_attempt attempt (with_id i (with_task n (event_new k)))"

definition publish_stopped ::
  "task_id \<Rightarrow> name \<Rightarrow> nat \<Rightarrow> duration \<Rightarrow> attempt_world \<Rightarrow> attempt_world" where
  "publish_stopped i n attempt d =
     emit (with_duration_ms d (attempt_event AttemptSucceeded i n attempt))"

definition publish_canceled ::
  "task_id \<Rightarrow> name \<Rightarrow> nat \<Rightarrow> duration \<Rightarrow> attempt_world \<Rightarrow> attempt_world" where
  "publish_canceled i n attempt d =
     emit (with_duration_ms d (attempt_event AttemptCanceled i n attempt))"

definition publish_failed ::
  "task_id \<Rightarrow> name \<Rightarrow> nat \<Rightarrow> attempt_failure \<Rightarrow> duration \<Rightarrow> attempt_world \<Rightarrow> attempt_world" where
  "publish_failed i n attempt failure d =
     (let event = with_reason (af_reason failure)
                    (with_duration_ms d (attempt_event AttemptFailed i n attempt))
      in emit (case af_exit_code failure of
                 None \<Rightarrow> event
               | Some code \<Rightarrow> with_event_exit_code code event))"

definition publish_timeout ::
  "task_id \<Rightarrow> name \<Rightarrow> duration \<Rightarrow> nat \<Rightarrow> duration \<Rightarrow> attempt_world \<Rightarrow> attempt_world" where
  "publish_timeout i n timeout attempt d =
     emit (with_duration_ms d
       (with_attempt attempt (with_timeout_ms timeout
         (with_id i (with_task n (event_new AttemptTimedOut))))))"

section \<open>One attempt\<close>

text \<open>The classification after the future ended: the last \<open>match res\<close> of \<open>run_once\<close>.\<close>

definition finish_attempt ::
  "task_id \<Rightarrow> name \<Rightarrow> nat \<Rightarrow> duration \<Rightarrow> (caught_failure, unit) result \<Rightarrow> attempt_world
     \<Rightarrow> (attempt_failure, unit) result \<times> attempt_world" where
  "finish_attempt i n attempt elapsed res w =
     (case res of
        Inr _ \<Rightarrow> (Inr (), publish_stopped i n attempt elapsed w)
      | Inl caught \<Rightarrow>
          (if cf_error caught = Canceled
           then (Inl ((attempt_failure_new Canceled)
                        \<lparr>af_cleanup_panicked := cf_cleanup_panicked caught\<rparr>),
                 publish_canceled i n attempt elapsed w)
           else let failure = attempt_failure_caught caught
                in (Inl failure, publish_failed i n attempt failure elapsed w)))"

text \<open>The branch of the expired attempt timer: the token is cancelled, the future destroyed.\<close>

definition expire_attempt ::
  "task_id \<Rightarrow> name \<Rightarrow> nat \<Rightarrow> duration \<Rightarrow> duration \<Rightarrow> user_future \<Rightarrow> attempt_world
     \<Rightarrow> (attempt_failure, unit) result \<times> attempt_world" where
  "expire_attempt i n attempt timeout elapsed f w =
     (case drop_future f w of
        (Some cleanup_failure, w) \<Rightarrow>
          (let failure = attempt_failure_caught cleanup_failure
           in (Inl failure, publish_failed i n attempt failure elapsed w))
      | (None, w) \<Rightarrow>
          (Inl (attempt_failure_new (Timeout timeout)),
           publish_timeout i n timeout attempt elapsed w))"

text \<open>\<open>return\<close> from an attempt that was reached.\<close>

definition returned :: "'r \<times> 'w \<Rightarrow> 'r option \<times> 'w" where
  "returned x = (Some (fst x), snd x)"

definition run_once ::
  "task_id \<Rightarrow> name \<Rightarrow> nat \<Rightarrow> duration option \<Rightarrow> attempt_script \<Rightarrow> attempt_world
     \<Rightarrow> (attempt_failure, unit) result option \<times> attempt_world" where
  "run_once i n attempt timeout scr w =
     (case as_spawn scr of
        Inl payload \<Rightarrow>
          (let (poisoned, w) = dispose_panic_payload payload w;
               failure = (attempt_failure_new (panic_to_error payload))
                           \<lparr>af_cleanup_panicked := poisoned\<rparr>
           in (Some (Inl failure), publish_failed i n attempt failure (as_elapsed scr) w))
      | Inr f \<Rightarrow>
          (case timeout of
             Some d \<Rightarrow>
               (if 0 < d \<and> (as_timer_wins scr \<or> uf_result f = None)
                then returned (expire_attempt i n attempt d (as_elapsed scr) f w)
                else case catch_panic_poll f w of
                       (None, w) \<Rightarrow> (None, w)
                     | (Some res, w) \<Rightarrow> returned (finish_attempt i n attempt (as_elapsed scr) res w))
           | None \<Rightarrow>
               (case catch_panic_poll f w of
                  (None, w) \<Rightarrow> (None, w)
                | (Some res, w) \<Rightarrow> returned (finish_attempt i n attempt (as_elapsed scr) res w))))"

section \<open>Facts\<close>

definition attempt_terminal :: "event \<Rightarrow> bool" where
  "attempt_terminal e \<longleftrightarrow>
     ev_kind e \<in> {AttemptSucceeded, AttemptCanceled, AttemptFailed, AttemptTimedOut}"

lemmas event_builder_defs =
  attempt_event_def with_attempt_def with_id_def with_task_def event_new_def with_duration_ms_def
  with_reason_def with_event_exit_code_def with_timeout_ms_def

lemmas publish_attempt_defs =
  publish_stopped_def publish_canceled_def publish_failed_def publish_timeout_def emit_def

lemma returned_eq [simp]: "returned x = (Some r, w) \<longleftrightarrow> x = (r, w)"
  by (cases x) (auto simp: returned_def)

lemma returned_fst [simp]: "fst (returned x) = Some (fst x)"
  by (simp add: returned_def)

lemma log_dispose [simp]:
  "at_log (snd (dispose_panic_payload p w)) = at_log w"
  "at_log (dispose_value v w) = at_log w"
  by (auto simp: dispose_panic_payload_def dispose_value_def split: option.splits)

lemma log_drop_future: "drop_future f w = (r, w') \<Longrightarrow> at_log w' = at_log w"
  by (auto simp: drop_future_def split: option.splits)

lemma log_catch_panic_poll: "catch_panic_poll f w = (r, w') \<Longrightarrow> at_log w' = at_log w"
  by (auto simp: catch_panic_poll_def dispose_panic_payload_def dest: log_drop_future
      split: option.splits poll_outcome.splits prod.splits if_splits)

text \<open>
  What an attempt should report, read off the documentation of the attempt events: the kind of the
  terminal event and, for a failure, the error with the flag that user cleanup panicked. A panic of
  \<open>spawn\<close> is a failure; an expired configured deadline is a timeout unless destroying the future
  panics; otherwise the last poll decides, and a panic while destroying the future overrides it.
\<close>

definition deadline_expires :: "duration option \<Rightarrow> attempt_script \<Rightarrow> user_future \<Rightarrow> bool" where
  "deadline_expires timeout scr f \<longleftrightarrow>
     (\<exists>d. timeout = Some d \<and> 0 < d) \<and> (as_timer_wins scr \<or> uf_result f = None)"

fun polled_verdict :: "poll_outcome \<Rightarrow> event_kind \<times> (task_error \<times> bool) option" where
  "polled_verdict PollOk = (AttemptSucceeded, None)"
| "polled_verdict (PollErr e) = (if e = Canceled then AttemptCanceled else AttemptFailed, Some (e, False))"
| "polled_verdict (PollPanic p) = (AttemptFailed, Some (panic_to_error p, pp_drop_panics p))"

definition attempt_verdict ::
  "duration option \<Rightarrow> attempt_script \<Rightarrow> (event_kind \<times> (task_error \<times> bool) option) option" where
  "attempt_verdict timeout scr =
     (case as_spawn scr of
        Inl p \<Rightarrow> Some (AttemptFailed, Some (panic_to_error p, pp_drop_panics p))
      | Inr f \<Rightarrow>
          (if deadline_expires timeout scr f
           then Some (case uf_drop f of
                        None \<Rightarrow> (AttemptTimedOut, Some (Timeout (the timeout), False))
                      | Some q \<Rightarrow> (AttemptFailed, Some (panic_to_error q, True)))
           else case (uf_result f, uf_drop f) of
                  (None, _) \<Rightarrow> None
                | (Some r, None) \<Rightarrow> Some (polled_verdict r)
                | (Some (PollPanic p), Some _) \<Rightarrow> Some (AttemptFailed, Some (panic_to_error p, True))
                | (Some _, Some q) \<Rightarrow> Some (AttemptFailed, Some (panic_to_error q, True))))"

text \<open>An attempt returns unless its future never becomes ready and no deadline is configured.\<close>

definition attempt_returns :: "duration option \<Rightarrow> attempt_script \<Rightarrow> bool" where
  "attempt_returns timeout scr \<longleftrightarrow>
     (\<forall>f. as_spawn scr = Inr f \<longrightarrow> uf_result f \<noteq> None \<or> (\<exists>d. timeout = Some d \<and> 0 < d))"

lemma panic_to_error_not_canceled [simp]: "panic_to_error p \<noteq> Canceled"
  by (simp add: panic_to_error_def task_error_fail_def)

lemma attempt_verdict_None: "attempt_verdict timeout scr = None \<longleftrightarrow> \<not> attempt_returns timeout scr"
  by (auto simp: attempt_verdict_def attempt_returns_def deadline_expires_def
      split: sum.splits option.splits poll_outcome.splits)

text \<open>The result the actor gets and the event that is published, for a verdict.\<close>

definition verdict_result :: "(task_error \<times> bool) option \<Rightarrow> (attempt_failure, unit) result" where
  "verdict_result err =
     (case err of
        None \<Rightarrow> Inr ()
      | Some (e, panicked) \<Rightarrow>
          Inl \<lparr>af_error = e, af_reason = task_error_display e, af_exit_code = task_error_exit_code e,
               af_cleanup_panicked = panicked\<rparr>)"

definition verdict_event ::
  "task_id \<Rightarrow> name \<Rightarrow> nat \<Rightarrow> duration option \<Rightarrow> duration \<Rightarrow> event_kind \<Rightarrow> (task_error \<times> bool) option \<Rightarrow> event" where
  "verdict_event i n attempt timeout elapsed k err =
     (event_new k)\<lparr>ev_id := Some i, ev_task := Some n, ev_attempt := Some attempt,
       ev_duration_ms := Some (millis_u32 elapsed),
       ev_timeout_ms := (if k = AttemptTimedOut then map_option millis_u32 timeout else None),
       ev_reason := (if k = AttemptFailed then map_option (task_error_display \<circ> fst) err else None),
       ev_exit_code := (if k = AttemptFailed then Option.bind err (task_error_exit_code \<circ> fst) else None)\<rparr>"

lemma publish_verdict:
  "publish_stopped i n attempt d w = emit (verdict_event i n attempt timeout d AttemptSucceeded None) w"
  "publish_canceled i n attempt d w = emit (verdict_event i n attempt timeout d AttemptCanceled err) w"
  "publish_timeout i n t attempt d w = emit (verdict_event i n attempt (Some t) d AttemptTimedOut err) w"
  "af_reason f = task_error_display e \<Longrightarrow> af_exit_code f = task_error_exit_code e \<Longrightarrow>
     publish_failed i n attempt f d w = emit (verdict_event i n attempt timeout d AttemptFailed (Some (e, b))) w"
  by (simp_all add: publish_attempt_defs verdict_event_def event_builder_defs Let_def split: option.split)

lemma finish_attempt_verdict:
  "finish_attempt i n attempt el res w =
     (let err = (case res of Inr _ \<Rightarrow> None | Inl c \<Rightarrow> Some (cf_error c, cf_cleanup_panicked c));
          k = (case err of None \<Rightarrow> AttemptSucceeded | Some (e, _) \<Rightarrow> if e = Canceled then AttemptCanceled else AttemptFailed)
      in (verdict_result err, emit (verdict_event i n attempt timeout el k err) w))"
  by (auto simp: finish_attempt_def verdict_result_def attempt_failure_new_def attempt_failure_caught_def
      publish_verdict(1,2)[where timeout = timeout] publish_verdict(4)[where timeout = timeout] Let_def split: sum.split)

lemma expire_attempt_verdict:
  assumes "0 < d"
  shows "\<exists>w1. at_log w1 = at_log w \<and> expire_attempt i n attempt d el f w =
    (let (k, err) = (case uf_drop f of
                       None \<Rightarrow> (AttemptTimedOut, Some (Timeout d, False))
                     | Some q \<Rightarrow> (AttemptFailed, Some (panic_to_error q, True)))
     in (verdict_result err, emit (verdict_event i n attempt (Some d) el k err) w1))"
proof (cases "uf_drop f")
  case None
  then show ?thesis
    by (intro exI[of _ w])
      (simp add: expire_attempt_def drop_future_def verdict_result_def attempt_failure_new_def publish_verdict(3))
next
  case (Some q)
  then show ?thesis
    by (intro exI[of _ "snd (dispose_panic_payload q w)"])
      (simp add: expire_attempt_def drop_future_def verdict_result_def attempt_failure_caught_def
        attempt_failure_new_def Let_def publish_verdict(4)[where timeout = "Some d"])
qed

lemma catch_panic_poll_verdict:
  assumes "uf_result f = Some r"
  shows "\<exists>res w1. catch_panic_poll f w = (Some res, w1) \<and> at_log w1 = at_log w
    \<and> (case res of Inr _ \<Rightarrow> None | Inl c \<Rightarrow> Some (cf_error c, cf_cleanup_panicked c)) =
      (case uf_drop f of
         None \<Rightarrow> snd (polled_verdict r)
       | Some q \<Rightarrow> Some (case r of PollPanic p \<Rightarrow> panic_to_error p | _ \<Rightarrow> panic_to_error q, True))"
  using assms
  by (cases r; cases "uf_drop f")
    (simp_all add: catch_panic_poll_def drop_future_def dispose_panic_payload_def Let_def)

lemma run_once_verdict:
  "(case attempt_verdict timeout scr of
      None \<Rightarrow> \<exists>w'. run_once i n attempt timeout scr w = (None, w') \<and> at_log w' = at_log w
    | Some (k, err) \<Rightarrow>
        \<exists>w'. run_once i n attempt timeout scr w = (Some (verdict_result err), w')
          \<and> at_log w' = at_log w @ [Emit (verdict_event i n attempt timeout (as_elapsed scr) k err)])"
proof (cases "as_spawn scr")
  case (Inl p)
  let ?err = "Some (panic_to_error p, pp_drop_panics p)"
  show ?thesis
    using Inl publish_verdict(4)[where timeout = timeout and e = "panic_to_error p" and b = "pp_drop_panics p"]
    by (simp add: run_once_def attempt_verdict_def dispose_panic_payload_def verdict_result_def
        attempt_failure_new_def emit_def Let_def)
next
  case (Inr f)
  show ?thesis
  proof (cases "deadline_expires timeout scr f")
    case True
    then obtain d where d: "timeout = Some d" "0 < d" by (auto simp: deadline_expires_def)
    obtain w1 where "at_log w1 = at_log w" "expire_attempt i n attempt d (as_elapsed scr) f w =
      (let (k, err) = (case uf_drop f of
                         None \<Rightarrow> (AttemptTimedOut, Some (Timeout d, False))
                       | Some q \<Rightarrow> (AttemptFailed, Some (panic_to_error q, True)))
       in (verdict_result err, emit (verdict_event i n attempt (Some d) (as_elapsed scr) k err) w1))"
      using expire_attempt_verdict[OF d(2)] by blast
    with True Inr d show ?thesis
      by (simp add: run_once_def attempt_verdict_def deadline_expires_def returned_def emit_def split: option.split)
  next
    case late: False
    have run: "run_once i n attempt timeout scr w = (case catch_panic_poll f w of
        (None, w) \<Rightarrow> (None, w)
      | (Some res, w) \<Rightarrow> returned (finish_attempt i n attempt (as_elapsed scr) res w))"
      using late Inr by (auto simp: run_once_def deadline_expires_def split: option.split)
    show ?thesis
    proof (cases "uf_result f")
      case None
      with run late Inr show ?thesis by (simp add: attempt_verdict_def catch_panic_poll_def)
    next
      case (Some r)
      obtain res w1 where poll: "catch_panic_poll f w = (Some res, w1)" "at_log w1 = at_log w"
        "(case res of Inr _ \<Rightarrow> None | Inl c \<Rightarrow> Some (cf_error c, cf_cleanup_panicked c)) =
           (case uf_drop f of
              None \<Rightarrow> snd (polled_verdict r)
            | Some q \<Rightarrow> Some (case r of PollPanic p \<Rightarrow> panic_to_error p | _ \<Rightarrow> panic_to_error q, True))"
        using catch_panic_poll_verdict[OF Some] by blast
      show ?thesis
        using run Some late Inr poll
        by (cases r; cases "uf_drop f")
          (simp_all add: attempt_verdict_def finish_attempt_verdict[where timeout = timeout] returned_def emit_def Let_def)
    qed
  qed
qed

text \<open>What the actor loop needs: an attempt that returns leaves one terminal event.\<close>

lemma verdict_terminal: "attempt_verdict timeout scr = Some (k, err) \<Longrightarrow>
   k \<in> {AttemptSucceeded, AttemptCanceled, AttemptFailed, AttemptTimedOut}"
  by (auto simp: attempt_verdict_def split: sum.splits option.splits poll_outcome.splits if_splits)

lemma verdict_success: "attempt_verdict timeout scr = Some (k, err) \<Longrightarrow> err = None \<longleftrightarrow> k = AttemptSucceeded"
  by (auto simp: attempt_verdict_def split: sum.splits option.splits poll_outcome.splits if_splits)

lemma run_once_reported:
  assumes "run_once i n attempt timeout scr w = (Some r, w')"
  obtains e where "at_log w' = at_log w @ [Emit e]" "attempt_terminal e"
proof -
  from run_once_verdict[of i n attempt timeout scr w] assms obtain k err where
    v: "attempt_verdict timeout scr = Some (k, err)"
      "at_log w' = at_log w @ [Emit (verdict_event i n attempt timeout (as_elapsed scr) k err)]"
    by (auto split: option.splits)
  from verdict_terminal[OF v(1)] have "attempt_terminal (verdict_event i n attempt timeout (as_elapsed scr) k err)"
    by (simp add: attempt_terminal_def verdict_event_def event_new_def)
  with v(2) show ?thesis by (rule that)
qed

lemma run_once_result:
  assumes "run_once i n attempt timeout scr w = (Some r, w')"
  obtains k err where "attempt_verdict timeout scr = Some (k, err)" "r = verdict_result err"
  using run_once_verdict[of i n attempt timeout scr w] assms by (auto split: option.splits)

lemma run_once_stuck:
  "run_once i n attempt timeout scr w = (None, w') \<Longrightarrow> \<not> attempt_returns timeout scr \<and> at_log w' = at_log w"
  using run_once_verdict[of i n attempt timeout scr w]
  by (auto simp: attempt_verdict_None split: option.splits)

section \<open>Properties\<close>

text \<open>
  C31. Every attempt that returns reports itself exactly once, with the event that belongs to what
  happened. An attempt fails to return only if its future never becomes ready and no positive deadline
  is configured; then nothing is published. Otherwise exactly one event is published, stamped with
  identity, name, attempt number and duration. It is \<open>AttemptSucceeded\<close> for a success,
  \<open>AttemptCanceled\<close> for a task that returned \<open>Canceled\<close>, \<open>AttemptTimedOut\<close> with the deadline exactly
  when the configured deadline expired and the future was destroyed silently, and \<open>AttemptFailed\<close> with
  reason and exit code for every other error, a timeout returned by the task included, and for every
  panic of \<open>spawn\<close>, of a poll or of the future's destructor. The actor gets the result with the same
  error and the flag that cleanup panicked.
\<close>

theorem attempt_reports_exactly_once:
  "(attempt_verdict timeout scr = None \<longleftrightarrow>
      (\<exists>f. as_spawn scr = Inr f \<and> uf_result f = None) \<and> (\<forall>d. timeout = Some d \<longrightarrow> d = 0))
   \<and> (attempt_verdict timeout scr = None \<longrightarrow>
       (\<exists>w'. run_once i n attempt timeout scr w = (None, w') \<and> at_log w' = at_log w))
   \<and> (\<forall>k err. attempt_verdict timeout scr = Some (k, err) \<longrightarrow>
       (\<exists>w'. run_once i n attempt timeout scr w = (Some (verdict_result err), w')
          \<and> at_log w' = at_log w @ [Emit (verdict_event i n attempt timeout (as_elapsed scr) k err)]))
   \<and> (\<forall>f d. as_spawn scr = Inr f \<and> timeout = Some d \<and> 0 < d \<and> (as_timer_wins scr \<or> uf_result f = None)
        \<and> uf_drop f = None \<longrightarrow> attempt_verdict timeout scr = Some (AttemptTimedOut, Some (Timeout d, False)))
   \<and> (\<forall>f e. as_spawn scr = Inr f \<and> uf_result f = Some (PollErr e) \<and> \<not> as_timer_wins scr \<and> uf_drop f = None
        \<longrightarrow> attempt_verdict timeout scr = Some (if e = Canceled then AttemptCanceled else AttemptFailed, Some (e, False)))"
proof (intro conjI)
  show "attempt_verdict timeout scr = None \<longleftrightarrow>
      (\<exists>f. as_spawn scr = Inr f \<and> uf_result f = None) \<and> (\<forall>d. timeout = Some d \<longrightarrow> d = 0)"
    by (auto simp: attempt_verdict_None attempt_returns_def)
qed (use run_once_verdict[of i n attempt timeout scr w] in
    \<open>auto simp: attempt_verdict_def deadline_expires_def split: option.splits\<close>)

theorem attempt_reports_exactly_once_witness:
  "\<exists>w'. run_once 1 ''job'' 1 (Some 5)
         \<lparr>as_spawn = Inr \<lparr>uf_result = None, uf_drop = None, uf_value_drop = None\<rparr>,
          as_timer_wins = False, as_elapsed = 5\<rparr> \<lparr>at_log = [], at_poisoned = False\<rparr>
       = (Some (verdict_result (Some (Timeout 5, False))), w')
     \<and> (\<exists>e. at_log w' = [Emit e] \<and> ev_kind e = AttemptTimedOut)"
proof -
  let ?s = "\<lparr>as_spawn = Inr \<lparr>uf_result = None, uf_drop = None, uf_value_drop = None\<rparr>,
          as_timer_wins = False, as_elapsed = 5\<rparr>"
  have v: "attempt_verdict (Some 5) ?s = Some (AttemptTimedOut, Some (Timeout 5, False))"
    by (simp add: attempt_verdict_def deadline_expires_def)
  with attempt_reports_exactly_once[of "Some 5" ?s 1 "''job''" 1 "\<lparr>at_log = [], at_poisoned = False\<rparr>"]
  show ?thesis by (auto simp: verdict_event_def event_new_def)
qed

end
