(* ===== verification/Actor.thy ===== *)
theory Actor
  imports Runner Policies Task_Spec
begin

text \<open>
  The sequential attempt loop of one registered task (\<^verbatim>\<open>src/src/core/actor.rs\<close>).

  One iteration of the loop is \<open>actor_step\<close>. What the other threads do around it (cancellation of the
  runtime token at each check, the answer of the attempt semaphore, whether a sleep completes) and
  what the user task does are the input \<open>actor_env\<close>; \<open>actor_run\<close> executes one iteration per input.
  The loop may run for ever, so a run ends with the inputs (\<open>StillRunning\<close>), with an attempt that
  never returns (\<open>Stuck\<close>) or with the exit of the actor.
\<close>

section \<open>Data\<close>

definition immediate_restart_floor :: duration where
  "immediate_restart_floor = duration_millis 1"

definition floored_interval :: "duration \<Rightarrow> duration \<Rightarrow> duration" where
  "floored_interval interval elapsed = max interval (immediate_restart_floor - elapsed)"

datatype actor_exit =
    ExitCompleted
  | ExitExhausted reason "int option" "string option"
  | ExitCanceled
  | ExitPanicked bool
  | ExitFatal reason "int option" "string option"

datatype attempt_decision =
    Finished "(attempt_failure, unit) result"
  | Retry reason
  | CleanupPanicked

record task_actor_params =
  ap_restart :: restart_policy
  ap_backoff :: backoff_policy
  ap_timeout :: "duration option"
  ap_max_retries :: "nat option"

record task_actor =
  ta_id :: task_id
  ta_name :: name
  ta_params :: task_actor_params
  ta_limited :: bool

text \<open>The local variables of \<open>run\<close> (32-bit counters) and the world of its attempts.\<close>

record actor_state =
  ac_attempt :: nat
  ac_backoff :: nat
  ac_world :: attempt_world

datatype permit_wait = PermitGranted | SemaphoreClosed | CancelledWaiting

record actor_env =
  ae_cancelled_top :: bool
  ae_permit :: permit_wait
  ae_cancelled_after :: bool
  ae_attempt :: attempt_script
  ae_error_drop :: "panic_payload option"
  ae_rng :: "nat \<Rightarrow> nat \<Rightarrow> nat"
  ae_sleep_completes :: bool
  ae_elapsed :: duration
  ae_cancelled_end :: bool

datatype actor_progress = Continue | Exited actor_exit | Stuck | StillRunning

definition u32_saturating_succ :: "nat \<Rightarrow> nat" where
  "u32_saturating_succ n = min (Suc n) u32_max"

definition actor_log :: "attempt_effect \<Rightarrow> actor_state \<Rightarrow> actor_state" where
  "actor_log x s = s\<lparr>ac_world := (ac_world s)\<lparr>at_log := at_log (ac_world s) @ [x]\<rparr>\<rparr>"

section \<open>Restart and retry rules\<close>

definition retries_exhausted :: "nat option \<Rightarrow> nat \<Rightarrow> bool" where
  "retries_exhausted max_retries backoff_attempt =
     (case max_retries of None \<Rightarrow> False | Some m \<Rightarrow> backoff_attempt \<ge> m)"

text \<open>\<open>error_drop\<close> is the panic of the user error's destructor, if it has one.\<close>

definition classify_attempt ::
  "(attempt_failure, unit) result \<Rightarrow> restart_policy \<Rightarrow> nat option \<Rightarrow> nat \<Rightarrow> panic_payload option
     \<Rightarrow> attempt_world \<Rightarrow> attempt_decision \<times> attempt_world" where
  "classify_attempt result restart max_retries backoff_attempt error_drop w =
     (case result of
        Inr _ \<Rightarrow> (Finished (Inr ()), w)
      | Inl failure \<Rightarrow>
          (if af_cleanup_panicked failure then (CleanupPanicked, dispose_value error_drop w)
           else let policy_allows_retry =
                      (case restart of OnFailure \<Rightarrow> True | Always _ \<Rightarrow> True | Never \<Rightarrow> False)
                in if \<not> (policy_allows_retry \<and> is_retryable (af_error failure))
                      \<or> retries_exhausted max_retries backoff_attempt
                   then (Finished (Inl failure), w)
                   else case error_drop of
                          None \<Rightarrow> (Retry (af_reason failure), w)
                        | Some payload \<Rightarrow>
                            (CleanupPanicked, snd (dispose_panic_payload payload w))))"

section \<open>One iteration\<close>

text \<open>\<open>None\<close> when the wait for an attempt permit ends the actor; otherwise whether a permit is held.\<close>

definition acquire_permit :: "task_actor \<Rightarrow> actor_env \<Rightarrow> actor_state \<Rightarrow> bool option \<times> actor_state" where
  "acquire_permit a env s =
     (if ta_limited a
      then case ae_permit env of
             PermitGranted \<Rightarrow> (Some True, actor_log PermitTaken s)
           | SemaphoreClosed \<Rightarrow> (None, s)
           | CancelledWaiting \<Rightarrow> (None, s)
      else (Some False, s))"

definition release_permit :: "bool \<Rightarrow> actor_state \<Rightarrow> actor_state" where
  "release_permit held s = (if held then actor_log PermitReturned s else s)"

definition begin_attempt :: "task_actor \<Rightarrow> actor_state \<Rightarrow> actor_state" where
  "begin_attempt a s =
     (let s = s\<lparr>ac_attempt := u32_saturating_succ (ac_attempt s)\<rparr>;
          s = actor_log ActivityOn s
      in actor_log (Emit (attempt_event AttemptStarting (ta_id a) (ta_name a) (ac_attempt s))) s)"

definition backoff_event ::
  "task_actor \<Rightarrow> backoff_source \<Rightarrow> nat \<Rightarrow> duration \<Rightarrow> reason option \<Rightarrow> event" where
  "backoff_event a src attempt delay r =
     (let e = with_delay_ms delay (with_backoff_source src
                (attempt_event BackoffScheduled (ta_id a) (ta_name a) attempt))
      in case r of None \<Rightarrow> e | Some r \<Rightarrow> with_reason r e)"

text \<open>\<open>sleep_cancellable\<close>: whether the delay completed before cancellation.\<close>

definition sleep_cancellable :: "actor_env \<Rightarrow> duration \<Rightarrow> actor_state \<Rightarrow> bool \<times> actor_state" where
  "sleep_cancellable env d s =
     (if ae_sleep_completes env then (True, actor_log (Slept d) s) else (False, s))"

definition sleep_then_continue ::
  "actor_env \<Rightarrow> duration \<Rightarrow> actor_state \<Rightarrow> actor_progress \<times> actor_state" where
  "sleep_then_continue env d s =
     (case sleep_cancellable env d s of
        (True, s) \<Rightarrow> (Continue, s)
      | (False, s) \<Rightarrow> (Exited ExitCanceled, s))"

text \<open>The branch of \<open>Finished(Ok(()))\<close>.\<close>

definition after_success ::
  "task_actor \<Rightarrow> actor_env \<Rightarrow> actor_state \<Rightarrow> actor_progress \<times> actor_state" where
  "after_success a env s =
     (let s = s\<lparr>ac_backoff := 0\<rparr>
      in case ap_restart (ta_params a) of
           Always (Some d) \<Rightarrow>
             (let delay = floored_interval d (ae_elapsed env)
              in sleep_then_continue env delay
                   (actor_log (Emit (backoff_event a BackoffSuccess (ac_attempt s) delay None)) s))
         | Always None \<Rightarrow>
             (if ae_elapsed env < immediate_restart_floor
              then sleep_then_continue env (immediate_restart_floor - ae_elapsed env) s
              else (Continue, s))
         | _ \<Rightarrow>
             (if ae_cancelled_end env then (Exited ExitCanceled, s) else (Exited ExitCompleted, s)))"

text \<open>The branches of \<open>Finished(Err(failure))\<close>.\<close>

definition failure_exit :: "task_actor_params \<Rightarrow> nat \<Rightarrow> attempt_failure \<Rightarrow> actor_exit" where
  "failure_exit p backoff_attempt failure =
     (if is_fatal (af_error failure)
      then ExitFatal (af_reason failure) (af_exit_code failure) (into_source (af_error failure))
      else if af_error failure = Canceled then ExitCanceled
      else let r = (case ap_max_retries p of
                      Some limit \<Rightarrow>
                        (if retries_exhausted (Some limit) backoff_attempt
                         then [Lit ''retry limit reached after '', NatArg backoff_attempt,
                               Lit '' of '', NatArg limit, Lit '' retries: ''] @ af_reason failure
                         else af_reason failure)
                    | None \<Rightarrow> af_reason failure)
           in ExitExhausted r (af_exit_code failure) (into_source (af_error failure)))"

definition after_attempt ::
  "(duration \<Rightarrow> f64 \<Rightarrow> nat \<Rightarrow> duration option) \<Rightarrow> task_actor \<Rightarrow> actor_env \<Rightarrow> attempt_decision
     \<Rightarrow> actor_state \<Rightarrow> actor_progress \<times> actor_state" where
  "after_attempt powf_secs a env decision s =
     (case decision of
        CleanupPanicked \<Rightarrow> (Exited (ExitPanicked (at_poisoned (ac_world s))), s)
      | Retry r \<Rightarrow>
          (let delay = delay_for_retry (ae_rng env) powf_secs (ap_backoff (ta_params a)) (ac_backoff s);
               s = s\<lparr>ac_backoff := u32_saturating_succ (ac_backoff s)\<rparr>
           in sleep_then_continue env delay
                (actor_log (Emit (backoff_event a BackoffFailure (ac_attempt s) delay (Some r))) s))
      | Finished (Inr _) \<Rightarrow> after_success a env s
      | Finished (Inl failure) \<Rightarrow> (Exited (failure_exit (ta_params a) (ac_backoff s) failure), s))"

definition actor_step ::
  "(duration \<Rightarrow> f64 \<Rightarrow> nat \<Rightarrow> duration option) \<Rightarrow> task_actor \<Rightarrow> actor_env \<Rightarrow> actor_state
     \<Rightarrow> actor_progress \<times> actor_state" where
  "actor_step powf_secs a env s =
     (if ae_cancelled_top env then (Exited ExitCanceled, s)
      else case acquire_permit a env s of
             (None, s) \<Rightarrow> (Exited ExitCanceled, s)
           | (Some held, s) \<Rightarrow>
               (if ae_cancelled_after env then (Exited ExitCanceled, release_permit held s)
                else let s = begin_attempt a s;
                         (r, w) = run_once (ta_id a) (ta_name a) (ac_attempt s)
                                    (ap_timeout (ta_params a)) (ae_attempt env) (ac_world s);
                         s = s\<lparr>ac_world := w\<rparr>
                     in case r of
                          None \<Rightarrow> (Stuck, s)
                        | Some result \<Rightarrow>
                            (let (decision, w) = classify_attempt result (ap_restart (ta_params a))
                                   (ap_max_retries (ta_params a)) (ac_backoff s)
                                   (ae_error_drop env) (ac_world s);
                                 s = release_permit held (actor_log ActivityOff (s\<lparr>ac_world := w\<rparr>))
                             in after_attempt powf_secs a env decision s)))"

fun actor_run ::
  "(duration \<Rightarrow> f64 \<Rightarrow> nat \<Rightarrow> duration option) \<Rightarrow> task_actor \<Rightarrow> actor_env list \<Rightarrow> actor_state
     \<Rightarrow> actor_progress \<times> actor_state" where
  "actor_run powf_secs a [] s = (StillRunning, s)"
| "actor_run powf_secs a (env # rest) s =
     (case actor_step powf_secs a env s of
        (Continue, s) \<Rightarrow> actor_run powf_secs a rest s
      | (p, s) \<Rightarrow> (p, s))"

definition actor_start :: actor_state where
  "actor_start = \<lparr>ac_attempt = 0, ac_backoff = 0, ac_world = \<lparr>at_log = [], at_poisoned = False\<rparr>\<rparr>"

section \<open>Attempts do not overlap\<close>

text \<open>
  The order of effects of one actor as an automaton, for an actor with a semaphore (\<open>limited\<close>) and for
  one without. With a semaphore an attempt starts only while its permit is held, and the permit is
  returned only after the attempt; without one no permit moves at all. The activity flag is on exactly
  while an attempt is started and not yet reported, and nothing else happens in between.
\<close>

datatype trace_phase = TIdle | THeld | TActive | TRunning | TEnded | TReleasing

fun trace_next :: "bool \<Rightarrow> trace_phase \<Rightarrow> attempt_effect \<Rightarrow> trace_phase option" where
  "trace_next limited TIdle PermitTaken = (if limited then Some THeld else None)"
| "trace_next limited TIdle ActivityOn = (if limited then None else Some TActive)"
| "trace_next limited TIdle (Emit e) = (if ev_kind e = BackoffScheduled then Some TIdle else None)"
| "trace_next limited TIdle (Slept _) = Some TIdle"
| "trace_next limited THeld PermitReturned = Some TIdle"
| "trace_next limited THeld ActivityOn = Some TActive"
| "trace_next limited TActive (Emit e) = (if ev_kind e = AttemptStarting then Some TRunning else None)"
| "trace_next limited TRunning (Emit e) = (if attempt_terminal e then Some TEnded else None)"
| "trace_next limited TEnded ActivityOff = Some (if limited then TReleasing else TIdle)"
| "trace_next limited TReleasing PermitReturned = Some TIdle"
| "trace_next limited _ _ = None"

fun trace_run :: "bool \<Rightarrow> trace_phase \<Rightarrow> attempt_effect list \<Rightarrow> trace_phase option" where
  "trace_run limited p [] = Some p"
| "trace_run limited p (x # xs) = (case trace_next limited p x of None \<Rightarrow> None | Some q \<Rightarrow> trace_run limited q xs)"

definition actor_phase :: "bool \<Rightarrow> actor_state \<Rightarrow> trace_phase option" where
  "actor_phase limited s = trace_run limited TIdle (at_log (ac_world s))"

lemma trace_run_append:
  "trace_run l p (xs @ ys) = (case trace_run l p xs of None \<Rightarrow> None | Some q \<Rightarrow> trace_run l q ys)"
  by (induction xs arbitrary: p) (auto split: option.splits)

lemma actor_phase_log:
  "actor_phase l (actor_log x s) = (case actor_phase l s of None \<Rightarrow> None | Some q \<Rightarrow> trace_next l q x)"
  by (auto simp: actor_phase_def actor_log_def trace_run_append split: option.splits)

lemma actor_phase_counters [simp]:
  "actor_phase l (s\<lparr>ac_attempt := n\<rparr>) = actor_phase l s" "actor_phase l (s\<lparr>ac_backoff := n\<rparr>) = actor_phase l s"
  by (simp_all add: actor_phase_def)

lemma actor_log_counters [simp]:
  "ac_attempt (actor_log x s) = ac_attempt s" "ac_backoff (actor_log x s) = ac_backoff s"
  "at_poisoned (ac_world (actor_log x s)) = at_poisoned (ac_world s)"
  "ac_attempt (release_permit h s) = ac_attempt s" "ac_backoff (release_permit h s) = ac_backoff s"
  by (simp_all add: actor_log_def release_permit_def)

lemma classify_attempt_log:
  "classify_attempt r rs m b ed w = (d, w') \<Longrightarrow> at_log w' = at_log w"
  by (auto simp: classify_attempt_def Let_def split: sum.splits if_splits option.splits)

lemma sleep_then_continue_idle:
  "sleep_then_continue env d s = (p, s') \<Longrightarrow> actor_phase l s = Some TIdle \<Longrightarrow>
     actor_phase l s' = Some TIdle \<and> p \<in> {Continue, Exited ExitCanceled}"
  by (auto simp: sleep_then_continue_def sleep_cancellable_def actor_phase_log split: if_splits)

lemma backoff_event_kind [simp]: "ev_kind (backoff_event a src n d r) = BackoffScheduled"
  by (cases r) (simp_all add: backoff_event_def with_delay_ms_def with_backoff_source_def event_builder_defs)

lemma after_attempt_idle:
  assumes "after_attempt powf_secs a env d s = (p, s')" and "actor_phase l s = Some TIdle"
  shows "actor_phase l s' = Some TIdle \<and> p \<noteq> Stuck \<and> p \<noteq> StillRunning"
  using assms sleep_then_continue_idle
  by (fastforce simp: after_attempt_def after_success_def actor_phase_log Let_def
      split: attempt_decision.splits sum.splits restart_policy.splits option.splits if_splits)

text \<open>The phase after one iteration that starts between two attempts.\<close>

definition phase_after :: "actor_progress \<Rightarrow> trace_phase" where
  "phase_after p = (if p = Stuck then TRunning else TIdle)"

lemma begin_attempt_phase:
  "actor_phase held s = Some (if held then THeld else TIdle) \<Longrightarrow>
     actor_phase held (begin_attempt a s) = Some TRunning"
  by (auto simp: begin_attempt_def Let_def actor_phase_log event_builder_defs split: if_splits)

lemma acquire_permit_phase:
  assumes "acquire_permit a env s = (h, s')" and "actor_phase (ta_limited a) s = Some TIdle"
  shows "h = None \<longrightarrow> s' = s"
    and "\<forall>held. h = Some held \<longrightarrow> held = ta_limited a \<and> actor_phase held s' = Some (if held then THeld else TIdle)"
  using assms by (auto simp: acquire_permit_def actor_phase_log split: if_splits permit_wait.splits)

lemma actor_step_phase:
  assumes step: "actor_step powf_secs a env s = (p, s')" and idle: "actor_phase (ta_limited a) s = Some TIdle"
  shows "actor_phase (ta_limited a) s' = Some (phase_after p) \<and> p \<noteq> StillRunning"
proof (cases "ae_cancelled_top env")
  case True
  with assms show ?thesis by (auto simp: actor_step_def phase_after_def)
next
  case False
  obtain h sa where acq: "acquire_permit a env s = (h, sa)" by (cases "acquire_permit a env s")
  note acquired = acquire_permit_phase[OF acq idle]
  show ?thesis
  proof (cases h)
    case None
    with acquired(1) acq False assms show ?thesis by (auto simp: actor_step_def phase_after_def)
  next
    case (Some held)
    with acquired(2) have held: "ta_limited a = held" and pa: "actor_phase held sa = Some (if held then THeld else TIdle)"
      by auto
    show ?thesis
    proof (cases "ae_cancelled_after env")
      case True
      with Some acq False step pa held show ?thesis
        by (auto simp: actor_step_def phase_after_def release_permit_def actor_phase_log split: if_splits)
    next
      case after: False
      let ?sb = "begin_attempt a sa"
      obtain r w where run: "run_once (ta_id a) (ta_name a) (ac_attempt ?sb) (ap_timeout (ta_params a))
          (ae_attempt env) (ac_world ?sb) = (r, w)" by fastforce
      note pb = begin_attempt_phase[OF pa, of a]
      show ?thesis
      proof (cases r)
        case None
        with run_once_stuck[OF run[unfolded None]] pb run Some acq False after step held show ?thesis
          by (auto simp: actor_step_def phase_after_def actor_phase_def Let_def)
      next
        case (Some result)
        obtain e where e: "at_log w = at_log (ac_world ?sb) @ [Emit e]" "attempt_terminal e"
          using run_once_reported[OF run[unfolded Some]] .
        obtain d wc where cl: "classify_attempt result (ap_restart (ta_params a)) (ap_max_retries (ta_params a))
            (ac_backoff ?sb) (ae_error_drop env) w = (d, wc)" by fastforce
        let ?sc = "release_permit held (actor_log ActivityOff (?sb\<lparr>ac_world := wc\<rparr>))"
        have "actor_phase held (?sb\<lparr>ac_world := wc\<rparr>) = Some TEnded"
          using e pb classify_attempt_log[OF cl] by (simp add: actor_phase_def trace_run_append)
        then have "actor_phase held ?sc = Some TIdle"
          by (cases held) (simp_all add: release_permit_def actor_phase_log)
        moreover have "after_attempt powf_secs a env d ?sc = (p, s')"
          using step False acq \<open>h = Some held\<close> after run Some cl by (simp add: actor_step_def Let_def)
        ultimately have "actor_phase held s' = Some TIdle \<and> p \<noteq> Stuck \<and> p \<noteq> StillRunning"
          by (intro after_attempt_idle)
        then show ?thesis by (simp add: phase_after_def held)
      qed
    qed
  qed
qed

text \<open>
  C32. Attempts of one identity never overlap and always hold their resources. Whatever the task,
  the semaphore and cancellation do, the effects of an actor follow the attempt protocol. If the
  actor is limited by a semaphore, every attempt starts and ends while the actor holds exactly one
  permit, taken before it and returned after it; if it is not, no permit moves. The activity flag is
  on exactly during the attempt, every started attempt is reported once before the next one starts,
  and no permit and no activity remain between attempts, during sleeps and when the actor exits; only
  an attempt that never returns keeps them.
\<close>

theorem attempts_never_overlap:
  assumes "actor_run powf_secs a envs actor_start = (p, s)"
  shows "trace_run (ta_limited a) TIdle (at_log (ac_world s)) = Some (if p = Stuck then TRunning else TIdle)"
proof -
  have "actor_phase (ta_limited a) s = Some (phase_after p)"
    if "actor_run powf_secs a envs s0 = (p, s)" "actor_phase (ta_limited a) s0 = Some TIdle" for s0
    using that
  proof (induction envs arbitrary: s0)
    case Nil
    then show ?case by (auto simp: phase_after_def)
  next
    case (Cons env envs)
    obtain p1 s1 where step: "actor_step powf_secs a env s0 = (p1, s1)"
      by (cases "actor_step powf_secs a env s0")
    from actor_step_phase[OF step Cons.prems(2)] Cons step show ?case
      by (cases p1) (auto simp: phase_after_def)
  qed
  from this[OF assms] show ?thesis by (simp add: actor_phase_def actor_start_def phase_after_def)
qed

text \<open>Inputs without interference, for the witnesses: the task ends with the given result.\<close>

definition demo_env :: "poll_outcome \<Rightarrow> actor_env" where
  "demo_env r =
     \<lparr>ae_cancelled_top = False, ae_permit = PermitGranted, ae_cancelled_after = False,
      ae_attempt = \<lparr>as_spawn = Inr \<lparr>uf_result = Some r, uf_drop = None, uf_value_drop = None\<rparr>,
                    as_timer_wins = False, as_elapsed = 3\<rparr>,
      ae_error_drop = None, ae_rng = (\<lambda>lo hi. lo), ae_sleep_completes = True, ae_elapsed = 3,
      ae_cancelled_end = False\<rparr>"

definition demo_actor :: "restart_policy \<Rightarrow> nat option \<Rightarrow> task_actor" where
  "demo_actor restart max_retries =
     \<lparr>ta_id = 1, ta_name = ''job'',
      ta_params = \<lparr>ap_restart = restart, ap_backoff = backoff_policy_default, ap_timeout = Some 9,
                   ap_max_retries = max_retries\<rparr>,
      ta_limited = True\<rparr>"

theorem attempts_never_overlap_witness:
  "\<exists>p s. actor_run (\<lambda>d f i. None) (demo_actor OnFailure (Some 1))
       [demo_env (PollErr (Timeout 2)), demo_env PollOk] actor_start = (p, s)
     \<and> trace_run True TIdle (at_log (ac_world s)) = Some (if p = Stuck then TRunning else TIdle)"
proof -
  obtain p s where run: "actor_run (\<lambda>d f i. None) (demo_actor OnFailure (Some 1))
      [demo_env (PollErr (Timeout 2)), demo_env PollOk] actor_start = (p, s)" by fastforce
  from attempts_never_overlap[OF run] run show ?thesis by (simp add: demo_actor_def)
qed

section \<open>Retry limits and termination\<close>

text \<open>What one iteration does to the counters, as far as the limits are concerned.\<close>

lemma sleep_then_continue_counters:
  "sleep_then_continue env d s = (p, s') \<Longrightarrow> ac_attempt s' = ac_attempt s \<and> ac_backoff s' = ac_backoff s"
  by (auto simp: sleep_then_continue_def sleep_cancellable_def split: if_splits)

lemma after_attempt_counters:
  assumes "after_attempt powf_secs a env d s = (p, s')"
  shows "ac_attempt s' = ac_attempt s"
    and "p = Continue \<Longrightarrow> \<forall>i. ap_restart (ta_params a) \<noteq> Always i \<Longrightarrow>
      (\<exists>r. d = Retry r) \<and> ac_backoff s' = u32_saturating_succ (ac_backoff s)"
  using assms
  by (auto simp: after_attempt_def after_success_def Let_def dest: sleep_then_continue_counters
      split: attempt_decision.splits sum.splits restart_policy.splits option.splits if_splits)

lemma classify_retry:
  "classify_attempt r rs m b ed w = (Retry x, w') \<Longrightarrow>
     \<not> retries_exhausted m b \<and> rs \<noteq> Never
     \<and> (\<exists>f. r = Inl f \<and> is_retryable (af_error f) \<and> \<not> af_cleanup_panicked f)"
  by (auto simp: classify_attempt_def Let_def split: sum.splits if_splits option.splits)

lemma acquire_permit_counters:
  "acquire_permit a env s = (h, s') \<Longrightarrow> ac_attempt s' = ac_attempt s \<and> ac_backoff s' = ac_backoff s"
  by (auto simp: acquire_permit_def split: if_splits permit_wait.splits)

lemma begin_attempt_counters [simp]:
  "ac_attempt (begin_attempt a s) = u32_saturating_succ (ac_attempt s)"
  "ac_backoff (begin_attempt a s) = ac_backoff s"
  by (simp_all add: begin_attempt_def Let_def)

text \<open>The sleep that ends an iteration, or zero if it ends without one.\<close>

definition last_sleep :: "attempt_effect list \<Rightarrow> duration" where
  "last_sleep l = (case rev l of Slept d # _ \<Rightarrow> d | _ \<Rightarrow> 0)"

lemma actor_step_cases:
  assumes "actor_step powf_secs a env s = (p, s')"
  obtains (no_attempt) "p = Exited ExitCanceled" "ac_attempt s' = ac_attempt s"
  | (blocked) "p = Stuck" "\<not> attempt_returns (ap_timeout (ta_params a)) (ae_attempt env)"
      "ac_attempt s' = u32_saturating_succ (ac_attempt s)"
  | (attempted) k w r w1 d w2 sc where
      "run_once (ta_id a) (ta_name a) k (ap_timeout (ta_params a)) (ae_attempt env) w = (Some r, w1)"
      "classify_attempt r (ap_restart (ta_params a)) (ap_max_retries (ta_params a)) (ac_backoff s)
         (ae_error_drop env) w1 = (d, w2)"
      "after_attempt powf_secs a env d sc = (p, s')" "ac_backoff sc = ac_backoff s"
      "ac_attempt sc = u32_saturating_succ (ac_attempt s)" "last_sleep (at_log (ac_world sc)) = 0"
proof (cases "ae_cancelled_top env")
  case True
  with assms no_attempt show ?thesis by (simp add: actor_step_def)
next
  case False
  obtain h sa where acq: "acquire_permit a env s = (h, sa)" by (cases "acquire_permit a env s")
  note ca = acquire_permit_counters[OF acq]
  show ?thesis
  proof (cases "h = None \<or> ae_cancelled_after env")
    case True
    with assms False acq ca no_attempt show ?thesis
      by (cases h) (auto simp: actor_step_def)
  next
    case go: False
    then obtain held where h: "h = Some held" by auto
    let ?sb = "begin_attempt a sa"
    obtain r w1 where run: "run_once (ta_id a) (ta_name a) (ac_attempt ?sb) (ap_timeout (ta_params a))
        (ae_attempt env) (ac_world ?sb) = (r, w1)" by fastforce
    show ?thesis
    proof (cases r)
      case None
      have "\<not> attempt_returns (ap_timeout (ta_params a)) (ae_attempt env)"
        using run_once_stuck[OF run[unfolded None]] by simp
      moreover have "p = Stuck" "ac_attempt s' = u32_saturating_succ (ac_attempt s)"
        using assms False acq h go run None ca by (auto simp: actor_step_def Let_def)
      ultimately show ?thesis using blocked by blast
    next
      case (Some result)
      obtain d w2 where cl: "classify_attempt result (ap_restart (ta_params a)) (ap_max_retries (ta_params a))
          (ac_backoff s) (ae_error_drop env) w1 = (d, w2)" by fastforce
      let ?sc = "release_permit held (actor_log ActivityOff (?sb\<lparr>ac_world := w2\<rparr>))"
      have "after_attempt powf_secs a env d ?sc = (p, s')"
        using assms False acq h go run Some cl ca by (simp add: actor_step_def Let_def)
      with attempted[OF run[unfolded Some] cl this] ca show ?thesis
        by (simp add: release_permit_def actor_log_def last_sleep_def)
    qed
  qed
qed

lemma actor_step_retry:
  assumes "actor_step powf_secs a env s = (Continue, s')"
    and "\<forall>i. ap_restart (ta_params a) \<noteq> Always i" and "ap_max_retries (ta_params a) = Some m"
  shows "ac_backoff s < m \<and> ac_backoff s' = u32_saturating_succ (ac_backoff s)
    \<and> ac_attempt s' = u32_saturating_succ (ac_attempt s)"
  using assms(1)
proof (cases rule: actor_step_cases)
  case (attempted k w r w1 d w2 sc)
  from after_attempt_counters(2)[OF attempted(3) refl assms(2)]
  obtain x where "d = Retry x" "ac_backoff s' = u32_saturating_succ (ac_backoff sc)" by blast
  with attempted(2,4,5) classify_retry after_attempt_counters(1)[OF attempted(3)] assms(3)
  show ?thesis by (fastforce simp: retries_exhausted_def)
qed auto

text \<open>
  C33. A task that is not restarted after success always terminates. With a retry limit \<open>m\<close> and a
  restart policy other than \<open>Always\<close>, the actor exits after at most \<open>m + 1\<close> attempts, whatever their
  results and panics are, however the semaphore behaves and whenever it is cancelled, provided that
  each of its attempts returns: because \<open>spawn\<close> panics, because the user future becomes ready, or
  because a positive attempt timeout is configured, which is enough for every future.
\<close>

theorem actor_terminates:
  assumes "\<forall>i. ap_restart (ta_params a) \<noteq> Always i" and "ap_max_retries (ta_params a) = Some m"
    and "m \<le> u32_max" and "m < length envs"
    and "\<forall>env \<in> set envs. case as_spawn (ae_attempt env) of
           Inl _ \<Rightarrow> True
         | Inr f \<Rightarrow> uf_result f \<noteq> None \<or> (\<exists>d. ap_timeout (ta_params a) = Some d \<and> 0 < d)"
  shows "\<exists>x s. actor_run powf_secs a envs actor_start = (Exited x, s) \<and> ac_attempt s \<le> Suc m"
proof -
  have "\<exists>x s. actor_run powf_secs a envs s0 = (Exited x, s) \<and> ac_attempt s \<le> ac_attempt s0 + Suc (m - b)"
    if "ac_backoff s0 = b" "b \<le> m" "m - b < length envs" for b s0
    using that assms(5)
  proof (induction envs arbitrary: s0 b)
    case (Cons env envs)
    obtain p1 s1 where step: "actor_step powf_secs a env s0 = (p1, s1)"
      by (cases "actor_step powf_secs a env s0")
    from step show ?case
    proof (cases rule: actor_step_cases)
      case no_attempt
      with step show ?thesis by simp
    next
      case blocked
      with Cons.prems(4) show ?thesis by (auto simp: attempt_returns_def)
    next
      case (attempted k w r w1 dd w2 sc)
      have le: "ac_attempt s1 \<le> Suc (ac_attempt s0)"
        using after_attempt_counters(1)[OF attempted(3)] attempted(5) by (simp add: u32_saturating_succ_def)
      have idle: "p1 \<noteq> Stuck \<and> p1 \<noteq> StillRunning"
        using attempted(3)
        by (auto simp: after_attempt_def after_success_def sleep_then_continue_def sleep_cancellable_def
            Let_def split: attempt_decision.splits sum.splits restart_policy.splits option.splits if_splits)
      show ?thesis
      proof (cases p1)
        case Continue
        from actor_step_retry[OF step[unfolded Continue] assms(1,2)] Cons.prems(1,2) assms(3)
        have b: "b < m" "ac_backoff s1 = Suc b" by (auto simp: u32_saturating_succ_def)
        with Cons.prems(3) have "m - Suc b < length envs" by simp
        from Cons.IH[OF b(2) _ this] b(1) Cons.prems(4) obtain x s where
          "actor_run powf_secs a envs s1 = (Exited x, s)" "ac_attempt s \<le> ac_attempt s1 + Suc (m - Suc b)"
          by auto
        with le b(1) step Continue show ?thesis by auto
      next
        case (Exited x)
        with step le show ?thesis by auto
      qed (use idle in auto)
    qed
  qed simp
  from this[of actor_start 0] assms(4) show ?thesis by (simp add: actor_start_def)
qed

theorem actor_terminates_witness:
  "\<exists>x s. actor_run (\<lambda>d f i. None) (demo_actor OnFailure (Some 1))
       [demo_env (PollErr (Timeout 2)), demo_env (PollErr (Timeout 2))] actor_start = (Exited x, s)
     \<and> ac_attempt s \<le> Suc 1"
  by (rule actor_terminates) (simp_all add: demo_actor_def demo_env_def u32_max_def)

section \<open>The exit as a function of the attempt results\<close>

text \<open>
  A reference description of the restart rules on the bare results of the attempts: \<open>None\<close> for a
  success, \<open>Some e\<close> for a failure. \<open>retry_streak\<close> counts the failures since the last success.
\<close>

definition retry_streak :: "nat \<Rightarrow> task_error option list \<Rightarrow> nat" where
  "retry_streak b rs = fold (\<lambda>r b. case r of None \<Rightarrow> 0 | Some _ \<Rightarrow> Suc b) rs b"

definition final_result :: "task_actor_params \<Rightarrow> nat \<Rightarrow> task_error option \<Rightarrow> bool" where
  "final_result p streak r \<longleftrightarrow>
     (case r of
        None \<Rightarrow> \<forall>i. ap_restart p \<noteq> Always i
      | Some e \<Rightarrow>
          \<not> is_retryable e \<or> ap_restart p = Never
          \<or> (\<exists>m. ap_max_retries p = Some m \<and> m \<le> streak))"

fun exit_matches :: "actor_exit \<Rightarrow> task_error option \<Rightarrow> bool" where
  "exit_matches ExitCompleted None = True"
| "exit_matches (ExitFatal _ c src) (Some e) =
     (is_fatal e \<and> c = task_error_exit_code e \<and> src = into_source e)"
| "exit_matches ExitCanceled (Some e) = (e = Canceled)"
| "exit_matches (ExitExhausted _ c src) (Some e) =
     (is_retryable e \<and> c = task_error_exit_code e \<and> src = into_source e)"
| "exit_matches _ _ = False"

text \<open>The script of an attempt that ends with the given result and destroys its values silently.\<close>

definition attempt_ends :: "duration option \<Rightarrow> attempt_script \<Rightarrow> task_error option \<Rightarrow> bool" where
  "attempt_ends timeout scr r \<longleftrightarrow>
     (\<exists>f. as_spawn scr = Inr f \<and> uf_drop f = None
        \<and> ((\<exists>d. timeout = Some d \<and> 0 < d \<and> as_timer_wins scr \<and> r = Some (Timeout d))
           \<or> (\<not> as_timer_wins scr
              \<and> (case r of
                   None \<Rightarrow> uf_result f = Some PollOk
                 | Some e \<Rightarrow> uf_result f = Some (PollErr e)))))"

definition calm_env :: "task_actor \<Rightarrow> actor_env \<Rightarrow> task_error option \<Rightarrow> bool" where
  "calm_env a env r \<longleftrightarrow>
     \<not> ae_cancelled_top env \<and> ae_permit env = PermitGranted \<and> \<not> ae_cancelled_after env
     \<and> ae_error_drop env = None \<and> ae_sleep_completes env \<and> \<not> ae_cancelled_end env
     \<and> attempt_ends (ap_timeout (ta_params a)) (ae_attempt env) r"

lemma run_once_ends:
  assumes "attempt_ends timeout scr r"
  shows "\<exists>w'. run_once i n k timeout scr w =
    (Some (case r of None \<Rightarrow> Inr () | Some e \<Rightarrow> Inl (attempt_failure_new e)), w')"
  using assms
  by (auto simp: attempt_ends_def run_once_def expire_attempt_def drop_future_def catch_panic_poll_def
      finish_attempt_def attempt_failure_caught_def attempt_failure_new_def Let_def
      split: option.splits)

lemma actor_step_calm:
  assumes "calm_env a env r"
  obtains sc w2 where
    "actor_step powf_secs a env s = after_attempt powf_secs a env
       (fst (classify_attempt (case r of None \<Rightarrow> Inr () | Some e \<Rightarrow> Inl (attempt_failure_new e))
          (ap_restart (ta_params a)) (ap_max_retries (ta_params a)) (ac_backoff s) None w2)) sc"
    "ac_backoff sc = ac_backoff s" "ac_attempt sc = u32_saturating_succ (ac_attempt s)"
proof -
  obtain held sa where acq: "acquire_permit a env s = (Some held, sa)"
    using assms by (cases "ta_limited a") (auto simp: calm_env_def acquire_permit_def)
  note ca = acquire_permit_counters[OF acq]
  let ?sb = "begin_attempt a sa"
  from run_once_ends[of "ap_timeout (ta_params a)" "ae_attempt env" r] assms
  obtain w1 where run: "run_once (ta_id a) (ta_name a) (ac_attempt ?sb) (ap_timeout (ta_params a))
      (ae_attempt env) (ac_world ?sb)
      = (Some (case r of None \<Rightarrow> Inr () | Some e \<Rightarrow> Inl (attempt_failure_new e)), w1)"
    unfolding calm_env_def by blast
  let ?cl = "classify_attempt (case r of None \<Rightarrow> Inr () | Some e \<Rightarrow> Inl (attempt_failure_new e))
      (ap_restart (ta_params a)) (ap_max_retries (ta_params a)) (ac_backoff s) None w1"
  let ?sc = "release_permit held (actor_log ActivityOff (?sb\<lparr>ac_world := snd ?cl\<rparr>))"
  have "actor_step powf_secs a env s = after_attempt powf_secs a env (fst ?cl) ?sc"
    using assms acq run ca by (simp add: actor_step_def calm_env_def Let_def case_prod_unfold)
  with that ca show ?thesis by simp
qed

lemma actor_step_final:
  assumes "calm_env a env r" and "final_result (ta_params a) (ac_backoff s) r"
  shows "\<exists>x s'. actor_step powf_secs a env s = (Exited x, s') \<and> exit_matches x r
    \<and> ac_attempt s' = u32_saturating_succ (ac_attempt s)"
proof -
  from assms(1) have quiet: "\<not> ae_cancelled_end env" by (simp add: calm_env_def)
  from actor_step_calm[OF assms(1), of powf_secs s] obtain sc w2 where step:
    "actor_step powf_secs a env s = after_attempt powf_secs a env
       (fst (classify_attempt (case r of None \<Rightarrow> Inr () | Some e \<Rightarrow> Inl (attempt_failure_new e))
          (ap_restart (ta_params a)) (ap_max_retries (ta_params a)) (ac_backoff s) None w2)) sc"
    "ac_backoff sc = ac_backoff s" "ac_attempt sc = u32_saturating_succ (ac_attempt s)" .
  show ?thesis
  proof (cases r)
    case None
    with step assms(2) quiet show ?thesis
      by (cases "ap_restart (ta_params a)")
        (simp_all add: classify_attempt_def after_attempt_def after_success_def final_result_def Let_def)
  next
    case (Some e)
    have "fst (classify_attempt (Inl (attempt_failure_new e)) (ap_restart (ta_params a))
        (ap_max_retries (ta_params a)) (ac_backoff s) None w2) = Finished (Inl (attempt_failure_new e))"
      using assms(2) Some
      by (auto simp: classify_attempt_def attempt_failure_new_def final_result_def retries_exhausted_def
          Let_def split: restart_policy.splits option.splits)
    with step Some show ?thesis
      by (cases e) (auto simp: after_attempt_def failure_exit_def attempt_failure_new_def Let_def)
  qed
qed

lemma actor_step_not_final:
  assumes "calm_env a env r" and "\<not> final_result (ta_params a) (ac_backoff s) r"
  shows "\<exists>s'. actor_step powf_secs a env s = (Continue, s')
    \<and> ac_backoff s' = (case r of None \<Rightarrow> 0 | Some _ \<Rightarrow> u32_saturating_succ (ac_backoff s))
    \<and> ac_attempt s' = u32_saturating_succ (ac_attempt s)"
proof -
  from assms(1) have sleeps: "ae_sleep_completes env" by (simp add: calm_env_def)
  from actor_step_calm[OF assms(1), of powf_secs s] obtain sc w2 where step:
    "actor_step powf_secs a env s = after_attempt powf_secs a env
       (fst (classify_attempt (case r of None \<Rightarrow> Inr () | Some e \<Rightarrow> Inl (attempt_failure_new e))
          (ap_restart (ta_params a)) (ap_max_retries (ta_params a)) (ac_backoff s) None w2)) sc"
    "ac_backoff sc = ac_backoff s" "ac_attempt sc = u32_saturating_succ (ac_attempt s)" .
  show ?thesis
  proof (cases r)
    case None
    with step assms(2) sleeps show ?thesis
      by (auto simp: classify_attempt_def after_attempt_def after_success_def final_result_def
          sleep_then_continue_def sleep_cancellable_def Let_def split: restart_policy.splits option.splits)
  next
    case (Some e)
    have "fst (classify_attempt (Inl (attempt_failure_new e)) (ap_restart (ta_params a))
        (ap_max_retries (ta_params a)) (ac_backoff s) None w2) = Retry (task_error_display e)"
      using assms(2) Some
      by (auto simp: classify_attempt_def attempt_failure_new_def final_result_def retries_exhausted_def
          Let_def split: restart_policy.splits option.splits)
    with step Some sleeps show ?thesis
      by (auto simp: after_attempt_def sleep_then_continue_def sleep_cancellable_def Let_def)
  qed
qed

text \<open>The 32-bit counter saturates, which the limit test cannot see.\<close>

lemma final_result_saturated:
  "\<forall>m. ap_max_retries p = Some m \<longrightarrow> m \<le> u32_max \<Longrightarrow>
     final_result p (min b u32_max) r = final_result p b r"
  by (auto simp: final_result_def split: option.splits)

lemma retry_streak_Cons:
  "retry_streak b (r # rs) = retry_streak (case r of None \<Rightarrow> 0 | Some _ \<Rightarrow> Suc b) rs"
  by (simp add: retry_streak_def)

lemma actor_run_first_final:
  assumes "list_all2 (calm_env a) envs rs" and "\<forall>m. ap_max_retries (ta_params a) = Some m \<longrightarrow> m \<le> u32_max"
    and "ac_backoff s = min b u32_max" and "k < length rs"
    and "final_result (ta_params a) (retry_streak b (take k rs)) (rs ! k)"
    and "\<forall>j < k. \<not> final_result (ta_params a) (retry_streak b (take j rs)) (rs ! j)"
  shows "\<exists>x s'. actor_run powf_secs a envs s = (Exited x, s') \<and> exit_matches x (rs ! k)
    \<and> ac_attempt s' = min (ac_attempt s + Suc k) u32_max"
  using assms
proof (induction envs rs arbitrary: s b k rule: list_all2_induct)
  case (Cons env envs r rs)
  show ?case
  proof (cases k)
    case 0
    with Cons.prems final_result_saturated[of "ta_params a" b r] have
      "final_result (ta_params a) (ac_backoff s) r" by (simp add: retry_streak_def)
    from actor_step_final[OF Cons.hyps(1) this, of powf_secs] 0 show ?thesis
      by (auto simp: u32_saturating_succ_def)
  next
    case (Suc k')
    let ?b = "case r of None \<Rightarrow> 0 | Some _ \<Rightarrow> Suc b"
    have "\<not> final_result (ta_params a) b r"
      using Cons.prems(5)[rule_format, of 0] Suc by (simp add: retry_streak_def)
    with final_result_saturated[OF Cons.prems(1), of b r] Cons.prems(2)
    have "\<not> final_result (ta_params a) (ac_backoff s) r" by simp
    from actor_step_not_final[OF Cons.hyps(1) this, of powf_secs] obtain s1 where
      s1: "actor_step powf_secs a env s = (Continue, s1)" "ac_attempt s1 = u32_saturating_succ (ac_attempt s)"
        "ac_backoff s1 = (case r of None \<Rightarrow> 0 | Some _ \<Rightarrow> u32_saturating_succ (ac_backoff s))" by blast
    have "ac_backoff s1 = min ?b u32_max"
      using s1(3) Cons.prems(2) by (cases r) (auto simp: u32_saturating_succ_def)
    moreover have "\<forall>j < k'. \<not> final_result (ta_params a) (retry_streak ?b (take j rs)) (rs ! j)"
    proof (intro allI impI)
      fix j assume "j < k'"
      with Cons.prems(5) Suc show "\<not> final_result (ta_params a) (retry_streak ?b (take j rs)) (rs ! j)"
        by (auto simp: retry_streak_Cons dest!: spec[of _ "Suc j"])
    qed
    ultimately obtain x s' where "actor_run powf_secs a envs s1 = (Exited x, s')" "exit_matches x (rs ! k')"
      "ac_attempt s' = min (ac_attempt s1 + Suc k') u32_max"
      using Cons.IH[of s1 ?b k'] Cons.prems(1,3,4) Suc by (auto simp: retry_streak_Cons)
    with s1 Suc show ?thesis by (auto simp: u32_saturating_succ_def)
  qed
qed simp

text \<open>
  C34. The restart rules as documented. Without cancellation and without panicking destructors, the
  actor exits exactly at the first attempt whose result is final: a success unless the policy is
  \<open>Always\<close>, a fatal or cancelled attempt, any failure under \<open>Never\<close>, or a failure that finds the
  failures since the last success at the retry limit. The number of attempts and the class, exit
  code and source of the exit are those of that result; a success resets the retry budget.
\<close>

theorem actor_exits_at_first_final_result:
  assumes "list_all2 (calm_env a) envs rs"
    and "\<forall>m. ap_max_retries (ta_params a) = Some m \<longrightarrow> m \<le> u32_max" and "length rs \<le> u32_max"
    and "k < length rs" and "final_result (ta_params a) (retry_streak 0 (take k rs)) (rs ! k)"
    and "\<forall>j < k. \<not> final_result (ta_params a) (retry_streak 0 (take j rs)) (rs ! j)"
  shows "\<exists>x s. actor_run powf_secs a envs actor_start = (Exited x, s)
    \<and> ac_attempt s = Suc k \<and> exit_matches x (rs ! k)"
proof -
  from actor_run_first_final[OF assms(1,2) _ assms(4-6), of actor_start powf_secs]
  obtain x s where "actor_run powf_secs a envs actor_start = (Exited x, s)" "exit_matches x (rs ! k)"
    "ac_attempt s = min (Suc k) u32_max"
    by (auto simp: actor_start_def)
  with assms(3,4) show ?thesis by auto
qed

theorem actor_exits_at_first_final_result_witness:
  "\<exists>x s. actor_run (\<lambda>d f i. None) (demo_actor OnFailure (Some 2))
       [demo_env (PollErr (Timeout 2)), demo_env PollOk] actor_start = (Exited x, s)
     \<and> ac_attempt s = Suc 1 \<and> exit_matches x ([Some (Timeout 2), None] ! 1)"
  by (rule actor_exits_at_first_final_result)
    (simp_all add: calm_env_def attempt_ends_def demo_env_def demo_actor_def final_result_def
      retry_streak_def u32_max_def)

section \<open>Pacing\<close>

lemma sleep_then_continue_slept:
  "sleep_then_continue env d s = (Continue, s') \<Longrightarrow> last_sleep (at_log (ac_world s')) = d"
  by (auto simp: sleep_then_continue_def sleep_cancellable_def actor_log_def last_sleep_def split: if_splits)

lemma retry_sleep:
  assumes "after_attempt powf_secs a env (Retry x) s = (Continue, s')"
  shows "last_sleep (at_log (ac_world s'))
    = delay_for_retry (ae_rng env) powf_secs (ap_backoff (ta_params a)) (ac_backoff s)"
  using assms by (auto simp: after_attempt_def Let_def dest: sleep_then_continue_slept)

lemma success_sleep:
  assumes "after_success a env s = (Continue, s')" and "last_sleep (at_log (ac_world s)) = 0"
  obtains iv where "ap_restart (ta_params a) = Always iv"
    "last_sleep (at_log (ac_world s'))
       = (case iv of Some i \<Rightarrow> max i (duration_millis 1 - ae_elapsed env) | None \<Rightarrow> duration_millis 1 - ae_elapsed env)"
  using assms
  by (auto simp: after_success_def floored_interval_def immediate_restart_floor_def Let_def
      dest!: sleep_then_continue_slept split: restart_policy.splits option.splits if_splits)

text \<open>
  C35. Restarts are paced by the result of the attempt. When the actor starts another attempt after a
  failure, the error was retryable and the policy is not \<open>Never\<close>, and the actor has slept for exactly
  the delay the backoff policy gives for this retry, which lies between floor and maximum of the valid
  policy. After a success the policy is \<open>Always\<close> and the backoff policy plays no part: the actor has
  slept for the configured interval, or longer if the attempt was so short that the two starts would
  otherwise be less than one millisecond apart; without an interval it has slept for just the rest of
  that millisecond. So two attempt starts after a success are at least one millisecond apart.
\<close>

theorem restarts_are_paced:
  assumes "actor_step powf_secs a env s = (Continue, s')" and "backoff_wf (ap_backoff (ta_params a))"
    and "rng_in_range (ae_rng env)" and "slept = last_sleep (at_log (ac_world s'))"
  shows "(\<exists>k e. attempt_verdict (ap_timeout (ta_params a)) (ae_attempt env) = Some (k, Some (e, False))
      \<and> is_retryable e \<and> ap_restart (ta_params a) \<noteq> Never
      \<and> slept = delay_for_retry (ae_rng env) powf_secs (ap_backoff (ta_params a)) (ac_backoff s)
      \<and> bp_floor (ap_backoff (ta_params a)) \<le> slept \<and> slept \<le> bp_max (ap_backoff (ta_params a)))
    \<or> (\<exists>iv. attempt_verdict (ap_timeout (ta_params a)) (ae_attempt env) = Some (AttemptSucceeded, None)
      \<and> ap_restart (ta_params a) = Always iv
      \<and> slept = (case iv of
                   Some i \<Rightarrow> max i (duration_millis 1 - ae_elapsed env)
                 | None \<Rightarrow> duration_millis 1 - ae_elapsed env)
      \<and> duration_millis 1 \<le> ae_elapsed env + slept)"
  using assms(1)
proof (cases rule: actor_step_cases)
  case (attempted k w r w1 d w2 sc)
  obtain ek err where v: "attempt_verdict (ap_timeout (ta_params a)) (ae_attempt env) = Some (ek, err)"
      "r = verdict_result err"
    using run_once_result[OF attempted(1)] .
  show ?thesis
  proof (cases d)
    case (Retry x)
    from classify_retry[OF attempted(2)[unfolded Retry]] v(2) obtain e where
      e: "err = Some (e, False)" "is_retryable e" "ap_restart (ta_params a) \<noteq> Never"
      by (auto simp: verdict_result_def split: option.splits)
    have "slept = delay_for_retry (ae_rng env) powf_secs (ap_backoff (ta_params a)) (ac_backoff s)"
      using retry_sleep[OF attempted(3)[unfolded Retry]] attempted(4) assms(4) by simp
    with retry_delay_bounds[OF assms(2,3)] e v(1) show ?thesis by auto
  next
    case (Finished res)
    with attempted(3) obtain u where "res = Inr u" and succ: "after_success a env sc = (Continue, s')"
      by (auto simp: after_attempt_def split: sum.splits)
    with Finished attempted(2) have "r = Inr ()"
      by (auto simp: classify_attempt_def Let_def split: sum.splits if_splits option.splits)
    with v have ok: "attempt_verdict (ap_timeout (ta_params a)) (ae_attempt env) = Some (AttemptSucceeded, None)"
      using verdict_success[OF v(1)] by (auto simp: verdict_result_def split: option.splits)
    obtain iv where iv: "ap_restart (ta_params a) = Always iv" "slept = (case iv of
        Some i \<Rightarrow> max i (duration_millis 1 - ae_elapsed env) | None \<Rightarrow> duration_millis 1 - ae_elapsed env)"
      using success_sleep[OF succ attempted(6)] assms(4) by metis
    then have "duration_millis 1 \<le> ae_elapsed env + slept" by (auto split: option.splits)
    with ok iv show ?thesis by blast
  qed (use attempted(3) in \<open>simp add: after_attempt_def\<close>)
qed auto

theorem restarts_are_paced_witness:
  "\<exists>s'. actor_step (\<lambda>d f i. None) (demo_actor (Always (Some 7)) None) (demo_env PollOk) actor_start
       = (Continue, s') \<and> last_sleep (at_log (ac_world s')) = duration_millis 1 - 3"
proof -
  let ?a = "demo_actor (Always (Some 7)) None"
  have "calm_env ?a (demo_env PollOk) None"
    by (simp add: calm_env_def attempt_ends_def demo_env_def demo_actor_def)
  then obtain s' where s': "actor_step (\<lambda>d f i. None) ?a (demo_env PollOk) actor_start = (Continue, s')"
    using actor_step_not_final[of ?a "demo_env PollOk" None actor_start]
    by (auto simp: final_result_def demo_actor_def)
  have h: "backoff_wf (ap_backoff (ta_params ?a))" "rng_in_range (ae_rng (demo_env PollOk))"
    by (simp_all add: demo_actor_def demo_env_def backoff_wf_default rng_in_range_def)
  have "attempt_verdict (ap_timeout (ta_params ?a)) (ae_attempt (demo_env PollOk)) = Some (AttemptSucceeded, None)"
    by (simp add: attempt_verdict_def deadline_expires_def demo_actor_def demo_env_def)
  with restarts_are_paced[OF s' h refl] s' show ?thesis
    by (auto simp: demo_actor_def demo_env_def duration_millis_def)
qed

end
