(* ===== verification/Actor_Handle.thy ===== *)
theory Actor_Handle
  imports Reaper Actor
begin

text \<open>
  The two halves of a scheduled actor (\<^verbatim>\<open>src/src/core/registry/scheduler/actor.rs\<close>): the Tokio task
  that runs the actor wrapper, and the registry-owned handle that joins or aborts it. They share the
  spawn slot, the one-shot result channel and the cleanup-poison flag, which are part of
  \<open>actor_task\<close>. A poll that is not ready is the result \<open>None\<close>.
\<close>

section \<open>The spawned task\<close>

datatype actor_join_error = JoinPanicked bool | JoinAborted

fun is_panic :: "actor_join_error \<Rightarrow> bool" where
  "is_panic (JoinPanicked _) = True"
| "is_panic JoinAborted = False"

fun join_cleanup_poisoned :: "actor_join_error \<Rightarrow> bool" where
  "join_cleanup_poisoned (JoinPanicked p) = p"
| "join_cleanup_poisoned JoinAborted = False"

type_synonym actor_result = "(actor_join_error, actor_exit) result"

datatype result_channel = ChOpen | ChSent actor_result | ChClosed

text \<open>How the Tokio task ended: the value of the wrapper, a panic outside it, or its abort.\<close>

datatype task_end = EndOk "actor_result option" | EndPanicked bool | EndCancelled

datatype wrapper_phase =
    Unspawned
  | WrapperRunning
  | WrapperSent "actor_result option"
  | WrapperEnded task_end

record actor_task =
  tk_name :: name
  tk_slot :: bool
  tk_receiver :: bool
  tk_channel :: result_channel
  tk_phase :: wrapper_phase
  tk_activity :: bool
  tk_abort :: bool
  tk_poisoned :: bool

definition scheduled_actor_new :: "name \<Rightarrow> actor_task" where
  "scheduled_actor_new n =
     \<lparr>tk_name = n, tk_slot = False, tk_receiver = True, tk_channel = ChOpen, tk_phase = Unspawned,
      tk_activity = False, tk_abort = False, tk_poisoned = False\<rparr>"

definition spawn_actor :: "actor_task \<Rightarrow> actor_task" where
  "spawn_actor t = t\<lparr>tk_phase := WrapperRunning, tk_slot := True\<rparr>"

text \<open>
  The wrapper after its future ended: it sends the result, keeping it when nobody receives it, and
  then announces its identity. A panic of the future carries whether its payload panicked too.
\<close>

definition wrapper_result :: "(bool, actor_exit) result \<Rightarrow> actor_task \<Rightarrow> actor_result \<times> actor_task" where
  "wrapper_result outcome t =
     (case outcome of
        Inr reason \<Rightarrow> (Inr reason, t)
      | Inl payload_panics \<Rightarrow>
          (let t = t\<lparr>tk_poisoned := (tk_poisoned t \<or> payload_panics)\<rparr>
           in (Inl (JoinPanicked (tk_poisoned t)), t)))"

definition wrapper_send :: "(bool, actor_exit) result \<Rightarrow> actor_task \<Rightarrow> actor_task" where
  "wrapper_send outcome t =
     (case wrapper_result outcome t of
        (res, t) \<Rightarrow>
          if tk_receiver t
          then t\<lparr>tk_channel := ChSent res, tk_phase := WrapperSent None\<rparr>
          else t\<lparr>tk_channel := ChClosed, tk_phase := WrapperSent (Some res)\<rparr>)"

definition wrapper_exit :: "actor_task \<Rightarrow> actor_task" where
  "wrapper_exit t =
     (case tk_phase t of
        WrapperSent undelivered \<Rightarrow> t\<lparr>tk_phase := WrapperEnded (EndOk undelivered)\<rparr>
      | _ \<Rightarrow> t)"

text \<open>A requested abort ends the task; its future and the result sender are dropped first.\<close>

definition wrapper_abort :: "task_end \<Rightarrow> actor_task \<Rightarrow> actor_task" where
  "wrapper_abort e t =
     t\<lparr>tk_phase := WrapperEnded e, tk_activity := False,
       tk_channel := (case tk_channel t of ChOpen \<Rightarrow> ChClosed | c \<Rightarrow> c)\<rparr>"

section \<open>The registry's handle\<close>

record actor_handle =
  ah_join :: bool
  ah_result :: bool
  ah_ready :: "actor_result option"
  ah_logical :: "actor_result option"
  ah_reservation :: "attempt_reservation option"

definition actor_handle_new :: "task_id \<Rightarrow> name \<Rightarrow> actor_handle" where
  "actor_handle_new i n =
     \<lparr>ah_join = False, ah_result = True, ah_ready = None, ah_logical = None,
      ah_reservation = Some \<lparr>rv_id = i, rv_name = n, rv_physical_release = i\<rparr>\<rparr>"

definition load_join :: "actor_handle \<Rightarrow> actor_task \<Rightarrow> actor_handle \<times> actor_task" where
  "load_join h t =
     (if \<not> ah_join h then (h\<lparr>ah_join := tk_slot t\<rparr>, t\<lparr>tk_slot := False\<rparr>) else (h, t))"

text \<open>The reservation is returned when physical ownership moves to the reaper.\<close>

definition handle_abort ::
  "actor_handle \<Rightarrow> actor_task \<Rightarrow> attempt_reservation option \<times> actor_handle \<times> actor_task" where
  "handle_abort h t =
     (case load_join h t of
        (h, t) \<Rightarrow>
          if \<not> ah_join h then (None, h\<lparr>ah_logical := Some (Inl JoinAborted)\<rparr>, t)
          else case ah_reservation h of
                 None \<Rightarrow> (None, h\<lparr>ah_join := False, ah_logical := Some (Inl JoinAborted)\<rparr>, t\<lparr>tk_abort := True\<rparr>)
               | Some res \<Rightarrow>
                   (Some res,
                    h\<lparr>ah_join := False, ah_reservation := None, ah_result := False, ah_ready := None,
                      ah_logical := Some (Inl JoinAborted)\<rparr>,
                    t\<lparr>tk_abort := True\<rparr>))"

text \<open>The probe of the result channel shared by \<open>result_ready\<close> and \<open>poll\<close>.\<close>

definition probe_result :: "actor_handle \<Rightarrow> actor_task \<Rightarrow> actor_handle \<times> actor_task" where
  "probe_result h t =
     (if ah_ready h = None \<and> ah_result h
      then case tk_channel t of
             ChSent res \<Rightarrow> (h\<lparr>ah_ready := Some res, ah_result := False\<rparr>, t\<lparr>tk_channel := ChClosed\<rparr>)
           | ChClosed \<Rightarrow> (h\<lparr>ah_result := False\<rparr>, t)
           | ChOpen \<Rightarrow> (h, t)
      else (h, t))"

definition result_ready :: "actor_handle \<Rightarrow> actor_task \<Rightarrow> bool \<times> actor_handle \<times> actor_task" where
  "result_ready h t = (case probe_result h t of (h, t) \<Rightarrow> (ah_ready h \<noteq> None, h, t))"

definition complete_join ::
  "actor_handle \<Rightarrow> task_end \<Rightarrow> actor_task \<Rightarrow> actor_result \<times> actor_handle \<times> actor_task" where
  "complete_join h joined t =
     (let h = h\<lparr>ah_join := False, ah_reservation := None\<rparr>;
          (fallback, t) =
            (case joined of
               EndOk res \<Rightarrow> (res, t)
             | EndPanicked payload_panics \<Rightarrow>
                 (let t = t\<lparr>tk_poisoned := (tk_poisoned t \<or> payload_panics)\<rparr>
                  in (Some (Inl (JoinPanicked (tk_poisoned t))), t))
             | EndCancelled \<Rightarrow> (Some (Inl JoinAborted), t));
          (_, h, t) = result_ready h t
      in (case ah_ready h of
            Some res \<Rightarrow> (res, h\<lparr>ah_ready := None\<rparr>, t)
          | None \<Rightarrow> (case fallback of Some res \<Rightarrow> (res, h, t) | None \<Rightarrow> (Inl JoinAborted, h, t))))"

definition handle_poll ::
  "actor_handle \<Rightarrow> actor_task \<Rightarrow> actor_result option \<times> actor_handle \<times> actor_task" where
  "handle_poll h t =
     (case ah_logical h of
        Some res \<Rightarrow> (Some res, h\<lparr>ah_logical := None\<rparr>, t)
      | None \<Rightarrow>
          (let (h, t) = load_join h t;
               (h, t) = probe_result h t
           in if \<not> ah_join h then (None, h, t)
              else case tk_phase t of
                     WrapperEnded joined \<Rightarrow>
                       (case complete_join h joined t of (res, h, t) \<Rightarrow> (Some res, h, t))
                   | _ \<Rightarrow> (None, h, t)))"

text \<open>\<open>Drop\<close>: an unjoined task is aborted; the receiver goes away with the handle.\<close>

definition handle_drop ::
  "actor_handle \<Rightarrow> actor_task \<Rightarrow> attempt_reservation option \<times> actor_task" where
  "handle_drop h t =
     (let (h, t) = load_join h t;
          (transfer, h, t) = (if ah_join h then handle_abort h t else (None, h, t))
      in (transfer, if ah_result h then t\<lparr>tk_receiver := False\<rparr> else t))"

section \<open>Facts\<close>

text \<open>The result the handle can still obtain from the wrapper.\<close>

definition pending_result :: "actor_handle \<Rightarrow> actor_task \<Rightarrow> actor_result option" where
  "pending_result h t =
     (case ah_ready h of
        Some res \<Rightarrow> Some res
      | None \<Rightarrow> if ah_result h then (case tk_channel t of ChSent res \<Rightarrow> Some res | _ \<Rightarrow> None) else None)"

lemmas handle_defs =
  load_join_def probe_result_def result_ready_def handle_abort_def complete_join_def handle_poll_def
  handle_drop_def

lemma pending_result_probe:
  "probe_result h t = (h', t') \<Longrightarrow> pending_result h' t' = pending_result h t"
  "load_join h t = (h', t') \<Longrightarrow> pending_result h' t' = pending_result h t"
  by (auto simp: probe_result_def load_join_def pending_result_def
      split: if_splits result_channel.splits option.splits)

lemma result_ready_iff: "fst (result_ready h t) \<longleftrightarrow> pending_result h t \<noteq> None"
  by (auto simp: result_ready_def probe_result_def pending_result_def
      split: if_splits result_channel.splits option.splits prod.splits)

lemma complete_join_result:
  "pending_result h t = Some res \<Longrightarrow> fst (complete_join h joined t) = res"
  by (auto simp: complete_join_def result_ready_def probe_result_def pending_result_def Let_def
      split: if_splits result_channel.splits option.splits prod.splits task_end.splits)

text \<open>A result that was sent is the result of the join, whichever probes came before.\<close>

lemma handle_poll_sent:
  assumes "ah_logical h = None" and "tk_phase t = WrapperEnded joined" and "ah_join h \<or> tk_slot t"
    and "pending_result h t = Some res"
  shows "fst (handle_poll h t) = Some res"
proof -
  obtain h1 t1 where l: "load_join h t = (h1, t1)" by fastforce
  obtain h2 t2 where p: "probe_result h1 t1 = (h2, t2)" by fastforce
  have "pending_result h2 t2 = Some res"
    using pending_result_probe(2)[OF l] pending_result_probe(1)[OF p] assms(4) by simp
  moreover have "ah_join h2" "tk_phase t2 = WrapperEnded joined"
    using l p assms by (auto simp: load_join_def probe_result_def split: if_splits result_channel.splits)
  ultimately show ?thesis
    using complete_join_result[of h2 t2 res joined] assms(1) l p
    by (auto simp: handle_poll_def split: prod.splits)
qed

lemma handle_poll_unended:
  "ah_logical h = None \<Longrightarrow> \<forall>e. tk_phase t \<noteq> WrapperEnded e \<Longrightarrow> fst (handle_poll h t) = None"
  by (auto simp: handle_poll_def load_join_def probe_result_def Let_def
      split: if_splits result_channel.splits wrapper_phase.splits)

end
