(* ===== verification/Registry_State.thy ===== *)
theory Registry_State
  imports Actor_Handle Command_Gate
begin

text \<open>
  State of the registry (\<^verbatim>\<open>src/src/core/registry/\<close>): membership (\<^verbatim>\<open>state.rs\<close>), the barrier of
  claimed removals (\<^verbatim>\<open>removal/pending.rs\<close>), the release latches (\<^verbatim>\<open>completion.rs\<close>) and the messages
  (\<^verbatim>\<open>protocol.rs\<close>).

  The state behind the registry's locks is one record. Detached removal tasks and the futures held
  by the reaper coordinator are entries of the record too, so that every interleaving of their
  critical sections is a sequence of steps. The activity flag, the spawn slot and the result channel
  of an actor are in its \<open>actor_task\<close>. Cancellation tokens and completed latches are sets of
  identities. Effects that leave the registry are recorded in order in \<open>rg_log\<close>; a failing
  \<open>expect\<close> or \<open>unreachable!\<close> counts in \<open>rg_faults\<close>.
\<close>

section \<open>Entries and removal owners\<close>

record reg_handle =
  hd_join :: actor_handle
  hd_done :: "outcome_tx option"
  hd_completion :: latch
  hd_cleanup :: drop_bundle

datatype entry_state = Registered reg_handle | Removing latch

record reg_entry =
  en_name :: name
  en_state :: entry_state

datatype join_completion = Joined actor_result | ForceAborted

record pending_report =
  pr_outcome :: task_outcome
  pr_done :: "outcome_tx option"
  pr_cleanup :: drop_bundle
  pr_completion :: latch

text \<open>
  A claimed removal: its join (with the flags whether a deadline may abort it and whether it did),
  the terminal report waiting for the state lock, and the report after membership was removed.
\<close>

datatype removal_owner =
    Joining reg_handle bool bool
  | Committing pending_report
  | Reporting pending_report name latch bool

section \<open>Messages and effects\<close>

record cancel_decision =
  cd_id :: task_id
  cd_claimed :: bool
  cd_completion :: latch

datatype registry_decision =
    AddDecision "(runtime_error, unit) result"
  | RemoveDecision bool
  | CancelDecision "cancel_decision option"

datatype registry_effect =
    RgPublished event
  | RgDelivered outcome_tx task_outcome
  | RgUndelivered outcome_tx task_outcome
  | RgSubmitted drop_bundle
  | RgDecided registry_decision
  | RgSpawned task_actor
  | RgEmptied
  | RgDrained

record registry =
  rg_tasks :: "(task_id, reg_entry) fmap"
  rg_by_name :: "(name, task_id) fmap"
  rg_counts :: "(task_id, nat) fmap"
  rg_names :: "(task_id, name) fmap"
  rg_owners :: "(task_id, removal_owner) fmap"
  rg_reaper :: reaper_state
  rg_reaps :: "task_id fset"
  rg_actors :: "(task_id, actor_task) fmap"
  rg_ready :: "task_id list"
  rg_cancelled :: "task_id fset"
  rg_runtime_cancelled :: bool
  rg_logical :: "latch fset"
  rg_physical :: "latch fset"
  rg_live_rx :: "outcome_tx fset"
  rg_limited :: bool
  rg_defaults :: task_defaults
  rg_max :: "nat option"
  rg_faults :: nat
  rg_log :: "registry_effect list"

definition registry_new ::
  "bool \<Rightarrow> task_defaults \<Rightarrow> nat option \<Rightarrow> outcome_tx fset \<Rightarrow> registry" where
  "registry_new limited defaults max_registered_tasks rx =
     \<lparr>rg_tasks = fmempty, rg_by_name = fmempty, rg_counts = fmempty, rg_names = fmempty,
      rg_owners = fmempty, rg_reaper = reaper_new, rg_reaps = {||}, rg_actors = fmempty, rg_ready = [],
      rg_cancelled = {||}, rg_runtime_cancelled = False, rg_logical = {||}, rg_physical = {||},
      rg_live_rx = rx, rg_limited = limited, rg_defaults = defaults, rg_max = max_registered_tasks,
      rg_faults = 0, rg_log = []\<rparr>"

section \<open>Basic operations\<close>

definition rg_emit :: "registry_effect \<Rightarrow> registry \<Rightarrow> registry" where
  "rg_emit e s = s\<lparr>rg_log := rg_log s @ [e]\<rparr>"

definition rg_check :: "bool \<Rightarrow> registry \<Rightarrow> registry" where
  "rg_check ok s = (if ok then s else s\<lparr>rg_faults := Suc (rg_faults s)\<rparr>)"

definition rg_publish :: "event \<Rightarrow> registry \<Rightarrow> registry" where
  "rg_publish e = rg_emit (RgPublished e)"

definition decide :: "registry_decision \<Rightarrow> registry \<Rightarrow> registry" where
  "decide d = rg_emit (RgDecided d)"

definition submit_bundle :: "drop_bundle \<Rightarrow> registry \<Rightarrow> registry" where
  "submit_bundle b s = rg_emit (RgSubmitted (fst (bundle_submit b))) s"

text \<open>\<open>done.send(outcome)\<close>, or the outcome into the bundle; used by rejections and terminal reports.\<close>

definition deliver_or_attach_rejection ::
  "outcome_tx option \<Rightarrow> task_outcome \<Rightarrow> drop_bundle \<Rightarrow> registry \<Rightarrow> drop_bundle \<times> registry" where
  "deliver_or_attach_rejection done' outcome cleanup s =
     (case done' of
        None \<Rightarrow> (attach_outcome cleanup outcome, s)
      | Some tx \<Rightarrow>
          (if tx |\<in>| rg_live_rx s then (cleanup, rg_emit (RgDelivered tx outcome) s)
           else (attach_outcome cleanup outcome, rg_emit (RgUndelivered tx outcome) s)))"

definition complete_logical :: "latch \<Rightarrow> registry \<Rightarrow> registry" where
  "complete_logical l s = s\<lparr>rg_logical := finsert l (rg_logical s)\<rparr>"

definition cancel_token :: "task_id \<Rightarrow> registry \<Rightarrow> registry" where
  "cancel_token i s = s\<lparr>rg_cancelled := finsert i (rg_cancelled s)\<rparr>"

definition put_owner :: "task_id \<Rightarrow> removal_owner \<Rightarrow> registry \<Rightarrow> registry" where
  "put_owner i w s =
     rg_check (fmlookup (rg_owners s) i = None) (s\<lparr>rg_owners := fmupd i w (rg_owners s)\<rparr>)"

section \<open>Pending joins\<close>

definition inc_with_name :: "task_id \<Rightarrow> name \<Rightarrow> registry \<Rightarrow> registry" where
  "inc_with_name i n s =
     s\<lparr>rg_counts := fmupd i (Suc (case fmlookup (rg_counts s) i of None \<Rightarrow> 0 | Some c \<Rightarrow> c)) (rg_counts s),
       rg_names := fmupd i n (rg_names s)\<rparr>"

definition pending_dec :: "task_id \<Rightarrow> registry \<Rightarrow> registry" where
  "pending_dec i s =
     (let s = (case fmlookup (rg_counts s) i of
                 None \<Rightarrow> s
               | Some c \<Rightarrow>
                   (if c \<le> 1
                    then s\<lparr>rg_counts := fmdrop i (rg_counts s), rg_names := fmdrop i (rg_names s)\<rparr>
                    else s\<lparr>rg_counts := fmupd i (c - 1) (rg_counts s)\<rparr>))
      in if rg_counts s = fmempty then rg_emit RgDrained s else s)"

definition pending_is_empty :: "registry \<Rightarrow> bool" where
  "pending_is_empty s \<longleftrightarrow> rg_counts s = fmempty"

definition pending_names :: "registry \<Rightarrow> name list" where
  "pending_names s = map snd (hm_entries (rg_names s))"

section \<open>Physical ownership\<close>

definition put_actor :: "task_id \<Rightarrow> actor_task \<Rightarrow> registry \<Rightarrow> registry" where
  "put_actor i t s = s\<lparr>rg_actors := fmupd i t (rg_actors s)\<rparr>"

text \<open>\<open>abort_actor\<close>: the record is registered and the reap future handed to the coordinator.\<close>

definition transfer_to_reaper :: "attempt_reservation option \<Rightarrow> registry \<Rightarrow> registry" where
  "transfer_to_reaper res s =
     (case res of
        None \<Rightarrow> s
      | Some v \<Rightarrow> s\<lparr>rg_reaper := register (rg_reaper s) v, rg_reaps := finsert (rv_id v) (rg_reaps s)\<rparr>)"

definition reaper_outcome ::
  "drop_bundle list \<times> latch list \<times> reaper_state \<Rightarrow> registry \<Rightarrow> registry" where
  "reaper_outcome out s =
     (case out of
        (bundles, latches, r) \<Rightarrow>
          (let s = fold submit_bundle bundles (s\<lparr>rg_reaper := r\<rparr>)
           in s\<lparr>rg_physical := rg_physical s |\<union>| fset_of_list latches\<rparr>))"

section \<open>Queries\<close>

definition registry_list :: "registry \<Rightarrow> (task_id \<times> name) list" where
  "registry_list s = map (\<lambda>(i, e). (i, en_name e)) (hm_entries (rg_tasks s))"

definition attempt_active :: "registry \<Rightarrow> task_id \<Rightarrow> bool" where
  "attempt_active s i = (case fmlookup (rg_actors s) i of None \<Rightarrow> False | Some t \<Rightarrow> tk_activity t)"

definition registry_is_alive :: "registry \<Rightarrow> name \<Rightarrow> bool" where
  "registry_is_alive s n \<longleftrightarrow>
     (case fmlookup (rg_by_name s) n of
        None \<Rightarrow> False
      | Some i \<Rightarrow> fmlookup (rg_tasks s) i \<noteq> None \<and> attempt_active s i)
     \<or> reaper_is_alive (attempt_active s) (rg_reaper s) n"

definition alive_snapshot :: "registry \<Rightarrow> name list" where
  "alive_snapshot s =
     remdups_adj (sort
       (map (en_name \<circ> snd) (filter (\<lambda>(i, e). attempt_active s i) (hm_entries (rg_tasks s)))
        @ reaper_alive_names (attempt_active s) (rg_reaper s)))"

definition registry_is_empty :: "registry \<Rightarrow> bool" where
  "registry_is_empty s \<longleftrightarrow> rg_tasks s = fmempty"

end
