(* ===== verification/Registry_Removal.thy ===== *)
theory Registry_Removal
  imports Registry_State
begin

text \<open>
  Removal of a task (\<^verbatim>\<open>src/src/core/registry/removal/\<close>): the claim of an entry (\<^verbatim>\<open>join.rs\<close>), the
  remove and cancel commands (\<^verbatim>\<open>commands.rs\<close>), the join of the claimed actor and the terminal commit
  (\<^verbatim>\<open>terminal.rs\<close>). A join that waits is an owner in the state; its polls, its deadline and the two
  critical sections of its terminal report are separate operations.
\<close>

section \<open>Claims\<close>

definition claim_registered :: "task_id \<Rightarrow> registry \<Rightarrow> (name \<times> reg_handle \<times> latch) option \<times> registry" where
  "claim_registered i s =
     (case fmlookup (rg_tasks s) i of
        None \<Rightarrow> (None, s)
      | Some e \<Rightarrow>
          (case en_state e of
             Removing _ \<Rightarrow> (None, s)
           | Registered h \<Rightarrow>
               (let s = s\<lparr>rg_tasks := fmupd i (e\<lparr>en_state := Removing (hd_completion h)\<rparr>) (rg_tasks s)\<rparr>
                in (Some (en_name e, h, hd_completion h), inc_with_name i (en_name e) s))))"

text \<open>\<open>spawn_join_report\<close> with a grace period: the owner whose join a deadline may abort.\<close>

definition spawn_join_report :: "task_id \<Rightarrow> reg_handle \<Rightarrow> registry \<Rightarrow> registry" where
  "spawn_join_report i h s = put_owner i (Joining h True False) s"

section \<open>Commands\<close>

definition remove_task :: "task_id \<Rightarrow> registry \<Rightarrow> registry" where
  "remove_task i s =
     (case claim_registered i s of
        (Some (_, h, _), s) \<Rightarrow>
          spawn_join_report i h (decide (RemoveDecision True) (cancel_token i s))
      | (None, s) \<Rightarrow> decide (RemoveDecision False) s)"

definition remove_requested :: "task_id \<Rightarrow> name option \<Rightarrow> reason option \<Rightarrow> event" where
  "remove_requested i n r =
     (let e = event_new TaskRemoveRequested;
          e = (case n of None \<Rightarrow> e | Some n \<Rightarrow> with_task n e);
          e = with_id i e
      in case r of None \<Rightarrow> e | Some r \<Rightarrow> with_reason r e)"

definition remove_task_by_name :: "name \<Rightarrow> registry \<Rightarrow> registry" where
  "remove_task_by_name n s =
     (case fmlookup (rg_by_name s) n of
        None \<Rightarrow> decide (RemoveDecision False) s
      | Some i \<Rightarrow>
          (case claim_registered i s of
             (claimed, s) \<Rightarrow>
               (let s = rg_publish (remove_requested i (Some n) None) s
                in case claimed of
                     Some (_, h, _) \<Rightarrow>
                       spawn_join_report i h (decide (RemoveDecision True) (cancel_token i s))
                   | None \<Rightarrow> decide (RemoveDecision False) s)))"

text \<open>The decision and, when this command claimed the actor, its handle.\<close>

definition cancel_action ::
  "task_id \<Rightarrow> registry \<Rightarrow> (cancel_decision \<times> reg_handle option) option \<times> registry" where
  "cancel_action i s =
     (case fmlookup (rg_tasks s) i of
        None \<Rightarrow> (None, s)
      | Some e \<Rightarrow>
          (case en_state e of
             Removing l \<Rightarrow> (Some (\<lparr>cd_id = i, cd_claimed = False, cd_completion = l\<rparr>, None), s)
           | Registered _ \<Rightarrow>
               (case claim_registered i s of
                  (Some (_, h, l), s) \<Rightarrow>
                    (Some (\<lparr>cd_id = i, cd_claimed = True, cd_completion = l\<rparr>, Some h), s)
                | (None, s) \<Rightarrow> (None, rg_check False s))))"

definition resolve_cancel_action ::
  "(cancel_decision \<times> reg_handle option) option \<Rightarrow> registry \<Rightarrow> registry" where
  "resolve_cancel_action action s =
     (case action of
        None \<Rightarrow> decide (CancelDecision None) s
      | Some (d, Some h) \<Rightarrow>
          spawn_join_report (cd_id d) h (decide (CancelDecision (Some d)) (cancel_token (cd_id d) s))
      | Some (d, None) \<Rightarrow> decide (CancelDecision (Some d)) s)"

definition cancel_task :: "task_id \<Rightarrow> registry \<Rightarrow> registry" where
  "cancel_task i s =
     (case fmlookup (rg_tasks s) i of
        None \<Rightarrow> resolve_cancel_action None s
      | Some _ \<Rightarrow>
          (case cancel_action i s of
             (action, s) \<Rightarrow>
               resolve_cancel_action action
                 (rg_publish (remove_requested i None (Some [Lit ''manual_cancel''])) s)))"

definition cancel_task_by_name :: "name \<Rightarrow> registry \<Rightarrow> registry" where
  "cancel_task_by_name n s =
     (case fmlookup (rg_by_name s) n of
        None \<Rightarrow> decide (CancelDecision None) s
      | Some i \<Rightarrow>
          (case cancel_action i s of
             (action, s) \<Rightarrow>
               resolve_cancel_action action
                 (rg_publish (remove_requested i (Some n) (Some [Lit ''manual_cancel''])) s)))"

text \<open>
  \<open>cleanup_completed_task\<close>: a ready result is joined in the listener, without a deadline; an early
  signal starts a detached join.
\<close>

definition cleanup_completed_task :: "task_id \<Rightarrow> registry \<Rightarrow> registry" where
  "cleanup_completed_task i s =
     (case claim_registered i s of
        (None, s) \<Rightarrow> s
      | (Some (_, h, _), s) \<Rightarrow>
          (case fmlookup (rg_actors s) i of
             None \<Rightarrow> rg_check False s
           | Some t \<Rightarrow>
               (case result_ready (hd_join h) t of
                  (ready, j, t) \<Rightarrow>
                    (let s = put_actor i t s; h = h\<lparr>hd_join := j\<rparr>
                     in if \<not> ready then spawn_join_report i h s
                        else put_owner i (Joining h False False) s))))"

text \<open>\<open>cancel_all_within\<close>: the claims and cancellations; each claim then has a deadline.\<close>

definition claim_and_cancel :: "task_id \<Rightarrow> registry \<Rightarrow> registry" where
  "claim_and_cancel i s =
     (case claim_registered i s of
        (None, s) \<Rightarrow> s
      | (Some (_, h, _), s) \<Rightarrow> spawn_join_report i h (cancel_token i s))"

definition cancel_all_claims :: "registry \<Rightarrow> registry" where
  "cancel_all_claims s = fold claim_and_cancel (hm_keys (rg_tasks s)) s"

section \<open>Terminal reports\<close>

definition outcome_of :: "actor_result \<Rightarrow> drop_bundle \<Rightarrow> task_outcome \<times> drop_bundle" where
  "outcome_of res cleanup =
     (case res of
        Inr ExitCompleted \<Rightarrow> (OutCompleted, cleanup)
      | Inr ExitCanceled \<Rightarrow> (OutCanceled, cleanup)
      | Inr (ExitPanicked cleanup_poisoned) \<Rightarrow>
          (OutPanicked, if cleanup_poisoned then poison cleanup else cleanup)
      | Inr (ExitExhausted r code src) \<Rightarrow> (OutFailed r code src, cleanup)
      | Inr (ExitFatal r code src) \<Rightarrow> (OutFatal r code src, cleanup)
      | Inl e \<Rightarrow>
          (if is_panic e
           then (OutPanicked, if join_cleanup_poisoned e then poison cleanup else cleanup)
           else (OutForceAborted, cleanup)))"

text \<open>\<open>into_report_parts\<close>: the handle of the actor is dropped before the bundle is taken.\<close>

definition into_report_parts ::
  "task_id \<Rightarrow> reg_handle \<Rightarrow> registry \<Rightarrow> (outcome_tx option \<times> drop_bundle) \<times> registry" where
  "into_report_parts i h s =
     (case fmlookup (rg_actors s) i of
        None \<Rightarrow> ((hd_done h, hd_cleanup h), rg_check False s)
      | Some t \<Rightarrow>
          (case handle_drop (hd_join h) t of
             (transfer, t) \<Rightarrow>
               ((hd_done h, hd_cleanup h), transfer_to_reaper transfer (put_actor i t s))))"

text \<open>The classification at the start of \<open>finish_removal\<close>; the report then waits for the state lock.\<close>

definition classify_join :: "join_completion \<Rightarrow> drop_bundle \<Rightarrow> task_outcome \<times> drop_bundle" where
  "classify_join j cleanup =
     (case j of
        Joined res \<Rightarrow> outcome_of res cleanup
      | ForceAborted \<Rightarrow> (OutForceAborted, cleanup))"

definition finish_removal :: "task_id \<Rightarrow> reg_handle \<Rightarrow> join_completion \<Rightarrow> registry \<Rightarrow> registry" where
  "finish_removal i h j s =
     (case into_report_parts i h s of
        ((done', cleanup), s) \<Rightarrow>
          (case classify_join j cleanup of
             (outcome, cleanup) \<Rightarrow>
               s\<lparr>rg_owners := fmupd i (Committing
                   \<lparr>pr_outcome = outcome, pr_done = done', pr_cleanup = cleanup,
                    pr_completion = hd_completion h\<rparr>) (rg_owners s)\<rparr>))"

text \<open>One poll of the join of an owner; after an abort the poll takes the logical result.\<close>

definition join_progress :: "task_id \<Rightarrow> registry \<Rightarrow> registry" where
  "join_progress i s =
     (case (fmlookup (rg_owners s) i, fmlookup (rg_actors s) i) of
        (Some (Joining h force aborted), Some t) \<Rightarrow>
          (case handle_poll (hd_join h) t of
             (res, j, t) \<Rightarrow>
               (let s = put_actor i t s; h = h\<lparr>hd_join := j\<rparr>
                in case res of
                     None \<Rightarrow> s\<lparr>rg_owners := fmupd i (Joining h force aborted) (rg_owners s)\<rparr>
                   | Some res \<Rightarrow>
                       finish_removal i h (if aborted then ForceAborted else Joined res) s))
      | _ \<Rightarrow> s)"

definition join_deadline :: "task_id \<Rightarrow> registry \<Rightarrow> registry" where
  "join_deadline i s =
     (case (fmlookup (rg_owners s) i, fmlookup (rg_actors s) i) of
        (Some (Joining h True False), Some t) \<Rightarrow>
          (case handle_abort (hd_join h) t of
             (transfer, j, t) \<Rightarrow>
               (let s = transfer_to_reaper transfer (put_actor i t s)
                in s\<lparr>rg_owners := fmupd i (Joining (h\<lparr>hd_join := j\<rparr>) True True) (rg_owners s)\<rparr>))
      | _ \<Rightarrow> s)"

text \<open>\<open>retain_terminal\<close> and \<open>finish_without_membership\<close>: a report that finds no removing entry.\<close>

definition retain_terminal :: "task_id \<Rightarrow> pending_report \<Rightarrow> registry \<Rightarrow> registry" where
  "retain_terminal i p s =
     (case deliver_or_attach_rejection (pr_done p) (pr_outcome p) (pr_cleanup p) s of
        (cleanup, s) \<Rightarrow>
          reaper_outcome (attach_terminal (rg_reaper s) i cleanup None (pr_completion p)) s)"

definition finish_without_membership :: "task_id \<Rightarrow> pending_report \<Rightarrow> registry \<Rightarrow> registry" where
  "finish_without_membership i p s =
     complete_logical (pr_completion p) (pending_dec i (retain_terminal i p s))"

text \<open>The critical section of \<open>commit\<close>: both indexes under the state lock.\<close>

definition commit_membership :: "task_id \<Rightarrow> registry \<Rightarrow> registry" where
  "commit_membership i s =
     (case fmlookup (rg_owners s) i of
        Some (Committing p) \<Rightarrow>
          (case fmlookup (rg_tasks s) i of
             Some e \<Rightarrow>
               (case en_state e of
                  Removing l \<Rightarrow>
                    (let s = s\<lparr>rg_tasks := fmdrop i (rg_tasks s)\<rparr>;
                         s = (if fmlookup (rg_by_name s) (en_name e) = Some i
                              then s\<lparr>rg_by_name := fmdrop (en_name e) (rg_by_name s)\<rparr> else s)
                     in s\<lparr>rg_owners := fmupd i
                           (Reporting p (en_name e) l (rg_tasks s = fmempty)) (rg_owners s)\<rparr>)
                | Registered _ \<Rightarrow>
                    finish_without_membership i p (s\<lparr>rg_owners := fmdrop i (rg_owners s)\<rparr>))
           | None \<Rightarrow> finish_without_membership i p (s\<lparr>rg_owners := fmdrop i (rg_owners s)\<rparr>))
      | _ \<Rightarrow> s)"

definition finished_event :: "task_id \<Rightarrow> name \<Rightarrow> task_outcome \<Rightarrow> event" where
  "finished_event i n outcome =
     (let e = with_outcome_kind (outcome_kind outcome) (with_id i (with_task n (event_new TaskFinished)));
          coded = (\<lambda>r code. case code of
                     None \<Rightarrow> with_reason r e
                   | Some c \<Rightarrow> with_event_exit_code c (with_reason r e))
      in case outcome of
           OutFailed r code _ \<Rightarrow> coded r code
         | OutFatal r code _ \<Rightarrow> coded r code
         | OutForceAborted \<Rightarrow> with_reason [Lit ''task did not stop within grace; force-aborted''] e
         | OutPanicked \<Rightarrow> with_reason [Lit ''internal task runner panicked''] e
         | _ \<Rightarrow> e)"

definition report_outcome ::
  "task_id \<Rightarrow> name \<Rightarrow> pending_report \<Rightarrow> registry \<Rightarrow> drop_bundle \<times> registry" where
  "report_outcome i n p s =
     (let s = rg_publish (finished_event i n (pr_outcome p)) s;
          (cleanup, s) = deliver_or_attach_rejection (pr_done p) (pr_outcome p) (pr_cleanup p) s
      in (cleanup, rg_publish (with_id i (with_task n (event_new TaskRemoved))) s))"

text \<open>The rest of \<open>commit\<close>: the report and the tail of the terminal finalizer.\<close>

definition finish_report :: "task_id \<Rightarrow> registry \<Rightarrow> registry" where
  "finish_report i s =
     (case fmlookup (rg_owners s) i of
        Some (Reporting p n l is_empty) \<Rightarrow>
          (let (cleanup, s) = report_outcome i n p (s\<lparr>rg_owners := fmdrop i (rg_owners s)\<rparr>);
               s = reaper_outcome (attach_terminal (rg_reaper s) i cleanup (Some l) (pr_completion p)) s;
               s = pending_dec i s;
               s = complete_logical (pr_completion p) (complete_logical l s)
           in if is_empty then rg_emit RgEmptied s else s)
      | _ \<Rightarrow> s)"

text \<open>The reap future of a force-aborted actor, once its task has ended.\<close>

definition reap_done :: "task_id \<Rightarrow> registry \<Rightarrow> registry" where
  "reap_done i s =
     (case fmlookup (rg_actors s) i of
        Some t \<Rightarrow>
          (if i |\<in>| rg_reaps s \<and> (case tk_phase t of WrapperEnded _ \<Rightarrow> True | _ \<Rightarrow> False)
           then reaper_outcome (reap_finished (rg_reaper s) i i (unat i) (tk_poisoned t))
                  (s\<lparr>rg_reaps := rg_reaps s |-| {|i|}\<rparr>)
           else s)
      | None \<Rightarrow> s)"

end
