(* ===== verification/Registry_Admission.thy ===== *)
theory Registry_Admission
  imports Registry_Removal
begin

text \<open>
  Admission of tasks (\<^verbatim>\<open>src/src/core/registry/admission/\<close>), the background moves that interleave with
  it, and the listener (\<^verbatim>\<open>listener.rs\<close>) as a step relation.

  Admission validates under the read lock, prepares the actor without a lock, validates again under
  the write lock, inserts, and then reports and spawns without a lock. Between these sections other
  tasks run; their moves are the arguments \<open>mv1\<close> and \<open>mv2\<close> of an admission.
\<close>

section \<open>Background moves\<close>

datatype bg_move =
    BeginAttempt task_id
  | EndAttempt task_id
  | ActorEnds task_id "(bool, actor_exit) result"
  | WrapperExits task_id
  | AbortHits task_id task_end
  | JoinProgress task_id
  | JoinDeadline task_id
  | CommitMembership task_id
  | FinishReport task_id
  | ReapDone task_id
  | ShutdownClaims
  | CancelRuntime
  | DropReceiver outcome_tx

text \<open>
  A move of the task of actor \<open>i\<close>. The cancellation check of the actor loop and the start of the
  attempt are one move; an aborted task ends at its next suspension point.
\<close>

definition actor_move :: "task_id \<Rightarrow> (actor_task \<Rightarrow> bool) \<Rightarrow> (actor_task \<Rightarrow> actor_task) \<Rightarrow> registry \<Rightarrow> registry"
  where
  "actor_move i guard f s =
     (case fmlookup (rg_actors s) i of
        None \<Rightarrow> s
      | Some t \<Rightarrow> if guard t then put_actor i (f t) s else s)"

fun bg_step :: "bg_move \<Rightarrow> registry \<Rightarrow> registry" where
  "bg_step (BeginAttempt i) s =
     actor_move i (\<lambda>t. tk_phase t = WrapperRunning \<and> i |\<notin>| rg_cancelled s \<and> \<not> rg_runtime_cancelled s)
       (\<lambda>t. t\<lparr>tk_activity := True\<rparr>) s"
| "bg_step (EndAttempt i) s =
     actor_move i (\<lambda>t. tk_phase t = WrapperRunning) (\<lambda>t. t\<lparr>tk_activity := False\<rparr>) s"
| "bg_step (ActorEnds i outcome) s =
     (case fmlookup (rg_actors s) i of
        None \<Rightarrow> s
      | Some t \<Rightarrow>
          (if tk_phase t = WrapperRunning \<and> \<not> tk_activity t
           then (put_actor i (wrapper_send outcome t) s)\<lparr>rg_ready := rg_ready s @ [i]\<rparr> else s))"
| "bg_step (WrapperExits i) s = actor_move i (\<lambda>t. True) wrapper_exit s"
| "bg_step (AbortHits i e) s =
     actor_move i (\<lambda>t. tk_phase t = WrapperRunning \<and> tk_abort t \<and> (\<forall>r. e \<noteq> EndOk r)) (wrapper_abort e) s"
| "bg_step (JoinProgress i) s = join_progress i s"
| "bg_step (JoinDeadline i) s = join_deadline i s"
| "bg_step (CommitMembership i) s = commit_membership i s"
| "bg_step (FinishReport i) s = finish_report i s"
| "bg_step (ReapDone i) s = reap_done i s"
| "bg_step ShutdownClaims s = cancel_all_claims s"
| "bg_step CancelRuntime s = s\<lparr>rg_runtime_cancelled := True\<rparr>"
| "bg_step (DropReceiver tx) s = s\<lparr>rg_live_rx := rg_live_rx s |-| {|tx|}\<rparr>"

definition bg_run :: "bg_move list \<Rightarrow> registry \<Rightarrow> registry" where
  "bg_run ms s = fold bg_step ms s"

section \<open>Preparation\<close>

record prepared_registration =
  pg_id :: task_id
  pg_name :: name
  pg_join :: actor_handle
  pg_done :: "outcome_tx option"
  pg_completion :: latch
  pg_actor :: task_actor
  pg_cleanup :: drop_bundle

definition prepare_registration ::
  "registry \<Rightarrow> task_id \<Rightarrow> name \<Rightarrow> task_spec owned_task \<Rightarrow> outcome_tx option \<Rightarrow> prepared_registration" where
  "prepare_registration s i n owned done' =
     (let spec = task_spec_resolve (ot_value owned) (rg_defaults s)
      in \<lparr>pg_id = i, pg_name = n, pg_join = actor_handle_new i n, pg_done = done', pg_completion = i,
          pg_actor = \<lparr>ta_id = i, ta_name = n,
            ta_params = \<lparr>ap_restart = rts_restart spec, ap_backoff = rts_backoff spec,
                         ap_timeout = rts_timeout spec, ap_max_retries = rts_max_retries spec\<rparr>,
            ta_limited = rg_limited s\<rparr>,
          pg_cleanup = ot_cleanup owned\<rparr>)"

definition registered_limit_exceeded :: "registry \<Rightarrow> nat \<Rightarrow> nat \<Rightarrow> nat option" where
  "registered_limit_exceeded s current incoming =
     (case rg_max s of
        None \<Rightarrow> None
      | Some limit \<Rightarrow>
          (let total = Option.bind (checked_add_usize current (rp_active (rg_reaper s)))
                         (\<lambda>used. checked_add_usize used incoming)
           in if (case total of None \<Rightarrow> True | Some t \<Rightarrow> t > limit) then Some limit else None))"

definition add_failed :: "task_id \<Rightarrow> name \<Rightarrow> rejection_kind \<Rightarrow> reason \<Rightarrow> event" where
  "add_failed i n kind r =
     with_reason r (with_rejection_kind kind (with_id i (with_task n (event_new TaskAddFailed))))"

definition task_added :: "task_id \<Rightarrow> name \<Rightarrow> event" where
  "task_added i n = with_id i (with_task n (event_new TaskAdded))"

text \<open>The entry of a prepared registration, in both indexes, with its unspawned actor.\<close>

definition insert_entry :: "prepared_registration \<Rightarrow> registry \<Rightarrow> registry" where
  "insert_entry p s =
     s\<lparr>rg_tasks := fmupd (pg_id p)
          \<lparr>en_name = pg_name p,
           en_state = Registered \<lparr>hd_join = pg_join p, hd_done = pg_done p,
             hd_completion = pg_completion p, hd_cleanup = pg_cleanup p\<rparr>\<rparr> (rg_tasks s),
       rg_by_name := fmupd (pg_name p) (pg_id p) (rg_by_name s),
       rg_actors := fmupd (pg_id p) (scheduled_actor_new (pg_name p)) (rg_actors s)\<rparr>"

definition schedule_actor :: "prepared_registration \<Rightarrow> registry \<Rightarrow> registry" where
  "schedule_actor p s =
     (case fmlookup (rg_actors s) (pg_id p) of
        None \<Rightarrow> rg_check False s
      | Some t \<Rightarrow> rg_emit (RgSpawned (pg_actor p)) (put_actor (pg_id p) (spawn_actor t) s))"

section \<open>Single admission\<close>

text \<open>The check of \<open>spawn_and_register\<close> under the read lock and again under the write lock.\<close>

definition validate_add :: "registry \<Rightarrow> name \<Rightarrow> runtime_error option" where
  "validate_add s n =
     (if fmlookup (rg_by_name s) n \<noteq> None \<or> reserves_name (rg_reaper s) n
      then Some (TaskAlreadyExists n)
      else case registered_limit_exceeded s (hm_len (rg_tasks s)) 1 of
             Some limit \<Rightarrow> Some (ResourceLimitReached ''registered_tasks'' limit)
           | None \<Rightarrow> None)"

definition add_rejection :: "runtime_error \<Rightarrow> rejection_kind \<times> reason" where
  "add_rejection e =
     (case e of
        ResourceLimitReached _ limit \<Rightarrow>
          (ResourceLimit, [Lit registered_task_limit_text, Lit '': '', NatArg limit])
      | _ \<Rightarrow> (AlreadyExists, already_exists_text))"

text \<open>The rejection before preparation submits the bundle and then publishes.\<close>

definition reject_add ::
  "task_id \<Rightarrow> name \<Rightarrow> drop_bundle \<Rightarrow> outcome_tx option \<Rightarrow> runtime_error \<Rightarrow> registry \<Rightarrow> registry" where
  "reject_add i n cleanup done' e s =
     (let (kind, r) = add_rejection e;
          s = decide (AddDecision (Inl e)) s;
          (cleanup, s) = deliver_or_attach_rejection done' (OutRejected kind r) cleanup s
      in rg_publish (add_failed i n kind r) (submit_bundle cleanup s))"

text \<open>After preparation the bundle is submitted when the prepared registration is dropped.\<close>

definition reject_prepared :: "prepared_registration \<Rightarrow> runtime_error \<Rightarrow> registry \<Rightarrow> registry" where
  "reject_prepared p e s =
     (let (kind, r) = add_rejection e;
          s = decide (AddDecision (Inl e)) s;
          (cleanup, s) = deliver_or_attach_rejection (pg_done p) (OutRejected kind r) (pg_cleanup p) s
      in submit_bundle cleanup (rg_publish (add_failed (pg_id p) (pg_name p) kind r) s))"

definition spawn_and_register ::
  "bg_move list \<Rightarrow> bg_move list \<Rightarrow> task_id \<Rightarrow> name \<Rightarrow> task_spec owned_task \<Rightarrow> outcome_tx option
     \<Rightarrow> registry \<Rightarrow> registry" where
  "spawn_and_register mv1 mv2 i n owned done' s =
     (case validate_add s n of
        Some e \<Rightarrow> reject_add i n (ot_cleanup owned) done' e s
      | None \<Rightarrow>
          (let p = prepare_registration s i n owned done';
               s = bg_run mv1 s
           in case validate_add s n of
                Some e \<Rightarrow> reject_prepared p e s
              | None \<Rightarrow>
                  (let s = bg_run mv2 (insert_entry p s);
                       s = decide (AddDecision (Inr ())) (rg_publish (task_added i n) s)
                   in schedule_actor p s)))"

section \<open>Batch admission\<close>

text \<open>
  The scan for conflicts: names that are taken or repeat an earlier item of the batch. The result is
  the first conflicting name and the conflicting identities.
\<close>

fun batch_conflicts ::
  "registry \<Rightarrow> name set \<Rightarrow> (task_id \<times> name) list \<Rightarrow> name option \<times> task_id set" where
  "batch_conflicts s seen [] = (None, {})"
| "batch_conflicts s seen ((i, n) # items) =
     (let conflict = fmlookup (rg_by_name s) n \<noteq> None \<or> reserves_name (rg_reaper s) n \<or> n \<in> seen;
          (first, ids) = batch_conflicts s (insert n seen) items
      in if conflict then (Some n, insert i ids) else (first, ids))"

text \<open>The rejection of a whole batch: one event per item, one reply, every bundle submitted.\<close>

definition reject_batch ::
  "(task_id \<Rightarrow> rejection_kind \<times> reason) \<Rightarrow> runtime_error \<Rightarrow> (task_id \<times> name \<times> drop_bundle) list
     \<Rightarrow> registry \<Rightarrow> registry" where
  "reject_batch classify e items s =
     (let s = fold (\<lambda>(i, n, _). rg_publish (case classify i of (kind, r) \<Rightarrow> add_failed i n kind r)) items s;
          s = decide (AddDecision (Inl e)) s
      in fold (\<lambda>(_, _, b). submit_bundle b) items s)"

text \<open>
  A conflict found under the write lock drops each prepared item after its event and replies last.
\<close>

definition reject_prepared_batch ::
  "(task_id \<Rightarrow> rejection_kind \<times> reason) \<Rightarrow> runtime_error \<Rightarrow> (task_id \<times> name \<times> drop_bundle) list
     \<Rightarrow> registry \<Rightarrow> registry" where
  "reject_prepared_batch classify e items s =
     decide (AddDecision (Inl e))
       (fold (\<lambda>(i, n, b) s. submit_bundle b
            (rg_publish (case classify i of (kind, r) \<Rightarrow> add_failed i n kind r) s)) items s)"

definition conflict_class :: "task_id set \<Rightarrow> task_id \<Rightarrow> rejection_kind \<times> reason" where
  "conflict_class ids i =
     (if i \<in> ids then (AlreadyExists, already_exists_text) else (BatchRejected, batch_rejected_text))"

text \<open>\<open>None\<close> when the batch may be inserted, otherwise the classification and the error.\<close>

definition validate_batch ::
  "registry \<Rightarrow> (task_id \<times> name) list \<Rightarrow> ((task_id \<Rightarrow> rejection_kind \<times> reason) \<times> runtime_error) option" where
  "validate_batch s items =
     (case batch_conflicts s {} items of
        (Some n, ids) \<Rightarrow> Some (conflict_class ids, TaskAlreadyExists n)
      | (None, _) \<Rightarrow>
          (let current = hm_len (rg_tasks s)
           in case registered_limit_exceeded s current (length items) of
                Some limit \<Rightarrow>
                  Some (\<lambda>_. (ResourceLimit, [Lit registered_task_limit_text, Lit '': '', NatArg current,
                                Lit ''/'', NatArg limit]),
                        ResourceLimitReached ''registered_tasks'' limit)
              | None \<Rightarrow> None))"

definition spawn_and_register_batch ::
  "bg_move list \<Rightarrow> bg_move list \<Rightarrow> add_batch_item list \<Rightarrow> registry \<Rightarrow> registry" where
  "spawn_and_register_batch mv1 mv2 items s =
     (let keys = map (\<lambda>x. (abi_id x, abi_name x)) items;
          parts = map (\<lambda>x. (abi_id x, abi_name x, ot_cleanup (abi_owned x))) items
      in case validate_batch s keys of
           Some (classify, e) \<Rightarrow> reject_batch classify e parts s
         | None \<Rightarrow>
             (let prepared = map (\<lambda>x. prepare_registration s (abi_id x) (abi_name x) (abi_owned x) None) items;
                  s = bg_run mv1 s
              in case validate_batch s keys of
                   Some (classify, e) \<Rightarrow>
                     (case e of
                        TaskAlreadyExists _ \<Rightarrow> reject_prepared_batch classify e parts s
                      | _ \<Rightarrow> reject_batch classify e parts s)
                 | None \<Rightarrow>
                     (let s = bg_run mv2 (fold insert_entry prepared s);
                          s = fold (\<lambda>p. rg_publish (task_added (pg_id p) (pg_name p))) prepared s;
                          s = decide (AddDecision (Inr ())) s
                      in fold schedule_actor prepared s)))"

section \<open>The listener\<close>

definition handle_command :: "bg_move list \<Rightarrow> bg_move list \<Rightarrow> registry_command \<Rightarrow> registry \<Rightarrow> registry" where
  "handle_command mv1 mv2 cmd s =
     (case cmd of
        CmdAdd i n owned done' _ \<Rightarrow> spawn_and_register mv1 mv2 i n owned done' s
      | CmdAddBatch items \<Rightarrow> spawn_and_register_batch mv1 mv2 items s
      | CmdRemove i \<Rightarrow> remove_task i s
      | CmdRemoveByName n \<Rightarrow> remove_task_by_name n s
      | CmdCancel i \<Rightarrow> cancel_task i s
      | CmdCancelByName n \<Rightarrow> cancel_task_by_name n s)"

text \<open>A fence: the commands visible at its ordering point are decided before it is acknowledged.\<close>

fun handle_control :: "(bg_move list \<times> bg_move list \<times> registry_command) list \<Rightarrow> registry \<Rightarrow> registry" where
  "handle_control [] s = s"
| "handle_control ((mv1, mv2, cmd) # rest) s = handle_control rest (handle_command mv1 mv2 cmd s)"

definition handle_ready :: "registry \<Rightarrow> registry" where
  "handle_ready s =
     (case rg_ready s of
        [] \<Rightarrow> s
      | i # rest \<Rightarrow> cleanup_completed_task i (s\<lparr>rg_ready := rest\<rparr>))"

text \<open>The identities a command introduces. Runtime identities are never reused.\<close>

definition command_ids :: "registry_command \<Rightarrow> task_id list" where
  "command_ids cmd =
     (case cmd of
        CmdAdd i _ _ _ _ \<Rightarrow> [i]
      | CmdAddBatch items \<Rightarrow> map abi_id items
      | _ \<Rightarrow> [])"

definition used_ids :: "registry_command list \<Rightarrow> task_id set" where
  "used_ids cmds = (\<Union>cmd \<in> set cmds. set (command_ids cmd))"

type_synonym reg_system = "registry_command list \<times> registry"

inductive reg_step :: "reg_system \<Rightarrow> reg_system \<Rightarrow> bool" where
  command: "distinct (command_ids cmd) \<Longrightarrow> set (command_ids cmd) \<inter> used_ids cmds = {} \<Longrightarrow>
    reg_step (cmds, s) (cmds @ [cmd], handle_command mv1 mv2 cmd s)"
| ready: "reg_step (cmds, s) (cmds, handle_ready s)"
| background: "reg_step (cmds, s) (cmds, bg_step m s)"

definition reg_init :: "reg_system \<Rightarrow> bool" where
  "reg_init x \<longleftrightarrow> (\<exists>limited defaults m rx. x = ([], registry_new limited defaults m rx))"

definition reg_reachable :: "reg_system \<Rightarrow> bool" where
  "reg_reachable x \<longleftrightarrow> (\<exists>x0. reg_init x0 \<and> reg_step\<^sup>*\<^sup>* x0 x)"

end
