(* ===== verification/Registry_Invariant.thy ===== *)
theory Registry_Invariant
  imports Registry_Admission
begin

text \<open>
  The invariant of the registry. Its parts are predicates of single fields: the two indexes agree,
  the reaper table is well formed and shares no name with another entry, membership and physical
  ownership stay within the limit, announced results were sent, no assertion failed, and cleanup
  bundles and outcome senders are conserved. What holds for one identity, across all fields, is
  \<open>linv\<close>: the phases an identity passes through from admission to physical release.
\<close>

section \<open>The life of one identity\<close>

definition wrapper_done :: "actor_task \<Rightarrow> bool" where
  "wrapper_done t = (case tk_phase t of WrapperSent _ \<Rightarrow> True | WrapperEnded _ \<Rightarrow> True | _ \<Rightarrow> False)"

definition task_ended :: "actor_task \<Rightarrow> bool" where
  "task_ended t = (case tk_phase t of WrapperEnded _ \<Rightarrow> True | _ \<Rightarrow> False)"

text \<open>No attempt is running and none will start: the task ended or its token is cancelled.\<close>

definition quiet_task :: "actor_task \<Rightarrow> bool \<Rightarrow> bool" where
  "quiet_task t cancelled \<longleftrightarrow> \<not> tk_activity t \<and> (task_ended t \<or> cancelled)"

definition reservation_of :: "task_id \<Rightarrow> name \<Rightarrow> attempt_reservation" where
  "reservation_of i n = \<lparr>rv_id = i, rv_name = n, rv_physical_release = i\<rparr>"

text \<open>A handle that can still be joined: the Tokio handle is in the slot or in the handle.\<close>

definition handle_live :: "task_id \<Rightarrow> name \<Rightarrow> actor_handle \<Rightarrow> actor_task \<Rightarrow> bool" where
  "handle_live i n h t \<longleftrightarrow>
     ah_logical h = None \<and> ah_reservation h = Some (reservation_of i n)
     \<and> tk_receiver t \<and> \<not> tk_abort t
     \<and> (if tk_phase t = Unspawned then \<not> ah_join h \<and> \<not> tk_slot t else ah_join h \<noteq> tk_slot t)
     \<and> (if wrapper_done t then pending_result h t \<noteq> None \<and> \<not> tk_activity t
        else tk_channel t = ChOpen \<and> ah_ready h = None \<and> ah_result h)
     \<and> (tk_phase t = Unspawned \<longrightarrow> \<not> tk_activity t)"

text \<open>The physical side of an identity that is no longer joined; \<open>final\<close> once it was reported.\<close>

definition phys_ok :: "name \<Rightarrow> reaper_record option \<Rightarrow> bool \<Rightarrow> actor_task \<Rightarrow> bool \<Rightarrow> bool \<Rightarrow> bool" where
  "phys_ok n R J t K final \<longleftrightarrow>
     (case R of
        None \<Rightarrow> \<not> J \<and> quiet_task t K
      | Some x \<Rightarrow>
          rr_name x = n \<and> (rr_terminal x \<noteq> None \<longleftrightarrow> final) \<and> (J \<longleftrightarrow> rr_physical x = None)
          \<and> tk_phase t \<noteq> Unspawned
          \<and> (\<forall>rel. rr_terminal_releases x = Some rel \<longrightarrow>
                rel = \<lparr>tr_state = Some (rr_release x), tr_report = rr_release x\<rparr>)
          \<and> (rr_physical x \<noteq> None \<longrightarrow> quiet_task t K))"

definition join_ok ::
  "task_id \<Rightarrow> name \<Rightarrow> actor_handle \<Rightarrow> bool \<Rightarrow> bool \<Rightarrow> reaper_record option \<Rightarrow> bool \<Rightarrow> actor_task
     \<Rightarrow> bool \<Rightarrow> bool" where
  "join_ok i n h force aborted R J t K \<longleftrightarrow>
     (if \<not> aborted
      then R = None \<and> \<not> J \<and> handle_live i n h t \<and> (if force then K else wrapper_done t)
      else K \<and> ah_logical h = Some (Inl JoinAborted) \<and> \<not> ah_join h
           \<and> (case ah_reservation h of
                Some v \<Rightarrow>
                  v = reservation_of i n \<and> R = None \<and> \<not> J \<and> \<not> tk_activity t
                  \<and> (tk_slot t \<longrightarrow> tk_phase t \<noteq> Unspawned)
                | None \<Rightarrow> R \<noteq> None \<and> \<not> tk_slot t \<and> phys_ok n R J t K False))"

definition linv ::
  "task_id \<Rightarrow> reg_entry option \<Rightarrow> removal_owner option \<Rightarrow> nat option \<Rightarrow> name option
     \<Rightarrow> reaper_record option \<Rightarrow> bool \<Rightarrow> actor_task option \<Rightarrow> bool \<Rightarrow> bool \<Rightarrow> bool \<Rightarrow> bool" where
  "linv i T O' C N R J A K L P \<longleftrightarrow>
     (case A of
        None \<Rightarrow> T = None \<and> O' = None \<and> C = None \<and> N = None \<and> R = None \<and> \<not> J \<and> \<not> K \<and> \<not> L \<and> \<not> P
      | Some t \<Rightarrow>
          (wrapper_done t \<longrightarrow> \<not> tk_activity t) \<and>
          (case T of
             Some e \<Rightarrow>
               tk_name t = en_name e \<and> \<not> L \<and> \<not> P \<and>
               (case en_state e of
                  Registered h \<Rightarrow>
                    O' = None \<and> C = None \<and> N = None \<and> R = None \<and> \<not> J \<and> \<not> K \<and> hd_completion h = i
                    \<and> hd_join h = actor_handle_new i (en_name e) \<and> handle_live i (en_name e) (hd_join h) t
                | Removing l \<Rightarrow>
                    l = i \<and> C = Some 1 \<and> N = Some (en_name e) \<and>
                    (case O' of
                       Some (Joining h f a) \<Rightarrow>
                         hd_completion h = i \<and> join_ok i (en_name e) (hd_join h) f a R J t K
                     | Some (Committing p) \<Rightarrow> pr_completion p = i \<and> phys_ok (en_name e) R J t K False
                     | _ \<Rightarrow> False))
           | None \<Rightarrow>
               (case O' of
                  None \<Rightarrow>
                    C = None \<and> N = None \<and> L \<and> (P \<longleftrightarrow> R = None) \<and> phys_ok (tk_name t) R J t K True
                | Some (Reporting p n l e) \<Rightarrow>
                    n = tk_name t \<and> l = i \<and> pr_completion p = i \<and> C = Some 1 \<and> N = Some n \<and> \<not> L \<and> \<not> P
                    \<and> phys_ok n R J t K False
                | Some _ \<Rightarrow> False)))"

definition life :: "registry \<Rightarrow> task_id \<Rightarrow> bool" where
  "life s i = linv i (fmlookup (rg_tasks s) i) (fmlookup (rg_owners s) i) (fmlookup (rg_counts s) i)
     (fmlookup (rg_names s) i) (reaper_rec (rg_reaper s) i) (i |\<in>| rg_reaps s)
     (fmlookup (rg_actors s) i) (i |\<in>| rg_cancelled s) (i |\<in>| rg_logical s) (i |\<in>| rg_physical s)"

section \<open>The parts that span identities\<close>

definition idx_ok :: "(task_id, reg_entry) fmap \<Rightarrow> (name, task_id) fmap \<Rightarrow> bool" where
  "idx_ok T N \<longleftrightarrow> (\<forall>n i. fmlookup N n = Some i \<longleftrightarrow> (\<exists>e. fmlookup T i = Some e \<and> en_name e = n))"

definition cross_ok :: "(task_id, reg_entry) fmap \<Rightarrow> reaper_state \<Rightarrow> bool" where
  "cross_ok T r \<longleftrightarrow>
     (\<forall>i e j x. fmlookup T i = Some e \<longrightarrow> reaper_rec r j = Some x \<longrightarrow> rr_name x = en_name e \<longrightarrow> j = i)"

definition cap_ok :: "nat option \<Rightarrow> (task_id, reg_entry) fmap \<Rightarrow> reaper_state \<Rightarrow> bool" where
  "cap_ok m T r \<longleftrightarrow> (\<forall>limit. m = Some limit \<longrightarrow> card (fset (fmdom T) \<union> reaping r) \<le> limit)"

definition ready_ok :: "task_id list \<Rightarrow> (task_id, actor_task) fmap \<Rightarrow> bool" where
  "ready_ok q A \<longleftrightarrow> (\<forall>i \<in> set q. \<exists>t. fmlookup A i = Some t \<and> wrapper_done t)"

definition fresh_ok :: "task_id set \<Rightarrow> (task_id, actor_task) fmap \<Rightarrow> bool" where
  "fresh_ok U A \<longleftrightarrow> (\<forall>i. i \<notin> U \<longrightarrow> fmlookup A i = None)"

section \<open>Accounts\<close>

text \<open>A bundle is identified by its capacity reservation, which no attachment changes.\<close>

definition bundle_res :: "drop_bundle \<Rightarrow> nat option" where
  "bundle_res b = map_option bi_reservation b"

definition entry_res :: "reg_entry \<Rightarrow> nat option multiset" where
  "entry_res e = (case en_state e of Registered h \<Rightarrow> {#bundle_res (hd_cleanup h)#} | Removing _ \<Rightarrow> {#})"

fun owner_res :: "removal_owner \<Rightarrow> nat option multiset" where
  "owner_res (Joining h _ _) = {#bundle_res (hd_cleanup h)#}"
| "owner_res (Committing p) = {#bundle_res (pr_cleanup p)#}"
| "owner_res (Reporting p _ _ _) = {#bundle_res (pr_cleanup p)#}"

definition records_res :: "reaper_record list \<Rightarrow> nat option multiset" where
  "records_res xs = sum_list (map (\<lambda>x. image_mset bundle_res (opt_mset (rr_terminal x))) xs)"

definition reaper_res :: "reaper_state \<Rightarrow> nat option multiset" where
  "reaper_res r = fm_sum records_res (rp_records r)"

fun effect_res :: "registry_effect \<Rightarrow> nat option multiset" where
  "effect_res (RgSubmitted b) = {#bundle_res b#}"
| "effect_res _ = {#}"

definition log_res :: "registry_effect list \<Rightarrow> nat option multiset" where
  "log_res l = sum_list (map effect_res l)"

definition bundles_ok ::
  "nat option multiset \<Rightarrow> (task_id, reg_entry) fmap \<Rightarrow> (task_id, removal_owner) fmap \<Rightarrow> reaper_state
     \<Rightarrow> registry_effect list \<Rightarrow> bool" where
  "bundles_ok B T O' r l \<longleftrightarrow> fm_sum entry_res T + fm_sum owner_res O' + reaper_res r + log_res l = B"

definition entry_tx :: "reg_entry \<Rightarrow> outcome_tx multiset" where
  "entry_tx e = (case en_state e of Registered h \<Rightarrow> opt_mset (hd_done h) | Removing _ \<Rightarrow> {#})"

fun owner_tx :: "removal_owner \<Rightarrow> outcome_tx multiset" where
  "owner_tx (Joining h _ _) = opt_mset (hd_done h)"
| "owner_tx (Committing p) = opt_mset (pr_done p)"
| "owner_tx (Reporting p _ _ _) = opt_mset (pr_done p)"

fun effect_tx :: "registry_effect \<Rightarrow> outcome_tx multiset" where
  "effect_tx (RgDelivered tx _) = {#tx#}"
| "effect_tx (RgUndelivered tx _) = {#tx#}"
| "effect_tx _ = {#}"

definition log_tx :: "registry_effect list \<Rightarrow> outcome_tx multiset" where
  "log_tx l = sum_list (map effect_tx l)"

definition senders_ok ::
  "outcome_tx multiset \<Rightarrow> (task_id, reg_entry) fmap \<Rightarrow> (task_id, removal_owner) fmap
     \<Rightarrow> registry_effect list \<Rightarrow> bool" where
  "senders_ok W T O' l \<longleftrightarrow> fm_sum entry_tx T + fm_sum owner_tx O' + log_tx l = W"

definition rinv :: "task_id set \<Rightarrow> nat option multiset \<Rightarrow> outcome_tx multiset \<Rightarrow> registry \<Rightarrow> bool" where
  "rinv U B W s \<longleftrightarrow>
     idx_ok (rg_tasks s) (rg_by_name s) \<and> reaper_ok (rg_reaper s)
     \<and> cross_ok (rg_tasks s) (rg_reaper s) \<and> cap_ok (rg_max s) (rg_tasks s) (rg_reaper s)
     \<and> ready_ok (rg_ready s) (rg_actors s) \<and> fresh_ok U (rg_actors s)
     \<and> bundles_ok B (rg_tasks s) (rg_owners s) (rg_reaper s) (rg_log s)
     \<and> senders_ok W (rg_tasks s) (rg_owners s) (rg_log s)
     \<and> rg_faults s = 0 \<and> (\<forall>i. life s i)"

section \<open>Generic facts\<close>

lemma bundle_res_attach [simp]:
  "bundle_res (attach_outcome b x) = bundle_res b"
  "bundle_res (attach_auxiliary b v) = bundle_res b"
  "bundle_res (poison b) = bundle_res b"
  by (cases b; auto simp: bundle_res_def attach_outcome_def attach_auxiliary_def poison_def
      split: option.splits)+

lemma log_res_append [simp]:
  "log_res (l @ l') = log_res l + log_res l'" "log_res (e # l) = effect_res e + log_res l" "log_res [] = {#}"
  by (simp_all add: log_res_def)

lemma log_tx_append [simp]:
  "log_tx (l @ l') = log_tx l + log_tx l'" "log_tx (e # l) = effect_tx e + log_tx l" "log_tx [] = {#}"
  by (simp_all add: log_tx_def)

lemma rinvD:
  assumes "rinv U B W s"
  shows "idx_ok (rg_tasks s) (rg_by_name s)" "reaper_ok (rg_reaper s)"
    "cross_ok (rg_tasks s) (rg_reaper s)" "cap_ok (rg_max s) (rg_tasks s) (rg_reaper s)"
    "ready_ok (rg_ready s) (rg_actors s)" "fresh_ok U (rg_actors s)"
    "bundles_ok B (rg_tasks s) (rg_owners s) (rg_reaper s) (rg_log s)"
    "senders_ok W (rg_tasks s) (rg_owners s) (rg_log s)" "rg_faults s = 0" "life s i"
  using assms by (simp_all add: rinv_def)

lemma wrapper_done_phase: "tk_phase t' = tk_phase t \<Longrightarrow> wrapper_done t' = wrapper_done t"
  by (simp add: wrapper_done_def)

lemma wrapper_done_upd [simp]:
  "wrapper_done (t\<lparr>tk_abort := a\<rparr>) = wrapper_done t" "wrapper_done (t\<lparr>tk_slot := a\<rparr>) = wrapper_done t"
  "wrapper_done (t\<lparr>tk_receiver := a\<rparr>) = wrapper_done t" "wrapper_done (t\<lparr>tk_activity := a\<rparr>) = wrapper_done t"
  by (simp_all add: wrapper_done_def)

lemma done_idle:
  "rinv U B W s \<Longrightarrow> fmlookup (rg_actors s) i = Some t \<Longrightarrow> wrapper_done t \<longrightarrow> \<not> tk_activity t"
  using rinvD(10)[of U B W s i] by (simp add: life_def linv_def)

text \<open>A change at one identity leaves the life of the others alone.\<close>

definition same_at :: "task_id \<Rightarrow> registry \<Rightarrow> registry \<Rightarrow> bool" where
  "same_at j s s' \<longleftrightarrow>
     fmlookup (rg_tasks s') j = fmlookup (rg_tasks s) j \<and> fmlookup (rg_owners s') j = fmlookup (rg_owners s) j
     \<and> fmlookup (rg_counts s') j = fmlookup (rg_counts s) j \<and> fmlookup (rg_names s') j = fmlookup (rg_names s) j
     \<and> reaper_rec (rg_reaper s') j = reaper_rec (rg_reaper s) j
     \<and> (j |\<in>| rg_reaps s' \<longleftrightarrow> j |\<in>| rg_reaps s) \<and> fmlookup (rg_actors s') j = fmlookup (rg_actors s) j
     \<and> (j |\<in>| rg_cancelled s' \<longleftrightarrow> j |\<in>| rg_cancelled s) \<and> (j |\<in>| rg_logical s' \<longleftrightarrow> j |\<in>| rg_logical s)
     \<and> (j |\<in>| rg_physical s' \<longleftrightarrow> j |\<in>| rg_physical s)"

lemma life_same: "same_at j s s' \<Longrightarrow> life s' j = life s j"
  by (simp add: same_at_def life_def)

lemma life_all:
  assumes "\<And>j. j \<noteq> i \<Longrightarrow> same_at j s s'" and "\<forall>j. life s j" and "life s' i"
  shows "\<forall>j. life s' j"
  using assms life_same by metis

section \<open>Effects of the reaper operations\<close>

text \<open>Every surviving record keeps its name.\<close>

definition same_names :: "reaper_state \<Rightarrow> reaper_state \<Rightarrow> bool" where
  "same_names r r' \<longleftrightarrow>
     (\<forall>j x'. reaper_rec r' j = Some x' \<longrightarrow> (\<exists>x. reaper_rec r j = Some x \<and> rr_name x = rr_name x'))"

lemma cross_ok_same_names: "cross_ok T r \<Longrightarrow> same_names r r' \<Longrightarrow> cross_ok T r'"
  unfolding cross_ok_def same_names_def by metis

lemma cap_ok_mono:
  assumes "cap_ok m T r" and "fset (fmdom T') \<union> reaping r' \<subseteq> fset (fmdom T) \<union> reaping r" and "finite (reaping r)"
  shows "cap_ok m T' r'"
proof -
  have "card (fset (fmdom T') \<union> reaping r') \<le> card (fset (fmdom T) \<union> reaping r)"
    by (rule card_mono) (use assms in auto)
  with assms(1) show ?thesis unfolding cap_ok_def by fastforce
qed

lemma reaping_dom:
  assumes "reaper_ok r"
  shows "reaping r = fset (fmdom (rp_records r))"
proof (rule set_eqI)
  fix i
  show "i \<in> reaping r \<longleftrightarrow> i \<in> fset (fmdom (rp_records r))"
    using reaper_rec_None[OF assms, of i]
    by (cases "fmlookup (rp_records r) i") (auto simp: fmlookup_dom_iff)
qed

lemma finite_reaping: "reaper_ok r \<Longrightarrow> finite (reaping r)"
  by (simp add: reaping_dom)

lemma card_reaping: "reaper_ok r \<Longrightarrow> card (reaping r) = rp_active r"
  by (simp add: reaping_dom reaper_ok_active hm_len_def fcard.rep_eq)

lemma same_names_reaping: "same_names r r' \<Longrightarrow> reaping r' \<subseteq> reaping r"
  by (fastforce simp: same_names_def reaping_def)

lemma reaper_rec_lookup:
  "reaper_ok r \<Longrightarrow> reaper_rec r i = Some x \<Longrightarrow> fmlookup (rp_records r) i = Some [x]"
  by (rule reaper_recE[of r i]) (auto simp: reaping_def)

lemma records_res_simps [simp]:
  "records_res [x] = image_mset bundle_res (opt_mset (rr_terminal x))"
  by (simp add: records_res_def)

lemma reaper_res_put:
  "fmlookup (rp_records r) i = Some [x] \<Longrightarrow>
     reaper_res (put_record r i 0 y) + image_mset bundle_res (opt_mset (rr_terminal x))
       = reaper_res r + image_mset bundle_res (opt_mset (rr_terminal y))"
  by (simp add: reaper_res_def put_record_def hm_vec_def fm_sum_upd fm_sum_lookup)

lemma reaper_res_close:
  "fmlookup (rp_records r) i = Some [x] \<Longrightarrow>
     reaper_res (close_record r i n) + image_mset bundle_res (opt_mset (rr_terminal x)) = reaper_res r"
  by (simp add: reaper_res_def close_record_def fm_sum_lookup)

lemma bundle_res_pair [simp]: "bundle_res (fst (finished_pair i a b)) = bundle_res (fst b)"
  by (simp add: finished_pair_def Let_def)

text \<open>The terminal bundle arrives: no record, a record without output, a record with output.\<close>

lemma attach_terminal_effect:
  assumes r: "reaper_ok r" and R: "reaper_rec r i = None \<or> (\<exists>x. reaper_rec r i = Some x \<and> rr_terminal x = None)"
    and out: "attach_terminal r i b (Some i) i = (bs, ls, r')"
  shows "reaper_ok r'" "same_names r r'"
    "reaper_rec r' = (reaper_rec r)(i := (case reaper_rec r i of
       None \<Rightarrow> None
     | Some x \<Rightarrow> if rr_physical x = None
                then Some (x\<lparr>rr_terminal := Some b,
                       rr_terminal_releases := Some \<lparr>tr_state = Some i, tr_report = i\<rparr>\<rparr>) else None))"
    "set ls = (if reaper_rec r' i = None then {i} else {})"
    "reaper_res r' + mset (map bundle_res bs) = reaper_res r + {#bundle_res b#}"
proof -
  have "reaper_ok r' \<and> same_names r r' \<and>
    reaper_rec r' = (reaper_rec r)(i := (case reaper_rec r i of
       None \<Rightarrow> None
     | Some x \<Rightarrow> if rr_physical x = None
                then Some (x\<lparr>rr_terminal := Some b,
                       rr_terminal_releases := Some \<lparr>tr_state = Some i, tr_report = i\<rparr>\<rparr>) else None))
    \<and> set ls = (if reaper_rec r' i = None then {i} else {})
    \<and> reaper_res r' + mset (map bundle_res bs) = reaper_res r + {#bundle_res b#}"
  proof (cases "reaper_rec r i")
    case None
    then have "fmlookup (rp_records r) i = None"
      using r by (auto simp: reaper_rec_None[symmetric] reaping_def)
    with out r None show ?thesis
      by (auto simp: attach_terminal_absent releases_complete_def same_names_def fun_upd_idem)
  next
    case (Some x)
    with R have t: "rr_terminal x = None" by simp
    obtain y where y: "fmlookup (rp_records r) i = Some [y]" "record_ok i y" "reaper_rec r i = Some y"
        "fmlookup (rp_by_name r) (rr_name y) = Some [\<lparr>ra_id = i, ra_release = i\<rparr>]"
      by (rule reaper_recE[OF r, of i]) (use Some in \<open>auto simp: reaping_def\<close>)
    with Some have yx: "y = x" by simp
    note at = attach_terminal_cases[OF r y(1,2,4)[unfolded yx] t refl, of b "Some i" i]
    show ?thesis
    proof (cases "rr_physical x")
      case None
      let ?z = "x\<lparr>rr_terminal := Some b, rr_terminal_releases := Some \<lparr>tr_state = Some i, tr_report = i\<rparr>\<rparr>"
      have z: "record_ok i ?z" using y yx None by (simp add: record_ok_def)
      note p = put_record_ok[OF r y(1)[unfolded yx] z, simplified]
      have "same_names r (put_record r i 0 ?z)" using p(2) Some by (auto simp: same_names_def)
      moreover from out at None have "bs = []" "ls = []" "r' = put_record r i 0 ?z" by simp_all
      ultimately show ?thesis
        using None p(1,2) Some reaper_res_put[OF y(1)[unfolded yx], of ?z] t by (simp add: opt_mset_def)
    next
      case (Some v)
      note p = close_record_ok[OF r y(1)[unfolded yx]]
      have "same_names r (close_record r i (rr_name x))" using p(2) by (auto simp: same_names_def)
      moreover from out at Some have "map bundle_res bs = [bundle_res b]" "set ls = {i}"
          "r' = close_record r i (rr_name x)"
        by (auto simp: releases_complete_def)
      ultimately show ?thesis
        using Some p(1,2) \<open>reaper_rec r i = Some x\<close> reaper_res_close[OF y(1)[unfolded yx], of "rr_name x"] t
        by (simp add: opt_mset_def)
    qed
  qed
  then show "reaper_ok r'" "same_names r r'"
    "reaper_rec r' = (reaper_rec r)(i := (case reaper_rec r i of
       None \<Rightarrow> None
     | Some x \<Rightarrow> if rr_physical x = None
                then Some (x\<lparr>rr_terminal := Some b,
                       rr_terminal_releases := Some \<lparr>tr_state = Some i, tr_report = i\<rparr>\<rparr>) else None))"
    "set ls = (if reaper_rec r' i = None then {i} else {})"
    "reaper_res r' + mset (map bundle_res bs) = reaper_res r + {#bundle_res b#}" by blast+
qed

text \<open>The output of an aborted actor arrives.\<close>

lemma reap_finished_effect:
  assumes r: "reaper_ok r" and x: "reaper_rec r i = Some x" "rr_physical x = None"
    and rel: "\<forall>rel. rr_terminal_releases x = Some rel \<longrightarrow> rel = \<lparr>tr_state = Some i, tr_report = i\<rparr>"
    and out: "reap_finished r i i v p = (bs, ls, r')"
  shows "reaper_ok r' \<and> same_names r r'
    \<and> reaper_rec r' = (reaper_rec r)(i :=
       (if rr_terminal x = None then Some (x\<lparr>rr_physical := Some v, rr_poisoned := p\<rparr>) else None))
    \<and> set ls = (if rr_terminal x = None then {} else {i})
    \<and> reaper_res r' + mset (map bundle_res bs) = reaper_res r"
proof -
  obtain y where y: "fmlookup (rp_records r) i = Some [y]" "record_ok i y" "reaper_rec r i = Some y"
      "fmlookup (rp_by_name r) (rr_name y) = Some [\<lparr>ra_id = i, ra_release = i\<rparr>]"
    by (rule reaper_recE[OF r, of i]) (use x in \<open>auto simp: reaping_def\<close>)
  with x have yx: "y = x" by simp
  note fin = reap_finished_cases[OF r y(1,2,4)[unfolded yx] x(2), of v p]
  show ?thesis
  proof (cases "rr_terminal x")
    case None
    let ?z = "x\<lparr>rr_physical := Some v, rr_poisoned := p\<rparr>"
    have z: "record_ok i ?z" using y yx None x by (simp add: record_ok_def)
    note p = put_record_ok[OF r y(1)[unfolded yx] z, simplified]
    have "same_names r (put_record r i 0 ?z)" using p(2) x by (auto simp: same_names_def)
    moreover from out fin None have "bs = []" "ls = []" "r' = put_record r i 0 ?z" by simp_all
    ultimately show ?thesis
      using None p(1,2) reaper_res_put[OF y(1)[unfolded yx], of ?z] by (simp add: opt_mset_def)
  next
    case (Some b)
    note q = close_record_ok[OF r y(1)[unfolded yx]]
    have "same_names r (close_record r i (rr_name x))" using q(2) by (auto simp: same_names_def)
    moreover have "rr_terminal_releases x = Some \<lparr>tr_state = Some i, tr_report = i\<rparr>"
      using y yx Some rel by (auto simp: record_ok_def)
    with out fin Some have "map bundle_res bs = [bundle_res b]" "set ls = {i}"
        "r' = close_record r i (rr_name x)"
      by (auto simp: releases_complete_def)
    ultimately show ?thesis
      using Some q(1,2) reaper_res_close[OF y(1)[unfolded yx], of "rr_name x"] by (simp add: opt_mset_def)
  qed
qed

end
