(* ===== verification/Registry_Preservation.thy ===== *)
theory Registry_Preservation
  imports Registry_Invariant
begin

text \<open>Every operation of the registry keeps its invariant.\<close>

section \<open>Moves of an actor task\<close>

definition task_le :: "bool \<Rightarrow> actor_task \<Rightarrow> actor_task \<Rightarrow> bool" where
  "task_le K t t' \<longleftrightarrow>
     tk_name t' = tk_name t \<and> tk_slot t' = tk_slot t
     \<and> (tk_phase t' = Unspawned \<longleftrightarrow> tk_phase t = Unspawned) \<and> (wrapper_done t \<longrightarrow> wrapper_done t')
     \<and> ((wrapper_done t \<longrightarrow> \<not> tk_activity t) \<longrightarrow> wrapper_done t' \<longrightarrow> \<not> tk_activity t')
     \<and> (quiet_task t K \<longrightarrow> quiet_task t' K) \<and> (K \<and> \<not> tk_activity t \<longrightarrow> \<not> tk_activity t')
     \<and> (\<forall>i n h. handle_live i n h t \<longrightarrow> handle_live i n h t')"

lemma phys_ok_task: "phys_ok n R J t K f \<Longrightarrow> task_le K t t' \<Longrightarrow> phys_ok n R J t' K f"
  by (auto simp: phys_ok_def task_le_def split: option.splits)

lemma join_ok_task: "join_ok i n h f a R J t K \<Longrightarrow> task_le K t t' \<Longrightarrow> join_ok i n h f a R J t' K"
  using phys_ok_task[of n R J t K False t']
  by (auto simp: join_ok_def task_le_def split: option.splits if_splits)

lemma linv_task:
  assumes "linv i T O' C N R J (Some t) K L P" and "task_le K t t'"
  shows "linv i T O' C N R J (Some t') K L P"
  using assms phys_ok_task[of _ R J t K _ t'] join_ok_task[of i _ _ _ _ R J t K t']
  by (auto simp: linv_def task_le_def split: option.splits entry_state.splits removal_owner.splits)

lemmas task_defs = task_le_def handle_live_def quiet_task_def task_ended_def wrapper_done_def pending_result_def

lemma task_le_begin: "tk_phase t = WrapperRunning \<Longrightarrow> \<not> K \<Longrightarrow> task_le K t (t\<lparr>tk_activity := True\<rparr>)"
  by (simp add: task_defs)

lemma task_le_end: "tk_phase t = WrapperRunning \<Longrightarrow> task_le K t (t\<lparr>tk_activity := False\<rparr>)"
  by (simp add: task_defs)

lemma task_le_send:
  "tk_phase t = WrapperRunning \<Longrightarrow> \<not> tk_activity t \<Longrightarrow> task_le K t (wrapper_send outcome t)"
  by (auto simp: task_defs wrapper_send_def wrapper_result_def Let_def split: sum.splits option.splits)

lemma task_le_exit: "task_le K t (wrapper_exit t)"
  by (cases "tk_phase t") (auto simp: task_defs wrapper_exit_def split: option.splits)

lemma task_le_abort:
  "tk_phase t = WrapperRunning \<Longrightarrow> tk_abort t \<Longrightarrow> task_le K t (wrapper_abort e t)"
  by (auto simp: task_defs wrapper_abort_def)

lemma wrapper_done_send: "wrapper_done (wrapper_send outcome t)"
  by (auto simp: wrapper_done_def wrapper_send_def split: prod.splits)

text \<open>A state that differs in the task of one actor.\<close>

lemma ready_ok_put:
  "ready_ok q A \<Longrightarrow> fmlookup A i = Some t \<Longrightarrow> wrapper_done t \<longrightarrow> wrapper_done t' \<Longrightarrow> ready_ok q (fmupd i t' A)"
  by (auto simp: ready_ok_def)

lemma rinv_put_actor:
  assumes inv: "rinv U B W s" and t: "fmlookup (rg_actors s) i = Some t"
    and le: "task_le (i |\<in>| rg_cancelled s) t t'"
  shows "rinv U B W (put_actor i t' s)"
proof -
  have "life s i" by (rule rinvD[OF inv])
  then have "life (put_actor i t' s) i"
    using t linv_task[OF _ le] by (simp add: life_def put_actor_def)
  moreover have "same_at j s (put_actor i t' s)" if "j \<noteq> i" for j
    using that by (simp add: same_at_def put_actor_def)
  ultimately have "\<forall>j. life (put_actor i t' s) j"
    using inv life_all[of i s] by (simp add: rinv_def)
  moreover have "fresh_ok U (fmupd i t' (rg_actors s))"
    using rinvD(6)[OF inv, of] t by (auto simp: fresh_ok_def)
  moreover have "ready_ok (rg_ready s) (fmupd i t' (rg_actors s))"
    using ready_ok_put[OF rinvD(5)[OF inv] t] le by (simp add: task_le_def)
  ultimately show ?thesis using inv by (simp add: rinv_def put_actor_def)
qed

lemma rinv_actor_move:
  assumes "rinv U B W s"
    and "\<And>t. fmlookup (rg_actors s) i = Some t \<Longrightarrow> guard t \<Longrightarrow> task_le (i |\<in>| rg_cancelled s) t (f t)"
  shows "rinv U B W (actor_move i guard f s)"
  using assms rinv_put_actor by (auto simp: actor_move_def split: option.splits)

lemma rinv_ready_append:
  "rinv U B W s \<Longrightarrow> fmlookup (rg_actors s) i = Some t \<Longrightarrow> wrapper_done t \<Longrightarrow>
     rinv U B W (s\<lparr>rg_ready := rg_ready s @ [i]\<rparr>)"
  by (auto simp: rinv_def ready_ok_def life_def)

section \<open>Changes at one identity\<close>

lemma rinv_at:
  assumes "rinv U B W s" and "\<And>j. j \<noteq> i \<Longrightarrow> same_at j s s'" and "life s' i"
    and "idx_ok (rg_tasks s') (rg_by_name s')" "reaper_ok (rg_reaper s')"
    and "cross_ok (rg_tasks s') (rg_reaper s')" "cap_ok (rg_max s') (rg_tasks s') (rg_reaper s')"
    and "ready_ok (rg_ready s') (rg_actors s')" "fresh_ok U' (rg_actors s')"
    and "bundles_ok B' (rg_tasks s') (rg_owners s') (rg_reaper s') (rg_log s')"
    and "senders_ok W' (rg_tasks s') (rg_owners s') (rg_log s')" "rg_faults s' = 0"
  shows "rinv U' B' W' s'"
  using assms life_all[of i s s'] by (simp add: rinv_def)

lemma rinv_emit:
  "rinv U B W s \<Longrightarrow> rinv U (B + effect_res e) (W + effect_tx e) (rg_emit e s)"
  by (auto simp: rinv_def rg_emit_def bundles_ok_def senders_ok_def life_def)

lemma rinv_emit_quiet:
  "rinv U B W s \<Longrightarrow> effect_res e = {#} \<Longrightarrow> effect_tx e = {#} \<Longrightarrow> rinv U B W (rg_emit e s)"
  using rinv_emit[of U B W s e] by simp

lemma rinv_publish: "rinv U B W s \<Longrightarrow> rinv U B W (rg_publish e s)"
  unfolding rg_publish_def by (rule rinv_emit_quiet) simp_all

lemma rinv_decide: "rinv U B W s \<Longrightarrow> rinv U B W (decide d s)"
  unfolding decide_def by (rule rinv_emit_quiet) simp_all

lemma rinv_submit: "rinv U B W s \<Longrightarrow> rinv U (B + {#bundle_res b#}) W (submit_bundle b s)"
  using rinv_emit[of U B W s "RgSubmitted b"] by (simp add: submit_bundle_def bundle_submit_def)

lemma deliver_cases:
  assumes "deliver_or_attach_rejection done' x b s = (b', s')" and "rinv U B W s"
  shows "rinv U B (W + opt_mset done') s'" "bundle_res b' = bundle_res b"
proof -
  have "rinv U B (W + opt_mset done') s' \<and> bundle_res b' = bundle_res b"
    using assms rinv_emit[of U B W s "RgDelivered (the done') x"] rinv_emit[of U B W s "RgUndelivered (the done') x"]
    by (cases done') (auto simp: deliver_or_attach_rejection_def opt_mset_def split: if_splits)
  then show "rinv U B (W + opt_mset done') s'" "bundle_res b' = bundle_res b" by blast+
qed

lemma hd_join_same [simp]: "h\<lparr>hd_join := hd_join h\<rparr> = h"
  by (cases h) simp

lemmas quiet_ops = rg_publish_def decide_def rg_emit_def cancel_token_def put_owner_def rg_check_def

section \<open>Claims\<close>

lemma registered_facts:
  assumes "rinv U B W s" and "fmlookup (rg_tasks s) i = Some e" and "en_state e = Registered h"
  obtains t where "fmlookup (rg_actors s) i = Some t" "tk_name t = en_name e" "hd_completion h = i"
    "hd_join h = actor_handle_new i (en_name e)" "handle_live i (en_name e) (hd_join h) t"
    "fmlookup (rg_owners s) i = None" "fmlookup (rg_counts s) i = None" "fmlookup (rg_names s) i = None"
    "reaper_rec (rg_reaper s) i = None" "i |\<notin>| rg_reaps s" "i |\<notin>| rg_cancelled s"
    "i |\<notin>| rg_logical s" "i |\<notin>| rg_physical s"
  using rinvD(10)[OF assms(1), of i] assms(2,3) by (auto simp: life_def linv_def split: option.splits)

lemma rinv_claim:
  assumes inv: "rinv U B W s" and T: "fmlookup (rg_tasks s) i = Some e" "en_state e = Registered h"
    and A: "fmlookup (rg_actors s) i = Some t"
    and fields: "rg_tasks s' = fmupd i (e\<lparr>en_state := Removing (hd_completion h)\<rparr>) (rg_tasks s)"
      "rg_by_name s' = rg_by_name s" "rg_counts s' = fmupd i 1 (rg_counts s)"
      "rg_names s' = fmupd i (en_name e) (rg_names s)"
      "rg_owners s' = fmupd i (Joining (h\<lparr>hd_join := j\<rparr>) f False) (rg_owners s)"
      "rg_reaper s' = rg_reaper s" "rg_reaps s' = rg_reaps s" "rg_actors s' = fmupd i t' (rg_actors s)"
      "rg_ready s' = rg_ready s" "rg_logical s' = rg_logical s" "rg_physical s' = rg_physical s"
      "rg_max s' = rg_max s" "rg_faults s' = 0"
      "log_res (rg_log s') = log_res (rg_log s)" "log_tx (rg_log s') = log_tx (rg_log s)"
    and K: "rg_cancelled s' = rg_cancelled s \<or> rg_cancelled s' = finsert i (rg_cancelled s)"
      "if f then i |\<in>| rg_cancelled s' else wrapper_done t'"
    and j: "handle_live i (en_name e) j t'" "tk_name t' = tk_name t" "wrapper_done t \<longrightarrow> wrapper_done t'"
  shows "rinv U B W s'"
proof (rule rinv_at[OF inv, where i = i])
  note d = rinvD[OF inv]
  obtain t0 where r: "fmlookup (rg_actors s) i = Some t0" "tk_name t0 = en_name e" "hd_completion h = i"
      "fmlookup (rg_owners s) i = None" "reaper_rec (rg_reaper s) i = None" "i |\<notin>| rg_reaps s"
      "i |\<notin>| rg_logical s" "i |\<notin>| rg_physical s"
    by (rule registered_facts[OF inv T])
  show "same_at k s s'" if "k \<noteq> i" for k
    using that fields K by (auto simp: same_at_def)
  have "wrapper_done t' \<longrightarrow> \<not> tk_activity t'" using j(1) by (auto simp: handle_live_def split: if_splits)
  with r j A K(2) fields show "life s' i" by (simp add: life_def linv_def join_ok_def)
  show "idx_ok (rg_tasks s') (rg_by_name s')"
    using d(1) T fields by (auto simp: idx_ok_def)
  show "cross_ok (rg_tasks s') (rg_reaper s')"
    using d(3) T fields by (auto simp: cross_ok_def)
  have "fmdom (rg_tasks s') = fmdom (rg_tasks s)" using T fields by (auto simp: fmdomI)
  then show "cap_ok (rg_max s') (rg_tasks s') (rg_reaper s')"
    using d(4) fields by (simp add: cap_ok_def)
  show "ready_ok (rg_ready s') (rg_actors s')"
    using ready_ok_put[OF d(5) A j(3)] fields by simp
  show "fresh_ok U (rg_actors s')" using d(6) A fields by (auto simp: fresh_ok_def)
  show "bundles_ok B (rg_tasks s') (rg_owners s') (rg_reaper s') (rg_log s')"
    using d(7) r(4) fields T(2) fm_sum_lookup[OF T(1), of entry_res]
    by (simp add: bundles_ok_def fm_sum_upd fm_sum_drop_absent entry_res_def)
  show "senders_ok W (rg_tasks s') (rg_owners s') (rg_log s')"
    using d(8) r(4) fields T(2) fm_sum_lookup[OF T(1), of entry_tx]
    by (simp add: senders_ok_def fm_sum_upd fm_sum_drop_absent entry_tx_def ac_simps)
qed (use rinvD[OF inv] fields in simp_all)

lemma claim_registered_cases:
  assumes "claim_registered i s = (x, s1)"
  obtains (no_claim) "x = None" "s1 = s"
      "\<forall>e h. fmlookup (rg_tasks s) i = Some e \<longrightarrow> en_state e \<noteq> Registered h"
  | (claimed) e h where "fmlookup (rg_tasks s) i = Some e" "en_state e = Registered h"
      "x = Some (en_name e, h, hd_completion h)"
      "s1 = inc_with_name i (en_name e)
         (s\<lparr>rg_tasks := fmupd i (e\<lparr>en_state := Removing (hd_completion h)\<rparr>) (rg_tasks s)\<rparr>)"
  using assms by (auto simp: claim_registered_def Let_def split: option.splits entry_state.splits)

text \<open>A claim by a command or by shutdown, with quiet effects in between.\<close>

lemma rinv_spawn_claimed:
  assumes inv: "rinv U B W s" and T: "fmlookup (rg_tasks s) i = Some e" "en_state e = Registered h"
    and s1: "s1 = inc_with_name i (en_name e)
      (s\<lparr>rg_tasks := fmupd i (e\<lparr>en_state := Removing (hd_completion h)\<rparr>) (rg_tasks s)\<rparr>)"
  shows "rinv U B W (spawn_join_report i h (cancel_token i s1))"
    and "rinv U B W (spawn_join_report i h (decide d (cancel_token i s1)))"
    and "rinv U B W (spawn_join_report i h (decide d (cancel_token i (rg_publish ev s1))))"
proof -
  obtain t where t: "fmlookup (rg_actors s) i = Some t" "tk_name t = en_name e"
      "handle_live i (en_name e) (hd_join h) t" "fmlookup (rg_owners s) i = None"
      "fmlookup (rg_counts s) i = None"
    by (rule registered_facts[OF inv T])
  note rule = rinv_claim[OF inv T t(1), where j = "hd_join h" and t' = t and f = True]
  show "rinv U B W (spawn_join_report i h (cancel_token i s1))"
    by (rule rule) (use t rinvD(9)[OF inv] in
      \<open>simp_all add: s1 spawn_join_report_def quiet_ops inc_with_name_def fmupd_lookup_same\<close>)
  show "rinv U B W (spawn_join_report i h (decide d (cancel_token i s1)))"
    by (rule rule) (use t rinvD(9)[OF inv] in
      \<open>simp_all add: s1 spawn_join_report_def quiet_ops inc_with_name_def fmupd_lookup_same\<close>)
  show "rinv U B W (spawn_join_report i h (decide d (cancel_token i (rg_publish ev s1))))"
    by (rule rule) (use t rinvD(9)[OF inv] in
      \<open>simp_all add: s1 spawn_join_report_def quiet_ops inc_with_name_def fmupd_lookup_same\<close>)
qed

lemma rinv_remove_task:
  assumes "rinv U B W s"
  shows "rinv U B W (remove_task i s)"
proof -
  obtain x s1 where c: "claim_registered i s = (x, s1)" by fastforce
  then show ?thesis
    by (cases rule: claim_registered_cases)
      (use assms c in \<open>auto simp: remove_task_def intro: rinv_decide rinv_spawn_claimed(2)\<close>)
qed

lemma rinv_remove_task_by_name: "rinv U B W s \<Longrightarrow> rinv U B W (remove_task_by_name n s)"
proof (cases "fmlookup (rg_by_name s) n")
  case (Some i)
  assume inv: "rinv U B W s"
  obtain x s1 where c: "claim_registered i s = (x, s1)" by fastforce
  then show ?thesis
    by (cases rule: claim_registered_cases)
      (use inv c Some in \<open>auto simp: remove_task_by_name_def Let_def
        intro: rinv_decide rinv_publish rinv_spawn_claimed(3)\<close>)
qed (simp add: remove_task_by_name_def rinv_decide)

lemma cancel_action_cases:
  assumes "cancel_action i s = (action, s1)"
  obtains (unknown) "action = None" "s1 = s" "fmlookup (rg_tasks s) i = None"
  | (joins) e l where "fmlookup (rg_tasks s) i = Some e" "en_state e = Removing l" "s1 = s"
      "action = Some (\<lparr>cd_id = i, cd_claimed = False, cd_completion = l\<rparr>, None)"
  | (claimed) e h where "fmlookup (rg_tasks s) i = Some e" "en_state e = Registered h"
      "action = Some (\<lparr>cd_id = i, cd_claimed = True, cd_completion = hd_completion h\<rparr>, Some h)"
      "s1 = inc_with_name i (en_name e)
         (s\<lparr>rg_tasks := fmupd i (e\<lparr>en_state := Removing (hd_completion h)\<rparr>) (rg_tasks s)\<rparr>)"
  using assms
  by (auto simp: cancel_action_def claim_registered_def Let_def split: option.splits entry_state.splits)

lemma rinv_resolve_cancel:
  "rinv U B W s \<Longrightarrow> cancel_action i s = (action, s1) \<Longrightarrow>
     rinv U B W (resolve_cancel_action action (rg_publish ev s1))"
  by (erule cancel_action_cases)
    (auto simp: resolve_cancel_action_def intro: rinv_decide rinv_publish rinv_spawn_claimed(3))

lemma rinv_cancel_task: "rinv U B W s \<Longrightarrow> rinv U B W (cancel_task i s)"
  by (auto simp: cancel_task_def resolve_cancel_action_def[of None] intro: rinv_decide rinv_resolve_cancel
      split: option.splits prod.splits)

lemma rinv_cancel_task_by_name: "rinv U B W s \<Longrightarrow> rinv U B W (cancel_task_by_name n s)"
  by (auto simp: cancel_task_by_name_def intro: rinv_decide rinv_resolve_cancel
      split: option.splits prod.splits)

lemma rinv_claim_and_cancel:
  assumes "rinv U B W s"
  shows "rinv U B W (claim_and_cancel i s)"
proof -
  obtain x s1 where c: "claim_registered i s = (x, s1)" by fastforce
  then show ?thesis
    by (cases rule: claim_registered_cases)
      (use assms c in \<open>auto simp: claim_and_cancel_def intro: rinv_spawn_claimed(1)\<close>)
qed

lemma rinv_fold: "(\<And>x s. rinv U B W s \<Longrightarrow> rinv U B W (f x s)) \<Longrightarrow> rinv U B W s \<Longrightarrow> rinv U B W (fold f xs s)"
  by (induction xs arbitrary: s) auto

lemma rinv_cancel_all_claims: "rinv U B W s \<Longrightarrow> rinv U B W (cancel_all_claims s)"
  unfolding cancel_all_claims_def by (rule rinv_fold) (auto intro: rinv_claim_and_cancel)

lemma handle_live_probe:
  assumes "handle_live i n h t" and "probe_result h t = (h', t')"
  shows "handle_live i n h' t'" "tk_name t' = tk_name t" "tk_phase t' = tk_phase t"
    "tk_activity t' = tk_activity t"
proof -
  show more: "tk_name t' = tk_name t" "tk_phase t' = tk_phase t" "tk_activity t' = tk_activity t"
    using assms(2) by (auto simp: probe_result_def split: if_splits result_channel.splits)
  then have "wrapper_done t' = wrapper_done t" by (simp add: wrapper_done_def)
  then show "handle_live i n h' t'"
    using assms pending_result_probe(1)[OF assms(2)] more
    by (auto simp: handle_live_def probe_result_def split: if_splits result_channel.splits)
qed

lemma handle_live_load:
  assumes "handle_live i n h t" and "load_join h t = (h', t')"
  shows "handle_live i n h' t'" "tk_name t' = tk_name t" "tk_phase t' = tk_phase t"
    "tk_activity t' = tk_activity t" "\<not> tk_slot t'"
proof -
  show more: "tk_name t' = tk_name t" "tk_phase t' = tk_phase t" "tk_activity t' = tk_activity t"
    using assms(2) by (auto simp: load_join_def split: if_splits)
  then have "wrapper_done t' = wrapper_done t" by (simp add: wrapper_done_def)
  then show "handle_live i n h' t'" "\<not> tk_slot t'"
    using assms pending_result_probe(2)[OF assms(2)] more
    by (auto simp: handle_live_def load_join_def split: if_splits)
qed

lemma rinv_cleanup_completed:
  assumes inv: "rinv U B W s" and ready: "\<exists>t. fmlookup (rg_actors s) i = Some t \<and> wrapper_done t"
  shows "rinv U B W (cleanup_completed_task i s)"
proof (cases "claim_registered i s")
  case (Pair x s1)
  then show ?thesis
  proof (cases rule: claim_registered_cases)
    case (claimed e h)
    obtain t where t: "fmlookup (rg_actors s) i = Some t" "tk_name t = en_name e"
        "handle_live i (en_name e) (hd_join h) t" "fmlookup (rg_owners s) i = None"
        "fmlookup (rg_counts s) i = None" "i |\<notin>| rg_cancelled s"
      by (rule registered_facts[OF inv claimed(1,2)])
    obtain j t' where p: "probe_result (hd_join h) t = (j, t')" by fastforce
    note live = handle_live_probe[OF t(3) p]
    have "pending_result (hd_join h) t \<noteq> None" using t(1,3) ready by (auto simp: handle_live_def)
    then have rr: "result_ready (hd_join h) t = (True, j, t')"
      using p result_ready_iff[of "hd_join h" t] by (simp add: result_ready_def)
    have "rinv U B W (put_owner i (Joining (h\<lparr>hd_join := j\<rparr>) False False) (put_actor i t' s1))"
      by (rule rinv_claim[OF inv claimed(1,2) t(1), where f = False and j = j and t' = t'])
        (use t live ready rinvD(9)[OF inv] in \<open>simp_all add: claimed quiet_ops inc_with_name_def put_actor_def
           wrapper_done_def\<close>)
    moreover have "fmlookup (rg_actors s1) i = Some t"
      using t claimed by (simp add: inc_with_name_def)
    ultimately show ?thesis
      using Pair claimed rr by (simp add: cleanup_completed_task_def Let_def)
  qed (use inv Pair in \<open>simp add: cleanup_completed_task_def\<close>)
qed

section \<open>Joins\<close>

text \<open>A step of a removal owner that leaves membership alone.\<close>

lemma rinv_owner:
  assumes inv: "rinv U B W s" and T: "fmlookup (rg_tasks s) i = Some e"
    and w: "fmlookup (rg_owners s) i = Some w" and A: "fmlookup (rg_actors s) i = Some t"
    and fields: "rg_tasks s' = rg_tasks s" "rg_by_name s' = rg_by_name s" "rg_counts s' = rg_counts s"
      "rg_names s' = rg_names s" "rg_owners s' = fmupd i w' (rg_owners s)"
      "rg_actors s' = fmupd i t' (rg_actors s)" "rg_ready s' = rg_ready s"
      "rg_cancelled s' = rg_cancelled s" "rg_logical s' = rg_logical s" "rg_physical s' = rg_physical s"
      "rg_max s' = rg_max s" "rg_faults s' = rg_faults s" "rg_log s' = rg_log s"
    and same: "owner_res w' = owner_res w" "owner_tx w' = owner_tx w" "wrapper_done t \<longrightarrow> wrapper_done t'"
    and r: "(rg_reaper s' = rg_reaper s \<and> rg_reaps s' = rg_reaps s)
      \<or> (reaper_rec (rg_reaper s) i = None \<and> rg_reaps s' = finsert i (rg_reaps s)
          \<and> rg_reaper s' = register (rg_reaper s) (reservation_of i (en_name e)))"
    and life: "life s' i"
  shows "rinv U B W s'"
proof -
  note d = rinvD[OF inv]
  have reaper: "reaper_ok (rg_reaper s') \<and> (\<forall>j. j \<noteq> i \<longrightarrow> reaper_rec (rg_reaper s') j = reaper_rec (rg_reaper s) j
        \<and> (j |\<in>| rg_reaps s' \<longleftrightarrow> j |\<in>| rg_reaps s))
      \<and> cross_ok (rg_tasks s) (rg_reaper s') \<and> reaping (rg_reaper s') \<subseteq> insert i (reaping (rg_reaper s))
      \<and> reaper_res (rg_reaper s') = reaper_res (rg_reaper s)"
    using r
  proof
    assume new: "reaper_rec (rg_reaper s) i = None \<and> rg_reaps s' = finsert i (rg_reaps s)
        \<and> rg_reaper s' = register (rg_reaper s) (reservation_of i (en_name e))"
    then have none: "i \<notin> reaping (rg_reaper s)" by (simp add: reaping_def)
    have free: "\<not> reserves_name (rg_reaper s) (en_name e)"
    proof
      assume "reserves_name (rg_reaper s) (en_name e)"
      then obtain j x where "fmlookup (rp_records (rg_reaper s)) j = Some [x]" "rr_name x = en_name e"
        using reaper_ok_name[OF d(2), of "en_name e"] by (auto simp: reserves_name_def)
      then have "reaper_rec (rg_reaper s) j = Some x" "j = i"
        using d(3) T by (auto simp: reaper_rec_def cross_ok_def)
      with new show False by simp
    qed
    note reg = register_ok[OF d(2), of "reservation_of i (en_name e)"]
    have ok: "reaper_ok (rg_reaper s')" using reg(1) none free new by (simp add: reservation_of_def)
    have rec: "reaper_rec (rg_reaper s') = (reaper_rec (rg_reaper s))(i \<mapsto>
        \<lparr>rr_name = en_name e, rr_physical = None, rr_terminal = None, rr_release = i,
         rr_terminal_releases = None, rr_duplicate_releases = None, rr_poisoned = False\<rparr>)"
      using reg(2) none free new by (simp add: reservation_of_def)
    have "j = k" if "fmlookup (rg_tasks s) j = Some ej" "reaper_rec (rg_reaper s') k = Some x"
        "rr_name x = en_name ej" for j ej k x
    proof (cases "k = i")
      case True
      with rec that have "en_name ej = en_name e" by auto
      with that(1) T d(1) True show ?thesis by (metis idx_ok_def option.inject)
    next
      case False
      with rec that d(3) show ?thesis by (auto simp: cross_ok_def)
    qed
    then have "cross_ok (rg_tasks s) (rg_reaper s')" by (auto simp: cross_ok_def)
    moreover have "reaper_res (rg_reaper s') = reaper_res (rg_reaper s)"
      using none new d(2)
      by (simp add: reaper_res_def register_def reservation_of_def Let_def hm_vec_def reaper_rec_None
          fm_sum_upd fm_sum_drop_absent opt_mset_def)
    ultimately show ?thesis using ok rec new by (auto simp: reaping_def)
  qed (use d in auto)
  show ?thesis
  proof (rule rinv_at[OF inv, where i = i])
    show "same_at j s s'" if "j \<noteq> i" for j using that reaper fields by (simp add: same_at_def)
    have "i \<in> fset (fmdom (rg_tasks s))" using T by (simp add: fmdomI)
    with reaper have "fset (fmdom (rg_tasks s)) \<union> reaping (rg_reaper s')
        \<subseteq> fset (fmdom (rg_tasks s)) \<union> reaping (rg_reaper s)" by auto
    then show "cap_ok (rg_max s') (rg_tasks s') (rg_reaper s')"
      using cap_ok_mono[OF d(4)] finite_reaping[OF d(2)] fields by simp
    show "ready_ok (rg_ready s') (rg_actors s')" using ready_ok_put[OF d(5) A same(3)] fields by simp
    show "fresh_ok U (rg_actors s')" using d(6) A fields by (auto simp: fresh_ok_def)
    show "bundles_ok B (rg_tasks s') (rg_owners s') (rg_reaper s') (rg_log s')"
      using d(7) fields same reaper fm_sum_lookup[OF w, of owner_res] by (simp add: bundles_ok_def fm_sum_upd)
    show "senders_ok W (rg_tasks s') (rg_owners s') (rg_log s')"
      using d(8) fields same fm_sum_lookup[OF w, of owner_tx] by (simp add: senders_ok_def fm_sum_upd)
  qed (use d fields reaper life in simp_all)
qed

lemma joining_facts:
  assumes "rinv U B W s" and "fmlookup (rg_owners s) i = Some (Joining h f a)"
  obtains e t where "fmlookup (rg_tasks s) i = Some e" "en_state e = Removing i"
    "fmlookup (rg_actors s) i = Some t" "tk_name t = en_name e" "fmlookup (rg_counts s) i = Some 1"
    "fmlookup (rg_names s) i = Some (en_name e)" "i |\<notin>| rg_logical s" "i |\<notin>| rg_physical s"
    "hd_completion h = i"
    "join_ok i (en_name e) (hd_join h) f a (reaper_rec (rg_reaper s) i) (i |\<in>| rg_reaps s) t
       (i |\<in>| rg_cancelled s)"
  using rinvD(10)[OF assms(1), of i] assms(2)
  by (auto simp: life_def linv_def split: option.splits entry_state.splits)

lemma rinv_join_deadline:
  assumes inv: "rinv U B W s"
  shows "rinv U B W (join_deadline i s)"
proof (cases "\<exists>h. fmlookup (rg_owners s) i = Some (Joining h True False)")
  case True
  then obtain h where w: "fmlookup (rg_owners s) i = Some (Joining h True False)" by blast
  obtain e t where f: "fmlookup (rg_tasks s) i = Some e" "en_state e = Removing i"
    "fmlookup (rg_actors s) i = Some t" "tk_name t = en_name e" "fmlookup (rg_counts s) i = Some 1"
    "fmlookup (rg_names s) i = Some (en_name e)" "i |\<notin>| rg_logical s" "i |\<notin>| rg_physical s"
    "hd_completion h = i"
    "join_ok i (en_name e) (hd_join h) True False (reaper_rec (rg_reaper s) i) (i |\<in>| rg_reaps s) t
       (i |\<in>| rg_cancelled s)"
    by (rule joining_facts[OF inv w])
  then have j: "reaper_rec (rg_reaper s) i = None" "i |\<notin>| rg_reaps s" "i |\<in>| rg_cancelled s"
      "handle_live i (en_name e) (hd_join h) t"
    by (auto simp: join_ok_def)
  obtain h1 t1 where l: "load_join (hd_join h) t = (h1, t1)" by fastforce
  note live = handle_live_load[OF j(4) l]
  have wd: "wrapper_done t1 = wrapper_done t" "wrapper_done t \<longrightarrow> \<not> tk_activity t"
    using live(3) wrapper_done_phase done_idle[OF inv f(3)] by blast+
  have res: "ah_reservation h1 = Some (reservation_of i (en_name e))" "ah_logical h1 = None"
    using live(1) by (simp_all add: handle_live_def)
  show ?thesis
  proof (cases "ah_join h1")
    case True
    have ph: "tk_phase t1 \<noteq> Unspawned" using live(1) True by (auto simp: handle_live_def split: if_splits)
    let ?j = "h1\<lparr>ah_join := False, ah_reservation := None, ah_result := False, ah_ready := None,
                 ah_logical := Some (Inl JoinAborted)\<rparr>"
    let ?t = "t1\<lparr>tk_abort := True\<rparr>"
    have ab: "handle_abort (hd_join h) t = (Some (reservation_of i (en_name e)), ?j, ?t)"
      using l True res by (simp add: handle_abort_def)
    have rec: "reaper_rec (register (rg_reaper s) (reservation_of i (en_name e))) i = Some
        \<lparr>rr_name = en_name e, rr_physical = None, rr_terminal = None, rr_release = i,
         rr_terminal_releases = None, rr_duplicate_releases = None, rr_poisoned = False\<rparr>"
      using j(1) rinvD(2)[OF inv] reaper_rec_None[OF rinvD(2)[OF inv], of i]
      by (auto simp: register_def reservation_of_def Let_def reaper_rec_def hm_vec_def reaping_def
          split: option.splits list.splits)
    show ?thesis
      by (rule rinv_owner[OF inv f(1) w f(3), where t' = ?t and w' = "Joining (h\<lparr>hd_join := ?j\<rparr>) True True"])
        (use w f j ab live ph rec wd in \<open>simp_all add: join_deadline_def transfer_to_reaper_def put_actor_def Let_def
          reservation_of_def life_def linv_def join_ok_def phys_ok_def\<close>)
  next
    case False
    let ?j = "h1\<lparr>ah_logical := Some (Inl JoinAborted)\<rparr>"
    have ph: "tk_phase t1 = Unspawned" "\<not> tk_activity t1"
      using live(1,5) False by (auto simp: handle_live_def split: if_splits)
    have ab: "handle_abort (hd_join h) t = (None, ?j, t1)" using l False by (simp add: handle_abort_def)
    show ?thesis
      by (rule rinv_owner[OF inv f(1) w f(3), where t' = t1 and w' = "Joining (h\<lparr>hd_join := ?j\<rparr>) True True"])
        (use w f j ab live ph res wd False in \<open>simp_all add: join_deadline_def transfer_to_reaper_def put_actor_def Let_def
          life_def linv_def join_ok_def\<close>)
  qed
qed (use inv in \<open>auto simp: join_deadline_def split: option.splits removal_owner.splits bool.splits\<close>)

text \<open>The end of a join: the handle is dropped and the report waits for the state lock.\<close>

lemma complete_join_effect:
  assumes live: "handle_live i n h t" and ended: "tk_phase t = WrapperEnded x" and join: "ah_join h"
    and out: "complete_join h x t = (res, h', t')"
  shows "\<not> ah_join h'" "ah_reservation h' = None" "ah_logical h' = None" "\<not> tk_slot t'"
    "tk_phase t' = tk_phase t" "tk_activity t' = tk_activity t" "tk_name t' = tk_name t"
  using assms
  by (auto simp: complete_join_def result_ready_def probe_result_def handle_live_def Let_def
      split: task_end.splits option.splits result_channel.splits if_splits prod.splits)

lemma handle_poll_live:
  assumes live: "handle_live i n h t" and out: "handle_poll h t = (res, h', t')"
  shows "tk_name t' = tk_name t \<and> tk_phase t' = tk_phase t \<and> tk_activity t' = tk_activity t
    \<and> (if res = None then handle_live i n h' t'
       else task_ended t \<and> \<not> ah_join h' \<and> ah_reservation h' = None \<and> ah_logical h' = None \<and> \<not> tk_slot t')"
proof -
  obtain h1 t1 where l: "load_join h t = (h1, t1)" by fastforce
  obtain h2 t2 where p: "probe_result h1 t1 = (h2, t2)" by fastforce
  note l1 = handle_live_load[OF live l]
  note l2 = handle_live_probe[OF l1(1) p]
  have "ah_logical h = None" using live by (simp add: handle_live_def)
  then have poll: "handle_poll h t = (if \<not> ah_join h2 then (None, h2, t2)
      else case tk_phase t2 of
             WrapperEnded x \<Rightarrow> (case complete_join h2 x t2 of (res, h, t) \<Rightarrow> (Some res, h, t))
           | _ \<Rightarrow> (None, h2, t2))"
    using l p by (simp add: handle_poll_def)
  show ?thesis
  proof (cases "ah_join h2 \<and> task_ended t2")
    case True
    then obtain x where x: "tk_phase t2 = WrapperEnded x" by (auto simp: task_ended_def split: wrapper_phase.splits)
    obtain r h3 t3 where c: "complete_join h2 x t2 = (r, h3, t3)" by (metis surj_pair)
    have c': "res = Some r" "h' = h3" "t' = t3" using True x poll c out by simp_all
    with complete_join_effect[OF l2(1) x _ c] True x l1 l2 show ?thesis by (simp add: task_ended_def)
  next
    case False
    with poll out have "res = None" "h' = h2" "t' = t2"
      by (auto simp: task_ended_def split: if_splits wrapper_phase.splits)
    with l1 l2 show ?thesis by simp
  qed
qed

lemma classify_join_account:
  assumes "classify_join j b = (x, b')"
  shows "bundle_res b' = bundle_res b"
proof (cases j)
  case (Joined res)
  with assms show ?thesis
    by (cases res) (auto simp: classify_join_def outcome_of_def split: actor_exit.splits if_splits)
qed (use assms in \<open>simp add: classify_join_def\<close>)

lemma rinv_finish_removal:
  assumes inv: "rinv U B W s" and w: "fmlookup (rg_owners s) i = Some (Joining h0 f a)"
    and T: "fmlookup (rg_tasks s) i = Some e" "en_state e = Removing i"
    and A: "fmlookup (rg_actors s) i = Some t0" "tk_name t0 = en_name e"
    and C: "fmlookup (rg_counts s) i = Some 1" "fmlookup (rg_names s) i = Some (en_name e)"
      "i |\<notin>| rg_logical s" "i |\<notin>| rg_physical s"
    and h: "hd_completion h = i" "hd_done h = hd_done h0" "hd_cleanup h = hd_cleanup h0"
    and t: "tk_name t = tk_name t0" "tk_phase t = tk_phase t0" "wrapper_done t0 \<longrightarrow> wrapper_done t"
    and drop: "handle_drop (hd_join h) t = (transfer, t')"
    and rest: "tk_name t' = tk_name t0" "tk_phase t' = tk_phase t0" "tk_activity t' = tk_activity t0"
      "(transfer = None \<and> phys_ok (en_name e) (reaper_rec (rg_reaper s) i) (i |\<in>| rg_reaps s) t'
          (i |\<in>| rg_cancelled s) False)
       \<or> (transfer = Some (reservation_of i (en_name e)) \<and> reaper_rec (rg_reaper s) i = None
          \<and> tk_phase t' \<noteq> Unspawned)"
  shows "rinv U B W (finish_removal i h j (put_actor i t s))"
proof -
  obtain x b where c: "classify_join j (hd_cleanup h) = (x, b)" by fastforce
  let ?p = "\<lparr>pr_outcome = x, pr_done = hd_done h, pr_cleanup = b, pr_completion = hd_completion h\<rparr>"
  have wd: "wrapper_done t' = wrapper_done t0" "wrapper_done t0 \<longrightarrow> \<not> tk_activity t0"
    using wrapper_done_phase[OF rest(2)] done_idle[OF inv A(1)] by simp_all
  have rec: "reaper_rec (register (rg_reaper s) (reservation_of i (en_name e))) i = Some
      \<lparr>rr_name = en_name e, rr_physical = None, rr_terminal = None, rr_release = i,
       rr_terminal_releases = None, rr_duplicate_releases = None, rr_poisoned = False\<rparr>"
    if "reaper_rec (rg_reaper s) i = None"
    using that rinvD(2)[OF inv] reaper_rec_None[OF rinvD(2)[OF inv], of i]
    by (auto simp: register_def reservation_of_def Let_def reaper_rec_def hm_vec_def reaping_def
        split: option.splits list.splits)
  show ?thesis
    by (rule rinv_owner[OF inv T(1) w A(1), where t' = t' and w' = "Committing ?p"])
      (use T A C h t drop rest c wd rec classify_join_account[OF c] in
        \<open>auto simp: finish_removal_def into_report_parts_def put_actor_def transfer_to_reaper_def
          reservation_of_def life_def linv_def phys_ok_def\<close>)
qed

lemma handle_drop_settled:
  "\<not> ah_join h \<Longrightarrow> \<not> tk_slot t \<Longrightarrow>
     handle_drop h t = (None, if ah_result h then t\<lparr>tk_slot := False, tk_receiver := False\<rparr> else t\<lparr>tk_slot := False\<rparr>)"
  by (simp add: handle_drop_def load_join_def)

lemma quiet_task_cong:
  "tk_activity t' = tk_activity t \<Longrightarrow> tk_phase t' = tk_phase t \<Longrightarrow> quiet_task t' K = quiet_task t K"
  by (simp add: quiet_task_def task_ended_def)

lemma phys_ok_cong:
  "tk_activity t' = tk_activity t \<Longrightarrow> tk_phase t' = tk_phase t \<Longrightarrow> phys_ok n R J t' K f = phys_ok n R J t K f"
  using quiet_task_cong[of t' t K] by (auto simp: phys_ok_def split: option.splits)

lemma rinv_join_progress:
  assumes inv: "rinv U B W s"
  shows "rinv U B W (join_progress i s)"
proof (cases "\<exists>h f a. fmlookup (rg_owners s) i = Some (Joining h f a)")
  case True
  then obtain h f a where w: "fmlookup (rg_owners s) i = Some (Joining h f a)" by blast
  obtain e t where g: "fmlookup (rg_tasks s) i = Some e" "en_state e = Removing i"
    "fmlookup (rg_actors s) i = Some t" "tk_name t = en_name e" "fmlookup (rg_counts s) i = Some 1"
    "fmlookup (rg_names s) i = Some (en_name e)" "i |\<notin>| rg_logical s" "i |\<notin>| rg_physical s"
    "hd_completion h = i"
    "join_ok i (en_name e) (hd_join h) f a (reaper_rec (rg_reaper s) i) (i |\<in>| rg_reaps s) t
       (i |\<in>| rg_cancelled s)"
    by (rule joining_facts[OF inv w])
  obtain res j t1 where poll: "handle_poll (hd_join h) t = (res, j, t1)" by (metis surj_pair)
  let ?h = "h\<lparr>hd_join := j\<rparr>"
  note finish = rinv_finish_removal[OF inv w g(1-8), where h = ?h and t = t1]
  have step: "join_progress i s = (case res of
      None \<Rightarrow> (put_actor i t1 s)\<lparr>rg_owners := fmupd i (Joining ?h f a) (rg_owners s)\<rparr>
    | Some r \<Rightarrow> finish_removal i ?h (if a then ForceAborted else Joined r) (put_actor i t1 s))"
    using w g(3) poll by (cases res) (simp_all add: join_progress_def put_actor_def)
  show ?thesis
  proof (cases a)
    case False
    with g(10) have live: "handle_live i (en_name e) (hd_join h) t"
      "if f then i |\<in>| rg_cancelled s else wrapper_done t"
      "reaper_rec (rg_reaper s) i = None" "i |\<notin>| rg_reaps s"
      by (auto simp: join_ok_def)
    note p = handle_poll_live[OF live(1) poll]
    show ?thesis
    proof (cases res)
      case None
      have "rinv U B W ((put_actor i t1 s)\<lparr>rg_owners := fmupd i (Joining ?h f a) (rg_owners s)\<rparr>)"
        by (rule rinv_owner[OF inv g(1) w g(3), where t' = t1 and w' = "Joining ?h f a"])
          (use g w live p None False done_idle[OF inv g(3)] wrapper_done_phase[of t1 t] in
            \<open>simp_all add: put_actor_def life_def linv_def join_ok_def\<close>)
      with step None show ?thesis by simp
    next
      case (Some r)
      with p have q: "task_ended t" "\<not> ah_join j" "\<not> tk_slot t1" "tk_name t1 = tk_name t"
          "tk_phase t1 = tk_phase t" "tk_activity t1 = tk_activity t" by simp_all
      have "\<not> tk_activity t" using live(1) q(1)
        by (auto simp: handle_live_def wrapper_done_def task_ended_def split: wrapper_phase.splits if_splits)
      with q have quiet: "quiet_task t1 K" for K by (simp add: quiet_task_def task_ended_def)
      obtain t2 where d: "handle_drop (hd_join ?h) t1 = (None, t2)" "tk_name t2 = tk_name t1"
          "tk_phase t2 = tk_phase t1" "tk_activity t2 = tk_activity t1"
        using handle_drop_settled[OF q(2,3)] by (cases "ah_result j") auto
      have "phys_ok (en_name e) None False t2 K False" for K
        using quiet[of K] quiet_task_cong[OF d(4,3)] by (simp add: phys_ok_def)
      then have "rinv U B W (finish_removal i ?h (if a then ForceAborted else Joined r) (put_actor i t1 s))"
        by (intro finish[where transfer = None and t' = t2])
          (use g q d live in \<open>auto simp: wrapper_done_def\<close>)
      with step Some show ?thesis by simp
    qed
  next
    case True
    with g(10) have ab: "i |\<in>| rg_cancelled s" "ah_logical (hd_join h) = Some (Inl JoinAborted)"
        "\<not> ah_join (hd_join h)"
      by (auto simp: join_ok_def)
    with poll have p: "res = Some (Inl JoinAborted)" "j = (hd_join h)\<lparr>ah_logical := None\<rparr>" "t1 = t"
      by (auto simp: handle_poll_def)
    have "rinv U B W (finish_removal i ?h (if a then ForceAborted else Joined (Inl JoinAborted)) (put_actor i t1 s))"
    proof (cases "tk_slot t")
      case slot: True
      with g(10) True have v: "ah_reservation (hd_join h) = Some (reservation_of i (en_name e))"
          "reaper_rec (rg_reaper s) i = None" "tk_phase t \<noteq> Unspawned"
        by (auto simp: join_ok_def split: option.splits)
      obtain t2 where "handle_drop (hd_join ?h) t1 = (Some (reservation_of i (en_name e)), t2)"
          "tk_name t2 = tk_name t" "tk_phase t2 = tk_phase t" "tk_activity t2 = tk_activity t"
        using v slot ab p by (simp add: handle_drop_def load_join_def handle_abort_def)
      then show ?thesis
        by (intro finish[where transfer = "Some (reservation_of i (en_name e))" and t' = t2])
          (use g p v in auto)
    next
      case slot: False
      then obtain t2 where d: "handle_drop (hd_join ?h) t1 = (None, t2)" "tk_name t2 = tk_name t"
          "tk_phase t2 = tk_phase t" "tk_activity t2 = tk_activity t"
        using handle_drop_settled[of j t1] ab p by (cases "ah_result j") auto
      have "phys_ok (en_name e) (reaper_rec (rg_reaper s) i) (i |\<in>| rg_reaps s) t (i |\<in>| rg_cancelled s) False"
        using g(10) True ab(1) by (auto simp: join_ok_def phys_ok_def quiet_task_def split: option.splits)
      then have "phys_ok (en_name e) (reaper_rec (rg_reaper s) i) (i |\<in>| rg_reaps s) t2 (i |\<in>| rg_cancelled s) False"
        using phys_ok_cong[OF d(4,3)] by blast
      with d show ?thesis
        by (intro finish[where transfer = None and t' = t2]) (use g p in auto)
    qed
    with step p show ?thesis by simp
  qed
qed (use inv in \<open>auto simp: join_progress_def split: option.splits removal_owner.splits\<close>)

section \<open>Terminal reports\<close>

lemma rinv_commit_membership:
  assumes inv: "rinv U B W s"
  shows "rinv U B W (commit_membership i s)"
proof (cases "\<exists>p. fmlookup (rg_owners s) i = Some (Committing p)")
  case True
  then obtain p where w: "fmlookup (rg_owners s) i = Some (Committing p)" by blast
  note d = rinvD[OF inv]
  have "life s i" by (rule d)
  with w obtain e t where g: "fmlookup (rg_tasks s) i = Some e" "en_state e = Removing i"
      "fmlookup (rg_actors s) i = Some t" "tk_name t = en_name e" "fmlookup (rg_counts s) i = Some 1"
      "fmlookup (rg_names s) i = Some (en_name e)" "i |\<notin>| rg_logical s" "i |\<notin>| rg_physical s"
      "pr_completion p = i"
      "phys_ok (en_name e) (reaper_rec (rg_reaper s) i) (i |\<in>| rg_reaps s) t (i |\<in>| rg_cancelled s) False"
    by (auto simp: life_def linv_def split: option.splits entry_state.splits)
  have bn: "fmlookup (rg_by_name s) (en_name e) = Some i" using d(1) g(1) by (auto simp: idx_ok_def)
  let ?e = "fmdrop i (rg_tasks s) = fmempty"
  let ?s = "s\<lparr>rg_tasks := fmdrop i (rg_tasks s), rg_by_name := fmdrop (en_name e) (rg_by_name s),
      rg_owners := fmupd i (Reporting p (en_name e) i ?e) (rg_owners s)\<rparr>"
  have "rinv U B W ?s"
  proof (rule rinv_at[OF inv, where i = i])
    show "same_at j s ?s" if "j \<noteq> i" for j using that by (simp add: same_at_def)
    show "life ?s i" using g done_idle[OF inv g(3)] by (simp add: life_def linv_def)
    have "n \<noteq> en_name e" if "fmlookup (rg_tasks s) j = Some e'" "en_name e' = n" "j \<noteq> i" for j e' n
      using that d(1) g(1) by (metis idx_ok_def option.inject)
    then show "idx_ok (rg_tasks ?s) (rg_by_name ?s)"
      using d(1) bn by (auto simp: idx_ok_def)
    show "cross_ok (rg_tasks ?s) (rg_reaper ?s)" using d(3) by (auto simp: cross_ok_def)
    show "cap_ok (rg_max ?s) (rg_tasks ?s) (rg_reaper ?s)"
      using cap_ok_mono[OF d(4) _ finite_reaping[OF d(2)]] by (simp add: le_supI1 subset_iff)
    show "bundles_ok B (rg_tasks ?s) (rg_owners ?s) (rg_reaper ?s) (rg_log ?s)"
      using d(7) g(2) fm_sum_lookup[OF g(1), of entry_res] fm_sum_lookup[OF w, of owner_res]
      by (simp add: bundles_ok_def fm_sum_upd entry_res_def)
    show "senders_ok W (rg_tasks ?s) (rg_owners ?s) (rg_log ?s)"
      using d(8) g(2) fm_sum_lookup[OF g(1), of entry_tx] fm_sum_lookup[OF w, of owner_tx]
      by (simp add: senders_ok_def fm_sum_upd entry_tx_def)
  qed (use d in simp_all)
  moreover have "commit_membership i s = ?s"
    using w g(1,2) bn by (simp add: commit_membership_def)
  ultimately show ?thesis by simp
qed (use inv in \<open>auto simp: commit_membership_def split: option.splits removal_owner.splits\<close>)

lemma fold_submit_fields [simp]:
  "fold submit_bundle bs s = s\<lparr>rg_log := rg_log s @ map RgSubmitted bs\<rparr>"
  by (induction bs arbitrary: s) (auto simp: submit_bundle_def rg_emit_def bundle_submit_def)

lemma log_submitted [simp]:
  "log_res (map RgSubmitted bs) = mset (map bundle_res bs)" "log_tx (map RgSubmitted bs) = {#}"
  by (induction bs) auto

lemma deliver_fields:
  assumes "deliver_or_attach_rejection done' x b s = (b', s')"
  shows "\<exists>l. s' = s\<lparr>rg_log := rg_log s @ l\<rparr> \<and> log_res l = {#} \<and> log_tx l = opt_mset done'
    \<and> bundle_res b' = bundle_res b"
proof (cases done')
  case None
  with assms show ?thesis
    by (intro exI[of _ "[]"]) (auto simp: deliver_or_attach_rejection_def opt_mset_def)
next
  case (Some tx)
  show ?thesis
  proof (cases "tx |\<in>| rg_live_rx s")
    case True
    with assms Some show ?thesis
      by (intro exI[of _ "[RgDelivered tx x]"]) (auto simp: deliver_or_attach_rejection_def opt_mset_def rg_emit_def)
  next
    case False
    with assms Some show ?thesis
      by (intro exI[of _ "[RgUndelivered tx x]"]) (auto simp: deliver_or_attach_rejection_def opt_mset_def rg_emit_def)
  qed
qed

lemma rinv_finish_report:
  assumes inv: "rinv U B W s"
  shows "rinv U B W (finish_report i s)"
proof (cases "\<exists>p n l e. fmlookup (rg_owners s) i = Some (Reporting p n l e)")
  case True
  then obtain p n l em where w: "fmlookup (rg_owners s) i = Some (Reporting p n l em)" by blast
  note d = rinvD[OF inv]
  have "life s i" by (rule d)
  with w obtain t where g: "fmlookup (rg_tasks s) i = None" "fmlookup (rg_actors s) i = Some t"
      "n = tk_name t" "l = i" "pr_completion p = i" "fmlookup (rg_counts s) i = Some 1"
      "fmlookup (rg_names s) i = Some n" "i |\<notin>| rg_logical s" "i |\<notin>| rg_physical s"
      "phys_ok n (reaper_rec (rg_reaper s) i) (i |\<in>| rg_reaps s) t (i |\<in>| rg_cancelled s) False"
    by (auto simp: life_def linv_def split: option.splits entry_state.splits removal_owner.splits)
  let ?s0 = "rg_publish (finished_event i n (pr_outcome p)) (s\<lparr>rg_owners := fmdrop i (rg_owners s)\<rparr>)"
  obtain b s1 where dv: "deliver_or_attach_rejection (pr_done p) (pr_outcome p) (pr_cleanup p) ?s0 = (b, s1)"
    by fastforce
  obtain l1 where s1: "s1 = ?s0\<lparr>rg_log := rg_log ?s0 @ l1\<rparr>" "log_res l1 = {#}"
      "log_tx l1 = opt_mset (pr_done p)" "bundle_res b = bundle_res (pr_cleanup p)"
    using deliver_fields[OF dv] by blast
  obtain bs ls r' where at: "attach_terminal (rg_reaper s) i b (Some i) i = (bs, ls, r')" by (metis surj_pair)
  have R: "reaper_rec (rg_reaper s) i = None \<or> (\<exists>x. reaper_rec (rg_reaper s) i = Some x \<and> rr_terminal x = None)"
    using g(10) by (auto simp: phys_ok_def split: option.splits)
  note eff = attach_terminal_effect[OF d(2) R at]
  obtain l2 where fin: "finish_report i s = s\<lparr>rg_owners := fmdrop i (rg_owners s), rg_reaper := r',
      rg_counts := fmdrop i (rg_counts s), rg_names := fmdrop i (rg_names s),
      rg_logical := finsert i (rg_logical s), rg_physical := rg_physical s |\<union>| fset_of_list ls,
      rg_log := rg_log s @ l2\<rparr>" "log_res l2 = mset (map bundle_res bs)" "log_tx l2 = opt_mset (pr_done p)"
  proof -
    let ?l = "[RgPublished (finished_event i n (pr_outcome p))] @ l1
        @ [RgPublished (with_id i (with_task n (event_new TaskRemoved)))] @ map RgSubmitted bs
        @ (if fmdrop i (rg_counts s) = fmempty then [RgDrained] else []) @ (if em then [RgEmptied] else [])"
    have "finish_report i s = s\<lparr>rg_owners := fmdrop i (rg_owners s), rg_reaper := r',
      rg_counts := fmdrop i (rg_counts s), rg_names := fmdrop i (rg_names s),
      rg_logical := finsert i (rg_logical s), rg_physical := rg_physical s |\<union>| fset_of_list ls,
      rg_log := rg_log s @ ?l\<rparr>"
      using w g(4-6) dv s1(1) at
      by (auto simp: finish_report_def report_outcome_def reaper_outcome_def pending_dec_def complete_logical_def
          rg_publish_def rg_emit_def)
    then show ?thesis using that[of ?l] s1 by auto
  qed
  have "rinv U B W (finish_report i s)"
    unfolding fin(1)
  proof (rule rinv_at[OF inv, where i = i], goal_cases)
    case (1 j)
    then show ?case using eff(3,4) by (auto simp: same_at_def fset_of_list_elem split: if_splits)
  next
    case 2
    have "(i |\<in>| rg_physical s |\<union>| fset_of_list ls) = (reaper_rec r' i = None)"
      using g(9) eff(4) by (auto simp: fset_of_list_elem)
    moreover have "phys_ok n (reaper_rec r' i) (i |\<in>| rg_reaps s) t (i |\<in>| rg_cancelled s) True"
    proof (cases "reaper_rec (rg_reaper s) i")
      case (Some x)
      obtain y where "record_ok i y" "reaper_rec (rg_reaper s) i = Some y"
        by (rule reaper_recE[OF d(2), of i]) (use Some in \<open>auto simp: reaping_def\<close>)
      with Some have "rr_release x = i" by (simp add: record_ok_def)
      with Some g(10) eff(3) show ?thesis by (auto simp: phys_ok_def)
    qed (use g(10) eff(3) in \<open>auto simp: phys_ok_def\<close>)
    ultimately show ?case using g done_idle[OF inv g(2)] by (simp add: life_def linv_def)
  next
    case 5
    then show ?case using cross_ok_same_names[OF d(3) eff(2)] by simp
  next
    case 6
    then show ?case
      using cap_ok_mono[OF d(4) _ finite_reaping[OF d(2)]] same_names_reaping[OF eff(2)] by auto
  next
    case 9
    let ?X = "fm_sum entry_res (rg_tasks s) + fm_sum owner_res (fmdrop i (rg_owners s)) + log_res (rg_log s)"
    have "?X + (reaper_res r' + log_res l2) = ?X + (reaper_res (rg_reaper s) + {#bundle_res (pr_cleanup p)#})"
      using eff(5) s1(4) fin(2) by simp
    moreover have "?X + (reaper_res (rg_reaper s) + {#bundle_res (pr_cleanup p)#}) = B"
      using d(7) fm_sum_lookup[OF w, of owner_res] by (simp add: bundles_ok_def ac_simps)
    ultimately have "?X + (reaper_res r' + log_res l2) = B" by simp
    moreover have "fm_sum entry_res (rg_tasks s) + fm_sum owner_res (fmdrop i (rg_owners s)) + reaper_res r'
        + log_res (rg_log s @ l2) = ?X + (reaper_res r' + log_res l2)" by (simp add: ac_simps)
    ultimately show ?case by (simp add: bundles_ok_def)
  next
    case 10
    then show ?case using d(8) fin(3) fm_sum_lookup[OF w, of owner_tx] by (simp add: senders_ok_def ac_simps)
  qed (use d eff in simp_all)
  then show ?thesis .
qed (use inv in \<open>auto simp: finish_report_def split: option.splits removal_owner.splits\<close>)

lemma rinv_reap_done:
  assumes inv: "rinv U B W s"
  shows "rinv U B W (reap_done i s)"
proof (cases "i |\<in>| rg_reaps s \<and> (\<exists>t. fmlookup (rg_actors s) i = Some t \<and> task_ended t)")
  case True
  then obtain t where t: "fmlookup (rg_actors s) i = Some t" "task_ended t" and J: "i |\<in>| rg_reaps s" by blast
  note d = rinvD[OF inv]
  have life: "life s i" by (rule d)
  have "\<exists>x. reaper_rec (rg_reaper s) i = Some x \<and> rr_physical x = None
      \<and> (\<forall>rel. rr_terminal_releases x = Some rel \<longrightarrow>
           rel = \<lparr>tr_state = Some (rr_release x), tr_report = rr_release x\<rparr>)"
    using life t(1) J by (auto simp: life_def linv_def phys_ok_def join_ok_def
        split: option.splits entry_state.splits removal_owner.splits if_splits)
  then obtain x where x: "reaper_rec (rg_reaper s) i = Some x" "rr_physical x = None"
      "\<forall>rel. rr_terminal_releases x = Some rel \<longrightarrow>
         rel = \<lparr>tr_state = Some (rr_release x), tr_report = rr_release x\<rparr>"
    by blast
  obtain y where "record_ok i y" "reaper_rec (rg_reaper s) i = Some y"
    by (rule reaper_recE[OF d(2), of i]) (use x in \<open>auto simp: reaping_def\<close>)
  with x have rel: "rr_release x = i" by (simp add: record_ok_def)
  obtain bs ls r' where out: "reap_finished (rg_reaper s) i i (unat i) (tk_poisoned t) = (bs, ls, r')"
    by (metis surj_pair)
  have eff: "reaper_ok r'" "same_names (rg_reaper s) r'" "reaper_rec r' = (reaper_rec (rg_reaper s))(i :=
       (if rr_terminal x = None then Some (x\<lparr>rr_physical := Some (unat i), rr_poisoned := tk_poisoned t\<rparr>) else None))"
      "set ls = (if rr_terminal x = None then {} else {i})"
      "reaper_res r' + mset (map bundle_res bs) = reaper_res (rg_reaper s)"
    using reap_finished_effect[OF d(2) x(1,2) _ out] x(3) rel by simp_all
  let ?s = "s\<lparr>rg_reaps := rg_reaps s |-| {|i|}, rg_reaper := r', rg_log := rg_log s @ map RgSubmitted bs,
      rg_physical := rg_physical s |\<union>| fset_of_list ls\<rparr>"
  have step: "reap_done i s = ?s"
    using t J out by (auto simp: reap_done_def reaper_outcome_def task_ended_def)
  have "\<not> tk_activity t"
    using life t by (auto simp: life_def linv_def wrapper_done_def task_ended_def split: wrapper_phase.splits)
  with t(2) have quiet: "quiet_task t K" for K by (simp add: quiet_task_def)
  have "rinv U B W ?s"
  proof (rule rinv_at[OF inv, where i = i], goal_cases)
    case (1 j)
    then show ?case using eff(3,4) by (auto simp: same_at_def fset_of_list_elem split: if_splits)
  next
    case 2
    have P: "(i |\<in>| rg_physical s |\<union>| fset_of_list ls) = (i |\<in>| rg_physical s \<or> rr_terminal x \<noteq> None)"
      using eff(4) by (auto simp: fset_of_list_elem)
    have phys: "phys_ok n (reaper_rec r' i) False t K f"
      if "phys_ok n (reaper_rec (rg_reaper s) i) True t K f" for n K f
      using that x eff(3) quiet[of K] by (auto simp: phys_ok_def)
    have join: "join_ok i n h f a (reaper_rec r' i) False t K"
      if "join_ok i n h f a (reaper_rec (rg_reaper s) i) True t K" for n h f a K
      using that phys[of n K False] x eff(3) by (auto simp: join_ok_def phys_ok_def split: if_splits option.splits)
    have jt: "rr_terminal x = None"
      if "join_ok i n h f a (reaper_rec (rg_reaper s) i) True t K" for n h f a K
      using that x by (auto simp: join_ok_def phys_ok_def split: if_splits option.splits)
    show ?case
    proof (cases "fmlookup (rg_tasks s) i")
      case None
      with life t(1) J x eff(3) P phys show ?thesis
        by (auto simp: life_def linv_def phys_ok_def split: option.splits removal_owner.splits)
    next
      case (Some e)
      with life t(1) J x have "en_state e = Removing i"
        by (auto simp: life_def linv_def split: entry_state.splits)
      moreover from this Some life t(1) J x jt have "rr_terminal x = None"
        by (auto simp: life_def linv_def phys_ok_def split: option.splits removal_owner.splits)
      ultimately show ?thesis using Some life t(1) J x P phys join
        by (auto simp: life_def linv_def split: option.splits removal_owner.splits)
    qed
  next
    case 5
    then show ?case using cross_ok_same_names[OF d(3) eff(2)] by simp
  next
    case 6
    then show ?case
      using cap_ok_mono[OF d(4) _ finite_reaping[OF d(2)]] same_names_reaping[OF eff(2)] by auto
  next
    case 9
    let ?X = "fm_sum entry_res (rg_tasks s) + fm_sum owner_res (rg_owners s) + log_res (rg_log s)"
    have "?X + (reaper_res r' + mset (map bundle_res bs)) = B"
      using d(7) eff(5) by (simp add: bundles_ok_def ac_simps)
    moreover have "fm_sum entry_res (rg_tasks s) + fm_sum owner_res (rg_owners s) + reaper_res r'
        + log_res (rg_log s @ map RgSubmitted bs) = ?X + (reaper_res r' + mset (map bundle_res bs))"
      by (simp add: ac_simps)
    ultimately show ?case by (simp add: bundles_ok_def)
  next
    case 10
    then show ?case using d(8) by (simp add: senders_ok_def)
  qed (use d eff in simp_all)
  with step show ?thesis by simp
qed (use inv in \<open>auto simp: reap_done_def task_ended_def split: option.splits wrapper_phase.splits\<close>)

text \<open>Every background move keeps the invariant.\<close>

lemma rinv_bg_step:
  assumes inv: "rinv U B W s"
  shows "rinv U B W (bg_step m s)"
proof (cases m)
  case (ActorEnds i outcome)
  show ?thesis
  proof (cases "fmlookup (rg_actors s) i")
    case (Some t)
    show ?thesis
    proof (cases "tk_phase t = WrapperRunning \<and> \<not> tk_activity t")
      case True
      then have "rinv U B W (put_actor i (wrapper_send outcome t) s)"
        using rinv_put_actor[OF inv Some] task_le_send by blast
      from rinv_ready_append[OF this, of i "wrapper_send outcome t"] show ?thesis
        using ActorEnds Some True wrapper_done_send by (simp add: put_actor_def)
    qed (use ActorEnds Some inv in auto)
  qed (use ActorEnds inv in simp)
next
  case CancelRuntime
  with inv show ?thesis by (simp add: rinv_def life_def)
next
  case (DropReceiver tx)
  with inv show ?thesis by (simp add: rinv_def life_def)
qed (use inv in \<open>auto intro: rinv_actor_move task_le_begin task_le_end task_le_exit task_le_abort
  rinv_join_progress rinv_join_deadline rinv_commit_membership rinv_finish_report rinv_reap_done
  rinv_cancel_all_claims\<close>)

lemma rinv_bg_run: "rinv U B W s \<Longrightarrow> rinv U B W (bg_run ms s)"
  unfolding bg_run_def by (rule rinv_fold) (rule rinv_bg_step)

end
