(* ===== verification/Registry_Admitted.thy ===== *)
theory Registry_Admitted
  imports Registry_Preservation
begin

text \<open>Admission keeps the invariant of the registry, and so does every step of its listener.\<close>

section \<open>Insertion\<close>

lemma limit_room:
  assumes "registered_limit_exceeded s (hm_len (rg_tasks s)) k = None" and "rg_max s = Some limit"
  shows "hm_len (rg_tasks s) + rp_active (rg_reaper s) + k \<le> limit"
  using assms by (auto simp: registered_limit_exceeded_def checked_add_usize_def split: if_splits)

definition room :: "registry \<Rightarrow> nat \<Rightarrow> bool" where
  "room s k \<longleftrightarrow> (\<forall>limit. rg_max s = Some limit \<longrightarrow> hm_len (rg_tasks s) + rp_active (rg_reaper s) + k \<le> limit)"

definition name_free :: "registry \<Rightarrow> name \<Rightarrow> bool" where
  "name_free s n \<longleftrightarrow> fmlookup (rg_by_name s) n = None \<and> \<not> reserves_name (rg_reaper s) n"

lemma fresh_facts:
  assumes "rinv U B W s" and "i \<notin> U"
  shows "fmlookup (rg_actors s) i = None" "fmlookup (rg_tasks s) i = None" "fmlookup (rg_owners s) i = None"
    "fmlookup (rg_counts s) i = None" "fmlookup (rg_names s) i = None" "reaper_rec (rg_reaper s) i = None"
    "i |\<notin>| rg_reaps s" "i |\<notin>| rg_cancelled s" "i |\<notin>| rg_logical s" "i |\<notin>| rg_physical s"
proof -
  show a: "fmlookup (rg_actors s) i = None" using rinvD(6)[OF assms(1)] assms(2) by (simp add: fresh_ok_def)
  have "life s i" by (rule rinvD[OF assms(1)])
  with a show "fmlookup (rg_tasks s) i = None" "fmlookup (rg_owners s) i = None"
    "fmlookup (rg_counts s) i = None" "fmlookup (rg_names s) i = None" "reaper_rec (rg_reaper s) i = None"
    "i |\<notin>| rg_reaps s" "i |\<notin>| rg_cancelled s" "i |\<notin>| rg_logical s" "i |\<notin>| rg_physical s"
    by (simp_all add: life_def linv_def)
qed

lemma handle_live_new: "handle_live i n (actor_handle_new i n) (scheduled_actor_new n)"
  by (simp add: handle_live_def actor_handle_new_def scheduled_actor_new_def reservation_of_def wrapper_done_def)

lemma rinv_insert_entry:
  assumes inv: "rinv U B W s" and new: "pg_id p \<notin> U" and free: "name_free s (pg_name p)" and room: "room s 1"
    and p: "pg_join p = actor_handle_new (pg_id p) (pg_name p)" "pg_completion p = pg_id p"
  shows "rinv (insert (pg_id p) U) (B + {#bundle_res (pg_cleanup p)#}) (W + opt_mset (pg_done p)) (insert_entry p s)"
proof -
  let ?i = "pg_id p" and ?n = "pg_name p" and ?s = "insert_entry p s"
  note d = rinvD[OF inv] and f = fresh_facts[OF inv new]
  have other: "rr_name x \<noteq> ?n" if "reaper_rec (rg_reaper s) j = Some x" for j x
  proof
    assume "rr_name x = ?n"
    with reaper_ok_record[OF d(2) reaper_rec_lookup[OF d(2) that]] free show False
      by (auto simp: name_free_def reserves_name_def)
  qed
  have nb: "en_name e \<noteq> ?n" if "fmlookup (rg_tasks s) j = Some e" for j e
  proof
    assume "en_name e = ?n"
    with that d(1) have "fmlookup (rg_by_name s) ?n = Some j" by (auto simp: idx_ok_def)
    with free show False by (simp add: name_free_def)
  qed
  show ?thesis
  proof (rule rinv_at[OF inv, where i = ?i], goal_cases)
    case (1 j)
    then show ?case by (simp add: same_at_def insert_entry_def)
  next
    case 2
    have "\<not> wrapper_done (scheduled_actor_new ?n)" by (simp add: wrapper_done_def scheduled_actor_new_def)
    then show ?case using f p handle_live_new[of ?i ?n]
      by (simp add: life_def linv_def insert_entry_def) (simp add: scheduled_actor_new_def)
  next
    case 3
    have "fmlookup (rg_by_name s) n \<noteq> Some ?i" for n
      using d(1) f(2) by (auto simp: idx_ok_def)
    then show ?case using d(1) f(2) nb free by (auto simp: idx_ok_def insert_entry_def name_free_def)
  next
    case 4
    then show ?case using d(2) by (simp add: insert_entry_def)
  next
    case 5
    then show ?case using d(3) other by (auto simp: cross_ok_def insert_entry_def)
  next
    case 6
    have "card (insert ?i (fset (fmdom (rg_tasks s)) \<union> reaping (rg_reaper s)))
        \<le> Suc (hm_len (rg_tasks s) + rp_active (rg_reaper s))"
      using card_insert_le_m1[of _ _ ?i] card_Un_le[of "fset (fmdom (rg_tasks s))" "reaping (rg_reaper s)"]
        card_reaping[OF d(2)]
      by (metis (no_types, lifting) card_insert_if finite_Un finite_fset finite_reaping[OF d(2)] hm_len_def
          fcard.rep_eq le_SucI Suc_le_mono)
    then show ?case using room by (auto simp: cap_ok_def insert_entry_def room_def intro: order_trans)
  next
    case 7
    then show ?case using d(5) f(1) by (auto simp: ready_ok_def insert_entry_def)
  next
    case 8
    then show ?case using d(6) by (simp add: fresh_ok_def insert_entry_def)
  next
    case 9
    then show ?case using d(7) f(2)
      by (simp add: bundles_ok_def insert_entry_def fm_sum_upd fm_sum_drop_absent entry_res_def ac_simps)
  next
    case 10
    then show ?case using d(8) f(2)
      by (simp add: senders_ok_def insert_entry_def fm_sum_upd fm_sum_drop_absent entry_tx_def ac_simps)
  next
    case 11
    then show ?case using d(9) by (simp add: insert_entry_def)
  qed
qed

section \<open>Spawning\<close>

definition unspawned :: "registry \<Rightarrow> task_id \<Rightarrow> bool" where
  "unspawned s i \<longleftrightarrow> (\<exists>t. fmlookup (rg_actors s) i = Some t \<and> tk_phase t = Unspawned)"

lemma spawn_join_ok:
  "join_ok i n h f a R J t K \<Longrightarrow> tk_phase t = Unspawned \<Longrightarrow> join_ok i n h f a R J (spawn_actor t) K"
  by (auto simp: join_ok_def spawn_actor_def handle_live_def phys_ok_def wrapper_done_def pending_result_def
      split: option.splits if_splits)

lemma spawn_phys_ok:
  "phys_ok n R J t K f \<Longrightarrow> tk_phase t = Unspawned \<Longrightarrow> phys_ok n R J (spawn_actor t) K f"
  by (auto simp: phys_ok_def spawn_actor_def quiet_task_def task_ended_def split: option.splits)

lemma spawn_live:
  "handle_live i n h t \<Longrightarrow> tk_phase t = Unspawned \<Longrightarrow> handle_live i n h (spawn_actor t)"
  by (auto simp: handle_live_def spawn_actor_def wrapper_done_def)

lemma rinv_schedule_actor:
  assumes inv: "rinv U B W s" and un: "unspawned s (pg_id p)"
  shows "rinv U B W (schedule_actor p s)"
proof -
  let ?i = "pg_id p"
  obtain t where t: "fmlookup (rg_actors s) ?i = Some t" "tk_phase t = Unspawned"
    using un by (auto simp: unspawned_def)
  have life: "life s ?i" by (rule rinvD[OF inv])
  have nd: "\<not> wrapper_done (spawn_actor t)" "\<not> wrapper_done t" "tk_name (spawn_actor t) = tk_name t"
    using t by (simp_all add: wrapper_done_def spawn_actor_def)
  have "rinv U B W (put_actor ?i (spawn_actor t) s)"
  proof (rule rinv_at[OF inv, where i = ?i], goal_cases)
    case (1 j)
    then show ?case by (simp add: same_at_def put_actor_def)
  next
    case 2
    then show ?case using life t nd spawn_join_ok[OF _ t(2)] spawn_phys_ok[OF _ t(2)] spawn_live[OF _ t(2)]
      by (auto simp: life_def linv_def put_actor_def split: option.splits entry_state.splits removal_owner.splits)
  next
    case 7
    then show ?case using ready_ok_put[OF rinvD(5)[OF inv] t(1)] nd by (simp add: put_actor_def)
  next
    case 8
    then show ?case using rinvD(6)[OF inv] t(1) by (auto simp: fresh_ok_def put_actor_def)
  qed (use rinvD[OF inv] in \<open>simp_all add: put_actor_def\<close>)
  then show ?thesis using t rinv_emit_quiet by (simp add: schedule_actor_def)
qed

lemma phase_ops:
  "load_join h t = (h', t') \<Longrightarrow> tk_phase t' = tk_phase t"
  "probe_result h t = (h', t') \<Longrightarrow> tk_phase t' = tk_phase t"
  "handle_abort h t = (v, h', t') \<Longrightarrow> tk_phase t' = tk_phase t"
  by (auto simp: handle_abort_def load_join_def probe_result_def
      split: if_splits option.splits result_channel.splits)

lemma phase_complete_join: "complete_join h x t = (r, h', t') \<Longrightarrow> tk_phase t' = tk_phase t"
  by (auto simp: complete_join_def result_ready_def Let_def dest!: phase_ops(2)
      split: task_end.splits prod.splits option.splits)

lemma phase_poll: "handle_poll h t = (r, h', t') \<Longrightarrow> tk_phase t' = tk_phase t"
  by (auto simp: handle_poll_def Let_def dest!: phase_ops(1,2) phase_complete_join
      split: option.splits prod.splits if_splits wrapper_phase.splits)

lemma phase_drop: "handle_drop h t = (v, t') \<Longrightarrow> tk_phase t' = tk_phase t"
  by (auto simp: handle_drop_def Let_def dest!: phase_ops(1,3) split: prod.splits if_splits)

text \<open>No move of another task spawns an actor.\<close>

lemma unspawned_actors: "rg_actors s' = rg_actors s \<Longrightarrow> unspawned s' i = unspawned s i"
  by (simp add: unspawned_def)

lemma unspawned_put:
  "unspawned s i \<Longrightarrow> fmlookup (rg_actors s) k = Some t \<Longrightarrow>
     tk_phase t = Unspawned \<longrightarrow> tk_phase t' = Unspawned \<Longrightarrow> unspawned (put_actor k t' s) i"
  by (auto simp: unspawned_def put_actor_def)

lemma unspawned_actor_move:
  "unspawned s i \<Longrightarrow> (\<And>t. guard t \<Longrightarrow> tk_phase t = Unspawned \<Longrightarrow> tk_phase (f t) = Unspawned) \<Longrightarrow>
     unspawned (actor_move k guard f s) i"
  by (auto simp: actor_move_def intro: unspawned_put split: option.splits)

lemma actors_claim:
  "claim_registered i s = (x, s') \<Longrightarrow> rg_actors s' = rg_actors s"
  by (auto simp: claim_registered_def inc_with_name_def Let_def split: option.splits entry_state.splits)

lemma actors_quiet [simp]:
  "rg_actors (decide x s) = rg_actors s" "rg_actors (rg_publish e s) = rg_actors s"
  "rg_actors (submit_bundle b s) = rg_actors s" "rg_actors (rg_emit y s) = rg_actors s"
  "rg_actors (cancel_token i s) = rg_actors s" "rg_actors (spawn_join_report i h s) = rg_actors s"
  "rg_actors (transfer_to_reaper v s) = rg_actors s"
  by (simp_all add: quiet_ops submit_bundle_def spawn_join_report_def transfer_to_reaper_def split: option.splits)

lemma actors_claim_and_cancel [simp]: "rg_actors (claim_and_cancel i s) = rg_actors s"
  by (auto simp: claim_and_cancel_def dest: actors_claim split: prod.splits option.splits)

lemma actors_cancel_all [simp]: "rg_actors (cancel_all_claims s) = rg_actors s"
proof -
  have "rg_actors (fold claim_and_cancel xs s) = rg_actors s" for xs
    by (induction xs arbitrary: s) auto
  then show ?thesis by (simp add: cancel_all_claims_def)
qed

lemma actors_deliver:
  "deliver_or_attach_rejection done' x b s = (b', s') \<Longrightarrow> rg_actors s' = rg_actors s"
  by (auto simp: deliver_or_attach_rejection_def split: option.splits if_splits)

lemma actors_reports [simp]:
  "rg_actors (reaper_outcome out s) = rg_actors s" "rg_actors (pending_dec i s) = rg_actors s"
  "rg_actors (complete_logical l s) = rg_actors s"
  by (auto simp: reaper_outcome_def pending_dec_def complete_logical_def Let_def
      split: prod.splits option.splits)

lemma actors_finish [simp]:
  "rg_actors (finish_report i s) = rg_actors s" "rg_actors (reap_done i s) = rg_actors s"
  "rg_actors (finish_without_membership i p s) = rg_actors s"
  by (auto simp: finish_report_def report_outcome_def reap_done_def finish_without_membership_def
      retain_terminal_def Let_def dest: actors_deliver
      split: option.splits removal_owner.splits prod.splits)

lemma actors_commit [simp]: "rg_actors (commit_membership i s) = rg_actors s"
  by (auto simp: commit_membership_def Let_def
      split: option.splits removal_owner.splits entry_state.splits)

lemma unspawned_finish_removal:
  "unspawned s i \<Longrightarrow> unspawned (finish_removal k h j s) i"
  by (auto simp: finish_removal_def into_report_parts_def unspawned_def put_actor_def rg_check_def
      dest!: phase_drop split: option.splits prod.splits)

lemma unspawned_join_progress: "unspawned s i \<Longrightarrow> unspawned (join_progress k s) i"
proof (cases "\<exists>h f a t. fmlookup (rg_owners s) k = Some (Joining h f a) \<and> fmlookup (rg_actors s) k = Some t")
  case True
  assume un: "unspawned s i"
  from True obtain h f a t where w: "fmlookup (rg_owners s) k = Some (Joining h f a)"
      "fmlookup (rg_actors s) k = Some t" by blast
  obtain res j t1 where p: "handle_poll (hd_join h) t = (res, j, t1)" by (metis surj_pair)
  have "unspawned (put_actor k t1 s) i" using unspawned_put[OF un w(2)] phase_poll[OF p] by simp
  then have "unspawned ((put_actor k t1 s)\<lparr>rg_owners := x\<rparr>) i" "unspawned (finish_removal k h' r (put_actor k t1 s)) i"
    for x h' r by (auto simp: unspawned_def intro!: unspawned_finish_removal[unfolded unspawned_def])
  with w p show ?thesis by (cases res) (auto simp: join_progress_def Let_def)
qed (auto simp: join_progress_def split: option.splits removal_owner.splits)

lemma unspawned_join_deadline: "unspawned s i \<Longrightarrow> unspawned (join_deadline k s) i"
  by (auto simp: join_deadline_def unspawned_def put_actor_def Let_def transfer_to_reaper_def
      dest!: phase_ops(3) split: option.splits removal_owner.splits bool.splits prod.splits)

lemma unspawned_bg_step:
  assumes "unspawned s i"
  shows "unspawned (bg_step m s) i"
proof (cases m)
  case (ActorEnds k outcome)
  with assms show ?thesis by (auto simp: unspawned_def put_actor_def split: option.splits)
next
  case (JoinProgress k)
  with assms show ?thesis by (simp add: unspawned_join_progress)
next
  case (JoinDeadline k)
  with assms show ?thesis by (simp add: unspawned_join_deadline)
next
  case (WrapperExits k)
  with assms show ?thesis
    by (auto simp: wrapper_exit_def intro!: unspawned_actor_move)
next
  case (BeginAttempt k)
  with assms show ?thesis by (auto intro!: unspawned_actor_move)
next
  case (EndAttempt k)
  with assms show ?thesis by (auto intro!: unspawned_actor_move)
next
  case (AbortHits k e)
  with assms show ?thesis by (auto intro!: unspawned_actor_move)
qed (use assms in \<open>simp_all add: unspawned_def\<close>)

lemma unspawned_bg_run: "unspawned s i \<Longrightarrow> unspawned (bg_run ms s) i"
  unfolding bg_run_def by (induction ms arbitrary: s) (auto intro: unspawned_bg_step)

section \<open>Single admission\<close>

lemma validate_add_free:
  "validate_add s n = None \<Longrightarrow> name_free s n \<and> room s 1"
  using limit_room[of s 1] by (auto simp: validate_add_def name_free_def room_def split: if_splits option.splits)

lemma rinv_mono: "rinv U B W s \<Longrightarrow> U \<subseteq> U' \<Longrightarrow> rinv U' B W s"
  by (auto simp: rinv_def fresh_ok_def)

lemma rinv_reject_add:
  assumes inv: "rinv U B W s"
  shows "rinv U (B + {#bundle_res b#}) (W + opt_mset done') (reject_add i n b done' e s)"
proof -
  obtain kind r where k: "add_rejection e = (kind, r)" by fastforce
  obtain b' s1 where dv: "deliver_or_attach_rejection done' (OutRejected kind r) b (decide (AddDecision (Inl e)) s)
      = (b', s1)" by fastforce
  note dc = deliver_cases[OF dv rinv_decide[OF inv]]
  from rinv_publish[OF rinv_submit[OF dc(1), of b'], of "add_failed i n kind r"] dc(2) k dv show ?thesis
    by (simp add: reject_add_def)
qed

lemma rinv_reject_prepared:
  assumes inv: "rinv U B W s"
  shows "rinv U (B + {#bundle_res (pg_cleanup p)#}) (W + opt_mset (pg_done p)) (reject_prepared p e s)"
proof -
  obtain kind r where k: "add_rejection e = (kind, r)" by fastforce
  obtain b' s1 where dv: "deliver_or_attach_rejection (pg_done p) (OutRejected kind r) (pg_cleanup p)
      (decide (AddDecision (Inl e)) s) = (b', s1)" by fastforce
  note dc = deliver_cases[OF dv rinv_decide[OF inv]]
  from rinv_submit[OF rinv_publish[OF dc(1)], of b' "add_failed (pg_id p) (pg_name p) kind r"] dc(2) k dv show ?thesis
    by (simp add: reject_prepared_def)
qed

lemma prepared_fields [simp]:
  "pg_id (prepare_registration s i n owned done') = i" "pg_name (prepare_registration s i n owned done') = n"
  "pg_join (prepare_registration s i n owned done') = actor_handle_new i n"
  "pg_completion (prepare_registration s i n owned done') = i"
  "pg_done (prepare_registration s i n owned done') = done'"
  "pg_cleanup (prepare_registration s i n owned done') = ot_cleanup owned"
  by (simp_all add: prepare_registration_def Let_def)

lemma unspawned_insert: "unspawned (insert_entry p s) (pg_id p)"
  by (simp add: unspawned_def insert_entry_def scheduled_actor_new_def)

lemma rinv_spawn_and_register:
  assumes inv: "rinv U B W s" and new: "i \<notin> U"
  shows "rinv (insert i U) (B + {#bundle_res (ot_cleanup owned)#}) (W + opt_mset done')
    (spawn_and_register mv1 mv2 i n owned done' s)"
proof (cases "validate_add s n")
  case None
  let ?p = "prepare_registration s i n owned done'" and ?s1 = "bg_run mv1 s"
  have inv1: "rinv U B W ?s1" by (rule rinv_bg_run[OF inv])
  show ?thesis
  proof (cases "validate_add ?s1 n")
    case v: None
    let ?s2 = "bg_run mv2 (insert_entry ?p ?s1)"
    let ?s3 = "decide (AddDecision (Inr ())) (rg_publish (task_added i n) ?s2)"
    have "rinv (insert i U) (B + {#bundle_res (ot_cleanup owned)#}) (W + opt_mset done') (insert_entry ?p ?s1)"
      using rinv_insert_entry[OF inv1, of ?p] new validate_add_free[OF v] by simp
    then have "rinv (insert i U) (B + {#bundle_res (ot_cleanup owned)#}) (W + opt_mset done') ?s3"
      by (intro rinv_decide rinv_publish rinv_bg_run)
    moreover have "unspawned ?s3 (pg_id ?p)"
      using unspawned_bg_run[OF unspawned_insert[of ?p ?s1], of mv2] by (simp add: unspawned_def)
    ultimately show ?thesis
      using None v rinv_schedule_actor by (simp add: spawn_and_register_def Let_def)
  next
    case (Some e)
    then show ?thesis using None rinv_mono[OF rinv_reject_prepared[OF inv1, of ?p e]]
      by (auto simp: spawn_and_register_def Let_def)
  qed
next
  case (Some e)
  then show ?thesis using rinv_mono[OF rinv_reject_add[OF inv], of "insert i U"]
    by (simp add: spawn_and_register_def subset_insertI)
qed

section \<open>Batch admission\<close>

lemma batch_conflicts_none:
  assumes "batch_conflicts s seen items = (None, ids)"
  shows "distinct (map snd items) \<and> (\<forall>(i, n) \<in> set items. name_free s n \<and> n \<notin> seen)"
  using assms
proof (induction s seen items arbitrary: ids rule: batch_conflicts.induct)
  case (2 s seen i n items)
  obtain first ids' where r: "batch_conflicts s (insert n seen) items = (first, ids')" by fastforce
  with 2 have "first = None" "name_free s n" "n \<notin> seen" by (auto simp: name_free_def Let_def split: if_splits)
  with 2 r show ?case by (fastforce simp: Let_def split: if_splits)
qed simp

lemma validate_batch_none:
  assumes "validate_batch s items = None"
  shows "distinct (map snd items)" "\<And>i n. (i, n) \<in> set items \<Longrightarrow> name_free s n" "room s (length items)"
proof -
  obtain ids where c: "batch_conflicts s {} items = (None, ids)"
    using assms by (auto simp: validate_batch_def split: prod.splits option.splits)
  show "distinct (map snd items)" "\<And>i n. (i, n) \<in> set items \<Longrightarrow> name_free s n"
    using batch_conflicts_none[OF c] by auto
  show "room s (length items)"
    using assms c limit_room[of s "length items"]
    by (auto simp: validate_batch_def room_def Let_def split: option.splits)
qed

definition prepared_ok :: "prepared_registration \<Rightarrow> bool" where
  "prepared_ok p \<longleftrightarrow> pg_join p = actor_handle_new (pg_id p) (pg_name p) \<and> pg_completion p = pg_id p"

lemma name_free_insert: "name_free s n \<Longrightarrow> n \<noteq> pg_name p \<Longrightarrow> name_free (insert_entry p s) n"
  by (simp add: name_free_def insert_entry_def)

lemma room_insert:
  "room s (Suc k) \<Longrightarrow> fmlookup (rg_tasks s) (pg_id p) = None \<Longrightarrow> room (insert_entry p s) k"
  by (auto simp: room_def insert_entry_def map_len_simps)

lemma rinv_insert_all:
  assumes "rinv U B W s" and "distinct (map pg_id ps)" and "set (map pg_id ps) \<inter> U = {}"
    and "distinct (map pg_name ps)" and "\<And>p. p \<in> set ps \<Longrightarrow> name_free s (pg_name p) \<and> prepared_ok p"
    and "room s (length ps)"
  shows "rinv (U \<union> set (map pg_id ps)) (B + mset (map (bundle_res \<circ> pg_cleanup) ps))
    (W + sum_list (map (opt_mset \<circ> pg_done) ps)) (fold insert_entry ps s)"
  using assms
proof (induction ps arbitrary: U B W s)
  case (Cons p ps)
  let ?s = "insert_entry p s"
  have room1: "room s 1" using Cons.prems(6) by (auto simp: room_def)
  have "rinv (insert (pg_id p) U) (B + {#bundle_res (pg_cleanup p)#}) (W + opt_mset (pg_done p)) ?s"
    using rinv_insert_entry[OF Cons.prems(1)] Cons.prems room1 by (simp add: prepared_ok_def)
  moreover have "fmlookup (rg_tasks s) (pg_id p) = None"
    using fresh_facts(2)[OF Cons.prems(1)] Cons.prems(3) by simp
  then have "room ?s (length ps)" using room_insert Cons.prems(6) by simp
  moreover have "name_free ?s (pg_name q) \<and> prepared_ok q" if "q \<in> set ps" for q
    using Cons.prems(4,5) that name_free_insert[of s "pg_name q" p] by (auto simp: image_iff)
  ultimately have "rinv (insert (pg_id p) U \<union> set (map pg_id ps))
      (B + {#bundle_res (pg_cleanup p)#} + mset (map (bundle_res \<circ> pg_cleanup) ps))
      (W + opt_mset (pg_done p) + sum_list (map (opt_mset \<circ> pg_done) ps)) (fold insert_entry ps ?s)"
    using Cons.prems(2,3,4) by (intro Cons.IH) auto
  then show ?case by (simp add: ac_simps comp_def)
qed simp

lemma unspawned_insert_other: "unspawned s i \<Longrightarrow> unspawned (insert_entry p s) i"
  by (auto simp: unspawned_def insert_entry_def scheduled_actor_new_def)

lemma unspawned_insert_all:
  "unspawned s i \<or> i \<in> pg_id ` set ps \<Longrightarrow> unspawned (fold insert_entry ps s) i"
  by (induction ps arbitrary: s) (auto intro: unspawned_insert_other unspawned_insert)

lemma unspawned_schedule: "unspawned s i \<Longrightarrow> i \<noteq> pg_id p \<Longrightarrow> unspawned (schedule_actor p s) i"
  by (auto simp: unspawned_def schedule_actor_def rg_check_def rg_emit_def put_actor_def split: option.splits)

lemma rinv_schedule_all:
  assumes "rinv U B W s" and "distinct (map pg_id ps)" and "\<And>p. p \<in> set ps \<Longrightarrow> unspawned s (pg_id p)"
  shows "rinv U B W (fold schedule_actor ps s)"
  using assms
proof (induction ps arbitrary: s)
  case (Cons p ps)
  have "unspawned (schedule_actor p s) (pg_id q)" if "q \<in> set ps" for q
    using Cons.prems(2,3) that unspawned_schedule[of s "pg_id q" p] by (auto simp: image_iff)
  with Cons rinv_schedule_actor[of U B W s p] show ?case by simp
qed simp

lemma rinv_fold_publish: "rinv U B W s \<Longrightarrow> rinv U B W (fold (\<lambda>x. rg_publish (f x)) xs s)"
  by (rule rinv_fold) (rule rinv_publish)

lemma rinv_fold_submit:
  "rinv U B W s \<Longrightarrow> rinv U (B + mset (map (bundle_res \<circ> f) xs)) W (fold (\<lambda>x. submit_bundle (f x)) xs s)"
proof (induction xs arbitrary: B s)
  case (Cons x xs)
  from Cons.IH[OF rinv_submit[OF Cons.prems, of "f x"]] show ?case by (simp add: ac_simps)
qed simp

lemma rinv_reject_batch:
  assumes "rinv U B W s"
  shows "rinv U (B + mset (map (\<lambda>(_, _, b). bundle_res b) items)) W (reject_batch classify e items s)"
proof -
  let ?ev = "\<lambda>(i, n, _). case classify i of (kind, r) \<Rightarrow> add_failed i n kind r"
  have "rinv U B W (decide (AddDecision (Inl e)) (fold (\<lambda>x. rg_publish (?ev x)) items s))"
    by (intro rinv_decide rinv_fold_publish assms)
  from rinv_fold_submit[OF this, of "\<lambda>(_, _, b). b" items] show ?thesis
    by (simp add: reject_batch_def Let_def case_prod_unfold comp_def)
qed

lemma rinv_reject_prepared_batch:
  assumes "rinv U B W s"
  shows "rinv U (B + mset (map (\<lambda>(_, _, b). bundle_res b) items)) W (reject_prepared_batch classify e items s)"
proof -
  let ?f = "\<lambda>(i, n, b) s. submit_bundle b (rg_publish (case classify i of (kind, r) \<Rightarrow> add_failed i n kind r) s)"
  have "rinv U (B + mset (map (\<lambda>(_, _, b). bundle_res b) items)) W (fold ?f items s)"
    using assms
  proof (induction items arbitrary: B s)
    case (Cons x items)
    obtain i n b where x: "x = (i, n, b)" by (cases x)
    from Cons.IH[OF rinv_submit[OF rinv_publish[OF Cons.prems], of b
        "case classify i of (kind, r) \<Rightarrow> add_failed i n kind r"]] x show ?case
      by (simp add: ac_simps)
  qed simp
  then show ?thesis unfolding reject_prepared_batch_def by (rule rinv_decide)
qed

lemma actors_fold_publish:
  "rg_actors (decide d (fold (\<lambda>p. rg_publish (f p)) xs s)) = rg_actors s"
proof -
  have "rg_actors (fold (\<lambda>p. rg_publish (f p)) xs s) = rg_actors s"
    by (induction xs arbitrary: s) (simp_all add: rg_publish_def)
  then show ?thesis by (simp add: decide_def)
qed

lemma rinv_spawn_and_register_batch:
  assumes inv: "rinv U B W s" and new: "distinct (map abi_id items)" "set (map abi_id items) \<inter> U = {}"
  shows "rinv (U \<union> set (map abi_id items)) (B + mset (map (\<lambda>x. bundle_res (ot_cleanup (abi_owned x))) items)) W
    (spawn_and_register_batch mv1 mv2 items s)"
proof -
  let ?keys = "map (\<lambda>x. (abi_id x, abi_name x)) items"
  let ?parts = "map (\<lambda>x. (abi_id x, abi_name x, ot_cleanup (abi_owned x))) items"
  let ?B = "B + mset (map (\<lambda>x. bundle_res (ot_cleanup (abi_owned x))) items)"
  let ?U = "U \<union> set (map abi_id items)"
  have rej: "rinv ?U ?B W (reject_batch classify e ?parts s')" "rinv ?U ?B W (reject_prepared_batch classify e ?parts s')"
    if "rinv U B W s'" for s' classify e
    using rinv_mono[OF rinv_reject_batch[OF that, of ?parts classify e], of ?U]
      rinv_mono[OF rinv_reject_prepared_batch[OF that, of ?parts classify e], of ?U] by (simp_all add: comp_def)
  show ?thesis
  proof (cases "validate_batch s ?keys")
    case None
    let ?ps = "map (\<lambda>x. prepare_registration s (abi_id x) (abi_name x) (abi_owned x) None) items"
    let ?s1 = "bg_run mv1 s"
    have inv1: "rinv U B W ?s1" by (rule rinv_bg_run[OF inv])
    show ?thesis
    proof (cases "validate_batch ?s1 ?keys")
      case v: None
      note val = validate_batch_none[OF v]
      let ?s2 = "bg_run mv2 (fold insert_entry ?ps ?s1)"
      let ?s3 = "decide (AddDecision (Inr ())) (fold (\<lambda>p. rg_publish (task_added (pg_id p) (pg_name p))) ?ps ?s2)"
      have ids: "map pg_id ?ps = map abi_id items" "map pg_name ?ps = map snd ?keys"
          "map (bundle_res \<circ> pg_cleanup) ?ps = map (\<lambda>x. bundle_res (ot_cleanup (abi_owned x))) items"
        by (simp_all add: comp_def)
      moreover have "sum_list (map (opt_mset \<circ> pg_done) ?ps) = {#}"
        by (induction items) (simp_all add: opt_mset_def)
      moreover note ids = calculation
      have "name_free ?s1 (pg_name p) \<and> prepared_ok p" if "p \<in> set ?ps" for p
      proof -
        from that obtain x where "x \<in> set items" "pg_name p = abi_name x" "prepared_ok p"
          by (auto simp: prepared_ok_def)
        with val(2)[of "abi_id x" "abi_name x"] show ?thesis by auto
      qed
      then have "rinv ?U ?B W (fold insert_entry ?ps ?s1)"
        using rinv_insert_all[OF inv1, of ?ps] new val ids by (simp add: comp_def)
      then have "rinv ?U ?B W ?s3"
        by (intro rinv_decide rinv_fold_publish rinv_bg_run)
      moreover have "unspawned ?s3 (pg_id p)" if "p \<in> set ?ps" for p
      proof -
        have "unspawned ?s2 (pg_id p)"
          using that by (intro unspawned_bg_run unspawned_insert_all) auto
        then show ?thesis by (simp only: unspawned_def actors_fold_publish)
      qed
      ultimately have "rinv ?U ?B W (fold schedule_actor ?ps ?s3)"
        using new ids by (intro rinv_schedule_all) (auto simp: comp_def)
      with None v show ?thesis by (simp add: spawn_and_register_batch_def Let_def)
    next
      case (Some ce)
      then show ?thesis using None rej[OF inv1]
        by (cases ce) (auto simp: spawn_and_register_batch_def Let_def split: runtime_error.splits)
    qed
  next
    case (Some ce)
    then show ?thesis using rej[OF inv] by (cases ce) (simp add: spawn_and_register_batch_def Let_def)
  qed
qed

section \<open>The listener\<close>

definition command_res :: "registry_command \<Rightarrow> nat option multiset" where
  "command_res cmd =
     (case cmd of
        CmdAdd _ _ owned _ _ \<Rightarrow> {#bundle_res (ot_cleanup owned)#}
      | CmdAddBatch items \<Rightarrow> mset (map (\<lambda>x. bundle_res (ot_cleanup (abi_owned x))) items)
      | _ \<Rightarrow> {#})"

definition command_tx :: "registry_command \<Rightarrow> outcome_tx multiset" where
  "command_tx cmd = (case cmd of CmdAdd _ _ _ done' _ \<Rightarrow> opt_mset done' | _ \<Rightarrow> {#})"

definition received_res :: "registry_command list \<Rightarrow> nat option multiset" where
  "received_res cmds = sum_list (map command_res cmds)"

definition received_tx :: "registry_command list \<Rightarrow> outcome_tx multiset" where
  "received_tx cmds = sum_list (map command_tx cmds)"

lemma rinv_handle_command:
  assumes inv: "rinv U B W s" and new: "distinct (command_ids cmd)" "set (command_ids cmd) \<inter> U = {}"
  shows "rinv (U \<union> set (command_ids cmd)) (B + command_res cmd) (W + command_tx cmd)
    (handle_command mv1 mv2 cmd s)"
proof (cases cmd)
  case (CmdAdd i n owned done' c)
  with rinv_spawn_and_register[OF inv, of i] new show ?thesis
    by (simp add: handle_command_def command_ids_def command_res_def command_tx_def)
next
  case (CmdAddBatch items)
  with rinv_spawn_and_register_batch[OF inv, of items] new show ?thesis
    by (simp add: handle_command_def command_ids_def command_res_def command_tx_def)
qed (use inv in \<open>simp_all add: handle_command_def command_ids_def command_res_def command_tx_def
  rinv_remove_task rinv_remove_task_by_name rinv_cancel_task rinv_cancel_task_by_name\<close>)

lemma rinv_handle_ready:
  assumes inv: "rinv U B W s"
  shows "rinv U B W (handle_ready s)"
proof (cases "rg_ready s")
  case (Cons i rest)
  have "rinv U B W (s\<lparr>rg_ready := rest\<rparr>)"
    using inv Cons by (auto simp: rinv_def ready_ok_def life_def)
  moreover have "\<exists>t. fmlookup (rg_actors s) i = Some t \<and> wrapper_done t"
    using rinvD(5)[OF inv] Cons by (simp add: ready_ok_def)
  ultimately show ?thesis using Cons rinv_cleanup_completed[of U B W "s\<lparr>rg_ready := rest\<rparr>" i]
    by (simp add: handle_ready_def)
qed (use inv in \<open>simp add: handle_ready_def\<close>)

lemma rinv_new: "rinv {} {#} {#} (registry_new limited defaults m rx)"
proof -
  have "reaper_ok reaper_new" by (rule reaper_okI) (simp_all add: reaper_new_def)
  moreover have "reaper_rec reaper_new = (\<lambda>_. None)" by (simp add: reaper_rec_def reaper_new_def fun_eq_iff)
  ultimately show ?thesis
    by (auto simp: rinv_def registry_new_def idx_ok_def cross_ok_def cap_ok_def ready_ok_def fresh_ok_def
        bundles_ok_def senders_ok_def life_def linv_def reaper_res_def reaping_def)
      (auto simp: reaper_new_def)
qed

definition reg_inv :: "reg_system \<Rightarrow> bool" where
  "reg_inv x = (case x of (cmds, s) \<Rightarrow> rinv (used_ids cmds) (received_res cmds) (received_tx cmds) s)"

interpretation reg: inductive_invariant reg_init reg_step reg_inv
proof
  fix x assume "reg_init x"
  then show "reg_inv x"
    by (auto simp: reg_init_def reg_inv_def used_ids_def received_res_def received_tx_def rinv_new)
next
  fix x y assume good: "reg_inv x" and step: "reg_step x y"
  from step show "reg_inv y"
  proof cases
    case (command cmd cmds s mv1 mv2)
    have "used_ids (cmds @ [cmd]) = used_ids cmds \<union> set (command_ids cmd)" by (auto simp: used_ids_def)
    with command good rinv_handle_command[of "used_ids cmds" "received_res cmds" "received_tx cmds" s cmd mv1 mv2]
    show ?thesis by (simp add: reg_inv_def received_res_def received_tx_def)
  next
    case (ready cmds s)
    with good rinv_handle_ready show ?thesis by (simp add: reg_inv_def)
  next
    case (background cmds s m)
    with good rinv_bg_step show ?thesis by (simp add: reg_inv_def)
  qed
qed

lemma reg_reachable_rinv:
  "reg_reachable (cmds, s) \<Longrightarrow> rinv (used_ids cmds) (received_res cmds) (received_tx cmds) s"
  using reg.good_reachable[of _ "(cmds, s)"] by (auto simp: reg_reachable_def reg_inv_def)

end
