(* ===== verification/Name_Lease.thy ===== *)
theory Name_Lease
  imports Taskvisor_Prelude
begin

text \<open>
  Abstract specification of the registry: a table of name leases. An identity leases a name when it
  is admitted and keeps it until it has left the membership index and its actor has ended. A name has
  one holder, an identity leases once in its life, and the number of leases is bounded.
\<close>

record lease_table =
  lt_leases :: "task_id \<Rightarrow> name option"
  lt_used :: "task_id set"
  lt_limit :: "nat option"

inductive lease_step :: "lease_table \<Rightarrow> lease_table \<Rightarrow> bool" where
  acquire: "i \<notin> lt_used t \<Longrightarrow> n \<notin> ran (lt_leases t) \<Longrightarrow>
    (\<And>limit. lt_limit t = Some limit \<Longrightarrow> card (dom (lt_leases t)) < limit) \<Longrightarrow>
    lease_step t (t\<lparr>lt_leases := (lt_leases t)(i \<mapsto> n), lt_used := insert i (lt_used t)\<rparr>)"
| release: "lt_leases t i = Some n \<Longrightarrow> lease_step t (t\<lparr>lt_leases := (lt_leases t)(i := None)\<rparr>)"

inductive_cases lease_stepE: "lease_step t t'"

definition lease_init :: "lease_table \<Rightarrow> bool" where
  "lease_init t \<longleftrightarrow> lt_leases t = Map.empty \<and> lt_used t = {}"

text \<open>One holder per name, only used identities hold, and the limit.\<close>

definition lease_ok :: "lease_table \<Rightarrow> bool" where
  "lease_ok t \<longleftrightarrow>
     finite (dom (lt_leases t)) \<and> dom (lt_leases t) \<subseteq> lt_used t
     \<and> (\<forall>i j n. lt_leases t i = Some n \<longrightarrow> lt_leases t j = Some n \<longrightarrow> i = j)
     \<and> (\<forall>limit. lt_limit t = Some limit \<longrightarrow> card (dom (lt_leases t)) \<le> limit)"

lemma ranI_map: "m i = Some n \<Longrightarrow> n \<in> ran m"
  by (auto simp: ran_def)

lemma lease_ok_step:
  assumes "lease_ok t" and "lease_step t t'"
  shows "lease_ok t'"
  using assms(2)
proof cases
  case (acquire i n)
  from acquire(2) assms(1) have "lt_leases t i = None" by (auto simp: lease_ok_def)
  then have "card (insert i (dom (lt_leases t))) = Suc (card (dom (lt_leases t)))"
    using assms(1) by (simp add: lease_ok_def domIff)
  moreover have "lt_leases t j \<noteq> Some n" for j using acquire(3) by (blast intro: ranI_map)
  ultimately show ?thesis using assms(1) acquire(1,4) by (auto simp: lease_ok_def Suc_le_eq)
next
  case (release i n)
  have "card (dom (lt_leases t) - {i}) \<le> card (dom (lt_leases t))"
    using assms(1) by (intro card_mono) (auto simp: lease_ok_def)
  then have "card (dom (lt_leases t) - {i}) \<le> limit" if "lt_limit t = Some limit" for limit
    using assms(1) that by (meson lease_ok_def order_trans)
  with release assms(1) show ?thesis by (auto simp: lease_ok_def)
qed

interpretation lease: inductive_invariant lease_init lease_step lease_ok
proof
  show "lease_ok t" if "lease_init t" for t using that by (simp add: lease_init_def lease_ok_def)
qed (rule lease_ok_step)

text \<open>A lease that was given up never comes back, and a kept lease is for the same name.\<close>

lemma used_mono_step: "lease_step t t' \<Longrightarrow> lt_used t \<subseteq> lt_used t' \<and> lt_limit t' = lt_limit t"
  by (auto elim: lease_stepE)

lemma used_mono: "lease_step\<^sup>*\<^sup>* t t' \<Longrightarrow> lt_used t \<subseteq> lt_used t' \<and> lt_limit t' = lt_limit t"
  by (induction rule: rtranclp_induct) (auto dest: used_mono_step)

lemma no_second_lease:
  assumes "lease_step\<^sup>*\<^sup>* t t'" and "i \<in> lt_used t"
  shows "lt_leases t' i = None \<or> lt_leases t' i = lt_leases t i"
  using assms(1)
proof (induction rule: rtranclp_induct)
  case (step y z)
  then have "i \<in> lt_used y" using used_mono[of t y] assms(2) by blast
  with step show ?case by (auto elim!: lease_stepE)
qed simp

text \<open>Any set of leases may be given up.\<close>

lemma release_many:
  assumes "finite (dom (lt_leases t))" and "\<And>i. l i = None \<or> l i = lt_leases t i"
  shows "lease_step\<^sup>*\<^sup>* t (t\<lparr>lt_leases := l\<rparr>)"
proof -
  have "lease_step\<^sup>*\<^sup>* t (t\<lparr>lt_leases := (\<lambda>i. if i \<in> D then None else lt_leases t i)\<rparr>)"
    if "finite D" "D \<subseteq> dom (lt_leases t)" for D
    using that
  proof (induction rule: finite_induct)
    case (insert j D)
    let ?t = "t\<lparr>lt_leases := (\<lambda>i. if i \<in> D then None else lt_leases t i)\<rparr>"
    from insert obtain n where "lt_leases ?t j = Some n" by auto
    moreover have "(lt_leases ?t)(j := None) = (\<lambda>i. if i \<in> insert j D then None else lt_leases t i)"
      by (simp add: fun_eq_iff)
    ultimately have "lease_step ?t (t\<lparr>lt_leases := (\<lambda>i. if i \<in> insert j D then None else lt_leases t i)\<rparr>)"
      using lease_step.release[of ?t j n] by simp
    with insert show ?case by (meson insert_subset rtranclp.rtrancl_into_rtrancl)
  qed simp
  from this[of "{i \<in> dom (lt_leases t). l i = None}"] assms(1)
  have "lease_step\<^sup>*\<^sup>* t (t\<lparr>lt_leases := (\<lambda>i. if i \<in> {i \<in> dom (lt_leases t). l i = None} then None
      else lt_leases t i)\<rparr>)" by simp
  moreover have "(\<lambda>i. if i \<in> {i \<in> dom (lt_leases t). l i = None} then None else lt_leases t i) = l"
  proof
    show "(if i \<in> {i \<in> dom (lt_leases t). l i = None} then None else lt_leases t i) = l i" for i
      using assms(2)[of i] by (cases "lt_leases t i") auto
  qed
  ultimately show ?thesis by simp
qed

end
