(* ===== verification/Registry_Refinement.thy ===== *)
theory Registry_Refinement
  imports Registry_Admitted Name_Lease
begin

text \<open>
  The registry refines the table of name leases: background moves, removals and reports only give
  leases up, and only a validated admission acquires one.
\<close>

section \<open>The leases of a registry state\<close>

text \<open>The name an identity occupies, in the membership index or in the reaper.\<close>

definition leases :: "registry \<Rightarrow> task_id \<Rightarrow> name option" where
  "leases s i =
     (case fmlookup (rg_tasks s) i of
        Some e \<Rightarrow> Some (en_name e)
      | None \<Rightarrow> map_option rr_name (reaper_rec (rg_reaper s) i))"

definition task_names :: "registry \<Rightarrow> task_id \<Rightarrow> name option" where
  "task_names s i = map_option tk_name (fmlookup (rg_actors s) i)"

definition lease_abs :: "registry \<Rightarrow> lease_table" where
  "lease_abs s = \<lparr>lt_leases = leases s, lt_used = fset (fmdom (rg_actors s)), lt_limit = rg_max s\<rparr>"

lemma lease_abs_fields [simp]:
  "lt_leases (lease_abs s) = leases s" "lt_used (lease_abs s) = fset (fmdom (rg_actors s))"
  "lt_limit (lease_abs s) = rg_max s"
  by (simp_all add: lease_abs_def)

lemma leases_None: "leases s i = None \<longleftrightarrow> fmlookup (rg_tasks s) i = None \<and> reaper_rec (rg_reaper s) i = None"
  by (simp add: leases_def split: option.splits)

lemma dom_leases: "dom (leases s) = fset (fmdom (rg_tasks s)) \<union> reaping (rg_reaper s)"
  by (auto simp: leases_def reaping_def fmlookup_dom_iff dom_def split: option.splits)

lemma record_name:
  assumes "rinv U B W s" and "reaper_rec (rg_reaper s) i = Some x"
  shows "task_names s i = Some (rr_name x)"
  using rinvD(10)[OF assms(1), of i] assms(2)
  by (auto simp: life_def linv_def join_ok_def phys_ok_def task_names_def
      split: option.splits entry_state.splits removal_owner.splits if_splits)

lemma entry_name:
  assumes "rinv U B W s" and "fmlookup (rg_tasks s) i = Some e"
  shows "task_names s i = Some (en_name e)"
  using rinvD(10)[OF assms(1), of i] assms(2)
  by (auto simp: life_def linv_def task_names_def split: option.splits)

lemma leases_eq:
  assumes "rinv U B W s"
  shows "leases s i = (if i \<in> dom (leases s) then task_names s i else None)"
  using entry_name[OF assms, of i] record_name[OF assms, of i]
  by (cases "fmlookup (rg_tasks s) i"; cases "reaper_rec (rg_reaper s) i") (auto simp: leases_def domIff)

text \<open>An attempt runs only under a lease.\<close>

lemma active_leased:
  assumes "rinv U B W s" and "attempt_active s i"
  shows "leases s i = task_names s i \<and> leases s i \<noteq> None"
proof -
  obtain t where t: "fmlookup (rg_actors s) i = Some t" "tk_activity t"
    using assms(2) by (auto simp: attempt_active_def split: option.splits)
  have "leases s i \<noteq> None"
    using rinvD(10)[OF assms(1), of i] t
    by (auto simp: leases_None life_def linv_def phys_ok_def quiet_task_def
        split: option.splits removal_owner.splits)
  with leases_eq[OF assms(1), of i] show ?thesis by (auto split: if_splits)
qed

section \<open>Background moves give leases up\<close>

lemma keys_put_record:
  "k < length (hm_vec (rp_records r) i) \<Longrightarrow> fmdom (rp_records (put_record r i k x)) = fmdom (rp_records r)"
  by (auto simp: put_record_def hm_vec_def fmdomI split: option.splits)

lemma keys_take_ready:
  "take_ready_record r i k = (x, r') \<Longrightarrow> fmdom (rp_records r') |\<subseteq>| fmdom (rp_records r)"
  by (auto simp: take_ready_record_def Let_def hm_put_vec_def hm_vec_def fmdomI
      split: if_splits option.splits)

lemma keys_submit_ready: "submit_ready x r = (bs, ls, r') \<Longrightarrow> rp_records r' = rp_records r"
  by (auto simp: submit_ready_def Let_def split: option.splits)

lemma keys_attach_terminal:
  assumes "attach_terminal r i b st rep = (bs, ls, r')"
  shows "fmdom (rp_records r') |\<subseteq>| fmdom (rp_records r)"
proof (cases "terminal_index (hm_vec (rp_records r) i) \<lparr>tr_state = st, tr_report = rep\<rparr>")
  case (Some k)
  then have k: "k < length (hm_vec (rp_records r) i)"
    by (auto simp: terminal_index_def dest: list_position_Some split: option.splits if_splits)
  show ?thesis
    using assms Some keys_put_record[OF k]
    by (auto simp: attach_terminal_def Let_def dest!: keys_take_ready keys_submit_ready
        split: prod.splits if_splits)
qed (use assms in \<open>simp add: attach_terminal_def Let_def\<close>)

lemma keys_reap_finished:
  assumes "reap_finished r i l v p = (bs, ls, r')"
  shows "fmdom (rp_records r') |\<subseteq>| fmdom (rp_records r)"
proof (cases "list_position (\<lambda>x. rr_release x = l) (hm_vec (rp_records r) i)")
  case (Some k)
  then have k: "k < length (hm_vec (rp_records r) i)" by (auto dest: list_position_Some)
  show ?thesis
    using assms Some keys_put_record[OF k]
    by (auto simp: reap_finished_def complete_physical_def Let_def dest!: keys_take_ready keys_submit_ready
        split: prod.splits if_splits)
qed (use assms in \<open>auto simp: reap_finished_def complete_physical_def Let_def dest!: keys_submit_ready\<close>)

text \<open>Names of actors never change, and no move touches the limit.\<close>

definition frame :: "registry \<Rightarrow> registry \<Rightarrow> bool" where
  "frame s s' \<longleftrightarrow> task_names s' = task_names s \<and> rg_max s' = rg_max s \<and> fmdom (rg_tasks s') |\<subseteq>| fmdom (rg_tasks s)"

lemma frame_trans: "frame s s' \<Longrightarrow> frame s' s'' \<Longrightarrow> frame s s''"
  by (auto simp: frame_def)

lemma frame_refl [simp]: "frame s s"
  by (simp add: frame_def)

lemma frame_fields:
  "rg_tasks s' = rg_tasks s \<Longrightarrow> rg_actors s' = rg_actors s \<Longrightarrow> rg_max s' = rg_max s \<Longrightarrow> frame s s'"
  by (simp add: frame_def task_names_def fun_eq_iff)

lemma frame_quiet [simp]:
  "frame s (decide x s)" "frame s (rg_publish e s)" "frame s (submit_bundle b s)" "frame s (rg_emit y s)"
  "frame s (cancel_token i s)" "frame s (spawn_join_report i h s)" "frame s (transfer_to_reaper v s)"
  "frame s (reaper_outcome out s)" "frame s (pending_dec i s)" "frame s (complete_logical l s)"
  "frame s (put_owner i w s)" "frame s (rg_check ok s)"
  by (auto intro!: frame_fields simp: quiet_ops submit_bundle_def spawn_join_report_def transfer_to_reaper_def
      reaper_outcome_def pending_dec_def complete_logical_def Let_def split: option.splits prod.splits)

lemma frame_put:
  "fmlookup (rg_actors s) i = Some t \<Longrightarrow> tk_name t' = tk_name t \<Longrightarrow> frame s (put_actor i t' s)"
  by (auto simp: frame_def task_names_def put_actor_def fun_eq_iff)

lemma handle_names:
  "load_join h t = (h', t') \<Longrightarrow> tk_name t' = tk_name t"
  "probe_result h t = (h', t') \<Longrightarrow> tk_name t' = tk_name t"
  "handle_abort h t = (v, h', t') \<Longrightarrow> tk_name t' = tk_name t"
  by (auto simp: handle_abort_def load_join_def probe_result_def
      split: if_splits option.splits result_channel.splits)

lemma complete_join_name: "complete_join h x t = (r, h', t') \<Longrightarrow> tk_name t' = tk_name t"
  by (auto simp: complete_join_def result_ready_def Let_def dest!: handle_names(2)
      split: task_end.splits prod.splits option.splits)

lemma poll_name: "handle_poll h t = (r, h', t') \<Longrightarrow> tk_name t' = tk_name t"
  by (auto simp: handle_poll_def Let_def dest!: handle_names(1,2) complete_join_name
      split: option.splits prod.splits if_splits wrapper_phase.splits)

lemma drop_name: "handle_drop h t = (v, t') \<Longrightarrow> tk_name t' = tk_name t"
  by (auto simp: handle_drop_def Let_def dest!: handle_names(1,3) split: prod.splits if_splits)

lemma frame_claim: "claim_registered i s = (x, s') \<Longrightarrow> frame s s'"
  by (auto simp: claim_registered_def inc_with_name_def Let_def frame_def task_names_def fmdomI
      split: option.splits entry_state.splits)

lemma frame_claim_and_cancel [simp]: "frame s (claim_and_cancel i s)"
proof -
  obtain x s1 where "claim_registered i s = (x, s1)" by fastforce
  then show ?thesis
    using frame_claim[of i s x s1] frame_trans[of s s1] frame_trans[of s1 "cancel_token i s1"]
    by (auto simp: claim_and_cancel_def split: option.splits)
qed

lemma frame_fold: "(\<And>x s. frame s (f x s)) \<Longrightarrow> frame s (fold f xs s)"
  by (induction xs arbitrary: s) (auto intro: frame_trans)

lemma frame_cancel_all [simp]: "frame s (cancel_all_claims s)"
  unfolding cancel_all_claims_def by (rule frame_fold) simp

lemma frame_deliver: "deliver_or_attach_rejection done' x b s = (b', s') \<Longrightarrow> frame s s'"
  by (auto simp: deliver_or_attach_rejection_def split: option.splits if_splits)

lemma frame_owners [simp]: "frame s (s\<lparr>rg_owners := w\<rparr>)" "frame s (s\<lparr>rg_reaps := q\<rparr>)" "frame s (s\<lparr>rg_ready := l\<rparr>)"
  by (simp_all add: frame_fields)

lemma frame_finish_removal [simp]: "frame s (finish_removal i h j s)"
proof -
  obtain d c s1 where p: "into_report_parts i h s = ((d, c), s1)" by (metis surj_pair)
  have "frame s s1"
    using p by (auto simp: into_report_parts_def intro: frame_trans[OF frame_put] dest!: drop_name
        split: option.splits prod.splits)
  with p show ?thesis
    by (auto simp: finish_removal_def intro: frame_trans split: prod.splits)
qed

lemma frame_join_progress [simp]: "frame s (join_progress i s)"
  by (auto simp: join_progress_def Let_def dest!: poll_name intro: frame_trans[OF frame_put]
      split: option.splits removal_owner.splits prod.splits)

lemma frame_join_deadline [simp]: "frame s (join_deadline i s)"
proof -
  have "frame s ((transfer_to_reaper v (put_actor i t' s))\<lparr>rg_owners := w\<rparr>)"
    if "fmlookup (rg_actors s) i = Some t" "tk_name t' = tk_name t" for v t t' w
    by (rule frame_trans[OF frame_put[OF that] frame_trans[OF frame_quiet(7) frame_owners(1)]])
  then show ?thesis
    by (auto simp: join_deadline_def Let_def dest!: handle_names(3)
        split: option.splits removal_owner.splits bool.splits prod.splits)
qed

lemma frame_without_membership [simp]: "frame s (finish_without_membership i p s)"
proof -
  obtain b s1 where "deliver_or_attach_rejection (pr_done p) (pr_outcome p) (pr_cleanup p) s = (b, s1)" by fastforce
  then show ?thesis
    using frame_trans[OF frame_deliver frame_trans[OF frame_quiet(8) frame_trans[OF frame_quiet(9,10)]]]
    by (auto simp: finish_without_membership_def retain_terminal_def)
qed

lemma frame_commit [simp]: "frame s (commit_membership i s)"
proof -
  have "frame s (finish_without_membership i p (s\<lparr>rg_owners := w\<rparr>))" for p w
    by (rule frame_trans[OF frame_owners(1) frame_without_membership])
  moreover have "frame s (s\<lparr>rg_tasks := fmdrop i (rg_tasks s), rg_by_name := n, rg_owners := w\<rparr>)"
    "frame s (s\<lparr>rg_tasks := fmdrop i (rg_tasks s), rg_owners := w\<rparr>)" for n w
    by (auto simp: frame_def task_names_def fun_eq_iff)
  ultimately show ?thesis
    by (auto simp: commit_membership_def Let_def
        split: option.splits removal_owner.splits entry_state.splits)
qed

lemma frame_finish_report [simp]: "frame s (finish_report i s)"
proof (cases "\<exists>p n l e. fmlookup (rg_owners s) i = Some (Reporting p n l e)")
  case True
  then obtain p n l e where w: "fmlookup (rg_owners s) i = Some (Reporting p n l e)" by blast
  let ?s0 = "s\<lparr>rg_owners := fmdrop i (rg_owners s)\<rparr>"
  obtain b s1 where r: "report_outcome i n p ?s0 = (b, s1)" by fastforce
  have "frame ?s0 s1"
    using r by (auto simp: report_outcome_def Let_def dest!: frame_deliver
        intro: frame_trans[OF frame_quiet(2)] frame_trans[OF frame_trans[OF frame_quiet(2)]] split: prod.splits)
  then have s1: "frame s s1" using frame_trans[OF frame_owners(1)] by blast
  let ?s2 = "complete_logical (pr_completion p) (complete_logical l (pending_dec i
    (reaper_outcome (attach_terminal (rg_reaper s1) i b (Some l) (pr_completion p)) s1)))"
  have s2: "frame s ?s2"
    by (rule frame_trans[OF s1 frame_trans[OF frame_quiet(8) frame_trans[OF frame_quiet(9)
      frame_trans[OF frame_quiet(10) frame_quiet(10)]]]])
  from w r s2 frame_trans[OF s2 frame_quiet(4)] show ?thesis by (simp add: finish_report_def Let_def)
qed (auto simp: finish_report_def split: option.splits removal_owner.splits)

lemma frame_reap_done [simp]: "frame s (reap_done i s)"
  by (auto simp: reap_done_def intro: frame_trans[OF frame_owners(2) frame_quiet(8)] split: option.splits)

lemma frame_actor_move: "(\<And>t. tk_name (f t) = tk_name t) \<Longrightarrow> frame s (actor_move i g f s)"
  by (auto simp: actor_move_def intro: frame_put split: option.splits)

lemma wrapper_names [simp]:
  "tk_name (wrapper_send r t) = tk_name t" "tk_name (wrapper_exit t) = tk_name t"
  "tk_name (wrapper_abort e t) = tk_name t"
  by (auto simp: wrapper_send_def wrapper_result_def wrapper_exit_def wrapper_abort_def Let_def
      split: sum.splits wrapper_phase.splits)

lemma frame_bg_step [simp]: "frame s (bg_step m s)"
proof (cases m)
  case (ActorEnds i r)
  then show ?thesis
    by (auto intro: frame_trans[OF frame_put frame_owners(3)] split: option.splits)
qed (simp_all add: frame_actor_move frame_fields)

text \<open>A record is only registered for a member.\<close>

lemma transfer_reservation:
  "load_join h t = (h', t') \<Longrightarrow> ah_reservation h' = ah_reservation h"
  "probe_result h t = (h', t') \<Longrightarrow> ah_reservation h' = ah_reservation h"
  "handle_abort h t = (Some v, h', t') \<Longrightarrow> ah_reservation h = Some v"
  by (auto simp: load_join_def probe_result_def handle_abort_def split: if_splits result_channel.splits option.splits)

lemma drop_reservation: "handle_drop h t = (Some v, t') \<Longrightarrow> ah_reservation h = Some v"
  by (auto simp: handle_drop_def Let_def dest!: transfer_reservation split: prod.splits if_splits)

lemma poll_reservation:
  assumes "handle_poll h t = (r, h', t')" and "ah_reservation h' = Some v"
  shows "ah_reservation h = Some v"
proof -
  have "ah_reservation h2 = None" if "complete_join h1 x t1 = (r1, h2, t2)" for h1 x t1 r1 h2 t2
    using that by (auto simp: complete_join_def result_ready_def Let_def dest!: transfer_reservation(2)
        split: task_end.splits prod.splits option.splits)
  with assms show ?thesis
    by (fastforce simp: handle_poll_def Let_def dest!: transfer_reservation(1,2)
        split: option.splits prod.splits if_splits wrapper_phase.splits)
qed

lemma keys_transfer:
  "fmdom (rp_records (rg_reaper (transfer_to_reaper (Some v) s))) = finsert (rv_id v) (fmdom (rp_records (rg_reaper s)))"
  "rg_reaper (transfer_to_reaper None s) = rg_reaper s"
  by (simp_all add: transfer_to_reaper_def register_def Let_def)

lemma joining_reservation:
  assumes "rinv U B W s" "fmlookup (rg_owners s) i = Some (Joining h f a)" "ah_reservation (hd_join h) = Some v"
  shows "rv_id v = i \<and> i \<in> dom (leases s)"
proof -
  obtain e t where "fmlookup (rg_tasks s) i = Some e"
    "join_ok i (en_name e) (hd_join h) f a (reaper_rec (rg_reaper s) i) (i |\<in>| rg_reaps s) t
       (i |\<in>| rg_cancelled s)"
    by (rule joining_facts[OF assms(1,2)])
  with assms(3) show ?thesis
    by (auto simp: join_ok_def handle_live_def reservation_of_def dom_leases fmdomI split: if_splits)
qed

lemma keys_finish_removal:
  assumes "x |\<in>| fmdom (rp_records (rg_reaper (finish_removal i h j s)))"
  shows "x |\<in>| fmdom (rp_records (rg_reaper s)) \<or> (\<exists>v. ah_reservation (hd_join h) = Some v \<and> x = rv_id v)"
proof (cases "fmlookup (rg_actors s) i")
  case None
  with assms show ?thesis
    by (auto simp: finish_removal_def into_report_parts_def rg_check_def split: prod.splits)
next
  case (Some t)
  obtain v t' where d: "handle_drop (hd_join h) t = (v, t')" by fastforce
  from assms Some d have "x |\<in>| fmdom (rp_records (rg_reaper (transfer_to_reaper v (put_actor i t' s))))"
    by (simp add: finish_removal_def into_report_parts_def split: prod.splits)
  with d show ?thesis
    by (cases v) (auto simp: keys_transfer put_actor_def dest: drop_reservation)
qed

definition record_keys :: "registry \<Rightarrow> task_id set" where
  "record_keys s = fset (fmdom (rp_records (rg_reaper s)))"

lemma record_keys_leased: "rinv U B W s \<Longrightarrow> record_keys s \<subseteq> dom (leases s)"
  using reaping_dom[OF rinvD(2)] by (auto simp: record_keys_def dom_leases)

lemma record_keys_same: "rg_reaper s' = rg_reaper s \<Longrightarrow> record_keys s' = record_keys s"
  by (simp add: record_keys_def)

lemma reaper_claim:
  "claim_registered i s = (x, s') \<Longrightarrow> rg_reaper s' = rg_reaper s"
  by (auto simp: claim_registered_def inc_with_name_def Let_def split: option.splits entry_state.splits)

lemma reaper_quiet [simp]:
  "rg_reaper (decide x s) = rg_reaper s" "rg_reaper (rg_publish e s) = rg_reaper s"
  "rg_reaper (submit_bundle b s) = rg_reaper s" "rg_reaper (rg_emit y s) = rg_reaper s"
  "rg_reaper (cancel_token i s) = rg_reaper s" "rg_reaper (spawn_join_report i h s) = rg_reaper s"
  "rg_reaper (pending_dec i s) = rg_reaper s" "rg_reaper (complete_logical i s) = rg_reaper s"
  "rg_reaper (put_actor i t s) = rg_reaper s" "rg_reaper (actor_move i g f s) = rg_reaper s"
  "rg_reaper (put_owner i w s) = rg_reaper s" "rg_reaper (rg_check ok s) = rg_reaper s"
  by (auto simp: quiet_ops submit_bundle_def spawn_join_report_def pending_dec_def complete_logical_def
      put_actor_def actor_move_def Let_def split: option.splits)

lemma reaper_claim_and_cancel [simp]: "rg_reaper (claim_and_cancel i s) = rg_reaper s"
  by (auto simp: claim_and_cancel_def dest: reaper_claim split: prod.splits option.splits)

lemma reaper_cancel_all [simp]: "rg_reaper (cancel_all_claims s) = rg_reaper s"
proof -
  have "rg_reaper (fold claim_and_cancel xs s) = rg_reaper s" for xs
    by (induction xs arbitrary: s) auto
  then show ?thesis by (simp add: cancel_all_claims_def)
qed

lemma reaper_deliver: "deliver_or_attach_rejection done' x b s = (b', s') \<Longrightarrow> rg_reaper s' = rg_reaper s"
  by (auto simp: deliver_or_attach_rejection_def split: option.splits if_splits)

lemma record_keys_outcome:
  "record_keys (reaper_outcome (attach_terminal (rg_reaper s) i b st rep) s) \<subseteq> record_keys s"
  "record_keys (reaper_outcome (reap_finished (rg_reaper s) i l v p) s) \<subseteq> record_keys s"
  using keys_attach_terminal[of "rg_reaper s" i b st rep] keys_reap_finished[of "rg_reaper s" i l v p]
  by (auto simp: reaper_outcome_def record_keys_def Let_def less_eq_fset.rep_eq split: prod.splits)

lemma record_keys_finish_report: "record_keys (finish_report i s) \<subseteq> record_keys s"
proof (cases "\<exists>p n l e. fmlookup (rg_owners s) i = Some (Reporting p n l e)")
  case True
  then obtain p n l e where w: "fmlookup (rg_owners s) i = Some (Reporting p n l e)" by blast
  obtain b s1 where r: "report_outcome i n p (s\<lparr>rg_owners := fmdrop i (rg_owners s)\<rparr>) = (b, s1)" by fastforce
  then have "rg_reaper s1 = rg_reaper s"
    by (auto simp: report_outcome_def Let_def dest!: reaper_deliver split: prod.splits)
  with record_keys_outcome(1)[of s1 i b "Some l" "pr_completion p"] w r show ?thesis
    by (simp add: finish_report_def Let_def record_keys_def)
qed (auto simp: finish_report_def split: option.splits removal_owner.splits)

lemma record_keys_commit: "record_keys (commit_membership i s) \<subseteq> record_keys s"
proof -
  have "record_keys (finish_without_membership i p s') \<subseteq> record_keys s" if "rg_reaper s' = rg_reaper s" for p s'
  proof -
    obtain b s1 where d: "deliver_or_attach_rejection (pr_done p) (pr_outcome p) (pr_cleanup p) s' = (b, s1)" by fastforce
    with that have "rg_reaper s1 = rg_reaper s" by (auto dest: reaper_deliver)
    with record_keys_outcome(1)[of s1 i b None "pr_completion p"] d show ?thesis
      by (simp add: finish_without_membership_def retain_terminal_def record_keys_def)
  qed
  note without = this
  show ?thesis
  proof (cases "\<exists>p. fmlookup (rg_owners s) i = Some (Committing p)")
    case True
    then obtain p where w: "fmlookup (rg_owners s) i = Some (Committing p)" by blast
    show ?thesis
    proof (cases "\<exists>e l. fmlookup (rg_tasks s) i = Some e \<and> en_state e = Removing l")
      case True
      with w show ?thesis by (auto simp: commit_membership_def Let_def record_keys_def split: if_splits)
    next
      case False
      then have "commit_membership i s = finish_without_membership i p (s\<lparr>rg_owners := fmdrop i (rg_owners s)\<rparr>)"
        using w by (simp add: commit_membership_def split: option.splits entry_state.splits)
      with without show ?thesis by simp
    qed
  qed (simp add: commit_membership_def split: option.splits removal_owner.splits)
qed

lemma record_keys_bg_step:
  assumes inv: "rinv U B W s"
  shows "record_keys (bg_step m s) \<subseteq> dom (leases s)"
proof (cases m)
  case (JoinProgress i)
  have "x \<in> record_keys s \<or> x \<in> dom (leases s)" if x: "x \<in> record_keys (join_progress i s)" for x
  proof (cases "\<exists>h f a t. fmlookup (rg_owners s) i = Some (Joining h f a) \<and> fmlookup (rg_actors s) i = Some t")
    case True
    then obtain h f a t where w: "fmlookup (rg_owners s) i = Some (Joining h f a)" "fmlookup (rg_actors s) i = Some t"
      by blast
    obtain r j t' where p: "handle_poll (hd_join h) t = (r, j, t')" by (metis surj_pair)
    show ?thesis
    proof (cases r)
      case None
      with x w p show ?thesis by (simp add: join_progress_def record_keys_def Let_def)
    next
      case (Some y)
      with x w p have "x |\<in>| fmdom (rp_records (rg_reaper (finish_removal i (h\<lparr>hd_join := j\<rparr>)
          (if a then ForceAborted else Joined y) (put_actor i t' s))))"
        by (simp add: join_progress_def record_keys_def)
      from keys_finish_removal[OF this] show ?thesis
        using joining_reservation[OF inv w(1)] poll_reservation[OF p] by (auto simp: record_keys_def)
    qed
  qed (use x in \<open>auto simp: join_progress_def split: option.splits removal_owner.splits\<close>)
  with JoinProgress record_keys_leased[OF inv] show ?thesis by auto
next
  case (JoinDeadline i)
  have "x \<in> record_keys s \<or> x \<in> dom (leases s)" if x: "x \<in> record_keys (join_deadline i s)" for x
  proof (cases "\<exists>h t. fmlookup (rg_owners s) i = Some (Joining h True False) \<and> fmlookup (rg_actors s) i = Some t")
    case True
    then obtain h t where w: "fmlookup (rg_owners s) i = Some (Joining h True False)" "fmlookup (rg_actors s) i = Some t"
      by blast
    obtain v j t' where p: "handle_abort (hd_join h) t = (v, j, t')" by (metis surj_pair)
    from x w p have "x |\<in>| fmdom (rp_records (rg_reaper (transfer_to_reaper v (put_actor i t' s))))"
      by (simp add: join_deadline_def record_keys_def Let_def)
    with joining_reservation[OF inv w(1)] transfer_reservation(3)[of "hd_join h" t _ j t'] p show ?thesis
      by (cases v) (auto simp: record_keys_def keys_transfer)
  qed (use x in \<open>auto simp: join_deadline_def split: option.splits removal_owner.splits bool.splits\<close>)
  with JoinDeadline record_keys_leased[OF inv] show ?thesis by auto
next
  case (ReapDone i)
  have "record_keys (reap_done i s) \<subseteq> record_keys s"
    using record_keys_outcome(2)[of "s\<lparr>rg_reaps := rg_reaps s |-| {|i|}\<rparr>" i i]
    by (auto simp: reap_done_def record_keys_def split: option.splits)
  with ReapDone record_keys_leased[OF inv] show ?thesis by auto
next
  case (CommitMembership i)
  with record_keys_leased[OF inv] record_keys_commit[of i s] show ?thesis by auto
next
  case (FinishReport i)
  with record_keys_leased[OF inv] record_keys_finish_report[of i s] show ?thesis by auto
next
  case (ActorEnds i r)
  with record_keys_leased[OF inv] show ?thesis by (auto simp: record_keys_def split: option.splits if_splits)
qed (use record_keys_leased[OF inv] in \<open>simp_all add: record_keys_def\<close>)

text \<open>Steps that only give leases up.\<close>

lemma leases_down:
  assumes inv: "rinv U B W s" and inv': "rinv U' B' W' s'" and f: "frame s s'"
    and keys: "record_keys s' \<subseteq> dom (leases s)"
  shows "lease_step\<^sup>*\<^sup>* (lease_abs s) (lease_abs s')"
proof -
  have down: "leases s' i = None \<or> leases s' i = leases s i" for i
  proof (cases "i \<in> dom (leases s')")
    case True
    have "i \<in> dom (leases s)"
      using True f keys reaping_dom[OF rinvD(2)[OF inv']]
      by (auto simp: dom_leases[of s'] frame_def record_keys_def dom_leases[of s])
    with True leases_eq[OF inv', of i] leases_eq[OF inv, of i] f show ?thesis by (simp add: frame_def)
  qed auto
  have "finite (dom (leases s))" by (simp add: dom_leases finite_reaping[OF rinvD(2)[OF inv]])
  with release_many[of "lease_abs s" "leases s'"] down
  have "lease_step\<^sup>*\<^sup>* (lease_abs s) (lease_abs s\<lparr>lt_leases := leases s'\<rparr>)" by simp
  moreover have "dom (task_names x) = fset (fmdom (rg_actors x))" for x
    by (auto simp: task_names_def dom_def fmlookup_dom_iff)
  then have "lease_abs s\<lparr>lt_leases := leases s'\<rparr> = lease_abs s'"
    using f by (simp add: lease_abs_def frame_def) metis
  ultimately show ?thesis by simp
qed

lemma leases_bg_step:
  "rinv U B W s \<Longrightarrow> lease_step\<^sup>*\<^sup>* (lease_abs s) (lease_abs (bg_step m s))"
  by (rule leases_down) (auto intro: rinv_bg_step dest: record_keys_bg_step)

lemma leases_bg_run:
  "rinv U B W s \<Longrightarrow> lease_step\<^sup>*\<^sup>* (lease_abs s) (lease_abs (bg_run ms s))"
  unfolding bg_run_def
proof (induction ms arbitrary: s)
  case (Cons m ms)
  from Cons.IH[OF rinv_bg_step[OF Cons.prems]] leases_bg_step[OF Cons.prems] show ?case
    by (metis fold_simps(2) rtranclp_trans)
qed simp

text \<open>A state that differs in the log and in phases of actors has the same leases.\<close>

lemma lease_abs_same:
  assumes "rg_tasks s' = rg_tasks s" "rg_reaper s' = rg_reaper s" "rg_max s' = rg_max s"
    and "fmdom (rg_actors s') = fmdom (rg_actors s)"
  shows "lease_abs s' = lease_abs s"
proof -
  have "leases s' = leases s" using assms by (simp add: leases_def fun_eq_iff split: option.splits)
  with assms show ?thesis by (simp add: lease_abs_def)
qed

lemma lease_abs_quiet [simp]:
  "lease_abs (decide x s) = lease_abs s" "lease_abs (rg_publish e s) = lease_abs s"
  "lease_abs (submit_bundle b s) = lease_abs s" "lease_abs (rg_emit y s) = lease_abs s"
  by (rule lease_abs_same; simp add: quiet_ops submit_bundle_def)+

lemma lease_abs_schedule [simp]: "lease_abs (schedule_actor p s) = lease_abs s"
proof (cases "fmlookup (rg_actors s) (pg_id p)")
  case None
  then show ?thesis by (intro lease_abs_same) (simp_all add: schedule_actor_def rg_check_def)
next
  case (Some t)
  then have "fmdom (rg_actors (schedule_actor p s)) = fmdom (rg_actors s)"
    by (auto simp: schedule_actor_def put_actor_def rg_emit_def fmdomI)
  with Some show ?thesis
    by (intro lease_abs_same) (simp_all add: schedule_actor_def put_actor_def rg_emit_def)
qed

lemma lease_abs_fold:
  "(\<And>x s. lease_abs (f x s) = lease_abs s) \<Longrightarrow> lease_abs (fold f xs s) = lease_abs s"
  by (induction xs arbitrary: s) auto

lemma lease_abs_deliver: "deliver_or_attach_rejection done' x b s = (b', s') \<Longrightarrow> lease_abs s' = lease_abs s"
  by (auto simp: deliver_or_attach_rejection_def split: option.splits if_splits)

lemma lease_abs_reject [simp]:
  "lease_abs (reject_add i n b done' e s) = lease_abs s"
  "lease_abs (reject_prepared p e s) = lease_abs s"
  "lease_abs (reject_batch classify e items s) = lease_abs s"
  "lease_abs (reject_prepared_batch classify e items s) = lease_abs s"
  by (auto simp: reject_add_def reject_prepared_def reject_batch_def reject_prepared_batch_def Let_def
      lease_abs_fold case_prod_unfold dest!: lease_abs_deliver split: prod.splits)
    (metis lease_abs_deliver lease_abs_quiet(1) prod.collapse)+

text \<open>A validated insertion acquires a lease.\<close>

lemma leases_insert:
  assumes inv: "rinv U B W s" and new: "pg_id p \<notin> U" and free: "name_free s (pg_name p)" and room: "room s 1"
  shows "lease_step (lease_abs s) (lease_abs (insert_entry p s))"
proof -
  let ?i = "pg_id p" and ?n = "pg_name p"
  note f = fresh_facts[OF inv new]
  have "leases s j \<noteq> Some ?n" for j
  proof
    assume "leases s j = Some ?n"
    then consider e where "fmlookup (rg_tasks s) j = Some e" "en_name e = ?n"
      | x where "reaper_rec (rg_reaper s) j = Some x" "rr_name x = ?n"
      by (auto simp: leases_def split: option.splits)
    then show False
    proof cases
      case 1
      then have "fmlookup (rg_by_name s) ?n = Some j" using rinvD(1)[OF inv] by (auto simp: idx_ok_def)
      with free show False by (simp add: name_free_def)
    next
      case 2
      with reaper_rec_lookup[OF rinvD(2)[OF inv] 2(1)] reaper_ok_record[OF rinvD(2)[OF inv]]
      have "fmlookup (rp_by_name (rg_reaper s)) ?n \<noteq> None" by force
      with free show False by (simp add: name_free_def reserves_name_def)
    qed
  qed
  then have "?n \<notin> ran (lt_leases (lease_abs s))" by (auto simp: ran_def)
  moreover have "card (dom (lt_leases (lease_abs s))) < limit" if "lt_limit (lease_abs s) = Some limit" for limit
  proof -
    have "card (dom (leases s)) \<le> hm_len (rg_tasks s) + rp_active (rg_reaper s)"
      using card_Un_le[of "fset (fmdom (rg_tasks s))" "reaping (rg_reaper s)"] card_reaping[OF rinvD(2)[OF inv]]
      by (simp add: dom_leases hm_len_def fcard.rep_eq)
    with room that show ?thesis by (auto simp: room_def)
  qed
  moreover have "?i \<notin> lt_used (lease_abs s)" using f(1) by (simp add: fmlookup_dom_iff)
  ultimately have "lease_step (lease_abs s) (lease_abs s\<lparr>lt_leases := (leases s)(?i \<mapsto> ?n),
      lt_used := insert ?i (lt_used (lease_abs s))\<rparr>)"
    using lease_step.acquire[of ?i "lease_abs s" ?n] by simp
  moreover have "leases (insert_entry p s) = (leases s)(?i \<mapsto> ?n)"
    by (simp add: fun_eq_iff leases_def insert_entry_def split: option.splits)
  ultimately show ?thesis by (simp add: lease_abs_def insert_entry_def)
qed

lemma leases_insert_all:
  assumes "rinv U B W s" and "distinct (map pg_id ps)" and "set (map pg_id ps) \<inter> U = {}"
    and "distinct (map pg_name ps)" and "\<And>p. p \<in> set ps \<Longrightarrow> name_free s (pg_name p) \<and> prepared_ok p"
    and "room s (length ps)"
  shows "lease_step\<^sup>*\<^sup>* (lease_abs s) (lease_abs (fold insert_entry ps s))"
  using assms
proof (induction ps arbitrary: U B W s)
  case (Cons p ps)
  let ?s = "insert_entry p s"
  have p: "pg_id p \<notin> U" "name_free s (pg_name p)" "prepared_ok p" "room s 1"
    using Cons.prems by (auto simp: room_def)
  have inv: "rinv (insert (pg_id p) U) (B + {#bundle_res (pg_cleanup p)#}) (W + opt_mset (pg_done p)) ?s"
    using rinv_insert_entry[OF Cons.prems(1) p(1,2,4)] p(3) by (simp add: prepared_ok_def)
  have "lease_step\<^sup>*\<^sup>* (lease_abs ?s) (lease_abs (fold insert_entry ps ?s))"
  proof (rule Cons.IH[OF inv])
    show "name_free ?s (pg_name q) \<and> prepared_ok q" if "q \<in> set ps" for q
    proof -
      have "pg_name q \<in> pg_name ` set ps" using that by simp
      with Cons.prems(4) have "pg_name q \<noteq> pg_name p" by auto
      with Cons.prems(5)[of q] that show ?thesis by (simp add: name_free_insert)
    qed
    show "room ?s (length ps)"
      using Cons.prems(6) fresh_facts(2)[OF Cons.prems(1) p(1)] by (simp add: room_insert)
  qed (use Cons.prems in auto)
  with leases_insert[OF Cons.prems(1) p(1,2,4)] show ?case by (simp add: converse_rtranclp_into_rtranclp)
qed simp

section \<open>Commands\<close>

lemma leases_spawn_and_register:
  assumes inv: "rinv U B W s" and new: "i \<notin> U"
  shows "lease_step\<^sup>*\<^sup>* (lease_abs s) (lease_abs (spawn_and_register mv1 mv2 i n owned done' s))"
proof (cases "validate_add s n")
  case None
  let ?p = "prepare_registration s i n owned done'" and ?s1 = "bg_run mv1 s"
  have inv1: "rinv U B W ?s1" by (rule rinv_bg_run[OF inv])
  have s1: "lease_step\<^sup>*\<^sup>* (lease_abs s) (lease_abs ?s1)" by (rule leases_bg_run[OF inv])
  show ?thesis
  proof (cases "validate_add ?s1 n")
    case v: None
    note ok = validate_add_free[OF v]
    let ?s2 = "insert_entry ?p ?s1"
    have "lease_step (lease_abs ?s1) (lease_abs ?s2)"
      using leases_insert[OF inv1, of ?p] new ok by simp
    moreover have "lease_step\<^sup>*\<^sup>* (lease_abs ?s2) (lease_abs (bg_run mv2 ?s2))"
      by (rule leases_bg_run, rule rinv_insert_entry[OF inv1]) (use new ok in simp_all)
    ultimately have "lease_step\<^sup>*\<^sup>* (lease_abs s) (lease_abs (bg_run mv2 ?s2))"
      using s1 by (meson rtranclp.rtrancl_into_rtrancl rtranclp_trans)
    with None v show ?thesis by (simp add: spawn_and_register_def Let_def)
  qed (use None s1 in \<open>simp add: spawn_and_register_def Let_def\<close>)
qed (simp add: spawn_and_register_def)

lemma leases_spawn_and_register_batch:
  assumes inv: "rinv U B W s" and new: "distinct (map abi_id items)" "set (map abi_id items) \<inter> U = {}"
  shows "lease_step\<^sup>*\<^sup>* (lease_abs s) (lease_abs (spawn_and_register_batch mv1 mv2 items s))"
proof -
  let ?keys = "map (\<lambda>x. (abi_id x, abi_name x)) items"
  let ?s1 = "bg_run mv1 s"
  have inv1: "rinv U B W ?s1" by (rule rinv_bg_run[OF inv])
  have s1: "lease_step\<^sup>*\<^sup>* (lease_abs s) (lease_abs ?s1)" by (rule leases_bg_run[OF inv])
  show ?thesis
  proof (cases "validate_batch s ?keys")
    case None
    let ?ps = "map (\<lambda>x. prepare_registration s (abi_id x) (abi_name x) (abi_owned x) None) items"
    show ?thesis
    proof (cases "validate_batch ?s1 ?keys")
      case v: None
      note val = validate_batch_none[OF v]
      let ?s2 = "fold insert_entry ?ps ?s1"
      have pre: "distinct (map pg_id ?ps)" "set (map pg_id ?ps) \<inter> U = {}" "distinct (map pg_name ?ps)"
          "room ?s1 (length ?ps)" using new val by (simp_all add: comp_def)
      have each: "name_free ?s1 (pg_name p) \<and> prepared_ok p" if "p \<in> set ?ps" for p
      proof -
        from that obtain x where "x \<in> set items" "pg_name p = abi_name x" "prepared_ok p"
          by (auto simp: prepared_ok_def)
        with val(2)[of "abi_id x" "abi_name x"] show ?thesis by auto
      qed
      have "lease_step\<^sup>*\<^sup>* (lease_abs ?s1) (lease_abs ?s2)"
        using leases_insert_all[OF inv1 pre(1,2,3) each pre(4)] .
      moreover have "lease_step\<^sup>*\<^sup>* (lease_abs ?s2) (lease_abs (bg_run mv2 ?s2))"
        using leases_bg_run[OF rinv_insert_all[OF inv1 pre(1,2,3) each pre(4)]] .
      ultimately have "lease_step\<^sup>*\<^sup>* (lease_abs s) (lease_abs (bg_run mv2 ?s2))"
        using s1 by (meson rtranclp_trans)
      with None v show ?thesis
        by (simp add: spawn_and_register_batch_def Let_def lease_abs_fold)
    next
      case (Some ce)
      with None s1 show ?thesis
        by (cases ce) (auto simp: spawn_and_register_batch_def Let_def split: runtime_error.splits)
    qed
  next
    case (Some ce)
    then show ?thesis by (cases ce) (simp add: spawn_and_register_batch_def Let_def)
  qed
qed

text \<open>Commands that claim: membership keeps its keys and the reaper is left alone.\<close>

definition tame :: "registry \<Rightarrow> registry \<Rightarrow> bool" where
  "tame s s' \<longleftrightarrow> frame s s' \<and> rg_reaper s' = rg_reaper s"

lemma tame_trans: "tame s s' \<Longrightarrow> tame s' s'' \<Longrightarrow> tame s s''"
  by (auto simp: tame_def intro: frame_trans)

lemma tame_quiet [simp]:
  "tame s s" "tame s (decide x s)" "tame s (rg_publish e s)" "tame s (cancel_token i s)"
  "tame s (spawn_join_report i h s)" "tame s (put_owner i w s)" "tame s (rg_check ok s)"
  "tame s (s\<lparr>rg_ready := q\<rparr>)"
  by (simp_all add: tame_def)

lemma tame_claim: "claim_registered i s = (x, s') \<Longrightarrow> tame s s'"
  by (simp add: tame_def frame_claim reaper_claim)

lemma tame_claimed:
  assumes "claim_registered i s = (x, s1)"
  shows "tame s (decide d s1)" "tame s (decide d (rg_publish e s1))"
    "tame s (spawn_join_report i h (decide d (cancel_token i s1)))"
    "tame s (spawn_join_report i h (decide d (cancel_token i (rg_publish e s1))))"
  by (meson assms tame_claim tame_quiet(2-5) tame_trans)+

lemma tame_remove: "tame s (remove_task i s)"
  by (auto simp: remove_task_def intro: tame_claimed split: prod.splits option.splits)

lemma tame_remove_by_name: "tame s (remove_task_by_name n s)"
  by (auto simp: remove_task_by_name_def Let_def intro: tame_claimed split: prod.splits option.splits)

lemma tame_resolve_cancel:
  "cancel_action i s = (action, s1) \<Longrightarrow> tame s (resolve_cancel_action action (rg_publish ev s1))"
proof (erule cancel_action_cases)
  fix e :: reg_entry and h :: reg_handle
  let ?s1 = "inc_with_name i (en_name e) (s\<lparr>rg_tasks := fmupd i (e\<lparr>en_state := Removing (hd_completion h)\<rparr>) (rg_tasks s)\<rparr>)"
  assume T: "fmlookup (rg_tasks s) i = Some e" "en_state e = Registered h"
    and a: "action = Some (\<lparr>cd_id = i, cd_claimed = True, cd_completion = hd_completion h\<rparr>, Some h)" "s1 = ?s1"
  then have "claim_registered i s = (Some (en_name e, h, hd_completion h), ?s1)"
    by (simp add: claim_registered_def Let_def)
  from tame_claimed(4)[OF this] a show ?thesis by (simp add: resolve_cancel_action_def)
qed (auto simp: resolve_cancel_action_def intro: tame_trans[OF tame_quiet(3) tame_quiet(2)])

lemma tame_cancel: "tame s (cancel_task i s)"
  by (auto simp: cancel_task_def resolve_cancel_action_def[of None] intro: tame_resolve_cancel
      split: option.splits prod.splits)

lemma tame_cancel_by_name: "tame s (cancel_task_by_name n s)"
  by (auto simp: cancel_task_by_name_def intro: tame_resolve_cancel split: option.splits prod.splits)

lemma tame_ready: "tame s (handle_ready s)"
proof -
  have "tame s (cleanup_completed_task i s)" for i s
  proof -
    obtain x s1 where c: "claim_registered i s = (x, s1)" by fastforce
    have put: "tame s1 (put_owner i w (put_actor i t' s1))" if "fmlookup (rg_actors s1) i = Some t" "tk_name t' = tk_name t"
      for w t t' using that frame_put frame_trans[OF _ frame_quiet(11)] by (simp add: tame_def)
    show ?thesis
    proof (cases x)
      case None
      with c tame_claim[OF c] show ?thesis by (simp add: cleanup_completed_task_def)
    next
      case (Some y)
      obtain m h l where y: "y = (m, h, l)" by (cases y)
      show ?thesis
      proof (cases "fmlookup (rg_actors s1) i")
        case None
        with c Some y tame_trans[OF tame_claim[OF c] tame_quiet(7)[of s1 False]] show ?thesis
          by (simp add: cleanup_completed_task_def)
      next
        case t: (Some t)
        obtain r j t' where p: "result_ready (hd_join h) t = (r, j, t')" by (metis surj_pair)
        then have "tk_name t' = tk_name t"
          by (auto simp: result_ready_def dest: handle_names(2) split: prod.splits)
        from tame_trans[OF tame_claim[OF c] put[OF t this]] c Some y t p show ?thesis
          by (simp add: cleanup_completed_task_def spawn_join_report_def Let_def)
      qed
    qed
  qed
  then show ?thesis
    by (auto simp: handle_ready_def intro: tame_trans[OF tame_quiet(8)] split: list.splits)
qed

lemma leases_tame:
  "rinv U B W s \<Longrightarrow> rinv U' B' W' s' \<Longrightarrow> tame s s' \<Longrightarrow> lease_step\<^sup>*\<^sup>* (lease_abs s) (lease_abs s')"
  using record_keys_leased[of U B W s] by (auto simp: tame_def record_keys_def intro!: leases_down)

lemma leases_handle_command:
  assumes inv: "rinv U B W s" and new: "distinct (command_ids cmd)" "set (command_ids cmd) \<inter> U = {}"
  shows "lease_step\<^sup>*\<^sup>* (lease_abs s) (lease_abs (handle_command mv1 mv2 cmd s))"
proof (cases cmd)
  case (CmdAdd i n owned done' c)
  with leases_spawn_and_register[OF inv, of i] new show ?thesis
    by (simp add: handle_command_def command_ids_def)
next
  case (CmdAddBatch items)
  with leases_spawn_and_register_batch[OF inv, of items] new show ?thesis
    by (simp add: handle_command_def command_ids_def)
qed (use leases_tame[OF inv rinv_handle_command[OF inv new, of mv1 mv2]] in
  \<open>simp_all add: handle_command_def tame_remove tame_remove_by_name tame_cancel tame_cancel_by_name\<close>)

section \<open>The refinement\<close>

definition reg_abs :: "reg_system \<Rightarrow> lease_table" where
  "reg_abs x = lease_abs (snd x)"

interpretation reg_lease: refinement reg_init reg_step reg_inv lease_step reg_abs
proof
  fix x y assume good: "reg_inv x" and step: "reg_step x y"
  from step show "lease_step\<^sup>*\<^sup>* (reg_abs x) (reg_abs y)"
  proof cases
    case (command cmd cmds s mv1 mv2)
    with good leases_handle_command[of "used_ids cmds"] show ?thesis by (simp add: reg_inv_def reg_abs_def)
  next
    case (ready cmds s)
    with good leases_tame[OF _ rinv_handle_ready tame_ready] show ?thesis
      by (auto simp: reg_inv_def reg_abs_def)
  next
    case (background cmds s m)
    with good leases_bg_step show ?thesis by (simp add: reg_inv_def reg_abs_def)
  qed
qed

lemma reg_reachable_inv: "reg_reachable x \<Longrightarrow> reg_inv x"
  using reg.good_reachable[of _ x] by (auto simp: reg_reachable_def)

lemma reg_init_leases: "reg_init x \<Longrightarrow> lease_init (reg_abs x)"
  by (auto simp: reg_init_def reg_abs_def lease_abs_def lease_init_def leases_def registry_new_def
      reaper_rec_def reaper_new_def fun_eq_iff)

lemma reg_reachable_leases:
  assumes "reg_reachable x"
  obtains t0 where "lease_init t0" "lease_step\<^sup>*\<^sup>* t0 (reg_abs x)"
proof -
  from assms obtain x0 where x0: "reg_init x0" "reg_step\<^sup>*\<^sup>* x0 x" by (auto simp: reg_reachable_def)
  with reg_lease.run_matched[OF x0(2)] reg_init_leases[OF x0(1)] reg.good_init[OF x0(1)] that show ?thesis by blast
qed

end
