(* ===== verification/Registry_Behaviour.thy ===== *)
theory Registry_Behaviour
  imports Registry_Refinement
begin

text \<open>
  Properties of the registry: names and identities (from the refinement of the lease table),
  accounts, finality of a completed removal, answers to commands, and shutdown.
\<close>

section \<open>A sample run\<close>

definition demo_add :: "task_id \<Rightarrow> name \<Rightarrow> registry_command" where
  "demo_add i n = CmdAdd i n (owned_task_new (task_spec_once n 7) 7 (unat i)) (Some i) False"

definition demo_reg :: registry where
  "demo_reg = handle_command [] [BeginAttempt 1] (demo_add 1 ''a'')
     (registry_new False task_defaults_default (Some 2) {|1|})"

definition demo_active :: registry where
  "demo_active = bg_run [BeginAttempt 1] demo_reg"

definition demo_done :: registry where
  "demo_done = bg_run [JoinProgress 1, CommitMembership 1, FinishReport 1]
     (handle_ready (bg_run [EndAttempt 1, ActorEnds 1 (Inr ExitCompleted), WrapperExits 1] demo_active))"

lemma reachable_step: "reg_reachable x \<Longrightarrow> reg_step x y \<Longrightarrow> reg_reachable y"
  by (auto simp: reg_reachable_def intro: rtranclp.rtrancl_into_rtrancl)

lemma reachable_bg_run: "reg_reachable (cmds, s) \<Longrightarrow> reg_reachable (cmds, bg_run ms s)"
  unfolding bg_run_def
  by (induction ms arbitrary: s) (auto intro: reachable_step reg_step.background)

lemma reachable_ready: "reg_reachable (cmds, s) \<Longrightarrow> reg_reachable (cmds, handle_ready s)"
  using reachable_step reg_step.ready by blast

lemma demo_reg_reachable: "reg_reachable ([demo_add 1 ''a''], demo_reg)"
proof -
  let ?s0 = "registry_new False task_defaults_default (Some 2) {|1|}"
  have "reg_reachable ([], ?s0)"
    unfolding reg_reachable_def reg_init_def by blast
  moreover have "reg_step ([], ?s0) ([] @ [demo_add 1 ''a''], demo_reg)"
    unfolding demo_reg_def by (rule reg_step.command) (simp_all add: demo_add_def command_ids_def used_ids_def)
  ultimately show ?thesis using reachable_step by fastforce
qed

lemma demo_active_reachable: "reg_reachable ([demo_add 1 ''a''], demo_active)"
  unfolding demo_active_def by (rule reachable_bg_run[OF demo_reg_reachable])

lemma demo_done_reachable: "reg_reachable ([demo_add 1 ''a''], demo_done)"
  unfolding demo_done_def
  by (rule reachable_bg_run[OF reachable_ready[OF reachable_bg_run[OF demo_active_reachable]]])

lemmas demo_run =
  demo_reg_def demo_active_def demo_done_def demo_add_def handle_command_def spawn_and_register_def
  registry_new_def validate_add_def registered_limit_exceeded_def checked_add_usize_def reserves_name_def
  reaper_new_def bg_run_def prepare_registration_def insert_entry_def actor_move_def put_actor_def
  scheduled_actor_new_def spawn_actor_def schedule_actor_def quiet_ops u64_max_def
  actor_handle_new_def attempt_active_def handle_ready_def cleanup_completed_task_def
  claim_registered_def inc_with_name_def wrapper_send_def wrapper_result_def wrapper_exit_def
  result_ready_def probe_result_def join_progress_def handle_poll_def load_join_def complete_join_def
  finish_removal_def into_report_parts_def handle_drop_def transfer_to_reaper_def classify_join_def
  outcome_of_def commit_membership_def finish_report_def report_outcome_def
  deliver_or_attach_rejection_def attach_terminal_def hm_vec_def terminal_index_def
  releases_complete_def reaper_outcome_def pending_dec_def complete_logical_def submit_bundle_def
  bundle_submit_def Let_def

lemma demo_active_runs: "attempt_active demo_active 1"
  by (simp add: demo_run)

lemma demo_done_physical: "1 |\<in>| rg_physical demo_done"
  by (simp add: demo_run)

section \<open>Names and identities\<close>

text \<open>
  C36. Attempts of the same name never overlap. In every reachable registry state, for every
  interleaving of the listener with the actors, the removal tasks and the reaper, an identity whose
  attempt is running holds the lease of its task name, and no other identity, registered or still
  being reaped, holds that name. So two identities with a running attempt always have different
  names, even when the first was force-aborted and its successor admitted by name.
\<close>

theorem registry_names_exclusive:
  assumes "reg_reachable (cmds, s)" and "attempt_active s i"
  shows "\<exists>n. task_names s i = Some n \<and> leases s i = Some n
    \<and> (\<forall>j. j \<noteq> i \<longrightarrow> leases s j \<noteq> Some n \<and> \<not> (attempt_active s j \<and> task_names s j = Some n))"
proof -
  note inv = reg_reachable_rinv[OF assms(1)]
  from active_leased[OF inv assms(2)] obtain n where n: "task_names s i = Some n" "leases s i = Some n"
    by (metis option.exhaust)
  obtain t0 where "lease_init t0" "lease_step\<^sup>*\<^sup>* t0 (reg_abs (cmds, s))"
    by (rule reg_reachable_leases[OF assms(1)])
  then have "lease_ok (lease_abs s)" using lease.good_reachable by (fastforce simp: reg_abs_def)
  with n have "leases s j \<noteq> Some n" if "j \<noteq> i" for j
    using that unfolding lease_ok_def by fastforce
  with active_leased[OF inv] n show ?thesis by metis
qed

theorem registry_names_exclusive_witness:
  "attempt_active demo_active 1 \<and> leases demo_active 1 = Some ''a'' \<and> leases demo_active 2 \<noteq> Some ''a''"
proof -
  obtain n where "leases demo_active 1 = Some n" "\<forall>j. j \<noteq> 1 \<longrightarrow> leases demo_active j \<noteq> Some n"
    using registry_names_exclusive[OF demo_active_reachable demo_active_runs] by blast
  moreover have "leases demo_active 1 = Some ''a''" by (simp add: demo_run leases_def)
  ultimately show ?thesis using demo_active_runs by simp
qed

text \<open>
  C37. The task limit holds. With a configured limit, the identities that are registered, being
  removed, or force-aborted and not yet physically ended are together never more than the limit, in
  every reachable state. Aborted attempts that still run count, so force-aborting tasks is no way
  around the limit.
\<close>

theorem registry_within_limit:
  assumes "reg_reachable (cmds, s)" and "rg_max s = Some limit"
  shows "card (fset (fmdom (rg_tasks s)) \<union> reaping (rg_reaper s)) \<le> limit
    \<and> card {i. attempt_active s i} \<le> limit"
proof -
  note inv = reg_reachable_rinv[OF assms(1)]
  have le: "card (fset (fmdom (rg_tasks s)) \<union> reaping (rg_reaper s)) \<le> limit"
    using rinvD(4)[OF inv] assms(2) by (simp add: cap_ok_def)
  have "{i. attempt_active s i} \<subseteq> fset (fmdom (rg_tasks s)) \<union> reaping (rg_reaper s)"
    using active_leased[OF inv] by (auto simp: dom_leases[symmetric] dom_def)
  then have "card {i. attempt_active s i} \<le> card (fset (fmdom (rg_tasks s)) \<union> reaping (rg_reaper s))"
    by (rule card_mono[rotated]) (simp add: finite_reaping[OF rinvD(2)[OF inv]])
  with le show ?thesis by simp
qed

theorem registry_within_limit_witness:
  "rg_max demo_active = Some 2 \<and> card {i. attempt_active demo_active i} \<le> 2"
proof -
  have "rg_max demo_active = Some 2" by (simp add: demo_run)
  with registry_within_limit[OF demo_active_reachable this] show ?thesis by simp
qed

section \<open>Accounts\<close>

text \<open>
  C38. The registry loses nothing. In every reachable state the cleanup bundles of the add commands
  received so far are exactly those held by entries, by removals in progress and by the reaper,
  together with those submitted for deferred cleanup; the outcome senders received are exactly those
  held together with those that were resolved; and no assertion of the registry failed. Every bundle
  is submitted at most once and every sender is resolved at most once, whatever way a task ends.
\<close>

theorem registry_accounts_conserved:
  assumes "reg_reachable (cmds, s)"
  shows "fm_sum entry_res (rg_tasks s) + fm_sum owner_res (rg_owners s) + reaper_res (rg_reaper s)
      + log_res (rg_log s) = received_res cmds
    \<and> fm_sum entry_tx (rg_tasks s) + fm_sum owner_tx (rg_owners s) + log_tx (rg_log s) = received_tx cmds
    \<and> rg_faults s = 0"
  using rinvD(7,8,9)[OF reg_reachable_rinv[OF assms]] by (simp add: bundles_ok_def senders_ok_def)

theorem registry_accounts_conserved_witness:
  "rg_owners demo_done = fmempty \<and> log_tx (rg_log demo_done) = {#1#}"
proof -
  have "rg_tasks demo_done = fmempty" "rg_owners demo_done = fmempty"
    by (simp_all add: demo_run fmdrop_fmupd_same)
  with registry_accounts_conserved[OF demo_done_reachable] show ?thesis
    by (simp add: received_tx_def command_tx_def demo_add_def opt_mset_def)
qed

text \<open>
  C39. Physical completion is final. Once the physical latch of an identity is complete, its logical
  latch is complete too, it is in no index, no removal is pending for it and the reaper has no record
  of it; and in this and every later state it holds no name and no attempt of it runs. A successor
  that waits for the latch therefore never overlaps with it.
\<close>

theorem physical_completion_final:
  assumes "reg_reachable (cmds, s)" and "i |\<in>| rg_physical s" and "reg_step\<^sup>*\<^sup>* (cmds, s) (cmds', s')"
  shows "i |\<in>| rg_logical s \<and> fmlookup (rg_tasks s) i = None \<and> fmlookup (rg_owners s) i = None
    \<and> fmlookup (rg_counts s) i = None \<and> i \<notin> reaping (rg_reaper s)
    \<and> leases s' i = None \<and> \<not> attempt_active s' i"
proof -
  note inv = reg_reachable_rinv[OF assms(1)]
  have now: "i |\<in>| rg_logical s" "fmlookup (rg_tasks s) i = None" "fmlookup (rg_owners s) i = None"
    "fmlookup (rg_counts s) i = None" "reaper_rec (rg_reaper s) i = None" "fmlookup (rg_actors s) i \<noteq> None"
    using rinvD(10)[OF inv, of i] assms(2)
    by (auto simp: life_def linv_def split: option.splits entry_state.splits removal_owner.splits)
  have "lease_step\<^sup>*\<^sup>* (lease_abs s) (lease_abs s')"
    using reg_lease.run_matched[OF assms(3) reg_reachable_inv[OF assms(1)]] by (simp add: reg_abs_def)
  moreover have "leases s i = None" using now by (simp add: leases_None)
  ultimately have none: "leases s' i = None"
    using no_second_lease[of "lease_abs s" "lease_abs s'" i] now(6) by (auto simp: fmlookup_dom_iff)
  have "reg_reachable (cmds', s')" using assms(1,3) by (auto simp: reg_reachable_def intro: rtranclp_trans)
  from active_leased[OF reg_reachable_rinv[OF this]] none have "\<not> attempt_active s' i" by metis
  with now none show ?thesis by (simp add: reaping_def)
qed

theorem physical_completion_final_witness:
  "1 |\<in>| rg_physical demo_done \<and> \<not> attempt_active (bg_step (BeginAttempt 1) demo_done) 1"
proof -
  have "reg_step\<^sup>*\<^sup>* ([demo_add 1 ''a''], demo_done) ([demo_add 1 ''a''], bg_step (BeginAttempt 1) demo_done)"
    by (rule r_into_rtranclp) (rule reg_step.background)
  from physical_completion_final[OF demo_done_reachable demo_done_physical this] demo_done_physical
  show ?thesis by simp
qed

section \<open>Refinement\<close>

text \<open>
  C40. The registry implements the table of name leases. Every run of the registry from a reachable
  state, whatever the commands and the interleaving, is matched by a run of the abstract table: a
  name is acquired only when it is free, only by an identity that never had one, and only below the
  limit; everything else gives leases up.
\<close>

theorem registry_refines_leases:
  assumes "reg_reachable (cmds, s)" and "reg_step\<^sup>*\<^sup>* (cmds, s) (cmds', s')"
  shows "lease_step\<^sup>*\<^sup>* (lease_abs s) (lease_abs s')"
  using reg_lease.run_matched[OF assms(2) reg_reachable_inv[OF assms(1)]] by (simp add: reg_abs_def)

theorem registry_refines_leases_witness:
  "lease_step\<^sup>*\<^sup>* (lease_abs demo_active) (lease_abs (handle_command [] [] (demo_add 2 ''b'') demo_active))"
proof (rule registry_refines_leases[OF demo_active_reachable r_into_rtranclp])
  show "reg_step ([demo_add 1 ''a''], demo_active)
      ([demo_add 1 ''a''] @ [demo_add 2 ''b''], handle_command [] [] (demo_add 2 ''b'') demo_active)"
    by (rule reg_step.command) (simp_all add: command_ids_def used_ids_def demo_add_def)
qed

end
