(* ===== verification/Registry_Answers.thy ===== *)
theory Registry_Answers
  imports Registry_Behaviour
begin

text \<open>
  Answers of the registry: each management command is decided exactly once, a batch is admitted as a
  whole or not at all, and the shutdown claims followed by the deadlines of the claimed joins empty
  the registry whatever the user tasks do.
\<close>

section \<open>Decisions and spawned actors\<close>

fun effect_decisions :: "registry_effect \<Rightarrow> registry_decision list" where
  "effect_decisions (RgDecided d) = [d]"
| "effect_decisions _ = []"

fun effect_spawns :: "registry_effect \<Rightarrow> task_id list" where
  "effect_spawns (RgSpawned a) = [ta_id a]"
| "effect_spawns _ = []"

definition decisions :: "registry \<Rightarrow> registry_decision list" where
  "decisions s = concat (map effect_decisions (rg_log s))"

definition spawned :: "registry \<Rightarrow> task_id list" where
  "spawned s = concat (map effect_spawns (rg_log s))"

text \<open>The part of a state that only commands change.\<close>

definition talk :: "registry \<Rightarrow> registry_decision list \<times> task_id list \<times> task_id fset" where
  "talk s = (decisions s, spawned s, fmdom (rg_actors s))"

lemma talk_fields:
  "rg_log s' = rg_log s \<Longrightarrow> fmdom (rg_actors s') = fmdom (rg_actors s) \<Longrightarrow> talk s' = talk s"
  by (simp add: talk_def decisions_def spawned_def)

lemma talk_emit:
  "talk (rg_emit e s) = (decisions s @ effect_decisions e, spawned s @ effect_spawns e, fmdom (rg_actors s))"
  by (simp add: talk_def decisions_def spawned_def rg_emit_def)

lemma talk_emit_quiet: "effect_decisions e = [] \<Longrightarrow> effect_spawns e = [] \<Longrightarrow> talk (rg_emit e s) = talk s"
  by (simp add: talk_emit) (simp add: talk_def)

lemma talk_decide: "talk (decide d s) = (decisions s @ [d], spawned s, fmdom (rg_actors s))"
  by (simp add: decide_def talk_emit)

lemma talk_quiet [simp]:
  "talk (rg_publish e s) = talk s" "talk (submit_bundle b s) = talk s"
  "talk (cancel_token i s) = talk s" "talk (spawn_join_report i h s) = talk s"
  "talk (transfer_to_reaper v s) = talk s" "talk (complete_logical i s) = talk s"
  "talk (put_owner i w s) = talk s" "talk (rg_check ok s) = talk s" "talk (pending_dec i s) = talk s"
proof -
  show "talk (rg_publish e s) = talk s" "talk (submit_bundle b s) = talk s"
    by (simp_all add: rg_publish_def submit_bundle_def talk_emit_quiet)
  have "talk (rg_emit RgDrained t) = talk t" for t by (simp add: talk_emit_quiet)
  then show "talk (pending_dec i s) = talk s"
    by (auto simp: pending_dec_def Let_def intro!: talk_fields split: option.splits)
qed (rule talk_fields; simp add: cancel_token_def spawn_join_report_def put_owner_def rg_check_def
    transfer_to_reaper_def complete_logical_def split: option.splits)+

lemma talk_put_actor: "fmlookup (rg_actors s) i = Some t \<Longrightarrow> talk (put_actor i t' s) = talk s"
  by (rule talk_fields) (auto simp: put_actor_def fmdomI)

lemma talk_deliver: "deliver_or_attach_rejection done' x b s = (b', s') \<Longrightarrow> talk s' = talk s"
  by (auto simp: deliver_or_attach_rejection_def talk_emit_quiet split: option.splits if_splits)

lemma talk_fold: "(\<And>x s. talk (f x s) = talk s) \<Longrightarrow> talk (fold f xs s) = talk s"
  by (induction xs arbitrary: s) auto

lemma talk_upd [simp]:
  "talk (s\<lparr>rg_owners := w\<rparr>) = talk s" "talk (s\<lparr>rg_reaps := q\<rparr>) = talk s" "talk (s\<lparr>rg_ready := l\<rparr>) = talk s"
  "talk (s\<lparr>rg_reaper := r\<rparr>) = talk s" "talk (s\<lparr>rg_physical := p\<rparr>) = talk s" "talk (s\<lparr>rg_tasks := t\<rparr>) = talk s"
  "talk (s\<lparr>rg_by_name := n\<rparr>) = talk s" "talk (s\<lparr>rg_live_rx := x\<rparr>) = talk s"
  "talk (s\<lparr>rg_runtime_cancelled := c\<rparr>) = talk s"
  by (rule talk_fields; simp)+

lemma talk_claim: "claim_registered i s = (x, s') \<Longrightarrow> talk s' = talk s"
  by (auto simp: claim_registered_def inc_with_name_def Let_def intro!: talk_fields
      split: option.splits entry_state.splits)

lemma talk_reaper_outcome [simp]: "talk (reaper_outcome out s) = talk s"
proof -
  have "talk (fold submit_bundle bs t) = talk t" for bs t by (rule talk_fold) simp
  then show ?thesis by (simp add: reaper_outcome_def Let_def split: prod.splits del: fold_submit_fields)
qed

lemma talk_claim_and_cancel [simp]: "talk (claim_and_cancel i s) = talk s"
  by (auto simp: claim_and_cancel_def dest: talk_claim split: prod.splits option.splits)

lemma talk_finish_removal [simp]: "talk (finish_removal i h j s) = talk s"
  by (auto simp: finish_removal_def into_report_parts_def talk_put_actor split: option.splits prod.splits)

lemma talk_without_membership [simp]: "talk (finish_without_membership i p s) = talk s"
  by (auto simp: finish_without_membership_def retain_terminal_def dest: talk_deliver split: prod.splits)

lemma talk_finish_report [simp]: "talk (finish_report i s) = talk s"
  by (auto simp: finish_report_def report_outcome_def Let_def talk_emit_quiet dest!: talk_deliver
      split: option.splits removal_owner.splits prod.splits)

lemma talk_bg_step [simp]: "talk (bg_step m s) = talk s"
proof (cases m)
  case (JoinProgress i)
  then show ?thesis
    by (auto simp: join_progress_def Let_def talk_put_actor split: option.splits removal_owner.splits prod.splits)
next
  case (JoinDeadline i)
  then show ?thesis
    by (auto simp: join_deadline_def Let_def talk_put_actor
        split: option.splits removal_owner.splits bool.splits prod.splits)
next
  case (CommitMembership i)
  then show ?thesis
    by (auto simp: commit_membership_def Let_def split: option.splits removal_owner.splits entry_state.splits)
next
  case ShutdownClaims
  have "talk (fold claim_and_cancel xs s) = talk s" for xs by (rule talk_fold) simp
  with ShutdownClaims show ?thesis by (simp add: cancel_all_claims_def)
qed (auto simp: actor_move_def talk_put_actor reap_done_def split: option.splits)

lemma talk_bg_run [simp]: "talk (bg_run ms s) = talk s"
  unfolding bg_run_def by (rule talk_fold) simp

section \<open>Every command is answered once\<close>

text \<open>The kind of answer a command gets.\<close>

fun answer_fits :: "registry_command \<Rightarrow> registry_decision \<Rightarrow> bool" where
  "answer_fits (CmdAdd _ _ _ _ _) (AddDecision _) = True"
| "answer_fits (CmdAddBatch _) (AddDecision _) = True"
| "answer_fits (CmdRemove _) (RemoveDecision _) = True"
| "answer_fits (CmdRemoveByName _) (RemoveDecision _) = True"
| "answer_fits (CmdCancel _) (CancelDecision _) = True"
| "answer_fits (CmdCancelByName _) (CancelDecision _) = True"
| "answer_fits _ _ = False"

definition answered :: "registry \<Rightarrow> registry_decision \<Rightarrow> task_id list \<Rightarrow> registry \<Rightarrow> bool" where
  "answered s d ids s' \<longleftrightarrow>
     talk s' = (decisions s @ [d], spawned s @ ids, fmdom (rg_actors s) |\<union>| fset_of_list ids)"

lemma answered_decide: "talk s' = talk s \<Longrightarrow> answered s d [] (decide d s')"
  by (simp add: answered_def talk_decide) (simp add: talk_def)

lemma answered_talk: "talk s'' = talk s' \<Longrightarrow> answered s d ids s' \<Longrightarrow> answered s d ids s''"
  by (simp add: answered_def)

lemma answered_start: "talk s' = talk s \<Longrightarrow> answered s' d ids t \<Longrightarrow> answered s d ids t"
  by (simp add: answered_def talk_def)

lemma answered_reject:
  "answered s (AddDecision (Inl e)) [] (reject_add i n b done' e s)"
  "answered s (AddDecision (Inl e)) [] (reject_prepared p e s)"
  "answered s (AddDecision (Inl e)) [] (reject_batch classify e items s)"
  "answered s (AddDecision (Inl e)) [] (reject_prepared_batch classify e items s)"
proof -
  show "answered s (AddDecision (Inl e)) [] (reject_add i n b done' e s)"
    by (auto simp: reject_add_def Let_def intro!: answered_talk[OF _ answered_decide[OF refl]]
        dest: talk_deliver split: prod.splits)
  show "answered s (AddDecision (Inl e)) [] (reject_prepared p e s)"
    by (auto simp: reject_prepared_def Let_def intro!: answered_talk[OF _ answered_decide[OF refl]]
        dest: talk_deliver split: prod.splits)
  show "answered s (AddDecision (Inl e)) [] (reject_batch classify e items s)"
    unfolding reject_batch_def Let_def
    by (rule answered_talk[OF talk_fold answered_decide[OF talk_fold]]) (simp_all split: prod.splits)
  show "answered s (AddDecision (Inl e)) [] (reject_prepared_batch classify e items s)"
    unfolding reject_prepared_batch_def
    by (rule answered_decide[OF talk_fold]) (simp split: prod.splits)
qed

lemma talk_insert: "talk (insert_entry p s) = (decisions s, spawned s, finsert (pg_id p) (fmdom (rg_actors s)))"
  by (simp add: talk_def decisions_def spawned_def insert_entry_def)

lemma talk_insert_all:
  "talk (fold insert_entry ps s) = (decisions s, spawned s, fmdom (rg_actors s) |\<union>| fset_of_list (map pg_id ps))"
proof (induction ps arbitrary: s)
  case (Cons p ps)
  from Cons[of "insert_entry p s"] talk_insert[of p s] show ?case by (auto simp: talk_def)
qed (simp add: talk_def)

lemma talk_schedule_all:
  assumes "\<And>p. p \<in> set ps \<Longrightarrow> pg_id p |\<in>| fmdom (rg_actors s) \<and> ta_id (pg_actor p) = pg_id p"
  shows "talk (fold schedule_actor ps s) = (decisions s, spawned s @ map pg_id ps, fmdom (rg_actors s))"
  using assms
proof (induction ps arbitrary: s)
  case (Cons p ps)
  then obtain t where t: "fmlookup (rg_actors s) (pg_id p) = Some t" by (fastforce simp: fmlookup_dom_iff)
  then have "talk (schedule_actor p s) = (decisions s, spawned s @ [pg_id p], fmdom (rg_actors s))"
    using talk_put_actor[OF t, of "spawn_actor t"] Cons.prems[of p]
    by (simp add: schedule_actor_def talk_emit) (simp add: talk_def)
  moreover from this Cons.prems have "talk (fold schedule_actor ps (schedule_actor p s))
      = (decisions (schedule_actor p s), spawned (schedule_actor p s) @ map pg_id ps, fmdom (rg_actors (schedule_actor p s)))"
    by (intro Cons.IH) (auto simp: talk_def)
  ultimately show ?case by (simp add: talk_def)
qed (simp add: talk_def)

lemma answered_accept:
  assumes ids: "\<And>p. p \<in> set ps \<Longrightarrow> ta_id (pg_actor p) = pg_id p" and s: "talk s1 = talk s"
  shows "answered s (AddDecision (Inr ())) (map pg_id ps)
    (fold schedule_actor ps (decide (AddDecision (Inr ()))
       (fold (\<lambda>p. rg_publish (f p)) ps (bg_run ms (fold insert_entry ps s1)))))"
proof -
  let ?s2 = "fold (\<lambda>p. rg_publish (f p)) ps (bg_run ms (fold insert_entry ps s1))"
  have "talk ?s2 = talk (bg_run ms (fold insert_entry ps s1))" by (rule talk_fold) simp
  then have "talk ?s2 = talk (fold insert_entry ps s1)" by simp
  then have two: "talk ?s2 = (decisions s, spawned s, fmdom (rg_actors s) |\<union>| fset_of_list (map pg_id ps))"
    using s talk_insert_all[of ps s1] by (simp add: talk_def)
  have "talk (fold schedule_actor ps (decide (AddDecision (Inr ())) ?s2))
      = (decisions (decide (AddDecision (Inr ())) ?s2), spawned (decide (AddDecision (Inr ())) ?s2) @ map pg_id ps,
         fmdom (rg_actors (decide (AddDecision (Inr ())) ?s2)))"
    using two ids by (intro talk_schedule_all) (auto simp: talk_def fset_of_list_elem)
  moreover have "talk (decide (AddDecision (Inr ())) ?s2)
      = (decisions s @ [AddDecision (Inr ())], spawned s, fmdom (rg_actors s) |\<union>| fset_of_list (map pg_id ps))"
    using two by (simp add: talk_decide) (simp add: talk_def)
  ultimately show ?thesis by (simp add: answered_def) (simp add: talk_def)
qed

lemma prepared_actor_id [simp]: "ta_id (pg_actor (prepare_registration s i n owned done')) = i"
  by (simp add: prepare_registration_def Let_def)

section \<open>Membership\<close>

text \<open>Both indexes of the registry, which only admission and the removal of a member write.\<close>

definition membership :: "registry \<Rightarrow> (task_id, reg_entry) fmap \<times> (name, task_id) fmap" where
  "membership s = (rg_tasks s, rg_by_name s)"

lemma membership_kept [simp]:
  "membership (rg_emit e s) = membership s" "membership (rg_publish ev s) = membership s"
  "membership (decide d s) = membership s" "membership (submit_bundle b s) = membership s"
  "membership (put_actor i t s) = membership s" "membership (rg_check ok s) = membership s"
  "membership (cancel_token i s) = membership s" "membership (spawn_join_report i h s) = membership s"
  by (simp_all add: membership_def rg_emit_def rg_publish_def decide_def submit_bundle_def put_actor_def rg_check_def
      cancel_token_def spawn_join_report_def put_owner_def)

lemma membership_schedule [simp]: "membership (schedule_actor p s) = membership s"
  by (simp add: schedule_actor_def split: option.split)

lemma membership_fold: "(\<And>x s. membership (f x s) = membership s) \<Longrightarrow> membership (fold f xs s) = membership s"
  by (induction xs arbitrary: s) auto

lemma membership_deliver: "deliver_or_attach_rejection done' x b s = (b', s') \<Longrightarrow> membership s' = membership s"
  by (auto simp: deliver_or_attach_rejection_def split: option.splits if_splits)

lemma membership_reject [simp]:
  "membership (reject_add i n b done' e s) = membership s" "membership (reject_prepared p e s) = membership s"
  "membership (reject_batch classify e items s) = membership s"
  "membership (reject_prepared_batch classify e items s) = membership s"
proof -
  show "membership (reject_add i n b done' e s) = membership s" "membership (reject_prepared p e s) = membership s"
    by (auto simp: reject_add_def reject_prepared_def Let_def dest!: membership_deliver split: prod.splits)
  show "membership (reject_batch classify e items s) = membership s"
    "membership (reject_prepared_batch classify e items s) = membership s"
    by (simp_all add: reject_batch_def reject_prepared_batch_def Let_def membership_fold split: prod.split)
qed

text \<open>A claim changes the state of one entry only.\<close>

lemma claim_members:
  "claim_registered i s = (x, s') \<Longrightarrow> fmdom (rg_tasks s') = fmdom (rg_tasks s) \<and> rg_by_name s' = rg_by_name s"
  by (auto simp: claim_registered_def inc_with_name_def Let_def fmdomI split: option.splits entry_state.splits)

definition same_members :: "registry \<Rightarrow> registry \<Rightarrow> bool" where
  "same_members s s' \<longleftrightarrow> fmdom (rg_tasks s') = fmdom (rg_tasks s) \<and> rg_by_name s' = rg_by_name s"

lemma same_members_via: "same_members s s1 \<Longrightarrow> membership s' = membership s1 \<Longrightarrow> same_members s s'"
  by (simp add: same_members_def membership_def)

lemma same_members_commands:
  "same_members s (remove_task i s)" "same_members s (remove_task_by_name n s)"
  "same_members s (cancel_task i s)" "same_members s (cancel_task_by_name n s)"
proof -
  have refl: "same_members t t" for t by (simp add: same_members_def)
  have claim: "claim_registered i s = (x, s1) \<Longrightarrow> same_members s s1" for i x s1
    by (simp add: same_members_def claim_members)
  show "same_members s (remove_task i s)"
    by (auto simp: remove_task_def intro: same_members_via[OF claim] split: prod.splits option.splits)
  show "same_members s (remove_task_by_name n s)"
    by (auto simp: remove_task_by_name_def Let_def intro: same_members_via[OF claim] same_members_via[OF refl]
        split: prod.splits option.splits)
  have action: "cancel_action i s = (x, s1) \<Longrightarrow> same_members s s1" for i x s1
    by (auto simp: cancel_action_def intro: claim same_members_via[OF claim] refl
        split: option.splits entry_state.splits prod.splits)
  have resolve: "membership (resolve_cancel_action x t) = membership t" for x t
    by (auto simp: resolve_cancel_action_def split: option.split)
  show "same_members s (cancel_task i s)" "same_members s (cancel_task_by_name n s)"
    by (auto simp: cancel_task_def cancel_task_by_name_def resolve
        intro: same_members_via[OF action] same_members_via[OF refl] split: option.splits prod.splits)
qed

text \<open>The items of a command that adds tasks, and the entry each of them gets.\<close>

fun command_items :: "registry_command \<Rightarrow> (task_id \<times> name \<times> task_spec owned_task \<times> outcome_tx option) list" where
  "command_items (CmdAdd i n owned done' _) = [(i, n, owned, done')]"
| "command_items (CmdAddBatch items) = map (\<lambda>x. (abi_id x, abi_name x, abi_owned x, None)) items"
| "command_items _ = []"

definition item_entry :: "task_id \<Rightarrow> name \<Rightarrow> task_spec owned_task \<Rightarrow> outcome_tx option \<Rightarrow> reg_entry" where
  "item_entry i n owned done' =
     \<lparr>en_name = n,
      en_state = Registered \<lparr>hd_join = actor_handle_new i n, hd_done = done', hd_completion = i, hd_cleanup = ot_cleanup owned\<rparr>\<rparr>"

text \<open>
  The members of \<open>u\<close> are those of \<open>v\<close> and the items of the command, each new in the name index of \<open>v\<close>
  and registered in both indexes of \<open>u\<close> with its handle; nothing else differs but the actor table.
\<close>

definition registers :: "registry_command \<Rightarrow> registry \<Rightarrow> registry \<Rightarrow> bool" where
  "registers cmd v u \<longleftrightarrow>
     (\<forall>(i, n, owned, done') \<in> set (command_items cmd).
        fmlookup (rg_by_name v) n = None \<and> \<not> reserves_name (rg_reaper v) n
        \<and> fmlookup (rg_tasks u) i = Some (item_entry i n owned done') \<and> fmlookup (rg_by_name u) n = Some i)
     \<and> (\<forall>i. i \<notin> fst ` set (command_items cmd) \<longrightarrow> fmlookup (rg_tasks u) i = fmlookup (rg_tasks v) i)
     \<and> (\<forall>n. n \<notin> (fst \<circ> snd) ` set (command_items cmd) \<longrightarrow> fmlookup (rg_by_name u) n = fmlookup (rg_by_name v) n)
     \<and> u\<lparr>rg_tasks := rg_tasks v, rg_by_name := rg_by_name v, rg_actors := rg_actors v\<rparr> = v"

lemma insert_all_others:
  "i \<notin> pg_id ` set ps \<Longrightarrow> fmlookup (rg_tasks (fold insert_entry ps v)) i = fmlookup (rg_tasks v) i"
  "n \<notin> pg_name ` set ps \<Longrightarrow> fmlookup (rg_by_name (fold insert_entry ps v)) n = fmlookup (rg_by_name v) n"
  "(fold insert_entry ps v)\<lparr>rg_tasks := rg_tasks w, rg_by_name := rg_by_name w, rg_actors := rg_actors w\<rparr>
     = v\<lparr>rg_tasks := rg_tasks w, rg_by_name := rg_by_name w, rg_actors := rg_actors w\<rparr>"
  by (induction ps arbitrary: v) (auto simp: insert_entry_def)

lemma insert_all_items:
  assumes "distinct (map pg_id ps)" and "distinct (map pg_name ps)" and "p \<in> set ps"
  shows "fmlookup (rg_tasks (fold insert_entry ps v)) (pg_id p) = Some \<lparr>en_name = pg_name p,
      en_state = Registered \<lparr>hd_join = pg_join p, hd_done = pg_done p, hd_completion = pg_completion p, hd_cleanup = pg_cleanup p\<rparr>\<rparr>"
    and "fmlookup (rg_by_name (fold insert_entry ps v)) (pg_name p) = Some (pg_id p)"
proof -
  obtain pre post where "ps = pre @ p # post" using split_list[OF assms(3)] by blast
  with assms(1,2) have out: "pg_id p \<notin> pg_id ` set post" "pg_name p \<notin> pg_name ` set post"
    and f: "fold insert_entry ps v = fold insert_entry post (insert_entry p (fold insert_entry pre v))" by auto
  show "fmlookup (rg_tasks (fold insert_entry ps v)) (pg_id p) = Some \<lparr>en_name = pg_name p,
      en_state = Registered \<lparr>hd_join = pg_join p, hd_done = pg_done p, hd_completion = pg_completion p, hd_cleanup = pg_cleanup p\<rparr>\<rparr>"
    "fmlookup (rg_by_name (fold insert_entry ps v)) (pg_name p) = Some (pg_id p)"
    unfolding f insert_all_others(1)[OF out(1)] insert_all_others(2)[OF out(2)] by (simp_all add: insert_entry_def)
qed

lemma registers_insert_all:
  assumes "distinct (map fst (command_items cmd))" and "distinct (map (fst \<circ> snd) (command_items cmd))"
    and "\<forall>(i, n, _) \<in> set (command_items cmd). name_free v n"
    and "ps = map (\<lambda>(i, n, owned, done'). prepare_registration s i n owned done') (command_items cmd)"
  shows "registers cmd v (fold insert_entry ps v)"
proof -
  have ids: "map pg_id ps = map fst (command_items cmd)" "map pg_name ps = map (fst \<circ> snd) (command_items cmd)"
    using assms(4) by auto
  then have sets: "pg_id ` set ps = fst ` set (command_items cmd)" "pg_name ` set ps = (fst \<circ> snd) ` set (command_items cmd)"
    by (metis list.set_map)+
  note items = insert_all_items[of ps, unfolded ids, OF assms(1,2)]
  have entry: "fmlookup (rg_tasks (fold insert_entry ps v)) i = Some (item_entry i n owned done')
      \<and> fmlookup (rg_by_name (fold insert_entry ps v)) n = Some i"
    if "(i, n, owned, done') \<in> set (command_items cmd)" for i n owned done'
  proof -
    have p: "prepare_registration s i n owned done' \<in> set ps"
      unfolding assms(4) set_map by (rule image_eqI[OF _ that]) simp
    show ?thesis using items[OF p, of v] by (simp add: item_entry_def)
  qed
  show ?thesis
    using entry assms(3) insert_all_others(1,2)[of _ ps v] insert_all_others(3)[where ps = ps and v = v and w = v] sets
    unfolding registers_def name_free_def by fastforce
qed

lemma command_items_ids: "map fst (command_items cmd) = command_ids cmd"
  by (cases cmd) (simp_all add: command_ids_def comp_def)

text \<open>What the decision on an add or a batch does to the members.\<close>

definition admission_members ::
  "registry_command \<Rightarrow> bg_move list \<Rightarrow> bg_move list \<Rightarrow> registry \<Rightarrow> bool \<Rightarrow> registry \<Rightarrow> bool" where
  "admission_members cmd mv1 mv2 s accepted t \<longleftrightarrow>
     (if accepted then \<exists>u. registers cmd (bg_run mv1 s) u \<and> membership t = membership (bg_run mv2 u)
      else membership t \<in> {membership s, membership (bg_run mv1 s)})"

section \<open>Every command is decided once\<close>

lemma answered_add:
  assumes "cmd = CmdAdd i n owned done' c"
  shows "\<exists>r. answered s (AddDecision r) (if r = Inr () then [i] else []) (spawn_and_register mv1 mv2 i n owned done' s)
    \<and> admission_members cmd mv1 mv2 s (r = Inr ()) (spawn_and_register mv1 mv2 i n owned done' s)"
proof (cases "validate_add s n")
  case None
  let ?p = "prepare_registration s i n owned done'" and ?s1 = "bg_run mv1 s"
  let ?t = "spawn_and_register mv1 mv2 i n owned done' s"
  show ?thesis
  proof (cases "validate_add ?s1 n")
    case v: None
    from answered_accept[of "[?p]" ?s1 s "\<lambda>p. task_added (pg_id p) (pg_name p)" mv2] None v
    have "answered s (AddDecision (Inr ())) [i] ?t"
      by (simp add: spawn_and_register_def Let_def)
    moreover have "registers cmd ?s1 (insert_entry ?p ?s1)"
      using registers_insert_all[of cmd ?s1 "[?p]" s] validate_add_free[OF v] assms by simp
    then have "admission_members cmd mv1 mv2 s True ?t"
      using None v by (auto simp: admission_members_def spawn_and_register_def Let_def)
    ultimately show ?thesis by (intro exI[of _ "Inr ()"]) simp
  next
    case (Some e)
    with None answered_start[OF talk_bg_run[of mv1 s] answered_reject(2)[where s = ?s1 and p = ?p and e = e]]
    have "answered s (AddDecision (Inl e)) [] ?t" "membership ?t = membership ?s1"
      by (simp_all add: spawn_and_register_def Let_def)
    then show ?thesis by (intro exI[of _ "Inl e"]) (simp add: admission_members_def)
  qed
next
  case (Some e)
  with answered_reject(1)[where s = s and e = e]
  have "answered s (AddDecision (Inl e)) [] (spawn_and_register mv1 mv2 i n owned done' s)"
    "membership (spawn_and_register mv1 mv2 i n owned done' s) = membership s"
    by (simp_all add: spawn_and_register_def)
  then show ?thesis by (intro exI[of _ "Inl e"]) (simp add: admission_members_def)
qed

lemma answered_batch:
  assumes "cmd = CmdAddBatch items" and "distinct (map abi_id items)"
  shows "\<exists>r. answered s (AddDecision r) (if r = Inr () then map abi_id items else []) (spawn_and_register_batch mv1 mv2 items s)
    \<and> admission_members cmd mv1 mv2 s (r = Inr ()) (spawn_and_register_batch mv1 mv2 items s)"
proof -
  let ?keys = "map (\<lambda>x. (abi_id x, abi_name x)) items" and ?s1 = "bg_run mv1 s"
  let ?t = "spawn_and_register_batch mv1 mv2 items s"
  have rejected: ?thesis if "answered s (AddDecision (Inl e)) [] ?t" "membership ?t \<in> {membership s, membership ?s1}" for e
    using that by (intro exI[of _ "Inl e"]) (simp add: admission_members_def)
  show ?thesis
  proof (cases "validate_batch s ?keys")
    case None
    let ?ps = "map (\<lambda>x. prepare_registration s (abi_id x) (abi_name x) (abi_owned x) None) items"
    show ?thesis
    proof (cases "validate_batch ?s1 ?keys")
      case v: None
      have "ta_id (pg_actor p) = pg_id p" if "p \<in> set ?ps" for p using that by auto
      from answered_accept[of ?ps ?s1 s "\<lambda>p. task_added (pg_id p) (pg_name p)" mv2, OF this] None v
      have "answered s (AddDecision (Inr ())) (map pg_id ?ps) ?t"
        by (simp add: spawn_and_register_batch_def Let_def)
      moreover have "registers cmd ?s1 (fold insert_entry ?ps ?s1)"
        by (rule registers_insert_all[where s = s])
          (use validate_batch_none(1,2)[OF v] assms in \<open>auto simp: comp_def\<close>)
      then have "admission_members cmd mv1 mv2 s True ?t"
        using None v
        by (auto simp: admission_members_def spawn_and_register_batch_def Let_def membership_fold intro!: exI)
      ultimately show ?thesis by (intro exI[of _ "Inr ()"]) (simp add: comp_def)
    next
      case (Some ce)
      obtain classify e where ce: "ce = (classify, e)" by (cases ce)
      have "answered s (AddDecision (Inl e)) [] (reject_batch classify e items' ?s1)"
        "answered s (AddDecision (Inl e)) [] (reject_prepared_batch classify e items' ?s1)" for items'
        by (rule answered_start[OF talk_bg_run[of mv1 s]], rule answered_reject)+
      with None Some ce have "answered s (AddDecision (Inl e)) [] ?t" "membership ?t = membership ?s1"
        by (cases e; simp add: spawn_and_register_batch_def Let_def)+
      then show ?thesis by (intro rejected) simp_all
    qed
  next
    case (Some ce)
    obtain classify e where ce: "ce = (classify, e)" by (cases ce)
    with Some have "answered s (AddDecision (Inl e)) [] ?t" "membership ?t = membership s"
      by (simp_all add: spawn_and_register_batch_def Let_def answered_reject)
    then show ?thesis by (intro rejected) simp_all
  qed
qed

lemma answered_claimed:
  assumes "claim_registered i s = (x, s1)"
  shows "answered s d [] (decide d s1)" "answered s d [] (decide d (rg_publish e s1))"
    "answered s d [] (spawn_join_report i h (decide d (cancel_token i s1)))"
    "answered s d [] (spawn_join_report i h (decide d (cancel_token i (rg_publish e s1))))"
  using talk_claim[OF assms]
  by (simp_all add: answered_decide answered_talk[OF talk_quiet(4) answered_decide])

lemma answered_remove:
  "\<exists>b. answered s (RemoveDecision b) [] (remove_task i s)"
  "\<exists>b. answered s (RemoveDecision b) [] (remove_task_by_name n s)"
proof -
  show "\<exists>b. answered s (RemoveDecision b) [] (remove_task i s)"
    unfolding remove_task_def by (auto intro: answered_claimed split: prod.splits option.splits)
  show "\<exists>b. answered s (RemoveDecision b) [] (remove_task_by_name n s)"
    unfolding remove_task_by_name_def
    by (auto simp: Let_def intro: answered_claimed answered_decide split: prod.splits option.splits)
qed

lemma answered_cancel_action:
  "cancel_action i s = (action, s1) \<Longrightarrow>
     \<exists>d. answered s (CancelDecision d) [] (resolve_cancel_action action (rg_publish ev s1))"
proof (erule cancel_action_cases)
  fix e :: reg_entry and h :: reg_handle
  let ?s1 = "inc_with_name i (en_name e) (s\<lparr>rg_tasks := fmupd i (e\<lparr>en_state := Removing (hd_completion h)\<rparr>) (rg_tasks s)\<rparr>)"
  assume T: "fmlookup (rg_tasks s) i = Some e" "en_state e = Registered h"
    and a: "action = Some (\<lparr>cd_id = i, cd_claimed = True, cd_completion = hd_completion h\<rparr>, Some h)" "s1 = ?s1"
  then have c: "claim_registered i s = (Some (en_name e, h, hd_completion h), ?s1)"
    by (simp add: claim_registered_def Let_def)
  show ?thesis
    using answered_claimed(4)[OF c, of "CancelDecision (Some \<lparr>cd_id = i, cd_claimed = True, cd_completion = hd_completion h\<rparr>)" h ev] a
    by (auto simp: resolve_cancel_action_def)
qed (auto simp: resolve_cancel_action_def intro!: exI answered_decide)

lemma answered_cancel:
  "\<exists>d. answered s (CancelDecision d) [] (cancel_task i s)"
  "\<exists>d. answered s (CancelDecision d) [] (cancel_task_by_name n s)"
proof -
  have none: "\<exists>d. answered s (CancelDecision d) [] (decide (CancelDecision None) s)"
    using answered_decide by blast
  show "\<exists>d. answered s (CancelDecision d) [] (cancel_task i s)"
    using none answered_cancel_action[of i s]
    by (auto simp: cancel_task_def resolve_cancel_action_def[of None] split: option.splits prod.splits)
  show "\<exists>d. answered s (CancelDecision d) [] (cancel_task_by_name n s)"
    using none answered_cancel_action[of _ s]
    by (auto simp: cancel_task_by_name_def split: option.splits prod.splits)
qed

text \<open>
  C28. Every command is answered exactly once, and admission is all or nothing. Handling a command
  appends one decision of the command's kind, whatever the registry state and whatever other tasks do
  in between. If the decision accepts an add or a batch, then under one hold of the write lock every
  item of the command is entered into both indexes, the identity with its handle, outcome sender and
  cleanup bundle and the name with the identity, no name of another owner or of an unfinished physical
  attempt is overwritten and nothing else changes; exactly these actors are spawned, in order, and
  after the lock only background moves touch the members. If the decision rejects, no identity, name
  or actor is added. A removal or cancellation adds and drops no member.
\<close>

theorem command_answered_once:
  assumes "distinct (command_ids cmd)" and "t = handle_command mv1 mv2 cmd s"
  shows "\<exists>d. answer_fits cmd d
     \<and> decisions t = decisions s @ [d]
     \<and> spawned t = spawned s @ (if d = AddDecision (Inr ()) then command_ids cmd else [])
     \<and> fset (fmdom (rg_actors t))
         = fset (fmdom (rg_actors s)) \<union> (if d = AddDecision (Inr ()) then set (command_ids cmd) else {})
     \<and> (d = AddDecision (Inr ()) \<longrightarrow>
          (\<exists>u. registers cmd (bg_run mv1 s) u
             \<and> rg_tasks t = rg_tasks (bg_run mv2 u) \<and> rg_by_name t = rg_by_name (bg_run mv2 u)))
     \<and> (\<forall>e. d = AddDecision (Inl e) \<longrightarrow>
          (rg_tasks t, rg_by_name t) \<in> {(rg_tasks s, rg_by_name s), (rg_tasks (bg_run mv1 s), rg_by_name (bg_run mv1 s))})
     \<and> ((\<forall>r. d \<noteq> AddDecision r) \<longrightarrow> fmdom (rg_tasks t) = fmdom (rg_tasks s) \<and> rg_by_name t = rg_by_name s)"
proof -
  have add: ?thesis if "answer_fits cmd (AddDecision r)"
      "answered s (AddDecision r) (if r = Inr () then command_ids cmd else []) t"
      "admission_members cmd mv1 mv2 s (r = Inr ()) t" for r
    using that
    by (intro exI[of _ "AddDecision r"])
      (auto simp: answered_def talk_def fset_of_list.rep_eq admission_members_def membership_def split: if_splits)
  have small: ?thesis if "answer_fits cmd d" "\<forall>r. d \<noteq> AddDecision r" "answered s d [] t" "same_members s t" for d
    using that by (intro exI[of _ d]) (auto simp: answered_def talk_def same_members_def)
  show ?thesis
  proof (cases cmd)
    case (CmdAdd i n owned done' c)
    have t: "t = spawn_and_register mv1 mv2 i n owned done' s" "command_ids cmd = [i]" "answer_fits cmd (AddDecision r)" for r
      using CmdAdd assms(2) by (simp_all add: handle_command_def command_ids_def)
    show ?thesis using answered_add[OF CmdAdd, of s mv1 mv2, folded t(1) t(2)] add[OF t(3)] by blast
  next
    case (CmdAddBatch items)
    have t: "t = spawn_and_register_batch mv1 mv2 items s" "command_ids cmd = map abi_id items" "answer_fits cmd (AddDecision r)" for r
      using CmdAddBatch assms(2) by (simp_all add: handle_command_def command_ids_def)
    show ?thesis
      using answered_batch[OF CmdAddBatch assms(1)[unfolded t(2)], of s mv1 mv2, folded t(1) t(2)] add[OF t(3)] by blast
  next
    case (CmdRemove i)
    have t: "t = remove_task i s" "answer_fits cmd (RemoveDecision x)" for x using CmdRemove assms(2) by (simp_all add: handle_command_def)
    show ?thesis
      using answered_remove(1)[of s i, folded t(1)] small[OF t(2)] same_members_commands(1)[of s i, folded t(1)] by blast
  next
    case (CmdRemoveByName n)
    have t: "t = remove_task_by_name n s" "answer_fits cmd (RemoveDecision x)" for x using CmdRemoveByName assms(2) by (simp_all add: handle_command_def)
    show ?thesis
      using answered_remove(2)[of s n, folded t(1)] small[OF t(2)] same_members_commands(2)[of s n, folded t(1)] by blast
  next
    case (CmdCancel i)
    have t: "t = cancel_task i s" "answer_fits cmd (CancelDecision x)" for x using CmdCancel assms(2) by (simp_all add: handle_command_def)
    show ?thesis
      using answered_cancel(1)[of s i, folded t(1)] small[OF t(2)] same_members_commands(3)[of s i, folded t(1)] by blast
  next
    case (CmdCancelByName n)
    have t: "t = cancel_task_by_name n s" "answer_fits cmd (CancelDecision x)" for x using CmdCancelByName assms(2) by (simp_all add: handle_command_def)
    show ?thesis
      using answered_cancel(2)[of s n, folded t(1)] small[OF t(2)] same_members_commands(4)[of s n, folded t(1)] by blast
  qed
qed

theorem command_answered_once_witness:
  "let t = handle_command [] [] (demo_add 1 ''a'') (registry_new False task_defaults_default None {||})
   in \<exists>h. fmlookup (rg_tasks t) 1 = Some \<lparr>en_name = ''a'', en_state = Registered h\<rparr> \<and> fmlookup (rg_by_name t) ''a'' = Some 1"
proof -
  let ?s = "registry_new False task_defaults_default None {||}"
  let ?t = "handle_command [] [] (demo_add 1 ''a'') ?s"
  have accepted: "decisions ?t = [AddDecision (Inr ())]" "decisions ?s = []"
    by (simp_all add: demo_run decisions_def)
  have "distinct (command_ids (demo_add 1 ''a''))" by (simp add: demo_add_def command_ids_def)
  from command_answered_once[OF this refl, of "[]" "[]" ?s] accepted obtain u where
    "registers (demo_add 1 ''a'') (bg_run [] ?s) u" "rg_tasks ?t = rg_tasks (bg_run [] u)" "rg_by_name ?t = rg_by_name (bg_run [] u)"
    by auto
  then show ?thesis by (auto simp: registers_def demo_add_def item_entry_def bg_run_def Let_def)
qed

section \<open>Shutdown drains the registry\<close>

text \<open>
  The moves that finish one claimed removal without help of the user task: the exit of a wrapper that
  already sent its result, the deadline of the join, its poll and the two sections of the report.
\<close>

definition drain_moves :: "task_id \<Rightarrow> bg_move list" where
  "drain_moves i = [WrapperExits i, JoinDeadline i, JoinProgress i, CommitMembership i, FinishReport i]"

definition shutdown_drain :: "registry \<Rightarrow> registry" where
  "shutdown_drain s =
     (let s = cancel_all_claims s
      in bg_run (concat (map drain_moves (hm_keys (rg_owners s)))) s)"

definition all_removing :: "registry \<Rightarrow> bool" where
  "all_removing s \<longleftrightarrow> (\<forall>i e h. fmlookup (rg_tasks s) i = Some e \<longrightarrow> en_state e \<noteq> Registered h)"

definition owner_at :: "registry \<Rightarrow> task_id \<Rightarrow> removal_owner option" where
  "owner_at s i = fmlookup (rg_owners s) i"

text \<open>Effects of the moves on owners and membership.\<close>

lemma owners_quiet [simp]:
  "rg_owners (rg_publish e s) = rg_owners s" "rg_owners (submit_bundle b s) = rg_owners s"
  "rg_owners (rg_emit x s) = rg_owners s" "rg_owners (transfer_to_reaper v s) = rg_owners s"
  "rg_owners (complete_logical i s) = rg_owners s" "rg_owners (rg_check ok s) = rg_owners s"
  "rg_owners (pending_dec i s) = rg_owners s" "rg_owners (put_actor i t s) = rg_owners s"
  "rg_owners (reaper_outcome out s) = rg_owners s"
  by (auto simp: rg_publish_def submit_bundle_def rg_emit_def transfer_to_reaper_def complete_logical_def
      rg_check_def pending_dec_def put_actor_def reaper_outcome_def Let_def split: option.splits prod.splits)

lemma tasks_quiet [simp]:
  "rg_tasks (rg_publish e s) = rg_tasks s" "rg_tasks (submit_bundle b s) = rg_tasks s"
  "rg_tasks (rg_emit x s) = rg_tasks s" "rg_tasks (transfer_to_reaper v s) = rg_tasks s"
  "rg_tasks (complete_logical i s) = rg_tasks s" "rg_tasks (rg_check ok s) = rg_tasks s"
  "rg_tasks (pending_dec i s) = rg_tasks s" "rg_tasks (put_actor i t s) = rg_tasks s"
  "rg_tasks (reaper_outcome out s) = rg_tasks s"
  by (auto simp: rg_publish_def submit_bundle_def rg_emit_def transfer_to_reaper_def complete_logical_def
      rg_check_def pending_dec_def put_actor_def reaper_outcome_def Let_def split: option.splits prod.splits)

lemma deliver_keeps:
  "deliver_or_attach_rejection done' x b s = (b', s') \<Longrightarrow> rg_owners s' = rg_owners s \<and> rg_tasks s' = rg_tasks s"
  by (auto simp: deliver_or_attach_rejection_def split: option.splits if_splits)

lemma finish_removal_keeps:
  "\<exists>p. rg_owners (finish_removal i h j s) = fmupd i (Committing p) (rg_owners s)"
  "rg_tasks (finish_removal i h j s) = rg_tasks s"
  by (auto simp: finish_removal_def into_report_parts_def split: option.splits prod.splits)

lemma without_membership_keeps:
  "rg_owners (finish_without_membership i p s) = rg_owners s \<and> rg_tasks (finish_without_membership i p s) = rg_tasks s"
  by (auto simp: finish_without_membership_def retain_terminal_def dest: deliver_keeps split: prod.splits)

lemma report_keeps:
  "report_outcome i n p s = (b, s') \<Longrightarrow> rg_owners s' = rg_owners s \<and> rg_tasks s' = rg_tasks s"
  by (auto simp: report_outcome_def Let_def dest!: deliver_keeps split: prod.splits)

lemma finish_report_keeps:
  "rg_tasks (finish_report i s) = rg_tasks s"
  "owner_at (finish_report i s) = (case owner_at s i of
     Some (Reporting _ _ _ _) \<Rightarrow> (owner_at s)(i := None) | _ \<Rightarrow> owner_at s)"
proof -
  have "rg_tasks (finish_report i s) = rg_tasks s \<and> owner_at (finish_report i s) = (case owner_at s i of
     Some (Reporting _ _ _ _) \<Rightarrow> (owner_at s)(i := None) | _ \<Rightarrow> owner_at s)"
  proof (cases "\<exists>p n l e. fmlookup (rg_owners s) i = Some (Reporting p n l e)")
    case True
    then obtain p n l e where w: "fmlookup (rg_owners s) i = Some (Reporting p n l e)" by blast
    obtain b s1 where r: "report_outcome i n p (s\<lparr>rg_owners := fmdrop i (rg_owners s)\<rparr>) = (b, s1)" by fastforce
    from report_keeps[OF r] w r show ?thesis
      by (simp add: finish_report_def owner_at_def Let_def fun_eq_iff)
  qed (auto simp: finish_report_def owner_at_def split: option.splits removal_owner.splits)
  then show "rg_tasks (finish_report i s) = rg_tasks s"
    "owner_at (finish_report i s) = (case owner_at s i of
       Some (Reporting _ _ _ _) \<Rightarrow> (owner_at s)(i := None) | _ \<Rightarrow> owner_at s)" by blast+
qed

lemma commit_keeps:
  "rg_tasks (commit_membership i s) = rg_tasks s \<or> rg_tasks (commit_membership i s) = fmdrop i (rg_tasks s)"
  "j \<noteq> i \<Longrightarrow> owner_at (commit_membership i s) j = owner_at s j"
  by (auto simp: commit_membership_def owner_at_def Let_def without_membership_keeps
      split: option.splits removal_owner.splits entry_state.splits)

lemma progress_keeps:
  "rg_tasks (join_progress i s) = rg_tasks s" "j \<noteq> i \<Longrightarrow> owner_at (join_progress i s) j = owner_at s j"
  "\<forall>h f a. owner_at s i \<noteq> Some (Joining h f a) \<Longrightarrow> join_progress i s = s"
proof -
  have "rg_tasks (join_progress i s) = rg_tasks s \<and> (j \<noteq> i \<longrightarrow> owner_at (join_progress i s) j = owner_at s j)" for j
  proof (cases "\<exists>h f a t. fmlookup (rg_owners s) i = Some (Joining h f a) \<and> fmlookup (rg_actors s) i = Some t")
    case True
    then obtain h f a t where w: "fmlookup (rg_owners s) i = Some (Joining h f a)" "fmlookup (rg_actors s) i = Some t"
      by blast
    obtain r j' t' where p: "handle_poll (hd_join h) t = (r, j', t')" by (metis surj_pair)
    show ?thesis
    proof (cases r)
      case (Some y)
      obtain p where "rg_owners (finish_removal i (h\<lparr>hd_join := j'\<rparr>) (if a then ForceAborted else Joined y)
          (put_actor i t' s)) = fmupd i (Committing p) (rg_owners s)"
        using finish_removal_keeps(1)[of i "h\<lparr>hd_join := j'\<rparr>" "if a then ForceAborted else Joined y" "put_actor i t' s"]
        by auto
      with Some w p show ?thesis by (simp add: join_progress_def owner_at_def Let_def finish_removal_keeps)
    qed (use w p in \<open>simp add: join_progress_def owner_at_def Let_def\<close>)
  qed (auto simp: join_progress_def split: option.splits removal_owner.splits)
  then show "rg_tasks (join_progress i s) = rg_tasks s" "j \<noteq> i \<Longrightarrow> owner_at (join_progress i s) j = owner_at s j"
    by blast+
  show "\<forall>h f a. owner_at s i \<noteq> Some (Joining h f a) \<Longrightarrow> join_progress i s = s"
    by (auto simp: join_progress_def owner_at_def split: option.splits removal_owner.splits)
qed

lemma deadline_keeps:
  "rg_tasks (join_deadline i s) = rg_tasks s" "j \<noteq> i \<Longrightarrow> owner_at (join_deadline i s) j = owner_at s j"
  "\<forall>h f a. owner_at s i \<noteq> Some (Joining h f a) \<Longrightarrow> join_deadline i s = s"
  by (auto simp: join_deadline_def owner_at_def Let_def
      split: option.splits removal_owner.splits bool.splits prod.splits)

lemma exit_keeps:
  "rg_tasks (bg_step (WrapperExits i) s) = rg_tasks s" "owner_at (bg_step (WrapperExits i) s) = owner_at s"
  by (auto simp: actor_move_def put_actor_def owner_at_def split: option.splits)

lemma drain_other:
  assumes "m \<in> set (drain_moves i)"
  shows "j \<noteq> i \<Longrightarrow> owner_at (bg_step m s) j = owner_at s j" "all_removing s \<Longrightarrow> all_removing (bg_step m s)"
proof -
  show "j \<noteq> i \<Longrightarrow> owner_at (bg_step m s) j = owner_at s j"
    using assms finish_report_keeps(2)[of i s]
    by (auto simp: drain_moves_def exit_keeps[simplified] deadline_keeps progress_keeps commit_keeps
        split: option.splits removal_owner.splits)
  show "all_removing s \<Longrightarrow> all_removing (bg_step m s)"
    using assms commit_keeps(1)[of i s]
    by (auto simp: drain_moves_def all_removing_def exit_keeps[simplified] deadline_keeps progress_keeps
        finish_report_keeps split: if_splits)
qed

text \<open>A claimed join whose wrapper has ended or whose deadline has passed is decided by the next poll.\<close>

lemma progress_commits:
  assumes inv: "rinv U B W s" and w: "owner_at s i = Some (Joining h f a)"
    and ready: "a \<or> (\<exists>t. fmlookup (rg_actors s) i = Some t \<and> task_ended t)"
  shows "\<exists>p. owner_at (join_progress i s) i = Some (Committing p)"
proof -
  note w' = w[unfolded owner_at_def]
  obtain e t where g: "fmlookup (rg_tasks s) i = Some e" "fmlookup (rg_actors s) i = Some t"
    "join_ok i (en_name e) (hd_join h) f a (reaper_rec (rg_reaper s) i) (i |\<in>| rg_reaps s) t (i |\<in>| rg_cancelled s)"
    by (rule joining_facts[OF inv w'])
  obtain r j t' where p: "handle_poll (hd_join h) t = (r, j, t')" by (metis surj_pair)
  have "r \<noteq> None"
  proof (cases a)
    case True
    with g(3) p show ?thesis by (auto simp: join_ok_def handle_poll_def)
  next
    case False
    with g ready have live: "handle_live i (en_name e) (hd_join h) t" "task_ended t" by (auto simp: join_ok_def)
    then obtain x where x: "tk_phase t = WrapperEnded x" by (auto simp: task_ended_def split: wrapper_phase.splits)
    then have ph: "tk_phase t \<noteq> Unspawned" "wrapper_done t" by (simp_all add: wrapper_done_def)
    with live obtain res where "pending_result (hd_join h) t = Some res" "ah_logical (hd_join h) = None"
        "ah_join (hd_join h) \<or> tk_slot t"
      by (auto simp: handle_live_def)
    from handle_poll_sent[OF this(2) x this(3,1)] p show ?thesis by simp
  qed
  then obtain y where y: "r = Some y" by blast
  obtain q where "rg_owners (finish_removal i (h\<lparr>hd_join := j\<rparr>) (if a then ForceAborted else Joined y)
      (put_actor i t' s)) = fmupd i (Committing q) (rg_owners s)"
    using finish_removal_keeps(1)[of i "h\<lparr>hd_join := j\<rparr>" "if a then ForceAborted else Joined y" "put_actor i t' s"]
    by auto
  with y p g(2) w' show ?thesis by (simp add: join_progress_def owner_at_def Let_def)
qed

lemma deadline_aborts:
  assumes "rinv U B W s" "owner_at s i = Some (Joining h True a)"
  shows "\<exists>h'. owner_at (join_deadline i s) i = Some (Joining h' True True)"
proof (cases a)
  case False
  obtain t where t: "fmlookup (rg_actors s) i = Some t"
    by (rule joining_facts[OF assms(1) assms(2)[unfolded owner_at_def]])
  obtain v j t' where "handle_abort (hd_join h) t = (v, j, t')" by (metis surj_pair)
  with t assms(2) False show ?thesis by (simp add: join_deadline_def owner_at_def Let_def)
qed (use assms in \<open>simp add: join_deadline_def owner_at_def\<close>)

lemma commit_reports:
  assumes "rinv U B W s" "owner_at s i = Some (Committing p)"
  shows "\<exists>n l e. owner_at (commit_membership i s) i = Some (Reporting p n l e)"
proof -
  obtain e l where "fmlookup (rg_tasks s) i = Some e" "en_state e = Removing l"
    using rinvD(10)[OF assms(1), of i] assms(2)
    by (auto simp: owner_at_def life_def linv_def split: option.splits entry_state.splits)
  with assms(2) show ?thesis by (simp add: commit_membership_def owner_at_def Let_def)
qed

lemma drain_moves_finish:
  assumes inv: "rinv U B W s"
  shows "owner_at (bg_run (drain_moves i) s) i = None"
proof -
  let ?s1 = "bg_step (WrapperExits i) s"
  let ?s2 = "join_deadline i ?s1"
  let ?s3 = "join_progress i ?s2"
  let ?s4 = "commit_membership i ?s3"
  have inv1: "rinv U B W ?s1" by (rule rinv_bg_step[OF inv])
  have inv2: "rinv U B W ?s2" by (rule rinv_join_deadline[OF inv1])
  have inv3: "rinv U B W ?s3" by (rule rinv_join_progress[OF inv2])
  have run: "bg_run (drain_moves i) s = finish_report i ?s4" by (simp add: bg_run_def drain_moves_def)
  have from3: "owner_at (finish_report i ?s4) i = None" if "owner_at ?s3 i = Some (Committing p)" for p
    using commit_reports[OF inv3 that] finish_report_keeps(2)[of i ?s4] by auto
  have from2: "owner_at (finish_report i ?s4) i = None"
    if w: "owner_at ?s2 i = Some (Joining h f a)" and "a \<or> (\<exists>t. fmlookup (rg_actors ?s2) i = Some t \<and> task_ended t)" for h f a
    using progress_commits[OF inv2 w that(2)] from3 by blast
  show ?thesis
  proof (cases "owner_at s i")
    case None
    then have "?s2 = ?s1" by (intro deadline_keeps(3)) (simp add: exit_keeps del: bg_step.simps)
    then have "?s3 = ?s1" using None by (simp add: progress_keeps(3) exit_keeps del: bg_step.simps)
    moreover have "commit_membership i ?s1 = ?s1"
      using None exit_keeps(2)[of i s] by (simp add: commit_membership_def owner_at_def fun_eq_iff)
    ultimately show ?thesis
      using None run finish_report_keeps(2)[of i ?s1] by (simp add: exit_keeps del: bg_step.simps)
  next
    case (Some w)
    have w1: "owner_at ?s1 i = Some w" using Some by (simp add: exit_keeps del: bg_step.simps)
    show ?thesis
    proof (cases w)
      case (Joining h f a)
      show ?thesis
      proof (cases f)
        case True
        with w1 Joining have wj: "owner_at ?s1 i = Some (Joining h True a)" by simp
        from deadline_aborts[OF inv1 wj] obtain h' where "owner_at ?s2 i = Some (Joining h' True True)" by blast
        from from2[OF this] run show ?thesis by simp
      next
        case False
        then have same: "?s2 = ?s1" using w1 Joining by (simp add: join_deadline_def owner_at_def split: option.splits del: bg_step.simps)
        obtain e t where t: "fmlookup (rg_tasks s) i = Some e" "fmlookup (rg_actors s) i = Some t"
          "join_ok i (en_name e) (hd_join h) f a (reaper_rec (rg_reaper s) i) (i |\<in>| rg_reaps s) t (i |\<in>| rg_cancelled s)"
          by (rule joining_facts[OF inv Some[unfolded owner_at_def Joining]])
        have "a \<or> (\<exists>t. fmlookup (rg_actors ?s1) i = Some t \<and> task_ended t)"
        proof (cases a)
          case abort: False
          with t(3) False have "wrapper_done t" by (simp add: join_ok_def)
          with t(2) show ?thesis
            by (auto simp: actor_move_def put_actor_def wrapper_exit_def wrapper_done_def task_ended_def
                split: wrapper_phase.splits)
        qed simp
        with same w1 Joining from2 run show ?thesis by (metis (no_types, lifting))
      qed
    next
      case (Committing p)
      then have "?s2 = ?s1" using w1 by (intro deadline_keeps(3)) simp
      moreover from this have "?s3 = ?s1" using w1 Committing by (simp add: progress_keeps(3) del: bg_step.simps)
      ultimately show ?thesis using from3[of p] w1 Committing run by simp
    next
      case (Reporting p n l e)
      then have "?s2 = ?s1" using w1 by (intro deadline_keeps(3)) simp
      moreover from this have "?s3 = ?s1" using w1 Reporting by (simp add: progress_keeps(3) del: bg_step.simps)
      moreover have "commit_membership i ?s1 = ?s1"
        using w1 Reporting by (simp add: commit_membership_def owner_at_def del: bg_step.simps)
      ultimately show ?thesis
        using w1 Reporting run finish_report_keeps(2)[of i ?s1] by (simp del: bg_step.simps)
    qed
  qed
qed

lemma drain_moves_other:
  "j \<noteq> i \<Longrightarrow> owner_at (bg_run (drain_moves i) s) j = owner_at s j"
  "all_removing s \<Longrightarrow> all_removing (bg_run (drain_moves i) s)"
proof -
  have "(j \<noteq> i \<longrightarrow> owner_at (bg_run ms s) j = owner_at s j) \<and> (all_removing s \<longrightarrow> all_removing (bg_run ms s))"
    if "set ms \<subseteq> set (drain_moves i)" for ms
    using that unfolding bg_run_def
    by (induction ms arbitrary: s) (auto simp: drain_other simp del: bg_step.simps)
  then show "j \<noteq> i \<Longrightarrow> owner_at (bg_run (drain_moves i) s) j = owner_at s j"
    "all_removing s \<Longrightarrow> all_removing (bg_run (drain_moves i) s)" by blast+
qed

lemma drain_all:
  assumes "rinv U B W s"
  shows "owner_at (bg_run (concat (map drain_moves is)) s) j = (if j \<in> set is then None else owner_at s j)
    \<and> (all_removing s \<longrightarrow> all_removing (bg_run (concat (map drain_moves is)) s))"
  using assms
proof (induction "is" arbitrary: s)
  case (Cons i "is")
  have "bg_run (concat (map drain_moves (i # is))) s = bg_run (concat (map drain_moves is)) (bg_run (drain_moves i) s)"
    by (simp add: bg_run_def)
  with Cons.IH[OF rinv_bg_run[OF Cons.prems, of "drain_moves i"]] drain_moves_finish[OF Cons.prems, of i]
    drain_moves_other(1)[of j i s] drain_moves_other(2)[of s i]
  show ?case by (auto split: if_splits)
qed (simp add: bg_run_def)

definition is_registered :: "registry \<Rightarrow> task_id \<Rightarrow> bool" where
  "is_registered s j \<longleftrightarrow> (\<exists>e h. fmlookup (rg_tasks s) j = Some e \<and> en_state e = Registered h)"

lemma registered_claim: "is_registered (claim_and_cancel i s) j \<longleftrightarrow> is_registered s j \<and> j \<noteq> i"
proof -
  obtain x s1 where c: "claim_registered i s = (x, s1)" by fastforce
  then show ?thesis
    by (cases rule: claim_registered_cases)
      (use c in \<open>auto simp: is_registered_def claim_and_cancel_def spawn_join_report_def put_owner_def
         rg_check_def cancel_token_def inc_with_name_def\<close>)
qed

lemma all_removing_cancel_all: "all_removing (cancel_all_claims s)"
proof -
  have "is_registered (fold claim_and_cancel xs s) j \<longleftrightarrow> is_registered s j \<and> j \<notin> set xs" for xs j
    by (induction xs arbitrary: s) (auto simp: registered_claim)
  then have "\<not> is_registered (cancel_all_claims s) j" for j
    by (auto simp: cancel_all_claims_def is_registered_def fmdomI)
  then show ?thesis by (auto simp: all_removing_def is_registered_def)
qed

lemma settled_empty:
  assumes inv: "rinv U B W s" and "all_removing s" and "\<And>i. owner_at s i = None"
  shows "rg_tasks s = fmempty" "rg_counts s = fmempty" "rg_owners s = fmempty"
    "fset (fmdom (rg_actors s)) = fset (rg_logical s)"
proof -
  have each: "fmlookup (rg_tasks s) i = None" "fmlookup (rg_counts s) i = None"
    "fmlookup (rg_actors s) i \<noteq> None \<longleftrightarrow> i |\<in>| rg_logical s" for i
    using rinvD(10)[OF inv, of i] assms(2) assms(3)[of i]
    by (auto simp: life_def linv_def owner_at_def all_removing_def split: option.splits entry_state.splits)
  then show "rg_tasks s = fmempty" "rg_counts s = fmempty" "rg_owners s = fmempty"
    using assms(3) by (auto simp: owner_at_def intro!: fmap_ext)
  show "fset (fmdom (rg_actors s)) = fset (rg_logical s)"
    using each(3) by (auto simp: fmlookup_dom_iff)
qed

text \<open>
  C27. Shutdown always drains the registry. From every reachable state, claiming and cancelling all
  entries and then letting every claimed removal run into its deadline and report leaves no member,
  no pending removal and no removal owner; the logical latch of every identity ever registered is
  complete, and every outcome sender received has been resolved exactly once. No move of a user task
  is needed, so a task that never yields cannot block the shutdown.
\<close>

theorem shutdown_always_drains:
  assumes "reg_reachable (cmds, s)"
  defines "s' \<equiv> shutdown_drain s"
  shows "registry_is_empty s' \<and> pending_is_empty s' \<and> rg_owners s' = fmempty
    \<and> fset (fmdom (rg_actors s')) = fset (rg_logical s')
    \<and> log_tx (rg_log s') = received_tx cmds \<and> rg_faults s' = 0"
proof -
  let ?c = "cancel_all_claims s"
  note inv = reg_reachable_rinv[OF assms(1)]
  note invc = rinv_cancel_all_claims[OF inv]
  have s': "s' = bg_run (concat (map drain_moves (hm_keys (rg_owners ?c)))) ?c"
    by (simp add: s'_def shutdown_drain_def Let_def)
  have inv': "rinv (used_ids cmds) (received_res cmds) (received_tx cmds) s'"
    unfolding s' by (rule rinv_bg_run[OF invc])
  note d = drain_all[OF invc, of "hm_keys (rg_owners ?c)"]
  have "all_removing s'" using d all_removing_cancel_all unfolding s' by blast
  moreover have "owner_at s' i = None" for i
    using d[of i] unfolding s' by (auto simp: owner_at_def fmlookup_dom_iff split: if_splits)
  ultimately have e: "rg_tasks s' = fmempty" "rg_counts s' = fmempty" "rg_owners s' = fmempty"
    "fset (fmdom (rg_actors s')) = fset (rg_logical s')"
    using settled_empty[OF inv'] by blast+
  moreover have "log_tx (rg_log s') = received_tx cmds"
    using rinvD(8)[OF inv'] e by (simp add: senders_ok_def)
  ultimately show ?thesis
    using rinvD(9)[OF inv'] by (simp add: registry_is_empty_def pending_is_empty_def)
qed

theorem shutdown_always_drains_witness:
  "attempt_active demo_active 1 \<and> registry_is_empty (shutdown_drain demo_active)
   \<and> log_tx (rg_log (shutdown_drain demo_active)) = {#1#}"
  using shutdown_always_drains[OF demo_active_reachable] demo_active_runs
  by (simp add: received_tx_def command_tx_def demo_add_def opt_mset_def)

end
