(* ===== verification/Ownership_Capacity.thy ===== *)
theory Ownership_Capacity
  imports Taskvisor_Prelude
begin

text \<open>
  The ownership capacity broker (\<^verbatim>\<open>src/src/core/deferred_drop/capacity.rs\<close>): how many user-owned values a
  supervisor retains. Waiting requests take one unit in FIFO order, fail-fast batches take all their
  units or none, a dropped permit returns its units and a poisoned one retires them.

  Every operation runs under the broker mutex and is one step. A request is a number; its atomic
  status is kept in the broker. Permits live with the clients: a system state holds the broker, the
  units of every live permit and the requests whose future is still alive. Two ghost counters record
  units that a closed broker no longer gets back and whether admission was closed on purpose.
\<close>

type_synonym request = nat

datatype capacity_status = CapWaiting | CapGranted | CapClosed | CapTaken | CapCanceled

record limited_capacity =
  lc_available :: nat
  lc_effective :: nat
  lc_waiters :: "request list"

datatype capacity_mode = Limited limited_capacity | Unlimited

record capacity_retirement =
  cr_configured :: nat
  cr_effective :: nat
  cr_retired :: nat

record capacity_broker =
  cb_limit :: "nat option"
  cb_closed :: bool
  cb_mode :: capacity_mode
  cb_status :: "(request, capacity_status) fmap"
  cb_reports :: "capacity_retirement list"
  cb_next :: request

record capacity_snapshot =
  sn_configured_limit :: "nat option"
  sn_effective_limit :: "nat option"
  sn_available :: "nat option"
  sn_waiters :: nat
  sn_open :: bool

datatype capacity_start = Ready nat | Waiting request

section \<open>Operations\<close>

definition broker_new :: "nat option \<Rightarrow> capacity_broker" where
  "broker_new limit =
     \<lparr>cb_limit = limit, cb_closed = False,
      cb_mode = (case limit of
                   Some n \<Rightarrow> Limited \<lparr>lc_available = n, lc_effective = n, lc_waiters = []\<rparr>
                 | None \<Rightarrow> Unlimited),
      cb_status = fmempty, cb_reports = [], cb_next = 0\<rparr>"

text \<open>The error carries the configured limit; a rejected request changes nothing.\<close>

definition try_acquire :: "capacity_broker \<Rightarrow> nat \<Rightarrow> (nat option, nat) result \<times> capacity_broker" where
  "try_acquire b units =
     (if units = 0 \<or> (case cb_limit b of None \<Rightarrow> False | Some n \<Rightarrow> units > n) then (Inl (cb_limit b), b)
      else if cb_closed b then (Inl (cb_limit b), b)
      else case cb_mode b of
             Unlimited \<Rightarrow> (Inr units, b)
           | Limited l \<Rightarrow>
               (if units > lc_effective l \<or> lc_waiters l \<noteq> [] \<or> lc_available l < units
                then (Inl (cb_limit b), b)
                else (Inr units, b\<lparr>cb_mode := Limited (l\<lparr>lc_available := lc_available l - units\<rparr>)\<rparr>)))"

definition start_acquire_one ::
  "capacity_broker \<Rightarrow> (nat option, capacity_start) result \<times> capacity_broker" where
  "start_acquire_one b =
     (if cb_closed b then (Inl (cb_limit b), b)
      else case cb_mode b of
             Unlimited \<Rightarrow> (Inr (Ready 1), b)
           | Limited l \<Rightarrow>
               (if lc_effective l = 0 then (Inl (cb_limit b), b)
                else if lc_waiters l = [] \<and> lc_available l > 0
                then (Inr (Ready 1), b\<lparr>cb_mode := Limited (l\<lparr>lc_available := lc_available l - 1\<rparr>)\<rparr>)
                else if length (lc_waiters l) \<ge> the (cb_limit b) then (Inl (cb_limit b), b)
                else (Inr (Waiting (cb_next b)),
                      b\<lparr>cb_mode := Limited (l\<lparr>lc_waiters := lc_waiters l @ [cb_next b]\<rparr>),
                        cb_status := fmupd (cb_next b) CapWaiting (cb_status b),
                        cb_next := Suc (cb_next b)\<rparr>)))"

definition set_status :: "request \<Rightarrow> capacity_status \<Rightarrow> capacity_broker \<Rightarrow> capacity_broker" where
  "set_status r x b = b\<lparr>cb_status := fmupd r x (cb_status b)\<rparr>"

text \<open>\<open>close_waiters_locked\<close>: every queued request becomes closed.\<close>

definition close_waiters_locked :: "capacity_broker \<Rightarrow> capacity_broker" where
  "close_waiters_locked b =
     (case cb_mode b of
        Unlimited \<Rightarrow> b
      | Limited l \<Rightarrow>
          fold (\<lambda>r. set_status r CapClosed) (lc_waiters l) (b\<lparr>cb_mode := Limited (l\<lparr>lc_waiters := []\<rparr>)\<rparr>))"

text \<open>\<open>dispatch_limited\<close>: grants from the front while units and waiters remain.\<close>

fun dispatch_limited :: "nat \<Rightarrow> request list \<Rightarrow> request list \<times> nat \<times> request list" where
  "dispatch_limited 0 waiters = ([], 0, waiters)"
| "dispatch_limited available [] = ([], available, [])"
| "dispatch_limited (Suc available) (r # waiters) =
     (case dispatch_limited available waiters of (ready, a, rest) \<Rightarrow> (r # ready, a, rest))"

definition dispatch_locked :: "capacity_broker \<Rightarrow> capacity_broker" where
  "dispatch_locked b =
     (if cb_closed b then b
      else case cb_mode b of
             Unlimited \<Rightarrow> b
           | Limited l \<Rightarrow>
               (case dispatch_limited (lc_available l) (lc_waiters l) of
                  (ready, a, rest) \<Rightarrow>
                    fold (\<lambda>r. set_status r CapGranted) ready
                      (b\<lparr>cb_mode := Limited (l\<lparr>lc_available := a, lc_waiters := rest\<rparr>)\<rparr>)))"

text \<open>\<open>return_capacity_locked\<close>: more units than the effective limit close the broker.\<close>

definition return_capacity_locked :: "capacity_broker \<Rightarrow> nat \<Rightarrow> bool \<times> capacity_broker" where
  "return_capacity_locked b units =
     (case cb_mode b of
        Unlimited \<Rightarrow> (True, b)
      | Limited l \<Rightarrow>
          (case checked_add_usize (lc_available l) units of
             None \<Rightarrow> (False, b\<lparr>cb_closed := True\<rparr>)
           | Some available \<Rightarrow>
               (if available > lc_effective l then (False, b\<lparr>cb_closed := True\<rparr>)
                else (True, b\<lparr>cb_mode := Limited (l\<lparr>lc_available := available\<rparr>)\<rparr>))))"

definition broker_release :: "capacity_broker \<Rightarrow> nat \<Rightarrow> capacity_broker" where
  "broker_release b units =
     (if units = 0 then b
      else case return_capacity_locked b units of
             (True, b) \<Rightarrow> dispatch_locked b
           | (False, b) \<Rightarrow> close_waiters_locked b)"

definition broker_retire :: "capacity_broker \<Rightarrow> nat \<Rightarrow> capacity_broker" where
  "broker_retire b units =
     (if units = 0 \<or> cb_closed b then b
      else case cb_mode b of
             Unlimited \<Rightarrow> b
           | Limited l \<Rightarrow>
               (if units \<le> lc_effective l
                then (let effective = lc_effective l - units
                      in if lc_available l > effective
                         then close_waiters_locked (b\<lparr>cb_closed := True\<rparr>)
                         else (let b = b\<lparr>cb_mode := Limited (l\<lparr>lc_effective := effective\<rparr>),
                                         cb_reports := cb_reports b @
                                           [\<lparr>cr_configured = the (cb_limit b), cr_effective = effective,
                                             cr_retired = units\<rparr>]\<rparr>
                               in if effective = 0 then close_waiters_locked (b\<lparr>cb_closed := True\<rparr>)
                                  else dispatch_locked b))
                else close_waiters_locked (b\<lparr>cb_closed := True\<rparr>)))"

definition broker_close :: "capacity_broker \<Rightarrow> capacity_broker" where
  "broker_close b = (if cb_closed b then b else close_waiters_locked (b\<lparr>cb_closed := True\<rparr>))"

text \<open>\<open>cancel\<close>, from the drop of a request whose future did not finish.\<close>

definition broker_cancel :: "capacity_broker \<Rightarrow> request \<Rightarrow> capacity_broker" where
  "broker_cancel b r =
     (case fmlookup (cb_status b) r of
        Some CapWaiting \<Rightarrow>
          (case cb_mode b of
             Unlimited \<Rightarrow> set_status r CapCanceled (b\<lparr>cb_closed := True\<rparr>)
           | Limited l \<Rightarrow>
               dispatch_locked (set_status r CapCanceled
                 (b\<lparr>cb_mode := Limited (l\<lparr>lc_waiters :=
                     (case list_position (\<lambda>x. x = r) (lc_waiters l) of
                        None \<Rightarrow> lc_waiters l
                      | Some k \<Rightarrow> list_remove_at k (lc_waiters l))\<rparr>)\<rparr>)))
      | Some CapGranted \<Rightarrow>
          (case return_capacity_locked b 1 of
             (True, b) \<Rightarrow> dispatch_locked (set_status r CapCanceled b)
           | (False, b) \<Rightarrow> close_waiters_locked (set_status r CapCanceled b))
      | Some CapClosed \<Rightarrow> dispatch_locked (set_status r CapCanceled b)
      | Some CapTaken \<Rightarrow> b
      | Some CapCanceled \<Rightarrow> b
      | None \<Rightarrow> b)"

text \<open>One turn of the loop of \<open>CapacityRequest::wait\<close>; \<open>None\<close> while it sleeps.\<close>

definition request_poll ::
  "capacity_broker \<Rightarrow> request \<Rightarrow> (nat option, nat) result option \<times> capacity_broker" where
  "request_poll b r =
     (case fmlookup (cb_status b) r of
        Some CapWaiting \<Rightarrow> (None, b)
      | Some CapGranted \<Rightarrow> (Some (Inr 1), set_status r CapTaken b)
      | Some CapClosed \<Rightarrow> (Some (Inl (cb_limit b)), b)
      | _ \<Rightarrow> (Some (Inl (cb_limit b)), broker_close b))"

definition broker_snapshot :: "capacity_broker \<Rightarrow> capacity_snapshot" where
  "broker_snapshot b =
     (case cb_mode b of
        Limited l \<Rightarrow>
          \<lparr>sn_configured_limit = cb_limit b, sn_effective_limit = Some (lc_effective l),
           sn_available = Some (lc_available l), sn_waiters = length (lc_waiters l), sn_open = (\<not> cb_closed b)\<rparr>
      | Unlimited \<Rightarrow>
          \<lparr>sn_configured_limit = None, sn_effective_limit = None, sn_available = None, sn_waiters = 0,
           sn_open = (\<not> cb_closed b)\<rparr>)"

text \<open>\<open>OwnershipPermit::split_one\<close>: the remaining units and the new permit.\<close>

definition split_one :: "nat \<Rightarrow> (nat \<times> nat) option" where
  "split_one units = (if units = 0 then None else Some (units - 1, 1))"

section \<open>The broker with its clients\<close>

record capacity_system =
  cs_broker :: capacity_broker
  cs_permits :: "nat list"
  cs_requests :: "request fset"
  cs_lost :: nat
  cs_closed :: bool

definition add_permit :: "nat \<Rightarrow> capacity_system \<Rightarrow> capacity_system" where
  "add_permit units s = s\<lparr>cs_permits := units # cs_permits s\<rparr>"

definition acquire_one :: "capacity_system \<Rightarrow> capacity_system" where
  "acquire_one s =
     (case start_acquire_one (cs_broker s) of
        (Inr (Ready u), b) \<Rightarrow> add_permit u (s\<lparr>cs_broker := b\<rparr>)
      | (Inr (Waiting r), b) \<Rightarrow> s\<lparr>cs_broker := b, cs_requests := finsert r (cs_requests s)\<rparr>
      | (Inl _, b) \<Rightarrow> s\<lparr>cs_broker := b\<rparr>)"

definition acquire_many :: "nat \<Rightarrow> capacity_system \<Rightarrow> capacity_system" where
  "acquire_many units s =
     (case try_acquire (cs_broker s) units of
        (Inr u, b) \<Rightarrow> add_permit u (s\<lparr>cs_broker := b\<rparr>)
      | (Inl _, b) \<Rightarrow> s\<lparr>cs_broker := b\<rparr>)"

definition poll_request :: "request \<Rightarrow> capacity_system \<Rightarrow> capacity_system" where
  "poll_request r s =
     (case request_poll (cs_broker s) r of
        (None, b) \<Rightarrow> s\<lparr>cs_broker := b\<rparr>
      | (Some (Inr u), b) \<Rightarrow> add_permit u (s\<lparr>cs_broker := b, cs_requests := cs_requests s |-| {|r|}\<rparr>)
      | (Some (Inl _), b) \<Rightarrow> s\<lparr>cs_broker := b, cs_requests := cs_requests s |-| {|r|}\<rparr>)"

definition drop_request :: "request \<Rightarrow> capacity_system \<Rightarrow> capacity_system" where
  "drop_request r s =
     s\<lparr>cs_broker := broker_cancel (cs_broker s) r, cs_requests := cs_requests s |-| {|r|}\<rparr>"

definition split_permit :: "nat \<Rightarrow> capacity_system \<Rightarrow> capacity_system" where
  "split_permit k s =
     (case split_one (cs_permits s ! k) of
        None \<Rightarrow> s
      | Some (rest, one) \<Rightarrow> s\<lparr>cs_permits := one # (cs_permits s)[k := rest]\<rparr>)"

definition drop_permit :: "nat \<Rightarrow> capacity_system \<Rightarrow> capacity_system" where
  "drop_permit k s =
     s\<lparr>cs_broker := broker_release (cs_broker s) (cs_permits s ! k),
       cs_permits := list_remove_at k (cs_permits s)\<rparr>"

definition retire_permit :: "nat \<Rightarrow> capacity_system \<Rightarrow> capacity_system" where
  "retire_permit k s =
     (let units = cs_permits s ! k
      in s\<lparr>cs_broker := broker_retire (cs_broker s) units,
           cs_permits := list_remove_at k (cs_permits s),
           cs_lost := (if cb_closed (cs_broker s) then cs_lost s + units else cs_lost s)\<rparr>)"

definition close_without_release :: "nat \<Rightarrow> capacity_system \<Rightarrow> capacity_system" where
  "close_without_release k s =
     s\<lparr>cs_broker := broker_close (cs_broker s), cs_permits := list_remove_at k (cs_permits s),
       cs_lost := cs_lost s + cs_permits s ! k, cs_closed := True\<rparr>"

inductive cap_step :: "capacity_system \<Rightarrow> capacity_system \<Rightarrow> bool" where
  acquire_one: "cap_step s (acquire_one s)"
| acquire_many: "cap_step s (acquire_many units s)"
| poll: "r |\<in>| cs_requests s \<Longrightarrow> cap_step s (poll_request r s)"
| cancel: "r |\<in>| cs_requests s \<Longrightarrow> cap_step s (drop_request r s)"
| split: "k < length (cs_permits s) \<Longrightarrow> cap_step s (split_permit k s)"
| release: "k < length (cs_permits s) \<Longrightarrow> cap_step s (drop_permit k s)"
| retire: "k < length (cs_permits s) \<Longrightarrow> cap_step s (retire_permit k s)"
| leak: "k < length (cs_permits s) \<Longrightarrow> cap_step s (close_without_release k s)"
| close: "cap_step s (s\<lparr>cs_broker := broker_close (cs_broker s), cs_closed := True\<rparr>)"

definition cap_init :: "capacity_system \<Rightarrow> bool" where
  "cap_init s \<longleftrightarrow>
     (\<exists>limit. (\<forall>n. limit = Some n \<longrightarrow> 0 < n \<and> n \<le> u64_max)
        \<and> s = \<lparr>cs_broker = broker_new limit, cs_permits = [], cs_requests = {||}, cs_lost = 0, cs_closed = False\<rparr>)"

definition cap_reachable :: "capacity_system \<Rightarrow> bool" where
  "cap_reachable s \<longleftrightarrow> (\<exists>s0. cap_init s0 \<and> cap_step\<^sup>*\<^sup>* s0 s)"

section \<open>FIFO dispatch\<close>

text \<open>The loop grants exactly the longest affordable prefix of the queue.\<close>

lemma dispatch_limited_prefix:
  "dispatch_limited available waiters =
     (take available waiters, available - length waiters, drop available waiters)"
  by (induction available waiters rule: dispatch_limited.induct) simp_all

section \<open>The invariant\<close>

definition granted :: "request fset \<Rightarrow> (request, capacity_status) fmap \<Rightarrow> request set" where
  "granted q st = {r \<in> fset q. fmlookup st r = Some CapGranted}"

text \<open>Every live request is queued and waiting, granted, or closed; nothing else is queued.\<close>

definition requests_ok :: "request list \<Rightarrow> request fset \<Rightarrow> (request, capacity_status) fmap \<Rightarrow> request \<Rightarrow> bool" where
  "requests_ok ws q st next' \<longleftrightarrow>
     distinct ws \<and> set ws \<subseteq> fset q
     \<and> (\<forall>r \<in> fset q. r < next' \<and> (if r \<in> set ws then fmlookup st r = Some CapWaiting
                               else fmlookup st r \<in> {Some CapGranted, Some CapClosed}))"

text \<open>The units of the effective limit are free, granted, held or lost; the rest was retired.\<close>

definition units_ok :: "nat \<Rightarrow> limited_capacity \<Rightarrow> nat \<Rightarrow> nat list \<Rightarrow> nat \<Rightarrow> capacity_retirement list \<Rightarrow> bool" where
  "units_ok limit l g permits lost reports \<longleftrightarrow>
     lc_available l + g + sum_list permits + lost = lc_effective l
     \<and> lc_effective l + sum_list (map cr_retired reports) = limit"

text \<open>A broker between two operations, as components: what dispatch and closing need and keep.\<close>

definition loose :: "capacity_system \<Rightarrow> bool" where
  "loose s \<longleftrightarrow>
     (case cb_mode (cs_broker s) of
        Unlimited \<Rightarrow> False
      | Limited l \<Rightarrow>
          (\<exists>limit. cb_limit (cs_broker s) = Some limit \<and> 0 < limit \<and> limit \<le> u64_max
             \<and> units_ok limit l (card (granted (cs_requests s) (cb_status (cs_broker s)))) (cs_permits s)
                 (cs_lost s) (cb_reports (cs_broker s))
             \<and> length (lc_waiters l) \<le> limit)
          \<and> requests_ok (lc_waiters l) (cs_requests s) (cb_status (cs_broker s)) (cb_next (cs_broker s))
          \<and> (cb_closed (cs_broker s) \<longleftrightarrow> cs_closed s \<or> lc_effective l = 0))"

definition cap_inv :: "capacity_system \<Rightarrow> bool" where
  "cap_inv s \<longleftrightarrow>
     (case cb_mode (cs_broker s) of
        Unlimited \<Rightarrow>
          cb_limit (cs_broker s) = None \<and> cs_requests s = {||} \<and> cb_reports (cs_broker s) = []
          \<and> (cb_closed (cs_broker s) \<longleftrightarrow> cs_closed s)
      | Limited l \<Rightarrow>
          loose s \<and> (lc_waiters l \<noteq> [] \<longrightarrow> \<not> cb_closed (cs_broker s) \<and> lc_available l = 0)
          \<and> (cs_lost s > 0 \<longrightarrow> cb_closed (cs_broker s)))"

lemma finite_granted [simp]: "finite (granted q st)"
  by (rule finite_subset[of _ "fset q"]) (auto simp: granted_def)

lemma fold_status:
  "fold (\<lambda>r. set_status r x) rs b = b\<lparr>cb_status := fold (\<lambda>r. fmupd r x) rs (cb_status b)\<rparr>"
  by (induction rs arbitrary: b) (simp_all add: set_status_def)

lemma fold_status_lookup:
  "fmlookup (fold (\<lambda>r. fmupd r x) rs st) r = (if r \<in> set rs then Some x else fmlookup st r)"
  by (induction rs arbitrary: st) auto

text \<open>Closing all waiters.\<close>

lemma requests_close:
  assumes "requests_ok ws q st n"
  shows "requests_ok [] q (fold (\<lambda>r. fmupd r CapClosed) ws st) n"
    "granted q (fold (\<lambda>r. fmupd r CapClosed) ws st) = granted q st"
  using assms by (auto simp: requests_ok_def granted_def fold_status_lookup split: if_splits)

text \<open>Granting a prefix of the waiters.\<close>

lemma requests_grant:
  assumes "requests_ok ws q st n"
  shows "requests_ok (drop a ws) q (fold (\<lambda>r. fmupd r CapGranted) (take a ws) st) n"
    "card (granted q (fold (\<lambda>r. fmupd r CapGranted) (take a ws) st)) = card (granted q st) + min a (length ws)"
proof -
  have d: "distinct ws" using assms by (simp add: requests_ok_def)
  have split: "set (take a ws) \<inter> set (drop a ws) = {}" "set ws = set (take a ws) \<union> set (drop a ws)"
    using d by (simp add: set_take_disj_set_drop_if_distinct, metis append_take_drop_id set_append)
  show "requests_ok (drop a ws) q (fold (\<lambda>r. fmupd r CapGranted) (take a ws) st) n"
    using assms split by (auto simp: requests_ok_def fold_status_lookup split: if_splits)
  have "granted q (fold (\<lambda>r. fmupd r CapGranted) (take a ws) st) = granted q st \<union> set (take a ws)"
    using assms split(2) by (auto simp: requests_ok_def granted_def fold_status_lookup)
  moreover have "granted q st \<inter> set (take a ws) = {}"
    using assms split(2) by (auto simp: requests_ok_def granted_def)
  moreover have "card (set (take a ws)) = min a (length ws)"
    using d by (simp add: distinct_card min.commute)
  ultimately show "card (granted q (fold (\<lambda>r. fmupd r CapGranted) (take a ws) st)) = card (granted q st) + min a (length ws)"
    by (simp add: card_Un_disjoint)
qed

lemma loose_dispatch:
  assumes "loose s" and "cs_lost s > 0 \<longrightarrow> cb_closed (cs_broker s)"
    and "cb_closed (cs_broker s) \<longrightarrow> (\<forall>l. cb_mode (cs_broker s) = Limited l \<longrightarrow> lc_waiters l = [])"
  shows "cap_inv (s\<lparr>cs_broker := dispatch_locked (cs_broker s)\<rparr>)"
proof -
  obtain l where l: "cb_mode (cs_broker s) = Limited l" using assms(1) by (auto simp: loose_def split: capacity_mode.splits)
  show ?thesis
  proof (cases "cb_closed (cs_broker s)")
    case True
    with assms l show ?thesis by (auto simp: dispatch_locked_def cap_inv_def loose_def)
  next
    case False
    let ?a = "lc_available l" and ?ws = "lc_waiters l"
    have req: "requests_ok ?ws (cs_requests s) (cb_status (cs_broker s)) (cb_next (cs_broker s))"
      using assms(1) l by (simp add: loose_def)
    note g = requests_grant[OF req, of ?a]
    from assms(1,2) l False show ?thesis
      by (auto simp: dispatch_locked_def dispatch_limited_prefix fold_status cap_inv_def loose_def g units_ok_def)
  qed
qed

lemma loose_close:
  assumes "loose s" and "cb_closed (cs_broker s)"
  shows "cap_inv (s\<lparr>cs_broker := close_waiters_locked (cs_broker s)\<rparr>)"
proof -
  obtain l where l: "cb_mode (cs_broker s) = Limited l" using assms(1) by (auto simp: loose_def split: capacity_mode.splits)
  have "requests_ok (lc_waiters l) (cs_requests s) (cb_status (cs_broker s)) (cb_next (cs_broker s))"
    using assms(1) l by (simp add: loose_def)
  note c = requests_close[OF this]
  from assms l show ?thesis
    by (auto simp: close_waiters_locked_def fold_status cap_inv_def loose_def c units_ok_def)
qed

lemma cap_inv_loose: "cap_inv s \<Longrightarrow> cb_mode (cs_broker s) = Limited l \<Longrightarrow> loose s"
  by (auto simp: cap_inv_def loose_def)

lemma cap_inv_limited:
  assumes "cap_inv s" and "cb_mode (cs_broker s) = Limited l"
  obtains limit where "cb_limit (cs_broker s) = Some limit" "0 < limit" "limit \<le> u64_max"
    "units_ok limit l (card (granted (cs_requests s) (cb_status (cs_broker s)))) (cs_permits s) (cs_lost s)
       (cb_reports (cs_broker s))"
    "length (lc_waiters l) \<le> limit"
    "requests_ok (lc_waiters l) (cs_requests s) (cb_status (cs_broker s)) (cb_next (cs_broker s))"
    "cb_closed (cs_broker s) \<longleftrightarrow> cs_closed s \<or> lc_effective l = 0"
    "lc_waiters l \<noteq> [] \<longrightarrow> \<not> cb_closed (cs_broker s) \<and> lc_available l = 0"
    "cs_lost s > 0 \<longrightarrow> cb_closed (cs_broker s)"
proof -
  from assms have "loose s" "lc_waiters l \<noteq> [] \<longrightarrow> \<not> cb_closed (cs_broker s) \<and> lc_available l = 0"
      "cs_lost s > 0 \<longrightarrow> cb_closed (cs_broker s)"
    by (simp_all add: cap_inv_def)
  moreover from \<open>loose s\<close> assms(2) have "\<exists>limit. cb_limit (cs_broker s) = Some limit \<and> 0 < limit \<and> limit \<le> u64_max
      \<and> units_ok limit l (card (granted (cs_requests s) (cb_status (cs_broker s)))) (cs_permits s) (cs_lost s)
          (cb_reports (cs_broker s)) \<and> length (lc_waiters l) \<le> limit"
      "requests_ok (lc_waiters l) (cs_requests s) (cb_status (cs_broker s)) (cb_next (cs_broker s))"
      "cb_closed (cs_broker s) \<longleftrightarrow> cs_closed s \<or> lc_effective l = 0"
    by (simp_all add: loose_def)
  ultimately show thesis using that by metis
qed

lemma loose_intro:
  assumes "cb_mode (cs_broker s) = Limited l" "cb_limit (cs_broker s) = Some limit" "0 < limit" "limit \<le> u64_max"
    "units_ok limit l (card (granted (cs_requests s) (cb_status (cs_broker s)))) (cs_permits s) (cs_lost s)
       (cb_reports (cs_broker s))"
    "length (lc_waiters l) \<le> limit"
    "requests_ok (lc_waiters l) (cs_requests s) (cb_status (cs_broker s)) (cb_next (cs_broker s))"
    "cb_closed (cs_broker s) \<longleftrightarrow> cs_closed s \<or> lc_effective l = 0"
  shows "loose s"
  using assms unfolding loose_def by simp

lemma cap_inv_intro:
  assumes "loose s" "cb_mode (cs_broker s) = Limited l"
    "lc_waiters l \<noteq> [] \<longrightarrow> \<not> cb_closed (cs_broker s) \<and> lc_available l = 0" "cs_lost s > 0 \<longrightarrow> cb_closed (cs_broker s)"
  shows "cap_inv s"
  using assms unfolding cap_inv_def by simp

section \<open>Preservation\<close>

lemma sum_permits_remove:
  "k < length xs \<Longrightarrow> sum_list (list_remove_at k xs) + xs ! k = sum_list (xs :: nat list)"
  by (subst (2) list_remove_at_split[of k xs]) (simp_all add: list_remove_at_def)

lemma inv_acquire_one: "cap_inv s \<Longrightarrow> cap_inv (acquire_one s)"
proof (cases "cb_mode (cs_broker s)")
  case (Limited l)
  assume inv: "cap_inv s"
  obtain limit where f: "cb_limit (cs_broker s) = Some limit" "0 < limit" "limit \<le> u64_max"
    "units_ok limit l (card (granted (cs_requests s) (cb_status (cs_broker s)))) (cs_permits s) (cs_lost s)
       (cb_reports (cs_broker s))"
    "length (lc_waiters l) \<le> limit"
    "requests_ok (lc_waiters l) (cs_requests s) (cb_status (cs_broker s)) (cb_next (cs_broker s))"
    "cb_closed (cs_broker s) \<longleftrightarrow> cs_closed s \<or> lc_effective l = 0"
    "lc_waiters l \<noteq> [] \<longrightarrow> \<not> cb_closed (cs_broker s) \<and> lc_available l = 0"
    "cs_lost s > 0 \<longrightarrow> cb_closed (cs_broker s)"
    by (rule cap_inv_limited[OF inv Limited])
  let ?n = "cb_next (cs_broker s)"
  have "?n |\<notin>| cs_requests s" using f(6) by (auto simp: requests_ok_def)
  then have new: "requests_ok (lc_waiters l @ [?n]) (finsert ?n (cs_requests s))
      (fmupd ?n CapWaiting (cb_status (cs_broker s))) (Suc ?n)"
    "granted (finsert ?n (cs_requests s)) (fmupd ?n CapWaiting (cb_status (cs_broker s)))
       = granted (cs_requests s) (cb_status (cs_broker s))"
    using f(6) by (auto simp: requests_ok_def granted_def less_Suc_eq split: if_splits)
  show ?thesis
    using inv Limited f new
    by (auto simp: acquire_one_def start_acquire_one_def add_permit_def cap_inv_def loose_def units_ok_def)
next
  case Unlimited
  moreover assume "cap_inv s"
  ultimately show ?thesis by (auto simp: acquire_one_def start_acquire_one_def add_permit_def cap_inv_def)
qed

lemma inv_acquire_many: "cap_inv s \<Longrightarrow> cap_inv (acquire_many units s)"
proof (cases "cb_mode (cs_broker s)")
  case (Limited l)
  assume inv: "cap_inv s"
  with Limited show ?thesis
    by (cases "snd (try_acquire (cs_broker s) units) = cs_broker s")
      (auto simp: acquire_many_def try_acquire_def add_permit_def cap_inv_def loose_def units_ok_def)
next
  case Unlimited
  moreover assume "cap_inv s"
  ultimately show ?thesis by (auto simp: acquire_many_def try_acquire_def add_permit_def cap_inv_def)
qed

lemma requests_leave:
  assumes "requests_ok ws q st n" and "r |\<in>| q" and "r \<notin> set ws"
  shows "requests_ok ws (q |-| {|r|}) st n" "requests_ok ws (q |-| {|r|}) (fmupd r x st) n"
    "granted (q |-| {|r|}) st = granted q st - {r}"
    "x \<noteq> CapGranted \<Longrightarrow> granted (q |-| {|r|}) (fmupd r x st) = granted q st - {r}"
  using assms by (auto simp: requests_ok_def granted_def)

lemma requests_dequeue:
  assumes "requests_ok ws q st n" and "list_position (\<lambda>y. y = r) ws = Some k"
  shows "requests_ok (list_remove_at k ws) (q |-| {|r|}) (fmupd r CapCanceled st) n"
    "granted (q |-| {|r|}) (fmupd r CapCanceled st) = granted q st"
proof -
  have d: "distinct ws" using assms(1) by (simp add: requests_ok_def)
  have k: "k < length ws" "ws ! k = r" using list_position_Some[OF assms(2)] by auto
  then have "r \<in> set ws" by auto
  with set_list_remove_at[OF d k(1)] k distinct_list_remove_at[OF d, of k] assms(1)
  show "requests_ok (list_remove_at k ws) (q |-| {|r|}) (fmupd r CapCanceled st) n"
    "granted (q |-| {|r|}) (fmupd r CapCanceled st) = granted q st"
    by (auto simp: requests_ok_def granted_def split: if_splits)
qed

lemma granted_member:
  assumes "requests_ok ws q st n" "r |\<in>| q" "fmlookup st r = Some CapGranted"
  shows "r \<notin> set ws" "card (granted q st) = Suc (card (granted q st - {r}))"
proof -
  show "r \<notin> set ws" using assms by (auto simp: requests_ok_def split: if_splits)
  have "r \<in> granted q st" using assms by (simp add: granted_def)
  then show "card (granted q st) = Suc (card (granted q st - {r}))" by (rule card.remove[OF finite_granted])
qed

lemma inv_poll:
  assumes inv: "cap_inv s" and r: "r |\<in>| cs_requests s"
  shows "cap_inv (poll_request r s)"
proof (cases "cb_mode (cs_broker s)")
  case (Limited l)
  obtain limit where f: "cb_limit (cs_broker s) = Some limit" "0 < limit" "limit \<le> u64_max"
    "units_ok limit l (card (granted (cs_requests s) (cb_status (cs_broker s)))) (cs_permits s) (cs_lost s)
       (cb_reports (cs_broker s))"
    "length (lc_waiters l) \<le> limit"
    "requests_ok (lc_waiters l) (cs_requests s) (cb_status (cs_broker s)) (cb_next (cs_broker s))"
    "cb_closed (cs_broker s) \<longleftrightarrow> cs_closed s \<or> lc_effective l = 0"
    "lc_waiters l \<noteq> [] \<longrightarrow> \<not> cb_closed (cs_broker s) \<and> lc_available l = 0"
    "cs_lost s > 0 \<longrightarrow> cb_closed (cs_broker s)"
    by (rule cap_inv_limited[OF inv Limited])
  consider "r \<in> set (lc_waiters l)" "fmlookup (cb_status (cs_broker s)) r = Some CapWaiting"
    | "r \<notin> set (lc_waiters l)" "fmlookup (cb_status (cs_broker s)) r = Some CapGranted"
    | "r \<notin> set (lc_waiters l)" "fmlookup (cb_status (cs_broker s)) r = Some CapClosed"
    using f(6) r by (auto simp: requests_ok_def split: if_splits)
  then show ?thesis
  proof cases
    case 1
    with inv show ?thesis by (simp add: poll_request_def request_poll_def)
  next
    case 2
    note leave = requests_leave[OF f(6) r 2(1)] and g = granted_member[OF f(6) r 2(2)]
    have "loose (poll_request r s)"
      by (rule loose_intro[where l = l and limit = limit])
        (use Limited f 2 leave g in \<open>simp_all add: poll_request_def request_poll_def set_status_def
          add_permit_def units_ok_def\<close>)
    then show ?thesis
      by (rule cap_inv_intro[where l = l])
        (use Limited f 2 in \<open>simp_all add: poll_request_def request_poll_def set_status_def add_permit_def\<close>)
  next
    case 3
    note leave = requests_leave[OF f(6) r 3(1)]
    have same: "granted (cs_requests s) (cb_status (cs_broker s)) - {r} = granted (cs_requests s) (cb_status (cs_broker s))"
      using 3 by (auto simp: granted_def)
    have "loose (poll_request r s)"
      by (rule loose_intro[where l = l and limit = limit])
        (use Limited f 3 leave same in \<open>simp_all add: poll_request_def request_poll_def\<close>)
    then show ?thesis
      by (rule cap_inv_intro[where l = l]) (use Limited f 3 in \<open>simp_all add: poll_request_def request_poll_def\<close>)
  qed
qed (use inv r in \<open>simp add: cap_inv_def\<close>)

lemma return_ok:
  assumes "lc_available l + u \<le> lc_effective l" "lc_effective l \<le> u64_max" "cb_mode b = Limited l"
  shows "return_capacity_locked b u = (True, b\<lparr>cb_mode := Limited (l\<lparr>lc_available := lc_available l + u\<rparr>)\<rparr>)"
  using assms by (simp add: return_capacity_locked_def checked_add_usize_def)

lemma inv_cancel:
  assumes inv: "cap_inv s" and r: "r |\<in>| cs_requests s"
  shows "cap_inv (drop_request r s)"
proof (cases "cb_mode (cs_broker s)")
  case (Limited l)
  let ?b = "cs_broker s" and ?q = "cs_requests s |-| {|r|}"
  obtain limit where f: "cb_limit ?b = Some limit" "0 < limit" "limit \<le> u64_max"
    "units_ok limit l (card (granted (cs_requests s) (cb_status ?b))) (cs_permits s) (cs_lost s) (cb_reports ?b)"
    "length (lc_waiters l) \<le> limit"
    "requests_ok (lc_waiters l) (cs_requests s) (cb_status ?b) (cb_next ?b)"
    "cb_closed ?b \<longleftrightarrow> cs_closed s \<or> lc_effective l = 0"
    "lc_waiters l \<noteq> [] \<longrightarrow> \<not> cb_closed ?b \<and> lc_available l = 0" "cs_lost s > 0 \<longrightarrow> cb_closed ?b"
    by (rule cap_inv_limited[OF inv Limited])
  have finish: "cap_inv (s\<lparr>cs_broker := dispatch_locked b, cs_requests := ?q\<rparr>)"
    if "loose (s\<lparr>cs_broker := b, cs_requests := ?q\<rparr>)" "cs_lost s > 0 \<longrightarrow> cb_closed b"
      "cb_closed b \<longrightarrow> (\<forall>l. cb_mode b = Limited l \<longrightarrow> lc_waiters l = [])" for b
  proof -
    let ?s = "s\<lparr>cs_broker := b, cs_requests := ?q\<rparr>"
    have "cap_inv (?s\<lparr>cs_broker := dispatch_locked (cs_broker ?s)\<rparr>)"
      by (rule loose_dispatch[OF that(1)]) (use that(2,3) in simp_all)
    moreover have "?s\<lparr>cs_broker := dispatch_locked (cs_broker ?s)\<rparr>
        = s\<lparr>cs_broker := dispatch_locked b, cs_requests := ?q\<rparr>" by simp
    ultimately show ?thesis by (simp only:)
  qed
  consider "r \<in> set (lc_waiters l)" "fmlookup (cb_status ?b) r = Some CapWaiting"
    | "r \<notin> set (lc_waiters l)" "fmlookup (cb_status ?b) r = Some CapGranted"
    | "r \<notin> set (lc_waiters l)" "fmlookup (cb_status ?b) r = Some CapClosed"
    using f(6) r by (auto simp: requests_ok_def split: if_splits)
  then show ?thesis
  proof cases
    case 1
    then obtain k where k: "list_position (\<lambda>y. y = r) (lc_waiters l) = Some k"
      by (cases "list_position (\<lambda>y. y = r) (lc_waiters l)") (auto simp: list_position_None)
    note dq = requests_dequeue[OF f(6) k]
    have "length (list_remove_at k (lc_waiters l)) \<le> limit"
      using f(5) length_list_remove_at[of k "lc_waiters l"] list_position_Some[OF k] by simp
    then show ?thesis
      unfolding drop_request_def broker_cancel_def using 1 k Limited f dq
      by (auto simp: set_status_def units_ok_def intro!: finish loose_intro[where limit = limit])
  next
    case 2
    note leave = requests_leave[OF f(6) r 2(1)] and g = granted_member[OF f(6) r 2(2)]
    have "return_capacity_locked ?b 1 = (True, ?b\<lparr>cb_mode := Limited (l\<lparr>lc_available := lc_available l + 1\<rparr>)\<rparr>)"
      using f(3,4) g(2) by (intro return_ok[OF _ _ Limited]) (auto simp: units_ok_def)
    then show ?thesis
      unfolding drop_request_def broker_cancel_def using 2 Limited f leave g
      by (auto simp: set_status_def units_ok_def intro!: finish loose_intro[where limit = limit])
  next
    case 3
    note leave = requests_leave[OF f(6) r 3(1)]
    have "granted (cs_requests s) (cb_status ?b) - {r} = granted (cs_requests s) (cb_status ?b)"
      using 3 by (auto simp: granted_def)
    then show ?thesis
      unfolding drop_request_def broker_cancel_def using 3 Limited f leave
      by (auto simp: set_status_def intro!: finish loose_intro[where limit = limit])
  qed
qed (use inv r in \<open>simp add: cap_inv_def\<close>)

lemma split_sum:
  assumes "k < length xs" "split_one (xs ! k) = Some (rest, one)"
  shows "sum_list (one # xs[k := rest]) = sum_list xs"
proof -
  have "sum_list (xs[k := rest]) + xs ! k = sum_list xs + rest"
    using assms(1) elem_le_sum_list[of k xs] by (simp add: sum_list_update)
  moreover have "xs ! k = rest + one" using assms(2) by (auto simp: split_one_def split: if_splits)
  ultimately show ?thesis by simp
qed

lemma inv_split:
  assumes "cap_inv s" "k < length (cs_permits s)"
  shows "cap_inv (split_permit k s)"
proof (cases "split_one (cs_permits s ! k)")
  case (Some x)
  obtain rest one where x: "x = (rest, one)" by (cases x)
  note eq = split_sum[OF assms(2) Some[unfolded x]]
  show ?thesis
  proof (cases "cb_mode (cs_broker s)")
    case (Limited l)
    with assms(1) Some x eq show ?thesis
      by (auto simp: split_permit_def cap_inv_def loose_def units_ok_def)
  qed (use assms(1) Some x in \<open>simp add: split_permit_def cap_inv_def\<close>)
qed (use assms in \<open>simp add: split_permit_def\<close>)

lemma inv_release:
  assumes inv: "cap_inv s" and k: "k < length (cs_permits s)"
  shows "cap_inv (drop_permit k s)"
proof (cases "cb_mode (cs_broker s)")
  case (Limited l)
  let ?u = "cs_permits s ! k" and ?ps = "list_remove_at k (cs_permits s)"
  obtain limit where f: "cb_limit (cs_broker s) = Some limit" "0 < limit" "limit \<le> u64_max"
    "units_ok limit l (card (granted (cs_requests s) (cb_status (cs_broker s)))) (cs_permits s) (cs_lost s)
       (cb_reports (cs_broker s))"
    "length (lc_waiters l) \<le> limit"
    "requests_ok (lc_waiters l) (cs_requests s) (cb_status (cs_broker s)) (cb_next (cs_broker s))"
    "cb_closed (cs_broker s) \<longleftrightarrow> cs_closed s \<or> lc_effective l = 0"
    "lc_waiters l \<noteq> [] \<longrightarrow> \<not> cb_closed (cs_broker s) \<and> lc_available l = 0"
    "cs_lost s > 0 \<longrightarrow> cb_closed (cs_broker s)"
    by (rule cap_inv_limited[OF inv Limited])
  note sum = sum_permits_remove[OF k]
  show ?thesis
  proof (cases "?u = 0")
    case True
    have "loose (drop_permit k s)"
      by (rule loose_intro[where l = l and limit = limit])
        (use Limited f True sum in \<open>simp_all add: drop_permit_def broker_release_def units_ok_def\<close>)
    then show ?thesis
      by (rule cap_inv_intro[where l = l])
        (use Limited f True in \<open>simp_all add: drop_permit_def broker_release_def\<close>)
  next
    case False
    let ?b = "cs_broker s\<lparr>cb_mode := Limited (l\<lparr>lc_available := lc_available l + ?u\<rparr>)\<rparr>"
    have ret: "return_capacity_locked (cs_broker s) ?u = (True, ?b)"
      using f(3,4) sum by (intro return_ok[OF _ _ Limited]) (auto simp: units_ok_def)
    let ?s = "s\<lparr>cs_broker := ?b, cs_permits := ?ps\<rparr>"
    have "loose ?s"
      by (rule loose_intro[where l = "l\<lparr>lc_available := lc_available l + ?u\<rparr>" and limit = limit])
        (use Limited f sum in \<open>simp_all add: units_ok_def\<close>)
    then have "cap_inv (?s\<lparr>cs_broker := dispatch_locked (cs_broker ?s)\<rparr>)"
      by (rule loose_dispatch) (use Limited f in auto)
    moreover have "?s\<lparr>cs_broker := dispatch_locked (cs_broker ?s)\<rparr> = drop_permit k s"
      using False ret by (simp add: drop_permit_def broker_release_def)
    ultimately show ?thesis by (simp only:)
  qed
next
  case Unlimited
  with inv show ?thesis
    by (auto simp: drop_permit_def broker_release_def return_capacity_locked_def dispatch_locked_def cap_inv_def)
qed

lemma inv_close_with:
  assumes inv: "cap_inv s" and units: "sum_list ps + lost = sum_list (cs_permits s) + cs_lost s"
  shows "cap_inv (s\<lparr>cs_broker := broker_close (cs_broker s), cs_permits := ps, cs_lost := lost, cs_closed := True\<rparr>)"
proof (cases "cb_mode (cs_broker s)")
  case (Limited l)
  obtain limit where f: "cb_limit (cs_broker s) = Some limit" "0 < limit" "limit \<le> u64_max"
    "units_ok limit l (card (granted (cs_requests s) (cb_status (cs_broker s)))) (cs_permits s) (cs_lost s)
       (cb_reports (cs_broker s))"
    "length (lc_waiters l) \<le> limit"
    "requests_ok (lc_waiters l) (cs_requests s) (cb_status (cs_broker s)) (cb_next (cs_broker s))"
    "cb_closed (cs_broker s) \<longleftrightarrow> cs_closed s \<or> lc_effective l = 0"
    "lc_waiters l \<noteq> [] \<longrightarrow> \<not> cb_closed (cs_broker s) \<and> lc_available l = 0"
    "cs_lost s > 0 \<longrightarrow> cb_closed (cs_broker s)"
    by (rule cap_inv_limited[OF inv Limited])
  show ?thesis
  proof (cases "cb_closed (cs_broker s)")
    case True
    let ?s = "s\<lparr>cs_broker := broker_close (cs_broker s), cs_permits := ps, cs_lost := lost, cs_closed := True\<rparr>"
    have "loose ?s"
      by (rule loose_intro[where l = l and limit = limit])
        (use Limited f True units in \<open>simp_all add: broker_close_def units_ok_def\<close>)
    then show ?thesis
      by (rule cap_inv_intro[where l = l]) (use Limited f True in \<open>simp_all add: broker_close_def\<close>)
  next
    case False
    let ?s = "s\<lparr>cs_broker := cs_broker s\<lparr>cb_closed := True\<rparr>, cs_permits := ps, cs_lost := lost, cs_closed := True\<rparr>"
    have "loose ?s"
      by (rule loose_intro[where l = l and limit = limit])
        (use Limited f units in \<open>simp_all add: units_ok_def\<close>)
    then have "cap_inv (?s\<lparr>cs_broker := close_waiters_locked (cs_broker ?s)\<rparr>)"
      by (rule loose_close) simp
    moreover have "?s\<lparr>cs_broker := close_waiters_locked (cs_broker ?s)\<rparr>
        = s\<lparr>cs_broker := broker_close (cs_broker s), cs_permits := ps, cs_lost := lost, cs_closed := True\<rparr>"
      using False by (simp add: broker_close_def)
    ultimately show ?thesis by (simp only:)
  qed
next
  case Unlimited
  with inv show ?thesis by (auto simp: broker_close_def close_waiters_locked_def cap_inv_def)
qed

lemma inv_retire:
  assumes inv: "cap_inv s" and k: "k < length (cs_permits s)"
  shows "cap_inv (retire_permit k s)"
proof (cases "cb_mode (cs_broker s)")
  case (Limited l)
  let ?u = "cs_permits s ! k" and ?ps = "list_remove_at k (cs_permits s)"
  obtain limit where f: "cb_limit (cs_broker s) = Some limit" "0 < limit" "limit \<le> u64_max"
    "units_ok limit l (card (granted (cs_requests s) (cb_status (cs_broker s)))) (cs_permits s) (cs_lost s)
       (cb_reports (cs_broker s))"
    "length (lc_waiters l) \<le> limit"
    "requests_ok (lc_waiters l) (cs_requests s) (cb_status (cs_broker s)) (cb_next (cs_broker s))"
    "cb_closed (cs_broker s) \<longleftrightarrow> cs_closed s \<or> lc_effective l = 0"
    "lc_waiters l \<noteq> [] \<longrightarrow> \<not> cb_closed (cs_broker s) \<and> lc_available l = 0"
    "cs_lost s > 0 \<longrightarrow> cb_closed (cs_broker s)"
    by (rule cap_inv_limited[OF inv Limited])
  note sum = sum_permits_remove[OF k]
  show ?thesis
  proof (cases "?u = 0 \<or> cb_closed (cs_broker s)")
    case True
    have "loose (retire_permit k s)"
      by (rule loose_intro[where l = l and limit = limit])
        (use Limited f True sum in \<open>auto simp: retire_permit_def broker_retire_def units_ok_def\<close>)
    then show ?thesis
      by (rule cap_inv_intro[where l = l])
        (use Limited f True in \<open>auto simp: retire_permit_def broker_retire_def\<close>)
  next
    case False
    let ?e = "lc_effective l - ?u"
    let ?r = "\<lparr>cr_configured = limit, cr_effective = ?e, cr_retired = ?u\<rparr>"
    have room: "?u \<le> lc_effective l" "lc_available l \<le> ?e" using f(4) sum by (auto simp: units_ok_def)
    let ?b = "cs_broker s\<lparr>cb_mode := Limited (l\<lparr>lc_effective := ?e\<rparr>), cb_reports := cb_reports (cs_broker s) @ [?r]\<rparr>"
    have ret: "broker_retire (cs_broker s) ?u
        = (if ?e = 0 then close_waiters_locked (?b\<lparr>cb_closed := True\<rparr>) else dispatch_locked ?b)"
      using False Limited room f(1) by (simp add: broker_retire_def Let_def)
    have units: "units_ok limit (l\<lparr>lc_effective := ?e\<rparr>) (card (granted (cs_requests s) (cb_status (cs_broker s))))
        ?ps (cs_lost s) (cb_reports (cs_broker s) @ [?r])"
      using f(4) sum room(1) unfolding units_ok_def by (simp, linarith)
    show ?thesis
    proof (cases "?e = 0")
      case True
      let ?s = "s\<lparr>cs_broker := ?b\<lparr>cb_closed := True\<rparr>, cs_permits := ?ps\<rparr>"
      have "loose ?s"
        by (rule loose_intro[where l = "l\<lparr>lc_effective := ?e\<rparr>" and limit = limit])
          (use f False True units in simp_all)
      then have "cap_inv (?s\<lparr>cs_broker := close_waiters_locked (cs_broker ?s)\<rparr>)" by (rule loose_close) simp
      moreover have "?s\<lparr>cs_broker := close_waiters_locked (cs_broker ?s)\<rparr> = retire_permit k s"
        using True False ret by (simp add: retire_permit_def Let_def)
      ultimately show ?thesis by (simp only:)
    next
      case pos: False
      let ?s = "s\<lparr>cs_broker := ?b, cs_permits := ?ps\<rparr>"
      have "loose ?s"
        by (rule loose_intro[where l = "l\<lparr>lc_effective := ?e\<rparr>" and limit = limit])
          (use f False pos units in simp_all)
      then have "cap_inv (?s\<lparr>cs_broker := dispatch_locked (cs_broker ?s)\<rparr>)"
        by (rule loose_dispatch) (use f False in auto)
      moreover have "?s\<lparr>cs_broker := dispatch_locked (cs_broker ?s)\<rparr> = retire_permit k s"
        using pos False ret by (simp add: retire_permit_def Let_def)
      ultimately show ?thesis by (simp only:)
    qed
  qed
next
  case Unlimited
  with inv show ?thesis by (auto simp: retire_permit_def broker_retire_def Let_def cap_inv_def)
qed

lemma inv_leak:
  assumes "cap_inv s" "k < length (cs_permits s)"
  shows "cap_inv (close_without_release k s)"
  using inv_close_with[OF assms(1), of "list_remove_at k (cs_permits s)" "cs_lost s + cs_permits s ! k"]
    sum_permits_remove[OF assms(2)]
  by (simp add: close_without_release_def)

lemma inv_close:
  assumes "cap_inv s"
  shows "cap_inv (s\<lparr>cs_broker := broker_close (cs_broker s), cs_closed := True\<rparr>)"
proof -
  have "s\<lparr>cs_broker := broker_close (cs_broker s), cs_permits := cs_permits s, cs_lost := cs_lost s, cs_closed := True\<rparr>
      = s\<lparr>cs_broker := broker_close (cs_broker s), cs_closed := True\<rparr>"
    by (cases s) simp
  with inv_close_with[OF assms, of "cs_permits s" "cs_lost s"] show ?thesis by (simp only:)
qed

lemma inv_cap_init:
  assumes "cap_init s"
  shows "cap_inv s"
proof -
  obtain limit where limit: "\<forall>n. limit = Some n \<longrightarrow> 0 < n \<and> n \<le> u64_max"
    and s: "s = \<lparr>cs_broker = broker_new limit, cs_permits = [], cs_requests = {||}, cs_lost = 0, cs_closed = False\<rparr>"
    using assms unfolding cap_init_def by blast
  show ?thesis
  proof (cases limit)
    case None
    with s show ?thesis by (simp add: broker_new_def cap_inv_def)
  next
    case (Some n)
    with limit have n: "0 < n" "n \<le> u64_max" by auto
    have "requests_ok [] {||} fmempty 0" "granted {||} fmempty = {}" by (simp_all add: requests_ok_def granted_def)
    with n Some s show ?thesis by (simp add: broker_new_def cap_inv_def loose_def units_ok_def)
  qed
qed

interpretation cap: inductive_invariant cap_init cap_step cap_inv
proof
  show "cap_init s \<Longrightarrow> cap_inv s" for s by (rule inv_cap_init)
  show "cap_inv s \<Longrightarrow> cap_step s t \<Longrightarrow> cap_inv t" for s t
    by (erule cap_step.cases)
      (auto intro: inv_acquire_one inv_acquire_many inv_poll inv_cancel inv_split inv_release inv_retire inv_leak inv_close)
qed

lemma cap_reachable_inv: "cap_reachable s \<Longrightarrow> cap_inv s"
  unfolding cap_reachable_def using cap.good_reachable by blast

section \<open>Properties\<close>

lemma capacity_account:
  assumes "cap_reachable s" "cb_mode (cs_broker s) = Limited l" "cb_limit (cs_broker s) = Some limit"
  shows "lc_available l + card (granted (cs_requests s) (cb_status (cs_broker s))) + sum_list (cs_permits s) + cs_lost s
      = lc_effective l"
    "lc_effective l + sum_list (map cr_retired (cb_reports (cs_broker s))) = limit"
    "length (lc_waiters l) \<le> limit"
    "lc_waiters l \<noteq> [] \<Longrightarrow> \<not> cb_closed (cs_broker s) \<and> lc_available l = 0"
    "cb_closed (cs_broker s) \<longleftrightarrow> cs_closed s \<or> lc_effective l = 0"
    "cs_lost s > 0 \<Longrightarrow> cb_closed (cs_broker s)"
    "requests_ok (lc_waiters l) (cs_requests s) (cb_status (cs_broker s)) (cb_next (cs_broker s))"
    "limit \<le> u64_max"
  by (rule cap_inv_limited[OF cap_reachable_inv[OF assms(1)] assms(2)];
      use assms(3) in \<open>simp add: units_ok_def\<close>)+

text \<open>A run used by the witnesses: one unit, held by a permit, and one request waiting for it.\<close>

definition demo_capacity :: capacity_system where
  "demo_capacity = \<lparr>cs_broker = broker_new (Some 1), cs_permits = [], cs_requests = {||}, cs_lost = 0, cs_closed = False\<rparr>"

definition demo_waiting :: capacity_system where
  "demo_waiting = acquire_one (acquire_one demo_capacity)"

lemmas capacity_eval = demo_waiting_def demo_capacity_def acquire_one_def start_acquire_one_def broker_new_def
  add_permit_def drop_permit_def broker_release_def return_capacity_locked_def checked_add_usize_def u64_max_def
  dispatch_locked_def set_status_def list_remove_at_def retire_permit_def broker_retire_def close_waiters_locked_def Let_def

lemma demo_capacity_init: "cap_init demo_capacity"
  unfolding cap_init_def demo_capacity_def by (intro exI[of _ "Some 1"]) (simp add: u64_max_def)

lemma demo_waiting_reachable: "cap_reachable demo_waiting"
  unfolding cap_reachable_def demo_waiting_def using demo_capacity_init
  by (blast intro: rtranclp.rtrancl_into_rtrancl rtranclp.rtrancl_refl cap_step.acquire_one)

lemma demo_waiting_eq:
  "demo_waiting = \<lparr>cs_broker = \<lparr>cb_limit = Some 1, cb_closed = False,
       cb_mode = Limited \<lparr>lc_available = 0, lc_effective = 1, lc_waiters = [0]\<rparr>,
       cb_status = fmupd 0 CapWaiting fmempty, cb_reports = [], cb_next = 1\<rparr>,
     cs_permits = [1], cs_requests = {|0|}, cs_lost = 0, cs_closed = False\<rparr>"
  by (simp add: capacity_eval)

text \<open>
  C23. Ownership units are conserved. In every reachable state of a broker with a finite limit and any
  number of clients acquiring, waiting, cancelling, splitting, releasing, retiring and closing, the
  free units, the granted requests, the units of live permits and the units given up at a closed
  broker add up to the effective limit; the effective limit and all reported retirements add up to the
  configured limit; the waiter queue is bounded by it; requests wait only while the broker is open and
  no unit is free; admission is closed exactly when it was closed explicitly or nothing is left.
\<close>
theorem ownership_units_conserved:
  assumes "cap_reachable s" "cb_mode (cs_broker s) = Limited l" "cb_limit (cs_broker s) = Some limit"
  shows "lc_available l + card {r \<in> fset (cs_requests s). fmlookup (cb_status (cs_broker s)) r = Some CapGranted}
        + sum_list (cs_permits s) + cs_lost s = lc_effective l
    \<and> lc_effective l + sum_list (map cr_retired (cb_reports (cs_broker s))) = limit
    \<and> length (lc_waiters l) \<le> limit
    \<and> (lc_waiters l \<noteq> [] \<longrightarrow> \<not> cb_closed (cs_broker s) \<and> lc_available l = 0)
    \<and> (cb_closed (cs_broker s) \<longleftrightarrow> cs_closed s \<or> lc_effective l = 0)
    \<and> (cs_lost s > 0 \<longrightarrow> cb_closed (cs_broker s))"
  using capacity_account[OF assms] by (auto simp: granted_def)

theorem ownership_units_conserved_witness:
  "cap_reachable demo_waiting \<and> cs_permits demo_waiting = [1]
   \<and> cb_mode (cs_broker demo_waiting) = Limited \<lparr>lc_available = 0, lc_effective = 1, lc_waiters = [0]\<rparr>
   \<and> card {r \<in> fset (cs_requests demo_waiting). fmlookup (cb_status (cs_broker demo_waiting)) r = Some CapGranted} = 0"
proof -
  let ?l = "\<lparr>lc_available = 0, lc_effective = 1, lc_waiters = [0::nat]\<rparr>"
  have m: "cb_mode (cs_broker demo_waiting) = Limited ?l" "cb_limit (cs_broker demo_waiting) = Some 1"
    "cs_permits demo_waiting = [1]"
    by (simp_all add: demo_waiting_eq)
  from ownership_units_conserved[OF demo_waiting_reachable m(1,2)] m demo_waiting_reachable show ?thesis by simp
qed

text \<open>
  C17. Returned units go to the oldest waiters. When a client drops a permit of a reachable open
  broker, the freed units are granted to the longest affordable prefix of the waiting queue in arrival
  order, the other waiters keep their places, only the units nobody waits for become free, and no
  other request changes its status.
\<close>
theorem released_units_go_to_oldest:
  assumes "cap_reachable s" "cb_mode (cs_broker s) = Limited l" "k < length (cs_permits s)"
    "\<not> cb_closed (cs_broker s)" "u = cs_permits s ! k + lc_available l" "s' = drop_permit k s"
  shows "\<exists>l'. cb_mode (cs_broker s') = Limited l'
    \<and> lc_waiters l' = drop u (lc_waiters l)
    \<and> lc_available l' = u - length (lc_waiters l)
    \<and> lc_effective l' = lc_effective l
    \<and> \<not> cb_closed (cs_broker s')
    \<and> (\<forall>r. fmlookup (cb_status (cs_broker s')) r
          = (if r \<in> set (take u (lc_waiters l)) then Some CapGranted else fmlookup (cb_status (cs_broker s)) r))"
proof (cases "cs_permits s ! k = 0")
  case True
  obtain limit where "cb_limit (cs_broker s) = Some limit"
    using cap_inv_limited[OF cap_reachable_inv[OF assms(1)] assms(2)] by blast
  note capacity_account(4)[OF assms(1,2) this]
  then have "lc_waiters l = [] \<or> lc_available l = 0" by (cases "lc_waiters l = []") simp_all
  with True assms show ?thesis by (auto simp: drop_permit_def broker_release_def)
next
  case False
  obtain limit where limit: "cb_limit (cs_broker s) = Some limit"
    using cap_inv_limited[OF cap_reachable_inv[OF assms(1)] assms(2)] by blast
  note a = capacity_account[OF assms(1,2) limit]
  have "return_capacity_locked (cs_broker s) (cs_permits s ! k)
      = (True, cs_broker s\<lparr>cb_mode := Limited (l\<lparr>lc_available := lc_available l + cs_permits s ! k\<rparr>)\<rparr>)"
    using a(1,2,8) sum_permits_remove[OF assms(3)] by (intro return_ok[OF _ _ assms(2)]) linarith+
  with False assms show ?thesis
    by (simp add: drop_permit_def broker_release_def dispatch_locked_def dispatch_limited_prefix fold_status
        fold_status_lookup add.commute)
qed

theorem released_units_go_to_oldest_witness:
  "\<exists>l'. cb_mode (cs_broker (drop_permit 0 demo_waiting)) = Limited l' \<and> lc_waiters l' = [] \<and> lc_available l' = 0
     \<and> fmlookup (cb_status (cs_broker (drop_permit 0 demo_waiting))) 0 = Some CapGranted"
proof -
  let ?l = "\<lparr>lc_available = 0, lc_effective = 1, lc_waiters = [0::nat]\<rparr>"
  have m: "cb_mode (cs_broker demo_waiting) = Limited ?l" "0 < length (cs_permits demo_waiting)"
    "\<not> cb_closed (cs_broker demo_waiting)" "1 = cs_permits demo_waiting ! 0 + lc_available ?l"
    by (simp_all add: demo_waiting_eq)
  show ?thesis
    using released_units_go_to_oldest[OF demo_waiting_reachable m refl] by auto
qed

end
