(* ===== verification/Cleanup_Workers.thy ===== *)
theory Cleanup_Workers
  imports Drop_Bundle Ownership_Capacity Runner
begin

text \<open>
  Isolated destruction: the batch a cleanup bundle turns into, the queue of worker threads that run
  batches, the executor that joins them to the capacity broker, and the lazily started domain
  (\<^verbatim>\<open>src/src/core/deferred_drop/executor/batch.rs\<close>, \<^verbatim>\<open>executor/worker.rs\<close>, \<^verbatim>\<open>executor/mod.rs\<close>,
  \<^verbatim>\<open>domain.rs\<close>, \<^verbatim>\<open>src/src/core/ownership.rs\<close>).

  A destructor is user code: a job says whether it panics and with which payload. A destructor that
  never returns is a worker that stays in its phase. Thread creation is the answer of the injected
  spawner. Every locked section of \<open>WorkerQueue\<close> is one step of a worker; a condition-variable wait
  may end at any moment, which covers notification, time-out and spurious wake-up.
\<close>

section \<open>Batches\<close>

record drop_job =
  dj_value :: nat
  dj_panic :: "panic_message option"

record drop_batch =
  db_permit :: "nat option"
  db_retained :: "drop_job option"
  db_outcome :: "drop_job option"
  db_auxiliary :: "drop_job option"
  db_reporter :: bool
  db_poisoned :: bool

record batch_log =
  bl_run :: "drop_job list"
  bl_reports :: "string list"

definition drop_batch_new ::
  "nat \<Rightarrow> drop_job \<Rightarrow> drop_job option \<Rightarrow> drop_job option \<Rightarrow> bool \<Rightarrow> bool \<Rightarrow> drop_batch" where
  "drop_batch_new permit retained undelivered_outcome auxiliary panic_reporter poisoned =
     \<lparr>db_permit = Some permit, db_retained = Some retained, db_outcome = undelivered_outcome,
      db_auxiliary = auxiliary, db_reporter = panic_reporter, db_poisoned = poisoned\<rparr>"

definition panic_message_text :: "panic_message \<Rightarrow> string" where
  "panic_message_text m =
     (case m of StaticStr s \<Rightarrow> s | OwnedStr s \<Rightarrow> s | OtherPayload \<Rightarrow> ''non-string panic payload'')"

text \<open>
  The loop of \<open>DropBatch::run\<close> over the present jobs: whether all returned, whether the one-shot
  reporter is still there, and what ran. A reporter that panics itself is contained without effect.
\<close>

fun run_jobs :: "drop_job list \<Rightarrow> bool \<Rightarrow> bool \<Rightarrow> batch_log \<Rightarrow> bool \<times> batch_log" where
  "run_jobs [] clean reporter w = (clean, w)"
| "run_jobs (job # jobs) clean reporter w =
     (let w = w\<lparr>bl_run := bl_run w @ [job]\<rparr>
      in case dj_panic job of
           None \<Rightarrow> run_jobs jobs clean reporter w
         | Some m \<Rightarrow>
             run_jobs jobs False False
               (if reporter then w\<lparr>bl_reports := bl_reports w @ [panic_message_text m]\<rparr> else w))"

definition batch_jobs :: "drop_batch \<Rightarrow> drop_job list" where
  "batch_jobs batch =
     concat (map (\<lambda>j. case j of None \<Rightarrow> [] | Some x \<Rightarrow> [x]) [db_retained batch, db_outcome batch, db_auxiliary batch])"

definition batch_run :: "drop_batch \<Rightarrow> capacity_broker \<Rightarrow> batch_log \<times> capacity_broker" where
  "batch_run batch broker =
     (case run_jobs (batch_jobs batch) True (db_reporter batch) \<lparr>bl_run = [], bl_reports = []\<rparr> of
        (clean, w) \<Rightarrow>
          (w, case db_permit batch of
                  None \<Rightarrow> broker
                | Some units \<Rightarrow>
                    (if clean \<and> \<not> db_poisoned batch then broker_release broker units
                     else broker_retire broker units)))"

text \<open>\<open>Drop for DropBatch\<close>: a batch that never ran closes admission; its values are retained for ever.\<close>

definition batch_drop :: "drop_batch \<Rightarrow> capacity_broker \<Rightarrow> capacity_broker" where
  "batch_drop batch broker = (case db_permit batch of None \<Rightarrow> broker | Some _ \<Rightarrow> broker_close broker)"

text \<open>
  \<open>DropBundle::submit_inner\<close>: the batch of a bundle, given how the destructors of its values behave.
\<close>

definition batch_of_bundle ::
  "(task_ref \<Rightarrow> drop_job) \<Rightarrow> (task_outcome \<Rightarrow> drop_job) \<Rightarrow> (nat \<Rightarrow> drop_job) \<Rightarrow> nat \<Rightarrow> bundle_inner \<Rightarrow> drop_batch" where
  "batch_of_bundle drop_task drop_outcome drop_value units inner =
     drop_batch_new units (drop_task (bi_retained inner)) (map_option drop_outcome (bi_outcome inner))
       (map_option drop_value (bi_auxiliary inner)) (bi_reporter inner) (bi_poisoned inner)"

section \<open>The worker queue\<close>

definition core_worker_count :: nat where
  "core_worker_count = 3"

definition max_worker_limit :: nat where
  "max_worker_limit = 16"

definition max_worker_count :: "nat option \<Rightarrow> nat" where
  "max_worker_count capacity =
     (case capacity of None \<Rightarrow> max_worker_limit | Some n \<Rightarrow> min n max_worker_limit)"

record worker_queue =
  wq_queue :: "drop_batch list"
  wq_closed :: bool
  wq_live :: nat
  wq_idle :: nat
  wq_starting :: nat
  wq_running :: nat
  wq_core :: nat
  wq_max :: nat
  wq_next :: nat

definition worker_queue_new :: "nat \<Rightarrow> nat \<Rightarrow> worker_queue" where
  "worker_queue_new core_workers max_workers =
     \<lparr>wq_queue = [], wq_closed = False, wq_live = 0, wq_idle = 0, wq_starting = 0, wq_running = 0,
      wq_core = core_workers, wq_max = max_workers, wq_next = 0\<rparr>"

definition needs_elastic_locked :: "worker_queue \<Rightarrow> bool" where
  "needs_elastic_locked q \<longleftrightarrow>
     \<not> wq_closed q \<and> wq_queue q \<noteq> [] \<and> wq_idle q = 0 \<and> wq_starting q = 0 \<and> wq_live q < wq_max q"

definition reserve_elastic_locked :: "worker_queue \<Rightarrow> bool \<times> worker_queue" where
  "reserve_elastic_locked q =
     (if needs_elastic_locked q then (True, q\<lparr>wq_starting := wq_starting q + 1\<rparr>) else (False, q))"

text \<open>\<open>submit\<close>: whether the batch was accepted and whether a worker start was reserved.\<close>

definition queue_submit :: "worker_queue \<Rightarrow> drop_batch \<Rightarrow> (drop_batch, bool) result \<times> worker_queue" where
  "queue_submit q batch =
     (if wq_closed q then (Inl batch, q)
      else case reserve_elastic_locked (q\<lparr>wq_queue := wq_queue q @ [batch]\<rparr>) of
             (spawn, q) \<Rightarrow> (Inr spawn, q))"

definition cancel_starting_worker :: "worker_queue \<Rightarrow> worker_queue" where
  "cancel_starting_worker q = q\<lparr>wq_starting := wq_starting q - 1\<rparr>"

definition take_activate :: "worker_queue \<Rightarrow> worker_queue" where
  "take_activate q = q\<lparr>wq_starting := wq_starting q - 1, wq_live := wq_live q + 1\<rparr>"

text \<open>
  One turn of the loop of \<open>take\<close> under the mutex. An elastic worker gives the mutex up once more
  after it popped a batch, to see whether the backlog persists (\<open>TakeExpand\<close>).
\<close>

datatype worker_take = TakeBatch drop_batch bool | TakeExpand drop_batch | TakeIdle | TakeExit | TakeTimedOut

definition take_turn :: "bool \<Rightarrow> worker_queue \<Rightarrow> worker_take \<times> worker_queue" where
  "take_turn core q =
     (case wq_queue q of
        batch # rest \<Rightarrow>
          (let q = q\<lparr>wq_queue := rest, wq_running := wq_running q + 1\<rparr>
           in if \<not> core then (TakeExpand batch, q)
              else if wq_live q + wq_starting q \<le> wq_core q
              then (case reserve_elastic_locked q of (spawn, q) \<Rightarrow> (TakeBatch batch spawn, q))
              else (TakeBatch batch False, q))
      | [] \<Rightarrow> (if wq_closed q then (TakeExit, q) else (TakeIdle, q\<lparr>wq_idle := wq_idle q + 1\<rparr>)))"

definition take_expanded :: "drop_batch \<Rightarrow> worker_queue \<Rightarrow> worker_take \<times> worker_queue" where
  "take_expanded batch q = (case reserve_elastic_locked q of (spawn, q) \<Rightarrow> (TakeBatch batch spawn, q))"

definition take_wake :: "bool \<Rightarrow> bool \<Rightarrow> worker_queue \<Rightarrow> worker_take \<times> worker_queue" where
  "take_wake core timed_out q =
     (let q = q\<lparr>wq_idle := wq_idle q - 1\<rparr>
      in if \<not> core \<and> timed_out \<and> wq_queue q = [] then (TakeTimedOut, q\<lparr>wq_live := wq_live q - 1\<rparr>)
         else take_turn core q)"

definition worker_exited :: "worker_queue \<Rightarrow> bool \<times> worker_queue" where
  "worker_exited q = reserve_elastic_locked (q\<lparr>wq_live := wq_live q - 1\<rparr>)"

definition queue_close :: "worker_queue \<Rightarrow> worker_queue" where
  "queue_close q = q\<lparr>wq_closed := True\<rparr>"

definition finish_batch :: "worker_queue \<Rightarrow> worker_queue" where
  "finish_batch q = q\<lparr>wq_running := wq_running q - 1\<rparr>"

definition cleanup_snapshot :: "worker_queue \<Rightarrow> nat \<times> nat" where
  "cleanup_snapshot q = (length (wq_queue q), wq_running q)"

text \<open>
  \<open>start_core\<close>: all threads are created before any is launched; \<open>spawns\<close> and \<open>ready\<close> say for each
  worker whether its thread was created and whether its start handshake completed. A launched core
  worker acknowledges once it is idle.
\<close>

fun launch_core :: "(nat \<Rightarrow> bool) \<Rightarrow> nat list \<Rightarrow> worker_queue \<Rightarrow> (nat, unit) result \<times> worker_queue" where
  "launch_core ready [] q = (Inr (), q)"
| "launch_core ready (worker # workers) q =
     (if ready worker then launch_core ready workers (snd (take_turn True (take_activate q)))
      else (Inl worker, queue_close q))"

definition start_core ::
  "(nat \<Rightarrow> bool) \<Rightarrow> (nat \<Rightarrow> bool) \<Rightarrow> nat \<Rightarrow> worker_queue \<Rightarrow> (nat, unit) result \<times> worker_queue" where
  "start_core spawns ready n q =
     (case list_position (\<lambda>w. \<not> spawns w) [0..<n] of
        Some worker \<Rightarrow> (Inl worker, q)
      | None \<Rightarrow> launch_core ready [0..<n] (q\<lparr>wq_starting := n, wq_next := n\<rparr>))"

section \<open>The executor and the domain\<close>

record drop_executor =
  ex_capacity :: capacity_broker
  ex_workers :: worker_queue

definition executor_try_start_with ::
  "nat \<Rightarrow> nat option \<Rightarrow> (nat \<Rightarrow> bool) \<Rightarrow> (nat \<Rightarrow> bool) \<Rightarrow> (nat, drop_executor) result" where
  "executor_try_start_with worker_count capacity spawns ready =
     (let max_workers = max_worker_count capacity;
          core_workers = min worker_count max_workers
      in case start_core spawns ready core_workers (worker_queue_new core_workers max_workers) of
           (Inl worker, _) \<Rightarrow> Inl worker
         | (Inr _, q) \<Rightarrow> Inr \<lparr>ex_capacity = broker_new capacity, ex_workers = q\<rparr>)"

definition executor_try_reserve :: "drop_executor \<Rightarrow> (nat option, nat) result \<times> drop_executor" where
  "executor_try_reserve ex =
     (case try_acquire (ex_capacity ex) 1 of (r, b) \<Rightarrow> (r, ex\<lparr>ex_capacity := b\<rparr>))"

text \<open>
  \<open>split_reservations\<close>: one-unit permits taken from the combined permit, and what is left of it.
  \<open>None\<close> stands for the failed \<open>expect\<close>.
\<close>

fun split_reservations :: "nat \<Rightarrow> nat \<Rightarrow> (nat list \<times> nat) option" where
  "split_reservations 0 combined = Some ([], combined)"
| "split_reservations (Suc n) combined =
     (case split_one combined of
        None \<Rightarrow> None
      | Some (rest, permit) \<Rightarrow>
          map_option (\<lambda>(permits, left). (permit # permits, left)) (split_reservations n rest))"

text \<open>The combined permit is dropped at the end of \<open>try_reserve_many\<close>, which returns what is left of it.\<close>

definition executor_try_reserve_many ::
  "nat \<Rightarrow> drop_executor \<Rightarrow> (nat option, nat list) result option \<times> drop_executor" where
  "executor_try_reserve_many n ex =
     (if n = 0 then (Some (Inr []), ex)
      else case try_acquire (ex_capacity ex) n of
             (Inl e, b) \<Rightarrow> (Some (Inl e), ex\<lparr>ex_capacity := b\<rparr>)
           | (Inr combined, b) \<Rightarrow>
               (case split_reservations n combined of
                  None \<Rightarrow> (None, ex\<lparr>ex_capacity := b\<rparr>)
                | Some (permits, left) \<Rightarrow> (Some (Inr permits), ex\<lparr>ex_capacity := broker_release b left\<rparr>)))"

text \<open>\<open>DropExecutor::submit\<close>: a closed queue closes admission and the batch is retained for ever.\<close>

definition executor_submit :: "drop_batch \<Rightarrow> drop_executor \<Rightarrow> bool \<times> drop_executor" where
  "executor_submit batch ex =
     (case queue_submit (ex_workers ex) batch of
        (Inr spawn, q) \<Rightarrow> (spawn, ex\<lparr>ex_workers := q\<rparr>)
      | (Inl _, q) \<Rightarrow> (False, ex\<lparr>ex_workers := q, ex_capacity := broker_close (ex_capacity ex)\<rparr>))"

definition executor_drop :: "drop_executor \<Rightarrow> drop_executor" where
  "executor_drop ex = ex\<lparr>ex_capacity := broker_close (ex_capacity ex), ex_workers := queue_close (ex_workers ex)\<rparr>"

record ownership_snapshot =
  os_configured_limit :: "nat option"
  os_effective_limit :: "nat option"
  os_available :: "nat option"
  os_waiters :: nat
  os_admission_open :: bool
  os_cleanup_queued :: nat
  os_cleanup_running :: nat

definition os_retired :: "ownership_snapshot \<Rightarrow> nat option" where
  "os_retired o' =
     (case (os_configured_limit o', os_effective_limit o') of
        (Some configured, Some effective) \<Rightarrow> Some (configured - effective)
      | _ \<Rightarrow> None)"

definition os_in_use :: "ownership_snapshot \<Rightarrow> nat option" where
  "os_in_use o' =
     (case (os_effective_limit o', os_available o') of
        (Some effective, Some available) \<Rightarrow> Some (effective - available)
      | _ \<Rightarrow> None)"

record drop_domain =
  dd_worker_count :: nat
  dd_capacity :: "nat option"
  dd_executor :: "drop_executor option"

datatype drop_admission_error = DropStart nat | DropCapacity "nat option"

definition domain_unstarted_with_limit :: "nat \<Rightarrow> nat option \<Rightarrow> (nat, drop_domain) result" where
  "domain_unstarted_with_limit worker_count capacity =
     (if worker_count = 0 then Inl 0
      else Inr \<lparr>dd_worker_count = worker_count, dd_capacity = capacity, dd_executor = None\<rparr>)"

text \<open>\<open>executor\<close>: the published executor or one start attempt; a failed start publishes nothing.\<close>

definition domain_executor ::
  "(nat \<Rightarrow> bool) \<Rightarrow> (nat \<Rightarrow> bool) \<Rightarrow> drop_domain \<Rightarrow> (nat, drop_executor) result \<times> drop_domain" where
  "domain_executor spawns ready d =
     (case dd_executor d of
        Some ex \<Rightarrow> (Inr ex, d)
      | None \<Rightarrow>
          (case executor_try_start_with (dd_worker_count d) (dd_capacity d) spawns ready of
             Inl worker \<Rightarrow> (Inl worker, d)
           | Inr ex \<Rightarrow> (Inr ex, d\<lparr>dd_executor := Some ex\<rparr>)))"

definition domain_try_reserve ::
  "(nat \<Rightarrow> bool) \<Rightarrow> (nat \<Rightarrow> bool) \<Rightarrow> drop_domain \<Rightarrow> (drop_admission_error, nat) result \<times> drop_domain" where
  "domain_try_reserve spawns ready d =
     (case domain_executor spawns ready d of
        (Inl worker, d) \<Rightarrow> (Inl (DropStart worker), d)
      | (Inr ex, d) \<Rightarrow>
          (case executor_try_reserve ex of
             (r, ex) \<Rightarrow> (map_sum DropCapacity id r, d\<lparr>dd_executor := Some ex\<rparr>)))"

definition domain_try_reserve_many ::
  "(nat \<Rightarrow> bool) \<Rightarrow> (nat \<Rightarrow> bool) \<Rightarrow> nat \<Rightarrow> drop_domain
     \<Rightarrow> (drop_admission_error, nat list) result option \<times> drop_domain" where
  "domain_try_reserve_many spawns ready n d =
     (if n = 0 then (Some (Inr []), d)
      else if (case dd_capacity d of None \<Rightarrow> False | Some capacity \<Rightarrow> n > capacity)
      then (Some (Inl (DropCapacity (dd_capacity d))), d)
      else case domain_executor spawns ready d of
             (Inl worker, d) \<Rightarrow> (Some (Inl (DropStart worker)), d)
           | (Inr ex, d) \<Rightarrow>
               (case executor_try_reserve_many n ex of
                  (r, ex) \<Rightarrow> (map_option (map_sum DropCapacity id) r, d\<lparr>dd_executor := Some ex\<rparr>)))"

definition domain_snapshot :: "bool \<Rightarrow> drop_domain \<Rightarrow> ownership_snapshot" where
  "domain_snapshot runtime_open d =
     (case dd_executor d of
        None \<Rightarrow>
          \<lparr>os_configured_limit = dd_capacity d, os_effective_limit = dd_capacity d, os_available = dd_capacity d,
           os_waiters = 0, os_admission_open = runtime_open, os_cleanup_queued = 0, os_cleanup_running = 0\<rparr>
      | Some ex \<Rightarrow>
          (let c = broker_snapshot (ex_capacity ex)
           in \<lparr>os_configured_limit = sn_configured_limit c, os_effective_limit = sn_effective_limit c,
               os_available = sn_available c, os_waiters = sn_waiters c,
               os_admission_open = (runtime_open \<and> sn_open c),
               os_cleanup_queued = fst (cleanup_snapshot (ex_workers ex)),
               os_cleanup_running = snd (cleanup_snapshot (ex_workers ex))\<rparr>))"

section \<open>The queue with its threads\<close>

text \<open>
  A worker thread is launched but not yet counted, between two turns, waiting on the condition
  variable, waiting for the backlog to persist, running a batch, leaving after closure, or gone.
  \<open>sy_spawning\<close> counts the elastic starts that were reserved and not yet decided by \<open>spawn_elastic\<close>.
  Three ghost lists record the batches accepted, taken from the queue, and finished.
\<close>

datatype worker_phase =
  Launched | Between | OnCondvar | Expanding drop_batch | Executing drop_batch | Leaving | Gone

record worker =
  wk_core :: bool
  wk_phase :: worker_phase

record cleanup_system =
  sy_queue :: worker_queue
  sy_workers :: "worker list"
  sy_spawning :: nat
  sy_accepted :: "drop_batch list"
  sy_started :: "drop_batch list"
  sy_finished :: "drop_batch list"

definition set_phase :: "nat \<Rightarrow> worker_phase \<Rightarrow> cleanup_system \<Rightarrow> cleanup_system" where
  "set_phase k p s = s\<lparr>sy_workers := (sy_workers s)[k := (sy_workers s ! k)\<lparr>wk_phase := p\<rparr>]\<rparr>"

definition note_spawn :: "bool \<Rightarrow> cleanup_system \<Rightarrow> cleanup_system" where
  "note_spawn spawn s = (if spawn then s\<lparr>sy_spawning := sy_spawning s + 1\<rparr> else s)"

definition sys_submit :: "drop_batch \<Rightarrow> cleanup_system \<Rightarrow> cleanup_system" where
  "sys_submit batch s =
     (case queue_submit (sy_queue s) batch of
        (Inl _, q) \<Rightarrow> s\<lparr>sy_queue := q\<rparr>
      | (Inr spawn, q) \<Rightarrow> note_spawn spawn (s\<lparr>sy_queue := q, sy_accepted := sy_accepted s @ [batch]\<rparr>))"

datatype spawn_result = SpawnFailed | Spawned bool

text \<open>\<open>spawn_elastic\<close>; the flag of a created thread says whether it still receives its launch.\<close>

definition spawn_elastic :: "spawn_result \<Rightarrow> cleanup_system \<Rightarrow> cleanup_system" where
  "spawn_elastic r s =
     (let q = (sy_queue s)\<lparr>wq_next := wq_next (sy_queue s) + 1\<rparr>;
          s = s\<lparr>sy_spawning := sy_spawning s - 1, sy_queue := q\<rparr>
      in case r of
           SpawnFailed \<Rightarrow> s\<lparr>sy_queue := cancel_starting_worker q\<rparr>
         | Spawned receives \<Rightarrow>
             (if wq_closed q \<or> \<not> receives then s\<lparr>sy_queue := cancel_starting_worker q\<rparr>
              else s\<lparr>sy_workers := sy_workers s @ [\<lparr>wk_core = False, wk_phase = Launched\<rparr>]\<rparr>))"

definition after_take :: "nat \<Rightarrow> worker_take \<times> worker_queue \<Rightarrow> cleanup_system \<Rightarrow> cleanup_system" where
  "after_take k r s =
     (case r of
        (TakeBatch batch spawn, q) \<Rightarrow> set_phase k (Executing batch) (note_spawn spawn (s\<lparr>sy_queue := q\<rparr>))
      | (TakeExpand batch, q) \<Rightarrow> set_phase k (Expanding batch) (s\<lparr>sy_queue := q\<rparr>)
      | (TakeIdle, q) \<Rightarrow> set_phase k OnCondvar (s\<lparr>sy_queue := q\<rparr>)
      | (TakeExit, q) \<Rightarrow> set_phase k Leaving (s\<lparr>sy_queue := q\<rparr>)
      | (TakeTimedOut, q) \<Rightarrow> set_phase k Gone (s\<lparr>sy_queue := q\<rparr>))"

text \<open>A batch enters the record of started batches when it leaves the queue.\<close>

definition note_started :: "worker_take \<Rightarrow> cleanup_system \<Rightarrow> cleanup_system" where
  "note_started r s =
     (case r of
        TakeBatch batch _ \<Rightarrow> s\<lparr>sy_started := sy_started s @ [batch]\<rparr>
      | TakeExpand batch \<Rightarrow> s\<lparr>sy_started := sy_started s @ [batch]\<rparr>
      | _ \<Rightarrow> s)"

definition worker_turn :: "nat \<Rightarrow> worker_queue \<Rightarrow> cleanup_system \<Rightarrow> cleanup_system" where
  "worker_turn k q s =
     (let r = take_turn (wk_core (sy_workers s ! k)) q in after_take k r (note_started (fst r) s))"

definition worker_launched :: "nat \<Rightarrow> cleanup_system \<Rightarrow> cleanup_system" where
  "worker_launched k s = worker_turn k (take_activate (sy_queue s)) s"

definition worker_next :: "nat \<Rightarrow> cleanup_system \<Rightarrow> cleanup_system" where
  "worker_next k s = worker_turn k (sy_queue s) s"

definition worker_woken :: "nat \<Rightarrow> bool \<Rightarrow> cleanup_system \<Rightarrow> cleanup_system" where
  "worker_woken k timed_out s =
     (let r = take_wake (wk_core (sy_workers s ! k)) timed_out (sy_queue s)
      in after_take k r (note_started (fst r) s))"

definition worker_expanded :: "nat \<Rightarrow> drop_batch \<Rightarrow> cleanup_system \<Rightarrow> cleanup_system" where
  "worker_expanded k batch s = after_take k (take_expanded batch (sy_queue s)) s"

definition worker_finished :: "nat \<Rightarrow> drop_batch \<Rightarrow> cleanup_system \<Rightarrow> cleanup_system" where
  "worker_finished k batch s =
     set_phase k Between (s\<lparr>sy_queue := finish_batch (sy_queue s), sy_finished := sy_finished s @ [batch]\<rparr>)"

definition worker_left :: "nat \<Rightarrow> cleanup_system \<Rightarrow> cleanup_system" where
  "worker_left k s =
     (case worker_exited (sy_queue s) of (spawn, q) \<Rightarrow> set_phase k Gone (note_spawn spawn (s\<lparr>sy_queue := q\<rparr>)))"

inductive cleanup_step :: "cleanup_system \<Rightarrow> cleanup_system \<Rightarrow> bool" where
  submit: "cleanup_step s (sys_submit batch s)"
| spawn: "sy_spawning s > 0 \<Longrightarrow> cleanup_step s (spawn_elastic r s)"
| launched: "k < length (sy_workers s) \<Longrightarrow> wk_phase (sy_workers s ! k) = Launched \<Longrightarrow> cleanup_step s (worker_launched k s)"
| turn: "k < length (sy_workers s) \<Longrightarrow> wk_phase (sy_workers s ! k) = Between \<Longrightarrow> cleanup_step s (worker_next k s)"
| woken: "k < length (sy_workers s) \<Longrightarrow> wk_phase (sy_workers s ! k) = OnCondvar \<Longrightarrow> cleanup_step s (worker_woken k timed_out s)"
| expanded: "k < length (sy_workers s) \<Longrightarrow> wk_phase (sy_workers s ! k) = Expanding batch
    \<Longrightarrow> cleanup_step s (worker_expanded k batch s)"
| finished: "k < length (sy_workers s) \<Longrightarrow> wk_phase (sy_workers s ! k) = Executing batch
    \<Longrightarrow> cleanup_step s (worker_finished k batch s)"
| left: "k < length (sy_workers s) \<Longrightarrow> wk_phase (sy_workers s ! k) = Leaving \<Longrightarrow> cleanup_step s (worker_left k s)"
| close: "cleanup_step s (s\<lparr>sy_queue := queue_close (sy_queue s)\<rparr>)"

text \<open>A started executor: its core workers are idle.\<close>

definition cleanup_start :: "worker_queue \<Rightarrow> cleanup_system" where
  "cleanup_start q =
     \<lparr>sy_queue = q, sy_workers = replicate (wq_core q) \<lparr>wk_core = True, wk_phase = OnCondvar\<rparr>, sy_spawning = 0,
      sy_accepted = [], sy_started = [], sy_finished = []\<rparr>"

definition cleanup_init :: "cleanup_system \<Rightarrow> bool" where
  "cleanup_init s \<longleftrightarrow>
     (\<exists>worker_count capacity spawns ready ex.
        0 < worker_count \<and> capacity \<noteq> Some 0
        \<and> executor_try_start_with worker_count capacity spawns ready = Inr ex \<and> s = cleanup_start (ex_workers ex))"

definition cleanup_reachable :: "cleanup_system \<Rightarrow> bool" where
  "cleanup_reachable s \<longleftrightarrow> (\<exists>s0. cleanup_init s0 \<and> cleanup_step\<^sup>*\<^sup>* s0 s)"

section \<open>Batches: what a worker does with one\<close>

text \<open>The panic messages of the jobs, in order.\<close>

definition panic_texts :: "drop_job list \<Rightarrow> string list" where
  "panic_texts jobs = map panic_message_text (List.map_filter dj_panic jobs)"

lemma run_jobs_eq:
  "run_jobs jobs clean reporter w =
     (clean \<and> (\<forall>j \<in> set jobs. dj_panic j = None),
      w\<lparr>bl_run := bl_run w @ jobs,
        bl_reports := bl_reports w @ (if reporter then take 1 (panic_texts jobs) else [])\<rparr>)"
proof (induction jobs arbitrary: clean reporter w)
  case Nil
  then show ?case by (simp add: panic_texts_def List.map_filter_def)
next
  case (Cons job jobs)
  then show ?case
    by (cases "dj_panic job") (simp_all add: panic_texts_def List.map_filter_def Let_def)
qed

section \<open>Invariant\<close>

definition counts_live :: "worker_phase \<Rightarrow> nat" where
  "counts_live p = (case p of Launched \<Rightarrow> 0 | Gone \<Rightarrow> 0 | _ \<Rightarrow> 1)"

definition counts_idle :: "worker_phase \<Rightarrow> nat" where
  "counts_idle p = (case p of OnCondvar \<Rightarrow> 1 | _ \<Rightarrow> 0)"

definition counts_launched :: "worker_phase \<Rightarrow> nat" where
  "counts_launched p = (case p of Launched \<Rightarrow> 1 | _ \<Rightarrow> 0)"

definition counts_holding :: "worker_phase \<Rightarrow> nat" where
  "counts_holding p = (case p of Expanding _ \<Rightarrow> 1 | Executing _ \<Rightarrow> 1 | _ \<Rightarrow> 0)"

definition batch_held :: "worker_phase \<Rightarrow> drop_batch multiset" where
  "batch_held p = (case p of Expanding b \<Rightarrow> {#b#} | Executing b \<Rightarrow> {#b#} | _ \<Rightarrow> {#})"

lemmas phase_counts = counts_live_def counts_idle_def counts_launched_def counts_holding_def batch_held_def

definition phase_total :: "(worker_phase \<Rightarrow> 'a) \<Rightarrow> cleanup_system \<Rightarrow> 'a :: comm_monoid_add" where
  "phase_total f s = sum_list (map (f \<circ> wk_phase) (sy_workers s))"

definition core_count :: "cleanup_system \<Rightarrow> nat" where
  "core_count s = length (filter wk_core (sy_workers s))"

definition counts_ok :: "cleanup_system \<Rightarrow> bool" where
  "counts_ok s \<longleftrightarrow>
     wq_live (sy_queue s) = phase_total counts_live s \<and> wq_idle (sy_queue s) = phase_total counts_idle s
     \<and> wq_starting (sy_queue s) = sy_spawning s + phase_total counts_launched s
     \<and> wq_running (sy_queue s) = phase_total counts_holding s"

definition worker_limits_ok :: "worker_queue \<Rightarrow> bool" where
  "worker_limits_ok q \<longleftrightarrow> wq_live q + wq_starting q \<le> wq_max q \<and> wq_max q \<le> max_worker_limit \<and> 0 < wq_core q"

definition core_ok :: "cleanup_system \<Rightarrow> bool" where
  "core_ok s \<longleftrightarrow>
     core_count s = wq_core (sy_queue s)
     \<and> ((\<forall>w \<in> set (sy_workers s). wk_core w \<longrightarrow> wk_phase w \<noteq> Leaving \<and> wk_phase w \<noteq> Gone)
        \<or> wq_closed (sy_queue s) \<and> wq_queue (sy_queue s) = [])"

definition order_ok :: "cleanup_system \<Rightarrow> bool" where
  "order_ok s \<longleftrightarrow>
     sy_accepted s = sy_started s @ wq_queue (sy_queue s)
     \<and> mset (sy_started s) = mset (sy_finished s) + phase_total batch_held s"

definition cleanup_inv :: "cleanup_system \<Rightarrow> bool" where
  "cleanup_inv s \<longleftrightarrow> counts_ok s \<and> worker_limits_ok (sy_queue s) \<and> core_ok s \<and> order_ok s
     \<and> (\<forall>w \<in> set (sy_workers s). wk_phase w = Leaving \<longrightarrow> wq_closed (sy_queue s))"

lemmas cleanup_inv_defs = cleanup_inv_def counts_ok_def worker_limits_ok_def core_ok_def order_ok_def

lemma sum_list_map_update:
  "k < length xs \<Longrightarrow> sum_list (map f (xs[k := y])) + f (xs ! k) = sum_list (map f xs) + (f y :: 'a :: comm_monoid_add)"
proof (induction xs arbitrary: k)
  case (Cons x xs)
  show ?case
  proof (cases k)
    case 0
    then show ?thesis by (simp add: ac_simps)
  next
    case (Suc n)
    with Cons.prems Cons.IH[of n] show ?thesis by (simp add: ac_simps)
  qed
qed simp

lemma total_set_phase:
  assumes "k < length (sy_workers s)"
  shows "phase_total f (set_phase k p s) + f (wk_phase (sy_workers s ! k)) = phase_total f s + f p"
  using sum_list_map_update[OF assms, of "f \<circ> wk_phase" "(sy_workers s ! k)\<lparr>wk_phase := p\<rparr>"]
  by (simp add: phase_total_def set_phase_def)

lemma set_phase_simps [simp]:
  "sy_queue (set_phase k p s) = sy_queue s" "sy_spawning (set_phase k p s) = sy_spawning s"
  "sy_accepted (set_phase k p s) = sy_accepted s" "sy_started (set_phase k p s) = sy_started s"
  "sy_finished (set_phase k p s) = sy_finished s" "length (sy_workers (set_phase k p s)) = length (sy_workers s)"
  "k < length (sy_workers s) \<Longrightarrow> sy_workers (set_phase k p s) ! k = (sy_workers s ! k)\<lparr>wk_phase := p\<rparr>"
  by (simp_all add: set_phase_def)

lemma set_phase_twice [simp]: "k < length (sy_workers s) \<Longrightarrow> set_phase k p (set_phase k p' s) = set_phase k p s"
  by (simp add: set_phase_def)

lemma total_frame [simp]:
  "phase_total f (s\<lparr>sy_queue := q\<rparr>) = phase_total f s" "phase_total f (s\<lparr>sy_spawning := n\<rparr>) = phase_total f s"
  "phase_total f (s\<lparr>sy_accepted := b\<rparr>) = phase_total f s" "phase_total f (s\<lparr>sy_started := b\<rparr>) = phase_total f s"
  "phase_total f (s\<lparr>sy_finished := b\<rparr>) = phase_total f s"
  by (simp_all add: phase_total_def)

lemma core_count_frame [simp]:
  "core_count (s\<lparr>sy_queue := q\<rparr>) = core_count s" "core_count (s\<lparr>sy_spawning := n\<rparr>) = core_count s"
  "core_count (s\<lparr>sy_accepted := b\<rparr>) = core_count s" "core_count (s\<lparr>sy_started := b\<rparr>) = core_count s"
  "core_count (s\<lparr>sy_finished := b\<rparr>) = core_count s"
  by (simp_all add: core_count_def)

lemma core_count_set_phase [simp]: "core_count (set_phase k p s) = core_count s"
proof (cases "k < length (sy_workers s)")
  case True
  have "map wk_core (sy_workers (set_phase k p s)) = map wk_core (sy_workers s)"
    by (simp add: set_phase_def map_update list_update_same_conv True)
  moreover have "core_count s = length (filter id (map wk_core (sy_workers s)))" for s
    by (simp add: core_count_def filter_map comp_def)
  ultimately show ?thesis by metis
qed (simp add: set_phase_def core_count_def not_less list_update_beyond)

lemma set_phase_member:
  "w \<in> set (sy_workers (set_phase k p s)) \<Longrightarrow> k < length (sy_workers s) \<Longrightarrow>
     w = (sy_workers s ! k)\<lparr>wk_phase := p\<rparr> \<or> w \<in> set (sy_workers s)"
  unfolding set_phase_def using set_update_subset_insert by fastforce

section \<open>Preservation\<close>

lemma reserve_cases:
  assumes "worker_limits_ok q"
  obtains "reserve_elastic_locked q = (True, q\<lparr>wq_starting := wq_starting q + 1\<rparr>)" "wq_live q < wq_max q" "wq_starting q = 0"
  | "reserve_elastic_locked q = (False, q)"
  unfolding reserve_elastic_locked_def needs_elastic_locked_def by (metis (full_types))

text \<open>A reserved start keeps the limits and is counted by exactly one pending spawn.\<close>

lemma inv_reserve:
  assumes "cleanup_inv s" "reserve_elastic_locked (sy_queue s) = (spawn, q)"
  shows "cleanup_inv (note_spawn spawn (s\<lparr>sy_queue := q\<rparr>))"
proof -
  have q: "q = (if spawn then (sy_queue s)\<lparr>wq_starting := wq_starting (sy_queue s) + 1\<rparr> else sy_queue s)"
    "spawn \<Longrightarrow> wq_starting (sy_queue s) = 0 \<and> wq_live (sy_queue s) < wq_max (sy_queue s)"
    using assms(2) by (auto simp: reserve_elastic_locked_def needs_elastic_locked_def split: if_splits)
  show ?thesis
    using assms(1) q by (cases spawn) (simp_all add: note_spawn_def cleanup_inv_defs)
qed

lemma inv_submit:
  assumes "cleanup_inv s"
  shows "cleanup_inv (sys_submit batch s)"
proof (cases "wq_closed (sy_queue s)")
  case True
  with assms show ?thesis by (simp add: sys_submit_def queue_submit_def)
next
  case False
  let ?q = "(sy_queue s)\<lparr>wq_queue := wq_queue (sy_queue s) @ [batch]\<rparr>"
  let ?s = "s\<lparr>sy_queue := ?q, sy_accepted := sy_accepted s @ [batch]\<rparr>"
  obtain spawn q where r: "reserve_elastic_locked ?q = (spawn, q)" by fastforce
  have "cleanup_inv ?s" using assms False by (auto simp: cleanup_inv_defs)
  moreover have "reserve_elastic_locked (sy_queue ?s) = (spawn, q)" using r by simp
  ultimately have "cleanup_inv (note_spawn spawn (?s\<lparr>sy_queue := q\<rparr>))" by (rule inv_reserve)
  moreover have "note_spawn spawn (?s\<lparr>sy_queue := q\<rparr>) = sys_submit batch s"
    using False r by (simp add: sys_submit_def queue_submit_def note_spawn_def)
  ultimately show ?thesis by (simp only:)
qed

lemma append_worker [simp]:
  "phase_total f (t\<lparr>sy_workers := sy_workers s @ [w]\<rparr>) = phase_total f s + f (wk_phase w)"
  "core_count (t\<lparr>sy_workers := sy_workers s @ [w]\<rparr>) = core_count s + of_bool (wk_core w)"
  by (simp_all add: phase_total_def core_count_def)

lemma inv_spawn:
  assumes "cleanup_inv s" "sy_spawning s > 0"
  shows "cleanup_inv (spawn_elastic r s)"
proof -
  let ?q = "(sy_queue s)\<lparr>wq_next := wq_next (sy_queue s) + 1\<rparr>"
  let ?w = "\<lparr>wk_core = False, wk_phase = Launched\<rparr>"
  have cancel: "cleanup_inv (s\<lparr>sy_spawning := sy_spawning s - 1, sy_queue := cancel_starting_worker ?q\<rparr>)"
    using assms by (auto simp: cleanup_inv_defs cancel_starting_worker_def)
  have launch: "cleanup_inv (s\<lparr>sy_spawning := sy_spawning s - 1, sy_queue := ?q, sy_workers := sy_workers s @ [?w]\<rparr>)"
    using assms by (auto simp: cleanup_inv_defs phase_counts)
  show ?thesis
    using cancel launch by (auto simp: spawn_elastic_def Let_def split: spawn_result.split)
qed

text \<open>
  Moving worker \<open>k\<close> to a new phase, with the queue it leaves behind: the counters change by the
  difference of the two phases.
\<close>

lemma inv_set_phase:
  assumes inv: "cleanup_inv s" and k: "k < length (sy_workers s)" and p0: "wk_phase (sy_workers s ! k) = p0"
    and counts: "wq_live q + counts_live p0 = wq_live (sy_queue s) + counts_live p"
      "wq_idle q + counts_idle p0 = wq_idle (sy_queue s) + counts_idle p"
      "wq_starting q + counts_launched p0 = wq_starting (sy_queue s) + counts_launched p"
      "wq_running q + counts_holding p0 = wq_running (sy_queue s) + counts_holding p"
    and same: "wq_core q = wq_core (sy_queue s)" "wq_max q = wq_max (sy_queue s)" "wq_closed q = wq_closed (sy_queue s)"
    and limit: "wq_live q + wq_starting q \<le> wq_max q"
    and order: "sy_accepted s = started @ wq_queue q"
      "mset started + mset (sy_finished s) + batch_held p0 = mset finished + mset (sy_started s) + batch_held p"
    and leave: "p = Leaving \<or> (p = Gone \<and> wk_core (sy_workers s ! k)) \<Longrightarrow> wq_closed q \<and> wq_queue (sy_queue s) = []"
    and stays: "wq_queue (sy_queue s) = [] \<Longrightarrow> wq_queue q = []"
  shows "cleanup_inv (set_phase k p (s\<lparr>sy_queue := q, sy_started := started, sy_finished := finished\<rparr>))"
    (is "cleanup_inv ?t")
proof -
  let ?s = "s\<lparr>sy_queue := q, sy_started := started, sy_finished := finished\<rparr>"
  have tot: "phase_total f ?t + f p0 = phase_total f s + f p" for f :: "worker_phase \<Rightarrow> nat"
    using total_set_phase[of k ?s f p] k p0 by simp
  have toth: "phase_total batch_held ?t + batch_held p0 = phase_total batch_held s + batch_held p"
    using total_set_phase[of k ?s batch_held p] k p0 by simp
  have "counts_ok ?t"
    using inv counts tot[of counts_live] tot[of counts_idle] tot[of counts_launched] tot[of counts_holding]
    by (simp add: cleanup_inv_def counts_ok_def)
  moreover have "worker_limits_ok (sy_queue ?t)"
    using inv same limit by (simp add: cleanup_inv_def worker_limits_ok_def)
  moreover have "order_ok ?t"
  proof -
    have "mset started + mset (sy_finished s) + batch_held p0
        = mset finished + mset (sy_finished s) + (phase_total batch_held s + batch_held p)"
      using inv order(2) by (simp add: cleanup_inv_def order_ok_def ac_simps)
    then have "mset started + batch_held p0 = mset finished + (phase_total batch_held s + batch_held p)"
      by (simp add: ac_simps)
    also have "\<dots> = mset finished + phase_total batch_held ?t + batch_held p0" by (simp only: toth[symmetric] add.assoc)
    finally have "mset started = mset finished + phase_total batch_held ?t" by (rule add_right_imp_eq)
    with inv order(1) show ?thesis by (simp add: cleanup_inv_def order_ok_def)
  qed
  moreover have mem: "w = (sy_workers s ! k)\<lparr>wk_phase := p\<rparr> \<or> w \<in> set (sy_workers s)" if "w \<in> set (sy_workers ?t)" for w
    using set_phase_member[of w k p ?s] that k by simp
  have "core_ok ?t"
  proof (cases "wq_closed (sy_queue s) \<and> wq_queue (sy_queue s) = []")
    case True
    with inv same stays show ?thesis by (simp add: cleanup_inv_def core_ok_def)
  next
    case False
    then have old: "wk_core w \<Longrightarrow> wk_phase w \<noteq> Leaving \<and> wk_phase w \<noteq> Gone" if "w \<in> set (sy_workers s)" for w
      using inv that by (auto simp: cleanup_inv_def core_ok_def)
    from False same(3) leave have "p \<noteq> Leaving" "p = Gone \<Longrightarrow> \<not> wk_core (sy_workers s ! k)" by auto
    then have "wk_core w \<Longrightarrow> wk_phase w \<noteq> Leaving \<and> wk_phase w \<noteq> Gone" if "w \<in> set (sy_workers ?t)" for w
      using mem[OF that] old by auto
    with inv same(1) show ?thesis by (simp add: cleanup_inv_def core_ok_def)
  qed
  moreover have "\<forall>w \<in> set (sy_workers ?t). wk_phase w = Leaving \<longrightarrow> wq_closed (sy_queue ?t)"
    using inv same(3) leave mem by (fastforce simp: cleanup_inv_def)
  ultimately show ?thesis unfolding cleanup_inv_def by blast
qed

lemma inv_reserve_phase:
  assumes "cleanup_inv (set_phase k p s)" "reserve_elastic_locked (sy_queue s) = (spawn, q)"
  shows "cleanup_inv (set_phase k p (note_spawn spawn (s\<lparr>sy_queue := q\<rparr>)))"
proof -
  have "note_spawn spawn ((set_phase k p s)\<lparr>sy_queue := q\<rparr>) = set_phase k p (note_spawn spawn (s\<lparr>sy_queue := q\<rparr>))"
    by (simp add: set_phase_def note_spawn_def)
  with inv_reserve[OF assms(1), of spawn q] assms(2) show ?thesis by simp
qed

text \<open>One turn of a counted worker that is not waiting.\<close>

lemma inv_turn:
  assumes inv: "cleanup_inv s" and k: "k < length (sy_workers s)" and p0: "wk_phase (sy_workers s ! k) = Between"
  shows "cleanup_inv (worker_next k s)"
proof (cases "wq_queue (sy_queue s)")
  case Nil
  let ?p = "if wq_closed (sy_queue s) then Leaving else OnCondvar"
  let ?q = "if wq_closed (sy_queue s) then sy_queue s else (sy_queue s)\<lparr>wq_idle := wq_idle (sy_queue s) + 1\<rparr>"
  have "cleanup_inv (set_phase k ?p (s\<lparr>sy_queue := ?q, sy_started := sy_started s, sy_finished := sy_finished s\<rparr>))"
    by (rule inv_set_phase[OF inv k p0]) (use inv Nil in \<open>auto simp: phase_counts cleanup_inv_defs\<close>)
  with Nil show ?thesis
    by (auto simp: worker_next_def worker_turn_def take_turn_def after_take_def note_started_def split: if_splits)
next
  case (Cons batch rest)
  let ?q = "(sy_queue s)\<lparr>wq_queue := rest, wq_running := wq_running (sy_queue s) + 1\<rparr>"
  let ?core = "wk_core (sy_workers s ! k)"
  have step: "cleanup_inv (set_phase k p (s\<lparr>sy_queue := ?q, sy_started := sy_started s @ [batch], sy_finished := sy_finished s\<rparr>))"
    if "p = Expanding batch \<or> p = Executing batch" for p
    by (rule inv_set_phase[OF inv k p0]) (use inv Cons that in \<open>auto simp: phase_counts cleanup_inv_defs\<close>)
  let ?s = "s\<lparr>sy_started := sy_started s @ [batch], sy_queue := ?q\<rparr>"
  have upd: "s\<lparr>sy_queue := ?q, sy_started := sy_started s @ [batch], sy_finished := sy_finished s\<rparr> = ?s" by simp
  note inv1 = step[unfolded upd]
  consider "\<not> ?core" | "?core" "wq_live ?q + wq_starting ?q > wq_core ?q"
    | spawn q where "?core" "wq_live ?q + wq_starting ?q \<le> wq_core ?q" "reserve_elastic_locked ?q = (spawn, q)"
    by (metis not_le surj_pair)
  then show ?thesis
  proof cases
    case 1
    then have "worker_next k s = set_phase k (Expanding batch) ?s"
      using Cons by (simp add: worker_next_def worker_turn_def take_turn_def after_take_def note_started_def Let_def)
    with inv1 show ?thesis by simp
  next
    case 2
    then have "worker_next k s = set_phase k (Executing batch) ?s"
      using Cons by (simp add: worker_next_def worker_turn_def take_turn_def after_take_def note_started_def note_spawn_def Let_def)
    with inv1 show ?thesis by simp
  next
    case (3 spawn q)
    have "worker_next k s = set_phase k (Executing batch) (note_spawn spawn (?s\<lparr>sy_queue := q\<rparr>))"
      using 3 Cons by (simp add: worker_next_def worker_turn_def take_turn_def after_take_def note_started_def Let_def)
    with inv_reserve_phase[OF inv1, of "Executing batch" spawn q] 3(3) show ?thesis by simp
  qed
qed

lemma worker_turn_between:
  assumes "k < length (sy_workers s)"
  shows "worker_turn k q s = worker_next k (set_phase k Between (s\<lparr>sy_queue := q\<rparr>))"
proof -
  obtain r q' where r: "take_turn (wk_core (sy_workers s ! k)) q = (r, q')" by fastforce
  have absorb: "set_phase k p (note_spawn x (note_started r (set_phase k Between (s\<lparr>sy_queue := q\<rparr>))\<lparr>sy_queue := q'\<rparr>))
      = set_phase k p (note_spawn x (note_started r s\<lparr>sy_queue := q'\<rparr>))" for p x
    using assms by (cases r) (simp_all add: set_phase_def note_spawn_def note_started_def)
  show ?thesis
    using assms r absorb[of _ False] absorb
    by (cases r) (simp_all add: worker_turn_def worker_next_def after_take_def Let_def note_spawn_def)
qed

lemma inv_launched:
  assumes inv: "cleanup_inv s" and k: "k < length (sy_workers s)" and p0: "wk_phase (sy_workers s ! k) = Launched"
  shows "cleanup_inv (worker_launched k s)"
proof -
  let ?s = "set_phase k Between (s\<lparr>sy_queue := take_activate (sy_queue s), sy_started := sy_started s, sy_finished := sy_finished s\<rparr>)"
  have "phase_total counts_launched s > 0"
    using total_set_phase[OF k, of counts_launched Between] p0 by (simp add: phase_counts)
  then have "cleanup_inv ?s"
    by (intro inv_set_phase[OF inv k p0])
      (use inv in \<open>auto simp: phase_counts cleanup_inv_defs take_activate_def\<close>)
  then have "cleanup_inv (worker_next k ?s)" by (rule inv_turn) (use k in simp_all)
  with worker_turn_between[OF k, of "take_activate (sy_queue s)"] show ?thesis by (simp add: worker_launched_def)
qed

lemma inv_woken:
  assumes inv: "cleanup_inv s" and k: "k < length (sy_workers s)" and p0: "wk_phase (sy_workers s ! k) = OnCondvar"
  shows "cleanup_inv (worker_woken k timed_out s)"
proof -
  let ?q = "(sy_queue s)\<lparr>wq_idle := wq_idle (sy_queue s) - 1\<rparr>"
  let ?core = "wk_core (sy_workers s ! k)"
  have pos: "phase_total counts_idle s > 0" "phase_total counts_live s > 0"
    using total_set_phase[OF k, of counts_idle Between] total_set_phase[OF k, of counts_live Gone] p0
    by (simp_all add: phase_counts)
  show ?thesis
  proof (cases "\<not> ?core \<and> timed_out \<and> wq_queue (sy_queue s) = []")
    case True
    let ?q' = "?q\<lparr>wq_live := wq_live ?q - 1\<rparr>"
    have "cleanup_inv (set_phase k Gone (s\<lparr>sy_queue := ?q', sy_started := sy_started s, sy_finished := sy_finished s\<rparr>))"
      by (rule inv_set_phase[OF inv k p0]) (use inv pos True in \<open>auto simp: phase_counts cleanup_inv_defs\<close>)
    with True show ?thesis by (simp add: worker_woken_def take_wake_def after_take_def note_started_def Let_def)
  next
    case False
    let ?s = "set_phase k Between (s\<lparr>sy_queue := ?q, sy_started := sy_started s, sy_finished := sy_finished s\<rparr>)"
    have "cleanup_inv ?s"
      by (rule inv_set_phase[OF inv k p0]) (use inv pos in \<open>auto simp: phase_counts cleanup_inv_defs\<close>)
    then have "cleanup_inv (worker_next k ?s)" by (rule inv_turn) (use k in simp_all)
    moreover have "worker_woken k timed_out s = worker_turn k ?q s"
      using False by (auto simp: worker_woken_def worker_turn_def take_wake_def Let_def)
    ultimately show ?thesis using worker_turn_between[OF k, of ?q] by simp
  qed
qed

lemma inv_expanded:
  assumes inv: "cleanup_inv s" and k: "k < length (sy_workers s)" and p0: "wk_phase (sy_workers s ! k) = Expanding batch"
  shows "cleanup_inv (worker_expanded k batch s)"
proof -
  obtain spawn q where r: "reserve_elastic_locked (sy_queue s) = (spawn, q)" by fastforce
  have "cleanup_inv (set_phase k (Executing batch) (s\<lparr>sy_queue := sy_queue s, sy_started := sy_started s, sy_finished := sy_finished s\<rparr>))"
    by (rule inv_set_phase[OF inv k p0]) (use inv in \<open>auto simp: phase_counts cleanup_inv_defs\<close>)
  then have "cleanup_inv (set_phase k (Executing batch) s)" by simp
  from inv_reserve_phase[OF this r] r show ?thesis by (simp add: worker_expanded_def take_expanded_def after_take_def)
qed

lemma inv_finished:
  assumes inv: "cleanup_inv s" and k: "k < length (sy_workers s)" and p0: "wk_phase (sy_workers s ! k) = Executing batch"
  shows "cleanup_inv (worker_finished k batch s)"
proof -
  have "phase_total counts_holding s > 0"
    using total_set_phase[OF k, of counts_holding Between] p0 by (simp add: phase_counts)
  then have "cleanup_inv (set_phase k Between
      (s\<lparr>sy_queue := finish_batch (sy_queue s), sy_started := sy_started s, sy_finished := sy_finished s @ [batch]\<rparr>))"
    by (intro inv_set_phase[OF inv k p0]) (use inv in \<open>auto simp: phase_counts cleanup_inv_defs finish_batch_def\<close>)
  then show ?thesis by (simp add: worker_finished_def)
qed

lemma inv_left:
  assumes inv: "cleanup_inv s" and k: "k < length (sy_workers s)" and p0: "wk_phase (sy_workers s ! k) = Leaving"
  shows "cleanup_inv (worker_left k s)"
proof -
  let ?q = "(sy_queue s)\<lparr>wq_live := wq_live (sy_queue s) - 1\<rparr>"
  have closed: "wq_closed (sy_queue s)" using inv k p0 nth_mem by (fastforce simp: cleanup_inv_def)
  have core: "wk_core (sy_workers s ! k) \<Longrightarrow> wq_queue (sy_queue s) = []"
    using inv k p0 nth_mem[OF k] by (auto simp: cleanup_inv_def core_ok_def)
  have "phase_total counts_live s > 0"
    using total_set_phase[OF k, of counts_live Gone] p0 by (simp add: phase_counts)
  then have "cleanup_inv (set_phase k Gone (s\<lparr>sy_queue := ?q, sy_started := sy_started s, sy_finished := sy_finished s\<rparr>))"
    by (intro inv_set_phase[OF inv k p0]) (use inv closed core in \<open>auto simp: phase_counts cleanup_inv_defs\<close>)
  with closed show ?thesis
    by (simp add: worker_left_def worker_exited_def reserve_elastic_locked_def needs_elastic_locked_def note_spawn_def)
qed

lemma inv_queue_close: "cleanup_inv s \<Longrightarrow> cleanup_inv (s\<lparr>sy_queue := queue_close (sy_queue s)\<rparr>)"
  by (auto simp: cleanup_inv_defs queue_close_def)

lemma launch_core_ok:
  assumes "launch_core ready ws q = (Inr (), q')" "wq_queue q = []" "\<not> wq_closed q" "length ws \<le> wq_starting q"
  shows "q' = q\<lparr>wq_live := wq_live q + length ws, wq_idle := wq_idle q + length ws,
    wq_starting := wq_starting q - length ws\<rparr>"
  using assms
proof (induction ws arbitrary: q)
  case (Cons w ws)
  from Cons.prems have "launch_core ready ws (snd (take_turn True (take_activate q))) = (Inr (), q')" by (simp split: if_splits)
  from Cons.IH[OF this] Cons.prems show ?case by (simp add: take_turn_def take_activate_def)
qed simp

lemma started_executor:
  assumes "executor_try_start_with worker_count capacity spawns ready = Inr ex"
  shows "ex = \<lparr>ex_capacity = broker_new capacity,
      ex_workers = \<lparr>wq_queue = [], wq_closed = False, wq_live = min worker_count (max_worker_count capacity),
        wq_idle = min worker_count (max_worker_count capacity), wq_starting = 0, wq_running = 0,
        wq_core = min worker_count (max_worker_count capacity), wq_max = max_worker_count capacity,
        wq_next = min worker_count (max_worker_count capacity)\<rparr>\<rparr>"
proof -
  let ?n = "min worker_count (max_worker_count capacity)"
  let ?q = "(worker_queue_new ?n (max_worker_count capacity))\<lparr>wq_starting := ?n, wq_next := ?n\<rparr>"
  from assms obtain q where q: "launch_core ready [0..<?n] ?q = (Inr (), q)"
    and ex: "ex = \<lparr>ex_capacity = broker_new capacity, ex_workers = q\<rparr>"
    by (auto simp: executor_try_start_with_def start_core_def Let_def split: option.splits sum.splits prod.splits)
  from launch_core_ok[OF q] ex show ?thesis by (simp add: worker_queue_new_def)
qed

lemma sum_list_replicate_zero: "sum_list (replicate n 0) = (0 :: 'a :: comm_monoid_add)"
  by (induction n) simp_all

lemma inv_cleanup_init: "cleanup_init s \<Longrightarrow> cleanup_inv s"
  unfolding cleanup_init_def
  by (auto dest!: started_executor simp: cleanup_start_def cleanup_inv_defs phase_total_def phase_counts core_count_def
      sum_list_replicate sum_list_replicate_zero max_worker_count_def max_worker_limit_def split: option.splits)

interpretation cleanup: inductive_invariant cleanup_init cleanup_step cleanup_inv
proof
  show "cleanup_init s \<Longrightarrow> cleanup_inv s" for s by (rule inv_cleanup_init)
  show "cleanup_inv s \<Longrightarrow> cleanup_step s t \<Longrightarrow> cleanup_inv t" for s t
    by (erule cleanup_step.cases)
      (simp_all add: inv_submit inv_spawn inv_launched inv_turn inv_woken inv_expanded inv_finished inv_left inv_queue_close)
qed

lemma cleanup_reachable_inv: "cleanup_reachable s \<Longrightarrow> cleanup_inv s"
  unfolding cleanup_reachable_def using cleanup.good_reachable by blast

section \<open>Progress\<close>

definition phase_work :: "worker_phase \<Rightarrow> nat" where
  "phase_work p = (case p of Expanding _ \<Rightarrow> 2 | Executing _ \<Rightarrow> 1 | _ \<Rightarrow> 0)"

definition work_left :: "cleanup_system \<Rightarrow> nat" where
  "work_left s = 3 * length (wq_queue (sy_queue s)) + phase_total phase_work s"

lemma note_spawn_frame [simp]:
  "phase_total f (note_spawn x s) = phase_total f s" "sy_accepted (note_spawn x s) = sy_accepted s"
  "sy_queue (note_spawn x s) = sy_queue s" "sy_workers (note_spawn x s) = sy_workers s"
  by (simp_all add: note_spawn_def)

lemma reserve_queue: "reserve_elastic_locked q = (x, q') \<Longrightarrow> wq_queue q' = wq_queue q"
  by (auto simp: reserve_elastic_locked_def split: if_splits)

text \<open>A core worker that turns to a non-empty queue takes its front.\<close>

lemma core_turn_pops:
  assumes "k < length (sy_workers s)" "wk_core (sy_workers s ! k)" "wq_queue q = batch # rest"
    "phase_work (wk_phase (sy_workers s ! k)) = 0"
  shows "work_left (worker_turn k q s) < work_left (s\<lparr>sy_queue := q\<rparr>)" "sy_accepted (worker_turn k q s) = sy_accepted s"
proof -
  obtain spawn q' where r: "take_turn True q = (TakeBatch batch spawn, q')" "wq_queue q' = rest"
  proof (cases "wq_live q + wq_starting q \<le> wq_core q")
    case True
    let ?q = "q\<lparr>wq_queue := rest, wq_running := wq_running q + 1\<rparr>"
    obtain x q' where "reserve_elastic_locked ?q = (x, q')" by fastforce
    with True assms(3) that reserve_queue[OF this] show thesis by (simp add: take_turn_def Let_def)
  qed (use assms(3) that in \<open>simp add: take_turn_def Let_def\<close>)
  let ?s = "note_spawn spawn (s\<lparr>sy_started := sy_started s @ [batch], sy_queue := q'\<rparr>)"
  have t: "worker_turn k q s = set_phase k (Executing batch) ?s"
    using assms(2) r by (simp add: worker_turn_def after_take_def note_started_def Let_def)
  have "phase_total phase_work (set_phase k (Executing batch) ?s) = phase_total phase_work s + 1"
    using total_set_phase[of k ?s phase_work "Executing batch"] assms by (simp add: phase_work_def)
  with t r(2) assms(3) show "work_left (worker_turn k q s) < work_left (s\<lparr>sy_queue := q\<rparr>)"
    by (simp add: work_left_def)
  show "sy_accepted (worker_turn k q s) = sy_accepted s" using t by simp
qed

lemma work_progress:
  assumes inv: "cleanup_inv s" and work: "work_left s > 0"
  shows "\<exists>t. cleanup_step s t \<and> work_left t < work_left s \<and> sy_accepted t = sy_accepted s"
proof (cases "\<exists>k < length (sy_workers s). phase_work (wk_phase (sy_workers s ! k)) > 0")
  case True
  then obtain k where k: "k < length (sy_workers s)" "phase_work (wk_phase (sy_workers s ! k)) > 0" by blast
  then consider batch where "wk_phase (sy_workers s ! k) = Expanding batch"
    | batch where "wk_phase (sy_workers s ! k) = Executing batch"
    by (cases "wk_phase (sy_workers s ! k)") (auto simp: phase_work_def)
  then show ?thesis
  proof cases
    case (1 batch)
    obtain spawn q where r: "reserve_elastic_locked (sy_queue s) = (spawn, q)" by fastforce
    have "worker_expanded k batch s = set_phase k (Executing batch) (note_spawn spawn (s\<lparr>sy_queue := q\<rparr>))"
      using r by (simp add: worker_expanded_def take_expanded_def after_take_def)
    moreover from this have "work_left (worker_expanded k batch s) < work_left s"
      using total_set_phase[of k "note_spawn spawn (s\<lparr>sy_queue := q\<rparr>)" phase_work "Executing batch"] k 1 reserve_queue[OF r]
      by (simp add: work_left_def phase_work_def)
    ultimately show ?thesis using cleanup_step.expanded[OF k(1) 1] by auto
  next
    case (2 batch)
    have "work_left (worker_finished k batch s) < work_left s"
      using total_set_phase[of k "s\<lparr>sy_queue := finish_batch (sy_queue s), sy_finished := sy_finished s @ [batch]\<rparr>"
          phase_work Between] k 2
      by (simp add: work_left_def phase_work_def worker_finished_def finish_batch_def)
    then show ?thesis using cleanup_step.finished[OF k(1) 2] by (auto simp: worker_finished_def)
  qed
next
  case False
  then have idle: "phase_work (wk_phase w) = 0" if "w \<in> set (sy_workers s)" for w
    using that by (auto simp: in_set_conv_nth)
  then have "phase_total phase_work s = 0" by (simp add: phase_total_def)
  with work have queue: "wq_queue (sy_queue s) \<noteq> []" by (simp add: work_left_def)
  with inv have stay: "\<And>w. w \<in> set (sy_workers s) \<Longrightarrow> wk_core w \<Longrightarrow> wk_phase w \<noteq> Leaving \<and> wk_phase w \<noteq> Gone"
    and "core_count s > 0"
    by (auto simp: cleanup_inv_def core_ok_def worker_limits_ok_def)
  then obtain w where w: "w \<in> set (sy_workers s)" "wk_core w" by (auto simp: core_count_def filter_empty_conv)
  then obtain k where k: "k < length (sy_workers s)" "sy_workers s ! k = w" by (auto simp: in_set_conv_nth)
  obtain batch rest where front: "wq_queue (sy_queue s) = batch # rest" using queue by (cases "wq_queue (sy_queue s)") auto
  have pop: "work_left (worker_turn k q s) < work_left (s\<lparr>sy_queue := q\<rparr>)" "sy_accepted (worker_turn k q s) = sy_accepted s"
    if "wq_queue q = batch # rest" for q
    using core_turn_pops[of k s q batch rest] that k w idle[OF w(1)] by simp_all
  have same: "work_left (s\<lparr>sy_queue := q\<rparr>) = work_left s" if "wq_queue q = batch # rest" for q
    using that front by (simp add: work_left_def)
  let ?woken = "(sy_queue s)\<lparr>wq_idle := wq_idle (sy_queue s) - 1\<rparr>"
  consider "wk_phase w = Launched" | "wk_phase w = Between" | "wk_phase w = OnCondvar"
    using stay[OF w] idle[OF w(1)] by (cases "wk_phase w") (auto simp: phase_work_def)
  then show ?thesis
  proof cases
    case 1
    with cleanup_step.launched[OF k(1)] k(2) pop[of "take_activate (sy_queue s)"] same[of "take_activate (sy_queue s)"] front
    show ?thesis by (auto simp: worker_launched_def take_activate_def)
  next
    case 2
    with cleanup_step.turn[OF k(1)] k(2) pop[of "sy_queue s"] same[of "sy_queue s"] front
    show ?thesis by (auto simp: worker_next_def)
  next
    case 3
    have "worker_woken k False s = worker_turn k ?woken s"
      by (simp add: worker_woken_def worker_turn_def take_wake_def Let_def)
    with 3 cleanup_step.woken[OF k(1), of False] k(2) pop[of ?woken] same[of ?woken] front
    show ?thesis by auto
  qed
qed

lemma work_completes:
  assumes "cleanup_inv s"
  shows "\<exists>t. cleanup_step\<^sup>*\<^sup>* s t \<and> work_left t = 0 \<and> sy_accepted t = sy_accepted s"
  using assms
proof (induction "work_left s" arbitrary: s rule: less_induct)
  case less
  show ?case
  proof (cases "work_left s = 0")
    case False
    with work_progress[OF less.prems] obtain t where
      t: "cleanup_step s t" "work_left t < work_left s" "sy_accepted t = sy_accepted s" by blast
    with less.hyps[OF t(2)] cleanup.good_step[OF less.prems t(1)] obtain u where
      "cleanup_step\<^sup>*\<^sup>* t u" "work_left u = 0" "sy_accepted u = sy_accepted s" by auto
    with t(1) show ?thesis by (meson converse_rtranclp_into_rtranclp)
  qed blast
qed

lemma sum_list_map_zero: "(\<And>x. x \<in> set xs \<Longrightarrow> f x = 0) \<Longrightarrow> sum_list (map f xs) = (0 :: 'a :: comm_monoid_add)"
  by (induction xs) simp_all

lemma no_work_all_finished:
  assumes "cleanup_inv s" "work_left s = 0"
  shows "mset (sy_finished s) = mset (sy_accepted s)"
proof -
  have "phase_work (wk_phase w) = 0" if "w \<in> set (sy_workers s)" for w
    using assms(2) that by (auto simp: work_left_def phase_total_def)
  then have "batch_held (wk_phase w) = {#}" if "w \<in> set (sy_workers s)" for w
    using that by (fastforce simp: phase_work_def batch_held_def split: worker_phase.splits)
  then have "phase_total batch_held s = {#}" unfolding phase_total_def by (intro sum_list_map_zero) simp
  with assms show ?thesis by (simp add: cleanup_inv_def order_ok_def work_left_def)
qed

section \<open>Properties\<close>

lemma sum_list_indicator:
  assumes "\<And>x. f x = (if P x then 1 else 0)"
  shows "sum_list (map f xs) = length (filter P xs)"
  by (induction xs) (simp_all add: assms)

lemma phase_total_filter:
  "(\<And>p. f p = (if P p then 1 else 0)) \<Longrightarrow> phase_total f s = length (filter (\<lambda>w. P (wk_phase w)) (sy_workers s))"
  unfolding phase_total_def by (rule sum_list_indicator) simp

definition runs_batch :: "worker \<Rightarrow> bool" where
  "runs_batch w = (case wk_phase w of Expanding _ \<Rightarrow> True | Executing _ \<Rightarrow> True | _ \<Rightarrow> False)"

definition counted_live :: "worker \<Rightarrow> bool" where
  "counted_live w \<longleftrightarrow> wk_phase w \<noteq> Launched \<and> wk_phase w \<noteq> Gone"

lemma counts_by_phase:
  "phase_total counts_live s = length (filter counted_live (sy_workers s))"
  "phase_total counts_idle s = length (filter (\<lambda>w. wk_phase w = OnCondvar) (sy_workers s))"
  "phase_total counts_launched s = length (filter (\<lambda>w. wk_phase w = Launched) (sy_workers s))"
  "phase_total counts_holding s = length (filter runs_batch (sy_workers s))"
  unfolding phase_total_def
  by (rule sum_list_indicator; simp add: phase_counts counted_live_def runs_batch_def split: worker_phase.splits)+

text \<open>
  The snapshot of a domain before and after its start, for an executor that has done nothing yet:
  starting workers does not change what a client sees.
\<close>

lemma start_invisible:
  assumes "dd_executor d = None" "domain_executor spawns ready d = (Inr ex, d')"
  shows "domain_snapshot runtime_open d' = domain_snapshot runtime_open d"
proof -
  from assms have "executor_try_start_with (dd_worker_count d) (dd_capacity d) spawns ready = Inr ex"
    "d' = d\<lparr>dd_executor := Some ex\<rparr>"
    by (auto simp: domain_executor_def split: sum.splits)
  with assms(1) started_executor[OF this(1)] show ?thesis
    by (cases "dd_capacity d") (simp_all add: domain_snapshot_def broker_snapshot_def broker_new_def cleanup_snapshot_def)
qed

text \<open>Splitting a combined permit of exactly \<open>n\<close> units yields \<open>n\<close> one-unit permits and leaves nothing.\<close>

lemma split_reservations_exact: "split_reservations n n = Some (replicate n 1, 0)"
  by (induction n) (simp_all add: split_one_def)

text \<open>A batch reservation grants exactly one unit per lifetime, or changes nothing and says why.\<close>

lemma reserve_many_all_or_nothing:
  assumes "executor_try_reserve_many n ex = (r, ex')"
  shows "(r = Some (Inr (replicate n 1)) \<and> ex' = ex\<lparr>ex_capacity := snd (try_acquire (ex_capacity ex) n)\<rparr>)
    \<or> (\<exists>e. r = Some (Inl e) \<and> ex' = ex)"
proof (cases "n = 0")
  case True
  with assms show ?thesis by (auto simp: executor_try_reserve_many_def try_acquire_def)
next
  case False
  obtain a b where t: "try_acquire (ex_capacity ex) n = (a, b)" by fastforce
  then have a: "a = Inr n \<or> (\<exists>e. a = Inl e \<and> b = ex_capacity ex)"
    by (auto simp: try_acquire_def split: if_splits capacity_mode.splits)
  with assms False t show ?thesis
    by (auto simp: executor_try_reserve_many_def split_reservations_exact broker_release_def)
qed

text \<open>A run used by the witnesses: a domain with one unit and one worker, which has taken a batch.\<close>

definition demo_batch :: drop_batch where
  "demo_batch = drop_batch_new 1 \<lparr>dj_value = 7, dj_panic = None\<rparr> None None False False"

definition demo_cleanup_start :: cleanup_system where
  "demo_cleanup_start = cleanup_start \<lparr>wq_queue = [], wq_closed = False, wq_live = 1, wq_idle = 1, wq_starting = 0,
     wq_running = 0, wq_core = 1, wq_max = 1, wq_next = 1\<rparr>"

definition demo_cleanup :: cleanup_system where
  "demo_cleanup = worker_woken 0 False (sys_submit demo_batch demo_cleanup_start)"

lemmas cleanup_eval = demo_cleanup_def demo_cleanup_start_def cleanup_start_def sys_submit_def queue_submit_def
  reserve_elastic_locked_def needs_elastic_locked_def note_spawn_def worker_woken_def take_wake_def take_turn_def
  after_take_def note_started_def set_phase_def Let_def

lemma demo_cleanup_eq:
  "demo_cleanup = \<lparr>sy_queue = \<lparr>wq_queue = [], wq_closed = False, wq_live = 1, wq_idle = 0, wq_starting = 0,
       wq_running = 1, wq_core = 1, wq_max = 1, wq_next = 1\<rparr>,
     sy_workers = [\<lparr>wk_core = True, wk_phase = Executing demo_batch\<rparr>], sy_spawning = 0,
     sy_accepted = [demo_batch], sy_started = [demo_batch], sy_finished = []\<rparr>"
  by (simp add: cleanup_eval)

lemma demo_cleanup_init: "cleanup_init demo_cleanup_start"
proof -
  have "executor_try_start_with 3 (Some 1) (\<lambda>_. True) (\<lambda>_. True) = Inr \<lparr>ex_capacity = broker_new (Some 1),
      ex_workers = sy_queue demo_cleanup_start\<rparr>"
    by (simp add: executor_try_start_with_def max_worker_count_def max_worker_limit_def start_core_def
        worker_queue_new_def take_turn_def take_activate_def demo_cleanup_start_def cleanup_start_def Let_def)
  then show ?thesis
    unfolding cleanup_init_def
    by (intro exI[of _ 3] exI[of _ "Some 1"] exI[of _ "\<lambda>_. True"] exI) (auto simp: demo_cleanup_start_def cleanup_start_def)
qed

lemma demo_cleanup_reachable: "cleanup_reachable demo_cleanup"
proof -
  let ?s = "sys_submit demo_batch demo_cleanup_start"
  have "cleanup_step demo_cleanup_start ?s" by (rule cleanup_step.submit)
  moreover have "cleanup_step ?s demo_cleanup"
    unfolding demo_cleanup_def by (rule cleanup_step.woken) (simp_all add: cleanup_eval)
  ultimately show ?thesis
    unfolding cleanup_reachable_def using demo_cleanup_init
    by (blast intro: rtranclp.rtrancl_into_rtrancl rtranclp.rtrancl_refl)
qed

text \<open>
  C25. The cleanup threads stay within their ceiling and their accounting is exact. In every reachable
  state of a started executor, with any interleaving of submissions, worker turns, thread starts that
  succeed or fail, time-outs and closure, live and starting workers together are at most the ceiling
  derived from the ownership capacity, which is at most sixteen; and each counter is the number of
  threads in the phases it stands for, so none of the saturating decrements ever saturates.
\<close>
theorem cleanup_workers_bounded:
  assumes "cleanup_reachable s"
  shows "wq_live (sy_queue s) + wq_starting (sy_queue s) \<le> wq_max (sy_queue s)
    \<and> wq_max (sy_queue s) \<le> 16
    \<and> wq_live (sy_queue s) = length (filter counted_live (sy_workers s))
    \<and> wq_idle (sy_queue s) = length (filter (\<lambda>w. wk_phase w = OnCondvar) (sy_workers s))
    \<and> wq_starting (sy_queue s) = sy_spawning s + length (filter (\<lambda>w. wk_phase w = Launched) (sy_workers s))
    \<and> wq_running (sy_queue s) = length (filter runs_batch (sy_workers s))"
  using cleanup_reachable_inv[OF assms]
  by (simp add: cleanup_inv_def counts_ok_def worker_limits_ok_def counts_by_phase max_worker_limit_def)

theorem cleanup_workers_bounded_witness:
  "cleanup_reachable demo_cleanup \<and> wq_running (sy_queue demo_cleanup) = length (filter runs_batch (sy_workers demo_cleanup))
   \<and> length (filter runs_batch (sy_workers demo_cleanup)) = 1 \<and> wq_live (sy_queue demo_cleanup) + wq_starting (sy_queue demo_cleanup) = 1"
  using cleanup_workers_bounded[OF demo_cleanup_reachable] demo_cleanup_reachable
  by (simp add: demo_cleanup_eq runs_batch_def)

text \<open>
  C26. No accepted cleanup batch is lost, overtaken or stranded. In every reachable state the batches
  taken by workers are a prefix of the accepted ones in submission order and the queue is the rest;
  every taken batch is finished or held by exactly one worker; and from there the running destructors
  returning and the core workers turning lead to a state where every accepted batch is finished exactly
  once, also after the queue was closed and whether or not any elastic thread can be started.
\<close>
theorem accepted_batches_run_in_order:
  assumes "cleanup_reachable s"
  shows "sy_accepted s = sy_started s @ wq_queue (sy_queue s)
    \<and> mset (sy_started s) = mset (sy_finished s) + sum_list (map (batch_held \<circ> wk_phase) (sy_workers s))
    \<and> (\<exists>t. cleanup_step\<^sup>*\<^sup>* s t \<and> sy_accepted t = sy_accepted s \<and> mset (sy_finished t) = mset (sy_accepted s)
          \<and> wq_queue (sy_queue t) = [] \<and> wq_running (sy_queue t) = 0)"
proof -
  have inv: "cleanup_inv s" by (rule cleanup_reachable_inv[OF assms])
  from work_completes[OF inv] obtain t where
    t: "cleanup_step\<^sup>*\<^sup>* s t" "work_left t = 0" "sy_accepted t = sy_accepted s" by blast
  have invt: "cleanup_inv t" by (rule cleanup.good_run[OF t(1) inv])
  have "phase_total counts_holding t = 0"
    unfolding phase_total_def
    by (rule sum_list_map_zero)
      (use t(2) in \<open>fastforce simp: work_left_def phase_total_def phase_work_def counts_holding_def split: worker_phase.splits\<close>)
  with invt have "wq_running (sy_queue t) = 0" by (simp add: cleanup_inv_def counts_ok_def)
  with t no_work_all_finished[OF invt t(2)] inv show ?thesis
    by (auto simp: cleanup_inv_def order_ok_def phase_total_def work_left_def)
qed

theorem accepted_batches_run_in_order_witness:
  "sy_finished demo_cleanup = [] \<and> (\<exists>t. cleanup_step\<^sup>*\<^sup>* demo_cleanup t \<and> mset (sy_finished t) = {#demo_batch#})"
  using accepted_batches_run_in_order[OF demo_cleanup_reachable] by (auto simp: demo_cleanup_eq)

text \<open>
  C14. A worker runs every destructor of a batch and settles its permit by the result. All present
  values are destroyed in the fixed order, each once, also after an earlier destructor panicked; the
  reporter sees the message of the first panic and nothing else; the units go back to the broker
  exactly when no destructor panicked and the bundle was not poisoned, and are retired otherwise.
\<close>
theorem batch_settles_permit_by_result:
  "batch_run (drop_batch_new units retained outcome auxiliary reporter poisoned) broker =
     (let jobs = retained # (case outcome of None \<Rightarrow> [] | Some j \<Rightarrow> [j]) @ (case auxiliary of None \<Rightarrow> [] | Some j \<Rightarrow> [j])
      in (\<lparr>bl_run = jobs,
           bl_reports = (if reporter then take 1 (map panic_message_text (List.map_filter dj_panic jobs)) else [])\<rparr>,
          if list_all (\<lambda>j. dj_panic j = None) jobs \<and> \<not> poisoned then broker_release broker units
          else broker_retire broker units))"
  by (simp add: batch_run_def batch_jobs_def drop_batch_new_def run_jobs_eq panic_texts_def list_all_iff Let_def)

end
