(* ===== verification/Management_Calls.thy ===== *)
theory Management_Calls
  imports Registry_Answers Cleanup_Workers
begin

text \<open>
  The management calls of the runtime (\<^verbatim>\<open>src/src/core/runtime/management/add.rs\<close>, \<^verbatim>\<open>remove.rs\<close>,
  \<^verbatim>\<open>cancel.rs\<close>, \<^verbatim>\<open>ownership.rs\<close> and the fence of \<^verbatim>\<open>command_gate.rs\<close>): any number of concurrent
  calls, each a program counter, over one command port, with the registry as the reader of the port.

  A step of a call is the code between two points where another thread can be seen: a read of the
  shutdown flag, a reservation, the section under the admission gate (which ends with the send), the
  answer of a reply channel. A call may be dropped where it awaits. How the registry decides is the
  subject of \<open>Registry_Answers\<close>; here a received command is answered once, by a decision of its kind,
  or its reply channel is lost.
\<close>

section \<open>Requests\<close>

datatype mgmt_request =
    ReqAdd task_id name "task_spec owned_task" "outcome_tx option"
  | ReqAddBatch "add_batch_item list"
  | ReqRemove task_id "reason option"
  | ReqRemoveByName name
  | ReqCancel task_id "duration option"
  | ReqCancelByName name "duration option"

fun request_command :: "mgmt_request \<Rightarrow> registry_command" where
  "request_command (ReqAdd i n owned done') = CmdAdd i n owned done' False"
| "request_command (ReqAddBatch items) = CmdAddBatch items"
| "request_command (ReqRemove i _) = CmdRemove i"
| "request_command (ReqRemoveByName n) = CmdRemoveByName n"
| "request_command (ReqCancel i _) = CmdCancel i"
| "request_command (ReqCancelByName n _) = CmdCancelByName n"

definition add_requested :: "task_id \<Rightarrow> name \<Rightarrow> event" where
  "add_requested i n = with_id i (with_task n (event_new TaskAddRequested))"

text \<open>The events published under the gate, before the send.\<close>

fun request_events :: "mgmt_request \<Rightarrow> event list" where
  "request_events (ReqAdd i n _ _) = [add_requested i n]"
| "request_events (ReqAddBatch items) = map (\<lambda>x. add_requested (abi_id x) (abi_name x)) items"
| "request_events (ReqRemove i r) =
     [let e = with_id i (event_new TaskRemoveRequested)
      in case r of None \<Rightarrow> e | Some reason \<Rightarrow> with_reason reason e]"
| "request_events (ReqRemoveByName _) = []"
| "request_events (ReqCancel _ _) = []"
| "request_events (ReqCancelByName _ _) = []"

section \<open>Ownership\<close>

definition ownership_resource :: string where
  "ownership_resource = ''owned_user_lifetimes''"

text \<open>A failed worker start is represented by the index of the worker, as in the domain.\<close>

definition ownership_admission_error :: "(nat \<Rightarrow> io_error) \<Rightarrow> drop_admission_error \<Rightarrow> runtime_error" where
  "ownership_admission_error source e =
     (case e of
        DropStart worker \<Rightarrow> ThreadStartFailed ''destructor_isolation'' (source worker)
      | DropCapacity (Some limit) \<Rightarrow> ResourceLimitReached ownership_resource limit
      | DropCapacity None \<Rightarrow> ShuttingDown)"

definition own_task :: "task_spec \<Rightarrow> nat \<Rightarrow> task_spec owned_task" where
  "own_task spec reservation =
     (let owned = owned_task_new spec (ts_task spec) reservation
      in owned\<lparr>ot_cleanup := set_panic_reporter (ot_cleanup owned)\<rparr>)"

text \<open>
  \<open>wait_for_ownership\<close> and its variant with a timeout: what the biased selection gives when it is
  polled with these branches ready, or nothing while it waits.
\<close>

definition wait_for_ownership ::
  "(nat \<Rightarrow> io_error) \<Rightarrow> bool \<Rightarrow> bool \<Rightarrow> (drop_admission_error, nat) result option \<Rightarrow> duration option \<Rightarrow> bool
     \<Rightarrow> (runtime_error, nat) result option" where
  "wait_for_ownership source shutdown_started queue_closed reservation timeout elapsed =
     (if shutdown_started \<or> queue_closed then Some (Inl ShuttingDown)
      else case reservation of
             Some (Inl e) \<Rightarrow> Some (Inl (ownership_admission_error source e))
           | Some (Inr r) \<Rightarrow> Some (Inr r)
           | None \<Rightarrow>
               (case timeout of
                  Some t \<Rightarrow> if elapsed then Some (Inl (OwnershipAdmissionTimeout t)) else None
                | None \<Rightarrow> None))"

section \<open>Replies\<close>

datatype mgmt_value = ValueAdded task_id | ValueBatch | ValueStopped bool

datatype reply_state = ReplyPending | ReplySent registry_decision | ReplyLost

text \<open>
  \<open>await_add_reply\<close>, \<open>await_add_batch_reply\<close> and \<open>await_remove_reply\<close>: the value returned for a
  decision. A decision of another kind cannot be sent on the typed channel.
\<close>

fun await_reply :: "mgmt_request \<Rightarrow> registry_decision \<Rightarrow> (runtime_error, mgmt_value) result" where
  "await_reply (ReqAdd i _ _ _) (AddDecision (Inr ())) = Inr (ValueAdded i)"
| "await_reply (ReqAddBatch _) (AddDecision (Inr ())) = Inr ValueBatch"
| "await_reply _ (AddDecision (Inl e)) = Inl e"
| "await_reply _ (RemoveDecision b) = Inr (ValueStopped b)"
| "await_reply _ (CancelDecision None) = Inr (ValueStopped False)"
| "await_reply _ (CancelDecision (Some d)) = Inr (ValueStopped (cd_claimed d))"
| "await_reply _ (AddDecision (Inr ())) = Inr ValueBatch"

fun request_timeout :: "mgmt_request \<Rightarrow> duration option" where
  "request_timeout (ReqCancel _ t) = t"
| "request_timeout (ReqCancelByName _ t) = t"
| "request_timeout _ = None"

text \<open>
  \<open>wait_cancel_decision\<close> after the decision: nothing while it waits. An elapsed deadline is checked
  again against the completion.
\<close>

definition wait_cancel_decision ::
  "latch fset \<Rightarrow> bool \<Rightarrow> cancel_decision \<Rightarrow> duration option \<Rightarrow> (runtime_error, mgmt_value) result option" where
  "wait_cancel_decision completed elapsed d wait_for =
     (if cd_completion d |\<in>| completed then Some (Inr (ValueStopped (cd_claimed d)))
      else case wait_for of
             Some t \<Rightarrow> if elapsed then Some (Inl (TaskTerminationTimeout (cd_id d) t)) else None
           | None \<Rightarrow> None)"

section \<open>Calls\<close>

text \<open>
  The flag of \<open>CallCheck\<close>, \<open>CallReserve\<close> and the add counters says that the call waits for capacity;
  the flag of the final counters says that the call had committed its command.
\<close>

datatype mgmt_pc =
    CallOff
  | AddCheck bool task_id task_spec "outcome_tx option" "duration option"
  | AddProbe task_id task_spec "outcome_tx option"
  | AddProbed task_id task_spec "outcome_tx option"
  | AddOwn bool task_id task_spec "outcome_tx option" "duration option"
  | CallCheck bool mgmt_request
  | CallReserve bool mgmt_request
  | CallGate mgmt_request
  | CallReply mgmt_request
  | CallWait mgmt_request cancel_decision
  | CallReturned bool "(runtime_error, mgmt_value) result"
  | CallDropped bool

text \<open>
  The entry points, each as the counter it starts with. The identity of an add is drawn before
  (\<open>TaskId::next\<close>); the outcome channel of a watched add is named by it.
\<close>

definition add_task :: "task_id \<Rightarrow> task_spec \<Rightarrow> mgmt_pc" where
  "add_task i spec = AddCheck True i spec None None"

definition add_task_with_ownership_timeout :: "task_id \<Rightarrow> task_spec \<Rightarrow> duration \<Rightarrow> mgmt_pc" where
  "add_task_with_ownership_timeout i spec wait_for = AddCheck True i spec None (Some wait_for)"

definition try_add_task :: "task_id \<Rightarrow> task_spec \<Rightarrow> mgmt_pc" where
  "try_add_task i spec = AddCheck False i spec None None"

definition try_add_task_watched :: "task_id \<Rightarrow> task_spec \<Rightarrow> mgmt_pc" where
  "try_add_task_watched i spec = AddCheck False i spec (Some i) None"

definition add_task_watched :: "task_id \<Rightarrow> task_spec \<Rightarrow> mgmt_pc" where
  "add_task_watched i spec = AddCheck True i spec (Some i) None"

definition add_task_watched_with_ownership_timeout :: "task_id \<Rightarrow> task_spec \<Rightarrow> duration \<Rightarrow> mgmt_pc" where
  "add_task_watched_with_ownership_timeout i spec wait_for = AddCheck True i spec (Some i) (Some wait_for)"

definition enqueue_add_batch_wait :: "add_batch_item list \<Rightarrow> mgmt_pc" where
  "enqueue_add_batch_wait items = CallCheck True (ReqAddBatch items)"

definition core_remove :: "task_id \<Rightarrow> mgmt_pc" where
  "core_remove i = CallCheck True (ReqRemove i None)"

definition try_remove :: "task_id \<Rightarrow> mgmt_pc" where
  "try_remove i = CallCheck False (ReqRemove i None)"

definition remove_by_name :: "name \<Rightarrow> mgmt_pc" where
  "remove_by_name n = CallCheck True (ReqRemoveByName n)"

definition try_remove_by_name :: "name \<Rightarrow> mgmt_pc" where
  "try_remove_by_name n = CallCheck False (ReqRemoveByName n)"

definition core_cancel :: "task_id \<Rightarrow> mgmt_pc" where
  "core_cancel i = CallCheck True (ReqCancel i None)"

definition try_cancel :: "task_id \<Rightarrow> mgmt_pc" where
  "try_cancel i = CallCheck False (ReqCancel i None)"

definition cancel_with_timeout :: "task_id \<Rightarrow> duration \<Rightarrow> mgmt_pc" where
  "cancel_with_timeout i wait_for = CallCheck True (ReqCancel i (Some wait_for))"

definition try_cancel_with_timeout :: "task_id \<Rightarrow> duration \<Rightarrow> mgmt_pc" where
  "try_cancel_with_timeout i wait_for = CallCheck False (ReqCancel i (Some wait_for))"

definition cancel_by_name :: "name \<Rightarrow> mgmt_pc" where
  "cancel_by_name n = CallCheck True (ReqCancelByName n None)"

definition try_cancel_by_name :: "name \<Rightarrow> mgmt_pc" where
  "try_cancel_by_name n = CallCheck False (ReqCancelByName n None)"

definition cancel_by_name_with_timeout :: "name \<Rightarrow> duration \<Rightarrow> mgmt_pc" where
  "cancel_by_name_with_timeout n wait_for = CallCheck True (ReqCancelByName n (Some wait_for))"

definition try_cancel_by_name_with_timeout :: "name \<Rightarrow> duration \<Rightarrow> mgmt_pc" where
  "try_cancel_by_name_with_timeout n wait_for = CallCheck False (ReqCancelByName n (Some wait_for))"

lemmas entry_defs = add_task_def add_task_with_ownership_timeout_def try_add_task_def try_add_task_watched_def
  add_task_watched_def add_task_watched_with_ownership_timeout_def enqueue_add_batch_wait_def
  core_remove_def try_remove_def remove_by_name_def try_remove_by_name_def core_cancel_def try_cancel_def
  cancel_with_timeout_def try_cancel_with_timeout_def cancel_by_name_def try_cancel_by_name_def
  cancel_by_name_with_timeout_def try_cancel_by_name_with_timeout_def

definition call_entries :: "task_id \<Rightarrow> task_spec \<Rightarrow> name \<Rightarrow> duration \<Rightarrow> add_batch_item list \<Rightarrow> mgmt_pc list" where
  "call_entries i spec n wait_for items =
     [add_task i spec, add_task_with_ownership_timeout i spec wait_for, try_add_task i spec,
      try_add_task_watched i spec, add_task_watched i spec, add_task_watched_with_ownership_timeout i spec wait_for,
      enqueue_add_batch_wait items, core_remove i, try_remove i, remove_by_name n, try_remove_by_name n,
      core_cancel i, try_cancel i, cancel_with_timeout i wait_for, try_cancel_with_timeout i wait_for,
      cancel_by_name n, try_cancel_by_name n, cancel_by_name_with_timeout n wait_for,
      try_cancel_by_name_with_timeout n wait_for]"

record mgmt_system =
  mg_port :: core_port
  mg_shutdown_started :: bool
  mg_calls :: "nat \<Rightarrow> mgmt_pc"
  mg_replies :: "nat \<Rightarrow> reply_state"
  mg_received :: "registry_command list"
  mg_complete :: "latch fset"
  mg_events :: "event list"
  mg_committed :: "(nat \<times> mgmt_request) list"

definition set_call :: "nat \<Rightarrow> mgmt_pc \<Rightarrow> mgmt_system \<Rightarrow> mgmt_system" where
  "set_call c pc s = s\<lparr>mg_calls := (mg_calls s)(c := pc)\<rparr>"

definition put_port :: "core_port \<Rightarrow> mgmt_system \<Rightarrow> mgmt_system" where
  "put_port p s = s\<lparr>mg_port := p\<rparr>"

text \<open>The entry of every \<open>enqueue\<close> function: the unlocked look at the shutdown flag.\<close>

definition enqueue_check :: "nat \<Rightarrow> mgmt_pc \<Rightarrow> mgmt_system \<Rightarrow> mgmt_system" where
  "enqueue_check c next s =
     (if port_shutting_down (mg_port s) then set_call c (CallReturned False (Inl ShuttingDown)) s
      else set_call c next s)"

text \<open>\<open>try_reserve\<close> with its two errors.\<close>

definition enqueue_try_reserve :: "nat \<Rightarrow> mgmt_pc \<Rightarrow> mgmt_system \<Rightarrow> mgmt_system" where
  "enqueue_try_reserve c next s =
     (case port_try_reserve (mg_port s) of
        Inl SendFull \<Rightarrow> set_call c (CallReturned False (Inl CommandQueueFull)) s
      | Inl SendClosed \<Rightarrow> set_call c (CallReturned False (Inl ShuttingDown)) s
      | Inr p \<Rightarrow> set_call c next (put_port p s))"

text \<open>
  \<open>reserve().await\<close>: an error once the channel is closed, a permit when there is one, otherwise the
  call waits. The waiting add also watches the shutdown token, first.
\<close>

fun watches_shutdown :: "mgmt_request \<Rightarrow> bool" where
  "watches_shutdown (ReqAdd _ _ _ _) = True"
| "watches_shutdown _ = False"

definition enqueue_reserve :: "nat \<Rightarrow> mgmt_request \<Rightarrow> mgmt_system \<Rightarrow> mgmt_system" where
  "enqueue_reserve c req s =
     (if watches_shutdown req \<and> mg_shutdown_started s
      then set_call c (CallReturned False (Inl ShuttingDown)) s
      else case port_try_reserve (mg_port s) of
             Inl SendClosed \<Rightarrow> set_call c (CallReturned False (Inl ShuttingDown)) s
           | Inl SendFull \<Rightarrow> s
           | Inr p \<Rightarrow> set_call c (CallGate req) (put_port p s))"

text \<open>
  The section under the admission gate: the permit is dropped after a closed gate; otherwise the
  request events are published and the command is sent through the permit.
\<close>

definition enqueue_commit :: "nat \<Rightarrow> mgmt_request \<Rightarrow> mgmt_system \<Rightarrow> mgmt_system" where
  "enqueue_commit c req s =
     (if \<not> command_admission (mg_port s)
      then set_call c (CallReturned False (Inl ShuttingDown)) (put_port (port_drop_permit (mg_port s)) s)
      else set_call c (CallReply req)
             (put_port (port_send (mg_port s) (request_command req))
                (s\<lparr>mg_events := mg_events s @ request_events req,
                   mg_committed := mg_committed s @ [(c, req)]\<rparr>)))"

text \<open>The steps of \<open>enqueue_add_task\<close> before the command is built.\<close>

definition add_probe_dropped ::
  "nat \<Rightarrow> task_id \<Rightarrow> task_spec \<Rightarrow> outcome_tx option \<Rightarrow> mgmt_system \<Rightarrow> mgmt_system" where
  "add_probe_dropped c i spec done' s =
     set_call c (AddOwn False i spec done' None) (put_port (port_drop_permit (mg_port s)) s)"

definition add_try_own ::
  "(nat \<Rightarrow> io_error) \<Rightarrow> nat \<Rightarrow> task_id \<Rightarrow> task_spec \<Rightarrow> outcome_tx option
     \<Rightarrow> (drop_admission_error, nat) result \<Rightarrow> mgmt_system \<Rightarrow> mgmt_system" where
  "add_try_own source c i spec done' reservation s =
     (case reservation of
        Inl e \<Rightarrow> set_call c (CallReturned False (Inl (ownership_admission_error source e))) s
      | Inr r \<Rightarrow> set_call c (CallCheck False (ReqAdd i (ts_name spec) (own_task spec r) done')) s)"

text \<open>The ownership wait of \<open>enqueue_add_task_wait_inner\<close>.\<close>

definition add_wait_own ::
  "(nat \<Rightarrow> io_error) \<Rightarrow> nat \<Rightarrow> task_id \<Rightarrow> task_spec \<Rightarrow> outcome_tx option \<Rightarrow> duration option
     \<Rightarrow> (drop_admission_error, nat) result option \<Rightarrow> bool \<Rightarrow> mgmt_system \<Rightarrow> mgmt_system" where
  "add_wait_own source c i spec done' timeout reservation elapsed s =
     (case wait_for_ownership source (mg_shutdown_started s) (port_closed (mg_port s)) reservation timeout elapsed of
        None \<Rightarrow> s
      | Some (Inl e) \<Rightarrow> set_call c (CallReturned False (Inl e)) s
      | Some (Inr r) \<Rightarrow> set_call c (CallReserve True (ReqAdd i (ts_name spec) (own_task spec r) done')) s)"

text \<open>The awaited reply; a cancellation with a decision goes on to wait for its completion.\<close>

definition await_answer :: "nat \<Rightarrow> mgmt_request \<Rightarrow> mgmt_system \<Rightarrow> mgmt_system" where
  "await_answer c req s =
     (case mg_replies s c of
        ReplyPending \<Rightarrow> s
      | ReplyLost \<Rightarrow> set_call c (CallReturned True (Inl ShuttingDown)) s
      | ReplySent (CancelDecision (Some d)) \<Rightarrow> set_call c (CallWait req d) s
      | ReplySent decision \<Rightarrow> set_call c (CallReturned True (await_reply req decision)) s)"

definition await_completion :: "nat \<Rightarrow> mgmt_request \<Rightarrow> cancel_decision \<Rightarrow> bool \<Rightarrow> mgmt_system \<Rightarrow> mgmt_system" where
  "await_completion c req d elapsed s =
     (case wait_cancel_decision (mg_complete s) elapsed d (request_timeout req) of
        None \<Rightarrow> s
      | Some r \<Rightarrow> set_call c (CallReturned True r) s)"

text \<open>The registry takes the oldest command, and answers the command it took at position \<open>k\<close>.\<close>

definition registry_take :: "mgmt_system \<Rightarrow> mgmt_system" where
  "registry_take s =
     (case port_queue (mg_port s) of
        [] \<Rightarrow> s
      | cmd # rest \<Rightarrow> s\<lparr>mg_port := (mg_port s)\<lparr>port_queue := rest\<rparr>, mg_received := mg_received s @ [cmd]\<rparr>)"

definition registry_reply :: "nat \<Rightarrow> reply_state \<Rightarrow> mgmt_system \<Rightarrow> mgmt_system" where
  "registry_reply k r s = s\<lparr>mg_replies := (mg_replies s)(fst (mg_committed s ! k) := r)\<rparr>"

inductive mgmt_step :: "mgmt_system \<Rightarrow> mgmt_system \<Rightarrow> bool" where
  call: "mg_calls s c = CallOff \<Longrightarrow> pc \<in> set (call_entries i spec n wait_for items)
    \<Longrightarrow> mgmt_step s (set_call c pc s)"
| add_check_try: "mg_calls s c = AddCheck False i spec done' timeout
    \<Longrightarrow> mgmt_step s (enqueue_check c (AddProbe i spec done') s)"
| add_check_wait: "mg_calls s c = AddCheck True i spec done' timeout
    \<Longrightarrow> mgmt_step s (enqueue_check c (AddOwn True i spec done' timeout) s)"
| add_probe: "mg_calls s c = AddProbe i spec done'
    \<Longrightarrow> mgmt_step s (enqueue_try_reserve c (AddProbed i spec done') s)"
| add_probed: "mg_calls s c = AddProbed i spec done' \<Longrightarrow> mgmt_step s (add_probe_dropped c i spec done' s)"
| add_own_try: "mg_calls s c = AddOwn False i spec done' timeout
    \<Longrightarrow> mgmt_step s (add_try_own source c i spec done' reservation s)"
| add_own_wait: "mg_calls s c = AddOwn True i spec done' timeout
    \<Longrightarrow> mgmt_step s (add_wait_own source c i spec done' timeout answer elapsed s)"
| check: "mg_calls s c = CallCheck wait req \<Longrightarrow> mgmt_step s (enqueue_check c (CallReserve wait req) s)"
| reserve_try: "mg_calls s c = CallReserve False req \<Longrightarrow> mgmt_step s (enqueue_try_reserve c (CallGate req) s)"
| reserve_wait: "mg_calls s c = CallReserve True req \<Longrightarrow> mgmt_step s (enqueue_reserve c req s)"
| gate: "mg_calls s c = CallGate req \<Longrightarrow> mgmt_step s (enqueue_commit c req s)"
| answer: "mg_calls s c = CallReply req \<Longrightarrow> mgmt_step s (await_answer c req s)"
| completed: "mg_calls s c = CallWait req d \<Longrightarrow> mgmt_step s (await_completion c req d elapsed s)"
| drop_own: "mg_calls s c = AddOwn True i spec done' timeout \<Longrightarrow> mgmt_step s (set_call c (CallDropped False) s)"
| drop_reserve: "mg_calls s c = CallReserve True req \<Longrightarrow> mgmt_step s (set_call c (CallDropped False) s)"
| drop_reply: "mg_calls s c = CallReply req \<Longrightarrow> mgmt_step s (set_call c (CallDropped True) s)"
| drop_wait: "mg_calls s c = CallWait req d \<Longrightarrow> mgmt_step s (set_call c (CallDropped True) s)"
| shut: "mgmt_step s (put_port (mark_shutting_down (mg_port s)) s)"
| shut_signal: "port_shutting_down (mg_port s) \<Longrightarrow> mgmt_step s (s\<lparr>mg_shutdown_started := True\<rparr>)"
| close_port: "mgmt_step s (put_port ((mg_port s)\<lparr>port_closed := True\<rparr>) s)"
| take: "mgmt_step s (registry_take s)"
| reply: "k < length (mg_received s) \<Longrightarrow> mg_replies s (fst (mg_committed s ! k)) = ReplyPending
    \<Longrightarrow> r = ReplyLost \<or> (\<exists>d. r = ReplySent d \<and> answer_fits (mg_received s ! k) d)
    \<Longrightarrow> mgmt_step s (registry_reply k r s)"
| complete: "mgmt_step s (s\<lparr>mg_complete := finsert l (mg_complete s)\<rparr>)"

definition mgmt_start :: "nat \<Rightarrow> mgmt_system" where
  "mgmt_start capacity =
     \<lparr>mg_port = \<lparr>port_queue = [], port_permits = 0, port_capacity = capacity, port_closed = False, port_shutting_down = False\<rparr>,
      mg_shutdown_started = False, mg_calls = (\<lambda>_. CallOff), mg_replies = (\<lambda>_. ReplyPending),
      mg_received = [], mg_complete = {||}, mg_events = [], mg_committed = []\<rparr>"

definition mgmt_init :: "mgmt_system \<Rightarrow> bool" where
  "mgmt_init s \<longleftrightarrow> (\<exists>capacity. s = mgmt_start capacity)"

definition mgmt_reachable :: "mgmt_system \<Rightarrow> bool" where
  "mgmt_reachable s \<longleftrightarrow> (\<exists>s0. mgmt_init s0 \<and> mgmt_step\<^sup>*\<^sup>* s0 s)"

section \<open>Invariant\<close>

fun holds_permit :: "mgmt_pc \<Rightarrow> bool" where
  "holds_permit (AddProbed _ _ _) = True"
| "holds_permit (CallGate _) = True"
| "holds_permit _ = False"

fun past_commit :: "mgmt_pc \<Rightarrow> bool" where
  "past_commit (CallReply _) = True"
| "past_commit (CallWait _ _) = True"
| "past_commit (CallReturned b _) = b"
| "past_commit (CallDropped b) = b"
| "past_commit _ = False"

text \<open>What explains the result of a committed call: the decision of the registry, or its loss.\<close>

definition explained ::
  "latch fset \<Rightarrow> mgmt_request \<Rightarrow> reply_state \<Rightarrow> (runtime_error, mgmt_value) result \<Rightarrow> bool" where
  "explained completed req reply r \<longleftrightarrow>
     (case reply of
        ReplyPending \<Rightarrow> False
      | ReplyLost \<Rightarrow> r = Inl ShuttingDown
      | ReplySent (CancelDecision (Some d)) \<Rightarrow>
          (r = Inr (ValueStopped (cd_claimed d)) \<and> cd_completion d |\<in>| completed)
          \<or> (\<exists>t. request_timeout req = Some t \<and> r = Inl (TaskTerminationTimeout (cd_id d) t))
      | ReplySent decision \<Rightarrow> r = await_reply req decision)"

definition permit_holders :: "mgmt_system \<Rightarrow> nat set" where
  "permit_holders s = {c. holds_permit (mg_calls s c)}"

definition permits_ok :: "mgmt_system \<Rightarrow> bool" where
  "permits_ok s \<longleftrightarrow>
     finite (permit_holders s) \<and> port_permits (mg_port s) = card (permit_holders s) \<and> port_wf (mg_port s)"

definition commit_order_ok :: "mgmt_system \<Rightarrow> bool" where
  "commit_order_ok s \<longleftrightarrow>
     map (request_command \<circ> snd) (mg_committed s) = mg_received s @ port_queue (mg_port s)
     \<and> mg_events s = concat (map (request_events \<circ> snd) (mg_committed s))
     \<and> distinct (map fst (mg_committed s))"

fun pc_ok :: "mgmt_system \<Rightarrow> nat \<Rightarrow> mgmt_pc \<Rightarrow> bool" where
  "pc_ok s c (CallReply req) \<longleftrightarrow> (c, req) \<in> set (mg_committed s)"
| "pc_ok s c (CallWait req d) \<longleftrightarrow>
     (c, req) \<in> set (mg_committed s) \<and> mg_replies s c = ReplySent (CancelDecision (Some d))"
| "pc_ok s c (CallReturned b r) \<longleftrightarrow>
     (if b then \<exists>req. (c, req) \<in> set (mg_committed s) \<and> explained (mg_complete s) req (mg_replies s c) r
      else \<exists>e. r = Inl e)"
| "pc_ok s c _ \<longleftrightarrow> True"

definition calls_ok :: "mgmt_system \<Rightarrow> bool" where
  "calls_ok s \<longleftrightarrow>
     (\<forall>c. (c \<in> fst ` set (mg_committed s) \<longleftrightarrow> past_commit (mg_calls s c)) \<and> pc_ok s c (mg_calls s c))"

definition replies_ok :: "mgmt_system \<Rightarrow> bool" where
  "replies_ok s \<longleftrightarrow>
     (\<forall>c d. mg_replies s c = ReplySent d
        \<longrightarrow> (\<exists>req. (c, req) \<in> set (mg_committed s) \<and> answer_fits (request_command req) d))"

definition mgmt_inv :: "mgmt_system \<Rightarrow> bool" where
  "mgmt_inv s \<longleftrightarrow> permits_ok s \<and> commit_order_ok s \<and> calls_ok s \<and> replies_ok s"

section \<open>Preservation\<close>

named_theorems call_defs \<open>the steps of a management call\<close>

declare enqueue_check_def [call_defs] enqueue_try_reserve_def [call_defs] enqueue_reserve_def [call_defs]
  add_probe_dropped_def [call_defs] add_try_own_def [call_defs] add_wait_own_def [call_defs]
  await_answer_def [call_defs] await_completion_def [call_defs]

lemma set_call_simps [simp]:
  "mg_port (set_call c pc s) = mg_port s" "mg_calls (set_call c pc s) = (mg_calls s)(c := pc)"
  "mg_replies (set_call c pc s) = mg_replies s" "mg_received (set_call c pc s) = mg_received s"
  "mg_complete (set_call c pc s) = mg_complete s" "mg_events (set_call c pc s) = mg_events s"
  "mg_committed (set_call c pc s) = mg_committed s"
  by (simp_all add: set_call_def)

lemma put_port_simps [simp]:
  "mg_port (put_port p s) = p" "mg_calls (put_port p s) = mg_calls s"
  "mg_replies (put_port p s) = mg_replies s" "mg_received (put_port p s) = mg_received s"
  "mg_complete (put_port p s) = mg_complete s" "mg_events (put_port p s) = mg_events s"
  "mg_committed (put_port p s) = mg_committed s"
  by (simp_all add: put_port_def)

lemma inv_parts:
  assumes "mgmt_inv s"
  shows "permits_ok s" "commit_order_ok s" "calls_ok s" "replies_ok s"
  using assms by (simp_all add: mgmt_inv_def)

text \<open>A call that moves on without touching permits, commands or replies.\<close>

lemma inv_set_call:
  assumes inv: "mgmt_inv s" and "\<not> holds_permit (mg_calls s c)" "\<not> holds_permit pc"
    and "past_commit pc \<longleftrightarrow> past_commit (mg_calls s c)" "pc_ok s c pc"
  shows "mgmt_inv (set_call c pc s)"
proof -
  have "permit_holders (set_call c pc s) = permit_holders s"
    using assms(2,3) by (auto simp: permit_holders_def)
  then have "permits_ok (set_call c pc s)" using inv_parts(1)[OF inv] by (simp add: permits_ok_def)
  moreover have ok: "pc_ok (set_call c pc s) d q \<longleftrightarrow> pc_ok s d q" for d q by (cases q) simp_all
  have "calls_ok (set_call c pc s)"
    using inv_parts(3)[OF inv] assms(4,5) by (auto simp: calls_ok_def ok)
  ultimately show ?thesis
    using inv_parts(2,4)[OF inv] by (simp add: mgmt_inv_def commit_order_ok_def replies_ok_def)
qed

text \<open>A call that takes a permit, or gives one back.\<close>

lemma pc_ok_put_port [simp]: "pc_ok (put_port p s) c pc = pc_ok s c pc"
  by (cases pc) simp_all

lemma inv_take_permit:
  assumes inv: "mgmt_inv s" and "\<not> holds_permit (mg_calls s c)" "holds_permit pc" "\<not> past_commit (mg_calls s c)"
    and p: "port_try_reserve (mg_port s) = Inr p"
  shows "mgmt_inv (set_call c pc (put_port p s))"
proof -
  have new: "p = (mg_port s)\<lparr>port_permits := Suc (port_permits (mg_port s))\<rparr>"
    and room: "length (port_queue (mg_port s)) + port_permits (mg_port s) < port_capacity (mg_port s)"
    using p by (auto simp: port_try_reserve_def split: if_splits)
  have "permit_holders (set_call c pc (put_port p s)) = insert c (permit_holders s)"
    using assms(3) by (auto simp: permit_holders_def)
  moreover have "c \<notin> permit_holders s" using assms(2) by (simp add: permit_holders_def)
  ultimately have "permits_ok (set_call c pc (put_port p s))"
    using inv_parts(1)[OF inv] new room by (simp add: permits_ok_def port_wf_def)
  moreover have "pc_ok (set_call c pc (put_port p s)) d q = pc_ok s d q" for d q by (cases q) simp_all
  moreover have "pc_ok s c pc \<and> \<not> past_commit pc" using assms(3) by (cases pc) simp_all
  ultimately show ?thesis
    using inv_parts(2-4)[OF inv] assms(4) new
    by (auto simp: mgmt_inv_def commit_order_ok_def replies_ok_def calls_ok_def)
qed

lemma inv_drop_permit:
  assumes inv: "mgmt_inv s" and "holds_permit (mg_calls s c)" "\<not> holds_permit pc" "\<not> past_commit pc" "pc_ok s c pc"
  shows "mgmt_inv (set_call c pc (put_port (port_drop_permit (mg_port s)) s))"
proof -
  let ?t = "set_call c pc (put_port (port_drop_permit (mg_port s)) s)"
  have "permit_holders ?t = permit_holders s - {c}"
    using assms(3) by (auto simp: permit_holders_def)
  moreover have "c \<in> permit_holders s" using assms(2) by (simp add: permit_holders_def)
  ultimately have "finite (permit_holders ?t)" "card (permit_holders ?t) = port_permits (mg_port s) - 1"
    using inv_parts(1)[OF inv] by (simp_all add: permits_ok_def)
  moreover have "length (port_queue (mg_port s)) + (port_permits (mg_port s) - 1) \<le> port_capacity (mg_port s)"
    using inv_parts(1)[OF inv] unfolding permits_ok_def port_wf_def by linarith
  ultimately have "permits_ok ?t" by (simp add: permits_ok_def port_wf_def port_drop_permit_def)
  moreover have "pc_ok ?t d q = pc_ok s d q" for d q by (cases q) simp_all
  moreover have "\<not> past_commit (mg_calls s c)" using assms(2) by (cases "mg_calls s c") simp_all
  ultimately show ?thesis
    using inv_parts(2-4)[OF inv] assms(4,5)
    by (auto simp: mgmt_inv_def commit_order_ok_def replies_ok_def calls_ok_def port_drop_permit_def)
qed

lemma inv_check: 
  assumes "mgmt_inv s" "\<not> holds_permit (mg_calls s c)" "\<not> past_commit (mg_calls s c)"
    and "\<not> holds_permit next" "\<not> past_commit next" "pc_ok s c next"
  shows "mgmt_inv (enqueue_check c next s)"
  using assms by (auto simp: enqueue_check_def intro!: inv_set_call)

lemma inv_try_reserve:
  assumes "mgmt_inv s" "\<not> holds_permit (mg_calls s c)" "\<not> past_commit (mg_calls s c)" "holds_permit next"
  shows "mgmt_inv (enqueue_try_reserve c next s)"
proof (cases "port_try_reserve (mg_port s)")
  case (Inl e)
  then show ?thesis
    using assms by (cases e) (simp_all add: enqueue_try_reserve_def inv_set_call)
next
  case (Inr p)
  then show ?thesis using inv_take_permit[OF assms(1,2,4,3) Inr] by (simp add: enqueue_try_reserve_def)
qed

lemma inv_reserve_wait:
  assumes "mgmt_inv s" "mg_calls s c = CallReserve True req"
  shows "mgmt_inv (enqueue_reserve c req s)"
proof -
  note failed = inv_set_call[OF assms(1), of c "CallReturned False (Inl ShuttingDown)"]
  show ?thesis
  proof (cases "port_try_reserve (mg_port s)")
    case (Inl e)
    then show ?thesis using failed assms by (cases e) (simp_all add: enqueue_reserve_def)
  next
    case (Inr p)
    then show ?thesis
      using failed inv_take_permit[OF assms(1) _ _ _ Inr, of c "CallGate req"] assms by (simp add: enqueue_reserve_def)
  qed
qed

lemma inv_commit:
  assumes inv: "mgmt_inv s" and pc: "mg_calls s c = CallGate req"
  shows "mgmt_inv (enqueue_commit c req s)"
proof (cases "command_admission (mg_port s)")
  case False
  then show ?thesis using inv_drop_permit[OF inv, of c "CallReturned False (Inl ShuttingDown)"] pc
    by (simp add: enqueue_commit_def)
next
  case True
  let ?t = "enqueue_commit c req s"
  have t: "mg_committed ?t = mg_committed s @ [(c, req)]" "mg_calls ?t = (mg_calls s)(c := CallReply req)"
    "mg_port ?t = port_send (mg_port s) (request_command req)" "mg_events ?t = mg_events s @ request_events req"
    "mg_received ?t = mg_received s" "mg_replies ?t = mg_replies s" "mg_complete ?t = mg_complete s"
    using True by (simp_all add: enqueue_commit_def)
  have "permit_holders ?t = permit_holders s - {c}" "c \<in> permit_holders s"
    using pc by (auto simp: permit_holders_def t)
  moreover from this have "0 < port_permits (mg_port s)"
    using inv_parts(1)[OF inv] by (auto simp: permits_ok_def card_gt_0_iff)
  ultimately have permits: "permits_ok ?t"
    using inv_parts(1)[OF inv] port_wf_send[of "mg_port s" "request_command req"]
    by (simp add: permits_ok_def t) (simp add: port_send_def)
  have new: "c \<notin> fst ` set (mg_committed s)" using inv_parts(3)[OF inv] pc by (auto simp: calls_ok_def)
  then have order: "commit_order_ok ?t"
    using inv_parts(2)[OF inv] by (simp add: commit_order_ok_def t) (simp add: port_send_def)
  have "pc_ok s d q \<Longrightarrow> pc_ok ?t d q" for d q by (cases q) (auto simp: t)
  then have "calls_ok ?t" using inv_parts(3)[OF inv] by (auto simp: calls_ok_def t)
  moreover have "replies_ok ?t" using inv_parts(4)[OF inv] by (auto simp: replies_ok_def t)
  ultimately show ?thesis using permits order by (simp add: mgmt_inv_def)
qed

lemma inv_try_own:
  assumes "mgmt_inv s" "mg_calls s c = AddOwn False i spec done' timeout"
  shows "mgmt_inv (add_try_own source c i spec done' reservation s)"
  using assms by (cases reservation) (simp_all add: add_try_own_def inv_set_call)

lemma inv_wait_own:
  assumes "mgmt_inv s" "mg_calls s c = AddOwn True i spec done' timeout"
  shows "mgmt_inv (add_wait_own source c i spec done' timeout reservation elapsed s)"
  using assms by (auto simp: add_wait_own_def split: option.split sum.split intro!: inv_set_call)

lemma inv_answer:
  assumes inv: "mgmt_inv s" and pc: "mg_calls s c = CallReply req"
  shows "mgmt_inv (await_answer c req s)"
proof (cases "mg_replies s c")
  case (ReplySent decision)
  have mem: "(c, req) \<in> set (mg_committed s)" using inv_parts(3)[OF inv] pc by (auto simp: calls_ok_def dest: spec[of _ c])
  show ?thesis
  proof (cases "\<exists>d. decision = CancelDecision (Some d)")
    case True
    then show ?thesis using inv pc mem ReplySent by (auto simp: await_answer_def intro!: inv_set_call)
  next
    case False
    then have "await_answer c req s = set_call c (CallReturned True (await_reply req decision)) s"
      and "explained (mg_complete s) req (mg_replies s c) (await_reply req decision)"
      using ReplySent by (auto simp: await_answer_def explained_def split: registry_decision.split option.split)
    then show ?thesis using inv pc mem by (auto intro!: inv_set_call)
  qed
next
  case ReplyLost
  have "(c, req) \<in> set (mg_committed s)" using inv_parts(3)[OF inv] pc by (auto simp: calls_ok_def dest: spec[of _ c])
  then show ?thesis using ReplyLost inv pc by (auto simp: await_answer_def explained_def intro!: inv_set_call)
qed (use inv in \<open>simp add: await_answer_def\<close>)

lemma inv_completion:
  assumes inv: "mgmt_inv s" and pc: "mg_calls s c = CallWait req d"
  shows "mgmt_inv (await_completion c req d elapsed s)"
proof -
  have "(c, req) \<in> set (mg_committed s)" "mg_replies s c = ReplySent (CancelDecision (Some d))"
    using inv_parts(3)[OF inv] pc by (auto simp: calls_ok_def dest: spec[of _ c])
  then show ?thesis
    using inv pc
    by (auto simp: await_completion_def wait_cancel_decision_def explained_def split: option.splits intro!: inv_set_call)
qed

text \<open>Steps that only change the port's flags, the tokens or the latches.\<close>

lemma explained_mono: "explained L req r x \<Longrightarrow> L |\<subseteq>| M \<Longrightarrow> explained M req r x"
  by (auto simp: explained_def split: reply_state.splits registry_decision.splits option.splits)

lemma inv_take:
  assumes inv: "mgmt_inv s"
  shows "mgmt_inv (registry_take s)"
proof (cases "port_queue (mg_port s)")
  case (Cons cmd rest)
  let ?t = "registry_take s"
  have t: "mg_committed ?t = mg_committed s" "mg_calls ?t = mg_calls s" "mg_events ?t = mg_events s"
    "mg_port ?t = (mg_port s)\<lparr>port_queue := rest\<rparr>" "mg_received ?t = mg_received s @ [cmd]"
    "mg_replies ?t = mg_replies s" "mg_complete ?t = mg_complete s"
    using Cons by (simp_all add: registry_take_def)
  have "pc_ok ?t c q = pc_ok s c q" for c q by (cases q) (simp_all add: t)
  then show ?thesis
    using inv Cons
    by (simp add: mgmt_inv_def permits_ok_def commit_order_ok_def calls_ok_def replies_ok_def permit_holders_def port_wf_def t)
qed (use inv in \<open>simp add: registry_take_def\<close>)

lemma inv_reply:
  assumes inv: "mgmt_inv s" and k: "k < length (mg_received s)" "mg_replies s (fst (mg_committed s ! k)) = ReplyPending"
    and r: "r = ReplyLost \<or> (\<exists>d. r = ReplySent d \<and> answer_fits (mg_received s ! k) d)"
  shows "mgmt_inv (registry_reply k r s)"
proof -
  let ?t = "registry_reply k r s" and ?c = "fst (mg_committed s ! k)"
  have t: "mg_committed ?t = mg_committed s" "mg_calls ?t = mg_calls s" "mg_events ?t = mg_events s"
    "mg_port ?t = mg_port s" "mg_received ?t = mg_received s" "mg_replies ?t = (mg_replies s)(?c := r)" "mg_complete ?t = mg_complete s"
    by (simp_all add: registry_reply_def)
  have "map (request_command \<circ> snd) (mg_committed s) = mg_received s @ port_queue (mg_port s)"
    using inv_parts(2)[OF inv] by (simp add: commit_order_ok_def)
  then have len: "k < length (mg_committed s)" and cmd: "request_command (snd (mg_committed s ! k)) = mg_received s ! k"
    using k(1) by (metis length_append length_map trans_less_add1, metis comp_apply length_append length_map nth_append nth_map trans_less_add1)
  have "replies_ok ?t"
    unfolding replies_ok_def
  proof (intro allI impI)
    fix c d assume sent: "mg_replies ?t c = ReplySent d"
    show "\<exists>req. (c, req) \<in> set (mg_committed ?t) \<and> answer_fits (request_command req) d"
    proof (cases "c = ?c")
      case True
      then have "answer_fits (request_command (snd (mg_committed s ! k))) d" using sent r cmd by (auto simp: t)
      moreover have "(c, snd (mg_committed s ! k)) \<in> set (mg_committed s)" using True len by simp
      ultimately show ?thesis by (auto simp: t)
    qed (use sent inv_parts(4)[OF inv] in \<open>auto simp: replies_ok_def t\<close>)
  qed
  moreover have "calls_ok ?t"
    unfolding calls_ok_def
  proof
    fix c
    have "pc_ok s c (mg_calls s c)" "c \<in> fst ` set (mg_committed s) \<longleftrightarrow> past_commit (mg_calls s c)"
      using inv_parts(3)[OF inv] by (simp_all add: calls_ok_def)
    moreover have "pc_ok s c q \<Longrightarrow> pc_ok ?t c q" for q
      using k(2) by (cases q) (auto simp: t explained_def)
    ultimately show "(c \<in> fst ` set (mg_committed ?t) \<longleftrightarrow> past_commit (mg_calls ?t c)) \<and> pc_ok ?t c (mg_calls ?t c)"
      by (simp add: t)
  qed
  ultimately show ?thesis
    using inv by (simp add: mgmt_inv_def permits_ok_def commit_order_ok_def permit_holders_def t)
qed

lemma inv_flags:
  assumes inv: "mgmt_inv s"
  shows "mgmt_inv (put_port (mark_shutting_down (mg_port s)) s)"
    and "mgmt_inv (s\<lparr>mg_shutdown_started := True\<rparr>)"
    and "mgmt_inv (put_port ((mg_port s)\<lparr>port_closed := True\<rparr>) s)"
    and "mgmt_inv (s\<lparr>mg_complete := finsert l (mg_complete s)\<rparr>)"
proof -
  show "mgmt_inv (put_port (mark_shutting_down (mg_port s)) s)"
    using inv by (simp add: mgmt_inv_def permits_ok_def commit_order_ok_def calls_ok_def replies_ok_def permit_holders_def port_wf_def mark_shutting_down_def)
  show "mgmt_inv (put_port ((mg_port s)\<lparr>port_closed := True\<rparr>) s)"
    using inv by (simp add: mgmt_inv_def permits_ok_def commit_order_ok_def calls_ok_def replies_ok_def permit_holders_def port_wf_def)
  have "pc_ok (s\<lparr>mg_shutdown_started := True\<rparr>) c q = pc_ok s c q" for c q by (cases q) simp_all
  then show "mgmt_inv (s\<lparr>mg_shutdown_started := True\<rparr>)"
    using inv by (simp add: mgmt_inv_def permits_ok_def commit_order_ok_def calls_ok_def replies_ok_def permit_holders_def)
  have "pc_ok s c q \<Longrightarrow> pc_ok (s\<lparr>mg_complete := finsert l (mg_complete s)\<rparr>) c q" for c q
    by (cases q) (simp_all, meson explained_mono fsubset_finsertI)
  then show "mgmt_inv (s\<lparr>mg_complete := finsert l (mg_complete s)\<rparr>)"
    using inv by (simp add: mgmt_inv_def permits_ok_def commit_order_ok_def calls_ok_def replies_ok_def permit_holders_def)
qed

lemma inv_call:
  assumes "mgmt_inv s" "mg_calls s c = CallOff" "pc \<in> set (call_entries i spec n wait_for items)"
  shows "mgmt_inv (set_call c pc s)"
proof (rule inv_set_call[OF assms(1)])
  have "\<not> holds_permit pc \<and> \<not> past_commit pc \<and> pc_ok s c pc"
    using assms(3) unfolding call_entries_def list.set by (elim insertE emptyE; simp add: entry_defs)
  then show "\<not> holds_permit pc" "past_commit pc \<longleftrightarrow> past_commit (mg_calls s c)" "pc_ok s c pc"
    by (simp_all add: assms(2))
qed (simp add: assms(2))

lemma mgmt_inv_step:
  assumes "mgmt_inv s" "mgmt_step s t"
  shows "mgmt_inv t"
  using assms(2)
proof cases
  case (call c pc i spec n wait_for items)
  then show ?thesis using inv_call[OF assms(1)] by simp
qed (use assms(1) in \<open>auto simp: add_probe_dropped_def
      intro!: inv_set_call inv_check inv_try_reserve inv_reserve_wait inv_commit inv_try_own inv_wait_own
        inv_answer inv_completion inv_flags inv_take inv_reply inv_drop_permit\<close>)

lemma inv_start: "mgmt_init s \<Longrightarrow> mgmt_inv s"
  by (auto simp: mgmt_init_def mgmt_start_def mgmt_inv_def permits_ok_def commit_order_ok_def calls_ok_def
      replies_ok_def permit_holders_def port_wf_def)

interpretation mgmt: inductive_invariant mgmt_init mgmt_step mgmt_inv
  by unfold_locales (auto intro: inv_start mgmt_inv_step)

lemma reachable_inv: "mgmt_reachable s \<Longrightarrow> mgmt_inv s"
  unfolding mgmt_reachable_def using mgmt.good_reachable by blast

section \<open>After the gate has closed\<close>

text \<open>What a closed gate keeps: the commits, their events, and an empty queue.\<close>

definition sealed :: "mgmt_system \<Rightarrow> mgmt_system \<Rightarrow> bool" where
  "sealed s t \<longleftrightarrow>
     port_shutting_down (mg_port t) \<and> mg_committed t = mg_committed s \<and> mg_events t = mg_events s
     \<and> (port_queue (mg_port s) = [] \<longrightarrow> port_queue (mg_port t) = [])"

lemma sealed_step:
  assumes "port_shutting_down (mg_port s)" "mgmt_step s t"
  shows "sealed s t"
  using assms(2,1)
  by cases
    (auto simp: sealed_def call_defs enqueue_commit_def command_admission_def port_drop_permit_def port_try_reserve_def
      mark_shutting_down_def registry_take_def registry_reply_def
      split: if_splits sum.splits option.splits try_send_error.splits reply_state.splits registry_decision.splits list.splits)

lemma sealed_run:
  assumes "mgmt_step\<^sup>*\<^sup>* s t" "port_shutting_down (mg_port s)"
  shows "sealed s t"
  using assms(1)
proof (induction rule: rtranclp_induct)
  case base
  then show ?case using assms(2) by (simp add: sealed_def)
next
  case (step y z)
  then show ?case using sealed_step[of y z] by (auto simp: sealed_def)
qed

section \<open>Properties\<close>

text \<open>The parts of the property below.\<close>

lemma management_gate_orders_commits_parts:
  assumes "mgmt_reachable s"
  shows "map (\<lambda>(c, req). request_command req) (mg_committed s) = mg_received s @ port_queue (mg_port s)"
    and "distinct (map fst (mg_committed s))"
    and "mg_events s = concat (map (\<lambda>(c, req). request_events req) (mg_committed s))"
    and "port_permits (mg_port s) = card {c. holds_permit (mg_calls s c)}"
    and "length (port_queue (mg_port s)) + port_permits (mg_port s) \<le> port_capacity (mg_port s)"
    and "mg_calls s c = CallReturned False r \<Longrightarrow> (\<exists>e. r = Inl e) \<and> c \<notin> fst ` set (mg_committed s)"
    and "mg_calls s c = CallReturned True r \<Longrightarrow>
      \<exists>req. (c, req) \<in> set (mg_committed s) \<and>
        (case mg_replies s c of
           ReplyPending \<Rightarrow> False
         | ReplyLost \<Rightarrow> r = Inl ShuttingDown
         | ReplySent (CancelDecision (Some d)) \<Rightarrow>
             (r = Inr (ValueStopped (cd_claimed d)) \<and> cd_completion d |\<in>| mg_complete s)
             \<or> (\<exists>t. request_timeout req = Some t \<and> r = Inl (TaskTerminationTimeout (cd_id d) t))
         | ReplySent decision \<Rightarrow> r = await_reply req decision \<and> answer_fits (request_command req) decision)"
    and "port_shutting_down (mg_port s) \<Longrightarrow> mgmt_step\<^sup>*\<^sup>* s t \<Longrightarrow>
      mg_committed t = mg_committed s \<and> mg_events t = mg_events s
      \<and> (port_queue (mg_port s) = [] \<longrightarrow> port_queue (mg_port t) = [])"
proof -
  note inv = reachable_inv[OF assms]
  note parts = inv_parts[OF inv]
  show "map (\<lambda>(c, req). request_command req) (mg_committed s) = mg_received s @ port_queue (mg_port s)"
    "distinct (map fst (mg_committed s))"
    "mg_events s = concat (map (\<lambda>(c, req). request_events req) (mg_committed s))"
    using parts(2) by (simp_all add: commit_order_ok_def comp_def case_prod_unfold)
  show "port_permits (mg_port s) = card {c. holds_permit (mg_calls s c)}"
    "length (port_queue (mg_port s)) + port_permits (mg_port s) \<le> port_capacity (mg_port s)"
    using parts(1) by (simp_all add: permits_ok_def permit_holders_def port_wf_def)
  have call: "pc_ok s c (mg_calls s c)" "c \<in> fst ` set (mg_committed s) \<longleftrightarrow> past_commit (mg_calls s c)"
    using parts(3) by (simp_all add: calls_ok_def)
  show "mg_calls s c = CallReturned False r \<Longrightarrow> (\<exists>e. r = Inl e) \<and> c \<notin> fst ` set (mg_committed s)"
    using call by simp
  show "\<exists>req. (c, req) \<in> set (mg_committed s) \<and>
        (case mg_replies s c of
           ReplyPending \<Rightarrow> False
         | ReplyLost \<Rightarrow> r = Inl ShuttingDown
         | ReplySent (CancelDecision (Some d)) \<Rightarrow>
             (r = Inr (ValueStopped (cd_claimed d)) \<and> cd_completion d |\<in>| mg_complete s)
             \<or> (\<exists>t. request_timeout req = Some t \<and> r = Inl (TaskTerminationTimeout (cd_id d) t))
         | ReplySent decision \<Rightarrow> r = await_reply req decision \<and> answer_fits (request_command req) decision)"
    if ret: "mg_calls s c = CallReturned True r"
  proof -
    obtain req where req: "(c, req) \<in> set (mg_committed s)" "explained (mg_complete s) req (mg_replies s c) r"
      using call(1) ret by auto
    then have "mg_replies s c = ReplySent d \<Longrightarrow> answer_fits (request_command req) d" for d
      using parts(2,4) by (force simp: replies_ok_def commit_order_ok_def dest: eq_key_imp_eq_value)
    with req show ?thesis
      unfolding explained_def
      by (intro exI[of _ req]) (auto split: reply_state.splits registry_decision.splits option.splits)
  qed
  show "port_shutting_down (mg_port s) \<Longrightarrow> mgmt_step\<^sup>*\<^sup>* s t \<Longrightarrow>
      mg_committed t = mg_committed s \<and> mg_events t = mg_events s
      \<and> (port_queue (mg_port s) = [] \<longrightarrow> port_queue (mg_port t) = [])"
    using sealed_run by (simp add: sealed_def)
qed

text \<open>
  C13. The admission gate orders commits. In every reachable state of any number of concurrent
  management calls the commands received by the registry followed by the queue are exactly the
  committed commands in commit order, at most one per call; the request events are exactly those of
  the committed commands; the permits of the channel are exactly those of calls between reservation
  and gate, and with the queue they stay within its capacity. A call that returns without a commit
  returns an error; a call that returns after one returns the decision of the registry for its
  command: a cancellation with a decision returns its claim once the removal is complete, or a
  timeout it asked for. Once admission is closed no later step commits, publishes a request or
  refills an empty queue, whatever calls were already past their first check or held a permit.
\<close>

theorem management_gate_orders_commits:
  assumes "mgmt_reachable s"
  shows "map (\<lambda>(c, req). request_command req) (mg_committed s) = mg_received s @ port_queue (mg_port s)
    \<and> distinct (map fst (mg_committed s))
    \<and> mg_events s = concat (map (\<lambda>(c, req). request_events req) (mg_committed s))
    \<and> port_permits (mg_port s) = card {c. holds_permit (mg_calls s c)}
    \<and> length (port_queue (mg_port s)) + port_permits (mg_port s) \<le> port_capacity (mg_port s)
    \<and> (\<forall>c r. mg_calls s c = CallReturned False r \<longrightarrow> (\<exists>e. r = Inl e) \<and> c \<notin> fst ` set (mg_committed s))
    \<and> (\<forall>c r. mg_calls s c = CallReturned True r \<longrightarrow>
        (\<exists>req. (c, req) \<in> set (mg_committed s) \<and>
          (case mg_replies s c of
             ReplyPending \<Rightarrow> False
           | ReplyLost \<Rightarrow> r = Inl ShuttingDown
           | ReplySent (CancelDecision (Some d)) \<Rightarrow>
               (r = Inr (ValueStopped (cd_claimed d)) \<and> cd_completion d |\<in>| mg_complete s)
               \<or> (\<exists>t. request_timeout req = Some t \<and> r = Inl (TaskTerminationTimeout (cd_id d) t))
           | ReplySent decision \<Rightarrow> r = await_reply req decision \<and> answer_fits (request_command req) decision)))
    \<and> (port_shutting_down (mg_port s) \<longrightarrow> (\<forall>t. mgmt_step\<^sup>*\<^sup>* s t \<longrightarrow>
        mg_committed t = mg_committed s \<and> mg_events t = mg_events s
        \<and> (port_queue (mg_port s) = [] \<longrightarrow> port_queue (mg_port t) = [])))"
  by (intro conjI allI impI) (use management_gate_orders_commits_parts[OF assms] in \<open>blast+\<close>)

text \<open>
  A run: call 0 commits a removal and is answered, call 1 holds a permit while shutdown closes the
  gate, call 2 arrives afterwards.
\<close>

definition calls_demo_committed :: mgmt_system where
  "calls_demo_committed =
     (enqueue_commit 0 (ReqRemove 7 None)
       (enqueue_try_reserve 0 (CallGate (ReqRemove 7 None))
         (enqueue_check 0 (CallReserve False (ReqRemove 7 None))
           (set_call 0 (try_remove 7) (mgmt_start 2)))))"

definition calls_demo_waiting :: mgmt_system where
  "calls_demo_waiting =
     (enqueue_reserve 1 (ReqCancel 7 None)
       (enqueue_check 1 (CallReserve True (ReqCancel 7 None))
         (set_call 1 (core_cancel 7) calls_demo_committed)))"

definition calls_demo_shut :: mgmt_system where
  "calls_demo_shut =
     (let s = await_answer 0 (ReqRemove 7 None) (registry_reply 0 (ReplySent (RemoveDecision True)) (registry_take calls_demo_waiting));
          s = put_port (mark_shutting_down (mg_port s)) s
      in enqueue_check 2 (CallReserve False (ReqRemoveByName ''a'')) (set_call 2 (try_remove_by_name ''a'') s))"

definition calls_demo_refused :: mgmt_system where
  "calls_demo_refused = enqueue_commit 1 (ReqCancel 7 None) calls_demo_shut"

lemmas calls_demo_simps = calls_demo_committed_def calls_demo_waiting_def calls_demo_shut_def calls_demo_refused_def mgmt_start_def set_call_def put_port_def
  enqueue_check_def enqueue_try_reserve_def enqueue_reserve_def enqueue_commit_def port_try_reserve_def
  command_admission_def port_send_def port_drop_permit_def registry_take_def registry_reply_def
  await_answer_def mark_shutting_down_def Let_def call_entries_def entry_defs

lemmas run_step = rtranclp.rtrancl_into_rtrancl[where r = mgmt_step]

lemma calls_demo_committed_run: "mgmt_step\<^sup>*\<^sup>* (mgmt_start 2) calls_demo_committed"
  unfolding calls_demo_committed_def
  by (intro run_step[OF _ mgmt_step.gate] run_step[OF _ mgmt_step.reserve_try]
      run_step[OF _ mgmt_step.check] run_step[OF _ mgmt_step.call])
    (simp_all add: calls_demo_simps)

lemma calls_demo_waiting_run: "mgmt_step\<^sup>*\<^sup>* calls_demo_committed calls_demo_waiting"
  unfolding calls_demo_waiting_def
  by (intro run_step[OF _ mgmt_step.reserve_wait]
      run_step[OF _ mgmt_step.check] run_step[OF _ mgmt_step.call])
    (simp_all add: calls_demo_simps)

lemma calls_demo_shut_run: "mgmt_step\<^sup>*\<^sup>* calls_demo_waiting calls_demo_shut"
  unfolding calls_demo_shut_def Let_def
  by (intro run_step[OF _ mgmt_step.check] run_step[OF _ mgmt_step.call]
      run_step[OF _ mgmt_step.shut] run_step[OF _ mgmt_step.answer]
      run_step[OF _ mgmt_step.reply] run_step[OF _ mgmt_step.take])
    (simp_all add: calls_demo_simps)

lemma calls_demo_refused_run: "mgmt_step\<^sup>*\<^sup>* calls_demo_shut calls_demo_refused"
  unfolding calls_demo_refused_def by (rule r_into_rtranclp, rule mgmt_step.gate) (simp add: calls_demo_simps)

lemma calls_demo_shut_reachable: "mgmt_reachable calls_demo_shut"
  using calls_demo_committed_run calls_demo_waiting_run calls_demo_shut_run
  by (meson mgmt_reachable_def mgmt_init_def rtranclp_trans)

theorem management_gate_orders_commits_witness:
  "mgmt_reachable calls_demo_shut \<and> mg_received calls_demo_shut = [CmdRemove 7] \<and> port_queue (mg_port calls_demo_shut) = []
   \<and> card {c. holds_permit (mg_calls calls_demo_shut c)} = 1
   \<and> mg_calls calls_demo_shut 0 = CallReturned True (Inr (ValueStopped True))
   \<and> mg_calls calls_demo_shut 2 = CallReturned False (Inl ShuttingDown)
   \<and> port_queue (mg_port calls_demo_refused) = [] \<and> mg_committed calls_demo_refused = [(0, ReqRemove 7 None)]"
proof -
  have shut: "mg_calls calls_demo_shut 0 = CallReturned True (Inr (ValueStopped True))"
    "mg_calls calls_demo_shut 2 = CallReturned False (Inl ShuttingDown)" "port_shutting_down (mg_port calls_demo_shut)"
    "mg_received calls_demo_shut = [CmdRemove 7]" "port_queue (mg_port calls_demo_shut) = []" "port_permits (mg_port calls_demo_shut) = 1"
    "mg_committed calls_demo_shut = [(0, ReqRemove 7 None)]"
    by (simp_all add: calls_demo_simps)
  show ?thesis
    using management_gate_orders_commits[OF calls_demo_shut_reachable] shut calls_demo_refused_run calls_demo_shut_reachable by auto
qed

end
