(* ===== verification/Runtime_Lifecycle.thy ===== *)
theory Runtime_Lifecycle
  imports Management_Calls
begin

text \<open>
  Startup, static runs and shutdown of one supervisor (\<^verbatim>\<open>src/src/core/runtime/mod.rs\<close>,
  \<^verbatim>\<open>lifecycle/mod.rs\<close>, \<^verbatim>\<open>lifecycle/static_run.rs\<close>, \<^verbatim>\<open>shutdown_workflow/mod.rs\<close>,
  \<^verbatim>\<open>shutdown_workflow/cleanup.rs\<close> and \<^verbatim>\<open>src/src/core/owner.rs\<close>).

  Any number of callers run concurrently with the detached owner of the shutdown operation. A caller
  is a program counter whose steps end where another thread can be seen; it may be dropped where it
  awaits. What the components around do is an input of a step: whether the fence is acknowledged,
  which task names are stuck, how a cleanup phase ends, which branch of a selection is ready. A
  selection may take any ready branch, which includes every order of polling.
\<close>

section \<open>Outcomes and triggers\<close>

datatype shutdown_outcome =
    ShutdownCompleted
  | ShutdownGraceExceeded duration "name list"
  | ShutdownSignalSetupFailed io_error
  | ShutdownFailed

datatype shutdown_trigger = TriggerRequested | TriggerNatural | TriggerSignalSetupFailed io_error

definition from_drain_result :: "(runtime_error, unit) result \<Rightarrow> shutdown_outcome" where
  "from_drain_result r =
     (case r of
        Inr _ \<Rightarrow> ShutdownCompleted
      | Inl (GraceExceeded grace stuck) \<Rightarrow> ShutdownGraceExceeded grace stuck
      | Inl _ \<Rightarrow> ShutdownFailed)"

text \<open>The rebuilt signal error displays the original one, so its message is the same.\<close>

fun outcome_into_result :: "shutdown_outcome \<Rightarrow> (runtime_error, unit) result" where
  "outcome_into_result ShutdownCompleted = Inr ()"
| "outcome_into_result (ShutdownGraceExceeded grace stuck) = Inl (GraceExceeded grace stuck)"
| "outcome_into_result (ShutdownSignalSetupFailed source) = Inl (SignalSetupFailed source)"
| "outcome_into_result ShutdownFailed = Inl ShuttingDown"

section \<open>State\<close>

record core_settings =
  st_max_registered :: "nat option"
  st_capacity :: "nat option"
  st_ownership_slots :: nat
  st_grace :: duration
  st_bus_enabled :: bool
  st_controller :: bool

datatype runtime_worker = LaunchSubscribers | LaunchRelay | LaunchRegistry | LaunchController

datatype cleanup_phase = JoinController | CancelListeners | JoinRegistry | JoinRelay | CloseSubscribers

text \<open>How a guarded phase ends: cleanly, with a reported failure, or in a caught panic.\<close>

datatype phase_answer = PhaseClean | PhaseFailed | PhasePanicked string

text \<open>What the owner of an operation did, as ghost state.\<close>

datatype owner_act =
    Fenced bool
  | CancelledAll "name list"
  | JoinsWaited "name list"
  | DrainPanicked
  | PhaseEnded cleanup_phase phase_answer
  | OwnerPanicked

text \<open>
  The detached owner: in the three parts of the drain, before and in the cleanup tail (recovering
  after a panic of its own, with the outcome so far, the phases left and whether all were clean),
  about to publish, or gone.
\<close>

datatype owner_pc =
    OwnerNone
  | OwnerFence shutdown_trigger
  | OwnerCancelAll
  | OwnerJoins "name list" duration
  | OwnerEnter bool shutdown_outcome
  | OwnerTail bool shutdown_outcome "cleanup_phase list" bool
  | OwnerPublish shutdown_outcome
  | OwnerGone

datatype run_claim = NoClaim | ClaimHeld | ClaimCommitted

text \<open>What a static run does after a successful start.\<close>

datatype run_next = NextDrive | NextJoin shutdown_trigger | NextBatch "(name \<times> task_spec owned_task) list"

datatype caller_pc =
    CallerIdle
  | BeginShutdown shutdown_trigger
  | BeginInstall shutdown_trigger bool
  | BeginSignal shutdown_trigger bool nat
  | BeginSpawn shutdown_trigger bool nat
  | OperationWait nat
  | StartedWait
  | RunAcquire "task_spec list"
  | RunPreflight "task_spec list"
  | RunEmpty
  | RunSelect "task_spec list"
  | RunRuntime "task_spec list"
  | RunReserve "task_spec list"
  | RunOwned "(name \<times> task_spec owned_task) list"
  | RunStart run_next
  | RunEnqueue "add_batch_item list"
  | RunCapacity "add_batch_item list"
  | RunGate "add_batch_item list"
  | RunReply
  | RunRefused runtime_error
  | RunDrive
  | CallerReturned bool "(runtime_error, unit) result"
  | CallerDropped

record runtime_core =
  rc_settings :: core_settings
  rc_port :: core_port
  rc_started :: bool
  rc_startup_runtime :: "nat option"
  rc_launched :: "runtime_worker list"
  rc_running :: bool
  rc_runtime_cancelled :: bool
  rc_shutdown_started :: bool
  rc_operation_installed :: bool
  rc_operation_lock :: "nat option"
  rc_operation :: "nat option"
  rc_next_operation :: nat
  rc_owner :: "nat \<Rightarrow> owner_pc"
  rc_outcome :: "nat \<Rightarrow> shutdown_outcome option"
  rc_acts :: "nat \<Rightarrow> owner_act list"
  rc_calls :: "nat \<Rightarrow> caller_pc"
  rc_claims :: "nat \<Rightarrow> run_claim"
  rc_public :: bool
  rc_events :: "event list"
  rc_faults :: nat

definition core_new :: "core_settings \<Rightarrow> nat \<Rightarrow> runtime_core" where
  "core_new settings capacity =
     \<lparr>rc_settings = settings,
      rc_port = \<lparr>port_queue = [], port_permits = 0, port_capacity = capacity, port_closed = False, port_shutting_down = False\<rparr>,
      rc_started = False, rc_startup_runtime = None, rc_launched = [], rc_running = False,
      rc_runtime_cancelled = False, rc_shutdown_started = False, rc_operation_installed = False,
      rc_operation_lock = None, rc_operation = None, rc_next_operation = 0,
      rc_owner = (\<lambda>_. OwnerNone), rc_outcome = (\<lambda>_. None), rc_acts = (\<lambda>_. []),
      rc_calls = (\<lambda>_. CallerIdle), rc_claims = (\<lambda>_. NoClaim), rc_public = True, rc_events = [], rc_faults = 0\<rparr>"

definition rc_publish :: "event \<Rightarrow> runtime_core \<Rightarrow> runtime_core" where
  "rc_publish e s = s\<lparr>rc_events := rc_events s @ [e]\<rparr>"

definition caller_goto :: "nat \<Rightarrow> caller_pc \<Rightarrow> runtime_core \<Rightarrow> runtime_core" where
  "caller_goto c pc s = s\<lparr>rc_calls := (rc_calls s)(c := pc)\<rparr>"

definition owner_goto :: "nat \<Rightarrow> owner_pc \<Rightarrow> runtime_core \<Rightarrow> runtime_core" where
  "owner_goto k pc s = s\<lparr>rc_owner := (rc_owner s)(k := pc)\<rparr>"

definition owner_note :: "nat \<Rightarrow> owner_act \<Rightarrow> runtime_core \<Rightarrow> runtime_core" where
  "owner_note k a s = s\<lparr>rc_acts := (rc_acts s)(k := rc_acts s k @ [a])\<rparr>"

definition core_shutting_down :: "runtime_core \<Rightarrow> bool" where
  "core_shutting_down s \<longleftrightarrow> port_shutting_down (rc_port s)"

definition core_mark_shutting_down :: "runtime_core \<Rightarrow> runtime_core" where
  "core_mark_shutting_down s = s\<lparr>rc_port := mark_shutting_down (rc_port s)\<rparr>"

section \<open>Startup\<close>

definition launched_workers :: "core_settings \<Rightarrow> runtime_worker list" where
  "launched_workers settings =
     [LaunchSubscribers] @ (if st_bus_enabled settings then [LaunchRelay] else []) @ [LaunchRegistry]
     @ (if st_controller settings then [LaunchController] else [])"

text \<open>
  \<open>start\<close>, with the Tokio runtime of the caller and the answer of the subscriber set. The startup
  lock and the final store make it one step. The assertion on the published runtime is checked.
\<close>

definition core_start ::
  "nat option \<Rightarrow> (runtime_error, unit) result \<Rightarrow> runtime_core \<Rightarrow> (runtime_error, unit) result \<times> runtime_core" where
  "core_start current subscribers s =
     (if rc_started s then (Inr (), s)
      else case current of
             None \<Rightarrow> (Inl TokioRuntimeUnavailable, s)
           | Some runtime \<Rightarrow>
               (case subscribers of
                  Inl e \<Rightarrow> (Inl e, s)
                | Inr _ \<Rightarrow>
                    (Inr (),
                     s\<lparr>rc_launched := rc_launched s @ launched_workers (rc_settings s),
                       rc_faults := rc_faults s + of_bool (rc_startup_runtime s \<noteq> None),
                       rc_startup_runtime := Some runtime,
                       rc_started := True\<rparr>)))"

section \<open>The shared shutdown operation\<close>

text \<open>\<open>abandon\<close>: the synchronous fallback of the last public owner.\<close>

definition abandon :: "runtime_core \<Rightarrow> runtime_core" where
  "abandon s =
     (if rc_operation_installed s then s
      else (core_mark_shutting_down s)\<lparr>rc_shutdown_started := True, rc_runtime_cancelled := True\<rparr>)"

text \<open>
  \<open>begin_shutdown\<close> in four steps: the lock with the look at the operation and the closed admission,
  the installed operation, the start signal with the released lock, and the spawned owner.
\<close>

definition begin_lock :: "nat \<Rightarrow> shutdown_trigger \<Rightarrow> nat option \<Rightarrow> runtime_core \<Rightarrow> runtime_core" where
  "begin_lock c trigger current s =
     (case rc_operation s of
        Some k \<Rightarrow> caller_goto c (OperationWait k) s
      | None \<Rightarrow>
          (let runtime = (case rc_startup_runtime s of Some r \<Rightarrow> Some r | None \<Rightarrow> current)
           in caller_goto c (BeginInstall trigger (runtime \<noteq> None))
                ((core_mark_shutting_down s)\<lparr>rc_operation_lock := Some c\<rparr>)))"

definition begin_install :: "nat \<Rightarrow> shutdown_trigger \<Rightarrow> bool \<Rightarrow> runtime_core \<Rightarrow> runtime_core" where
  "begin_install c trigger owned s =
     (let k = rc_next_operation s
      in caller_goto c (BeginSignal trigger owned k)
           (s\<lparr>rc_next_operation := Suc k, rc_operation := Some k, rc_operation_installed := True\<rparr>))"

definition begin_signal :: "nat \<Rightarrow> shutdown_trigger \<Rightarrow> bool \<Rightarrow> nat \<Rightarrow> runtime_core \<Rightarrow> runtime_core" where
  "begin_signal c trigger owned k s =
     (let s = (if trigger = TriggerRequested then rc_publish (event_new ShutdownRequested) s else s)
      in caller_goto c (BeginSpawn trigger owned k) (s\<lparr>rc_shutdown_started := True, rc_operation_lock := None\<rparr>))"

definition begin_spawn :: "nat \<Rightarrow> shutdown_trigger \<Rightarrow> bool \<Rightarrow> nat \<Rightarrow> runtime_core \<Rightarrow> runtime_core" where
  "begin_spawn c trigger owned k s =
     caller_goto c (OperationWait k)
       (if owned then owner_goto k (OwnerFence trigger) s
        else owner_goto k OwnerGone
               (s\<lparr>rc_runtime_cancelled := True, rc_outcome := (rc_outcome s)(k := Some ShutdownFailed)\<rparr>))"

text \<open>A call returns; an uncommitted claim is released with it.\<close>

definition release_claim :: "nat \<Rightarrow> runtime_core \<Rightarrow> runtime_core" where
  "release_claim c s =
     (if rc_claims s c = ClaimHeld then s\<lparr>rc_running := False, rc_claims := (rc_claims s)(c := NoClaim)\<rparr> else s)"

definition caller_return :: "nat \<Rightarrow> bool \<Rightarrow> (runtime_error, unit) result \<Rightarrow> runtime_core \<Rightarrow> runtime_core" where
  "caller_return c joined r s = caller_goto c (CallerReturned joined r) (release_claim c s)"

definition caller_drop :: "nat \<Rightarrow> runtime_core \<Rightarrow> runtime_core" where
  "caller_drop c s = caller_goto c CallerDropped (release_claim c s)"

text \<open>\<open>ShutdownOperation::wait\<close> with \<open>into_result\<close>: the cached outcome, or the loss of its sender.\<close>

definition operation_wait :: "nat \<Rightarrow> nat \<Rightarrow> runtime_core \<Rightarrow> runtime_core" where
  "operation_wait c k s =
     (case rc_outcome s k of
        Some outcome \<Rightarrow> caller_return c True (outcome_into_result outcome) s
      | None \<Rightarrow> if rc_owner s k = OwnerGone then caller_return c True (outcome_into_result ShutdownFailed) s else s)"

text \<open>\<open>wait_started_shutdown\<close> after the start signal.\<close>

definition wait_started_shutdown :: "nat \<Rightarrow> runtime_core \<Rightarrow> runtime_core" where
  "wait_started_shutdown c s =
     (case rc_operation s of
        Some k \<Rightarrow> caller_goto c (OperationWait k) s
      | None \<Rightarrow> s\<lparr>rc_faults := rc_faults s + 1\<rparr>)"

section \<open>The detached owner\<close>

definition report_shutdown_panic :: "string \<Rightarrow> string \<Rightarrow> runtime_core \<Rightarrow> runtime_core" where
  "report_shutdown_panic phase msg s =
     rc_publish (runtime_failure ''shutdown_owner'' [Lit phase, Lit '' panic: '', Lit msg]) s"

text \<open>\<open>resolve_shutdown\<close> with \<open>drain_with_grace\<close>.\<close>

definition owner_fence :: "nat \<Rightarrow> shutdown_trigger \<Rightarrow> bool \<Rightarrow> runtime_core \<Rightarrow> runtime_core" where
  "owner_fence k trigger acknowledged s =
     (let s = owner_note k (Fenced acknowledged) (core_mark_shutting_down s)
      in case trigger of
           TriggerSignalSetupFailed source \<Rightarrow> owner_goto k (OwnerEnter False (ShutdownSignalSetupFailed source)) s
         | _ \<Rightarrow>
             (if acknowledged then owner_goto k OwnerCancelAll s
              else owner_goto k (OwnerEnter False (from_drain_result (Inl ShuttingDown))) s))"

definition owner_cancel_all :: "nat \<Rightarrow> name list \<Rightarrow> duration \<Rightarrow> runtime_core \<Rightarrow> runtime_core" where
  "owner_cancel_all k stuck elapsed s =
     owner_goto k (OwnerJoins stuck (st_grace (rc_settings s) - elapsed)) (owner_note k (CancelledAll stuck) s)"

definition owner_joins :: "nat \<Rightarrow> name list \<Rightarrow> name list \<Rightarrow> runtime_core \<Rightarrow> runtime_core" where
  "owner_joins k stuck pending s =
     (let s = owner_note k (JoinsWaited pending) s; stuck = stuck @ pending
      in if stuck = []
         then owner_goto k (OwnerEnter False (from_drain_result (Inr ()))) (rc_publish (event_new AllStoppedWithinGrace) s)
         else owner_goto k (OwnerEnter False (from_drain_result (Inl (GraceExceeded (st_grace (rc_settings s)) stuck))))
                (rc_publish (event_new GraceExceededEvent) s))"

text \<open>A panic inside the guarded drain.\<close>

definition owner_drain_panic :: "nat \<Rightarrow> string \<Rightarrow> runtime_core \<Rightarrow> runtime_core" where
  "owner_drain_panic k msg s =
     owner_goto k (OwnerEnter False ShutdownFailed)
       (owner_note k DrainPanicked (report_shutdown_panic ''drain'' msg s))"

definition cleanup_phases :: "bool \<Rightarrow> cleanup_phase list" where
  "cleanup_phases controller =
     (if controller then [JoinController] else []) @ [CancelListeners, JoinRegistry, JoinRelay, CloseSubscribers]"

fun cleanup_phase_label :: "cleanup_phase \<Rightarrow> string" where
  "cleanup_phase_label JoinController = ''controller cleanup''"
| "cleanup_phase_label CancelListeners = ''''"
| "cleanup_phase_label JoinRegistry = ''registry cleanup''"
| "cleanup_phase_label JoinRelay = ''subscriber listener cleanup''"
| "cleanup_phase_label CloseSubscribers = ''subscriber worker cleanup''"

text \<open>The entry of \<open>finish_shutdown_cleanup\<close>: is there a controller, and is it still alive?\<close>

definition owner_enter :: "nat \<Rightarrow> bool \<Rightarrow> shutdown_outcome \<Rightarrow> bool \<Rightarrow> runtime_core \<Rightarrow> runtime_core" where
  "owner_enter k recovering outcome alive s =
     owner_goto k (OwnerTail recovering outcome (cleanup_phases (st_controller (rc_settings s) \<and> alive)) True) s"

text \<open>Which answers a phase can give: cancelling cannot fail, closing subscribers returns nothing.\<close>

fun phase_can :: "cleanup_phase \<Rightarrow> phase_answer \<Rightarrow> bool" where
  "phase_can CancelListeners a \<longleftrightarrow> a = PhaseClean"
| "phase_can CloseSubscribers a \<longleftrightarrow> a \<noteq> PhaseFailed"
| "phase_can _ _ \<longleftrightarrow> True"

definition owner_phase ::
  "nat \<Rightarrow> bool \<Rightarrow> shutdown_outcome \<Rightarrow> cleanup_phase \<Rightarrow> cleanup_phase list \<Rightarrow> bool \<Rightarrow> phase_answer \<Rightarrow> runtime_core \<Rightarrow> runtime_core" where
  "owner_phase k recovering outcome phase rest clean answer s =
     (let s = (if phase = CancelListeners then s\<lparr>rc_runtime_cancelled := True\<rparr> else s);
          s = (case answer of PhasePanicked msg \<Rightarrow> report_shutdown_panic (cleanup_phase_label phase) msg s | _ \<Rightarrow> s)
      in owner_goto k (OwnerTail recovering outcome rest (clean \<and> answer = PhaseClean)) (owner_note k (PhaseEnded phase answer) s))"

text \<open>The end of the tail: in \<open>perform_shutdown\<close>, or after the recovery in \<open>begin_shutdown\<close>.\<close>

definition owner_tail_end :: "nat \<Rightarrow> bool \<Rightarrow> shutdown_outcome \<Rightarrow> bool \<Rightarrow> runtime_core \<Rightarrow> runtime_core" where
  "owner_tail_end k recovering outcome clean s =
     owner_goto k (OwnerPublish (if \<not> recovering \<and> clean then outcome else ShutdownFailed)) s"

text \<open>
  A panic outside the inner guards: caught once around \<open>perform_shutdown\<close>, after which the tail runs
  again; a second one ends the owner, and with it the sender of the outcome.
\<close>

definition owner_panic :: "nat \<Rightarrow> bool \<Rightarrow> string \<Rightarrow> runtime_core \<Rightarrow> runtime_core" where
  "owner_panic k recovering msg s =
     (if recovering then owner_goto k OwnerGone s
      else owner_goto k (OwnerEnter True ShutdownFailed)
             (owner_note k OwnerPanicked (report_shutdown_panic ''owner'' msg s)))"

definition owner_publish :: "nat \<Rightarrow> shutdown_outcome \<Rightarrow> runtime_core \<Rightarrow> runtime_core" where
  "owner_publish k outcome s =
     owner_goto k OwnerGone (s\<lparr>rc_outcome := (rc_outcome s)(k := Some outcome)\<rparr>)"

section \<open>Static runs\<close>

text \<open>\<open>StaticRunClaim::acquire\<close> and \<open>commit\<close>.\<close>

definition claim_acquire :: "nat \<Rightarrow> runtime_core \<Rightarrow> runtime_core option" where
  "claim_acquire c s =
     (if rc_running s then None
      else Some (s\<lparr>rc_running := True, rc_claims := (rc_claims s)(c := ClaimHeld)\<rparr>))"

definition claim_commit :: "nat \<Rightarrow> runtime_core \<Rightarrow> runtime_core" where
  "claim_commit c s = s\<lparr>rc_claims := (rc_claims s)(c := ClaimCommitted)\<rparr>"

definition run_acquire :: "nat \<Rightarrow> task_spec list \<Rightarrow> runtime_core \<Rightarrow> runtime_core" where
  "run_acquire c tasks s =
     (case claim_acquire c s of
        None \<Rightarrow> caller_return c False (Inl AlreadyRunning) s
      | Some s \<Rightarrow> caller_goto c (RunPreflight tasks) s)"

text \<open>The two limits checked before anything else; the subtraction saturates.\<close>

definition run_limit :: "core_settings \<Rightarrow> nat \<Rightarrow> runtime_error option" where
  "run_limit settings n =
     (case st_max_registered settings of
        Some limit \<Rightarrow>
          (if n > limit then Some (ResourceLimitReached ''registered_tasks'' limit)
           else case st_capacity settings of
                  Some capacity \<Rightarrow>
                    (if n > capacity - st_ownership_slots settings
                     then Some (ResourceLimitReached ownership_resource capacity) else None)
                | None \<Rightarrow> None)
      | None \<Rightarrow>
          (case st_capacity settings of
             Some capacity \<Rightarrow>
               (if n > capacity - st_ownership_slots settings
                then Some (ResourceLimitReached ownership_resource capacity) else None)
           | None \<Rightarrow> None))"

definition run_preflight :: "nat \<Rightarrow> task_spec list \<Rightarrow> runtime_core \<Rightarrow> runtime_core" where
  "run_preflight c tasks s =
     (case run_limit (rc_settings s) (length tasks) of
        Some e \<Rightarrow> caller_return c False (Inl e) s
      | None \<Rightarrow> caller_goto c (if tasks = [] then RunEmpty else RunSelect tasks) s)"

text \<open>The look at the shutdown flag of an empty run, and the one after the tasks are owned.\<close>

definition run_checked :: "nat \<Rightarrow> run_next \<Rightarrow> runtime_core \<Rightarrow> runtime_core" where
  "run_checked c next s =
     (if core_shutting_down s then caller_goto c StartedWait (claim_commit c s)
      else caller_goto c (RunStart next) s)"

definition batch_items :: "task_id list \<Rightarrow> (name \<times> task_spec owned_task) list \<Rightarrow> add_batch_item list" where
  "batch_items ids owned = map2 (\<lambda>i (n, t). \<lparr>abi_id = i, abi_name = n, abi_owned = t\<rparr>) ids owned"

text \<open>\<open>start_static_run\<close> with the commit that follows it, and where the run goes on.\<close>

definition run_start ::
  "nat \<Rightarrow> run_next \<Rightarrow> nat option \<Rightarrow> (runtime_error, unit) result \<Rightarrow> task_id list \<Rightarrow> runtime_core \<Rightarrow> runtime_core" where
  "run_start c next current subscribers ids s =
     (case core_start current subscribers s of
        (Inl e, s) \<Rightarrow> caller_return c False (Inl e) s
      | (Inr _, s) \<Rightarrow>
          (let s = claim_commit c s
           in case next of
                NextDrive \<Rightarrow> caller_goto c RunDrive s
              | NextJoin trigger \<Rightarrow> caller_goto c (BeginShutdown trigger) s
              | NextBatch owned \<Rightarrow> caller_goto c (RunEnqueue (batch_items ids owned)) s))"

definition run_runtime :: "nat \<Rightarrow> task_spec list \<Rightarrow> nat option \<Rightarrow> runtime_core \<Rightarrow> runtime_core" where
  "run_runtime c tasks current s =
     (case current of
        None \<Rightarrow> caller_return c False (Inl TokioRuntimeUnavailable) s
      | Some _ \<Rightarrow> caller_goto c (RunReserve tasks) s)"

definition run_reserve ::
  "(nat \<Rightarrow> io_error) \<Rightarrow> nat \<Rightarrow> task_spec list \<Rightarrow> (drop_admission_error, nat list) result \<Rightarrow> runtime_core \<Rightarrow> runtime_core" where
  "run_reserve source c tasks answer s =
     (case answer of
        Inl e \<Rightarrow> caller_return c False (Inl (ownership_admission_error source e)) s
      | Inr reservations \<Rightarrow>
          caller_goto c (RunOwned (map2 (\<lambda>spec r. (ts_name spec, own_task spec r)) tasks reservations)) s)"

text \<open>The steps of \<open>enqueue_add_batch_wait\<close> inside the second selection.\<close>

definition run_enqueue :: "nat \<Rightarrow> add_batch_item list \<Rightarrow> runtime_core \<Rightarrow> runtime_core" where
  "run_enqueue c items s =
     caller_goto c (if core_shutting_down s then RunRefused ShuttingDown else RunCapacity items) s"

definition run_capacity :: "nat \<Rightarrow> add_batch_item list \<Rightarrow> runtime_core \<Rightarrow> runtime_core" where
  "run_capacity c items s =
     (case port_try_reserve (rc_port s) of
        Inl SendClosed \<Rightarrow> caller_goto c (RunRefused ShuttingDown) s
      | Inl SendFull \<Rightarrow> s
      | Inr p \<Rightarrow> caller_goto c (RunGate items) (s\<lparr>rc_port := p\<rparr>))"

definition run_gate :: "nat \<Rightarrow> add_batch_item list \<Rightarrow> runtime_core \<Rightarrow> runtime_core" where
  "run_gate c items s =
     (if \<not> command_admission (rc_port s)
      then caller_goto c (RunRefused ShuttingDown) (s\<lparr>rc_port := port_drop_permit (rc_port s)\<rparr>)
      else caller_goto c RunReply
             (s\<lparr>rc_events := rc_events s @ request_events (ReqAddBatch items),
                rc_port := port_send (rc_port s) (CmdAddBatch items)\<rparr>))"

text \<open>\<open>await_add_batch_reply\<close>: nothing means that the reply channel was lost.\<close>

definition run_replied :: "nat \<Rightarrow> (runtime_error, unit) result option \<Rightarrow> runtime_core \<Rightarrow> runtime_core" where
  "run_replied c answer s =
     (case answer of
        None \<Rightarrow> caller_goto c (RunRefused ShuttingDown) s
      | Some (Inl e) \<Rightarrow> caller_goto c (RunRefused e) s
      | Some (Inr _) \<Rightarrow> caller_goto c RunDrive s)"

text \<open>A refusal because of a started shutdown joins it; any other is returned.\<close>

definition run_refused :: "nat \<Rightarrow> runtime_error \<Rightarrow> runtime_core \<Rightarrow> runtime_core" where
  "run_refused c e s =
     (if e = ShuttingDown \<and> rc_shutdown_started s then caller_goto c StartedWait s
      else caller_return c False (Inl e) s)"

section \<open>The system\<close>

text \<open>Where a selection watches the start signal, and where a call can be dropped.\<close>

fun selects_shutdown :: "caller_pc \<Rightarrow> bool" where
  "selects_shutdown (RunSelect _) = True"
| "selects_shutdown (RunEnqueue _) = True"
| "selects_shutdown (RunCapacity _) = True"
| "selects_shutdown RunDrive = True"
| "selects_shutdown _ = False"

fun suspended :: "caller_pc \<Rightarrow> bool" where
  "suspended (OperationWait _) = True"
| "suspended StartedWait = True"
| "suspended (RunCapacity _) = True"
| "suspended RunReply = True"
| "suspended RunDrive = True"
| "suspended _ = False"

fun caller_over :: "caller_pc \<Rightarrow> bool" where
  "caller_over CallerIdle = True"
| "caller_over (CallerReturned _ _) = True"
| "caller_over CallerDropped = True"
| "caller_over _ = False"

fun owner_draining :: "owner_pc \<Rightarrow> bool" where
  "owner_draining (OwnerFence _) = True"
| "owner_draining OwnerCancelAll = True"
| "owner_draining (OwnerJoins _ _) = True"
| "owner_draining _ = False"

inductive rt_step :: "runtime_core \<Rightarrow> runtime_core \<Rightarrow> bool" where
  serve: "rc_public s \<Longrightarrow> rt_step s (snd (core_start current subscribers s))"
| shutdown: "rc_public s \<Longrightarrow> rc_started s \<Longrightarrow> rc_calls s c = CallerIdle
    \<Longrightarrow> rt_step s (caller_goto c (BeginShutdown TriggerRequested) s)"
| run: "rc_public s \<Longrightarrow> rc_calls s c = CallerIdle \<Longrightarrow> rt_step s (caller_goto c (RunAcquire tasks) s)"
| last_owner: "rc_public s \<Longrightarrow> (\<And>c. caller_over (rc_calls s c)) \<Longrightarrow> rt_step s (abandon (s\<lparr>rc_public := False\<rparr>))"
| lock: "rc_calls s c = BeginShutdown trigger \<Longrightarrow> rc_operation_lock s = None \<Longrightarrow> rt_step s (begin_lock c trigger current s)"
| install: "rc_calls s c = BeginInstall trigger owned \<Longrightarrow> rt_step s (begin_install c trigger owned s)"
| signal: "rc_calls s c = BeginSignal trigger owned k \<Longrightarrow> rt_step s (begin_signal c trigger owned k s)"
| spawn: "rc_calls s c = BeginSpawn trigger owned k \<Longrightarrow> rt_step s (begin_spawn c trigger owned k s)"
| wait: "rc_calls s c = OperationWait k \<Longrightarrow> rt_step s (operation_wait c k s)"
| wait_started: "rc_calls s c = StartedWait \<Longrightarrow> rc_shutdown_started s \<Longrightarrow> rc_operation_lock s = None
    \<Longrightarrow> rt_step s (wait_started_shutdown c s)"
| acquire: "rc_calls s c = RunAcquire tasks \<Longrightarrow> rt_step s (run_acquire c tasks s)"
| preflight: "rc_calls s c = RunPreflight tasks \<Longrightarrow> rt_step s (run_preflight c tasks s)"
| empty: "rc_calls s c = RunEmpty \<Longrightarrow> rt_step s (run_checked c NextDrive s)"
| select_started: "selects_shutdown (rc_calls s c) \<Longrightarrow> rc_shutdown_started s \<Longrightarrow> rt_step s (caller_goto c StartedWait s)"
| select_trigger: "rc_calls s c = RunSelect tasks \<Longrightarrow> rt_step s (caller_goto c (RunStart (NextJoin trigger)) s)"
| select_ready: "rc_calls s c = RunSelect tasks \<Longrightarrow> rt_step s (caller_goto c (RunRuntime tasks) s)"
| runtime: "rc_calls s c = RunRuntime tasks \<Longrightarrow> rt_step s (run_runtime c tasks current s)"
| reserve: "rc_calls s c = RunReserve tasks
    \<Longrightarrow> (\<And>rs. answer = Inr rs \<Longrightarrow> length rs = length tasks) \<Longrightarrow> rt_step s (run_reserve source c tasks answer s)"
| owned: "rc_calls s c = RunOwned owned \<Longrightarrow> rt_step s (run_checked c (NextBatch owned) s)"
| start: "rc_calls s c = RunStart next \<Longrightarrow> rt_step s (run_start c next current subscribers ids s)"
| batch_trigger: "rc_calls s c \<in> {RunEnqueue items, RunCapacity items, RunDrive}
    \<Longrightarrow> rt_step s (caller_goto c (BeginShutdown trigger) s)"
| enqueue: "rc_calls s c = RunEnqueue items \<Longrightarrow> rt_step s (run_enqueue c items s)"
| capacity: "rc_calls s c = RunCapacity items \<Longrightarrow> rt_step s (run_capacity c items s)"
| gate: "rc_calls s c = RunGate items \<Longrightarrow> rt_step s (run_gate c items s)"
| replied: "rc_calls s c = RunReply \<Longrightarrow> rt_step s (run_replied c reply s)"
| refused: "rc_calls s c = RunRefused e \<Longrightarrow> rt_step s (run_refused c e s)"
| drop: "suspended (rc_calls s c) \<Longrightarrow> rt_step s (caller_drop c s)"
| fence: "rc_owner s k = OwnerFence trigger \<Longrightarrow> rt_step s (owner_fence k trigger acknowledged s)"
| cancel_all: "rc_owner s k = OwnerCancelAll \<Longrightarrow> rt_step s (owner_cancel_all k stuck elapsed s)"
| joins: "rc_owner s k = OwnerJoins stuck remaining \<Longrightarrow> rt_step s (owner_joins k stuck pending s)"
| drain_panic: "owner_draining (rc_owner s k) \<Longrightarrow> rt_step s (owner_drain_panic k msg s)"
| enter: "rc_owner s k = OwnerEnter recovering outcome \<Longrightarrow> rt_step s (owner_enter k recovering outcome alive s)"
| phase: "rc_owner s k = OwnerTail recovering outcome (phase # rest) clean \<Longrightarrow> phase_can phase answer
    \<Longrightarrow> rt_step s (owner_phase k recovering outcome phase rest clean answer s)"
| tail_end: "rc_owner s k = OwnerTail recovering outcome [] clean \<Longrightarrow> rt_step s (owner_tail_end k recovering outcome clean s)"
| enter_panic: "rc_owner s k = OwnerEnter recovering outcome \<Longrightarrow> rt_step s (owner_panic k recovering msg s)"
| tail_panic: "rc_owner s k = OwnerTail recovering outcome phases clean \<Longrightarrow> rt_step s (owner_panic k recovering msg s)"
| publish: "rc_owner s k = OwnerPublish outcome \<Longrightarrow> rt_step s (owner_publish k outcome s)"
| lost: "rc_owner s k \<noteq> OwnerNone \<Longrightarrow> rt_step s (owner_goto k OwnerGone s)"
| take: "rt_step s (s\<lparr>rc_port := (rc_port s)\<lparr>port_queue := tl (port_queue (rc_port s))\<rparr>\<rparr>)"
| close_port: "rt_step s (s\<lparr>rc_port := (rc_port s)\<lparr>port_closed := True\<rparr>\<rparr>)"

definition rt_init :: "runtime_core \<Rightarrow> bool" where
  "rt_init s \<longleftrightarrow> (\<exists>settings capacity. s = core_new settings capacity)"

definition rt_reachable :: "runtime_core \<Rightarrow> bool" where
  "rt_reachable s \<longleftrightarrow> (\<exists>s0. rt_init s0 \<and> rt_step\<^sup>*\<^sup>* s0 s)"

end
