(* ===== verification/Runtime_Shutdown.thy ===== *)
theory Runtime_Shutdown
  imports Runtime_Lifecycle
begin

text \<open>
  The invariant of the runtime system of \<open>Runtime_Lifecycle\<close>: startup happens once, at most one static
  run holds the claim, at most one operation is installed and its starter spawns exactly one owner, the
  acts of the owner explain its outcome, and every result of a caller is explained by that outcome. The
  last section bounds the steps of the owner. The properties are in \<open>Runtime_Behaviour\<close>.
\<close>

section \<open>Invariant\<close>

named_theorems runtime_defs \<open>the steps of callers and owner\<close>

declare core_start_def [runtime_defs] abandon_def [runtime_defs] begin_lock_def [runtime_defs]
  begin_install_def [runtime_defs] begin_signal_def [runtime_defs] begin_spawn_def [runtime_defs]
  caller_return_def [runtime_defs] caller_drop_def [runtime_defs] release_claim_def [runtime_defs]
  operation_wait_def [runtime_defs] wait_started_shutdown_def [runtime_defs]
  owner_fence_def [runtime_defs] owner_cancel_all_def [runtime_defs] owner_joins_def [runtime_defs]
  owner_drain_panic_def [runtime_defs] owner_enter_def [runtime_defs] owner_phase_def [runtime_defs]
  owner_tail_end_def [runtime_defs] owner_panic_def [runtime_defs] owner_publish_def [runtime_defs]
  report_shutdown_panic_def [runtime_defs] rc_publish_def [runtime_defs]
  claim_acquire_def [runtime_defs] claim_commit_def [runtime_defs] run_acquire_def [runtime_defs]
  run_preflight_def [runtime_defs] run_checked_def [runtime_defs] run_start_def [runtime_defs]
  run_runtime_def [runtime_defs] run_reserve_def [runtime_defs] run_enqueue_def [runtime_defs]
  run_capacity_def [runtime_defs] run_gate_def [runtime_defs] run_replied_def [runtime_defs]
  run_refused_def [runtime_defs] core_shutting_down_def [runtime_defs]
  core_mark_shutting_down_def [runtime_defs] mark_shutting_down_def [runtime_defs]
  caller_goto_def [runtime_defs] owner_goto_def [runtime_defs] owner_note_def [runtime_defs] Let_def [runtime_defs]

subsection \<open>Startup and claims\<close>

definition start_ok :: "runtime_core \<Rightarrow> bool" where
  "start_ok s \<longleftrightarrow>
     (rc_started s \<longleftrightarrow> rc_startup_runtime s \<noteq> None)
     \<and> rc_launched s = (if rc_started s then launched_workers (rc_settings s) else [])"

text \<open>The claims a counter allows.\<close>

fun claims_at :: "caller_pc \<Rightarrow> run_claim set" where
  "claims_at CallerIdle = {NoClaim}"
| "claims_at (RunAcquire _) = {NoClaim}"
| "claims_at (RunPreflight _) = {ClaimHeld}"
| "claims_at RunEmpty = {ClaimHeld}"
| "claims_at (RunSelect _) = {ClaimHeld}"
| "claims_at (RunRuntime _) = {ClaimHeld}"
| "claims_at (RunReserve _) = {ClaimHeld}"
| "claims_at (RunOwned _) = {ClaimHeld}"
| "claims_at (RunStart _) = {ClaimHeld}"
| "claims_at (RunEnqueue _) = {ClaimCommitted}"
| "claims_at (RunCapacity _) = {ClaimCommitted}"
| "claims_at (RunGate _) = {ClaimCommitted}"
| "claims_at RunReply = {ClaimCommitted}"
| "claims_at (RunRefused _) = {ClaimCommitted}"
| "claims_at RunDrive = {ClaimCommitted}"
| "claims_at (CallerReturned _ _) = {NoClaim, ClaimCommitted}"
| "claims_at CallerDropped = {NoClaim, ClaimCommitted}"
| "claims_at _ = UNIV"

definition claimants :: "runtime_core \<Rightarrow> nat set" where
  "claimants s = {c. rc_claims s c \<noteq> NoClaim}"

definition claims_ok :: "runtime_core \<Rightarrow> bool" where
  "claims_ok s \<longleftrightarrow>
     (\<forall>c. rc_claims s c \<in> claims_at (rc_calls s c))
     \<and> (if rc_running s then \<exists>c. claimants s = {c} else claimants s = {})"

subsection \<open>Callers\<close>

text \<open>What a counter relies on and no step of anybody else takes away.\<close>

definition settled_as :: "runtime_core \<Rightarrow> nat \<Rightarrow> (runtime_error, unit) result \<Rightarrow> bool" where
  "settled_as s k r \<longleftrightarrow>
     (case rc_outcome s k of
        Some outcome \<Rightarrow> r = outcome_into_result outcome
      | None \<Rightarrow> rc_owner s k = OwnerGone \<and> r = Inl ShuttingDown)"

fun caller_ok :: "runtime_core \<Rightarrow> caller_pc \<Rightarrow> bool" where
  "caller_ok s (BeginShutdown _) \<longleftrightarrow> rc_started s"
| "caller_ok s (BeginInstall _ _) \<longleftrightarrow> core_shutting_down s"
| "caller_ok s (BeginSignal _ _ _) \<longleftrightarrow> core_shutting_down s"
| "caller_ok s (BeginSpawn _ _ _) \<longleftrightarrow> core_shutting_down s"
| "caller_ok s (OperationWait k) \<longleftrightarrow> rc_operation s = Some k"
| "caller_ok s StartedWait \<longleftrightarrow> core_shutting_down s"
| "caller_ok s (RunEnqueue _) \<longleftrightarrow> rc_started s"
| "caller_ok s (RunCapacity _) \<longleftrightarrow> rc_started s"
| "caller_ok s (RunGate _) \<longleftrightarrow> rc_started s"
| "caller_ok s RunReply \<longleftrightarrow> rc_started s"
| "caller_ok s (RunRefused _) \<longleftrightarrow> rc_started s"
| "caller_ok s RunDrive \<longleftrightarrow> rc_started s"
| "caller_ok s (CallerReturned joined r) \<longleftrightarrow>
     (if joined then \<exists>k. rc_operation s = Some k \<and> settled_as s k r else \<exists>e. r = Inl e)"
| "caller_ok s _ \<longleftrightarrow> True"

definition callers_ok :: "runtime_core \<Rightarrow> bool" where
  "callers_ok s \<longleftrightarrow> (\<forall>c. caller_ok s (rc_calls s c))"

text \<open>The steps only ever add to what callers rely on.\<close>

definition extends :: "runtime_core \<Rightarrow> runtime_core \<Rightarrow> bool" where
  "extends s t \<longleftrightarrow>
     (rc_started s \<longrightarrow> rc_started t) \<and> (core_shutting_down s \<longrightarrow> core_shutting_down t)
     \<and> (\<forall>k. rc_operation s = Some k \<longrightarrow> rc_operation t = Some k)
     \<and> (\<forall>k. rc_outcome s k \<noteq> None \<longrightarrow> rc_outcome t k = rc_outcome s k)
     \<and> (\<forall>k. rc_owner s k = OwnerGone \<longrightarrow> rc_owner t k = OwnerGone \<and> rc_outcome t k = rc_outcome s k)"

lemma caller_ok_extends: "extends s t \<Longrightarrow> caller_ok s pc \<Longrightarrow> caller_ok t pc"
proof (induction t pc rule: caller_ok.induct)
  case (13 t joined r)
  show ?case
  proof (cases joined)
    case True
    then obtain k where k: "rc_operation s = Some k" "settled_as s k r" using 13(2) by auto
    then have "rc_operation t = Some k" "settled_as t k r"
      using 13(1) by (auto simp: extends_def settled_as_def split: option.splits)
    with True show ?thesis by auto
  qed (use 13 in auto)
qed (auto simp: extends_def)

subsection \<open>Installing the operation\<close>

fun begun :: "caller_pc \<Rightarrow> bool" where
  "begun (BeginInstall _ _) = True"
| "begun (BeginSignal _ _ _) = True"
| "begun (BeginSpawn _ _ _) = True"
| "begun _ = False"

fun holds_lock :: "caller_pc \<Rightarrow> bool" where
  "holds_lock (BeginInstall _ _) = True"
| "holds_lock (BeginSignal _ _ _) = True"
| "holds_lock _ = False"

fun starter_at :: "runtime_core \<Rightarrow> nat \<Rightarrow> caller_pc \<Rightarrow> bool" where
  "starter_at s c (BeginInstall _ owned) \<longleftrightarrow> owned \<and> rc_operation_lock s = Some c \<and> rc_operation s = None"
| "starter_at s c (BeginSignal _ owned k) \<longleftrightarrow>
     owned \<and> rc_operation_lock s = Some c \<and> rc_operation s = Some k \<and> rc_owner s k = OwnerNone"
| "starter_at s c (BeginSpawn _ owned k) \<longleftrightarrow> owned \<and> rc_operation s = Some k \<and> rc_owner s k = OwnerNone"
| "starter_at s c _ \<longleftrightarrow> True"

definition starter_ok :: "runtime_core \<Rightarrow> bool" where
  "starter_ok s \<longleftrightarrow>
     (\<forall>c. starter_at s c (rc_calls s c))
     \<and> (\<forall>c. rc_operation_lock s = Some c \<longrightarrow> holds_lock (rc_calls s c))
     \<and> (\<forall>c d. begun (rc_calls s c) \<longrightarrow> begun (rc_calls s d) \<longrightarrow> c = d)"

definition coordinator_ok :: "runtime_core \<Rightarrow> bool" where
  "coordinator_ok s \<longleftrightarrow>
     (rc_operation s = None \<longleftrightarrow> rc_next_operation s = 0) \<and> (\<forall>k. rc_operation s = Some k \<longrightarrow> k = 0)
     \<and> rc_next_operation s \<le> 1
     \<and> (rc_operation_installed s \<longleftrightarrow> rc_operation s \<noteq> None)
     \<and> (rc_operation s \<noteq> None \<longrightarrow> core_shutting_down s)
     \<and> (rc_shutdown_started s \<longrightarrow> core_shutting_down s \<and> (rc_public s \<longrightarrow> rc_operation s \<noteq> None))
     \<and> (\<not> rc_public s \<longrightarrow> (\<forall>c. caller_over (rc_calls s c)))
     \<and> (\<forall>k. rc_operation s \<noteq> Some k \<longrightarrow> rc_owner s k = OwnerNone)
     \<and> rc_faults s = 0"

subsection \<open>The owner\<close>

definition phases_ended :: "(cleanup_phase \<times> phase_answer) list \<Rightarrow> owner_act list" where
  "phases_ended = map (\<lambda>(p, a). PhaseEnded p a)"

definition all_clean :: "(cleanup_phase \<times> phase_answer) list \<Rightarrow> bool" where
  "all_clean xs \<longleftrightarrow> (\<forall>(p, a) \<in> set xs. a = PhaseClean)"

text \<open>The acts of a drain that resolved to an outcome.\<close>

definition drained :: "duration \<Rightarrow> owner_act list \<Rightarrow> shutdown_outcome \<Rightarrow> bool" where
  "drained grace acts outcome \<longleftrightarrow>
     (\<exists>a b. acts = [Fenced True, CancelledAll a, JoinsWaited b]
        \<and> outcome = (if a @ b = [] then ShutdownCompleted else ShutdownGraceExceeded grace (a @ b)))
     \<or> (\<exists>x. acts = [Fenced x] \<and> ((\<exists>source. outcome = ShutdownSignalSetupFailed source) \<or> \<not> x \<and> outcome = ShutdownFailed))
     \<or> (\<exists>a. acts = a @ [DrainPanicked] \<and> outcome = ShutdownFailed)"

definition tail_acts :: "core_settings \<Rightarrow> owner_act list \<Rightarrow> owner_act list \<Rightarrow> cleanup_phase list \<Rightarrow> bool \<Rightarrow> bool" where
  "tail_acts settings pre acts rest clean \<longleftrightarrow>
     (\<exists>xs controller. acts = pre @ phases_ended xs \<and> map fst xs @ rest = cleanup_phases controller
        \<and> (controller \<longrightarrow> st_controller settings) \<and> (clean \<longleftrightarrow> all_clean xs))"

definition published_acts :: "core_settings \<Rightarrow> owner_act list \<Rightarrow> shutdown_outcome \<Rightarrow> bool" where
  "published_acts settings acts outcome \<longleftrightarrow>
     (\<exists>pre clean. tail_acts settings pre acts [] clean
        \<and> ((\<exists>drain. drained (st_grace settings) pre drain \<and> outcome = (if clean then drain else ShutdownFailed))
           \<or> (\<exists>a. pre = a @ [OwnerPanicked]) \<and> outcome = ShutdownFailed))"

fun owner_state :: "core_settings \<Rightarrow> owner_act list \<Rightarrow> shutdown_outcome option \<Rightarrow> owner_pc \<Rightarrow> bool" where
  "owner_state st acts out OwnerNone \<longleftrightarrow> acts = [] \<and> out = None"
| "owner_state st acts out (OwnerFence _) \<longleftrightarrow> acts = [] \<and> out = None"
| "owner_state st acts out OwnerCancelAll \<longleftrightarrow> acts = [Fenced True] \<and> out = None"
| "owner_state st acts out (OwnerJoins stuck remaining) \<longleftrightarrow>
     acts = [Fenced True, CancelledAll stuck] \<and> remaining \<le> st_grace st \<and> out = None"
| "owner_state st acts out (OwnerEnter recovering outcome) \<longleftrightarrow>
     (if recovering then \<exists>a. acts = a @ [OwnerPanicked] else drained (st_grace st) acts outcome) \<and> out = None"
| "owner_state st acts out (OwnerTail recovering outcome rest clean) \<longleftrightarrow>
     (\<exists>pre. tail_acts st pre acts rest clean
        \<and> (if recovering then \<exists>a. pre = a @ [OwnerPanicked] else drained (st_grace st) pre outcome)) \<and> out = None"
| "owner_state st acts out (OwnerPublish outcome) \<longleftrightarrow> published_acts st acts outcome \<and> out = None"
| "owner_state st acts out OwnerGone \<longleftrightarrow> (\<forall>outcome. out = Some outcome \<longrightarrow> published_acts st acts outcome)"

definition owner_acts_ok :: "runtime_core \<Rightarrow> bool" where
  "owner_acts_ok s \<longleftrightarrow> (\<forall>k. owner_state (rc_settings s) (rc_acts s k) (rc_outcome s k) (rc_owner s k))"

definition rt_inv :: "runtime_core \<Rightarrow> bool" where
  "rt_inv s \<longleftrightarrow> start_ok s \<and> claims_ok s \<and> callers_ok s \<and> starter_ok s \<and> coordinator_ok s \<and> owner_acts_ok s"

lemma rt_inv_parts:
  assumes "rt_inv s"
  shows "start_ok s" "claims_ok s" "callers_ok s" "starter_ok s" "coordinator_ok s" "owner_acts_ok s"
  using assms by (simp_all add: rt_inv_def)

lemma rt_inv_start: "rt_init s \<Longrightarrow> rt_inv s"
  by (auto simp: rt_init_def core_new_def rt_inv_def start_ok_def claims_ok_def claimants_def callers_ok_def
      starter_ok_def coordinator_ok_def owner_acts_ok_def)

section \<open>Preservation\<close>

lemma port_flags [simp]:
  "port_shutting_down (port_drop_permit p) = port_shutting_down p"
  "port_shutting_down (port_send p cmd) = port_shutting_down p"
  by (simp_all add: port_drop_permit_def port_send_def)

lemma port_reserve_flag: "port_try_reserve p = Inr q \<Longrightarrow> port_shutting_down q = port_shutting_down p"
  by (auto simp: port_try_reserve_def split: if_splits)

lemmas runtime_splits = option.splits sum.splits unit.splits prod.splits shutdown_trigger.splits
  phase_answer.splits run_next.splits try_send_error.splits

lemma started_step: "start_ok s \<Longrightarrow> rt_step s t \<Longrightarrow> start_ok t \<and> rc_settings t = rc_settings s"
  by (erule rt_step.cases)
    (auto simp: start_ok_def runtime_defs dest: port_reserve_flag split: runtime_splits)

lemma extends_step:
  assumes inv: "rt_inv s" and step: "rt_step s t"
  shows "extends s t"
proof -
  have own: "owner_state (rc_settings s) (rc_acts s k) (rc_outcome s k) (rc_owner s k)" for k
    using rt_inv_parts(6)[OF inv] by (simp add: owner_acts_ok_def)
  have st: "starter_at s c (rc_calls s c)" for c using rt_inv_parts(4)[OF inv] by (simp add: starter_ok_def)
  show ?thesis
    using step
  proof cases
    case (spawn c trigger owned k)
    with st[of c] own[of k] show ?thesis by (auto simp: extends_def runtime_defs)
  next
    case (install c trigger owned)
    with st[of c] show ?thesis by (auto simp: extends_def runtime_defs)
  next
    case (publish k outcome)
    with own[of k] show ?thesis by (auto simp: extends_def runtime_defs)
  qed (auto simp: extends_def runtime_defs dest: port_reserve_flag split: runtime_splits)
qed

lemma extends_caller_goto [simp]: "extends s (caller_goto c pc u) = extends s u" "extends (caller_goto c pc u) s = extends u s"
  by (simp_all add: extends_def caller_goto_def core_shutting_down_def)

lemma extends_claims [simp]:
  "extends s (release_claim c u) = extends s u" "extends s (claim_commit c u) = extends s u"
  "extends (release_claim c u) s = extends u s" "extends (claim_commit c u) s = extends u s"
  by (simp_all add: extends_def release_claim_def claim_commit_def core_shutting_down_def)

lemma extends_refl [simp]: "extends s s"
  by (simp add: extends_def)

lemma callers_frame: "callers_ok s \<Longrightarrow> extends s t \<Longrightarrow> rc_calls t = rc_calls s \<Longrightarrow> callers_ok t"
  using caller_ok_extends by (auto simp: callers_ok_def)

text \<open>A caller moves to a counter whose condition holds in the new state.\<close>

lemma callers_goto:
  assumes "callers_ok s" "extends s u" "rc_calls u = rc_calls s" "caller_ok u pc"
  shows "callers_ok (caller_goto c pc u)"
proof -
  have "caller_ok (caller_goto c pc u) q" if "caller_ok u q" for q
    using caller_ok_extends[of u "caller_goto c pc u" q] that by simp
  moreover have "caller_ok u (rc_calls u d)" for d
    using callers_frame[OF assms(1-3)] by (simp add: callers_ok_def)
  ultimately show ?thesis using assms(4) by (simp add: callers_ok_def caller_goto_def)
qed

lemma claim_calls [simp]:
  "rc_calls (release_claim c s) = rc_calls s" "rc_calls (claim_commit c s) = rc_calls s"
  by (simp_all add: release_claim_def claim_commit_def)

lemma claim_shutting_down [simp]:
  "core_shutting_down (release_claim c s) = core_shutting_down s" "core_shutting_down (claim_commit c s) = core_shutting_down s"
  by (simp_all add: core_shutting_down_def release_claim_def claim_commit_def)

lemma claim_caller_ok [simp]:
  "caller_ok (release_claim c s) pc = caller_ok s pc" "caller_ok (claim_commit c s) pc = caller_ok s pc"
  by (rule iffI; erule caller_ok_extends[rotated]; simp)+

lemma callers_return:
  "callers_ok s \<Longrightarrow> caller_ok s (CallerReturned joined r) \<Longrightarrow> callers_ok (caller_return c joined r s)"
  unfolding caller_return_def by (rule callers_goto) (simp_all only: extends_claims extends_refl claim_calls claim_caller_ok)

lemma core_start_extends:
  "core_start current subscribers s = (r, u) \<Longrightarrow>
     extends s u \<and> rc_calls u = rc_calls s \<and> (r = Inr () \<longrightarrow> rc_started u)"
  by (auto simp: core_start_def extends_def core_shutting_down_def split: runtime_splits if_splits)

lemma callers_step:
  assumes inv: "rt_inv s" and step: "rt_step s t"
  shows "callers_ok t"
proof -
  note ok = rt_inv_parts(3)[OF inv]
  have old: "caller_ok s (rc_calls s c)" for c using ok by (simp add: callers_ok_def)
  have signalled: "rc_shutdown_started s \<Longrightarrow> core_shutting_down s"
    using rt_inv_parts(5)[OF inv] by (simp add: coordinator_ok_def)
  have go: "callers_ok (caller_goto c pc s)" if "caller_ok s pc" for c pc
    using callers_goto[OF ok _ _ that] by simp
  note simple = go callers_return[OF ok] signalled
  show ?thesis
    using step
  proof cases
    case (lock c trigger current)
    then show ?thesis
    proof (cases "rc_operation s")
      case None
      show ?thesis unfolding lock(1) begin_lock_def Let_def None option.case
        by (intro callers_goto[OF ok]) (simp_all add: extends_def runtime_defs)
    qed (simp add: begin_lock_def go)
  next
    case (install c trigger owned)
    have "starter_at s c (BeginInstall trigger owned)" using rt_inv_parts(4)[OF inv] install(2) by (metis starter_ok_def)
    then have "rc_operation s = None" "core_shutting_down s" using old[of c] install(2) by simp_all
    then show ?thesis unfolding install begin_install_def Let_def
      by (intro callers_goto[OF ok]) (simp_all add: extends_def core_shutting_down_def)
  next
    case (signal c trigger owned k)
    then show ?thesis using old[of c] unfolding signal begin_signal_def Let_def
      by (intro callers_goto[OF ok]) (simp_all add: extends_def core_shutting_down_def rc_publish_def)
  next
    case (spawn c trigger owned k)
    have "starter_at s c (BeginSpawn trigger owned k)" using rt_inv_parts(4)[OF inv] spawn(2) by (metis starter_ok_def)
    moreover have "owner_state (rc_settings s) (rc_acts s k) (rc_outcome s k) (rc_owner s k)"
      using rt_inv_parts(6)[OF inv] by (simp add: owner_acts_ok_def)
    ultimately have "rc_operation s = Some k" "rc_owner s k = OwnerNone" "rc_outcome s k = None" by simp_all
    then show ?thesis unfolding spawn begin_spawn_def
      by (intro callers_goto[OF ok]) (simp_all add: extends_def core_shutting_down_def owner_goto_def)
  next
    case (wait c k)
    then show ?thesis
      using ok old[of c] by (auto simp: operation_wait_def settled_as_def split: option.split intro!: callers_return)
  next
    case (wait_started c)
    then show ?thesis
      using go callers_frame[OF ok, of "s\<lparr>rc_faults := rc_faults s + 1\<rparr>"]
      by (simp add: wait_started_shutdown_def extends_def core_shutting_down_def split: option.split)
  next
    case (acquire c tasks)
    have "callers_ok (caller_goto c pc u)" if "claim_acquire c s = Some u" "pc = RunPreflight tasks" for pc u
      using that by (intro callers_goto[OF ok]) (auto simp: claim_acquire_def extends_def core_shutting_down_def split: if_splits)
    then show ?thesis using acquire by (simp add: run_acquire_def simple split: option.split)
  next
    case (start c following current subscribers ids)
    obtain r u where u: "core_start current subscribers s = (r, u)" by fastforce
    note ext = core_start_extends[OF u]
    then have "callers_ok u" using callers_frame[OF ok] by simp
    moreover have "callers_ok (caller_goto c pc (claim_commit c u))" if "caller_ok u pc" for pc
      using ext that by (intro callers_goto[OF ok]) simp_all
    ultimately show ?thesis
      using start u ext by (auto simp: run_start_def Let_def callers_return split: sum.split unit.split run_next.split)
  next
    case (capacity c items)
    have "callers_ok (caller_goto c (RunGate items) (s\<lparr>rc_port := p\<rparr>))" if "port_try_reserve (rc_port s) = Inr p" for p
      using that old[of c] capacity(2)
      by (intro callers_goto[OF ok]) (auto simp: extends_def core_shutting_down_def dest: port_reserve_flag)
    then show ?thesis using capacity ok old[of c] by (simp add: run_capacity_def simple split: sum.split try_send_error.split)
  next
    case (gate c items)
    then show ?thesis using old[of c] unfolding gate run_gate_def
      by (auto intro!: callers_goto[OF ok] simp: extends_def core_shutting_down_def)
  next
    case (drop c)
    then show ?thesis unfolding drop caller_drop_def by (intro callers_goto[OF ok]) simp_all
  next
    case (empty c)
    then show ?thesis using go callers_goto[OF ok, of "claim_commit c s" StartedWait] by (simp add: run_checked_def)
  next
    case (owned c owned)
    then show ?thesis using go callers_goto[OF ok, of "claim_commit c s" StartedWait] by (simp add: run_checked_def)
  next
    case (select_started c)
    then show ?thesis using simple by simp
  next
    case (batch_trigger c items trigger)
    then show ?thesis using go[of "BeginShutdown trigger" c] old[of c] by auto
  next
    case (refused c e)
    then show ?thesis using simple by (simp add: run_refused_def)
  next
    case (preflight c tasks)
    then show ?thesis using simple by (simp add: run_preflight_def split: option.split)
  next
    case (runtime c tasks current)
    then show ?thesis using simple by (simp add: run_runtime_def split: option.split)
  next
    case (reserve c tasks answer source)
    then show ?thesis using simple by (simp add: run_reserve_def split: sum.split)
  next
    case (enqueue c items)
    then show ?thesis using go[of "RunRefused ShuttingDown" c] go[of "RunCapacity items" c] old[of c] by (simp add: run_enqueue_def)
  next
    case (replied c reply)
    then show ?thesis using go[of _ c] old[of c] by (simp add: run_replied_def split: option.split sum.split unit.split)
  next
    case (shutdown c)
    then show ?thesis using go by simp
  next
    case (run c tasks)
    then show ?thesis using go by simp
  next
    case (select_trigger c tasks trigger)
    then show ?thesis using go by simp
  next
    case (select_ready c tasks)
    then show ?thesis using go by simp
  next
    case (serve current subscribers)
    then show ?thesis
      using core_start_extends[of current subscribers s] callers_frame[OF ok] by (cases "core_start current subscribers s") simp
  qed (rule callers_frame[OF ok extends_step[OF inv step]]; simp add: runtime_defs split: shutdown_trigger.split phase_answer.split)+
qed

lemma claims_frame:
  assumes "claims_ok s" "rc_running t = rc_running s" "rc_claims t = rc_claims s"
    and "\<And>c. rc_calls t c \<noteq> rc_calls s c \<Longrightarrow> claims_at (rc_calls s c) \<subseteq> claims_at (rc_calls t c)"
  shows "claims_ok t"
proof -
  have "claims_at (rc_calls s c) \<subseteq> claims_at (rc_calls t c)" for c
    using assms(4)[of c] by (cases "rc_calls t c = rc_calls s c") simp_all
  then show ?thesis using assms(1-3) by (auto simp: claims_ok_def claimants_def)
qed

lemma claims_goto:
  "claims_ok s \<Longrightarrow> claims_at (rc_calls s c) \<subseteq> claims_at pc \<Longrightarrow> claims_ok (caller_goto c pc s)"
  by (rule claims_frame) (auto simp: caller_goto_def split: if_splits)

lemma claims_released:
  assumes ok: "claims_ok s" and pc: "claims_at pc = {NoClaim, ClaimCommitted}"
  shows "claims_ok (caller_goto c pc (release_claim c s))"
proof (cases "rc_claims s c = ClaimHeld")
  case True
  then have "c \<in> claimants s" by (simp add: claimants_def)
  then have "claimants s = {c}" using ok by (auto simp: claims_ok_def split: if_splits)
  then have "claimants (caller_goto c pc (release_claim c s)) = {}"
    using True by (auto simp: claimants_def release_claim_def caller_goto_def set_eq_iff)
  then show ?thesis using ok pc True by (auto simp: claims_ok_def release_claim_def caller_goto_def)
next
  case False
  then have "rc_claims s c \<in> {NoClaim, ClaimCommitted}" by (cases "rc_claims s c") simp_all
  moreover have "claimants (caller_goto c pc (release_claim c s)) = claimants s"
    using False by (simp add: claimants_def release_claim_def caller_goto_def)
  ultimately show ?thesis using ok pc False by (simp add: claims_ok_def release_claim_def caller_goto_def)
qed

lemma claims_return: "claims_ok s \<Longrightarrow> claims_ok (caller_return c joined r s)"
  by (simp add: caller_return_def claims_released)

lemma claims_commit:
  assumes ok: "claims_ok s" and "rc_claims s c = ClaimHeld" "ClaimCommitted \<in> claims_at pc"
  shows "claims_ok (caller_goto c pc (claim_commit c s))"
proof -
  have "claimants (caller_goto c pc (claim_commit c s)) = claimants s"
    using assms(2) by (auto simp: claimants_def claim_commit_def caller_goto_def)
  then show ?thesis using ok assms(3) by (auto simp: claims_ok_def claim_commit_def caller_goto_def)
qed

lemma claims_acquired:
  assumes ok: "claims_ok s" and "claim_acquire c s = Some u" "ClaimHeld \<in> claims_at pc"
  shows "claims_ok (caller_goto c pc u)"
proof -
  have u: "\<not> rc_running s" "u = s\<lparr>rc_running := True, rc_claims := (rc_claims s)(c := ClaimHeld)\<rparr>"
    using assms(2) by (simp_all add: claim_acquire_def split: if_splits)
  then have "claimants s = {}" using ok by (simp add: claims_ok_def)
  then have "claimants (caller_goto c pc u) = {c}" by (auto simp: claimants_def caller_goto_def u)
  then show ?thesis using ok assms(3) by (auto simp: claims_ok_def caller_goto_def u)
qed

lemma claims_core_start:
  assumes "claims_ok s" "core_start current subscribers s = (r, u)"
  shows "claims_ok u" "rc_claims u = rc_claims s" "rc_calls u = rc_calls s"
proof -
  show same: "rc_claims u = rc_claims s" "rc_calls u = rc_calls s"
    using assms(2) by (auto simp: core_start_def split: runtime_splits if_splits)
  have "rc_running u = rc_running s" using assms(2) by (auto simp: core_start_def split: runtime_splits if_splits)
  then show "claims_ok u" using claims_frame[OF assms(1), of u] same by simp
qed

lemmas claims_moves = claims_goto claims_return claims_commit claims_acquired

lemma claims_step:
  assumes ok: "claims_ok s" and step: "rt_step s t"
  shows "claims_ok t"
proof -
  have claim: "rc_claims s c \<in> claims_at (rc_calls s c)" for c using ok by (simp add: claims_ok_def)
  show ?thesis
    using step
  proof cases
    case (start c following current subscribers ids)
    obtain r u where u: "core_start current subscribers s = (r, u)" by fastforce
    have "rc_claims s c = ClaimHeld" using claim[of c] start by simp
    then show ?thesis
      using start u claims_core_start[OF ok u]
      by (simp add: run_start_def Let_def claims_moves split: sum.split unit.split run_next.split)
  next
    case (serve current subscribers)
    then show ?thesis
      using claims_core_start[OF ok, of current subscribers] by (cases "core_start current subscribers s") simp
  next
    case (acquire c tasks)
    then show ?thesis using ok by (simp add: run_acquire_def claims_moves split: option.split)
  next
    case (preflight c tasks)
    then show ?thesis using ok by (simp add: run_preflight_def claims_moves split: option.split)
  next
    case (empty c)
    then show ?thesis using ok claim[of c] by (simp add: run_checked_def claims_moves)
  next
    case (owned c owned)
    then show ?thesis using ok claim[of c] by (simp add: run_checked_def claims_moves)
  next
    case (runtime c tasks current)
    then show ?thesis using ok by (simp add: run_runtime_def claims_moves split: option.split)
  next
    case (reserve c tasks answer source)
    then show ?thesis using ok by (simp add: run_reserve_def claims_moves split: sum.split)
  next
    case (refused c e)
    then show ?thesis using ok by (simp add: run_refused_def claims_moves)
  next
    case (wait c k)
    then show ?thesis using ok by (simp add: operation_wait_def claims_moves split: option.split)
  next
    case (drop c)
    then show ?thesis using ok by (simp add: caller_drop_def claims_released)
  qed (rule claims_frame[OF ok]; auto simp: runtime_defs split: runtime_splits if_splits)+
qed

subsection \<open>Starter and coordinator\<close>

lemma not_begun [simp]:
  "selects_shutdown pc \<Longrightarrow> \<not> begun pc" "suspended pc \<Longrightarrow> \<not> begun pc" "caller_over pc \<Longrightarrow> \<not> begun pc"
  by (cases pc; simp)+

lemma holds_lock_begun: "holds_lock pc \<Longrightarrow> begun pc \<and> (\<forall>trigger owned k. pc \<noteq> BeginSpawn trigger owned k)"
  by (cases pc) simp_all

lemma starter_frame:
  assumes ok: "starter_ok s" and "rc_operation_lock t = rc_operation_lock s" "rc_operation t = rc_operation s"
    and owner: "\<And>k. rc_owner s k = OwnerNone \<Longrightarrow> rc_owner t k = OwnerNone"
    and calls: "\<And>c. rc_calls t c \<noteq> rc_calls s c \<Longrightarrow> \<not> begun (rc_calls s c) \<and> \<not> begun (rc_calls t c)"
  shows "starter_ok t"
proof -
  have same: "begun (rc_calls t c) = begun (rc_calls s c)" "begun (rc_calls s c) \<Longrightarrow> rc_calls t c = rc_calls s c" for c
    using calls[of c] by (cases "rc_calls t c = rc_calls s c"; simp)+
  have at: "starter_at t c (rc_calls t c)" for c
  proof (cases "begun (rc_calls s c)")
    case True
    have "starter_at s c (rc_calls s c)" using ok by (simp add: starter_ok_def)
    then show ?thesis using same(2)[OF True] assms(2,3) owner by (cases "rc_calls s c") auto
  next
    case False
    then have "\<not> begun (rc_calls t c)" using same by simp
    then show ?thesis by (cases "rc_calls t c") simp_all
  qed
  have "holds_lock (rc_calls t c)" if "rc_operation_lock t = Some c" for c
  proof -
    have "holds_lock (rc_calls s c)" using ok that assms(2) by (simp add: starter_ok_def)
    moreover from this have "begun (rc_calls s c)" by (cases "rc_calls s c") simp_all
    ultimately show ?thesis using same(2) by simp
  qed
  with at show ?thesis using ok same(1) by (auto simp: starter_ok_def)
qed

lemma starter_goto:
  "starter_ok s \<Longrightarrow> \<not> begun (rc_calls s c) \<Longrightarrow> \<not> begun pc \<Longrightarrow> starter_ok (caller_goto c pc s)"
  by (rule starter_frame) (auto simp: caller_goto_def split: if_splits)

lemma starter_claims [simp]: "starter_ok (release_claim c s) = starter_ok s" "starter_ok (claim_commit c s) = starter_ok s"
proof -
  have "starter_at (release_claim c s) d pc = starter_at s d pc" "starter_at (claim_commit c s) d pc = starter_at s d pc" for d pc
    by (cases pc; simp add: release_claim_def claim_commit_def)+
  moreover have "rc_operation_lock (release_claim c s) = rc_operation_lock s" by (simp add: release_claim_def)
  ultimately show "starter_ok (release_claim c s) = starter_ok s" "starter_ok (claim_commit c s) = starter_ok s"
    by (simp_all add: starter_ok_def) (simp add: claim_commit_def)
qed

lemma starter_return: "starter_ok s \<Longrightarrow> \<not> begun (rc_calls s c) \<Longrightarrow> starter_ok (caller_return c joined r s)"
  by (simp add: caller_return_def starter_goto)

lemma starter_step:
  assumes inv: "rt_inv s" and step: "rt_step s t"
  shows "starter_ok t"
proof -
  note ok = rt_inv_parts(4)[OF inv]
  have at: "starter_at s c (rc_calls s c)" and lck: "rc_operation_lock s = Some c \<Longrightarrow> holds_lock (rc_calls s c)"
    and uniq: "begun (rc_calls s c) \<Longrightarrow> begun (rc_calls s d) \<Longrightarrow> c = d" for c d
    using ok by (auto simp: starter_ok_def)
  show ?thesis
    using step
  proof cases
    case (lock c trigger current)
    show ?thesis
    proof (cases "rc_operation s")
      case None
      have none: "\<not> begun (rc_calls s d)" for d
        using at[of d] lock(3) None by (cases "rc_calls s d") simp_all
      have "rc_started s" using rt_inv_parts(3)[OF inv] lock(2) by (metis caller_ok.simps(1) callers_ok_def)
      then have "rc_startup_runtime s \<noteq> None" using rt_inv_parts(1)[OF inv] by (simp add: start_ok_def)
      then have t: "rc_calls t = (rc_calls s)(c := BeginInstall trigger True)" "rc_operation_lock t = Some c" "rc_operation t = None"
        using lock(1) None by (auto simp: begin_lock_def Let_def caller_goto_def core_mark_shutting_down_def)
      have "starter_at t d (rc_calls t d)" for d
        using none[of d] t by (cases "d = c"; cases "rc_calls s d") simp_all
      then show ?thesis using none t by (auto simp: starter_ok_def split: if_splits)
    next
      case (Some k)
      then show ?thesis using lock by (intro starter_frame[OF ok]) (auto simp: begin_lock_def caller_goto_def split: if_splits)
    qed
  next
    case (install c trigger owned)
    have others: "\<not> begun (rc_calls s d)" if "d \<noteq> c" for d using uniq[of c d] install(2) that by auto
    have now: "owned" "rc_operation_lock s = Some c" "rc_operation s = None" using at[of c] install(2) by simp_all
    then have "rc_next_operation s = 0" using rt_inv_parts(5)[OF inv] by (simp add: coordinator_ok_def split: if_splits)
    moreover have "rc_owner s 0 = OwnerNone" using rt_inv_parts(5)[OF inv] now(3) by (simp add: coordinator_ok_def)
    ultimately have t: "rc_calls t = (rc_calls s)(c := BeginSignal trigger owned 0)" "rc_operation_lock t = Some c"
      "rc_operation t = Some 0" "rc_owner t 0 = OwnerNone"
      using install(1) now by (auto simp: begin_install_def Let_def caller_goto_def)
    have "starter_at t d (rc_calls t d)" for d
      using others[of d] t now(1) by (cases "d = c"; cases "rc_calls s d") simp_all
    then show ?thesis using others t by (auto simp: starter_ok_def split: if_splits)
  next
    case (signal c trigger owned k)
    have others: "\<not> begun (rc_calls s d)" if "d \<noteq> c" for d using uniq[of c d] signal(2) that by auto
    have now: "owned" "rc_operation s = Some k" "rc_owner s k = OwnerNone" using at[of c] signal(2) by simp_all
    then have t: "rc_calls t = (rc_calls s)(c := BeginSpawn trigger owned k)" "rc_operation_lock t = None"
      "rc_operation t = Some k" "rc_owner t k = OwnerNone"
      using signal(1) by (auto simp: begin_signal_def Let_def caller_goto_def rc_publish_def)
    have "starter_at t d (rc_calls t d)" for d
      using others[of d] t now(1) by (cases "d = c"; cases "rc_calls s d") simp_all
    then show ?thesis using others t by (auto simp: starter_ok_def split: if_splits)
  next
    case (spawn c trigger owned k)
    have others: "\<not> begun (rc_calls s d)" if "d \<noteq> c" for d using uniq[of c d] spawn(2) that by auto
    have "rc_operation_lock s \<noteq> Some d" for d
      using lck[of d] others[of d] spawn(2) by (cases "d = c") (auto dest: holds_lock_begun)
    then have "rc_operation_lock s = None" by (metis not_None_eq)
    then have t: "rc_calls t = (rc_calls s)(c := OperationWait k)" "rc_operation_lock t = None"
      using spawn(1) by (auto simp: begin_spawn_def caller_goto_def owner_goto_def)
    have "starter_at t d (rc_calls t d)" for d
      using others[of d] t by (cases "d = c"; cases "rc_calls s d") simp_all
    then show ?thesis using others t by (auto simp: starter_ok_def split: if_splits)
  next
    case (start c following current subscribers ids)
    obtain r u where u: "core_start current subscribers s = (r, u)" by fastforce
    have "starter_ok u" "rc_calls u = rc_calls s"
      using starter_frame[OF ok, of u] u by (auto simp: core_start_def split: runtime_splits if_splits)
    then show ?thesis
      using start u by (simp add: run_start_def Let_def starter_goto starter_return split: sum.split unit.split run_next.split)
  next
    case (wait c k)
    then show ?thesis using ok by (simp add: operation_wait_def starter_return split: option.split)
  next
    case (drop c)
    then show ?thesis using ok by (simp add: caller_drop_def starter_goto)
  next
    case (acquire c tasks)
    have "starter_ok u" "rc_calls u = rc_calls s" if "claim_acquire c s = Some u" for u
      using starter_frame[OF ok, of u] that by (auto simp: claim_acquire_def split: if_splits)
    then show ?thesis using acquire ok by (simp add: run_acquire_def starter_goto starter_return split: option.split)
  next
    case (preflight c tasks)
    then show ?thesis using ok by (simp add: run_preflight_def starter_goto starter_return split: option.split)
  next
    case (empty c)
    then show ?thesis using ok by (simp add: run_checked_def starter_goto)
  next
    case (owned c owned)
    then show ?thesis using ok by (simp add: run_checked_def starter_goto)
  next
    case (select_started c)
    then show ?thesis using ok by (simp add: starter_goto)
  next
    case (runtime c tasks current)
    then show ?thesis using ok by (simp add: run_runtime_def starter_goto starter_return split: option.split)
  next
    case (reserve c tasks answer source)
    then show ?thesis using ok by (simp add: run_reserve_def starter_goto starter_return split: sum.split)
  next
    case (refused c e)
    then show ?thesis using ok by (simp add: run_refused_def starter_goto starter_return)
  next
    case (serve current subscribers)
    then show ?thesis by (intro starter_frame[OF ok]) (auto simp: core_start_def split: runtime_splits if_splits)
  next
    case (batch_trigger c items trigger)
    then show ?thesis using ok by (auto simp: starter_goto)
  qed (rule starter_frame[OF ok]; auto simp: runtime_defs split: option.splits sum.splits unit.splits
      shutdown_trigger.splits phase_answer.splits try_send_error.splits if_splits)+
qed

lemma over_not [simp]: "caller_over pc \<Longrightarrow> \<not> suspended pc" "caller_over pc \<Longrightarrow> \<not> selects_shutdown pc"
  by (cases pc; simp)+

text \<open>Once the last public owner is gone nobody calls.\<close>

lemma quiet_step:
  assumes over: "\<And>c. caller_over (rc_calls s c)" and "\<not> rc_public s" and step: "rt_step s t"
  shows "rc_calls t = rc_calls s"
proof -
  have pc: "rc_calls s c = pc \<Longrightarrow> caller_over pc" for c pc using over[of c] by simp
  show ?thesis
    using step assms(2)
    by cases (use over in \<open>auto simp: runtime_defs split: shutdown_trigger.splits phase_answer.splits dest!: pc\<close>)
qed

lemma coordinator_frame:
  assumes ok: "coordinator_ok s"
    and "rc_next_operation t = rc_next_operation s" "rc_operation t = rc_operation s"
    and "rc_operation_installed t = rc_operation_installed s" "rc_shutdown_started t = rc_shutdown_started s"
    and "rc_public t = rc_public s" "rc_faults t = rc_faults s"
    and "core_shutting_down s \<Longrightarrow> core_shutting_down t" "\<not> rc_public s \<Longrightarrow> rc_calls t = rc_calls s"
    and owner: "\<And>k. rc_owner s k = OwnerNone \<Longrightarrow> rc_owner t k = OwnerNone"
  shows "coordinator_ok t"
  using ok assms(8-10) unfolding coordinator_ok_def assms(2-7) by auto

lemma coordinator_step:
  assumes inv: "rt_inv s" and step: "rt_step s t"
  shows "coordinator_ok t"
proof -
  note ok = rt_inv_parts(5)[OF inv]
  have quiet: "\<not> rc_public s \<Longrightarrow> rc_calls t = rc_calls s"
    using ok quiet_step[OF _ _ step] by (simp add: coordinator_ok_def)
  have shut: "core_shutting_down s \<Longrightarrow> core_shutting_down t"
    using extends_step[OF inv step] by (simp add: extends_def)
  have public: "rc_public s" if "\<not> caller_over (rc_calls s c)" for c
    using ok that by (auto simp: coordinator_ok_def)
  have at: "starter_at s c (rc_calls s c)" for c using rt_inv_parts(4)[OF inv] by (simp add: starter_ok_def)
  have starting: "coordinator_ok u \<and> rc_public u = rc_public s" if "core_start current subscribers s = (r, u)" for current subscribers r u
    using that ok rt_inv_parts(1)[OF inv]
    by (auto simp: core_start_def coordinator_ok_def start_ok_def core_shutting_down_def split: runtime_splits if_splits)
  show ?thesis
    using step
  proof cases
    case (install c trigger owned)
    have "rc_operation s = None" "rc_public s" using at[of c] public[of c] install(2) by simp_all
    moreover have "core_shutting_down s" using rt_inv_parts(3)[OF inv] install(2) by (metis caller_ok.simps(2) callers_ok_def)
    ultimately show ?thesis using ok install(1)
      by (simp add: begin_install_def Let_def caller_goto_def coordinator_ok_def core_shutting_down_def split: if_splits)
  next
    case (signal c trigger owned k)
    have "rc_operation s = Some k" "rc_public s" using at[of c] public[of c] signal(2) by simp_all
    then show ?thesis using ok signal(1)
      by (auto simp: begin_signal_def Let_def caller_goto_def rc_publish_def coordinator_ok_def core_shutting_down_def split: if_splits)
  next
    case (spawn c trigger owned k)
    have "rc_operation s = Some k" "rc_public s" using at[of c] public[of c] spawn(2) by simp_all
    then show ?thesis using ok spawn(1)
      by (auto simp: begin_spawn_def caller_goto_def owner_goto_def coordinator_ok_def core_shutting_down_def split: if_splits)
  next
    case last_owner
    then show ?thesis using ok
      by (auto simp: abandon_def core_mark_shutting_down_def mark_shutting_down_def coordinator_ok_def core_shutting_down_def split: if_splits)
  next
    case (wait_started c)
    have "rc_public s" using public[of c] wait_started(2) by simp
    then obtain k where "rc_operation s = Some k" using ok wait_started(3) by (auto simp: coordinator_ok_def)
    then show ?thesis using ok wait_started(1) \<open>rc_public s\<close>
      by (simp add: wait_started_shutdown_def caller_goto_def coordinator_ok_def core_shutting_down_def)
  next
    case (serve current subscribers)
    then show ?thesis using starting[of current subscribers] by (cases "core_start current subscribers s") simp
  next
    case (start c following current subscribers ids)
    obtain r u where u: "core_start current subscribers s = (r, u)" by fastforce
    have "rc_public s" using public[of c] start(2) by simp
    then have "coordinator_ok u" "rc_public u" using starting[OF u] by simp_all
    then show ?thesis
      using start(1) u
      by (auto simp: run_start_def Let_def caller_return_def release_claim_def claim_commit_def caller_goto_def coordinator_ok_def
          core_shutting_down_def split: sum.splits unit.splits run_next.splits)
  qed (rule coordinator_frame[OF ok]; (use quiet shut in \<open>simp; fail\<close>)?; auto simp: runtime_defs split: runtime_splits if_splits)+
qed

subsection \<open>The owner\<close>

definition owner_view :: "runtime_core \<Rightarrow> core_settings \<times> (nat \<Rightarrow> owner_act list) \<times> (nat \<Rightarrow> shutdown_outcome option) \<times> (nat \<Rightarrow> owner_pc)" where
  "owner_view s = (rc_settings s, rc_acts s, rc_outcome s, rc_owner s)"

lemma owners_frame: "owner_acts_ok s \<Longrightarrow> owner_view t = owner_view s \<Longrightarrow> owner_acts_ok t"
  by (simp add: owner_acts_ok_def owner_view_def)

text \<open>What callers do leaves the owner alone.\<close>

lemma owner_view_parts [simp]:
  "owner_view (caller_goto c pc s) = owner_view s" "owner_view (release_claim c s) = owner_view s"
  "owner_view (claim_commit c s) = owner_view s" "owner_view (core_mark_shutting_down s) = owner_view s"
  "owner_view (rc_publish e s) = owner_view s" "owner_view (s\<lparr>rc_port := p\<rparr>) = owner_view s"
  by (simp_all add: owner_view_def caller_goto_def release_claim_def claim_commit_def core_mark_shutting_down_def rc_publish_def)

lemma owner_view_return [simp]:
  "owner_view (caller_return c joined r s) = owner_view s" "owner_view (caller_drop c s) = owner_view s"
  by (simp_all add: caller_return_def caller_drop_def)

lemma owner_view_start: "core_start current subscribers s = (r, u) \<Longrightarrow> owner_view u = owner_view s"
  by (auto simp: core_start_def owner_view_def split: option.splits sum.splits unit.splits if_splits)

lemma owner_view_claim: "claim_acquire c s = Some u \<Longrightarrow> owner_view u = owner_view s"
  by (auto simp: claim_acquire_def owner_view_def split: if_splits)

lemma owner_view_updates [simp]:
  "owner_view (s\<lparr>rc_operation_lock := l\<rparr>) = owner_view s" "owner_view (s\<lparr>rc_shutdown_started := b\<rparr>) = owner_view s"
  "owner_view (s\<lparr>rc_runtime_cancelled := b\<rparr>) = owner_view s" "owner_view (s\<lparr>rc_next_operation := n\<rparr>) = owner_view s"
  "owner_view (s\<lparr>rc_operation := k\<rparr>) = owner_view s" "owner_view (s\<lparr>rc_operation_installed := b\<rparr>) = owner_view s"
  "owner_view (s\<lparr>rc_faults := f\<rparr>) = owner_view s" "owner_view (s\<lparr>rc_public := b\<rparr>) = owner_view s"
  "owner_view (s\<lparr>rc_events := es\<rparr>) = owner_view s"
  by (simp_all add: owner_view_def)

lemma owners_move:
  assumes "owner_acts_ok s" "rc_settings t = rc_settings s"
    and "rc_acts t = (rc_acts s)(k := acts)" "rc_outcome t = (rc_outcome s)(k := out)" "rc_owner t = (rc_owner s)(k := pc)"
    and "owner_state (rc_settings s) acts out pc"
  shows "owner_acts_ok t"
  using assms by (simp add: owner_acts_ok_def)

lemma tail_acts_enter: "(controller \<longrightarrow> st_controller st) \<Longrightarrow> tail_acts st acts acts (cleanup_phases controller) True"
  unfolding tail_acts_def by (rule exI[of _ "[]"]) (auto simp: phases_ended_def all_clean_def)

lemma tail_acts_phase:
  assumes "tail_acts st pre acts (p # rest) clean"
  shows "tail_acts st pre (acts @ [PhaseEnded p a]) rest (clean \<and> a = PhaseClean)"
proof -
  obtain xs controller where "acts = pre @ phases_ended xs" "map fst xs @ p # rest = cleanup_phases controller"
    "controller \<longrightarrow> st_controller st" "clean \<longleftrightarrow> all_clean xs"
    using assms by (auto simp: tail_acts_def)
  then show ?thesis
    unfolding tail_acts_def
    by (intro exI[of _ "xs @ [(p, a)]"] exI[of _ controller]) (auto simp: phases_ended_def all_clean_def)
qed

lemma published_plain:
  "tail_acts st pre acts [] clean \<Longrightarrow> drained (st_grace st) pre outcome
   \<Longrightarrow> published_acts st acts (if clean then outcome else ShutdownFailed)"
  by (auto simp: published_acts_def)

lemma published_recovered: "tail_acts st (a @ [OwnerPanicked]) acts [] clean \<Longrightarrow> published_acts st acts ShutdownFailed"
  by (auto simp: published_acts_def)

lemma owners_step:
  assumes inv: "rt_inv s" and step: "rt_step s t"
  shows "owner_acts_ok t"
proof -
  note ok = rt_inv_parts(6)[OF inv]
  have own: "owner_state (rc_settings s) (rc_acts s k) (rc_outcome s k) (rc_owner s k)" for k
    using ok by (simp add: owner_acts_ok_def)
  have at: "starter_at s c (rc_calls s c)" for c using rt_inv_parts(4)[OF inv] by (simp add: starter_ok_def)
  have stay: "rc_acts s = (rc_acts s)(k := rc_acts s k)" "rc_outcome s = (rc_outcome s)(k := rc_outcome s k)" for k
    by simp_all
  show ?thesis
    using step
  proof cases
    case (spawn c trigger owned k)
    have "owned" "rc_owner s k = OwnerNone" using at[of c] spawn(2) by simp_all
    then show ?thesis using spawn(1) own[of k]
      by (intro owners_move[OF ok, of t k "[]" None "OwnerFence trigger"])
        (simp_all add: begin_spawn_def caller_goto_def owner_goto_def fun_upd_idem)
  next
    case (fence k trigger acknowledged)
    have "owner_state (rc_settings s) [Fenced acknowledged] None (rc_owner t k)"
      unfolding fence(1) by (auto simp: runtime_defs from_drain_result_def drained_def split: shutdown_trigger.split)
    then show ?thesis using own[of k] fence
      by (intro owners_move[OF ok, of t k "[Fenced acknowledged]" None "rc_owner t k"])
        (auto simp: runtime_defs fun_upd_idem split: shutdown_trigger.split)
  next
    case (cancel_all k stuck elapsed)
    then show ?thesis using own[of k]
      by (intro owners_move[OF ok, of t k "[Fenced True, CancelledAll stuck]" None "OwnerJoins stuck (st_grace (rc_settings s) - elapsed)"])
        (simp_all add: owner_cancel_all_def owner_note_def owner_goto_def fun_upd_idem)
  next
    case (joins k stuck remaining pending)
    let ?outcome = "if stuck @ pending = [] then ShutdownCompleted else ShutdownGraceExceeded (st_grace (rc_settings s)) (stuck @ pending)"
    have "rc_settings t = rc_settings s" "rc_outcome t = rc_outcome s"
      "rc_acts t = (rc_acts s)(k := rc_acts s k @ [JoinsWaited pending])" "rc_owner t = (rc_owner s)(k := OwnerEnter False ?outcome)"
      unfolding joins(1)
      by (simp_all add: owner_joins_def Let_def owner_note_def owner_goto_def rc_publish_def from_drain_result_def)
    moreover have "drained (st_grace (rc_settings s)) [Fenced True, CancelledAll stuck, JoinsWaited pending] ?outcome"
      by (simp add: drained_def)
    ultimately show ?thesis using own[of k] joins(2)
      by (intro owners_move[OF ok, of t k "[Fenced True, CancelledAll stuck, JoinsWaited pending]" None "OwnerEnter False ?outcome"])
        (simp_all add: fun_upd_idem)
  next
    case (drain_panic k msg)
    have "drained (st_grace (rc_settings s)) (rc_acts s k @ [DrainPanicked]) ShutdownFailed" by (auto simp: drained_def)
    moreover have "rc_outcome s k = None" using own[of k] drain_panic(2) by (cases "rc_owner s k") simp_all
    ultimately show ?thesis using drain_panic(1)
      by (intro owners_move[OF ok, of t k "rc_acts s k @ [DrainPanicked]" None "OwnerEnter False ShutdownFailed"])
        (simp_all add: owner_drain_panic_def report_shutdown_panic_def owner_note_def owner_goto_def rc_publish_def fun_upd_idem)
  next
    case (enter k recovering outcome alive)
    let ?phases = "cleanup_phases (st_controller (rc_settings s) \<and> alive)"
    have "tail_acts (rc_settings s) (rc_acts s k) (rc_acts s k) ?phases True" by (rule tail_acts_enter) simp
    then show ?thesis using own[of k] enter
      by (intro owners_move[OF ok, of t k "rc_acts s k" None "OwnerTail recovering outcome ?phases True"])
        (auto simp: owner_enter_def owner_goto_def fun_upd_idem)
  next
    case (phase k recovering outcome p rest clean answer)
    have "owner_state (rc_settings s) (rc_acts s k @ [PhaseEnded p answer]) None (OwnerTail recovering outcome rest (clean \<and> answer = PhaseClean))"
      using own[of k] phase(2) tail_acts_phase by fastforce
    moreover have "rc_outcome s k = None" using own[of k] phase(2) by simp
    ultimately show ?thesis using phase(1)
      by (intro owners_move[OF ok, of t k "rc_acts s k @ [PhaseEnded p answer]" None "OwnerTail recovering outcome rest (clean \<and> answer = PhaseClean)"])
        (simp_all add: owner_phase_def report_shutdown_panic_def owner_note_def owner_goto_def rc_publish_def Let_def fun_upd_idem
          split: phase_answer.split)
  next
    case (tail_end k recovering outcome clean)
    have "published_acts (rc_settings s) (rc_acts s k) (if \<not> recovering \<and> clean then outcome else ShutdownFailed)"
      using own[of k] tail_end(2) published_plain[of "rc_settings s" _ "rc_acts s k" clean outcome]
        published_recovered[of "rc_settings s" _ "rc_acts s k" clean]
      by (auto split: if_splits)
    then show ?thesis using own[of k] tail_end
      by (intro owners_move[OF ok, of t k "rc_acts s k" None "rc_owner t k"])
        (simp_all add: owner_tail_end_def owner_goto_def fun_upd_idem)
  next
    case (enter_panic k recovering outcome msg)
    then show ?thesis using own[of k]
      by (intro owners_move[OF ok, of t k "rc_acts t k" None "rc_owner t k"]) (auto simp: runtime_defs fun_upd_idem)
  next
    case (tail_panic k recovering outcome phases clean msg)
    then show ?thesis using own[of k]
      by (intro owners_move[OF ok, of t k "rc_acts t k" None "rc_owner t k"]) (auto simp: runtime_defs fun_upd_idem)
  next
    case (publish k outcome)
    then show ?thesis using own[of k]
      by (intro owners_move[OF ok, of t k "rc_acts s k" "Some outcome" OwnerGone]) (simp_all add: owner_publish_def owner_goto_def fun_upd_idem)
  next
    case (lost k)
    have "owner_state (rc_settings s) (rc_acts s k) (rc_outcome s k) OwnerGone"
      using own[of k] lost(2) by (cases "rc_owner s k") auto
    then show ?thesis using lost(1)
      by (intro owners_move[OF ok, of t k "rc_acts s k" "rc_outcome s k" OwnerGone]) (simp_all add: owner_goto_def fun_upd_idem)
  next
    case (start c following current subscribers ids)
    obtain r u where u: "core_start current subscribers s = (r, u)" by fastforce
    then show ?thesis using start owner_view_start[OF u]
      by (intro owners_frame[OF ok]) (simp add: run_start_def Let_def split: sum.split unit.split run_next.split)
  next
    case (serve current subscribers)
    then show ?thesis using owner_view_start[of current subscribers s]
      by (intro owners_frame[OF ok]) (cases "core_start current subscribers s", simp)
  next
    case (acquire c tasks)
    then show ?thesis
      by (intro owners_frame[OF ok]) (auto simp: run_acquire_def owner_view_claim split: option.split)
  qed (rule owners_frame[OF ok]; simp add: abandon_def begin_lock_def begin_install_def begin_signal_def
      operation_wait_def wait_started_shutdown_def run_preflight_def run_checked_def run_runtime_def run_reserve_def
      run_enqueue_def run_capacity_def run_gate_def run_replied_def run_refused_def Let_def
      split: option.split sum.split unit.split try_send_error.split)+
qed

lemma rt_inv_step: "rt_inv s \<Longrightarrow> rt_step s t \<Longrightarrow> rt_inv t"
  using started_step[OF rt_inv_parts(1)] claims_step[OF rt_inv_parts(2)] callers_step starter_step coordinator_step owners_step
  unfolding rt_inv_def by blast

interpretation runtime: inductive_invariant rt_init rt_step rt_inv
  by unfold_locales (auto intro: rt_inv_start rt_inv_step)

lemma rt_reachable_inv: "rt_reachable s \<Longrightarrow> rt_inv s"
  unfolding rt_reachable_def using runtime.good_reachable by blast

section \<open>Progress of the owner\<close>

text \<open>An upper bound on the remaining steps of the owner; a panic restarts the tail once.\<close>

fun owner_fuel :: "owner_pc \<Rightarrow> nat" where
  "owner_fuel OwnerNone = 20"
| "owner_fuel (OwnerFence _) = 19"
| "owner_fuel OwnerCancelAll = 18"
| "owner_fuel (OwnerJoins _ _) = 17"
| "owner_fuel (OwnerEnter recovering _) = (if recovering then 8 else 16)"
| "owner_fuel (OwnerTail recovering _ rest _) = length rest + 2 + (if recovering then 0 else 8)"
| "owner_fuel (OwnerPublish _) = 1"
| "owner_fuel OwnerGone = 0"

lemma length_cleanup_phases: "length (cleanup_phases controller) \<le> 5"
  by (simp add: cleanup_phases_def)

text \<open>Every step either leaves an owner alone or brings it closer to its end.\<close>

lemma owner_fuel_step:
  assumes "rt_inv s" "rt_step s t"
  shows "rc_owner t k = rc_owner s k \<or> owner_fuel (rc_owner t k) < owner_fuel (rc_owner s k)"
proof -
  have at: "starter_at s c (rc_calls s c)" for c using rt_inv_parts(4)[OF assms(1)] by (simp add: starter_ok_def)
  show ?thesis
    using assms(2)
  proof cases
    case (spawn c trigger owned j)
    then show ?thesis using at[of c] by (auto simp: begin_spawn_def caller_goto_def owner_goto_def)
  next
    case (drain_panic j msg)
    then show ?thesis by (cases "rc_owner s j") (auto simp: runtime_defs)
  next
    case (enter j recovering outcome alive)
    have "length (cleanup_phases (st_controller (rc_settings s) \<and> alive)) \<le> 5" by (rule length_cleanup_phases)
    with enter show ?thesis by (auto simp: owner_enter_def owner_goto_def)
  next
    case (lost j)
    then show ?thesis by (cases "rc_owner s j") (auto simp: owner_goto_def)
  next
    case (tail_panic j recovering outcome phases clean msg)
    then show ?thesis by (auto simp: runtime_defs)
  qed (auto simp: runtime_defs split: runtime_splits if_splits)
qed

text \<open>A running owner has a step of its own, and needs at most as many as its fuel to publish.\<close>

lemma owner_can_step:
  assumes "rc_owner s k \<noteq> OwnerNone" "rc_owner s k \<noteq> OwnerGone"
  obtains t where "rt_step s t" "rc_owner t k \<noteq> rc_owner s k" "rc_owner t k \<noteq> OwnerNone"
    "rc_owner t k = OwnerGone \<Longrightarrow> rc_outcome t k \<noteq> None"
proof (cases "rc_owner s k")
  case (OwnerFence trigger)
  show ?thesis
    by (rule that[OF rt_step.fence[OF OwnerFence, of True]])
      (auto simp: OwnerFence runtime_defs split: shutdown_trigger.splits)
next
  case OwnerCancelAll
  show ?thesis
    by (rule that[OF rt_step.cancel_all[OF OwnerCancelAll, of "[]" 0]]) (simp_all add: OwnerCancelAll runtime_defs)
next
  case (OwnerJoins stuck remaining)
  show ?thesis
    by (rule that[OF rt_step.joins[OF OwnerJoins, of "[]"]]) (auto simp: OwnerJoins runtime_defs split: if_splits)
next
  case (OwnerEnter recovering outcome)
  show ?thesis
    by (rule that[OF rt_step.enter[OF OwnerEnter, of True]]) (simp_all add: OwnerEnter runtime_defs)
next
  case (OwnerTail recovering outcome phases clean)
  show ?thesis
  proof (cases phases)
    case Nil
    show ?thesis
      by (rule that[OF rt_step.tail_end[OF OwnerTail[unfolded Nil]]]) (simp_all add: OwnerTail runtime_defs)
  next
    case (Cons p rest)
    have "phase_can p PhaseClean" by (cases p) simp_all
    from that[OF rt_step.phase[OF OwnerTail[unfolded Cons] this]] show ?thesis
      by (simp add: OwnerTail Cons runtime_defs)
  qed
next
  case (OwnerPublish outcome)
  show ?thesis
    by (rule that[OF rt_step.publish[OF OwnerPublish]]) (simp_all add: OwnerPublish runtime_defs)
qed (use assms in simp_all)

lemma owner_publishes:
  assumes "rt_inv s" "rc_owner s k \<noteq> OwnerNone" "rc_owner s k = OwnerGone \<longrightarrow> rc_outcome s k \<noteq> None"
  shows "\<exists>t. rt_step\<^sup>*\<^sup>* s t \<and> rc_owner t k = OwnerGone \<and> rc_outcome t k \<noteq> None"
  using assms
proof (induction "owner_fuel (rc_owner s k)" arbitrary: s rule: less_induct)
  case less
  show ?case
  proof (cases "rc_owner s k = OwnerGone")
    case False
    obtain u where u: "rt_step s u" "rc_owner u k \<noteq> rc_owner s k" "rc_owner u k \<noteq> OwnerNone"
      "rc_owner u k = OwnerGone \<Longrightarrow> rc_outcome u k \<noteq> None"
      using owner_can_step[OF less.prems(2) False] by blast
    have "owner_fuel (rc_owner u k) < owner_fuel (rc_owner s k)" using owner_fuel_step[OF less.prems(1) u(1)] u(2) by blast
    then obtain t where "rt_step\<^sup>*\<^sup>* u t" "rc_owner t k = OwnerGone" "rc_outcome t k \<noteq> None"
      using less.hyps[OF _ rt_inv_step[OF less.prems(1) u(1)] u(3)] u(4) by blast
    with u(1) show ?thesis by (meson converse_rtranclp_into_rtranclp)
  qed (use less.prems in auto)
qed

text \<open>An installed operation whose owner is not spawned yet has a caller about to spawn it.\<close>

definition starting_ok :: "runtime_core \<Rightarrow> bool" where
  "starting_ok s \<longleftrightarrow> (\<forall>k. rc_operation s = Some k \<longrightarrow> rc_owner s k = OwnerNone \<longrightarrow> (\<exists>c. begun (rc_calls s c)))"

lemma tail_acts_length: "tail_acts st pre acts rest clean \<Longrightarrow> length rest \<le> 5"
  unfolding tail_acts_def by (metis length_cleanup_phases length_append le_add2 le_trans)

lemma owner_fuel_bound: "rt_inv s \<Longrightarrow> owner_fuel (rc_owner s k) \<le> 20"
proof (cases "rc_owner s k")
  case (OwnerTail recovering outcome rest clean)
  assume "rt_inv s"
  then have "owner_state (rc_settings s) (rc_acts s k) (rc_outcome s k) (rc_owner s k)"
    using rt_inv_parts(6) by (simp add: owner_acts_ok_def)
  then have "length rest \<le> 5" using OwnerTail tail_acts_length by auto
  then show ?thesis by (simp add: OwnerTail)
qed simp_all

lemma owner_stays_none:
  assumes "rt_inv s" "rt_step s t" "rc_owner t k = OwnerNone"
  shows "rc_owner s k = OwnerNone"
  using owner_fuel_step[OF assms(1,2), of k] owner_fuel_bound[OF assms(1), of k] assms(3) by auto

lemma calls_simps [simp]:
  "rc_calls (caller_goto c pc s) = (rc_calls s)(c := pc)" "rc_calls (owner_goto k opc s) = rc_calls s"
  "rc_calls (owner_note k a s) = rc_calls s" "rc_calls (rc_publish e s) = rc_calls s"
  "rc_calls (core_mark_shutting_down s) = rc_calls s" "rc_calls (report_shutdown_panic x msg s) = rc_calls s"
  by (simp_all add: caller_goto_def owner_goto_def owner_note_def rc_publish_def core_mark_shutting_down_def report_shutdown_panic_def)

lemma begun_stays:
  assumes step: "rt_step s t" and c: "begun (rc_calls s c)"
  shows "begun (rc_calls t c)
    \<or> (\<exists>trigger owned k. rc_calls s c = BeginSpawn trigger owned k \<and> t = begin_spawn c trigger owned k s)"
  using step
proof cases
  case (start d following current subscribers ids)
  obtain r u where u: "core_start current subscribers s = (r, u)" by fastforce
  show ?thesis
    using start c u core_start_extends[OF u]
    by (cases "d = c") (auto simp: run_start_def Let_def caller_return_def split: sum.split unit.split run_next.split)
next
  case (serve current subscribers)
  then show ?thesis using c core_start_extends[of current subscribers s] by (cases "core_start current subscribers s") simp
next
  case (acquire d tasks)
  then show ?thesis using c
    by (cases "d = c") (auto simp: run_acquire_def claim_acquire_def caller_return_def split: option.split)
next
  case (batch_trigger d items trigger)
  then show ?thesis using c by (cases "d = c") auto
next
  case (lock d trigger current)
  then show ?thesis using c by (cases "d = c") (simp_all add: begin_lock_def Let_def split: option.split)
next
  case (select_started d)
  then show ?thesis using c by (cases "d = c") auto
next
  case (drop d)
  then show ?thesis using c by (cases "d = c") (auto simp: caller_drop_def)
next
  case (install d trigger owned)
  then show ?thesis using c by (cases "d = c") (simp_all add: begin_install_def Let_def)
next
  case (signal d trigger owned k)
  then show ?thesis using c by (cases "d = c") (simp_all add: begin_signal_def Let_def)
next
  case (spawn d trigger owned k)
  then show ?thesis using c by (cases "d = c") (simp_all add: begin_spawn_def)
qed (use c in \<open>auto simp: abandon_def operation_wait_def wait_started_shutdown_def run_preflight_def run_checked_def run_runtime_def
      run_reserve_def run_enqueue_def run_capacity_def run_gate_def run_replied_def run_refused_def caller_return_def Let_def
      owner_fence_def owner_cancel_all_def owner_joins_def owner_drain_panic_def owner_enter_def owner_phase_def
      owner_tail_end_def owner_panic_def owner_publish_def
      split: option.split sum.split unit.split try_send_error.split shutdown_trigger.split phase_answer.split\<close>)

lemma operation_simps [simp]:
  "rc_operation (caller_goto c pc s) = rc_operation s" "rc_operation (owner_goto k opc s) = rc_operation s"
  "rc_operation (owner_note k a s) = rc_operation s" "rc_operation (rc_publish e s) = rc_operation s"
  "rc_operation (core_mark_shutting_down s) = rc_operation s" "rc_operation (report_shutdown_panic x msg s) = rc_operation s"
  "rc_operation (release_claim c s) = rc_operation s" "rc_operation (claim_commit c s) = rc_operation s"
  "rc_operation (caller_return c joined r s) = rc_operation s" "rc_operation (caller_drop c s) = rc_operation s"
  by (simp_all add: caller_goto_def owner_goto_def owner_note_def rc_publish_def core_mark_shutting_down_def
      report_shutdown_panic_def release_claim_def claim_commit_def caller_return_def caller_drop_def)

lemma operation_core_start: "core_start current subscribers s = (r, u) \<Longrightarrow> rc_operation u = rc_operation s"
  by (auto simp: core_start_def split: option.splits sum.splits unit.splits if_splits)

lemma operation_step:
  assumes "rt_step s t"
  shows "rc_operation t = rc_operation s \<or> (\<exists>c trigger owned. t = begin_install c trigger owned s)"
  using assms
proof cases
  case (start d following current subscribers ids)
  obtain r u where u: "core_start current subscribers s = (r, u)" by fastforce
  then show ?thesis using start operation_core_start[OF u]
    by (simp add: run_start_def Let_def split: sum.split unit.split run_next.split)
next
  case (serve current subscribers)
  then show ?thesis using operation_core_start[of current subscribers s] by (cases "core_start current subscribers s") simp
next
  case (acquire d tasks)
  then show ?thesis by (auto simp: run_acquire_def claim_acquire_def split: option.split)
qed (auto simp: abandon_def begin_lock_def begin_signal_def begin_spawn_def operation_wait_def wait_started_shutdown_def
      run_preflight_def run_checked_def run_runtime_def
      run_reserve_def run_enqueue_def run_capacity_def run_gate_def run_replied_def run_refused_def Let_def
      owner_fence_def owner_cancel_all_def owner_joins_def owner_drain_panic_def owner_enter_def owner_phase_def
      owner_tail_end_def owner_panic_def owner_publish_def
      split: option.split sum.split unit.split try_send_error.split shutdown_trigger.split phase_answer.split)

lemma starting_step:
  assumes inv: "rt_inv s" and ok: "starting_ok s" and step: "rt_step s t"
  shows "starting_ok t"
  unfolding starting_ok_def
proof (intro allI impI)
  fix k assume op: "rc_operation t = Some k" and none: "rc_owner t k = OwnerNone"
  show "\<exists>c. begun (rc_calls t c)"
  proof (cases "\<exists>c trigger owned. t = begin_install c trigger owned s")
    case True
    then obtain c trigger owned where "t = begin_install c trigger owned s" by blast
    then have "begun (rc_calls t c)" by (simp add: begin_install_def Let_def)
    then show ?thesis by blast
  next
    case False
    then have same: "rc_operation s = Some k" using operation_step[OF step] op by simp
    then obtain c where c: "begun (rc_calls s c)"
      using ok owner_stays_none[OF inv step none] by (auto simp: starting_ok_def)
    show ?thesis
    proof (cases "begun (rc_calls t c)")
      case False
      then obtain trigger owned i where sp: "rc_calls s c = BeginSpawn trigger owned i" "t = begin_spawn c trigger owned i s"
        using begun_stays[OF step c] by blast
      have "starter_at s c (rc_calls s c)" using rt_inv_parts(4)[OF inv] by (simp add: starter_ok_def)
      then have "i = k" using sp(1) same by simp
      then have "rc_owner t k \<noteq> OwnerNone" using sp(2) by (simp add: begin_spawn_def caller_goto_def owner_goto_def)
      with none show ?thesis by simp
    qed blast
  qed
qed

lemma starting_reachable: "rt_reachable s \<Longrightarrow> starting_ok s"
proof -
  assume "rt_reachable s"
  then obtain s0 where s0: "rt_init s0" "rt_step\<^sup>*\<^sup>* s0 s" by (auto simp: rt_reachable_def)
  from s0(2) show ?thesis
  proof (induction rule: rtranclp_induct)
    case base
    then show ?case using s0(1) by (auto simp: rt_init_def core_new_def starting_ok_def)
  next
    case (step t u)
    then show ?case using starting_step runtime.good_reachable[OF s0(1)] by blast
  qed
qed

end
