(* ===== verification/Runtime_Behaviour.thy ===== *)
theory Runtime_Behaviour
  imports Runtime_Shutdown
begin

text \<open>
  What the lifecycle of a supervisor promises: every caller of shutdown gets the one cached outcome,
  which says what the owner did; the owner always ends; static runs exclude each other.
\<close>

section \<open>The shared outcome\<close>

lemma drained_completed:
  "drained grace acts ShutdownCompleted \<Longrightarrow> acts = [Fenced True, CancelledAll [], JoinsWaited []]"
  by (auto simp: drained_def split: if_splits)

lemma drained_grace:
  "drained grace acts (ShutdownGraceExceeded g stuck) \<Longrightarrow>
     g = grace \<and> stuck \<noteq> [] \<and> (\<exists>a b. stuck = a @ b \<and> acts = [Fenced True, CancelledAll a, JoinsWaited b])"
  by (auto simp: drained_def split: if_splits)

lemma clean_phases:
  assumes "all_clean xs"
  shows "phases_ended xs = map (\<lambda>p. PhaseEnded p PhaseClean) (map fst xs)"
  using assms by (induction xs) (auto simp: phases_ended_def all_clean_def)

text \<open>An outcome other than a failure comes from a plain drain and a clean tail.\<close>

lemma published_success:
  assumes "published_acts st acts outcome" "outcome \<noteq> ShutdownFailed"
  obtains pre controller where "drained (st_grace st) pre outcome"
    "acts = pre @ map (\<lambda>p. PhaseEnded p PhaseClean) (cleanup_phases controller)" "controller \<longrightarrow> st_controller st"
proof -
  obtain pre clean where tail: "tail_acts st pre acts [] clean" and "drained (st_grace st) pre outcome" "clean"
    using assms by (auto simp: published_acts_def split: if_splits)
  moreover obtain xs controller where "acts = pre @ phases_ended xs" "map fst xs = cleanup_phases controller"
    "controller \<longrightarrow> st_controller st" "clean \<longleftrightarrow> all_clean xs"
    using tail by (auto simp: tail_acts_def)
  ultimately show ?thesis using that[of pre controller] clean_phases[of xs] by simp
qed

lemma published_attempts:
  assumes "published_acts st acts outcome"
  obtains pre xs controller where "acts = pre @ map (\<lambda>(p, a). PhaseEnded p a) xs" "map fst xs = cleanup_phases controller"
    "controller \<longrightarrow> st_controller st"
  using assms that unfolding published_acts_def tail_acts_def phases_ended_def append_Nil2 by blast

lemma joined_result:
  assumes "rt_inv s" "rc_calls s c = CallerReturned True r"
  shows "rc_operation s = Some 0" "settled_as s 0 r"
proof -
  obtain k where "rc_operation s = Some k" "settled_as s k r"
    using rt_inv_parts(3)[OF assms(1)] assms(2) unfolding callers_ok_def by (metis caller_ok.simps(13))
  moreover have "k = 0" using rt_inv_parts(5)[OF assms(1)] calculation(1) by (auto simp: coordinator_ok_def)
  ultimately show "rc_operation s = Some 0" "settled_as s 0 r" by simp_all
qed

lemma settled_published:
  assumes "rt_inv s" "settled_as s k r" "outcome_into_result outcome = r" "outcome \<noteq> ShutdownFailed"
  shows "published_acts (rc_settings s) (rc_acts s k) outcome"
proof -
  have inj: "outcome_into_result a = outcome_into_result b \<Longrightarrow> a = b" for a b by (cases a; cases b) simp_all
  have "r \<noteq> Inl ShuttingDown" using assms(3,4) by (cases outcome) auto
  then have "rc_outcome s k = Some outcome"
    using assms(2,3) inj by (auto simp: settled_as_def split: option.splits)
  moreover have own: "owner_state (rc_settings s) (rc_acts s k) (rc_outcome s k) (rc_owner s k)"
    using rt_inv_parts(6)[OF assms(1)] by (simp add: owner_acts_ok_def)
  ultimately show ?thesis by (cases "rc_owner s k") auto
qed

lemma joined_success:
  assumes "rt_inv s" "rc_calls s c = CallerReturned True (Inr ())"
  shows "\<exists>controller. (controller \<longrightarrow> st_controller (rc_settings s)) \<and>
    rc_acts s 0 = [Fenced True, CancelledAll [], JoinsWaited []] @ map (\<lambda>p. PhaseEnded p PhaseClean) (cleanup_phases controller)"
proof -
  have "published_acts (rc_settings s) (rc_acts s 0) ShutdownCompleted"
    by (rule settled_published[OF assms(1) joined_result(2)[OF assms]]) simp_all
  then obtain pre controller where "drained (st_grace (rc_settings s)) pre ShutdownCompleted"
    "rc_acts s 0 = pre @ map (\<lambda>p. PhaseEnded p PhaseClean) (cleanup_phases controller)" "controller \<longrightarrow> st_controller (rc_settings s)"
    by (rule published_success) simp_all
  then show ?thesis using drained_completed by blast
qed

lemma joined_grace:
  assumes "rt_inv s" "rc_calls s c = CallerReturned True (Inl (GraceExceeded g stuck))"
  shows "g = st_grace (rc_settings s) \<and> stuck \<noteq> [] \<and>
    (\<exists>a b controller. stuck = a @ b \<and> (controller \<longrightarrow> st_controller (rc_settings s)) \<and>
      rc_acts s 0 = [Fenced True, CancelledAll a, JoinsWaited b] @ map (\<lambda>p. PhaseEnded p PhaseClean) (cleanup_phases controller))"
proof -
  have "published_acts (rc_settings s) (rc_acts s 0) (ShutdownGraceExceeded g stuck)"
    by (rule settled_published[OF assms(1) joined_result(2)[OF assms]]) simp_all
  then obtain pre controller where "drained (st_grace (rc_settings s)) pre (ShutdownGraceExceeded g stuck)"
    "rc_acts s 0 = pre @ map (\<lambda>p. PhaseEnded p PhaseClean) (cleanup_phases controller)" "controller \<longrightarrow> st_controller (rc_settings s)"
    by (rule published_success) simp_all
  then show ?thesis using drained_grace by blast
qed

lemma outcome_phases:
  assumes "rt_inv s" "rc_outcome s k = Some outcome"
  shows "\<exists>pre xs controller. rc_acts s k = pre @ map (\<lambda>(p, a). PhaseEnded p a) xs
    \<and> map fst xs = cleanup_phases controller \<and> (controller \<longrightarrow> st_controller (rc_settings s))"
proof -
  have "owner_state (rc_settings s) (rc_acts s k) (rc_outcome s k) (rc_owner s k)"
    using rt_inv_parts(6)[OF assms(1)] by (simp add: owner_acts_ok_def)
  then have "published_acts (rc_settings s) (rc_acts s k) outcome" using assms(2) by (cases "rc_owner s k") auto
  then show ?thesis using published_attempts by metis
qed

text \<open>The parts of the property below.\<close>

lemma shutdown_outcome_shared_parts:
  assumes "rt_reachable s"
  shows "rc_next_operation s \<le> 1" and "rc_faults s = 0"
    and "rc_operation s \<noteq> None \<Longrightarrow> core_shutting_down s"
    and "rc_calls s c = CallerReturned True r \<Longrightarrow> rc_calls s d = CallerReturned True q \<Longrightarrow> q = r"
    and "rc_calls s c = CallerReturned True (Inr ()) \<Longrightarrow>
      \<exists>controller. (controller \<longrightarrow> st_controller (rc_settings s)) \<and>
        rc_acts s 0 = [Fenced True, CancelledAll [], JoinsWaited []]
          @ map (\<lambda>p. PhaseEnded p PhaseClean) (cleanup_phases controller)"
    and "rc_calls s c = CallerReturned True (Inl (GraceExceeded g stuck)) \<Longrightarrow>
      g = st_grace (rc_settings s) \<and> stuck \<noteq> [] \<and>
      (\<exists>a b controller. stuck = a @ b \<and> (controller \<longrightarrow> st_controller (rc_settings s)) \<and>
        rc_acts s 0 = [Fenced True, CancelledAll a, JoinsWaited b]
          @ map (\<lambda>p. PhaseEnded p PhaseClean) (cleanup_phases controller))"
    and "rc_outcome s k = Some outcome \<Longrightarrow>
      \<exists>pre xs controller. rc_acts s k = pre @ map (\<lambda>(p, a). PhaseEnded p a) xs
        \<and> map fst xs = cleanup_phases controller \<and> (controller \<longrightarrow> st_controller (rc_settings s))"
    and "rc_calls s c = CallerReturned False r \<Longrightarrow> \<exists>e. r = Inl e"
proof -
  note inv = rt_reachable_inv[OF assms]
  show "rc_next_operation s \<le> 1" "rc_faults s = 0" "rc_operation s \<noteq> None \<Longrightarrow> core_shutting_down s"
    using rt_inv_parts(5)[OF inv] by (simp_all add: coordinator_ok_def)
  show "rc_calls s c = CallerReturned True r \<Longrightarrow> rc_calls s d = CallerReturned True q \<Longrightarrow> q = r"
    using joined_result(2)[OF inv, of c r] joined_result(2)[OF inv, of d q] by (auto simp: settled_as_def split: option.splits)
  show "rc_calls s c = CallerReturned False r \<Longrightarrow> \<exists>e. r = Inl e"
    using rt_inv_parts(3)[OF inv] unfolding callers_ok_def by (metis caller_ok.simps(13))
qed (rule joined_success[OF rt_reachable_inv[OF assms]] joined_grace[OF rt_reachable_inv[OF assms]]
    outcome_phases[OF rt_reachable_inv[OF assms]], assumption)+

text \<open>
  C12. One shutdown for everybody. In every reachable state at most one shutdown operation exists and
  admission is closed once it does; no assertion has failed. Every caller that joined the operation
  returned the same result, whichever trigger was first and whenever the caller came. The result is
  success only if the registry acknowledged the fence, no task was stuck, and every cleanup phase,
  in the order controller, listeners, registry, relay, subscribers, ended cleanly; it is an exceeded
  grace period only with the configured grace, a non-empty list of stuck names as the two drains
  reported them, and clean phases. Whatever the published outcome, every cleanup phase was attempted,
  in this order, after any failures and panics. A static run that did not join returned an error.
\<close>

theorem shutdown_outcome_shared:
  assumes "rt_reachable s"
  shows "rc_next_operation s \<le> 1 \<and> rc_faults s = 0 \<and> (rc_operation s \<noteq> None \<longrightarrow> core_shutting_down s)
    \<and> (\<forall>c d r q. rc_calls s c = CallerReturned True r \<longrightarrow> rc_calls s d = CallerReturned True q \<longrightarrow> q = r)
    \<and> (\<forall>c. rc_calls s c = CallerReturned True (Inr ()) \<longrightarrow>
        (\<exists>controller. (controller \<longrightarrow> st_controller (rc_settings s)) \<and>
          rc_acts s 0 = [Fenced True, CancelledAll [], JoinsWaited []]
            @ map (\<lambda>p. PhaseEnded p PhaseClean) (cleanup_phases controller)))
    \<and> (\<forall>c g stuck. rc_calls s c = CallerReturned True (Inl (GraceExceeded g stuck)) \<longrightarrow>
        g = st_grace (rc_settings s) \<and> stuck \<noteq> [] \<and>
        (\<exists>a b controller. stuck = a @ b \<and> (controller \<longrightarrow> st_controller (rc_settings s)) \<and>
          rc_acts s 0 = [Fenced True, CancelledAll a, JoinsWaited b]
            @ map (\<lambda>p. PhaseEnded p PhaseClean) (cleanup_phases controller)))
    \<and> (\<forall>k outcome. rc_outcome s k = Some outcome \<longrightarrow>
        (\<exists>pre xs controller. rc_acts s k = pre @ map (\<lambda>(p, a). PhaseEnded p a) xs
          \<and> map fst xs = cleanup_phases controller \<and> (controller \<longrightarrow> st_controller (rc_settings s))))
    \<and> (\<forall>c r. rc_calls s c = CallerReturned False r \<longrightarrow> (\<exists>e. r = Inl e))
    \<and> (\<forall>controller. cleanup_phases controller =
        (if controller then [JoinController] else []) @ [CancelListeners, JoinRegistry, JoinRelay, CloseSubscribers])"
  by (intro conjI; ((rule allI)+)?; ((rule impI)+)?; rule shutdown_outcome_shared_parts[OF assms] cleanup_phases_def; assumption)

section \<open>Shutdown comes to an end\<close>

lemma operation_spawned:
  assumes inv: "rt_inv s" and "starting_ok s" "rc_operation s = Some k" "rc_owner s k = OwnerNone"
  obtains t where "rt_step\<^sup>*\<^sup>* s t" "rc_owner t k \<noteq> OwnerNone" "rc_owner t k \<noteq> OwnerGone"
proof -
  obtain c where c: "begun (rc_calls s c)" using assms(2-4) by (auto simp: starting_ok_def)
  have at: "starter_at s c (rc_calls s c)" using rt_inv_parts(4)[OF inv] by (simp add: starter_ok_def)
  have spawned: "rt_step u (begin_spawn c trigger True k u) \<and> rc_owner (begin_spawn c trigger True k u) k = OwnerFence trigger"
    if "rc_calls u c = BeginSpawn trigger True k" for u trigger
    using rt_step.spawn[OF that] by (simp add: begin_spawn_def caller_goto_def owner_goto_def)
  consider (signal) trigger where "rc_calls s c = BeginSignal trigger True k" | (spawn) trigger where "rc_calls s c = BeginSpawn trigger True k"
    using c at assms(3) by (cases "rc_calls s c") auto
  then show ?thesis
  proof cases
    case signal
    let ?u = "begin_signal c trigger True k s"
    have "rc_calls ?u c = BeginSpawn trigger True k" by (simp add: begin_signal_def Let_def)
    from spawned[OF this] have "rt_step\<^sup>*\<^sup>* s (begin_spawn c trigger True k ?u)"
      using rt_step.signal[OF signal] by (meson converse_rtranclp_into_rtranclp r_into_rtranclp)
    with spawned[OF \<open>rc_calls ?u c = _\<close>] show ?thesis by (auto intro: that)
  next
    case spawn
    from spawned[OF this] show ?thesis by (auto intro: that)
  qed
qed

text \<open>The parts of the property below.\<close>

lemma shutdown_owner_finishes_parts:
  assumes "rt_reachable s" and "rc_operation s = Some k"
  shows "owner_fuel (rc_owner s k) \<le> 20"
    and "rt_step s t \<Longrightarrow> rc_owner t k = rc_owner s k \<or> owner_fuel (rc_owner t k) < owner_fuel (rc_owner s k)"
    and "\<exists>t. rt_step\<^sup>*\<^sup>* s t \<and> rc_owner t k = OwnerGone \<and> (rc_owner s k \<noteq> OwnerGone \<longrightarrow> rc_outcome t k \<noteq> None)"
    and "rc_owner s k = OwnerGone \<Longrightarrow> rc_calls s c = OperationWait k \<Longrightarrow>
      rt_step s (operation_wait c k s) \<and> (\<exists>r. rc_calls (operation_wait c k s) c = CallerReturned True r)"
    and "rc_owner s k = OwnerGone \<Longrightarrow> rt_step\<^sup>*\<^sup>* s t \<Longrightarrow> rc_owner t k = OwnerGone \<and> rc_outcome t k = rc_outcome s k"
proof -
  note inv = rt_reachable_inv[OF assms(1)]
  show "owner_fuel (rc_owner s k) \<le> 20" by (rule owner_fuel_bound[OF inv])
  show "rt_step s t \<Longrightarrow> rc_owner t k = rc_owner s k \<or> owner_fuel (rc_owner t k) < owner_fuel (rc_owner s k)"
    by (rule owner_fuel_step[OF inv])
  show "\<exists>t. rt_step\<^sup>*\<^sup>* s t \<and> rc_owner t k = OwnerGone \<and> (rc_owner s k \<noteq> OwnerGone \<longrightarrow> rc_outcome t k \<noteq> None)"
  proof (cases "rc_owner s k = OwnerGone")
    case False
    obtain u where u: "rt_step\<^sup>*\<^sup>* s u" "rc_owner u k \<noteq> OwnerNone" "rc_owner u k \<noteq> OwnerGone"
      using operation_spawned[OF inv starting_reachable[OF assms(1)] assms(2)] False by (metis rtranclp.rtrancl_refl)
    show ?thesis using owner_publishes[OF runtime.good_run[OF u(1) inv] u(2)] u(1,3) by (meson rtranclp_trans)
  qed auto
  show "rt_step s (operation_wait c k s) \<and> (\<exists>r. rc_calls (operation_wait c k s) c = CallerReturned True r)"
    if "rc_owner s k = OwnerGone" "rc_calls s c = OperationWait k"
    using that rt_step.wait[OF that(2)] by (auto simp: operation_wait_def caller_return_def split: option.split)
  show "rc_owner t k = OwnerGone \<and> rc_outcome t k = rc_outcome s k" if "rc_owner s k = OwnerGone" "rt_step\<^sup>*\<^sup>* s t"
    using that(2)
  proof (induction rule: rtranclp_induct)
    case (step u v)
    then show ?case using extends_step[OF runtime.good_run[OF step(1) inv] step(2)] by (auto simp: extends_def)
  qed (simp add: that(1))
qed

text \<open>
  C18. Shutdown comes to an end. Once an operation is installed its owner makes at most twenty steps,
  whatever the components answer: a step of anybody leaves the owner as it is or lowers this bound.
  From every reachable state the owner can end, and unless its task was already lost it publishes an
  outcome; then every waiting caller returns in its next step with a result that is final for all.
\<close>

theorem shutdown_owner_finishes:
  assumes "rt_reachable s" and "rc_operation s = Some k"
  shows "owner_fuel (rc_owner s k) \<le> 20
    \<and> (\<forall>t. rt_step s t \<longrightarrow> rc_owner t k = rc_owner s k \<or> owner_fuel (rc_owner t k) < owner_fuel (rc_owner s k))
    \<and> (\<exists>t. rt_step\<^sup>*\<^sup>* s t \<and> rc_owner t k = OwnerGone \<and> (rc_owner s k \<noteq> OwnerGone \<longrightarrow> rc_outcome t k \<noteq> None))
    \<and> (rc_owner s k = OwnerGone \<longrightarrow>
        (\<forall>c. rc_calls s c = OperationWait k \<longrightarrow>
          rt_step s (operation_wait c k s) \<and> (\<exists>r. rc_calls (operation_wait c k s) c = CallerReturned True r))
        \<and> (\<forall>t. rt_step\<^sup>*\<^sup>* s t \<longrightarrow> rc_owner t k = OwnerGone \<and> rc_outcome t k = rc_outcome s k))"
proof -
  note parts = shutdown_owner_finishes_parts[OF assms]
  show ?thesis
    by (intro conjI impI; ((rule allI)+)?; ((rule impI)+)?; rule parts(1,2,3,4,5); assumption)
qed

section \<open>One static run\<close>

lemma claims_unique:
  assumes "claims_ok s"
  shows "rc_running s \<longleftrightarrow> (\<exists>c. rc_claims s c \<noteq> NoClaim)" "rc_claims s c \<noteq> NoClaim \<Longrightarrow> rc_claims s d \<noteq> NoClaim \<Longrightarrow> c = d"
  using assms by (auto simp: claims_ok_def claimants_def set_eq_iff split: if_splits)

lemma claims_parts [simp]:
  "rc_claims (caller_goto c pc s) = rc_claims s" "rc_claims (owner_goto k opc s) = rc_claims s"
  "rc_claims (owner_note k a s) = rc_claims s" "rc_claims (rc_publish e s) = rc_claims s"
  "rc_claims (core_mark_shutting_down s) = rc_claims s" "rc_claims (report_shutdown_panic x msg s) = rc_claims s"
  by (simp_all add: caller_goto_def owner_goto_def owner_note_def rc_publish_def core_mark_shutting_down_def report_shutdown_panic_def)

lemma committed_parts [simp]:
  "rc_claims s c = ClaimCommitted \<Longrightarrow> rc_claims (release_claim d s) c = ClaimCommitted"
  "rc_claims s c = ClaimCommitted \<Longrightarrow> rc_claims (claim_commit d s) c = ClaimCommitted"
  by (auto simp: release_claim_def claim_commit_def)

lemma committed_step:
  assumes ok: "claims_ok s" and c: "rc_claims s c = ClaimCommitted" and step: "rt_step s t"
  shows "rc_claims t c = ClaimCommitted"
  using step
proof cases
  case (start d following current subscribers ids)
  obtain r u where u: "core_start current subscribers s = (r, u)" by fastforce
  then show ?thesis using start c claims_core_start(2)[OF ok u]
    by (simp add: run_start_def Let_def caller_return_def split: sum.split unit.split run_next.split)
next
  case (serve current subscribers)
  then show ?thesis using c claims_core_start(2)[OF ok, of current subscribers] by (cases "core_start current subscribers s") simp
next
  case (acquire d tasks)
  have "rc_running s" using claims_unique(1)[OF ok] c by (metis run_claim.distinct(3))
  then show ?thesis using acquire c by (simp add: run_acquire_def claim_acquire_def caller_return_def)
qed (use c in \<open>simp_all add: abandon_def begin_lock_def begin_install_def begin_signal_def begin_spawn_def operation_wait_def
      wait_started_shutdown_def run_preflight_def run_checked_def run_runtime_def
      run_reserve_def run_enqueue_def run_capacity_def run_gate_def run_replied_def run_refused_def caller_return_def
      caller_drop_def Let_def
      owner_fence_def owner_cancel_all_def owner_joins_def owner_drain_panic_def owner_enter_def owner_phase_def
      owner_tail_end_def owner_panic_def owner_publish_def
      split: option.split sum.split unit.split try_send_error.split shutdown_trigger.split phase_answer.split\<close>)

lemma committed_run:
  assumes "rt_step\<^sup>*\<^sup>* s t" "rt_inv s" "rc_claims s c = ClaimCommitted"
  shows "rc_claims t c = ClaimCommitted"
  using assms(1)
proof (induction rule: rtranclp_induct)
  case (step u v)
  then show ?case using committed_step[OF rt_inv_parts(2)[OF runtime.good_run[OF step(1) assms(2)]]] by blast
qed (rule assms(3))

text \<open>The parts of the property below.\<close>

lemma static_run_exclusive_parts:
  assumes "rt_reachable s"
  shows "rc_running s \<longleftrightarrow> (\<exists>c. rc_claims s c \<noteq> NoClaim)"
    and "rc_claims s c \<noteq> NoClaim \<Longrightarrow> rc_claims s d \<noteq> NoClaim \<Longrightarrow> c = d"
    and "caller_over (rc_calls s c) \<Longrightarrow> rc_claims s c \<noteq> ClaimHeld"
    and "rc_calls s c = RunGate items \<Longrightarrow> rc_claims s c = ClaimCommitted \<and> rc_started s"
    and "rc_claims s c = ClaimCommitted \<Longrightarrow> rt_step\<^sup>*\<^sup>* s t \<Longrightarrow> rc_calls t d = RunAcquire tasks \<Longrightarrow>
      run_acquire d tasks t = caller_goto d (CallerReturned False (Inl AlreadyRunning)) t"
    and "rc_launched s = (if rc_started s then launched_workers (rc_settings s) else [])"
proof -
  note inv = rt_reachable_inv[OF assms]
  have claim: "rc_claims s c \<in> claims_at (rc_calls s c)" for c
    using rt_inv_parts(2)[OF inv] by (simp add: claims_ok_def)
  show "rc_running s \<longleftrightarrow> (\<exists>c. rc_claims s c \<noteq> NoClaim)"
    "rc_claims s c \<noteq> NoClaim \<Longrightarrow> rc_claims s d \<noteq> NoClaim \<Longrightarrow> c = d"
    using claims_unique[OF rt_inv_parts(2)[OF inv]] by blast+
  show "caller_over (rc_calls s c) \<Longrightarrow> rc_claims s c \<noteq> ClaimHeld"
    using claim[of c] by (cases "rc_calls s c") auto
  show "rc_claims s c = ClaimCommitted \<and> rc_started s" if "rc_calls s c = RunGate items"
    using claim[of c] that rt_inv_parts(3)[OF inv] unfolding callers_ok_def by (metis caller_ok.simps(9) claims_at.simps(12) singletonD)
  show "rc_launched s = (if rc_started s then launched_workers (rc_settings s) else [])"
    using rt_inv_parts(1)[OF inv] by (simp add: start_ok_def)
  show "run_acquire d tasks t = caller_goto d (CallerReturned False (Inl AlreadyRunning)) t"
    if "rc_claims s c = ClaimCommitted" "rt_step\<^sup>*\<^sup>* s t" "rc_calls t d = RunAcquire tasks"
  proof -
    have invt: "rt_inv t" by (rule runtime.good_run[OF that(2) inv])
    have "rc_claims t c = ClaimCommitted" by (rule committed_run[OF that(2) inv that(1)])
    then have "rc_running t" using claims_unique(1)[OF rt_inv_parts(2)[OF invt]] by (metis run_claim.distinct(3))
    moreover have "rc_claims t d = NoClaim"
      using rt_inv_parts(2)[OF invt] that(3) unfolding claims_ok_def by (metis claims_at.simps(2) singletonD)
    ultimately show ?thesis
      by (simp add: run_acquire_def claim_acquire_def caller_return_def release_claim_def)
  qed
qed

text \<open>
  C22. Static runs exclude each other. In every reachable state the running flag is set exactly when
  some call holds or has committed the claim, and at most one call does. A call that is over holds no
  uncommitted claim, so a run that failed early leaves the lifecycle free; a run that sends its batch
  has committed. A committed claim is never given up again: in every later state another static run
  fails with \<open>AlreadyRunning\<close> and changes nothing else. The workers are launched exactly once, by the
  first successful start.
\<close>

theorem static_run_exclusive:
  assumes "rt_reachable s"
  shows "(rc_running s \<longleftrightarrow> (\<exists>c. rc_claims s c \<noteq> NoClaim))
    \<and> (\<forall>c d. rc_claims s c \<noteq> NoClaim \<longrightarrow> rc_claims s d \<noteq> NoClaim \<longrightarrow> c = d)
    \<and> (\<forall>c. caller_over (rc_calls s c) \<longrightarrow> rc_claims s c \<noteq> ClaimHeld)
    \<and> (\<forall>c items. rc_calls s c = RunGate items \<longrightarrow> rc_claims s c = ClaimCommitted \<and> rc_started s)
    \<and> (\<forall>c t d tasks. rc_claims s c = ClaimCommitted \<longrightarrow> rt_step\<^sup>*\<^sup>* s t \<longrightarrow> rc_calls t d = RunAcquire tasks \<longrightarrow>
        run_acquire d tasks t = caller_goto d (CallerReturned False (Inl AlreadyRunning)) t)
    \<and> rc_launched s = (if rc_started s then launched_workers (rc_settings s) else [])"
  by (intro conjI; ((rule allI)+)?; ((rule impI)+)?; rule static_run_exclusive_parts[OF assms]; assumption)

section \<open>A run\<close>

text \<open>
  Call 0 is an empty static run that ends when the registry is empty, call 1 asks for shutdown
  afterwards, and call 2 tries a second static run; nobody is stuck and every phase is clean.
\<close>

definition life_settings :: core_settings where
  "life_settings =
     \<lparr>st_max_registered = Some 2, st_capacity = None, st_ownership_slots = 0, st_grace = 5, st_bus_enabled = True, st_controller = False\<rparr>"

definition life_driving :: runtime_core where
  "life_driving =
     run_start 0 NextDrive (Some 1) (Inr ()) []
       (run_checked 0 NextDrive
         (run_preflight 0 []
           (run_acquire 0 []
             (caller_goto 0 (RunAcquire []) (core_new life_settings 4)))))"

definition life_spawned :: runtime_core where
  "life_spawned =
     begin_spawn 0 TriggerNatural True 0
       (begin_signal 0 TriggerNatural True 0
         (begin_install 0 TriggerNatural True
           (begin_lock 0 TriggerNatural None
             (caller_goto 0 (BeginShutdown TriggerNatural) life_driving))))"

definition life_drained :: runtime_core where
  "life_drained =
     owner_enter 0 False ShutdownCompleted True
       (owner_joins 0 [] [] (owner_cancel_all 0 [] 1 (owner_fence 0 TriggerNatural True life_spawned)))"

definition life_published :: runtime_core where
  "life_published =
     owner_publish 0 ShutdownCompleted
       (owner_tail_end 0 False ShutdownCompleted True
         (owner_phase 0 False ShutdownCompleted CloseSubscribers [] True PhaseClean
           (owner_phase 0 False ShutdownCompleted JoinRelay [CloseSubscribers] True PhaseClean
             (owner_phase 0 False ShutdownCompleted JoinRegistry [JoinRelay, CloseSubscribers] True PhaseClean
               (owner_phase 0 False ShutdownCompleted CancelListeners [JoinRegistry, JoinRelay, CloseSubscribers] True PhaseClean
                 life_drained)))))"

definition life_returned :: runtime_core where
  "life_returned =
     operation_wait 1 0
       (begin_lock 1 TriggerRequested None
         (caller_goto 1 (BeginShutdown TriggerRequested) (operation_wait 0 0 life_published)))"

definition life_second :: runtime_core where
  "life_second = caller_goto 2 (RunAcquire []) life_returned"

lemmas life_defs = life_settings_def core_new_def runtime_defs run_limit_def cleanup_phases_def from_drain_result_def
  batch_items_def

lemmas rt_run = rtranclp.rtrancl_into_rtrancl[where r = rt_step]

lemma life_driving_state:
  "rc_calls life_driving = (\<lambda>_. CallerIdle)(0 := RunDrive)" "rc_claims life_driving = (\<lambda>_. NoClaim)(0 := ClaimCommitted)"
  "rc_started life_driving" "rc_public life_driving" "rc_operation life_driving = None" "rc_operation_lock life_driving = None"
  "rc_startup_runtime life_driving = Some 1" "rc_next_operation life_driving = 0" "rc_owner life_driving = (\<lambda>_. OwnerNone)"
  "rc_settings life_driving = life_settings" "rc_acts life_driving = (\<lambda>_. [])" "rc_outcome life_driving = (\<lambda>_. None)"
  by (simp_all add: life_driving_def life_defs)

lemma life_driving_run: "rt_step\<^sup>*\<^sup>* (core_new life_settings 4) life_driving"
  unfolding life_driving_def
  by (intro rt_run[OF _ rt_step.start] rt_run[OF _ rt_step.empty] rt_run[OF _ rt_step.preflight]
      rt_run[OF _ rt_step.acquire] rt_run[OF _ rt_step.run] rtranclp.rtrancl_refl)
    (simp_all add: life_defs)

lemma life_spawned_state:
  "rc_calls life_spawned = (\<lambda>_. CallerIdle)(0 := OperationWait 0)" "rc_claims life_spawned = (\<lambda>_. NoClaim)(0 := ClaimCommitted)"
  "rc_started life_spawned" "rc_public life_spawned" "rc_operation life_spawned = Some 0" "rc_operation_lock life_spawned = None"
  "rc_owner life_spawned = (\<lambda>_. OwnerNone)(0 := OwnerFence TriggerNatural)" "rc_settings life_spawned = life_settings"
  "rc_acts life_spawned = (\<lambda>_. [])" "rc_outcome life_spawned = (\<lambda>_. None)"
  by (simp_all add: life_spawned_def life_driving_state runtime_defs)

lemma life_spawned_run: "rt_step\<^sup>*\<^sup>* life_driving life_spawned"
  unfolding life_spawned_def
  by (intro rt_run[OF _ rt_step.spawn] rt_run[OF _ rt_step.signal] rt_run[OF _ rt_step.install] rt_run[OF _ rt_step.lock]
      rt_run[OF _ rt_step.batch_trigger[where items = "[]"]] rtranclp.rtrancl_refl)
    (simp_all add: life_driving_state runtime_defs)

lemma life_drained_state:
  "rc_calls life_drained = rc_calls life_spawned" "rc_claims life_drained = rc_claims life_spawned"
  "rc_started life_drained" "rc_public life_drained" "rc_operation life_drained = Some 0" "rc_operation_lock life_drained = None"
  "rc_owner life_drained = (\<lambda>_. OwnerNone)(0 := OwnerTail False ShutdownCompleted [CancelListeners, JoinRegistry, JoinRelay, CloseSubscribers] True)"
  "rc_acts life_drained = (\<lambda>_. [])(0 := [Fenced True, CancelledAll [], JoinsWaited []])" "rc_outcome life_drained = (\<lambda>_. None)"
  by (simp_all add: life_drained_def life_spawned_state runtime_defs from_drain_result_def cleanup_phases_def life_settings_def)

lemma life_drained_run: "rt_step\<^sup>*\<^sup>* life_spawned life_drained"
  unfolding life_drained_def
  by (intro rt_run[OF _ rt_step.enter] rt_run[OF _ rt_step.joins] rt_run[OF _ rt_step.cancel_all] rt_run[OF _ rt_step.fence]
      rtranclp.rtrancl_refl)
    (simp_all add: life_spawned_state runtime_defs from_drain_result_def)

lemma life_published_state:
  "rc_calls life_published = rc_calls life_spawned" "rc_claims life_published = rc_claims life_spawned"
  "rc_started life_published" "rc_public life_published" "rc_operation life_published = Some 0" "rc_operation_lock life_published = None"
  "rc_owner life_published = (\<lambda>_. OwnerNone)(0 := OwnerGone)" "rc_outcome life_published = (\<lambda>_. None)(0 := Some ShutdownCompleted)"
  by (simp_all add: life_published_def life_drained_state runtime_defs)

lemma life_published_run: "rt_step\<^sup>*\<^sup>* life_drained life_published"
  unfolding life_published_def
  by (intro rt_run[OF _ rt_step.publish] rt_run[OF _ rt_step.tail_end] rt_run[OF _ rt_step.phase] rtranclp.rtrancl_refl)
    (simp_all add: life_drained_state runtime_defs)

lemma life_returned_state:
  "rc_calls life_returned = (\<lambda>_. CallerIdle)(0 := CallerReturned True (Inr ()), 1 := CallerReturned True (Inr ()))"
  "rc_claims life_returned = (\<lambda>_. NoClaim)(0 := ClaimCommitted)" "rc_public life_returned"
  by (simp_all add: life_returned_def life_published_state life_spawned_state runtime_defs)

lemma life_returned_run: "rt_step\<^sup>*\<^sup>* life_published life_returned"
  unfolding life_returned_def
  by (intro rt_run[OF _ rt_step.wait] rt_run[OF _ rt_step.lock] rt_run[OF _ rt_step.shutdown] rtranclp.rtrancl_refl)
    (simp_all add: life_published_state life_spawned_state runtime_defs)

lemma life_reachable:
  "rt_reachable life_driving" "rt_reachable life_spawned" "rt_reachable life_returned"
proof -
  have init: "rt_init (core_new life_settings 4)" by (auto simp: rt_init_def)
  show "rt_reachable life_driving" "rt_reachable life_spawned" "rt_reachable life_returned"
    using init life_driving_run life_spawned_run life_drained_run life_published_run life_returned_run
    unfolding rt_reachable_def by (meson rtranclp_trans)+
qed

theorem shutdown_outcome_shared_witness:
  "rt_reachable life_returned \<and> rc_calls life_returned 0 = CallerReturned True (Inr ())
   \<and> rc_calls life_returned 1 = CallerReturned True (Inr ())
   \<and> (\<exists>controller. rc_acts life_returned 0 = [Fenced True, CancelledAll [], JoinsWaited []]
        @ map (\<lambda>p. PhaseEnded p PhaseClean) (cleanup_phases controller))"
  using shutdown_outcome_shared[OF life_reachable(3)] life_reachable(3) life_returned_state(1) by auto

theorem shutdown_owner_finishes_witness:
  "rt_reachable life_spawned \<and> rc_operation life_spawned = Some 0
   \<and> (\<exists>t. rt_step\<^sup>*\<^sup>* life_spawned t \<and> rc_owner t 0 = OwnerGone \<and> rc_outcome t 0 \<noteq> None)"
  using shutdown_owner_finishes[OF life_reachable(2), of 0] life_reachable(2) life_spawned_state by auto

theorem static_run_exclusive_witness:
  "rt_reachable life_driving \<and> rc_claims life_driving 0 = ClaimCommitted \<and> rc_calls life_second 2 = RunAcquire []
   \<and> rc_calls (run_acquire 2 [] life_second) 2 = CallerReturned False (Inl AlreadyRunning)"
proof -
  have "rt_step life_returned life_second"
    unfolding life_second_def by (rule rt_step.run) (simp_all add: life_returned_state)
  then have "rt_step\<^sup>*\<^sup>* life_driving life_second"
    using life_spawned_run life_drained_run life_published_run life_returned_run by (meson rtranclp_trans rtranclp.rtrancl_into_rtrancl)
  moreover have "rc_calls life_second 2 = RunAcquire []" by (simp add: life_second_def)
  ultimately show ?thesis
    using static_run_exclusive[OF life_reachable(1)] life_reachable(1) life_driving_state(2) by (metis calls_simps(1) fun_upd_same)
qed

end
