(* ===== verification/Event_Bus.thy ===== *)
theory Event_Bus
  imports Events
begin

text \<open>
  The bounded event ring and the relay that empties it (\<^verbatim>\<open>src/src/events/bus.rs\<close>,
  \<^verbatim>\<open>src/src/core/runtime/event_relay.rs\<close>). Publishing never waits: a full ring gives up its oldest event
  and counts it, and the next received message carries the count. The operations under the ring mutex
  are single steps; the check of the enabled flag before them is a step of its own, so that a
  publisher may arrive at the ring after the relay has closed it. What the relay hands to the
  subscribers is a list of events.
\<close>

section \<open>The ring\<close>

record ring_state =
  rs_events :: "event list"
  rs_dropped :: nat
  rs_closed :: bool

definition saturating_add_u64 :: "nat \<Rightarrow> nat \<Rightarrow> nat" where
  "saturating_add_u64 a b = min (a + b) u64_max"

text \<open>The displaced event and whether the ring was empty before.\<close>

definition push_retaining_newest :: "event \<Rightarrow> nat \<Rightarrow> ring_state \<Rightarrow> (event option \<times> bool) \<times> ring_state" where
  "push_retaining_newest e capacity r =
     (let was_empty = (rs_events r = []);
          (displaced, r) =
            (if length (rs_events r) = capacity
             then (case rs_events r of
                     [] \<Rightarrow> (None, r\<lparr>rs_dropped := saturating_add_u64 (rs_dropped r) 1\<rparr>)
                   | x # xs \<Rightarrow> (Some x, r\<lparr>rs_dropped := saturating_add_u64 (rs_dropped r) 1, rs_events := xs\<rparr>))
             else (None, r))
      in ((displaced, was_empty), r\<lparr>rs_events := rs_events r @ [e]\<rparr>))"

record bus =
  bus_capacity :: nat
  bus_ring :: ring_state
  bus_enabled :: bool
  bus_receiver_taken :: bool

datatype bus_message = Received event | Lagged nat event

definition bus_new :: "nat \<Rightarrow> bus" where
  "bus_new capacity =
     \<lparr>bus_capacity = max capacity 1, bus_ring = \<lparr>rs_events = [], rs_dropped = 0, rs_closed = False\<rparr>,
      bus_enabled = False, bus_receiver_taken = False\<rparr>"

text \<open>\<open>publish_enabled\<close>: whether the receiver is notified, and the new bus.\<close>

definition publish_enabled :: "event \<Rightarrow> bus \<Rightarrow> bool \<times> bus" where
  "publish_enabled e b =
     (if rs_closed (bus_ring b) then (False, b)
      else case push_retaining_newest e (bus_capacity b) (bus_ring b) of
             ((_, became_nonempty), r) \<Rightarrow> (became_nonempty, b\<lparr>bus_ring := r\<rparr>))"

definition publish_lazy :: "(unit \<Rightarrow> event) \<Rightarrow> bus \<Rightarrow> bool \<times> bus" where
  "publish_lazy make_event b = (if bus_enabled b then publish_enabled (make_event ()) b else (False, b))"

definition bus_enable :: "bus \<Rightarrow> bus" where
  "bus_enable b = (if rs_closed (bus_ring b) then b else b\<lparr>bus_enabled := True\<rparr>)"

text \<open>The second receiver is the failed assertion, \<open>None\<close>.\<close>

definition take_receiver :: "bus \<Rightarrow> bus option" where
  "take_receiver b =
     (let b = bus_enable b in if bus_receiver_taken b then None else Some (b\<lparr>bus_receiver_taken := True\<rparr>))"

definition try_message :: "bus \<Rightarrow> bus_message option \<times> bus" where
  "try_message b =
     (case rs_events (bus_ring b) of
        [] \<Rightarrow> (None, b)
      | e # es \<Rightarrow>
          (Some (if rs_dropped (bus_ring b) = 0 then Received e else Lagged (rs_dropped (bus_ring b)) e),
           b\<lparr>bus_ring := (bus_ring b)\<lparr>rs_events := es, rs_dropped := 0\<rparr>\<rparr>))"

definition close_and_take_pending :: "bus \<Rightarrow> (event list \<times> nat) \<times> bus" where
  "close_and_take_pending b =
     ((rs_events (bus_ring b), rs_dropped (bus_ring b)),
      b\<lparr>bus_ring := \<lparr>rs_events = [], rs_dropped = 0, rs_closed = True\<rparr>, bus_enabled := False\<rparr>)"

section \<open>The relay\<close>

definition shutdown_relay_drain_limit :: nat where
  "shutdown_relay_drain_limit = 1024"

definition lagged_event :: "nat \<Rightarrow> event" where
  "lagged_event dropped =
     with_dropped dropped (subscriber_overflow ''subscriber_listener'' [Lit ''lagged('', NatArg dropped, Lit '')''])"

text \<open>One iteration of the relay: what it emits for a message.\<close>

definition relay_message :: "bus_message \<Rightarrow> event list" where
  "relay_message m = (case m of Received e \<Rightarrow> [e] | Lagged skipped e \<Rightarrow> [e, lagged_event skipped])"

fun drain_loop :: "nat \<Rightarrow> nat \<Rightarrow> bus \<Rightarrow> event list \<times> nat \<times> bus" where
  "drain_loop 0 dropped b = ([], dropped, b)"
| "drain_loop (Suc n) dropped b =
     (case try_message b of
        (None, b) \<Rightarrow> ([], dropped, b)
      | (Some (Received e), b) \<Rightarrow> (case drain_loop n dropped b of (es, d, b) \<Rightarrow> (e # es, d, b))
      | (Some (Lagged skipped e), b) \<Rightarrow>
          (case drain_loop n (saturating_add_u64 dropped skipped) b of (es, d, b) \<Rightarrow> (e # es, d, b)))"

definition drain_pending :: "bus \<Rightarrow> event list \<times> bus" where
  "drain_pending b =
     (case drain_loop (min (bus_capacity b) shutdown_relay_drain_limit) 0 b of
        (es, dropped, b) \<Rightarrow>
          (case close_and_take_pending b of
             ((pending, skipped), b) \<Rightarrow>
               (let dropped = saturating_add_u64 (saturating_add_u64 dropped skipped) (min (length pending) u64_max)
                in (es @ (if dropped \<noteq> 0 then [lagged_event dropped] else []), b))))"

section \<open>Publishers and the receiver\<close>

text \<open>
  Ghost state: the events that entered the ring and the messages the receiver took, in order.
  A publisher step stands for a publisher that passed the enabled check at some earlier moment.
\<close>

record bus_system =
  by_bus :: bus
  by_published :: "event list"
  by_received :: "bus_message list"
  by_closed_with :: "(event list \<times> nat) option"

definition sys_publish :: "event \<Rightarrow> bus_system \<Rightarrow> bus_system" where
  "sys_publish e s =
     (let s' = s\<lparr>by_bus := snd (publish_enabled e (by_bus s))\<rparr>
      in if rs_closed (bus_ring (by_bus s)) then s' else s'\<lparr>by_published := by_published s @ [e]\<rparr>)"

definition sys_receive :: "bus_system \<Rightarrow> bus_system" where
  "sys_receive s =
     (case try_message (by_bus s) of
        (None, b) \<Rightarrow> s\<lparr>by_bus := b\<rparr>
      | (Some m, b) \<Rightarrow> s\<lparr>by_bus := b, by_received := by_received s @ [m]\<rparr>)"

definition sys_close :: "bus_system \<Rightarrow> bus_system" where
  "sys_close s =
     (case close_and_take_pending (by_bus s) of (p, b) \<Rightarrow> s\<lparr>by_bus := b, by_closed_with := Some p\<rparr>)"

inductive bus_step :: "bus_system \<Rightarrow> bus_system \<Rightarrow> bool" where
  publish: "bus_step s (sys_publish e s)"
| receive: "bus_step s (sys_receive s)"
| enable: "bus_step s (s\<lparr>by_bus := bus_enable (by_bus s)\<rparr>)"
| close: "by_closed_with s = None \<Longrightarrow> bus_step s (sys_close s)"

definition bus_init :: "bus_system \<Rightarrow> bool" where
  "bus_init s \<longleftrightarrow>
     (\<exists>capacity. s = \<lparr>by_bus = bus_new capacity, by_published = [], by_received = [], by_closed_with = None\<rparr>)"

definition bus_reachable :: "bus_system \<Rightarrow> bool" where
  "bus_reachable s \<longleftrightarrow> (\<exists>s0. bus_init s0 \<and> bus_step\<^sup>*\<^sup>* s0 s)"

text \<open>
  What a sequence of messages says about the published events: each message names an event after
  exactly as many lost ones as it reports.
\<close>

definition message_loss :: "bus_message \<Rightarrow> nat" where
  "message_loss m = (case m of Received _ \<Rightarrow> 0 | Lagged n _ \<Rightarrow> n)"

definition message_event :: "bus_message \<Rightarrow> event" where
  "message_event m = (case m of Received e \<Rightarrow> e | Lagged _ e \<Rightarrow> e)"

fun explains :: "bus_message list \<Rightarrow> event list \<Rightarrow> bool" where
  "explains [] es \<longleftrightarrow> es = []"
| "explains (m # ms) es \<longleftrightarrow>
     message_loss m < length es \<and> es ! message_loss m = message_event m \<and> explains ms (drop (Suc (message_loss m)) es)"

lemma explains_append:
  "explains ms es \<Longrightarrow> length gap = message_loss m \<Longrightarrow> explains (ms @ [m]) (es @ gap @ [message_event m])"
  by (induction ms es rule: explains.induct) (auto simp: nth_append)

section \<open>Invariant\<close>

definition bus_ok :: "bus_system \<Rightarrow> bool" where
  "bus_ok s \<longleftrightarrow>
     0 < bus_capacity (by_bus s)
     \<and> length (rs_events (bus_ring (by_bus s))) \<le> bus_capacity (by_bus s)
     \<and> (case by_closed_with s of
          None \<Rightarrow>
            \<not> rs_closed (bus_ring (by_bus s))
            \<and> (\<exists>hist gap. by_published s = hist @ gap @ rs_events (bus_ring (by_bus s))
                 \<and> explains (by_received s) hist
                 \<and> rs_dropped (bus_ring (by_bus s)) = length gap
                 \<and> (gap \<noteq> [] \<longrightarrow> length (rs_events (bus_ring (by_bus s))) = bus_capacity (by_bus s)))
        | Some (pending, dropped) \<Rightarrow>
            rs_closed (bus_ring (by_bus s)) \<and> rs_events (bus_ring (by_bus s)) = [] \<and> \<not> bus_enabled (by_bus s)
            \<and> (\<exists>hist gap. by_published s = hist @ gap @ pending \<and> explains (by_received s) hist \<and> dropped = length gap))"

text \<open>The loss counter is 64 bits wide and saturates: the account is exact below that many events.\<close>

definition bus_inv :: "bus_system \<Rightarrow> bool" where
  "bus_inv s \<longleftrightarrow> length (by_published s) \<le> u64_max \<longrightarrow> bus_ok s"

lemma push_cases:
  assumes "0 < capacity" "length (rs_events r) \<le> capacity"
  obtains "length (rs_events r) < capacity"
      "push_retaining_newest e capacity r = ((None, rs_events r = []), r\<lparr>rs_events := rs_events r @ [e]\<rparr>)"
  | x xs where "length (rs_events r) = capacity" "rs_events r = x # xs"
      "push_retaining_newest e capacity r = ((Some x, False),
         r\<lparr>rs_events := xs @ [e], rs_dropped := saturating_add_u64 (rs_dropped r) 1\<rparr>)"
proof (cases "length (rs_events r) = capacity")
  case True
  then obtain x xs where "rs_events r = x # xs" using assms(1) by (cases "rs_events r") auto
  with True that(2) show thesis by (simp add: push_retaining_newest_def)
next
  case False
  with assms that(1) show thesis by (simp add: push_retaining_newest_def)
qed

lemma ok_publish:
  assumes ok: "bus_ok s" and small: "length (by_published s) < u64_max"
  shows "bus_ok (sys_publish e s)"
proof (cases "by_closed_with s")
  case None
  let ?r = "bus_ring (by_bus s)" and ?c = "bus_capacity (by_bus s)"
  from ok None obtain hist gap where
    open': "\<not> rs_closed ?r" and pub: "by_published s = hist @ gap @ rs_events ?r" and ex: "explains (by_received s) hist"
    and dropped: "rs_dropped ?r = length gap" and full: "gap \<noteq> [] \<longrightarrow> length (rs_events ?r) = ?c"
    and cap: "0 < ?c" "length (rs_events ?r) \<le> ?c"
    by (auto simp: bus_ok_def)
  from push_cases[OF cap, of e] show ?thesis
  proof cases
    case 1
    then have "gap = []" using full by auto
    with 1 None open' pub ex dropped cap show ?thesis
      by (auto simp: bus_ok_def sys_publish_def publish_enabled_def)
  next
    case (2 x xs)
    have "saturating_add_u64 (length gap) 1 = length (gap @ [x])"
      using small pub by (simp add: saturating_add_u64_def)
    moreover have "by_published s @ [e] = hist @ (gap @ [x]) @ (xs @ [e])" using pub 2 by simp
    ultimately have "\<exists>hist gap'. by_published s @ [e] = hist @ gap' @ xs @ [e] \<and> explains (by_received s) hist
        \<and> saturating_add_u64 (length gap) 1 = length gap'"
      using ex by blast
    with 2 None open' dropped cap show ?thesis
      by (simp add: bus_ok_def sys_publish_def publish_enabled_def)
  qed
next
  case (Some p)
  with ok show ?thesis by (cases p) (simp add: bus_ok_def sys_publish_def publish_enabled_def)
qed

lemma ok_receive:
  assumes ok: "bus_ok s"
  shows "bus_ok (sys_receive s)"
proof (cases "rs_events (bus_ring (by_bus s))")
  case Nil
  with ok show ?thesis by (simp add: sys_receive_def try_message_def)
next
  case (Cons e es)
  let ?r = "bus_ring (by_bus s)"
  let ?m = "if rs_dropped ?r = 0 then Received e else Lagged (rs_dropped ?r) e"
  from ok Cons have none: "by_closed_with s = None" by (auto simp: bus_ok_def split: option.splits)
  with ok obtain hist gap where
    open': "\<not> rs_closed ?r" and pub: "by_published s = hist @ gap @ rs_events ?r" and ex: "explains (by_received s) hist"
    and dropped: "rs_dropped ?r = length gap" and cap: "0 < bus_capacity (by_bus s)" "length (rs_events ?r) \<le> bus_capacity (by_bus s)"
    by (auto simp: bus_ok_def)
  have "length gap = message_loss ?m" "message_event ?m = e" by (simp_all add: dropped message_loss_def message_event_def)
  with explains_append[OF ex, of gap ?m] have "explains (by_received s @ [?m]) (hist @ gap @ [e])" by simp
  moreover have "by_published s = (hist @ gap @ [e]) @ [] @ es" using pub Cons by simp
  ultimately have "\<exists>hist gap. by_published s = hist @ gap @ es \<and> explains (by_received s @ [?m]) hist \<and> gap = []" by blast
  with Cons none open' cap show ?thesis by (simp add: bus_ok_def sys_receive_def try_message_def)
qed

lemma ok_close: "bus_ok s \<Longrightarrow> by_closed_with s = None \<Longrightarrow> bus_ok (sys_close s)"
  by (auto simp: bus_ok_def sys_close_def close_and_take_pending_def)

lemma ok_enable: "bus_ok s \<Longrightarrow> bus_ok (s\<lparr>by_bus := bus_enable (by_bus s)\<rparr>)"
  by (auto simp: bus_ok_def bus_enable_def split: option.splits)

lemma published_after:
  "by_published (sys_publish e s) = by_published s @ (if rs_closed (bus_ring (by_bus s)) then [] else [e])"
  "by_published (sys_receive s) = by_published s" "by_published (sys_close s) = by_published s"
  by (auto simp: sys_publish_def sys_receive_def sys_close_def Let_def split: option.splits prod.splits)

interpretation bus: inductive_invariant bus_init bus_step bus_inv
proof
  show "bus_init s \<Longrightarrow> bus_inv s" for s
    by (auto simp: bus_init_def bus_new_def bus_inv_def bus_ok_def)
  have closed: "bus_ok (sys_publish e s)" if "bus_ok s" "rs_closed (bus_ring (by_bus s))" for e s
    using that by (simp add: sys_publish_def publish_enabled_def)
  show "bus_inv s \<Longrightarrow> bus_step s t \<Longrightarrow> bus_inv t" for s t
    by (erule bus_step.cases)
      (auto simp: bus_inv_def published_after ok_receive ok_close ok_enable closed intro!: ok_publish split: if_splits)
qed

lemma bus_reachable_inv: "bus_reachable s \<Longrightarrow> bus_inv s"
  unfolding bus_reachable_def using bus.good_reachable by blast

section \<open>Publishing and reading back\<close>

definition publish_all :: "event list \<Rightarrow> bus \<Rightarrow> bus" where
  "publish_all es b = fold (\<lambda>e b. snd (publish_enabled e b)) es b"

fun receive_all :: "nat \<Rightarrow> bus \<Rightarrow> bus_message list \<times> bus" where
  "receive_all 0 b = ([], b)"
| "receive_all (Suc n) b =
     (case try_message b of
        (None, b) \<Rightarrow> ([], b)
      | (Some m, b) \<Rightarrow> (case receive_all n b of (ms, b) \<Rightarrow> (m # ms, b)))"

lemma publish_all_new:
  "publish_all es (bus_enable (bus_new c)) =
     \<lparr>bus_capacity = max c 1,
      bus_ring = \<lparr>rs_events = drop (length es - max c 1) es, rs_dropped = min (length es - max c 1) u64_max, rs_closed = False\<rparr>,
      bus_enabled = True, bus_receiver_taken = False\<rparr>"
proof (induction es rule: rev_induct)
  case Nil
  then show ?case by (simp add: publish_all_def bus_enable_def bus_new_def)
next
  case (snoc e es)
  let ?n = "length es - max c 1"
  let ?r = "\<lparr>rs_events = drop ?n es, rs_dropped = min ?n u64_max, rs_closed = False\<rparr>"
  have step: "publish_all (es @ [e]) (bus_enable (bus_new c)) = snd (publish_enabled e (publish_all es (bus_enable (bus_new c))))"
    by (simp add: publish_all_def)
  have cap: "0 < max c 1" "length (rs_events ?r) \<le> max c 1" by auto
  from push_cases[OF cap, of e] show ?case
  proof cases
    case 1
    then have "length es < max c 1" by auto
    with 1 show ?thesis unfolding step snoc.IH by (simp add: publish_enabled_def)
  next
    case (2 x xs)
    then have n: "length es \<ge> max c 1" "length (es @ [e]) - max c 1 = Suc ?n" by auto
    have "xs = drop (Suc ?n) es" using arg_cong[OF 2(2), of tl] by (simp add: drop_Suc drop_tl)
    moreover have "saturating_add_u64 (min ?n u64_max) 1 = min (Suc ?n) u64_max"
      by (simp add: saturating_add_u64_def min_def)
    moreover have "Suc ?n \<le> length es" using n(1) by auto
    ultimately show ?thesis unfolding step snoc.IH n(2) using 2(3) by (simp add: publish_enabled_def)
  qed
qed

lemma receive_all_plain:
  "bus_ring b = \<lparr>rs_events = es, rs_dropped = 0, rs_closed = x\<rparr> \<Longrightarrow> length es \<le> n \<Longrightarrow>
     receive_all n b = (map Received es, b\<lparr>bus_ring := \<lparr>rs_events = [], rs_dropped = 0, rs_closed = x\<rparr>\<rparr>)"
proof (induction n b arbitrary: es rule: receive_all.induct)
  case (2 n b)
  show ?case
  proof (cases es)
    case (Cons e es')
    with 2 show ?thesis by (simp add: try_message_def)
  qed (use 2 in \<open>simp add: try_message_def\<close>)
qed simp

lemma drain_loop_plain:
  "rs_dropped (bus_ring b) = 0 \<Longrightarrow>
     drain_loop n d b = (take n (rs_events (bus_ring b)), d, b\<lparr>bus_ring := (bus_ring b)\<lparr>rs_events := drop n (rs_events (bus_ring b))\<rparr>\<rparr>)"
proof (induction n d b rule: drain_loop.induct)
  case (2 n d b)
  then show ?case by (cases "rs_events (bus_ring b)") (simp_all add: try_message_def)
qed simp

text \<open>The final drain: what is emitted and what the last diagnostic counts.\<close>

lemma drain_pending_eq:
  assumes "rs_dropped (bus_ring b) \<le> u64_max" "0 < bus_capacity b"
  defines "k \<equiv> min (bus_capacity b) shutdown_relay_drain_limit"
  defines "lost \<equiv> min (rs_dropped (bus_ring b) + (length (rs_events (bus_ring b)) - k)) u64_max"
  shows "drain_pending b = (take k (rs_events (bus_ring b)) @ (if lost \<noteq> 0 then [lagged_event lost] else []),
    b\<lparr>bus_ring := \<lparr>rs_events = [], rs_dropped = 0, rs_closed = True\<rparr>, bus_enabled := False\<rparr>)"
proof (cases "rs_events (bus_ring b)")
  case Nil
  then have "drain_loop k 0 b = ([], 0, b)" by (cases k) (simp_all add: try_message_def)
  with Nil assms show ?thesis
    by (simp add: drain_pending_def close_and_take_pending_def saturating_add_u64_def Let_def)
next
  case (Cons e es)
  let ?b = "b\<lparr>bus_ring := (bus_ring b)\<lparr>rs_events := es, rs_dropped := 0\<rparr>\<rparr>"
  obtain k' where k': "k = Suc k'" using assms(2) by (cases k) (auto simp: k_def shutdown_relay_drain_limit_def)
  have "drain_loop k 0 b = (take k (e # es), saturating_add_u64 0 (rs_dropped (bus_ring b)),
      ?b\<lparr>bus_ring := (bus_ring ?b)\<lparr>rs_events := drop k' es\<rparr>\<rparr>)"
    using Cons k' drain_loop_plain[of ?b k'] by (simp add: try_message_def saturating_add_u64_def)
  with Cons k' assms show ?thesis
    by (simp add: drain_pending_def close_and_take_pending_def saturating_add_u64_def Let_def min_def k_def[symmetric])
qed

section \<open>Properties\<close>

text \<open>A run used by the witness: capacity one, two events published, one received.\<close>

definition demo_event :: "nat \<Rightarrow> event" where
  "demo_event n = with_attempt n (event_new AttemptStarting)"

definition demo_bus :: bus_system where
  "demo_bus = sys_receive (sys_publish (demo_event 2) (sys_publish (demo_event 1)
     \<lparr>by_bus = bus_new 1, by_published = [], by_received = [], by_closed_with = None\<rparr>))"

lemma demo_bus_reachable: "bus_reachable demo_bus"
proof -
  let ?s = "\<lparr>by_bus = bus_new 1, by_published = [], by_received = [], by_closed_with = None\<rparr>"
  let ?t = "sys_publish (demo_event 2) (sys_publish (demo_event 1) ?s)"
  have "bus_step\<^sup>*\<^sup>* ?s ?t"
    by (meson bus_step.publish rtranclp.rtrancl_into_rtrancl rtranclp.rtrancl_refl)
  then have "bus_step\<^sup>*\<^sup>* ?s demo_bus"
    unfolding demo_bus_def by (rule rtranclp.rtrancl_into_rtrancl) (rule bus_step.receive)
  moreover have "bus_init ?s" unfolding bus_init_def by blast
  ultimately show ?thesis unfolding bus_reachable_def by blast
qed

lemma demo_bus_eq:
  "by_published demo_bus = [demo_event 1, demo_event 2]" "by_received demo_bus = [Lagged 1 (demo_event 2)]"
  "by_closed_with demo_bus = None" "rs_events (bus_ring (by_bus demo_bus)) = []"
  by (simp_all add: demo_bus_def sys_receive_def sys_publish_def publish_enabled_def push_retaining_newest_def
      bus_new_def try_message_def saturating_add_u64_def u64_max_def Let_def)

text \<open>
  C20. The receiver is told about every lost event. In every reachable state of an open bus, with any
  interleaving of publishers and the receiver and fewer than \<open>2 ^ 64\<close> events, the published sequence is
  what the received messages explain, in which each message names an event after exactly as many lost
  ones as it reports, then a gap of exactly the pending loss count, then the retained events, which are
  the newest and at most the capacity; and events are only lost from a full ring.
\<close>
theorem bus_reports_every_loss:
  assumes "bus_reachable s" "by_closed_with s = None" "length (by_published s) \<le> u64_max"
  shows "\<exists>hist gap. by_published s = hist @ gap @ rs_events (bus_ring (by_bus s))
    \<and> explains (by_received s) hist
    \<and> length gap = rs_dropped (bus_ring (by_bus s))
    \<and> length (rs_events (bus_ring (by_bus s))) \<le> bus_capacity (by_bus s)
    \<and> (gap \<noteq> [] \<longrightarrow> length (rs_events (bus_ring (by_bus s))) = bus_capacity (by_bus s))"
proof -
  have "bus_ok s" using bus_reachable_inv[OF assms(1)] assms(3) by (simp add: bus_inv_def)
  then show ?thesis using assms(2) unfolding bus_ok_def by (simp only: option.case) metis
qed

theorem bus_reports_every_loss_witness:
  "\<exists>gap. [demo_event 1, demo_event 2] = [demo_event 1, demo_event 2] @ gap \<and> length gap = rs_dropped (bus_ring (by_bus demo_bus))
     \<and> explains [Lagged 1 (demo_event 2)] [demo_event 1, demo_event 2]"
proof -
  have "length (by_published demo_bus) \<le> u64_max" by (simp add: demo_bus_eq u64_max_def)
  from bus_reports_every_loss[OF demo_bus_reachable demo_bus_eq(3) this] show ?thesis
    by (auto simp: demo_bus_eq Cons_eq_append_conv message_loss_def message_event_def)
qed

lemma ring_round_trip_parts:
  fixes es :: "event list" and c :: nat
  defines "b \<equiv> publish_all es (bus_enable (bus_new c))"
    and "lost \<equiv> length es - max c 1"
    and "unsent \<equiv> length es - min (max c 1) 1024"
  shows "fst (receive_all (length es) b) =
      (if lost = 0 then map Received es
       else Lagged (min lost u64_max) (es ! lost) # map Received (drop (Suc lost) es))
    \<and> fst (drain_pending b) = take (min (max c 1) 1024) (drop lost es)
         @ (if unsent \<noteq> 0 then [lagged_event (min unsent u64_max)] else [])
    \<and> snd (publish_enabled e (snd (drain_pending b))) = snd (drain_pending b)
    \<and> rs_events (bus_ring (snd (drain_pending b))) = []"
proof -
  note b = publish_all_new[of es c, folded b_def lost_def]
  have recv: "fst (receive_all (length es) b) =
      (if lost = 0 then map Received es
       else Lagged (min lost u64_max) (es ! lost) # map Received (drop (Suc lost) es))"
  proof (cases "lost = 0")
    case True
    with b receive_all_plain[of b es False "length es"] show ?thesis by simp
  next
    case False
    then have l: "lost < length es" by (auto simp: lost_def)
    then obtain n where n: "length es = Suc n" by (cases "length es") auto
    let ?b = "b\<lparr>bus_ring := \<lparr>rs_events = drop (Suc lost) es, rs_dropped = 0, rs_closed = False\<rparr>\<rparr>"
    have "drop lost es = es ! lost # drop (Suc lost) es" using l by (simp add: Cons_nth_drop_Suc)
    moreover have "min lost u64_max \<noteq> 0" using False by (simp add: u64_max_def)
    ultimately have "try_message b = (Some (Lagged (min lost u64_max) (es ! lost)), ?b)"
      using b by (simp add: try_message_def)
    moreover have "receive_all n ?b = (map Received (drop (Suc lost) es), ?b\<lparr>bus_ring := \<lparr>rs_events = [], rs_dropped = 0, rs_closed = False\<rparr>\<rparr>)"
      by (rule receive_all_plain) (use n in auto)
    ultimately show ?thesis using False n by simp
  qed
  have k: "min lost u64_max + (length (drop lost es) - min (max c 1) 1024) = min lost u64_max + (unsent - lost)"
    by (simp add: lost_def unsent_def add.commute)
  have "lost \<le> unsent" by (auto simp: lost_def unsent_def)
  then have total: "min (min lost u64_max + (unsent - lost)) u64_max = min unsent u64_max" by auto
  have sel: "rs_events (bus_ring b) = drop lost es" "rs_dropped (bus_ring b) = min lost u64_max" "bus_capacity b = max c 1"
    by (simp_all only: b bus.simps ring_state.simps)
  have pos: "min unsent u64_max \<noteq> 0 \<longleftrightarrow> unsent \<noteq> 0" by (simp add: u64_max_def)
  have "drain_pending b = (take (min (max c 1) 1024) (drop lost es)
      @ (if min unsent u64_max \<noteq> 0 then [lagged_event (min unsent u64_max)] else []),
      b\<lparr>bus_ring := \<lparr>rs_events = [], rs_dropped = 0, rs_closed = True\<rparr>, bus_enabled := False\<rparr>)"
    using drain_pending_eq[of b, unfolded sel shutdown_relay_drain_limit_def k total] by simp
  with recv pos show ?thesis by (simp add: publish_enabled_def)
qed

text \<open>
  C15. What goes into the ring comes out of it. Publishing any sequence of events to a fresh enabled
  bus and reading it back yields the newest events in order, as many as fit, the first of them with the
  number of the older ones; when everything fits, the round trip is exact. If the relay is cancelled
  instead, its bounded drain emits the retained events up to the drain limit in order, then one overflow
  diagnostic that counts every event not emitted, and leaves a closed empty bus that later publishers
  cannot change.
\<close>
theorem ring_round_trip:
  "let b = publish_all es (bus_enable (bus_new c));
       lost = length es - max c 1;
       unsent = length es - min (max c 1) 1024
   in fst (receive_all (length es) b) =
        (if lost = 0 then map Received es
         else Lagged (min lost u64_max) (es ! lost) # map Received (drop (Suc lost) es))
      \<and> fst (drain_pending b) = take (min (max c 1) 1024) (drop lost es)
           @ (if unsent \<noteq> 0 then [lagged_event (min unsent u64_max)] else [])
      \<and> snd (publish_enabled e (snd (drain_pending b))) = snd (drain_pending b)
      \<and> rs_events (bus_ring (snd (drain_pending b))) = []"
  unfolding Let_def by (rule ring_round_trip_parts)

end
