(* ===== verification/Subscriber_Lanes.thy ===== *)
theory Subscriber_Lanes
  imports Event_Bus Drop_Bundle Runner
begin

text \<open>
  Subscriber fan-out (\<^verbatim>\<open>src/src/subscribers/subscriber_set.rs\<close>): one bounded lane per subscriber, run by
  its own thread or, in quanta of 64 callbacks, by the one shared thread. The lane mutex makes each of
  its critical sections one step. The worker of a lane is a program counter: between two sections it
  holds the subscriber, so its ownership is in the lane, with the worker, or submitted for cleanup.

  A callback is user code: it returns or panics with a payload. A callback that never returns is a
  worker that stays in its call. Condition variables and the atomic \<open>finished\<close> mirror of the phase are
  left out. Closing the set runs to its end: a \<open>close\<close> future dropped half way is not modelled, nor is
  a panic of the engine's own code (\<open>fail_running_after_unwind\<close>).
\<close>

section \<open>Lanes\<close>

datatype lane_phase = LaneIdle | LaneScheduled | LaneRunning | LaneFinished

record owned_subscriber =
  sb_subscriber :: nat
  sb_cleanup :: drop_bundle

record subscriber_lane =
  ln_name :: name
  ln_capacity :: nat
  ln_dedicated :: bool
  ln_queue :: "event list"
  ln_dropped :: nat
  ln_phase :: lane_phase
  ln_closing :: bool
  ln_abort :: bool
  ln_closed_reported :: bool
  ln_ownership :: "owned_subscriber option"
  ln_done :: bool

definition lane_new :: "name \<Rightarrow> nat \<Rightarrow> bool \<Rightarrow> owned_subscriber \<Rightarrow> subscriber_lane" where
  "lane_new n capacity dedicated ownership =
     \<lparr>ln_name = n, ln_capacity = capacity, ln_dedicated = dedicated, ln_queue = [], ln_dropped = 0,
      ln_phase = LaneIdle, ln_closing = False, ln_abort = False, ln_closed_reported = False,
      ln_ownership = Some ownership, ln_done = True\<rparr>"

datatype enqueue_result = LaneQueued | ScheduleShared | LaneClosed name

definition lane_enqueue :: "event \<Rightarrow> subscriber_lane \<Rightarrow> enqueue_result \<times> subscriber_lane" where
  "lane_enqueue e l =
     (if ln_phase l = LaneFinished
      then (if \<not> is_internal_diagnostic e \<and> \<not> ln_closed_reported l
            then (LaneClosed (ln_name l), l\<lparr>ln_closed_reported := True\<rparr>)
            else (LaneQueued, l))
      else if length (ln_queue l) = ln_capacity l
      then (LaneQueued,
            if \<not> is_internal_diagnostic e then l\<lparr>ln_dropped := saturating_add_u64 (ln_dropped l) 1\<rparr> else l)
      else (let l = l\<lparr>ln_queue := ln_queue l @ [e]\<rparr>
            in if ln_phase l = LaneIdle
               then (if ln_dedicated l then LaneQueued else ScheduleShared, l\<lparr>ln_phase := LaneScheduled\<rparr>)
               else (LaneQueued, l)))"

text \<open>What an operation releases: the ownership and whether the completion was sent.\<close>

definition begin_close :: "subscriber_lane \<Rightarrow> (owned_subscriber option \<times> bool) \<times> subscriber_lane" where
  "begin_close l =
     (let l = l\<lparr>ln_closing := True\<rparr>
      in if ln_phase l = LaneIdle
         then ((ln_ownership l, ln_done l), l\<lparr>ln_phase := LaneFinished, ln_done := False, ln_ownership := None\<rparr>)
         else ((None, False), l))"

definition lane_abort :: "subscriber_lane \<Rightarrow> (owned_subscriber option \<times> bool) \<times> subscriber_lane" where
  "lane_abort l =
     (let l = l\<lparr>ln_closing := True, ln_abort := True, ln_queue := [], ln_dropped := 0\<rparr>
      in if ln_phase l = LaneIdle \<or> ln_phase l = LaneScheduled
         then ((ln_ownership l, ln_done l), l\<lparr>ln_phase := LaneFinished, ln_done := False, ln_ownership := None\<rparr>)
         else ((None, False), l))"

definition finish_running :: "subscriber_lane \<Rightarrow> bool \<times> subscriber_lane" where
  "finish_running l =
     (ln_done l, l\<lparr>ln_phase := LaneFinished, ln_queue := [], ln_dropped := 0, ln_done := False\<rparr>)"

datatype lane_claim = NotClaimed | Claimed owned_subscriber | ClaimFault

text \<open>The first section of \<open>run_shared_quantum\<close> and of \<open>run_dedicated_lane\<close>.\<close>

definition take_ownership :: "subscriber_lane \<Rightarrow> lane_claim \<times> subscriber_lane" where
  "take_ownership l =
     (let l = l\<lparr>ln_phase := LaneRunning\<rparr>
      in case ln_ownership l of
           None \<Rightarrow> (ClaimFault, l)
         | Some owned \<Rightarrow> (Claimed owned, l\<lparr>ln_ownership := None\<rparr>))"

definition claim_shared :: "subscriber_lane \<Rightarrow> lane_claim \<times> subscriber_lane" where
  "claim_shared l = (if ln_phase l \<noteq> LaneScheduled \<or> ln_abort l then (NotClaimed, l) else take_ownership l)"

definition claim_dedicated :: "subscriber_lane \<Rightarrow> lane_claim \<times> subscriber_lane" where
  "claim_dedicated l =
     (case ln_phase l of
        LaneScheduled \<Rightarrow> take_ownership l
      | LaneFinished \<Rightarrow> (NotClaimed, l)
      | LaneIdle \<Rightarrow> (NotClaimed, l)
      | LaneRunning \<Rightarrow> (ClaimFault, l))"

datatype lane_next = NextEvent event | NextOverflow nat | NextFinish | NextIdle

definition next_work :: "subscriber_lane \<Rightarrow> lane_next \<times> subscriber_lane" where
  "next_work l =
     (if ln_abort l then (NextFinish, l)
      else case ln_queue l of
             e # es \<Rightarrow> (NextEvent e, l\<lparr>ln_queue := es\<rparr>)
           | [] \<Rightarrow>
               (if ln_dropped l \<noteq> 0 then (NextOverflow (ln_dropped l), l\<lparr>ln_dropped := 0\<rparr>)
                else if ln_closing l then (NextFinish, l)
                else (NextIdle, l)))"

datatype lane_turn = TurnFinish | TurnParked | TurnAgain | TurnReschedule

definition lane_empty :: "subscriber_lane \<Rightarrow> bool" where
  "lane_empty l \<longleftrightarrow> ln_queue l = [] \<and> ln_dropped l = 0"

definition park_lane :: "owned_subscriber \<Rightarrow> lane_phase \<Rightarrow> subscriber_lane \<Rightarrow> subscriber_lane" where
  "park_lane owned p l = l\<lparr>ln_ownership := Some owned, ln_phase := p\<rparr>"

text \<open>The second look of a worker that found no work.\<close>

definition idle_turn :: "owned_subscriber \<Rightarrow> subscriber_lane \<Rightarrow> lane_turn \<times> subscriber_lane" where
  "idle_turn owned l =
     (if ln_abort l \<or> ln_closing l then (TurnFinish, l)
      else if lane_empty l then (TurnParked, park_lane owned LaneIdle l)
      else if ln_dedicated l then (TurnAgain, l)
      else (TurnReschedule, park_lane owned LaneScheduled l))"

text \<open>After the last callback of a shared quantum.\<close>

definition quantum_end :: "owned_subscriber \<Rightarrow> subscriber_lane \<Rightarrow> lane_turn \<times> subscriber_lane" where
  "quantum_end owned l =
     (if ln_abort l \<or> (ln_closing l \<and> lane_empty l) then (TurnFinish, l)
      else if lane_empty l then (TurnParked, park_lane owned LaneIdle l)
      else (TurnReschedule, park_lane owned LaneScheduled l))"

section \<open>Callbacks\<close>

datatype callback_result = CallbackReturned | CallbackPanicked panic_payload

definition extract_panic_info :: "panic_payload \<Rightarrow> string" where
  "extract_panic_info p =
     (case pp_message p of StaticStr s \<Rightarrow> s | OwnedStr s \<Rightarrow> s | OtherPayload \<Rightarrow> ''unknown panic'')"

definition destroy_worker_panic_payload :: "panic_payload \<Rightarrow> drop_bundle \<Rightarrow> bool \<times> drop_bundle" where
  "destroy_worker_panic_payload p cleanup =
     (if pp_drop_panics p then (False, poison cleanup) else (True, cleanup))"

text \<open>Whether the lane may go on, the diagnostics to publish, and the cleanup bundle.\<close>

definition invoke_subscriber ::
  "event \<Rightarrow> name \<Rightarrow> callback_result \<Rightarrow> drop_bundle \<Rightarrow> (bool \<times> event list) \<times> drop_bundle" where
  "invoke_subscriber e n r cleanup =
     (case r of
        CallbackReturned \<Rightarrow> ((True, []), cleanup)
      | CallbackPanicked p \<Rightarrow>
          (case destroy_worker_panic_payload p cleanup of
             (ok, cleanup) \<Rightarrow>
               ((ok, if is_internal_diagnostic e then [] else [subscriber_panicked n [Lit (extract_panic_info p)]]), cleanup)))"

definition overflow_event :: "name \<Rightarrow> nat \<Rightarrow> event" where
  "overflow_event n dropped = with_dropped dropped (subscriber_overflow n [Lit ''full''])"

section \<open>A lane with its worker\<close>

text \<open>
  The worker is not in the lane, in its loop with callbacks left in the quantum, in a callback, about
  to look a second time, about to put the lane back into the shared queue, or about to finish it.
  \<open>ly_ready\<close> counts the lane's entries in the shared queue; \<open>ly_open\<close> says that the set still fans out.
  Ghost state: the events accepted into the queue, the number of ordinary events refused by a full
  queue, the callbacks begun, the ownership submitted, the completions sent, the diagnostics published
  and the failed assertions.
\<close>

datatype lane_worker =
    WorkerOff
  | WorkerLoop nat owned_subscriber
  | WorkerCall event nat owned_subscriber
  | WorkerIdle owned_subscriber
  | WorkerSchedule
  | WorkerFinish owned_subscriber

datatype lane_call = CallEvent event | CallOverflow nat

record lane_system =
  ly_lane :: subscriber_lane
  ly_worker :: lane_worker
  ly_ready :: nat
  ly_open :: bool
  ly_shared_closed :: bool
  ly_accepted :: "event list"
  ly_lost :: nat
  ly_calls :: "lane_call list"
  ly_released :: "owned_subscriber list"
  ly_done_sent :: nat
  ly_published :: "event list"
  ly_faults :: nat

definition shared_callback_quantum :: nat where
  "shared_callback_quantum = 64"

lemma quantum_positive [simp]: "0 < shared_callback_quantum"
  by (simp add: shared_callback_quantum_def)

text \<open>The part of \<open>emit_arc\<close> that concerns this lane.\<close>

definition lane_emit :: "event \<Rightarrow> lane_system \<Rightarrow> lane_system" where
  "lane_emit e s =
     (let l = ly_lane s;
          live = (ln_phase l \<noteq> LaneFinished);
          full = (length (ln_queue l) = ln_capacity l)
      in case lane_enqueue e l of
           (r, l') \<Rightarrow>
             s\<lparr>ly_lane := l',
               ly_ready := (if r = ScheduleShared then ly_ready s + 1 else ly_ready s),
               ly_accepted := (if live \<and> \<not> full then ly_accepted s @ [e] else ly_accepted s),
               ly_lost := (if live \<and> full \<and> \<not> is_internal_diagnostic e then ly_lost s + 1 else ly_lost s),
               ly_published := (case r of LaneClosed n \<Rightarrow> ly_published s @ [subscriber_overflow n [Lit ''closed'']] | _ \<Rightarrow> ly_published s)\<rparr>)"

definition worker_claim :: "lane_system \<Rightarrow> lane_system" where
  "worker_claim s =
     (let l = ly_lane s;
          s = (if ln_dedicated l then s else s\<lparr>ly_ready := ly_ready s - 1\<rparr>)
      in case (if ln_dedicated l then claim_dedicated l else claim_shared l) of
           (NotClaimed, l) \<Rightarrow> s\<lparr>ly_lane := l\<rparr>
         | (Claimed owned, l) \<Rightarrow> s\<lparr>ly_lane := l, ly_worker := WorkerLoop shared_callback_quantum owned\<rparr>
         | (ClaimFault, l) \<Rightarrow> s\<lparr>ly_lane := l, ly_faults := ly_faults s + 1\<rparr>)"

text \<open>One round of the loop; a dedicated worker has no quantum.\<close>

definition worker_fetch :: "nat \<Rightarrow> owned_subscriber \<Rightarrow> lane_system \<Rightarrow> lane_system" where
  "worker_fetch n owned s =
     (let rest = (if ln_dedicated (ly_lane s) then Suc n else n)
      in case next_work (ly_lane s) of
           (NextEvent e, l) \<Rightarrow>
             s\<lparr>ly_lane := l, ly_worker := WorkerCall e rest owned, ly_calls := ly_calls s @ [CallEvent e]\<rparr>
         | (NextOverflow d, l) \<Rightarrow>
             s\<lparr>ly_lane := l, ly_worker := WorkerCall (overflow_event (ln_name l) d) rest owned,
               ly_calls := ly_calls s @ [CallOverflow d]\<rparr>
         | (NextFinish, l) \<Rightarrow> s\<lparr>ly_lane := l, ly_worker := WorkerFinish owned\<rparr>
         | (NextIdle, l) \<Rightarrow> s\<lparr>ly_lane := l, ly_worker := WorkerIdle owned\<rparr>)"

definition worker_turned :: "owned_subscriber \<Rightarrow> lane_turn \<times> subscriber_lane \<Rightarrow> lane_system \<Rightarrow> lane_system" where
  "worker_turned owned r s =
     (case r of (turn, l) \<Rightarrow>
        s\<lparr>ly_lane := l,
          ly_worker := (case turn of
                          TurnFinish \<Rightarrow> WorkerFinish owned
                        | TurnParked \<Rightarrow> WorkerOff
                        | TurnAgain \<Rightarrow> WorkerLoop shared_callback_quantum owned
                        | TurnReschedule \<Rightarrow> WorkerSchedule)\<rparr>)"

definition worker_called :: "callback_result \<Rightarrow> event \<Rightarrow> nat \<Rightarrow> owned_subscriber \<Rightarrow> lane_system \<Rightarrow> lane_system" where
  "worker_called r e n owned s =
     (case invoke_subscriber e (ln_name (ly_lane s)) r (sb_cleanup owned) of
        ((ok, diagnostics), cleanup) \<Rightarrow>
          (let owned = owned\<lparr>sb_cleanup := cleanup\<rparr>
           in s\<lparr>ly_worker := (if ok then WorkerLoop n owned else WorkerFinish owned),
                ly_published := ly_published s @ diagnostics\<rparr>))"

definition worker_scheduled :: "lane_system \<Rightarrow> lane_system" where
  "worker_scheduled s =
     s\<lparr>ly_worker := WorkerOff, ly_ready := (if ly_shared_closed s then ly_ready s else ly_ready s + 1)\<rparr>"

definition worker_finished_lane :: "owned_subscriber \<Rightarrow> lane_system \<Rightarrow> lane_system" where
  "worker_finished_lane owned s =
     (case finish_running (ly_lane s) of
        (sent, l) \<Rightarrow>
          s\<lparr>ly_lane := l, ly_worker := WorkerOff, ly_released := ly_released s @ [owned],
            ly_done_sent := ly_done_sent s + of_bool sent,
            ly_faults := ly_faults s + of_bool (ln_phase (ly_lane s) \<noteq> LaneRunning)\<rparr>)"

definition release_lane :: "(owned_subscriber option \<times> bool) \<times> subscriber_lane \<Rightarrow> lane_system \<Rightarrow> lane_system" where
  "release_lane r s =
     (case r of ((owned, sent), l) \<Rightarrow>
        s\<lparr>ly_lane := l, ly_open := False,
          ly_released := ly_released s @ (case owned of None \<Rightarrow> [] | Some x \<Rightarrow> [x]),
          ly_done_sent := ly_done_sent s + of_bool sent\<rparr>)"

text \<open>\<open>SubscriberWorkers::detach\<close>: the shared queue closes and forgets its entries.\<close>

definition detach_workers :: "lane_system \<Rightarrow> lane_system" where
  "detach_workers s = s\<lparr>ly_shared_closed := True, ly_ready := 0\<rparr>"

inductive lane_step :: "lane_system \<Rightarrow> lane_system \<Rightarrow> bool" where
  emit: "ly_open s \<Longrightarrow> lane_step s (lane_emit e s)"
| claim: "ly_worker s = WorkerOff \<Longrightarrow> ln_dedicated (ly_lane s) \<or> 0 < ly_ready s \<Longrightarrow> lane_step s (worker_claim s)"
| fetch: "ly_worker s = WorkerLoop (Suc n) owned \<Longrightarrow> lane_step s (worker_fetch n owned s)"
| quantum: "ly_worker s = WorkerLoop 0 owned
    \<Longrightarrow> lane_step s (worker_turned owned (quantum_end owned (ly_lane s)) s)"
| called: "ly_worker s = WorkerCall e n owned \<Longrightarrow> lane_step s (worker_called r e n owned s)"
| idle: "ly_worker s = WorkerIdle owned \<Longrightarrow> lane_step s (worker_turned owned (idle_turn owned (ly_lane s)) s)"
| schedule: "ly_worker s = WorkerSchedule \<Longrightarrow> lane_step s (worker_scheduled s)"
| finish: "ly_worker s = WorkerFinish owned \<Longrightarrow> lane_step s (worker_finished_lane owned s)"
| close: "ly_open s \<Longrightarrow> lane_step s (release_lane (begin_close (ly_lane s)) s)"
| abort: "lane_step s (release_lane (lane_abort (ly_lane s)) s)"
| detach: "\<not> ly_open s \<Longrightarrow> ln_abort (ly_lane s) \<or> 0 < ly_done_sent s \<Longrightarrow> lane_step s (detach_workers s)"

definition lane_start :: "name \<Rightarrow> nat \<Rightarrow> bool \<Rightarrow> owned_subscriber \<Rightarrow> lane_system" where
  "lane_start n capacity dedicated owned =
     \<lparr>ly_lane = lane_new n capacity dedicated owned, ly_worker = WorkerOff, ly_ready = 0, ly_open = True,
      ly_shared_closed = False, ly_accepted = [], ly_lost = 0, ly_calls = [], ly_released = [],
      ly_done_sent = 0, ly_published = [], ly_faults = 0\<rparr>"

text \<open>A lane is started with the metadata and the ownership of its definition.\<close>

definition lane_init :: "owned_subscriber \<Rightarrow> lane_system \<Rightarrow> bool" where
  "lane_init owned s \<longleftrightarrow> (\<exists>n capacity dedicated. 0 < capacity \<and> s = lane_start n capacity dedicated owned)"

definition lane_reachable :: "owned_subscriber \<Rightarrow> lane_system \<Rightarrow> bool" where
  "lane_reachable owned s \<longleftrightarrow> (\<exists>s0. lane_init owned s0 \<and> lane_step\<^sup>*\<^sup>* s0 s)"

section \<open>Invariant\<close>

fun holder :: "lane_worker \<Rightarrow> owned_subscriber option" where
  "holder (WorkerLoop _ owned) = Some owned"
| "holder (WorkerCall _ _ owned) = Some owned"
| "holder (WorkerIdle owned) = Some owned"
| "holder (WorkerFinish owned) = Some owned"
| "holder WorkerOff = None"
| "holder WorkerSchedule = None"

text \<open>Only a shared worker counts its callbacks down to zero.\<close>

fun quantum_used :: "lane_worker \<Rightarrow> bool" where
  "quantum_used (WorkerLoop n _) \<longleftrightarrow> n = 0"
| "quantum_used (WorkerCall _ n _) \<longleftrightarrow> n = 0"
| "quantum_used _ \<longleftrightarrow> False"

text \<open>The ownership travels unchanged, except that its bundle may be poisoned.\<close>

definition same_owner :: "owned_subscriber \<Rightarrow> owned_subscriber \<Rightarrow> bool" where
  "same_owner a b \<longleftrightarrow>
     sb_subscriber b = sb_subscriber a \<and> (sb_cleanup b = sb_cleanup a \<or> sb_cleanup b = poison (sb_cleanup a))"

fun events_called :: "lane_call list \<Rightarrow> event list" where
  "events_called [] = []"
| "events_called (CallEvent e # cs) = e # events_called cs"
| "events_called (CallOverflow _ # cs) = events_called cs"

fun losses_reported :: "lane_call list \<Rightarrow> nat" where
  "losses_reported [] = 0"
| "losses_reported (CallEvent _ # cs) = losses_reported cs"
| "losses_reported (CallOverflow d # cs) = d + losses_reported cs"

lemma events_called_append [simp]: "events_called (cs @ ds) = events_called cs @ events_called ds"
  by (induction cs rule: events_called.induct) simp_all

lemma losses_reported_append [simp]: "losses_reported (cs @ ds) = losses_reported cs + losses_reported ds"
  by (induction cs rule: losses_reported.induct) simp_all

definition owner_ok :: "owned_subscriber \<Rightarrow> lane_system \<Rightarrow> bool" where
  "owner_ok owned s \<longleftrightarrow>
     (ln_phase (ly_lane s) = LaneRunning \<longleftrightarrow> holder (ly_worker s) \<noteq> None)
     \<and> (ln_ownership (ly_lane s) \<noteq> None \<longleftrightarrow> ln_phase (ly_lane s) = LaneIdle \<or> ln_phase (ly_lane s) = LaneScheduled)
     \<and> (\<forall>x. holder (ly_worker s) = Some x \<or> ln_ownership (ly_lane s) = Some x \<or> x \<in> set (ly_released s) \<longrightarrow> same_owner owned x)
     \<and> length (ly_released s) = of_bool (ln_phase (ly_lane s) = LaneFinished)
     \<and> ly_done_sent s = of_bool (ln_phase (ly_lane s) = LaneFinished)
     \<and> (ln_done (ly_lane s) \<longleftrightarrow> ln_phase (ly_lane s) \<noteq> LaneFinished)
     \<and> ly_faults s = 0"

definition queue_ok :: "lane_system \<Rightarrow> bool" where
  "queue_ok s \<longleftrightarrow>
     0 < ln_capacity (ly_lane s) \<and> length (ln_queue (ly_lane s)) \<le> ln_capacity (ly_lane s)
     \<and> (ln_phase (ly_lane s) = LaneIdle \<or> ln_phase (ly_lane s) = LaneFinished \<or> ln_abort (ly_lane s) \<longrightarrow> lane_empty (ly_lane s))
     \<and> (ln_abort (ly_lane s) \<longrightarrow> ln_phase (ly_lane s) = LaneRunning \<or> ln_phase (ly_lane s) = LaneFinished)
     \<and> (ln_closing (ly_lane s) \<longleftrightarrow> \<not> ly_open s)
     \<and> (ln_abort (ly_lane s) \<longrightarrow> ln_closing (ly_lane s))
     \<and> (ln_closing (ly_lane s) \<longrightarrow> ln_phase (ly_lane s) \<noteq> LaneIdle)"

definition shared_ready_ok :: "lane_system \<Rightarrow> bool" where
  "shared_ready_ok s \<longleftrightarrow>
     (if ln_dedicated (ly_lane s) then ly_ready s = 0 \<and> ly_worker s \<noteq> WorkerSchedule \<and> \<not> quantum_used (ly_worker s)
      else ly_ready s + of_bool (ly_worker s = WorkerSchedule) \<le> 1
        \<and> (ln_phase (ly_lane s) = LaneScheduled \<longrightarrow> ly_ready s + of_bool (ly_worker s = WorkerSchedule) = 1)
        \<and> (ln_phase (ly_lane s) = LaneIdle \<or> ln_phase (ly_lane s) = LaneRunning
             \<longrightarrow> ly_ready s = 0 \<and> ly_worker s \<noteq> WorkerSchedule))
     \<and> (ly_shared_closed s \<longrightarrow> ln_closing (ly_lane s) \<and> (ln_abort (ly_lane s) \<or> ln_phase (ly_lane s) = LaneFinished))"

definition active :: "subscriber_lane \<Rightarrow> bool" where
  "active l \<longleftrightarrow> ln_phase l \<noteq> LaneFinished \<and> \<not> ln_abort l"

definition account_ok :: "lane_system \<Rightarrow> bool" where
  "account_ok s \<longleftrightarrow>
     (\<exists>rest. ly_accepted s = events_called (ly_calls s) @ rest \<and> (active (ly_lane s) \<longrightarrow> rest = ln_queue (ly_lane s)))
     \<and> (ly_lost s \<le> u64_max \<longrightarrow>
          (\<exists>x. ly_lost s = losses_reported (ly_calls s) + x \<and> (active (ly_lane s) \<longrightarrow> x = ln_dropped (ly_lane s))))"

definition lane_inv :: "owned_subscriber \<Rightarrow> lane_system \<Rightarrow> bool" where
  "lane_inv owned s \<longleftrightarrow> owner_ok owned s \<and> queue_ok s \<and> shared_ready_ok s \<and> account_ok s"

lemmas lane_inv_defs = lane_inv_def owner_ok_def queue_ok_def shared_ready_ok_def account_ok_def active_def lane_empty_def

section \<open>Preservation\<close>

lemma inv_init: "lane_init owned s \<Longrightarrow> lane_inv owned s"
  by (auto simp: lane_init_def lane_start_def lane_new_def lane_inv_defs same_owner_def)

lemma lane_invI:
  "owner_ok owned s \<Longrightarrow> queue_ok s \<Longrightarrow> shared_ready_ok s \<Longrightarrow> account_ok s \<Longrightarrow> lane_inv owned s"
  by (simp add: lane_inv_def)

lemma lane_invD:
  assumes "lane_inv owned s"
  shows "owner_ok owned s" "queue_ok s" "shared_ready_ok s" "account_ok s"
  using assms by (simp_all add: lane_inv_def)

text \<open>What the phase says in a state that satisfies the invariant.\<close>

lemma inv_running:
  assumes "lane_inv owned s" "holder (ly_worker s) = Some x"
  shows "ln_phase (ly_lane s) = LaneRunning" "same_owner owned x" "ln_ownership (ly_lane s) = None"
    "ly_released s = []" "ly_done_sent s = 0" "ln_done (ly_lane s)" "ly_faults s = 0" "ly_ready s = 0"
  using lane_invD(1,3)[OF assms(1)] assms(2) by (auto simp: owner_ok_def shared_ready_ok_def split: if_splits)

lemma inv_parked:
  assumes "lane_inv owned s" "ln_phase (ly_lane s) = LaneIdle \<or> ln_phase (ly_lane s) = LaneScheduled"
  obtains x where "ln_ownership (ly_lane s) = Some x" "same_owner owned x" "holder (ly_worker s) = None"
    "ly_released s = []" "ly_done_sent s = 0" "ln_done (ly_lane s)" "ly_faults s = 0" "\<not> ln_abort (ly_lane s)"
  using lane_invD(1,2)[OF assms(1)] assms(2) by (auto simp: owner_ok_def queue_ok_def)

lemma inv_emit:
  assumes inv: "lane_inv owned s" and o': "ly_open s"
  shows "lane_inv owned (lane_emit e s)"
proof -
  note d = lane_invD[OF inv]
  have open': "\<not> ln_closing (ly_lane s)" "\<not> ln_abort (ly_lane s)" using d(2) o' by (auto simp: queue_ok_def)
  consider "ln_phase (ly_lane s) = LaneFinished"
    | "ln_phase (ly_lane s) \<noteq> LaneFinished" "length (ln_queue (ly_lane s)) = ln_capacity (ly_lane s)"
    | "ln_phase (ly_lane s) \<noteq> LaneFinished" "length (ln_queue (ly_lane s)) \<noteq> ln_capacity (ly_lane s)"
    by blast
  then show ?thesis
  proof cases
    case 1
    show ?thesis
    proof (cases "is_internal_diagnostic e \<or> ln_closed_reported (ly_lane s)")
      case True
      with 1 have "lane_emit e s = s" by (auto simp: lane_emit_def lane_enqueue_def Let_def)
      with inv show ?thesis by simp
    next
      case False
      with 1 have eq: "lane_emit e s = s\<lparr>ly_lane := (ly_lane s)\<lparr>ln_closed_reported := True\<rparr>,
          ly_published := ly_published s @ [subscriber_overflow (ln_name (ly_lane s)) [Lit ''closed'']]\<rparr>"
        by (simp add: lane_emit_def lane_enqueue_def Let_def)
      have "owner_ok owned (lane_emit e s)" unfolding eq using d(1) by (simp add: owner_ok_def)
      moreover have "queue_ok (lane_emit e s)" unfolding eq using d(2) by (auto simp: queue_ok_def lane_empty_def)
      moreover have "shared_ready_ok (lane_emit e s)" unfolding eq using d(3) by (auto simp: shared_ready_ok_def split: if_splits)
      moreover have "account_ok (lane_emit e s)" unfolding eq using d(4) by (simp add: account_ok_def active_def)
      ultimately show ?thesis by (intro lane_invI)
    qed
  next
    case 2
    have busy: "ln_phase (ly_lane s) \<noteq> LaneIdle" using d(2) 2(2) by (auto simp: queue_ok_def lane_empty_def)
    have eq: "lane_emit e s = s\<lparr>ly_lane := (if is_internal_diagnostic e then ly_lane s
          else (ly_lane s)\<lparr>ln_dropped := saturating_add_u64 (ln_dropped (ly_lane s)) 1\<rparr>),
        ly_lost := (if is_internal_diagnostic e then ly_lost s else ly_lost s + 1)\<rparr>"
      using 2 by (simp add: lane_emit_def lane_enqueue_def Let_def)
    show ?thesis
    proof (cases "is_internal_diagnostic e")
      case False
      have "account_ok (lane_emit e s)"
        unfolding eq using d(4) False 2(1) open'(2)
        by (auto simp: account_ok_def active_def saturating_add_u64_def)
      then show ?thesis
        by (intro lane_invI; use eq False d 2 busy open' in \<open>auto simp: owner_ok_def queue_ok_def shared_ready_ok_def lane_empty_def split: if_splits\<close>)
    qed (use eq inv in simp)
  next
    case 3
    let ?l = "(ly_lane s)\<lparr>ln_queue := ln_queue (ly_lane s) @ [e]\<rparr>"
    show ?thesis
    proof (cases "ln_phase (ly_lane s) = LaneIdle")
      case True
      have eq: "lane_emit e s = s\<lparr>ly_lane := ?l\<lparr>ln_phase := LaneScheduled\<rparr>,
          ly_ready := (if ln_dedicated (ly_lane s) then ly_ready s else ly_ready s + 1), ly_accepted := ly_accepted s @ [e]\<rparr>"
        using 3 True by (simp add: lane_emit_def lane_enqueue_def Let_def)
      show ?thesis
        unfolding eq by (rule lane_invI; use d 3 True open' in \<open>auto simp: owner_ok_def queue_ok_def shared_ready_ok_def account_ok_def
          active_def lane_empty_def\<close>)
    next
      case False
      have eq: "lane_emit e s = s\<lparr>ly_lane := ?l, ly_accepted := ly_accepted s @ [e]\<rparr>"
        using 3 False by (simp add: lane_emit_def lane_enqueue_def Let_def)
      show ?thesis
        unfolding eq by (rule lane_invI; use d 3 False open' in \<open>auto simp: owner_ok_def queue_ok_def shared_ready_ok_def account_ok_def
          active_def lane_empty_def\<close>)
    qed
  qed
qed

lemma inv_claim:
  assumes inv: "lane_inv owned s" and w: "ly_worker s = WorkerOff" "ln_dedicated (ly_lane s) \<or> 0 < ly_ready s"
  shows "lane_inv owned (worker_claim s)"
proof (cases "ln_phase (ly_lane s) = LaneScheduled")
  case True
  then obtain x where x: "ln_ownership (ly_lane s) = Some x" using inv by (auto simp: lane_inv_defs)
  have "\<not> ln_abort (ly_lane s)" using inv True by (auto simp: lane_inv_defs)
  with True x inv w show ?thesis
    by (auto simp: worker_claim_def claim_dedicated_def claim_shared_def take_ownership_def lane_inv_defs Let_def)
next
  case False
  then show ?thesis using inv w
    by (cases "ln_phase (ly_lane s)")
      (auto simp: worker_claim_def claim_dedicated_def claim_shared_def lane_inv_defs Let_def)
qed

lemma inv_fetch:
  assumes inv: "lane_inv owned s" and w: "ly_worker s = WorkerLoop (Suc n) x"
  shows "lane_inv owned (worker_fetch n x s)"
proof -
  have run: "ln_phase (ly_lane s) = LaneRunning" using inv w by (auto simp: lane_inv_defs)
  consider "ln_abort (ly_lane s)" | e es where "\<not> ln_abort (ly_lane s)" "ln_queue (ly_lane s) = e # es"
    | "\<not> ln_abort (ly_lane s)" "ln_queue (ly_lane s) = []" "ln_dropped (ly_lane s) \<noteq> 0"
    | "\<not> ln_abort (ly_lane s)" "ln_queue (ly_lane s) = []" "ln_dropped (ly_lane s) = 0"
    by (cases "ln_queue (ly_lane s)") auto
  then show ?thesis
  proof cases
    case 1
    with run inv w show ?thesis by (auto simp: worker_fetch_def next_work_def lane_inv_defs Let_def)
  next
    case (2 e es)
    with run inv w show ?thesis by (auto simp: worker_fetch_def next_work_def lane_inv_defs Let_def)
  next
    case 3
    with run inv w show ?thesis by (auto simp: worker_fetch_def next_work_def lane_inv_defs Let_def)
  next
    case 4
    with run inv w show ?thesis by (auto simp: worker_fetch_def next_work_def lane_inv_defs Let_def)
  qed
qed

text \<open>Both second looks of a worker: finish, park in an empty open lane, go on, or reschedule.\<close>

lemma inv_turned:
  assumes inv: "lane_inv owned s" and w: "holder (ly_worker s) = Some x"
    and r: "r = (TurnFinish, ly_lane s)
      \<or> (r = (TurnParked, park_lane x LaneIdle (ly_lane s)) \<and> \<not> ln_abort (ly_lane s) \<and> \<not> ln_closing (ly_lane s) \<and> lane_empty (ly_lane s))
      \<or> (r = (TurnAgain, ly_lane s) \<and> ln_dedicated (ly_lane s))
      \<or> (r = (TurnReschedule, park_lane x LaneScheduled (ly_lane s)) \<and> \<not> ln_dedicated (ly_lane s) \<and> \<not> ln_abort (ly_lane s))"
  shows "lane_inv owned (worker_turned x r s)"
proof -
  have run: "ln_phase (ly_lane s) = LaneRunning" using inv w by (auto simp: lane_inv_defs)
  have "same_owner owned x" using inv w by (auto simp: lane_inv_defs)
  note base = this run inv w
  from r show ?thesis
  proof (elim disjE conjE)
    assume "r = (TurnFinish, ly_lane s)"
    with base show ?thesis by (auto simp: worker_turned_def lane_inv_defs)
  next
    assume "r = (TurnParked, park_lane x LaneIdle (ly_lane s))" "\<not> ln_abort (ly_lane s)" "\<not> ln_closing (ly_lane s)" "lane_empty (ly_lane s)"
    with base show ?thesis by (auto simp: worker_turned_def park_lane_def lane_inv_defs)
  next
    assume "r = (TurnAgain, ly_lane s)" "ln_dedicated (ly_lane s)"
    with base show ?thesis by (auto simp: worker_turned_def lane_inv_defs)
  next
    assume "r = (TurnReschedule, park_lane x LaneScheduled (ly_lane s))" "\<not> ln_dedicated (ly_lane s)" "\<not> ln_abort (ly_lane s)"
    with base show ?thesis by (auto simp: worker_turned_def park_lane_def lane_inv_defs)
  qed
qed

lemma same_owner_poison: "same_owner a b \<Longrightarrow> same_owner a (b\<lparr>sb_cleanup := poison (sb_cleanup b)\<rparr>)"
  by (cases "sb_cleanup a") (auto simp: same_owner_def poison_def)

lemma inv_called:
  assumes inv: "lane_inv owned s" and w: "ly_worker s = WorkerCall e n x"
  shows "lane_inv owned (worker_called r e n x s)"
proof -
  have h: "holder (ly_worker s) = Some x" using w by simp
  note d = lane_invD[OF inv] and run = inv_running[OF inv h]
  obtain ok ds c where r: "invoke_subscriber e (ln_name (ly_lane s)) r (sb_cleanup x) = ((ok, ds), c)" by (metis surj_pair)
  then have own: "same_owner owned (x\<lparr>sb_cleanup := c\<rparr>)"
    using run(2) same_owner_poison[OF run(2)]
    by (auto simp: invoke_subscriber_def destroy_worker_panic_payload_def split: callback_result.splits if_splits)
  have eq: "worker_called r e n x s = s\<lparr>ly_worker := (if ok then WorkerLoop n (x\<lparr>sb_cleanup := c\<rparr>)
      else WorkerFinish (x\<lparr>sb_cleanup := c\<rparr>)), ly_published := ly_published s @ ds\<rparr>"
    using r by (simp add: worker_called_def)
  show ?thesis
    unfolding eq by (rule lane_invI; use d run own w in \<open>auto simp: owner_ok_def queue_ok_def shared_ready_ok_def account_ok_def split: if_splits\<close>)
qed

lemma inv_scheduled:
  assumes inv: "lane_inv owned s" and w: "ly_worker s = WorkerSchedule"
  shows "lane_inv owned (worker_scheduled s)"
proof -
  note d = lane_invD[OF inv]
  have "shared_ready_ok (worker_scheduled s)"
    using d(2,3) w by (cases "ln_phase (ly_lane s)") (auto simp: worker_scheduled_def shared_ready_ok_def queue_ok_def split: if_splits)
  then show ?thesis
    by (intro lane_invI; use d w in \<open>auto simp: worker_scheduled_def owner_ok_def queue_ok_def account_ok_def split: if_splits\<close>)
qed

lemma inv_finished_lane:
  assumes inv: "lane_inv owned s" and w: "ly_worker s = WorkerFinish x"
  shows "lane_inv owned (worker_finished_lane x s)"
proof -
  have h: "holder (ly_worker s) = Some x" using w by simp
  note d = lane_invD[OF inv] and run = inv_running[OF inv h]
  have "account_ok (worker_finished_lane x s)"
    using d(4) by (auto simp: worker_finished_lane_def finish_running_def account_ok_def active_def)
  then show ?thesis
    by (intro lane_invI; use d(2,3) run in \<open>auto simp: worker_finished_lane_def finish_running_def owner_ok_def
        queue_ok_def shared_ready_ok_def lane_empty_def split: if_splits\<close>)
qed

text \<open>Closing and aborting: a parked lane is finished at once, a running one is marked.\<close>

lemma inv_release_parked:
  assumes inv: "lane_inv owned s" and p: "ln_phase (ly_lane s) = LaneIdle \<or> ln_phase (ly_lane s) = LaneScheduled"
  shows "lane_inv owned (release_lane ((ln_ownership (ly_lane s), ln_done (ly_lane s)),
    (ly_lane s)\<lparr>ln_closing := True, ln_abort := a, ln_queue := [], ln_dropped := 0, ln_phase := LaneFinished,
      ln_done := False, ln_ownership := None\<rparr>) s)"
proof -
  note d = lane_invD[OF inv]
  obtain x where x: "ln_ownership (ly_lane s) = Some x" "same_owner owned x" "holder (ly_worker s) = None"
    "ly_released s = []" "ly_done_sent s = 0" "ln_done (ly_lane s)" "ly_faults s = 0" "\<not> ln_abort (ly_lane s)"
    by (rule inv_parked[OF inv p])
  show ?thesis
    by (rule lane_invI) (use d x p in \<open>auto simp: release_lane_def owner_ok_def queue_ok_def shared_ready_ok_def account_ok_def
        active_def lane_empty_def split: if_splits\<close>)
qed

lemma inv_begin_close:
  assumes inv: "lane_inv owned s" and o': "ly_open s"
  shows "lane_inv owned (release_lane (begin_close (ly_lane s)) s)"
proof (cases "ln_phase (ly_lane s) = LaneIdle")
  case True
  have e: "lane_empty (ly_lane s)" "\<not> ln_abort (ly_lane s)" using lane_invD(2)[OF inv] True o' by (auto simp: queue_ok_def)
  have "(ly_lane s)\<lparr>ln_closing := True, ln_abort := False, ln_queue := [], ln_dropped := 0, ln_phase := LaneFinished,
      ln_done := False, ln_ownership := None\<rparr>
    = (ly_lane s)\<lparr>ln_closing := True, ln_phase := LaneFinished, ln_done := False, ln_ownership := None\<rparr>"
    using e by (cases "ly_lane s") (simp add: lane_empty_def)
  with inv_release_parked[OF inv, of False] True show ?thesis by (simp add: begin_close_def)
next
  case False
  note d = lane_invD[OF inv]
  from False show ?thesis
    unfolding begin_close_def Let_def
    by (intro lane_invI; use d o' False in \<open>auto simp: release_lane_def owner_ok_def queue_ok_def shared_ready_ok_def account_ok_def
        active_def lane_empty_def split: if_splits\<close>)
qed

lemma inv_abort:
  assumes inv: "lane_inv owned s"
  shows "lane_inv owned (release_lane (lane_abort (ly_lane s)) s)"
proof (cases "ln_phase (ly_lane s) = LaneIdle \<or> ln_phase (ly_lane s) = LaneScheduled")
  case True
  with inv_release_parked[OF inv True, of True] show ?thesis by (simp add: lane_abort_def)
next
  case False
  note d = lane_invD[OF inv]
  have p: "ln_phase (ly_lane s) = LaneRunning \<or> ln_phase (ly_lane s) = LaneFinished" using False by (cases "ln_phase (ly_lane s)") auto
  let ?t = "release_lane (lane_abort (ly_lane s)) s"
  have eq: "?t = s\<lparr>ly_lane := (ly_lane s)\<lparr>ln_closing := True, ln_abort := True, ln_queue := [], ln_dropped := 0\<rparr>, ly_open := False\<rparr>"
    using False by (simp add: release_lane_def lane_abort_def)
  have "owner_ok owned ?t" unfolding eq using d(1) by (simp add: owner_ok_def)
  moreover have "queue_ok ?t" unfolding eq using d(2) p by (auto simp: queue_ok_def lane_empty_def)
  moreover have "shared_ready_ok ?t" unfolding eq using d(3) p by (auto simp: shared_ready_ok_def split: if_splits)
  moreover have "account_ok ?t" unfolding eq using d(4) by (auto simp: account_ok_def active_def)
  ultimately show ?thesis by (intro lane_invI)
qed

lemma inv_detach:
  assumes inv: "lane_inv owned s" and "\<not> ly_open s" "ln_abort (ly_lane s) \<or> 0 < ly_done_sent s"
  shows "lane_inv owned (detach_workers s)"
proof -
  note d = lane_invD[OF inv]
  have "shared_ready_ok (detach_workers s)"
    using d assms(2,3) by (cases "ln_phase (ly_lane s)") (auto simp: detach_workers_def shared_ready_ok_def queue_ok_def owner_ok_def split: if_splits)
  then show ?thesis
    by (intro lane_invI; use d in \<open>auto simp: detach_workers_def owner_ok_def queue_ok_def account_ok_def split: if_splits\<close>)
qed

lemma quantum_end_cases:
  "\<not> ln_dedicated l \<Longrightarrow> quantum_end x l = (TurnFinish, l)
     \<or> (quantum_end x l = (TurnParked, park_lane x LaneIdle l) \<and> \<not> ln_abort l \<and> \<not> ln_closing l \<and> lane_empty l)
     \<or> (quantum_end x l = (TurnReschedule, park_lane x LaneScheduled l) \<and> \<not> ln_dedicated l \<and> \<not> ln_abort l)"
  by (auto simp: quantum_end_def)

lemma idle_turn_cases:
  "idle_turn x l = (TurnFinish, l)
     \<or> (idle_turn x l = (TurnParked, park_lane x LaneIdle l) \<and> \<not> ln_abort l \<and> \<not> ln_closing l \<and> lane_empty l)
     \<or> (idle_turn x l = (TurnAgain, l) \<and> ln_dedicated l)
     \<or> (idle_turn x l = (TurnReschedule, park_lane x LaneScheduled l) \<and> \<not> ln_dedicated l \<and> \<not> ln_abort l)"
  by (auto simp: idle_turn_def)

lemma inv_step:
  assumes "lane_step s t" "lane_inv owned s"
  shows "lane_inv owned t"
  using assms
proof (cases rule: lane_step.cases)
  case (quantum x)
  have "\<not> ln_dedicated (ly_lane s)" using lane_invD(3)[OF assms(2)] quantum(2) by (auto simp: shared_ready_ok_def)
  from inv_turned[OF assms(2), of x "quantum_end x (ly_lane s)"] quantum_end_cases[OF this, of x] quantum
  show ?thesis by auto
next
  case (idle x)
  from inv_turned[OF assms(2), of x "idle_turn x (ly_lane s)"] idle_turn_cases[of x "ly_lane s"] idle
  show ?thesis by auto
qed (use assms(2) in \<open>simp_all add: inv_emit inv_claim inv_fetch inv_called inv_scheduled inv_finished_lane
  inv_begin_close inv_abort inv_detach\<close>)

interpretation lane: inductive_invariant "lane_init owned" lane_step "lane_inv owned" for owned
  by unfold_locales (auto intro: inv_init inv_step)

lemma lane_reachable_inv: "lane_reachable owned s \<Longrightarrow> lane_inv owned s"
  unfolding lane_reachable_def using lane.good_reachable by blast

section \<open>Draining a closed lane\<close>

definition worker_weight :: "lane_worker \<Rightarrow> nat" where
  "worker_weight w =
     (case w of WorkerCall _ _ _ \<Rightarrow> 7 | WorkerLoop n _ \<Rightarrow> (if n = 0 then 6 else 3) | WorkerSchedule \<Rightarrow> 5
      | WorkerOff \<Rightarrow> 4 | WorkerIdle _ \<Rightarrow> 2 | WorkerFinish _ \<Rightarrow> 1)"

definition lane_work :: "lane_system \<Rightarrow> nat" where
  "lane_work s = 8 * (length (ln_queue (ly_lane s)) + of_bool (ln_dropped (ly_lane s) \<noteq> 0))
     + (if ln_phase (ly_lane s) = LaneFinished then 0 else worker_weight (ly_worker s))"

text \<open>The worker has not already decided to stop while something is left.\<close>

definition undecided :: "lane_system \<Rightarrow> bool" where
  "undecided s \<longleftrightarrow>
     (case ly_worker s of WorkerIdle _ \<Rightarrow> lane_empty (ly_lane s) | WorkerFinish _ \<Rightarrow> lane_empty (ly_lane s) | _ \<Rightarrow> True)"

definition draining :: "lane_system \<Rightarrow> bool" where
  "draining s \<longleftrightarrow>
     ln_closing (ly_lane s) \<and> \<not> ln_abort (ly_lane s) \<and> undecided s
     \<and> ly_accepted s = events_called (ly_calls s) @ ln_queue (ly_lane s)
     \<and> (ly_lost s \<le> u64_max \<longrightarrow> ly_lost s = losses_reported (ly_calls s) + ln_dropped (ly_lane s))"

lemma draining_fetch:
  assumes d: "draining s" and w: "ly_worker s = WorkerLoop (Suc n) x" and p: "ln_phase (ly_lane s) = LaneRunning"
  shows "lane_work (worker_fetch n x s) < lane_work s \<and> draining (worker_fetch n x s)
    \<and> ly_accepted (worker_fetch n x s) = ly_accepted s \<and> ly_lost (worker_fetch n x s) = ly_lost s"
proof -
  have a: "\<not> ln_abort (ly_lane s)" "ln_closing (ly_lane s)" using d by (simp_all add: draining_def)
  consider e es where "ln_queue (ly_lane s) = e # es" | "ln_queue (ly_lane s) = []" "ln_dropped (ly_lane s) \<noteq> 0"
    | "ln_queue (ly_lane s) = []" "ln_dropped (ly_lane s) = 0"
    by (cases "ln_queue (ly_lane s)") auto
  then show ?thesis
    by cases (use d a w p in \<open>auto simp: worker_fetch_def next_work_def lane_work_def worker_weight_def draining_def
      undecided_def lane_empty_def Let_def\<close>)
qed

lemma draining_quantum:
  assumes d: "draining s" and w: "ly_worker s = WorkerLoop 0 x" and p: "ln_phase (ly_lane s) = LaneRunning"
  defines "t \<equiv> worker_turned x (quantum_end x (ly_lane s)) s"
  shows "lane_work t < lane_work s \<and> draining t \<and> ly_accepted t = ly_accepted s \<and> ly_lost t = ly_lost s"
  using d w p by (cases "lane_empty (ly_lane s)")
    (auto simp: t_def worker_turned_def quantum_end_def park_lane_def lane_work_def worker_weight_def draining_def undecided_def lane_empty_def)

lemma draining_idle:
  assumes d: "draining s" and w: "ly_worker s = WorkerIdle x" and p: "ln_phase (ly_lane s) = LaneRunning"
  defines "t \<equiv> worker_turned x (idle_turn x (ly_lane s)) s"
  shows "lane_work t < lane_work s \<and> draining t \<and> ly_accepted t = ly_accepted s \<and> ly_lost t = ly_lost s"
  using d w p by (auto simp: t_def worker_turned_def idle_turn_def lane_work_def worker_weight_def draining_def undecided_def lane_empty_def)

lemma draining_called:
  assumes d: "draining s" and w: "ly_worker s = WorkerCall e n x" and p: "ln_phase (ly_lane s) = LaneRunning"
  defines "t \<equiv> worker_called CallbackReturned e n x s"
  shows "lane_work t < lane_work s \<and> draining t \<and> ly_accepted t = ly_accepted s \<and> ly_lost t = ly_lost s"
  using d w p by (auto simp: t_def worker_called_def invoke_subscriber_def lane_work_def worker_weight_def draining_def undecided_def)

lemma draining_finish:
  assumes d: "draining s" and w: "ly_worker s = WorkerFinish x" and p: "ln_phase (ly_lane s) = LaneRunning"
  defines "t \<equiv> worker_finished_lane x s"
  shows "lane_work t < lane_work s \<and> draining t \<and> ly_accepted t = ly_accepted s \<and> ly_lost t = ly_lost s"
  using d w p by (auto simp: t_def worker_finished_lane_def finish_running_def lane_work_def worker_weight_def draining_def
      undecided_def lane_empty_def)

lemma draining_claim:
  assumes inv: "lane_inv owned s" and d: "draining s" and w: "ly_worker s = WorkerOff" and p: "ln_phase (ly_lane s) = LaneScheduled"
  defines "t \<equiv> worker_claim s"
  shows "lane_work t < lane_work s \<and> draining t \<and> ly_accepted t = ly_accepted s \<and> ly_lost t = ly_lost s"
proof -
  obtain x where "ln_ownership (ly_lane s) = Some x" using inv_parked[OF inv] p by blast
  with d w p show ?thesis
    by (auto simp: t_def worker_claim_def claim_dedicated_def claim_shared_def take_ownership_def lane_work_def worker_weight_def
        draining_def undecided_def Let_def)
qed

lemma draining_schedule:
  assumes inv: "lane_inv owned s" and d: "draining s" and w: "ly_worker s = WorkerSchedule" and p: "ln_phase (ly_lane s) \<noteq> LaneFinished"
  defines "t \<equiv> worker_scheduled s"
  shows "lane_work t < lane_work s \<and> draining t \<and> ly_accepted t = ly_accepted s \<and> ly_lost t = ly_lost s"
  using d w p by (auto simp: t_def worker_scheduled_def lane_work_def worker_weight_def draining_def undecided_def)

lemma drain_step:
  assumes inv: "lane_inv owned s" and d: "draining s" and p: "ln_phase (ly_lane s) \<noteq> LaneFinished"
  shows "\<exists>t. lane_step s t \<and> lane_work t < lane_work s \<and> draining t \<and> ly_accepted t = ly_accepted s \<and> ly_lost t = ly_lost s"
proof (cases "holder (ly_worker s)")
  case (Some x)
  have run: "ln_phase (ly_lane s) = LaneRunning" by (rule inv_running(1)[OF inv Some])
  from Some consider n where "ly_worker s = WorkerLoop (Suc n) x" | "ly_worker s = WorkerLoop 0 x"
    | e n where "ly_worker s = WorkerCall e n x" | "ly_worker s = WorkerIdle x" | "ly_worker s = WorkerFinish x"
    by (cases "ly_worker s") (auto simp: gr0_conv_Suc, metis not0_implies_Suc)
  then show ?thesis
  proof cases
    case (1 n)
    with draining_fetch[OF d 1 run] lane_step.fetch[OF 1] show ?thesis by blast
  next
    case 2
    with draining_quantum[OF d 2 run] lane_step.quantum[OF 2] show ?thesis by blast
  next
    case (3 e n)
    with draining_called[OF d 3 run] lane_step.called[OF 3] show ?thesis by blast
  next
    case 4
    with draining_idle[OF d 4 run] lane_step.idle[OF 4] show ?thesis by blast
  next
    case 5
    with draining_finish[OF d 5 run] lane_step.finish[OF 5] show ?thesis by blast
  qed
next
  case None
  note i = lane_invD[OF inv]
  have sched: "ln_phase (ly_lane s) = LaneScheduled"
    using i(1,2) None p d by (cases "ln_phase (ly_lane s)") (auto simp: owner_ok_def queue_ok_def draining_def)
  from None consider "ly_worker s = WorkerOff" | "ly_worker s = WorkerSchedule" by (cases "ly_worker s") auto
  then show ?thesis
  proof cases
    case 1
    have "ln_dedicated (ly_lane s) \<or> 0 < ly_ready s" using i(3) sched 1 by (auto simp: shared_ready_ok_def split: if_splits)
    with draining_claim[OF inv d 1 sched] lane_step.claim[OF 1] show ?thesis by blast
  next
    case 2
    with draining_schedule[OF inv d 2 p] lane_step.schedule[OF 2] show ?thesis by blast
  qed
qed

lemma drain_completes:
  assumes "lane_inv owned s" "draining s"
  shows "\<exists>t. lane_step\<^sup>*\<^sup>* s t \<and> draining t \<and> ln_phase (ly_lane t) = LaneFinished
    \<and> ly_accepted t = ly_accepted s \<and> ly_lost t = ly_lost s"
  using assms
proof (induction "lane_work s" arbitrary: s rule: less_induct)
  case less
  show ?case
  proof (cases "ln_phase (ly_lane s) = LaneFinished")
    case False
    obtain t where t: "lane_step s t" "lane_work t < lane_work s" "draining t" "ly_accepted t = ly_accepted s" "ly_lost t = ly_lost s"
      using drain_step[OF less.prems False] by blast
    have "lane_inv owned t" by (rule inv_step[OF t(1) less.prems(1)])
    from less.hyps[OF t(2) this t(3)] t show ?thesis by (auto intro: converse_rtranclp_into_rtranclp)
  qed (use less.prems in blast)
qed

section \<open>Properties\<close>

text \<open>Runs used below: a shared lane of capacity two that receives events one and two.\<close>

definition demo_owner :: owned_subscriber where
  "demo_owner = \<lparr>sb_subscriber = 9, sb_cleanup = drop_bundle_new 1 9\<rparr>"

definition demo_note :: "nat \<Rightarrow> event" where
  "demo_note n = with_attempt n (event_new AttemptStarting)"

lemma demo_note_ordinary [simp]: "\<not> is_internal_diagnostic (demo_note n)"
  by (simp add: demo_note_def is_internal_diagnostic_def with_attempt_def event_new_def)

definition demo_emitted :: lane_system where
  "demo_emitted = lane_emit (demo_note 1) (lane_start ''sub'' 2 False demo_owner)"

text \<open>The shared worker has delivered the first event, found the lane empty and not looked again yet.\<close>

definition demo_idle :: lane_system where
  "demo_idle =
     (let s = worker_claim demo_emitted;
          s = worker_fetch 63 demo_owner s;
          s = worker_called CallbackReturned (demo_note 1) 63 demo_owner s
      in worker_fetch 62 demo_owner s)"

lemmas lane_eval = demo_emitted_def demo_idle_def lane_start_def lane_new_def lane_emit_def lane_enqueue_def
  worker_claim_def claim_shared_def take_ownership_def worker_fetch_def next_work_def worker_called_def
  invoke_subscriber_def shared_callback_quantum_def release_lane_def begin_close_def worker_turned_def idle_turn_def
  worker_finished_lane_def finish_running_def Let_def

lemma demo_emitted_reachable: "lane_reachable demo_owner demo_emitted"
proof -
  have "lane_init demo_owner (lane_start ''sub'' 2 False demo_owner)"
    unfolding lane_init_def by (metis zero_less_numeral)
  moreover have "lane_step (lane_start ''sub'' 2 False demo_owner) demo_emitted"
    unfolding demo_emitted_def by (rule lane_step.emit) (simp add: lane_start_def)
  ultimately show ?thesis unfolding lane_reachable_def by blast
qed

lemma lane_reachable_step: "lane_reachable owned s \<Longrightarrow> lane_step s t \<Longrightarrow> lane_reachable owned t"
  unfolding lane_reachable_def by (meson rtranclp.rtrancl_into_rtrancl)

lemma demo_idle_reachable: "lane_reachable demo_owner demo_idle"
proof -
  let ?a = "worker_claim demo_emitted"
  let ?b = "worker_fetch 63 demo_owner ?a"
  let ?c = "worker_called CallbackReturned (demo_note 1) 63 demo_owner ?b"
  have a: "lane_reachable demo_owner ?a"
    by (rule lane_reachable_step[OF demo_emitted_reachable lane_step.claim]) (simp_all add: lane_eval)
  have b: "lane_reachable demo_owner ?b"
    by (rule lane_reachable_step[OF a lane_step.fetch]) (simp add: lane_eval)
  have c: "lane_reachable demo_owner ?c"
    by (rule lane_reachable_step[OF b lane_step.called]) (simp add: lane_eval)
  show ?thesis
    unfolding demo_idle_def Let_def
    by (rule lane_reachable_step[OF c lane_step.fetch]) (simp add: lane_eval)
qed

text \<open>
  C5. A subscriber lane keeps its subscriber, its order and its count. In every reachable state of a
  lane, shared or dedicated, with any interleaving of fan-out, worker turns, panicking callbacks,
  closing and aborting: the ownership is in the lane, with its worker, or submitted for cleanup, in
  exactly one of them and the last exactly when the lane is finished, when also its completion is sent
  once, and it is the ownership the lane was started with, its bundle at most poisoned; no assertion
  fails; a waiting lane is in the shared queue exactly once; the queue is within its capacity; and the
  callbacks begun are a prefix of the accepted events in order. Until the lane is aborted or finished,
  the accepted events that were not called back are exactly the queue, and the ordinary events refused
  by a full queue are exactly those reported to the subscriber and those still counted. Aborting and
  finishing discard the queue and the count; from then on the subscriber has been told of no more than
  the accepted events and the refused number, but possibly of fewer.
\<close>
theorem lane_ownership_and_order:
  assumes "lane_reachable owned s" "l = ly_lane s"
  shows "(ln_ownership l \<noteq> None \<longleftrightarrow> ln_phase l = LaneIdle \<or> ln_phase l = LaneScheduled)
    \<and> (holder (ly_worker s) \<noteq> None \<longleftrightarrow> ln_phase l = LaneRunning)
    \<and> length (ly_released s) = of_bool (ln_phase l = LaneFinished)
    \<and> ly_done_sent s = of_bool (ln_phase l = LaneFinished)
    \<and> (\<forall>x. ln_ownership l = Some x \<or> holder (ly_worker s) = Some x \<or> x \<in> set (ly_released s) \<longrightarrow>
         sb_subscriber x = sb_subscriber owned
         \<and> (sb_cleanup x = sb_cleanup owned \<or> sb_cleanup x = poison (sb_cleanup owned)))
    \<and> ly_faults s = 0
    \<and> (ln_phase l = LaneScheduled \<and> \<not> ln_dedicated l \<longrightarrow> ly_ready s + of_bool (ly_worker s = WorkerSchedule) = 1)
    \<and> length (ln_queue l) \<le> ln_capacity l
    \<and> (\<exists>rest. ly_accepted s = events_called (ly_calls s) @ rest
          \<and> (ln_phase l \<noteq> LaneFinished \<and> \<not> ln_abort l \<longrightarrow> rest = ln_queue l))
    \<and> (ly_lost s \<le> u64_max \<longrightarrow>
         losses_reported (ly_calls s) \<le> ly_lost s
         \<and> (ln_phase l \<noteq> LaneFinished \<and> \<not> ln_abort l \<longrightarrow> ly_lost s = losses_reported (ly_calls s) + ln_dropped l))"
proof -
  note d = lane_invD[OF lane_reachable_inv[OF assms(1)]]
  have "ln_phase l = LaneScheduled \<and> \<not> ln_dedicated l \<longrightarrow> ly_ready s + of_bool (ly_worker s = WorkerSchedule) = 1"
    using d(3) assms(2) by (simp add: shared_ready_ok_def)
  moreover have "ly_lost s \<le> u64_max \<longrightarrow> losses_reported (ly_calls s) \<le> ly_lost s
      \<and> (ln_phase l \<noteq> LaneFinished \<and> \<not> ln_abort l \<longrightarrow> ly_lost s = losses_reported (ly_calls s) + ln_dropped l)"
    using d(4) assms(2) by (auto simp: account_ok_def active_def)
  moreover have "\<forall>x. ln_ownership l = Some x \<or> holder (ly_worker s) = Some x \<or> x \<in> set (ly_released s) \<longrightarrow>
      sb_subscriber x = sb_subscriber owned
      \<and> (sb_cleanup x = sb_cleanup owned \<or> sb_cleanup x = poison (sb_cleanup owned))"
    using d(1) assms(2) unfolding owner_ok_def same_owner_def by blast
  moreover have "\<exists>rest. ly_accepted s = events_called (ly_calls s) @ rest
      \<and> (ln_phase l \<noteq> LaneFinished \<and> \<not> ln_abort l \<longrightarrow> rest = ln_queue l)"
    using d(4) assms(2) by (auto simp: account_ok_def active_def)
  moreover have "length (ln_queue l) \<le> ln_capacity l" using d(2) assms(2) by (simp add: queue_ok_def)
  moreover have "ln_ownership l \<noteq> None \<longleftrightarrow> ln_phase l = LaneIdle \<or> ln_phase l = LaneScheduled"
    "holder (ly_worker s) \<noteq> None \<longleftrightarrow> ln_phase l = LaneRunning"
    "length (ly_released s) = of_bool (ln_phase l = LaneFinished)"
    "ly_done_sent s = of_bool (ln_phase l = LaneFinished)" "ly_faults s = 0"
    using d(1) unfolding owner_ok_def assms(2) by (simp_all only: simp_thms)
  ultimately show ?thesis by (intro conjI)
qed

theorem lane_ownership_and_order_witness:
  "holder (ly_worker demo_idle) = Some demo_owner \<and> ln_phase (ly_lane demo_idle) = LaneRunning
   \<and> ly_released demo_idle = [] \<and> ly_accepted demo_idle = events_called (ly_calls demo_idle)
   \<and> events_called (ly_calls demo_idle) = [demo_note 1]"
proof -
  have "holder (ly_worker demo_idle) = Some demo_owner" "ln_queue (ly_lane demo_idle) = []"
    "ly_calls demo_idle = [CallEvent (demo_note 1)]" "\<not> ln_abort (ly_lane demo_idle)"
    by (simp_all add: lane_eval)
  with lane_ownership_and_order[OF demo_idle_reachable refl] show ?thesis by auto
qed

text \<open>
  C30. Closing drains a lane. From every reachable state in which the lane is closing, is not aborted
  and its worker has not already decided to stop while something is left, the worker's own steps and
  returning callbacks lead to the finished lane in which every accepted event was delivered, in order,
  every refused ordinary event was reported, the ownership was submitted once and the completion sent.
\<close>
theorem closing_lane_drains:
  assumes "lane_reachable owned s" "ln_closing (ly_lane s)" "\<not> ln_abort (ly_lane s)" "ln_phase (ly_lane s) \<noteq> LaneFinished"
    "undecided s" "ly_lost s \<le> u64_max"
  shows "\<exists>t. lane_step\<^sup>*\<^sup>* s t \<and> ln_phase (ly_lane t) = LaneFinished
    \<and> events_called (ly_calls t) = ly_accepted s \<and> losses_reported (ly_calls t) = ly_lost s
    \<and> length (ly_released t) = 1 \<and> ly_done_sent t = 1"
proof -
  have inv: "lane_inv owned s" by (rule lane_reachable_inv[OF assms(1)])
  have "draining s"
    using lane_invD(4)[OF inv] assms(2-6) by (auto simp: draining_def account_ok_def active_def)
  from drain_completes[OF inv this] obtain t where t: "lane_step\<^sup>*\<^sup>* s t" "draining t" "ln_phase (ly_lane t) = LaneFinished"
    "ly_accepted t = ly_accepted s" "ly_lost t = ly_lost s"
    by blast
  have "lane_inv owned t" by (rule lane.good_run[OF t(1) inv])
  note d = lane_invD[OF this]
  have "ln_queue (ly_lane t) = []" "ln_dropped (ly_lane t) = 0" using d(2) t(3) by (auto simp: queue_ok_def lane_empty_def)
  with t d(1) assms(6) show ?thesis by (intro exI[of _ t]) (simp add: draining_def owner_ok_def)
qed

theorem closing_lane_drains_witness:
  "\<exists>t. lane_step\<^sup>*\<^sup>* (release_lane (begin_close (ly_lane demo_emitted)) demo_emitted) t
     \<and> ln_phase (ly_lane t) = LaneFinished \<and> events_called (ly_calls t) = [demo_note 1]"
proof -
  let ?s = "release_lane (begin_close (ly_lane demo_emitted)) demo_emitted"
  have r: "lane_reachable demo_owner ?s"
    by (rule lane_reachable_step[OF demo_emitted_reachable lane_step.close]) (simp add: lane_eval)
  have h: "ln_closing (ly_lane ?s)" "\<not> ln_abort (ly_lane ?s)" "ln_phase (ly_lane ?s) \<noteq> LaneFinished" "undecided ?s"
    "ly_lost ?s \<le> u64_max" "ly_accepted ?s = [demo_note 1]"
    by (simp_all add: lane_eval undecided_def)
  from closing_lane_drains[OF r h(1-5)] h(6) show ?thesis by auto
qed

text \<open>
  The remaining case is real: a worker that found its lane empty looks a second time before it parks,
  and finishes the lane when it is closing by then, without looking at the queue. An event accepted
  and a close between the two looks lose the event, unreported and before any deadline.
\<close>

lemma closing_race_discards_event:
  "\<exists>s. lane_reachable demo_owner s \<and> ln_phase (ly_lane s) = LaneFinished \<and> \<not> ln_abort (ly_lane s)
     \<and> ly_accepted s = [demo_note 1, demo_note 2] \<and> ly_calls s = [CallEvent (demo_note 1)]
     \<and> ly_lost s = 0 \<and> ly_published s = []"
proof -
  let ?a = "lane_emit (demo_note 2) demo_idle"
  let ?b = "release_lane (begin_close (ly_lane ?a)) ?a"
  let ?c = "worker_turned demo_owner (idle_turn demo_owner (ly_lane ?b)) ?b"
  let ?d = "worker_finished_lane demo_owner ?c"
  have "lane_reachable demo_owner ?a"
    by (rule lane_reachable_step[OF demo_idle_reachable lane_step.emit]) (simp add: lane_eval)
  then have "lane_reachable demo_owner ?b"
    by (rule lane_reachable_step) (rule lane_step.close, simp add: lane_eval)
  then have "lane_reachable demo_owner ?c"
    by (rule lane_reachable_step) (rule lane_step.idle, simp add: lane_eval)
  then have "lane_reachable demo_owner ?d"
    by (rule lane_reachable_step) (rule lane_step.finish, simp add: lane_eval)
  moreover have "ln_phase (ly_lane ?d) = LaneFinished \<and> \<not> ln_abort (ly_lane ?d)
     \<and> ly_accepted ?d = [demo_note 1, demo_note 2] \<and> ly_calls ?d = [CallEvent (demo_note 1)]
     \<and> ly_lost ?d = 0 \<and> ly_published ?d = []"
    by (simp add: lane_eval)
  ultimately show ?thesis by blast
qed

end
