(* ===== verification/Identity.thy ===== *)
theory Identity
  imports Taskvisor_Prelude
begin

text \<open>
  Process-wide identity allocation (\<^verbatim>\<open>src/src/identity.rs\<close>). The sequence \<open>TASK_ID_SEQ\<close> is one
  atomic 64-bit counter that starts at 1; \<open>fetch_update\<close> is one atomic step, so a run of
  concurrent callers is some sequence of calls of \<open>task_id_next\<close>. The value 0 marks an exhausted
  sequence: every later call panics (\<open>None\<close>).
\<close>

definition task_id_seq_init :: "64 word" where
  "task_id_seq_init = 1"

definition advance :: "64 word \<Rightarrow> 64 word option" where
  "advance current =
     (if current = 0 then None
      else if current = - 1 then Some 0
      else Some (current + 1))"

text \<open>\<open>TaskId::next\<close>: the identity (\<open>None\<close> for the exhaustion panic) and the stored sequence.\<close>

definition task_id_next :: "64 word \<Rightarrow> task_id option \<times> 64 word" where
  "task_id_next seq =
     (case advance seq of
        Some seq' \<Rightarrow> (Some seq, seq')
      | None \<Rightarrow> (None, seq))"

text \<open>The identities handed out by \<open>n\<close> successive calls, in call order.\<close>

fun allocate :: "nat \<Rightarrow> 64 word \<Rightarrow> task_id list" where
  "allocate 0 seq = []"
| "allocate (Suc n) seq =
     (case task_id_next seq of
        (None, seq') \<Rightarrow> allocate n seq'
      | (Some i, seq') \<Rightarrow> i # allocate n seq')"

lemma advance_eq: "advance s = (if s = 0 then None else Some (s + 1))"
  by (simp add: advance_def)

lemma task_id_next_exhausted: "task_id_next 0 = (None, 0)"
  by (simp add: task_id_next_def advance_def)

lemma task_id_next_live: "s \<noteq> 0 \<Longrightarrow> task_id_next s = (Some s, s + 1)"
  by (simp add: task_id_next_def advance_eq)

lemma allocate_exhausted: "allocate n 0 = []"
  by (induction n) (simp_all add: task_id_next_exhausted)

lemma unat_succ_word:
  fixes s :: "64 word"
  assumes "s + 1 \<noteq> 0"
  shows "unat (s + 1) = Suc (unat s)"
  using assms by (metis Suc_eq_plus1 unatSuc add.commute)

lemma unat_less_64: "unat (s :: 64 word) < 2 ^ 64"
  using unsigned_less[of s, where 'a = nat] by simp

lemma upt_min_Cons: "a < N \<Longrightarrow> [a ..< min (a + Suc n) N] = a # [Suc a ..< min (Suc a + n) N]"
  by (simp add: upt_conv_Cons)

lemma allocate_eq:
  "s \<noteq> 0 \<Longrightarrow>
     map unat (allocate n s) = [unat s ..< min (unat s + n) (2 ^ 64)]"
proof (induction n arbitrary: s)
  case 0
  have "unat s < 2 ^ 64" by (rule unat_less_64)
  then show ?case by simp
next
  case (Suc n)
  have lt: "unat s < 2 ^ 64" by (rule unat_less_64)
  show ?case
  proof (cases "s + 1 = 0")
    case True
    then have "s = - 1" by (simp add: eq_neg_iff_add_eq_0)
    then have "unat s = 2 ^ 64 - 1" by (simp add: unsigned_minus_1_eq_mask mask_eq_exp_minus_1)
    with True Suc.prems show ?thesis
      by (simp add: task_id_next_live allocate_exhausted)
  next
    case False
    then have "map unat (allocate n (s + 1)) = [Suc (unat s) ..< min (Suc (unat s) + n) (2 ^ 64)]"
      using Suc.IH[OF False] by (simp add: unat_succ_word)
    then show ?thesis
      by (simp only: upt_min_Cons[OF lt] allocate.simps task_id_next_live[OF Suc.prems]
          prod.case option.case list.map)
  qed
qed

section \<open>Properties\<close>

text \<open>
  C21. Task identities are never reused. However many identities are drawn from the process-wide
  sequence, they are pairwise distinct, none is zero, they are consecutive from one, and the
  sequence is exhausted after all \<open>2 ^ 64 - 1\<close> of them instead of wrapping around.
\<close>

theorem task_ids_never_reused:
  "distinct (allocate n task_id_seq_init) \<and> 0 \<notin> set (allocate n task_id_seq_init)
   \<and> map unat (allocate n task_id_seq_init) = [1 ..< min (Suc n) (2 ^ 64)]"
proof -
  have eq: "map unat (allocate n task_id_seq_init) = [1 ..< min (Suc n) (2 ^ 64)]"
    using allocate_eq[of task_id_seq_init n] by (simp add: task_id_seq_init_def)
  then have "distinct (allocate n task_id_seq_init)" by (metis distinct_map distinct_upt)
  moreover have "0 \<notin> unat ` set (allocate n task_id_seq_init)"
    using arg_cong[OF eq, of set] by simp
  then have "0 \<notin> set (allocate n task_id_seq_init)" by (metis image_eqI unsigned_0)
  ultimately show ?thesis using eq by blast
qed

end
