(* ===== verification/Spec2Isabelle.thy ===== *)
theory Spec2Isabelle
  imports Controller_Behaviour Controller_Shell Runtime_Behaviour Subscriber_Lanes Identity
begin

text \<open>
  Verification library of taskvisor, an in-process supervisor for asynchronous Rust tasks.

  \<^bold>\<open>The program.\<close> A submitted task is a \<open>TaskSpec\<close> (task object, restart policy, backoff policy,
  timeout, retry limit). The optional controller groups submissions into named slots: one owner per
  slot, the rest queued, replaced or rejected by an admission policy. An admitted submission is
  handed over a bounded command channel to the registry, which runs one actor per task. The actor
  runs attempts one after the other, each inside a panic and timeout boundary, and exits with a
  reason that becomes the task's outcome. User values are owned by cleanup bundles, which are
  submitted to a deferred-drop executor exactly once. All paths below are under
  \<^verbatim>\<open>src/src/\<close>.

  \<^bold>\<open>Theories and sources.\<close>
    \<^item> \<open>Taskvisor_Prelude\<close>: type names, the \<open>result\<close> type, format strings, finite-map and multiset
      lemmas, the locales \<open>inductive_invariant\<close> and \<open>refinement\<close> of step relations, named theorem
      collections.
    \<^item> \<open>Identity\<close>: \<^verbatim>\<open>identity.rs\<close>, the 64-bit identity sequence.
    \<^item> \<open>Policies\<close>: \<^verbatim>\<open>policies/{backoff,jitter,restart}.rs\<close>. Durations are natural numbers of
      nanoseconds with the range of \<open>Duration\<close>; the random generator and the \<open>f64\<close> power are arguments.
    \<^item> \<open>Config\<close>: \<^verbatim>\<open>core/config.rs\<close>, \<^verbatim>\<open>controller/config.rs\<close>; \<open>Task_Spec\<close>: \<^verbatim>\<open>tasks/spec.rs\<close>,
      \<^verbatim>\<open>core/task_defaults.rs\<close>; \<open>Errors\<close>: \<^verbatim>\<open>error.rs\<close>, \<^verbatim>\<open>core/outcome.rs\<close>, \<^verbatim>\<open>reasons.rs\<close>;
      \<open>Events\<close>: \<^verbatim>\<open>events/event.rs\<close>.
    \<^item> \<open>Drop_Bundle\<close>: \<^verbatim>\<open>core/deferred_drop/bundle.rs\<close>, one outcome and one submission per bundle.
    \<^item> \<open>Ownership_Capacity\<close>: \<^verbatim>\<open>core/deferred_drop/capacity.rs\<close>, the broker of ownership units with any
      number of clients; \<open>Cleanup_Workers\<close>: \<^verbatim>\<open>core/deferred_drop/executor/*.rs\<close> and \<^verbatim>\<open>domain.rs\<close>, the
      batches, the worker queue with its threads and the lazily started domain.
    \<^item> \<open>Event_Bus\<close>: \<^verbatim>\<open>events/bus.rs\<close> and \<^verbatim>\<open>core/runtime/event_relay.rs\<close>, the bounded ring, its
      receiver and the shutdown drain; \<open>Subscriber_Lanes\<close>: \<^verbatim>\<open>subscribers/subscriber_set.rs\<close>, a bounded
      lane with its shared or dedicated worker.
    \<^item> \<open>Runner\<close>: \<^verbatim>\<open>core/runner.rs\<close>, one attempt; \<open>Actor\<close>: \<^verbatim>\<open>core/actor.rs\<close>, the attempt loop.
    \<^item> \<open>Command_Gate\<close>: the registry channel and the gate of \<^verbatim>\<open>core/runtime/management/command_gate.rs\<close>; its
      reservation is three separate accesses, in \<open>Controller_State\<close> for the controller's own adds and in
      \<open>Management_Calls\<close> for all other calls.
    \<^item> \<open>Slot\<close>: \<^verbatim>\<open>controller/engine/state/slot.rs\<close>, the phases of a slot and the locale \<open>owner_lane\<close>.
    \<^item> \<open>Capacity_Pump\<close>: \<^verbatim>\<open>controller/engine/operations.rs\<close>, the bounded FIFO of reservations, with
      the locale \<open>bounded_fifo\<close> interpreted on it.
    \<^item> \<open>Controller_State\<close>, \<open>Controller_Queue\<close>, \<open>Controller_Admission\<close>, \<open>Controller_Handlers\<close>: the
      controller engine (\<^verbatim>\<open>controller/engine/**\<close>): its record, its queue and index operations, the
      hand-off and placement, and one function per handler of the loop.
    \<^item> \<open>Controller_System\<close>: the loop of \<^verbatim>\<open>lifecycle/driver.rs\<close> as the step relation \<open>ctl_step\<close>, its
      initial states and \<open>ctl_reachable\<close>.
    \<^item> \<open>Controller_Invariant\<close>, \<open>_Preservation\<close>, \<open>_Results\<close>, \<open>_Submission\<close>, \<open>_Shutdown\<close>: the invariant
      of reachable states and that every handler keeps it; \<open>Controller_Behaviour\<close>: what single
      handlers do; \<open>Controller_Shell\<close>: the account of identity replies.
    \<^item> \<open>Reaper\<close>: \<^verbatim>\<open>core/registry/scheduler/reaper.rs\<close>, the rendezvous of an aborted actor's output with
      its terminal bundle (locale \<open>rendezvous\<close>); \<open>Actor_Handle\<close>: \<^verbatim>\<open>core/registry/scheduler/actor.rs\<close>,
      the wrapper task and the handle that joins or aborts it.
    \<^item> \<open>Registry_State\<close>, \<open>Registry_Removal\<close>, \<open>Registry_Admission\<close>: \<^verbatim>\<open>core/registry/**\<close>, the registry
      record, one definition per command, join, commit and report, and the step relation \<open>reg_step\<close>.
    \<^item> \<open>Registry_Invariant\<close>, \<open>Registry_Preservation\<close>, \<open>Registry_Admitted\<close>: the invariant of reachable
      registry states, whose core \<open>linv\<close> lists the phases of one identity from admission to physical
      release, and that every step keeps it.
    \<^item> \<open>Name_Lease\<close>: the abstract specification of the registry, a table of name leases;
      \<open>Registry_Refinement\<close>: the registry refines it; \<open>Registry_Behaviour\<close>, \<open>Registry_Answers\<close>: the
      properties.
    \<^item> \<open>Management_Calls\<close>: \<^verbatim>\<open>core/runtime/management/{add,remove,cancel,ownership}.rs\<close>, every call of the
      supervisor handle that goes through the command channel, any number of them at once.
    \<^item> \<open>Runtime_Lifecycle\<close>: \<^verbatim>\<open>core/runtime/lifecycle/*.rs\<close>, \<^verbatim>\<open>core/runtime/shutdown_workflow/*.rs\<close> and
      \<^verbatim>\<open>core/owner.rs\<close>, startup, static runs, the shared shutdown operation and its detached owner, as
      the step relation \<open>rt_step\<close>; \<open>Runtime_Shutdown\<close>: its invariant; \<open>Runtime_Behaviour\<close>: its
      properties.

  \<^bold>\<open>Concurrency.\<close> The engine is one thread, but the registry, the runtime and other senders move
  between any two of its reads of shared state. The engine record carries a script \<open>env\<close> of such
  moves; every read of shared state first executes some of them (\<open>sync\<close>). Theorems quantify over the
  script, so they hold for every interleaving at the granularity of the shared reads. Futures tracked
  by the loop are list entries, and any of them may become ready at any step. The registry record
  holds everything behind the registry's locks; each critical section of a detached removal task, an
  actor or the reaper is one background move, and an admission takes the moves that run between its
  locked sections as arguments, so \<open>reg_step\<close> covers every interleaving of the sections. Management
  calls, static runs and shutdown callers are program counters; the answers of the components they
  wait for are inputs of their steps, over which the theorems quantify.

  \<^bold>\<open>User code and time.\<close> A user task is a script of one attempt (how the future ends, which
  destructors panic, whether the timer wins). An actor iteration consumes one record of inputs
  (cancellation at each check, semaphore answer, sleep result). The actor loop consumes a list of
  them, so the length of the list is its fuel; C33 shows how long a list is enough for its exit.

  \<^bold>\<open>Theorems.\<close> C1, C2 and C29 are conservation laws: bundles, outcome senders and reply channels are
  neither lost nor used twice in any reachable state. C3: leaving the loop settles all of
  them. C4: an occupied slot always has an operation that releases it. C6, C7, C9, C10: index
  and ownership consistency and no failed assertion. C8: configured limits. C11: a
  released slot admits the front of its queue (its theory also has what the admission policies do, as
  lemmas). C16 and C19: the slot protocol and the hand-off, which shutdown may overtake between its
  reservation and the gate. C12, C18 and C22: one shutdown with one
  outcome for all callers, an owner that always ends, one static run. C13: the admission gate orders
  the commits of all management calls against shutdown. C17 and C23: ownership units are conserved and go to the oldest waiter. C14, C25 and C26:
  every accepted cleanup batch runs once, on a bounded set of threads, and settles its unit. C15 and
  C20: the event ring loses only what it reports. C5 and C30: a subscriber lane keeps its
  subscriber, delivers in order and drains when it is closed. C21 and C24: identities and validity by
  construction. C31 to C35: attempts are
  reported once, never overlap, end, follow the documented restart rules and are paced. C36 to C40:
  the registry never runs two attempts under one name, keeps its limit, loses no bundle and no
  sender, completes physically only once and for all, and implements the table of name leases.
  C27 and C28: shutdown drains it whatever the tasks do, and every command is answered once, with the
  members it promises.

  \<^bold>\<open>Bounds.\<close> The detached shutdown owner makes at most twenty steps (\<open>owner_fuel\<close>): three of the drain,
  the entry of the tail, at most five phases, its end, and once more the tail after a panic of its own.

  \<^bold>\<open>Not modelled.\<close> Wall-clock event stamps (nothing reads them), real threads and wakers, memory
  layout, formatting of \<open>Display\<close> texts beyond their parts, embedded subscribers and the operating
  system's signal listener (pure input and output), the builder's wiring, the typed wrappers of the
  public operations (they only forward), the client side of the controller (its channel ends and its
  prepared submissions), the task trait and its closures (user code), and how a panic unwinds (a
  guarded call is a call that may answer with a panic). The controller theorems quantify over all
  registry answers; the registry theorems quantify over all command sequences with fresh identities. A
  commit future dropped in the middle and a reaper without a Tokio runtime are not modelled. The
  assertions of the engine count in \<open>faults\<close>, except four that hold by the line before them
  (\<^verbatim>\<open>handoff.rs:68\<close>, \<^verbatim>\<open>operations.rs:91\<close>) or guard the start of the loop task (\<^verbatim>\<open>driver.rs:78\<close>,
  \<^verbatim>\<open>task.rs:42\<close>).
\<close>

section \<open>Accounting for submitted work\<close>

text \<open>
  C1. Cleanup bundles are conserved. In every reachable controller state, for every interleaving
  with the other threads, the cleanup bundles of the submissions received so far are exactly those
  still held in a slot queue or as a capacity waiter together with those already submitted for
  deferred cleanup or handed over with a committed add command. No bundle is lost and none is
  released twice, on any branch of any handler.
\<close>

theorem cleanup_bundles_conserved:
  assumes "ctl_reachable (subs, c)"
  shows "held (slots c) (capacity_pending c) + spent (log c) = received_bundles subs"
  using reachable_parts(9)[OF assms] .

theorem cleanup_bundles_conserved_witness:
  "held (slots demo_two) (capacity_pending demo_two) + spent (log demo_two)
     = received_bundles [demo_sub Queue 1, demo_sub Queue 2]"
  by (rule cleanup_bundles_conserved[OF demo_two_reachable])

text \<open>
  C2. Outcome senders are conserved. In every reachable controller state the outcome senders of the
  submissions received so far are exactly those parked in the watcher map together with those
  already resolved, by sending a terminal outcome or by moving the sender to the registry with the
  committed add command. A watched submission is therefore never forgotten and never answered twice.
\<close>

theorem outcome_senders_conserved:
  assumes "ctl_reachable (subs, c)"
  shows "waiting (watchers c) + resolved (log c) = received_senders subs"
  using reachable_parts(10)[OF assms] .

theorem outcome_senders_conserved_witness:
  "waiting (watchers demo_two) + resolved (log demo_two)
     = received_senders [demo_sub Queue 1, demo_sub Queue 2]"
  by (rule outcome_senders_conserved[OF demo_two_reachable])

text \<open>
  C3. Loop exit settles everything. When the loop leaves from any reachable state with any commands
  still buffered in its channel, no slot, index entry, capacity waiter, parked sender, reservation
  or tracked operation remains; every cleanup bundle ever received, those of the buffered commands
  included, has been submitted or committed exactly once; every outcome sender has been resolved
  exactly once; every identity request, tracked or still buffered, has been answered exactly once;
  and no internal assertion failed on the way.
\<close>

theorem loop_exit_settles_everything:
  assumes "ctl_reachable (subs, c)" and "list_all command_fresh cmds"
  defines "c' \<equiv> loop_exit c cmds"
  shows "slots c' = fmempty \<and> queued_slots c' = fmempty \<and> capacity_pending c' = fmempty
    \<and> watchers c' = fmempty
    \<and> spent (log c') = received_bundles subs + sum_list (map command_bundles cmds)
    \<and> resolved (log c') = received_senders subs + sum_list (map command_senders cmds)
    \<and> identity_ops c' = [] \<and> replied (log c') = owed c + sum_list (map command_replies cmds)
    \<and> faults c' = 0 \<and> shutting_down c'"
proof -
  from assms(1) obtain R where sh: "shell (config c) 0 (identity_ops c) R c" by (rule reachable_shell)
  from shell_loop_exit[OF this, of cmds] shell_owed[OF sh]
  have "identity_ops c' = []" "replied (log c') = owed c + sum_list (map command_replies cmds)"
    by (simp_all add: c'_def shell_def ac_simps)
  with loop_exit_spec[OF reachable_cinv[OF assms(1)] assms(2)] show ?thesis by (simp add: c'_def)
qed

theorem loop_exit_settles_everything_witness:
  "list_all command_fresh [Submit (demo_sub Replace 3)]
   \<and> watchers (loop_exit demo_two [Submit (demo_sub Replace 3)]) = fmempty
   \<and> resolved (log (loop_exit demo_two [Submit (demo_sub Replace 3)])) = {#1, 2, 3#}"
  using loop_exit_settles_everything[OF demo_two_reachable, of "[Submit (demo_sub Replace 3)]"]
  by (simp add: received_senders_def opt_mset_def) (simp add: demo_sub_def opt_mset_def)

section \<open>Liveness of slots\<close>

text \<open>A run in which shutdown begins while the owner's admission is in flight.\<close>

definition demo_halted :: controller where
  "demo_halted = handle_registry_decision
     ((env_step CancelToken demo_two)\<lparr>admissions := remove1 (1, ''job'') (admissions demo_two)\<rparr>)
     1 ''job'' (Inl ShuttingDown)"

lemma demo_halted_reachable: "ctl_reachable ([demo_sub Queue 1, demo_sub Queue 2], demo_halted)"
proof -
  have "ctl_step ([demo_sub Queue 1, demo_sub Queue 2], demo_two)
      ([demo_sub Queue 1, demo_sub Queue 2], env_step CancelToken demo_two)"
    by (rule ctl_step.env_move)
  from ctl_reachable_step[OF demo_two_reachable this] have r: "ctl_reachable
      ([demo_sub Queue 1, demo_sub Queue 2], env_step CancelToken demo_two)" .
  have "(1, ''job'') \<in> set (admissions (env_step CancelToken demo_two))"
    by (simp add: demo_two_def demo_one_def demo_eval handler_eval)
  from ctl_reachable_step[OF r ctl_step.decided[OF this]] show ?thesis
    by (simp add: demo_halted_def)
qed

text \<open>
  C4. A slot is never stuck. In every reachable state the owner of a slot that waits for registry
  admission has exactly one pending source of an answer, a tracked admission or a capacity
  reservation, and the owner of a slot whose task was accepted has a tracked completion, unless the
  supervisor itself is gone. Each of them ends in a handler that releases or advances the slot. A slot
  without an owner is kept only while it has queued work and the runtime is already stopping (its
  token, its gate, its channel or the supervisor), so that the shutdown cleanup resolves that work.
\<close>

theorem slot_never_stuck:
  assumes "ctl_reachable (subs, c)" and "fmlookup (slots c) n = Some s"
  shows "case slot_owner s of
      Some i \<Rightarrow>
        (phase_admitting (sl_phase s) \<and>
          (((i, n) \<in> set (admissions c)) \<noteq>
           (\<exists>w. fmlookup (capacity_pending c) i = Some w \<and> ce_slot_name w = n)))
        \<or> (phase_accepted (sl_phase s) \<and> ((i, n) \<in> set (completions c) \<or> \<not> sup_alive c))
    | None \<Rightarrow> sl_queue s \<noteq> [] \<and> stopped c"
proof (cases "slot_owner s")
  case None
  then have "is_idle s" by (cases "sl_phase s") (simp_all add: slot_owner_def is_idle_def)
  with None show ?thesis using reachable_parts(8)[OF assms(1)] assms(2) unfolding idle_ok_def by simp
next
  case (Some i)
  note tracked = reachable_parts(4)[OF assms(1)] and progress = reachable_parts(5)[OF assms(1)]
  have "phase_admitting (sl_phase s) \<or> phase_accepted (sl_phase s)"
    using Some by (cases "sl_phase s") (simp_all add: slot_owner_def)
  moreover have "(i, n) \<in> set (admissions c) \<Longrightarrow> fmlookup (capacity_pending c) i = None"
    using tracked unfolding tracked_ok_def by blast
  ultimately have "(phase_admitting (sl_phase s) \<and>
      (((i, n) \<in> set (admissions c)) \<noteq>
       (\<exists>w. fmlookup (capacity_pending c) i = Some w \<and> ce_slot_name w = n)))
    \<or> (phase_accepted (sl_phase s) \<and> ((i, n) \<in> set (completions c) \<or> \<not> sup_alive c))"
    using progress assms(2) Some unfolding progress_ok_def by fastforce
  with Some show ?thesis by simp
qed

theorem slot_never_stuck_witness:
  "(\<exists>s. fmlookup (slots demo_two) ''job'' = Some s \<and> slot_owner s = Some 1)
   \<and> (1, ''job'') \<in> set (admissions demo_two)
   \<and> (\<exists>s. fmlookup (slots demo_halted) ''job'' = Some s \<and> slot_owner s = None \<and> sl_queue s \<noteq> [])
   \<and> stopped demo_halted"
proof -
  obtain s where slot: "fmlookup (slots demo_two) ''job'' = Some s" "sl_phase s = Admitting 1 0"
    and cap: "capacity_pending demo_two = fmempty"
    by (simp add: demo_two_def demo_one_def demo_eval handler_eval)
  then have owner: "slot_owner s = Some 1" by (simp add: slot_owner_def)
  have "\<exists>s. fmlookup (slots demo_halted) ''job'' = Some s \<and> slot_owner s = None"
    by (simp add: demo_halted_def demo_two_def demo_one_def demo_eval handler_eval slot_owner_def
        handle_registry_decision_def reject_admission_def advance_released_def gc_if_idle_def)
  then obtain t where t: "fmlookup (slots demo_halted) ''job'' = Some t" "slot_owner t = None" by blast
  from slot_never_stuck[OF demo_two_reachable slot(1)] slot_never_stuck[OF demo_halted_reachable t(1)] cap slot owner t
  show ?thesis by auto
qed

section \<open>Consistency of the indexes\<close>

text \<open>
  C6. Admission is exclusive. In every reachable state an identity owns at most one slot, an owner
  was really submitted, and an owner is not at the same time waiting in any slot queue.
\<close>

theorem slot_owner_exclusive:
  assumes "ctl_reachable (subs, c)"
    and "fmlookup (slots c) n = Some s" and "slot_owner s = Some i"
  shows "i \<in> sub_id ` set subs
    \<and> (\<forall>m t. fmlookup (slots c) m = Some t \<longrightarrow>
         (slot_owner t = Some i \<longrightarrow> m = n) \<and> i \<notin> ps_id ` set (sl_queue t))"
proof -
  note I = reachable_parts(1,2)[OF assms(1)]
  have "i \<in> sub_id ` set subs" and no: "fmlookup (queued_slots c) i = None"
    and uniq: "\<And>m t. fmlookup (slots c) m = Some t \<Longrightarrow> slot_owner t = Some i \<Longrightarrow> m = n"
    using I(2) assms(2,3) unfolding owners_ok_def by blast+
  moreover have "i \<notin> ps_id ` set (sl_queue t)" if "fmlookup (slots c) m = Some t" for m t
    using I(1) that no unfolding index_ok_def by (metis option.distinct(1))
  ultimately show ?thesis by blast
qed

theorem slot_owner_exclusive_witness:
  "\<exists>s. fmlookup (slots demo_two) ''job'' = Some s \<and> slot_owner s = Some 1
     \<and> 1 \<notin> ps_id ` set (sl_queue s)"
proof -
  obtain s where slot: "fmlookup (slots demo_two) ''job'' = Some s" "slot_owner s = Some 1"
    by (simp add: demo_two_def demo_one_def demo_eval handler_eval slot_owner_def)
  from slot_owner_exclusive[OF demo_two_reachable slot] slot show ?thesis by blast
qed

text \<open>
  C7. The reverse index is exact. In every reachable state the index maps an identity to a slot
  name if and only if that identity is in the queue of that slot, no queue holds an identity twice,
  and no identity is queued in two slots.
\<close>

theorem queue_index_exact:
  assumes "ctl_reachable (subs, c)"
  shows "(fmlookup (queued_slots c) i = Some n \<longleftrightarrow>
      (\<exists>s. fmlookup (slots c) n = Some s \<and> i \<in> ps_id ` set (sl_queue s)))
    \<and> (\<forall>s. fmlookup (slots c) n = Some s \<longrightarrow> distinct (map ps_id (sl_queue s)))"
  using reachable_parts(1)[OF assms] unfolding index_ok_def by blast

theorem queue_index_exact_witness:
  "fmlookup (queued_slots demo_two) 2 = Some ''job''
   \<and> (\<exists>s. fmlookup (slots demo_two) ''job'' = Some s \<and> 2 \<in> ps_id ` set (sl_queue s))"
proof -
  have "fmlookup (queued_slots demo_two) 2 = Some ''job''"
    by (simp add: demo_two_def demo_one_def demo_eval handler_eval)
  with queue_index_exact[OF demo_two_reachable, of 2 "''job''"] show ?thesis by blast
qed

text \<open>
  C8. The configured limits hold. In every reachable state the pending work (queued submissions and
  capacity waiters) is within the total-pending limit when one is set, the number of slots is within
  the slot limit when one is set, and a slot queue is within its limit, with room for the single
  replacement that the Replace policy may park in a queue of limit zero. Between two iterations of the
  loop the controller holds no permit of the registry command channel, whatever reservations were
  granted, refused, committed or dropped before; the commands buffered there are within the channel
  capacity; and the tracked identity operations are within their configured limit.
\<close>

theorem configured_limits_hold:
  assumes "ctl_reachable (subs, c)"
  shows "(\<forall>limit. cc_max_total_pending (config c) = Some limit \<longrightarrow>
        hm_len (queued_slots c) + hm_len (capacity_pending c) \<le> limit)
    \<and> (\<forall>limit. cc_max_controller_slots (config c) = Some limit \<longrightarrow> hm_len (slots c) \<le> limit)
    \<and> (\<forall>n s. fmlookup (slots c) n = Some s \<longrightarrow>
        length (sl_queue s) \<le> max 1 (cc_max_slot_queue (config c)))
    \<and> port_permits (port c) = 0 \<and> length (port_queue (port c)) \<le> port_capacity (port c)
    \<and> length (identity_ops c) \<le> cc_identity_operation_capacity (config c)"
proof -
  have "port_permits (port c) = 0" "length (port_queue (port c)) \<le> port_capacity (port c)"
    "length (identity_ops c) \<le> cc_identity_operation_capacity (config c)"
    using assms by (rule reachable_shell; auto simp: shell_def port_wf_def)+
  with reachable_parts(7)[OF assms] show ?thesis unfolding limits_ok_def pending_len_def by blast
qed

theorem configured_limits_hold_witness:
  "\<exists>s. fmlookup (slots demo_two) ''job'' = Some s \<and> length (sl_queue s) \<le> 100"
proof -
  have "cc_max_slot_queue (config demo_two) = 100" "\<exists>s. fmlookup (slots demo_two) ''job'' = Some s"
    by (simp_all add: demo_two_def demo_one_def demo_eval handler_eval)
  with configured_limits_hold[OF demo_two_reachable] show ?thesis by fastforce
qed

text \<open>
  C9. No internal assertion of the controller engine (a \<open>debug_assert!\<close>, \<open>assert!\<close>, \<open>expect\<close> or
  \<open>unreachable!\<close>) ever fails: in every reachable state, whatever the interleaving, the count of
  failed assertions is zero.
\<close>

theorem assertions_never_fail:
  assumes "ctl_reachable (subs, c)"
  shows "faults c = 0"
  using reachable_parts(11)[OF assms] .

theorem assertions_never_fail_witness: "faults demo_two = 0"
  by (rule assertions_never_fail[OF demo_two_reachable])

text \<open>
  C10. Capacity waiters and the reservation pump agree. In every reachable state the pump waits for
  exactly the identities in the capacity-pending index, each once and at most as many as the
  admission capacity, and each such identity owns the slot its entry names, in a phase that waits
  for admission.
\<close>

theorem capacity_waiters_match_pump:
  assumes "ctl_reachable (subs, c)"
  shows "set (pump_ids (pump c)) = fset (fmdom (capacity_pending c)) \<and> distinct (pump_ids (pump c))
    \<and> length (pump_ids (pump c)) \<le> cc_admission_capacity (config c)
    \<and> (\<forall>i w. fmlookup (capacity_pending c) i = Some w \<longrightarrow>
         (\<exists>s. fmlookup (slots c) (ce_slot_name w) = Some s \<and> slot_owner s = Some i
            \<and> phase_admitting (sl_phase s)))"
  using reachable_parts(3)[OF assms] unfolding capacity_ok_def pump.ok_def by (metis (no_types))

text \<open>A run in which the registry command queue has no room, so that the hand-off waits.\<close>

definition demo_busy :: controller where
  "demo_busy = controller_new controller_config_default
     (demo_port\<lparr>port_capacity := 1, port_queue := [CmdRemove 9]\<rparr>) {|1|} []"

definition demo_full :: controller where
  "demo_full = handle_controller_command demo_busy (Submit (demo_sub Queue 1))"

lemma demo_full_reachable: "ctl_reachable ([demo_sub Queue 1], demo_full)"
proof -
  have "ctl_reachable ([], demo_busy)"
    by (rule ctl_reachable_init) (auto simp: ctl_init_def demo_busy_def demo_port_def port_wf_def intro!: exI)
  moreover have "ctl_step ([], demo_busy) ([] @ [demo_sub Queue 1], demo_full)"
    unfolding demo_full_def by (rule ctl_step.submit) simp_all
  ultimately show ?thesis by (metis append_Nil ctl_reachable_step)
qed

theorem capacity_waiters_match_pump_witness:
  "fmlookup (capacity_pending demo_full) 1 \<noteq> None \<and> 1 \<in> set (pump_ids (pump demo_full))"
proof -
  have "fmlookup (capacity_pending demo_full) 1 \<noteq> None"
    by (simp add: demo_full_def demo_busy_def demo_eval handler_eval try_index_capacity_pending_def
        restore_watcher_def pump_enqueue_def pump_len_def pump_new_def pump_enqueue_assert_def)
  with capacity_waiters_match_pump[OF demo_full_reachable] show ?thesis by (auto intro: fmdomI)
qed

section \<open>Channels and replies\<close>

text \<open>
  C29. Identity requests are answered exactly once. Receiving a remove or cancel request adds its
  reply channel to the account of tracked and sent replies, once, whatever the outcome of the
  request; no other step of the loop changes that account, so a reply is sent once or still owed.
\<close>

theorem identity_replies_conserved:
  assumes "ctl_reachable (subs, c)"
  shows "owed (handle_controller_command c (ManageIdentity i operation reply)) = owed c + {#reply#}
    \<and> (\<forall>subs' c'. ctl_step (subs, c) (subs', c') \<longrightarrow>
         owed c' = owed c
         \<or> (\<exists>i operation reply. c' = handle_controller_command c (ManageIdentity i operation reply)))"
proof (intro conjI allI impI)
  from assms obtain R where sh: "shell (config c) 0 (identity_ops c) R c" by (rule reachable_shell)
  note owed0 = shell_owed[OF sh]
  show "owed (handle_controller_command c (ManageIdentity i operation reply)) = owed c + {#reply#}"
    using shell_handle_identity_operation[OF sh, of reply i operation] owed0
    by (auto simp: handle_controller_command_def dest!: shell_owed)
  fix subs' c' assume step: "ctl_step (subs, c) (subs', c')"
  have moved: "owed c' = owed c"
    if "x \<in> set (identity_ops c)" "shell (config c) 0 (remove1 x (identity_ops c)) (R + {#snd (snd x)#}) c'"
    for x
  proof -
    have "mset (identity_ops c) = add_mset x (mset (remove1 x (identity_ops c)))"
      using that(1) by simp
    then have "mset (map (\<lambda>(i, operation, reply). reply) (identity_ops c))
        = mset (map (\<lambda>(i, operation, reply). reply) (remove1 x (identity_ops c))) + {#snd (snd x)#}"
      by (simp only: mset_map image_mset_add_mset) (simp add: case_prod_unfold)
    with shell_owed[OF that(2)] owed0 show ?thesis by simp
  qed
  from shell_step[OF step sh] show "owed c' = owed c
      \<or> (\<exists>i operation reply. c' = handle_controller_command c (ManageIdentity i operation reply))"
  proof (elim disjE)
    assume "shell (config c) 0 (identity_ops c) R c'"
    from shell_owed[OF this] owed0 show ?thesis by simp
  qed (use moved in blast)+
qed

theorem identity_replies_conserved_witness:
  "owed (handle_controller_command demo_two (ManageIdentity 2 IdRemove 5)) = owed demo_two + {#5#}"
  using identity_replies_conserved[OF demo_two_reachable, of 2 IdRemove 5] by blast

end
